(* ===== verification/Prelude.thy ===== *)
theory Prelude
  imports Main "HOL-Library.Word" "HOL-Library.Multiset" "HOL-Library.Char_ord" "HOL-Library.List_Lexorder"
begin

section \<open>Shared vocabulary of the development\<close>

text \<open>
  This theory holds what every component uses: the result type of a Go function that
  returns a value and an error, the arithmetic of Go's fixed-width signed integers, and
  the generic list facts the component proofs share.

  Go strings and byte slices are both modelled by \<open>string\<close>, the type of character
  lists: a \<open>char\<close> is one byte, so \<open>length\<close> is Go's \<open>len\<close>, the conversions
  between \<open>string\<close> and \<open>[]byte\<close> are the identity, and the order on \<open>string\<close>
  (from the character order and the lexicographic order on lists) is Go's bytewise
  string order.
\<close>

named_theorems go_result \<open>rules for results of fallible Go functions\<close>
named_theorems go_arith \<open>fixed-width arithmetic that does not wrap\<close>

type_synonym bytes = string

subsection \<open>Results of fallible functions\<close>

text \<open>
  A Go function that returns \<open>(value, error)\<close> is a function into \<open>'e + 'a\<close>: \<open>Inl\<close>
  is the error return and \<open>Inr\<close> the value returned with a nil error.
\<close>

definition bindR :: "'e + 'a \<Rightarrow> ('a \<Rightarrow> 'e + 'b) \<Rightarrow> 'e + 'b" where
  "bindR r f = (case r of Inl e \<Rightarrow> Inl e | Inr x \<Rightarrow> f x)"

definition check :: "bool \<Rightarrow> 'e \<Rightarrow> 'e + unit" where
  "check ok e = (if ok then Inr () else Inl e)"

fun mapR :: "('a \<Rightarrow> 'e + 'b) \<Rightarrow> 'a list \<Rightarrow> 'e + 'b list" where
  "mapR f [] = Inr []"
| "mapR f (x # xs) = bindR (f x) (\<lambda>y. bindR (mapR f xs) (\<lambda>ys. Inr (y # ys)))"

fun foldR :: "('s \<Rightarrow> 'a \<Rightarrow> 'e + 's) \<Rightarrow> 's \<Rightarrow> 'a list \<Rightarrow> 'e + 's" where
  "foldR f s [] = Inr s"
| "foldR f s (x # xs) = bindR (f s x) (\<lambda>s'. foldR f s' xs)"

subsection \<open>64-bit signed integers\<close>

text \<open>
  A Go \<open>int64\<close> (and \<open>int\<close> on the 64-bit targets of this program) is an \<open>int\<close> in the
  range below; every addition or subtraction the source performs on it is written with
  \<open>add64\<close> or \<open>sub64\<close>, which wrap as the machine does.
\<close>

abbreviation maxInt64 :: int where
  "maxInt64 \<equiv> 9223372036854775807"

abbreviation minInt64 :: int where
  "minInt64 \<equiv> -9223372036854775808"

definition int64 :: "int \<Rightarrow> bool" where
  "int64 n \<longleftrightarrow> minInt64 \<le> n \<and> n \<le> maxInt64"

definition wrap64 :: "int \<Rightarrow> int" where
  "wrap64 n = (n + 9223372036854775808) mod 18446744073709551616 - 9223372036854775808"

definition add64 :: "int \<Rightarrow> int \<Rightarrow> int" where
  "add64 a b = wrap64 (a + b)"

definition sub64 :: "int \<Rightarrow> int \<Rightarrow> int" where
  "sub64 a b = wrap64 (a - b)"

definition mul64 :: "int \<Rightarrow> int \<Rightarrow> int" where
  "mul64 a b = wrap64 (a * b)"

text \<open>Go's \<open>/\<close> and \<open>%\<close> truncate towards zero.\<close>

definition quo :: "int \<Rightarrow> int \<Rightarrow> int" where
  "quo a b = sgn a * sgn b * (\<bar>a\<bar> div \<bar>b\<bar>)"

definition remn :: "int \<Rightarrow> int \<Rightarrow> int" where
  "remn a b = a - b * quo a b"

subsection \<open>Sorting with a comparison function\<close>

text \<open>
  \<open>sort.Slice\<close>, \<open>slices.SortFunc\<close> and their kin: the slice is permuted so that no later
  element is less than an earlier one. Ties keep their order here; every use in the
  program sorts by a key on which equal elements are interchangeable or rejected.
\<close>

fun insertBy :: "('a \<Rightarrow> 'a \<Rightarrow> bool) \<Rightarrow> 'a \<Rightarrow> 'a list \<Rightarrow> 'a list" where
  "insertBy lt x [] = [x]"
| "insertBy lt x (y # ys) = (if lt y x then y # insertBy lt x ys else x # y # ys)"

definition sortBy :: "('a \<Rightarrow> 'a \<Rightarrow> bool) \<Rightarrow> 'a list \<Rightarrow> 'a list" where
  "sortBy lt xs = foldr (insertBy lt) xs []"

subsection \<open>Facts about results\<close>

lemma bindR_simps [simp, go_result]:
  "bindR (Inl e) f = Inl e"
  "bindR (Inr x) f = f x"
  by (simp_all add: bindR_def)

lemma bindR_eq_Inr [go_result]: "bindR r f = Inr y \<longleftrightarrow> (\<exists>x. r = Inr x \<and> f x = Inr y)"
  by (cases r) auto

lemma bindR_eq_Inl [go_result]:
  "bindR r f = Inl e \<longleftrightarrow> r = Inl e \<or> (\<exists>x. r = Inr x \<and> f x = Inl e)"
  by (cases r) auto

lemma check_eq_Inr [simp, go_result]: "check ok e = Inr u \<longleftrightarrow> ok"
  by (simp add: check_def)

lemma check_eq_Inl [simp, go_result]: "check ok e = Inl e' \<longleftrightarrow> \<not> ok \<and> e' = e"
  by (auto simp add: check_def)

lemma check_True [simp]: "check True e = Inr ()"
  by (simp add: check_def)

lemma check_False [simp]: "check False e = Inl e"
  by (simp add: check_def)

lemma mapR_eq_Inr: "mapR f xs = Inr ys \<longleftrightarrow> list_all2 (\<lambda>x y. f x = Inr y) xs ys"
  by (induction xs arbitrary: ys) (auto simp: bindR_eq_Inr list_all2_Cons1)

lemma mapR_eq_InrI: "(\<And>x. x \<in> set xs \<Longrightarrow> f x = Inr (g x)) \<Longrightarrow> mapR f xs = Inr (map g xs)"
  by (induction xs) auto

lemma foldR_append: "foldR f s (xs @ ys) = bindR (foldR f s xs) (\<lambda>s'. foldR f s' ys)"
  by (induction xs arbitrary: s) (auto simp: bindR_def split: sum.splits)

lemma foldR_concat: "foldR (foldR f) s xss = foldR f s (concat xss)"
  by (induction xss arbitrary: s) (simp_all add: foldR_append)

lemma foldR_invariant:
  assumes "foldR f s xs = Inr s'" and "P s"
    and "\<And>s x s'. P s \<Longrightarrow> x \<in> set xs \<Longrightarrow> f s x = Inr s' \<Longrightarrow> P s'"
  shows "P s'"
  using assms
proof (induction xs arbitrary: s)
  case (Cons x xs)
  from Cons.prems(1) obtain t where t: "f s x = Inr t" "foldR f t xs = Inr s'"
    by (auto simp: bindR_eq_Inr)
  have "P t"
    by (rule Cons.prems(3) [OF Cons.prems(2) _ t(1)]) simp
  with t(2) show ?case
  proof (rule Cons.IH)
    fix s y s'
    assume "P s" and y: "y \<in> set xs" and "f s y = Inr s'"
    show "P s'"
      by (rule Cons.prems(3) [OF \<open>P s\<close> _ \<open>f s y = Inr s'\<close>]) (simp add: y)
  qed
qed simp

subsection \<open>Facts about 64-bit arithmetic\<close>

lemma wrap64_id [go_arith]: "int64 n \<Longrightarrow> wrap64 n = n"
  by (simp add: int64_def wrap64_def)

lemma int64_wrap64 [simp]: "int64 (wrap64 n)"
proof -
  have "0 \<le> (n + 9223372036854775808) mod 18446744073709551616"
    and "(n + 9223372036854775808) mod 18446744073709551616 < 18446744073709551616"
    by (simp_all add: pos_mod_sign pos_mod_bound)
  then show ?thesis by (simp add: int64_def wrap64_def)
qed

lemma add64_id [go_arith]: "int64 (a + b) \<Longrightarrow> add64 a b = a + b"
  by (simp add: add64_def wrap64_id)

lemma sub64_id [go_arith]: "int64 (a - b) \<Longrightarrow> sub64 a b = a - b"
  by (simp add: sub64_def wrap64_id)

lemma mul64_id [go_arith]: "int64 (a * b) \<Longrightarrow> mul64 a b = a * b"
  by (simp add: mul64_def wrap64_id)

lemma quo_nonneg: "0 \<le> a \<Longrightarrow> 0 < b \<Longrightarrow> quo a b = a div b"
  by (cases "a = 0") (simp_all add: quo_def)

lemma quo_neg: "a < 0 \<Longrightarrow> 0 < b \<Longrightarrow> quo a b = - ((- a) div b)"
  by (simp add: quo_def)

lemma remn_nonneg: "0 \<le> a \<Longrightarrow> 0 < b \<Longrightarrow> remn a b = a mod b"
  by (simp add: remn_def quo_nonneg minus_mult_div_eq_mod)

lemma remn_neg: "a < 0 \<Longrightarrow> 0 < b \<Longrightarrow> remn a b = - ((- a) mod b)"
  by (simp add: remn_def quo_neg minus_mult_div_eq_mod [symmetric])

lemma quo_remn: "b * quo a b + remn a b = a"
  by (simp add: remn_def)

subsection \<open>Facts about sorting\<close>

lemma mset_insertBy [simp]: "mset (insertBy lt x ys) = add_mset x (mset ys)"
  by (induction ys) auto

lemma mset_sortBy [simp]: "mset (sortBy lt xs) = mset xs"
  by (induction xs) (auto simp: sortBy_def)

lemma set_insertBy [simp]: "set (insertBy lt x ys) = insert x (set ys)"
  by (induction ys) auto

lemma length_insertBy [simp]: "length (insertBy lt x ys) = Suc (length ys)"
  by (induction ys) auto

lemma set_sortBy [simp]: "set (sortBy lt xs) = set xs"
  by (metis mset_sortBy set_mset_mset)

lemma length_sortBy [simp]: "length (sortBy lt xs) = length xs"
  by (metis mset_sortBy size_mset)

lemma distinct_sortBy [simp]: "distinct (sortBy lt xs) = distinct xs"
  by (metis mset_sortBy mset_eq_imp_distinct_iff)

lemma sortBy_simps [simp]:
  "sortBy lt [] = []"
  "sortBy lt (x # xs) = insertBy lt x (sortBy lt xs)"
  by (simp_all add: sortBy_def)

text \<open>
  The interface of a comparison passed to a sort: a strict weak order. The components
  that sort interpret this locale on their own comparison.
\<close>

locale strict_weak_order =
  fixes lt :: "'a \<Rightarrow> 'a \<Rightarrow> bool"
  assumes irrefl: "\<not> lt x x"
    and trans: "lt x y \<Longrightarrow> lt y z \<Longrightarrow> lt x z"
    and incomp_trans: "\<not> lt x y \<Longrightarrow> \<not> lt y z \<Longrightarrow> \<not> lt x z"
begin

lemma asym: "lt x y \<Longrightarrow> \<not> lt y x"
  using irrefl trans by blast

lemma insertBy_sorted:
  "sorted_wrt (\<lambda>a b. \<not> lt b a) ys \<Longrightarrow> sorted_wrt (\<lambda>a b. \<not> lt b a) (insertBy lt x ys)"
proof (induction ys)
  case (Cons y ys)
  then show ?case
    by (auto dest: asym incomp_trans)
qed simp

lemma sortBy_sorted: "sorted_wrt (\<lambda>a b. \<not> lt b a) (sortBy lt xs)"
  by (induction xs) (auto intro: insertBy_sorted)

lemma insertBy_take:
  assumes "sorted_wrt (\<lambda>a b. \<not> lt b a) ys" and "k \<le> length ys"
  shows "take k (insertBy lt x (take k ys)) = take k (insertBy lt x ys)"
  using assms
proof (induction ys arbitrary: k)
  case (Cons y ys)
  show ?case
  proof (cases k)
    case (Suc j)
    with Cons show ?thesis
      by (cases "lt y x") (auto simp: take_Cons' min_def)
  qed simp
qed simp

end

text \<open>
  Where a comparison is an order only on the values the program builds (averages compared
  by cross multiplication need positive counts), the interface has a carrier.
\<close>

locale strict_weak_order_on =
  fixes A :: "'a set"
    and lt :: "'a \<Rightarrow> 'a \<Rightarrow> bool"
  assumes irrefl_on: "x \<in> A \<Longrightarrow> \<not> lt x x"
    and trans_on: "x \<in> A \<Longrightarrow> y \<in> A \<Longrightarrow> z \<in> A \<Longrightarrow> lt x y \<Longrightarrow> lt y z \<Longrightarrow> lt x z"
    and incomp_trans_on: "x \<in> A \<Longrightarrow> y \<in> A \<Longrightarrow> z \<in> A \<Longrightarrow> \<not> lt x y \<Longrightarrow> \<not> lt y z \<Longrightarrow> \<not> lt x z"
begin

lemma asym_on: "x \<in> A \<Longrightarrow> y \<in> A \<Longrightarrow> lt x y \<Longrightarrow> \<not> lt y x"
  using irrefl_on trans_on by blast

lemma insertBy_sorted_on:
  "set (x # ys) \<subseteq> A \<Longrightarrow> sorted_wrt (\<lambda>a b. \<not> lt b a) ys \<Longrightarrow> sorted_wrt (\<lambda>a b. \<not> lt b a) (insertBy lt x ys)"
proof (induction ys)
  case (Cons y ys)
  then have mem: "x \<in> A" "y \<in> A" "set ys \<subseteq> A" by auto
  show ?case
  proof (cases "lt y x")
    case True
    with Cons mem show ?thesis by (auto dest: asym_on)
  next
    case False
    have "\<not> lt z x" if "z \<in> set ys" for z
      using incomp_trans_on [of z y x] Cons.prems that mem False by auto
    with False Cons.prems show ?thesis by auto
  qed
qed simp

lemma sortBy_sorted_on: "set xs \<subseteq> A \<Longrightarrow> sorted_wrt (\<lambda>a b. \<not> lt b a) (sortBy lt xs)"
  by (induction xs) (auto intro!: insertBy_sorted_on)

end

sublocale strict_weak_order \<subseteq> on: strict_weak_order_on UNIV lt
  by unfold_locales (use irrefl trans incomp_trans in blast)+

lemma sortBy_id:
  "sorted_wrt (\<lambda>a b. \<not> lt b a) xs \<Longrightarrow> sortBy lt xs = xs"
proof (induction xs)
  case (Cons x xs)
  then have "sortBy lt xs = xs" by simp
  with Cons.prems show ?case by (cases xs) auto
qed simp

interpretation linear_less: strict_weak_order "(<) :: 'a::linorder \<Rightarrow> 'a \<Rightarrow> bool"
  by unfold_locales auto

lemma sortBy_less_sorted: "sorted (sortBy (<) (xs :: 'a::linorder list))"
  using linear_less.sortBy_sorted [of xs] by (simp add: not_less)

lemma sortBy_less_eq_sort: "sortBy (<) xs = sort (xs :: 'a::linorder list)"
  by (metis mset_sortBy sortBy_less_sorted properties_for_sort)

lemma sortBy_less_idem [simp]: "sortBy (<) (sortBy (<) xs) = sortBy (<) (xs :: 'a::linorder list)"
  using sortBy_less_sorted [of xs] by (intro sortBy_id) (simp add: not_less)

lemma sortBy_eq_Nil [simp]: "sortBy lt xs = [] \<longleftrightarrow> xs = []"
  by (metis length_0_conv length_sortBy)

subsection \<open>Facts about lists\<close>

lemma list_all2_same_length: "list_all2 P xs ys \<Longrightarrow> length xs = length ys"
  by (rule list_all2_lengthD)

lemma sum_list_update:
  "k < length xs \<Longrightarrow> sum_list (xs[k := x]) = sum_list xs + x - xs ! k" for x :: int
  by (induction xs arbitrary: k) (auto split: nat.split)

subsection \<open>State machines\<close>

text \<open>
  A component with state is a predicate for its start states and a step relation; its
  reachable states are those a finite run leads to. The locale is the contract between a
  component and its invariant: a component interprets it with its own steps, and every
  fact about all reachable states follows.
\<close>

definition reachable :: "('s \<Rightarrow> bool) \<Rightarrow> ('s \<Rightarrow> 's \<Rightarrow> bool) \<Rightarrow> 's \<Rightarrow> bool" where
  "reachable init step t \<longleftrightarrow> (\<exists>s. init s \<and> step\<^sup>*\<^sup>* s t)"

lemma reachable_init: "init s \<Longrightarrow> reachable init step s"
  by (auto simp: reachable_def)

lemma reachable_step: "reachable init step s \<Longrightarrow> step s t \<Longrightarrow> reachable init step t"
  by (auto simp: reachable_def intro: rtranclp.rtrancl_into_rtrancl)

locale state_machine =
  fixes init :: "'s \<Rightarrow> bool"
    and step :: "'s \<Rightarrow> 's \<Rightarrow> bool"
    and inv :: "'s \<Rightarrow> bool"
  assumes init_inv: "init s \<Longrightarrow> inv s"
    and step_inv: "step s t \<Longrightarrow> inv s \<Longrightarrow> inv t"
begin

lemma run_inv: "step\<^sup>*\<^sup>* s t \<Longrightarrow> inv s \<Longrightarrow> inv t"
  by (induction rule: rtranclp_induct) (auto intro: step_inv)

lemma reachable_inv: "reachable init step s \<Longrightarrow> inv s"
  by (auto simp: reachable_def intro: run_inv init_inv)

lemma reachable_step_inv: "reachable init step s \<Longrightarrow> step s t \<Longrightarrow> inv t"
  by (blast intro: reachable_inv step_inv)

end

end
