(* ===== verification/Budget.thy ===== *)
theory Budget
  imports Prelude
begin

section \<open>Byte reservations and drain admission (internal/resource)\<close>

text \<open>
  The shared budget of \<open>internal/resource/budget.go\<close>. Every critical section under
  \<open>b.mu\<close> is one operation on the state below; goroutines interleave between critical
  sections, which the step relation \<open>budget_step\<close> makes explicit. The two channels of
  the Go struct are modelled by what the code relies on: whether a channel is closed
  (closing it twice panics) and, for \<open>changed\<close>, which channel object the field holds, so
  that a waiter keeps the channel it read under the lock.
\<close>

datatype budget_error = ErrLimited | ErrDraining | ErrCanceled

datatype go_panic = CloseOfClosedChannel | NonPositiveBudget

record budget =
  limit :: int
  used :: int
  draining :: bool
  drained :: bool
  changed :: "nat option"

record permit =
  permit_bytes :: int
  once_done :: bool

text \<open>
  The process around one budget: the channels created for \<open>changed\<close> so far (numbered),
  those closed, the permits handed out and the goroutines blocked in
  \<open>AcquireContext\<close>, each with its request and the channel it waits on.
\<close>

record budget_sys =
  bud :: budget
  next_chan :: nat
  closed_chans :: "nat list"
  permits :: "permit list"
  waiters :: "(int \<times> nat) list"

datatype attempt = Failed budget_error | Granted nat | Blocked nat

definition newBudget :: "int \<Rightarrow> go_panic + budget_sys" where
  "newBudget lim =
    (if lim \<le> 0 then Inl NonPositiveBudget
     else Inr \<lparr>bud = \<lparr>limit = lim, used = 0, draining = False, drained = False, changed = None\<rparr>,
               next_chan = 0, closed_chans = [], permits = [], waiters = []\<rparr>)"

definition grant :: "int \<Rightarrow> budget_sys \<Rightarrow> attempt \<times> budget_sys" where
  "grant n s =
    (Granted (length (permits s)),
     s\<lparr>bud := (bud s)\<lparr>used := add64 (used (bud s)) n\<rparr>,
       permits := permits s @ [\<lparr>permit_bytes = n, once_done = False\<rparr>]\<rparr>)"

text \<open>One pass of the loop of \<open>AcquireContext\<close>, up to the select.\<close>

definition acquireContext :: "bool \<Rightarrow> int \<Rightarrow> budget_sys \<Rightarrow> attempt \<times> budget_sys" where
  "acquireContext canceled n s =
    (let b = bud s in
     if canceled then (Failed ErrCanceled, s)
     else if draining b then (Failed ErrDraining, s)
     else if n \<le> 0 \<or> limit b < n then (Failed ErrLimited, s)
     else if n \<le> sub64 (limit b) (used b) then grant n s
     else (case changed b of
             Some c \<Rightarrow> (Blocked c, s\<lparr>waiters := (n, c) # waiters s\<rparr>)
           | None \<Rightarrow> (Blocked (next_chan s),
               s\<lparr>bud := b\<lparr>changed := Some (next_chan s)\<rparr>, next_chan := Suc (next_chan s),
                 waiters := (n, next_chan s) # waiters s\<rparr>)))"

definition acquire :: "int \<Rightarrow> budget_sys \<Rightarrow> attempt \<times> budget_sys" where
  "acquire n s =
    (let b = bud s in
     if draining b then (Failed ErrDraining, s)
     else if n \<le> 0 \<or> sub64 (limit b) (used b) < n then (Failed ErrLimited, s)
     else grant n s)"

definition closeChanged :: "budget_sys \<Rightarrow> go_panic + budget_sys" where
  "closeChanged s =
    (case changed (bud s) of
       None \<Rightarrow> Inr s
     | Some c \<Rightarrow> if c \<in> set (closed_chans s) then Inl CloseOfClosedChannel
         else Inr (s\<lparr>bud := (bud s)\<lparr>changed := None\<rparr>, closed_chans := c # closed_chans s\<rparr>))"

definition closeDrained :: "budget_sys \<Rightarrow> go_panic + budget_sys" where
  "closeDrained s =
    (if drained (bud s) then Inl CloseOfClosedChannel
     else Inr (s\<lparr>bud := (bud s)\<lparr>drained := True\<rparr>\<rparr>))"

text \<open>\<open>Permit.Release\<close> on the permit with index \<open>i\<close>; \<open>sync.Once\<close> makes it act once.\<close>

definition releasePermit :: "nat \<Rightarrow> budget_sys \<Rightarrow> go_panic + budget_sys" where
  "releasePermit i s =
    (let p = permits s ! i in
     if once_done p then Inr s
     else bindR (closeChanged (s\<lparr>bud := (bud s)\<lparr>used := sub64 (used (bud s)) (permit_bytes p)\<rparr>,
                                 permits := (permits s)[i := p\<lparr>once_done := True\<rparr>]\<rparr>))
       (\<lambda>s'. if draining (bud s') \<and> used (bud s') = 0 then closeDrained s' else Inr s'))"

text \<open>\<open>Budget.Drain\<close> up to its final select, which only waits for \<open>drained\<close> or the context.\<close>

definition drain :: "budget_sys \<Rightarrow> go_panic + budget_sys" where
  "drain s =
    (if draining (bud s) then Inr s
     else bindR (closeChanged (s\<lparr>bud := (bud s)\<lparr>draining := True\<rparr>\<rparr>))
       (\<lambda>s'. if used (bud s') = 0 then closeDrained s' else Inr s'))"

definition budgetUsed :: "budget_sys \<Rightarrow> int" where
  "budgetUsed s = used (bud s)"

definition budgetLimit :: "budget_sys \<Rightarrow> int" where
  "budgetLimit s = limit (bud s)"

definition budget_init :: "budget_sys \<Rightarrow> bool" where
  "budget_init s \<longleftrightarrow> (\<exists>lim. int64 lim \<and> newBudget lim = Inr s)"

text \<open>
  The interleavings: any goroutine may start or retry an acquisition, give up waiting
  because its context ended, wake because its channel was closed, release any permit it
  holds (again, too) or start a drain.
\<close>

inductive budget_step :: "budget_sys \<Rightarrow> budget_sys \<Rightarrow> bool" where
  step_acquireContext: "int64 n \<Longrightarrow> acquireContext canceled n s = (a, s') \<Longrightarrow> budget_step s s'"
| step_acquire: "int64 n \<Longrightarrow> acquire n s = (a, s') \<Longrightarrow> budget_step s s'"
| step_release: "i < length (permits s) \<Longrightarrow> releasePermit i s = Inr s' \<Longrightarrow> budget_step s s'"
| step_drain: "drain s = Inr s' \<Longrightarrow> budget_step s s'"
| step_wake: "(n, c) \<in> set (waiters s) \<Longrightarrow> c \<in> set (closed_chans s) \<Longrightarrow>
    budget_step s (s\<lparr>waiters := remove1 (n, c) (waiters s)\<rparr>)"
| step_cancel: "(n, c) \<in> set (waiters s) \<Longrightarrow>
    budget_step s (s\<lparr>waiters := remove1 (n, c) (waiters s)\<rparr>)"

definition outstanding :: "budget_sys \<Rightarrow> int" where
  "outstanding s = sum_list (map (\<lambda>p. if once_done p then 0 else permit_bytes p) (permits s))"

definition budget_inv :: "budget_sys \<Rightarrow> bool" where
  "budget_inv s \<longleftrightarrow>
     int64 (limit (bud s)) \<and> 0 \<le> used (bud s) \<and> used (bud s) \<le> limit (bud s) \<and>
     used (bud s) = outstanding s \<and>
     (\<forall>p \<in> set (permits s). 0 < permit_bytes p) \<and>
     (drained (bud s) \<longleftrightarrow> draining (bud s) \<and> used (bud s) = 0) \<and>
     (\<forall>c. changed (bud s) = Some c \<longrightarrow> c < next_chan s \<and> c \<notin> set (closed_chans s) \<and> \<not> draining (bud s)) \<and>
     (\<forall>c \<in> set (closed_chans s). c < next_chan s) \<and>
     (\<forall>(n, c) \<in> set (waiters s). c \<in> set (closed_chans s) \<or> changed (bud s) = Some c)"

subsection \<open>Accounting of outstanding permits\<close>

definition live_bytes :: "permit \<Rightarrow> int" where
  "live_bytes p = (if once_done p then 0 else permit_bytes p)"

lemma outstanding_live: "outstanding s = sum_list (map live_bytes (permits s))"
  by (simp add: outstanding_def live_bytes_def cong: map_cong)

lemma sum_live_release:
  assumes "i < length ps" and "\<not> once_done (ps ! i)"
  shows "sum_list (map live_bytes (ps[i := (ps ! i)\<lparr>once_done := True\<rparr>]))
       = sum_list (map live_bytes ps) - permit_bytes (ps ! i)"
  using assms by (simp add: map_update sum_list_update live_bytes_def)

lemma live_le_sum:
  assumes "i < length ps" and "\<not> once_done (ps ! i)" and "\<forall>p \<in> set ps. 0 < permit_bytes p"
  shows "permit_bytes (ps ! i) \<le> sum_list (map live_bytes ps)"
  using assms
proof (induction ps arbitrary: i)
  case (Cons p ps)
  have tail: "0 \<le> sum_list (map live_bytes ps)"
    using Cons.prems(3) by (intro sum_list_nonneg) (auto simp: live_bytes_def less_imp_le)
  show ?case
  proof (cases i)
    case 0
    with Cons.prems tail show ?thesis by (simp add: live_bytes_def [of p])
  next
    case (Suc j)
    with Cons have "permit_bytes (ps ! j) \<le> sum_list (map live_bytes ps)" by simp
    moreover have "0 \<le> live_bytes p"
      using Cons.prems(3) by (auto simp: live_bytes_def less_imp_le)
    ultimately show ?thesis using Suc by simp
  qed
qed simp

lemma set_update_done:
  "\<forall>p \<in> set ps. 0 < permit_bytes p \<Longrightarrow> i < length ps \<Longrightarrow>
   \<forall>p \<in> set (ps[i := (ps ! i)\<lparr>once_done := True\<rparr>]). 0 < permit_bytes p"
  by (auto dest!: subsetD [OF set_update_subset_insert])

subsection \<open>Every operation keeps the invariant and never panics\<close>

lemma budget_inv_sub64: "budget_inv s \<Longrightarrow> sub64 (limit (bud s)) (used (bud s)) = limit (bud s) - used (bud s)"
  by (intro sub64_id) (auto simp: budget_inv_def int64_def)

lemma grant_inv:
  assumes "budget_inv s" and "0 < n" and "n \<le> limit (bud s) - used (bud s)" and "\<not> draining (bud s)"
  shows "budget_inv (snd (grant n s))"
proof -
  have "add64 (used (bud s)) n = used (bud s) + n"
    using assms by (intro add64_id) (auto simp: budget_inv_def int64_def)
  with assms show ?thesis
    by (auto simp: budget_inv_def grant_def outstanding_live live_bytes_def)
qed

lemma acquire_inv: "budget_inv s \<Longrightarrow> budget_inv (snd (acquire n s))"
  by (auto simp: acquire_def Let_def budget_inv_sub64 intro: grant_inv)

lemma acquireContext_inv:
  assumes "budget_inv s"
  shows "budget_inv (snd (acquireContext canceled n s))"
proof (cases "changed (bud s)")
  case None
  with assms show ?thesis
    by (auto simp: acquireContext_def Let_def budget_inv_sub64 intro: grant_inv)
      (auto simp: budget_inv_def outstanding_def)
next
  case (Some c)
  with assms show ?thesis
    by (auto simp: acquireContext_def Let_def budget_inv_sub64 intro: grant_inv)
      (auto simp: budget_inv_def outstanding_def)
qed

lemma closeChanged_ok:
  assumes "\<forall>c. changed (bud s) = Some c \<longrightarrow> c \<notin> set (closed_chans s)"
  shows "\<exists>s'. closeChanged s = Inr s' \<and> changed (bud s') = None \<and>
     bud s' = (bud s)\<lparr>changed := None\<rparr> \<and> permits s' = permits s \<and> waiters s' = waiters s \<and>
     next_chan s' = next_chan s \<and> set (closed_chans s') = set (closed_chans s) \<union> set_option (changed (bud s))"
  using assms by (cases "changed (bud s)") (auto simp: closeChanged_def)

lemma releasePermit_total:
  assumes inv: "budget_inv s" and i: "i < length (permits s)"
  shows "\<exists>s'. releasePermit i s = Inr s' \<and> budget_inv s' \<and>
    (\<not> once_done (permits s ! i) \<longrightarrow>
       used (bud s') = used (bud s) - permit_bytes (permits s ! i) \<and>
       (\<forall>(n, c) \<in> set (waiters s'). c \<in> set (closed_chans s')))"
proof (cases "once_done (permits s ! i)")
  case True
  with inv show ?thesis by (simp add: releasePermit_def)
next
  case False
  let ?p = "permits s ! i"
  have le: "permit_bytes ?p \<le> used (bud s)"
    using live_le_sum [OF i False] inv by (simp add: budget_inv_def outstanding_live)
  have pos: "0 < permit_bytes ?p"
    using inv i by (simp add: budget_inv_def)
  have sub: "sub64 (used (bud s)) (permit_bytes ?p) = used (bud s) - permit_bytes ?p"
    using inv le pos by (intro sub64_id) (auto simp: budget_inv_def int64_def)
  define s1 where "s1 = s\<lparr>bud := (bud s)\<lparr>used := used (bud s) - permit_bytes ?p\<rparr>,
      permits := (permits s)[i := ?p\<lparr>once_done := True\<rparr>]\<rparr>"
  have "\<forall>c. changed (bud s1) = Some c \<longrightarrow> c \<notin> set (closed_chans s1)"
    using inv by (auto simp: s1_def budget_inv_def)
  from closeChanged_ok [OF this] obtain s2 where s2: "closeChanged s1 = Inr s2"
    "bud s2 = (bud s1)\<lparr>changed := None\<rparr>" "permits s2 = permits s1" "waiters s2 = waiters s1"
    "next_chan s2 = next_chan s1"
    "set (closed_chans s2) = set (closed_chans s1) \<union> set_option (changed (bud s1))"
    by blast
  have nd: "\<not> drained (bud s2)"
    using inv pos le by (auto simp: s2 s1_def budget_inv_def)
  have out: "outstanding s2 = outstanding s - permit_bytes ?p"
    using sum_live_release [OF i False] by (simp add: outstanding_live s2 s1_def)
  have rel: "releasePermit i s =
    (if draining (bud s2) \<and> used (bud s2) = 0 then closeDrained s2 else Inr s2)"
    using False by (simp add: releasePermit_def Let_def sub s1_def [symmetric] s2)
  define s3 where "s3 = (if draining (bud s2) \<and> used (bud s2) = 0
     then s2\<lparr>bud := (bud s2)\<lparr>drained := True\<rparr>\<rparr> else s2)"
  have s3: "releasePermit i s = Inr s3"
    using rel nd by (simp add: s3_def closeDrained_def)
  have upd: "\<forall>p \<in> set (permits s3). 0 < permit_bytes p"
    using inv i set_update_done [of "permits s" i] by (auto simp: s3_def s2 s1_def budget_inv_def)
  have bud3: "used (bud s3) = used (bud s) - permit_bytes ?p" "limit (bud s3) = limit (bud s)"
    "changed (bud s3) = None" "draining (bud s3) = draining (bud s)"
    "drained (bud s3) = (draining (bud s) \<and> used (bud s3) = 0)"
    "outstanding s3 = outstanding s - permit_bytes ?p"
    using nd out by (auto simp: s3_def s2 s1_def outstanding_def)
  have wait: "\<forall>(n, c) \<in> set (waiters s3). c \<in> set (closed_chans s3)"
    "\<forall>c \<in> set (closed_chans s3). c < next_chan s3"
    using inv by (auto simp: s3_def s2 s1_def budget_inv_def)
  have "budget_inv s3"
    using inv le pos bud3 wait upd by (auto simp: budget_inv_def)
  with s3 bud3 wait show ?thesis by auto
qed

lemma drain_total:
  assumes inv: "budget_inv s"
  shows "\<exists>s'. drain s = Inr s' \<and> budget_inv s' \<and> draining (bud s') \<and> used (bud s') = used (bud s) \<and>
    (\<not> draining (bud s) \<longrightarrow> (\<forall>(n, c) \<in> set (waiters s'). c \<in> set (closed_chans s')))"
proof (cases "draining (bud s)")
  case True
  with inv show ?thesis by (simp add: drain_def)
next
  case False
  define s1 where "s1 = s\<lparr>bud := (bud s)\<lparr>draining := True\<rparr>\<rparr>"
  have "\<forall>c. changed (bud s1) = Some c \<longrightarrow> c \<notin> set (closed_chans s1)"
    using inv by (auto simp: s1_def budget_inv_def)
  from closeChanged_ok [OF this] obtain s2 where s2: "closeChanged s1 = Inr s2"
    "bud s2 = (bud s1)\<lparr>changed := None\<rparr>" "permits s2 = permits s1" "waiters s2 = waiters s1"
    "next_chan s2 = next_chan s1"
    "set (closed_chans s2) = set (closed_chans s1) \<union> set_option (changed (bud s1))"
    by blast
  define s3 where "s3 = (if used (bud s2) = 0 then s2\<lparr>bud := (bud s2)\<lparr>drained := True\<rparr>\<rparr> else s2)"
  have "drain s = Inr s3"
    using False inv
    by (simp add: drain_def s1_def [symmetric] s2(1) closeDrained_def s3_def)
      (auto simp: s2 s1_def budget_inv_def)
  moreover have "budget_inv s3"
    using inv False by (auto simp: budget_inv_def s3_def s2 s1_def outstanding_def)
  moreover have "draining (bud s3)" "used (bud s3) = used (bud s)"
    "\<forall>(n, c) \<in> set (waiters s3). c \<in> set (closed_chans s3)"
    using inv by (auto simp: s3_def s2 s1_def budget_inv_def)
  ultimately show ?thesis by auto
qed

lemma budget_step_inv: "budget_step s t \<Longrightarrow> budget_inv s \<Longrightarrow> budget_inv t"
proof (induction rule: budget_step.induct)
  case (step_acquireContext n canceled s a s')
  then show ?case using acquireContext_inv [of s canceled n] by simp
next
  case (step_acquire n s a s')
  then show ?case using acquire_inv [of s n] by simp
next
  case (step_release i s s')
  then show ?case using releasePermit_total [of s i] by auto
next
  case (step_drain s s')
  then show ?case using drain_total [of s] by auto
next
  case (step_wake n c s)
  then show ?case by (auto simp: budget_inv_def outstanding_def dest!: subsetD [OF set_remove1_subset])
next
  case (step_cancel n c s)
  then show ?case by (auto simp: budget_inv_def outstanding_def dest!: subsetD [OF set_remove1_subset])
qed

lemma budget_init_inv: "budget_init s \<Longrightarrow> budget_inv s"
  by (auto simp: budget_init_def newBudget_def budget_inv_def outstanding_def split: if_splits)

interpretation budget_machine: state_machine budget_init budget_step budget_inv
  by unfold_locales (fact budget_init_inv, rule budget_step_inv)

subsection \<open>What the budget guarantees\<close>

text \<open>A run used by the witnesses: ten bytes, four held, a request for eight waiting.\<close>

definition demo_start :: budget_sys where
  "demo_start = \<lparr>bud = \<lparr>limit = 10, used = 0, draining = False, drained = False, changed = None\<rparr>,
     next_chan = 0, closed_chans = [], permits = [], waiters = []\<rparr>"

definition demo_waiting :: budget_sys where
  "demo_waiting = \<lparr>bud = \<lparr>limit = 10, used = 4, draining = False, drained = False, changed = Some 0\<rparr>,
     next_chan = 1, closed_chans = [], permits = [\<lparr>permit_bytes = 4, once_done = False\<rparr>], waiters = [(8, 0)]\<rparr>"

lemma demo_waiting_reachable: "reachable budget_init budget_step demo_waiting"
proof -
  have "budget_init demo_start"
    by (auto simp: budget_init_def newBudget_def demo_start_def int64_def intro!: exI [of _ 10])
  moreover have "budget_step demo_start (snd (acquire 4 demo_start))"
    by (rule step_acquire [of 4 _ "fst (acquire 4 demo_start)"]) (simp_all add: int64_def)
  moreover have "budget_step (snd (acquire 4 demo_start)) (snd (acquireContext False 8 (snd (acquire 4 demo_start))))"
    by (rule step_acquireContext [of 8 False _ "fst (acquireContext False 8 (snd (acquire 4 demo_start)))"])
      (simp_all add: int64_def)
  ultimately have "reachable budget_init budget_step (snd (acquireContext False 8 (snd (acquire 4 demo_start))))"
    by (blast intro: reachable_init reachable_step)
  moreover have "snd (acquireContext False 8 (snd (acquire 4 demo_start))) = demo_waiting"
    by (simp add: acquire_def acquireContext_def demo_start_def demo_waiting_def grant_def
        sub64_def add64_def wrap64_def)
  ultimately show ?thesis by simp
qed

text \<open>
  C21. In every reachable interleaving of acquisitions, releases, cancellations and drains
  the bytes in use are exactly the bytes of the permits not yet released, and they stay
  between zero and the limit: no reservation is counted twice or lost and the budget is
  never overcommitted.
\<close>

theorem budget_never_overcommitted:
  assumes "reachable budget_init budget_step s"
  shows "budgetUsed s = outstanding s \<and> 0 \<le> budgetUsed s \<and> budgetUsed s \<le> budgetLimit s"
  using budget_machine.reachable_inv [OF assms]
  by (simp add: budget_inv_def budgetUsed_def budgetLimit_def)

theorem budget_never_overcommitted_witness:
  "reachable budget_init budget_step demo_waiting \<and> outstanding demo_waiting = 4 \<and>
   budgetUsed demo_waiting = outstanding demo_waiting \<and> budgetUsed demo_waiting \<le> budgetLimit demo_waiting"
  using budget_never_overcommitted [OF demo_waiting_reachable] demo_waiting_reachable
  by (simp add: demo_waiting_def outstanding_def)

text \<open>
  No reachable interleaving panics by closing a channel twice: releasing any permit
  (also one released before) and starting a drain (also a second one) always return, and
  the drained channel is closed exactly when a drain has started and no permit is live.
\<close>

theorem budget_no_double_close:
  assumes "reachable budget_init budget_step s"
  shows "(\<forall>i < length (permits s). \<exists>s'. releasePermit i s = Inr s') \<and> (\<exists>s'. drain s = Inr s') \<and>
    (drained (bud s) \<longleftrightarrow> draining (bud s) \<and> outstanding s = 0)"
proof -
  have inv: "budget_inv s" by (rule budget_machine.reachable_inv [OF assms])
  have "\<forall>i < length (permits s). \<exists>s'. releasePermit i s = Inr s'"
    using releasePermit_total [OF inv] by blast
  moreover have "\<exists>s'. drain s = Inr s'"
    using drain_total [OF inv] by blast
  moreover have "drained (bud s) \<longleftrightarrow> draining (bud s) \<and> outstanding s = 0"
    using inv by (simp add: budget_inv_def)
  ultimately show ?thesis by simp
qed

theorem budget_no_double_close_witness:
  "reachable budget_init budget_step demo_waiting \<and>
   (\<exists>s'. releasePermit 0 demo_waiting = Inr s') \<and> (\<exists>s'. drain demo_waiting = Inr s')"
proof -
  have "0 < length (permits demo_waiting)" by (simp add: demo_waiting_def)
  then show ?thesis
    using budget_no_double_close [OF demo_waiting_reachable] demo_waiting_reachable by blast
qed

text \<open>
  No wake-up is lost: the first release of a permit returns its bytes and leaves no
  goroutine blocked on an open channel, so every waiter retries; and once a drain has
  started every acquisition is refused without changing the budget.
\<close>

theorem budget_release_wakes_all:
  assumes "reachable budget_init budget_step s" and "i < length (permits s)"
    and "\<not> once_done (permits s ! i)" and "releasePermit i s = Inr s'"
  shows "budgetUsed s' = budgetUsed s - permit_bytes (permits s ! i) \<and>
    (\<forall>(n, c) \<in> set (waiters s'). c \<in> set (closed_chans s')) \<and>
    (draining (bud s') \<longrightarrow> (\<forall>n. acquire n s' = (Failed ErrDraining, s')))"
proof -
  have inv: "budget_inv s" by (rule budget_machine.reachable_inv [OF assms(1)])
  from releasePermit_total [OF inv assms(2)] assms(3,4)
  have "used (bud s') = used (bud s) - permit_bytes (permits s ! i)"
    and "\<forall>(n, c) \<in> set (waiters s'). c \<in> set (closed_chans s')"
    by auto
  then show ?thesis
    by (simp add: budgetUsed_def acquire_def Let_def)
qed

theorem budget_release_wakes_all_witness:
  "\<exists>s'. releasePermit 0 demo_waiting = Inr s' \<and> waiters s' = [(8, 0)] \<and> budgetUsed s' = 0 \<and>
     (\<forall>(n, c) \<in> set (waiters s'). c \<in> set (closed_chans s'))"
proof -
  have i: "0 < length (permits demo_waiting)" "\<not> once_done (permits demo_waiting ! 0)"
    by (simp_all add: demo_waiting_def)
  obtain s' where s': "releasePermit 0 demo_waiting = Inr s'"
    by (auto simp: releasePermit_def demo_waiting_def closeChanged_def)
  have "waiters s' = [(8, 0)]"
    using s' by (auto simp: releasePermit_def demo_waiting_def closeChanged_def)
  with s' budget_release_wakes_all [OF demo_waiting_reachable i s'] show ?thesis
    by (auto simp: demo_waiting_def budgetUsed_def)
qed

end
