(* ===== verification/GoStd.thy ===== *)
theory GoStd
  imports Prelude
begin

unbundle bit_operations_syntax

section \<open>The parts of Go's standard library the program uses\<close>

text \<open>
  Executable models of \<open>encoding/hex\<close>, \<open>crypto/sha256\<close> and the functions of \<open>strings\<close>
  that the modelled packages call. A digest is a string of 32 bytes, as in Go. The SHA-256
  compression function is written out on 32-bit words, so that identities are functions of
  the bytes hashed and a statement about two equal digests can speak of a collision of the
  real function.
\<close>

type_synonym u32 = "32 word"

subsection \<open>strings\<close>

text \<open>
  \<open>strings.ToLower\<close> on the ASCII range. Every caller below accepts only strings whose
  lower-case form is hexadecimal, and no code point outside ASCII maps to a hexadecimal
  digit, so the Unicode part of the mapping never decides a result.
\<close>

definition lower_char :: "char \<Rightarrow> char" where
  "lower_char c = (let n = of_char c :: int in if 65 \<le> n \<and> n \<le> 90 then char_of (n + 32) else c)"

definition to_lower :: "string \<Rightarrow> string" where
  "to_lower s = map lower_char s"

fun has_prefix :: "string \<Rightarrow> string \<Rightarrow> bool" where
  "has_prefix s [] = True"
| "has_prefix [] (p # ps) = False"
| "has_prefix (c # cs) (p # ps) = (c = p \<and> has_prefix cs ps)"

definition trim_left :: "char \<Rightarrow> string \<Rightarrow> string" where
  "trim_left c s = dropWhile (\<lambda>x. x = c) s"

definition remove_all :: "char \<Rightarrow> string \<Rightarrow> string" where
  "remove_all c s = filter (\<lambda>x. x \<noteq> c) s"

text \<open>The pieces of \<open>strings.Join\<close>: the separator between consecutive parts.\<close>

fun separate :: "'a \<Rightarrow> 'a list \<Rightarrow> 'a list" where
  "separate sep [] = []"
| "separate sep [x] = [x]"
| "separate sep (x # y # ys) = x # sep # separate sep (y # ys)"

subsection \<open>encoding/hex\<close>

definition hex_val :: "char \<Rightarrow> int option" where
  "hex_val c =
    (let n = of_char c :: int
     in if 48 \<le> n \<and> n \<le> 57 then Some (n - 48)
        else if 97 \<le> n \<and> n \<le> 102 then Some (n - 87)
        else if 65 \<le> n \<and> n \<le> 70 then Some (n - 55)
        else None)"

fun hex_decode :: "string \<Rightarrow> string option" where
  "hex_decode [] = Some []"
| "hex_decode [c] = None"
| "hex_decode (a # b # s) =
    (case hex_val a of None \<Rightarrow> None
     | Some x \<Rightarrow> (case hex_val b of None \<Rightarrow> None
       | Some y \<Rightarrow> (case hex_decode s of None \<Rightarrow> None
         | Some bs \<Rightarrow> Some (char_of (16 * x + y) # bs))))"

definition hex_digit :: "int \<Rightarrow> char" where
  "hex_digit n = (if n < 10 then char_of (n + 48) else char_of (n + 87))"

definition hex_encode :: "string \<Rightarrow> string" where
  "hex_encode bs = concat (map (\<lambda>c. [hex_digit (of_char c div 16), hex_digit (of_char c mod 16)]) bs)"

definition lower_hex_char :: "char \<Rightarrow> bool" where
  "lower_hex_char c = (let n = of_char c :: int in (48 \<le> n \<and> n \<le> 57) \<or> (97 \<le> n \<and> n \<le> 102))"

subsection \<open>Decimal text: strconv.FormatInt and math/big\<close>

function show_pos :: "int \<Rightarrow> string" where
  "show_pos n = (if n < 10 then [char_of (n + 48)] else show_pos (n div 10) @ [char_of (n mod 10 + 48)])"
  by pat_completeness auto
termination
  by (relation "measure nat") auto

declare show_pos.simps [simp del]

definition showInt :: "int \<Rightarrow> string" where
  "showInt n = (if n < 0 then CHR ''-'' # show_pos (- n) else show_pos n)"

definition digit_char :: "char \<Rightarrow> bool" where
  "digit_char c = (let n = of_char c :: int in 48 \<le> n \<and> n \<le> 57)"

definition parse_digits :: "string \<Rightarrow> int option" where
  "parse_digits s =
    (if s \<noteq> [] \<and> list_all digit_char s then Some (foldl (\<lambda>acc c. 10 * acc + (of_char c - 48)) 0 s) else None)"

text \<open>\<open>big.Int.SetString(value, 10)\<close>: an optional sign, then at least one decimal digit.\<close>

definition bigSetString :: "string \<Rightarrow> int option" where
  "bigSetString s =
    (case s of
       [] \<Rightarrow> None
     | c # cs \<Rightarrow> if c = CHR ''-'' then map_option uminus (parse_digits cs)
                 else if c = CHR ''+'' then parse_digits cs
                 else parse_digits s)"

subsection \<open>crypto/sha256\<close>

definition sha256_k :: "u32 list" where
  "sha256_k =
   [1116352408, 1899447441, 3049323471, 3921009573, 961987163, 1508970993, 2453635748, 2870763221,
    3624381080, 310598401, 607225278, 1426881987, 1925078388, 2162078206, 2614888103, 3248222580,
    3835390401, 4022224774, 264347078, 604807628, 770255983, 1249150122, 1555081692, 1996064986,
    2554220882, 2821834349, 2952996808, 3210313671, 3336571891, 3584528711, 113926993, 338241895,
    666307205, 773529912, 1294757372, 1396182291, 1695183700, 1986661051, 2177026350, 2456956037,
    2730485921, 2820302411, 3259730800, 3345764771, 3516065817, 3600352804, 4094571909, 275423344,
    430227734, 506948616, 659060556, 883997877, 958139571, 1322822218, 1537002063, 1747873779,
    1955562222, 2024104815, 2227730452, 2361852424, 2428436474, 2756734187, 3204031479, 3329325298]"

definition sha256_init :: "u32 list" where
  "sha256_init = [1779033703, 3144134277, 1013904242, 2773480762, 1359893119, 2600822924, 528734635, 1541459225]"

definition rotr32 :: "nat \<Rightarrow> u32 \<Rightarrow> u32" where
  "rotr32 n w = drop_bit n w OR push_bit (32 - n) w"

fun sha256_extend :: "nat \<Rightarrow> u32 list \<Rightarrow> u32 list" where
  "sha256_extend 0 w = w"
| "sha256_extend (Suc n) w =
    (let i = length w;
         x15 = w ! (i - 15); x2 = w ! (i - 2);
         s0 = rotr32 7 x15 XOR rotr32 18 x15 XOR drop_bit 3 x15;
         s1 = rotr32 17 x2 XOR rotr32 19 x2 XOR drop_bit 10 x2
     in sha256_extend n (w @ [w ! (i - 16) + s0 + w ! (i - 7) + s1]))"

fun sha256_round :: "u32 list \<Rightarrow> u32 \<times> u32 \<Rightarrow> u32 list" where
  "sha256_round [a, b, c, d, e, f, g, h] (k, w) =
    (let s1 = rotr32 6 e XOR rotr32 11 e XOR rotr32 25 e;
         ch = (e AND f) XOR (NOT e AND g);
         t1 = h + s1 + ch + k + w;
         s0 = rotr32 2 a XOR rotr32 13 a XOR rotr32 22 a;
         maj = (a AND b) XOR (a AND c) XOR (b AND c)
     in [t1 + s0 + maj, a, b, c, d + t1, e, f, g])"
| "sha256_round s _ = s"

definition sha256_block :: "u32 list \<Rightarrow> u32 list \<Rightarrow> u32 list" where
  "sha256_block st ws = map2 (+) st (foldl sha256_round st (zip sha256_k (sha256_extend 48 ws)))"

definition be_word :: "string \<Rightarrow> u32" where
  "be_word bs = foldl (\<lambda>acc c. acc * 256 + of_char c) 0 bs"

definition be_bytes :: "nat \<Rightarrow> int \<Rightarrow> string" where
  "be_bytes n v = map (\<lambda>i. char_of (v div 256 ^ (n - 1 - i))) [0..<n]"

definition sha256_pad :: "string \<Rightarrow> string" where
  "sha256_pad m = m @ [char_of (128::int)] @ replicate ((119 - length m mod 64) mod 64) (char_of (0::int)) @ be_bytes 8 (8 * int (length m))"

fun chunks :: "nat \<Rightarrow> nat \<Rightarrow> 'a list \<Rightarrow> 'a list list" where
  "chunks 0 k xs = []"
| "chunks (Suc n) k xs = take k xs # chunks n k (drop k xs)"

definition sha256 :: "string \<Rightarrow> string" where
  "sha256 m =
    (let p = sha256_pad m;
         blocks = chunks (length p div 64) 64 p;
         st = foldl (\<lambda>s b. sha256_block s (map be_word (chunks 16 4 b))) sha256_init blocks
     in concat (map (\<lambda>w. be_bytes 4 (uint w)) st))"


definition sha256_hex :: "string \<Rightarrow> string" where
  "sha256_hex m = hex_encode (sha256 m)"

subsection \<open>Facts\<close>

lemma of_char_int_range [simp]: "0 \<le> (of_char c :: int)" "(of_char c :: int) < 256"
proof -
  have "(of_char c :: int) = of_char c mod 256" by simp
  then show "0 \<le> (of_char c :: int)" "(of_char c :: int) < 256"
    by (metis pos_mod_sign pos_mod_bound zero_less_numeral)+
qed

lemma of_char_char_of_int: "0 \<le> n \<Longrightarrow> n < 256 \<Longrightarrow> (of_char (char_of n) :: int) = n"
  by simp

lemma hex_val_hex_digit: "0 \<le> n \<Longrightarrow> n < 16 \<Longrightarrow> hex_val (hex_digit n) = Some n"
  by (simp add: hex_val_def hex_digit_def Let_def of_char_char_of_int)

lemma lower_hex_digit: "0 \<le> n \<Longrightarrow> n < 16 \<Longrightarrow> lower_hex_char (hex_digit n)"
  by (auto simp add: lower_hex_char_def hex_digit_def Let_def of_char_char_of_int)

lemma hex_encode_simps [simp]:
  "hex_encode [] = []"
  "hex_encode (c # cs) = hex_digit (of_char c div 16) # hex_digit (of_char c mod 16) # hex_encode cs"
  by (simp_all add: hex_encode_def)

lemma of_char_div_mod_range:
  "0 \<le> (of_char c :: int) div 16" "(of_char c :: int) div 16 < 16"
  "0 \<le> (of_char c :: int) mod 16" "(of_char c :: int) mod 16 < 16"
proof -
  show "(of_char c :: int) div 16 < 16"
    using of_char_int_range [of c] by linarith
qed (simp_all add: pos_imp_zdiv_nonneg_iff)

lemma hex_decode_encode: "hex_decode (hex_encode bs) = Some bs"
  by (induction bs) (simp_all add: hex_val_hex_digit of_char_div_mod_range)

lemma length_hex_encode [simp]: "length (hex_encode bs) = 2 * length bs"
  by (induction bs) simp_all

lemma hex_encode_lower: "list_all lower_hex_char (hex_encode bs)"
  by (induction bs) (simp_all add: lower_hex_digit of_char_div_mod_range)

lemma hex_encode_inj: "hex_encode a = hex_encode b \<longleftrightarrow> a = b"
  by (metis hex_decode_encode option.inject)

subsection \<open>Decimal text round trip\<close>

lemma show_pos_small: "n < 10 \<Longrightarrow> show_pos n = [char_of (n + 48)]"
  by (simp add: show_pos.simps [of n])

lemma show_pos_big: "10 \<le> n \<Longrightarrow> show_pos n = show_pos (n div 10) @ [char_of (n mod 10 + 48)]"
  by (simp add: show_pos.simps [of n])

lemma show_pos_digits: "0 \<le> n \<Longrightarrow> list_all digit_char (show_pos n) \<and> show_pos n \<noteq> []"
proof (induction n rule: show_pos.induct)
  case (1 n)
  show ?case
  proof (cases "n < 10")
    case True
    with 1 show ?thesis by (simp add: show_pos_small digit_char_def)
  next
    case False
    with 1 show ?thesis
      by (auto simp: show_pos_big digit_char_def pos_imp_zdiv_nonneg_iff)
  qed
qed

lemma foldl_show_pos: "0 \<le> n \<Longrightarrow> foldl (\<lambda>acc c. 10 * acc + (of_char c - 48)) 0 (show_pos n) = n"
proof (induction n rule: show_pos.induct)
  case (1 n)
  show ?case
  proof (cases "n < 10")
    case True
    with 1 show ?thesis by (simp add: show_pos_small)
  next
    case False
    with 1 show ?thesis
      by (simp add: show_pos_big pos_imp_zdiv_nonneg_iff)
  qed
qed

lemma parse_show_pos: "0 \<le> n \<Longrightarrow> parse_digits (show_pos n) = Some n"
  using show_pos_digits [of n] by (simp add: parse_digits_def foldl_show_pos)

lemma digit_char_not_sign: "digit_char c \<Longrightarrow> c \<noteq> CHR ''-'' \<and> c \<noteq> CHR ''+''"
  by (auto simp: digit_char_def)

lemma bigSetString_digits: "s \<noteq> [] \<Longrightarrow> list_all digit_char s \<Longrightarrow> bigSetString s = parse_digits s"
  by (cases s) (auto simp: bigSetString_def dest: digit_char_not_sign)

lemma bigSetString_showInt [simp]: "bigSetString (showInt n) = Some n"
proof (cases "n < 0")
  case True
  then show ?thesis by (simp add: showInt_def bigSetString_def parse_show_pos)
next
  case False
  then have "showInt n = show_pos n" by (simp add: showInt_def)
  with False show ?thesis
    using show_pos_digits [of n] by (simp add: bigSetString_digits parse_show_pos)
qed

lemma showInt_inj: "showInt a = showInt b \<longleftrightarrow> a = b"
  by (metis bigSetString_showInt option.inject)

abbreviation digits_value :: "string \<Rightarrow> int" where
  "digits_value s \<equiv> foldl (\<lambda>acc c. 10 * acc + (of_char c - 48)) 0 s"

lemma foldl_digits: "foldl (\<lambda>acc c. 10 * acc + (of_char c - 48)) a s = a * 10 ^ length s + digits_value s" for a :: int
proof (induction s arbitrary: a)
  case (Cons c s)
  from Cons [of "10 * a + (of_char c - 48)"] Cons [of "of_char c - 48"] show ?case
    by (simp add: algebra_simps)
qed simp

lemma digits_value_append: "digits_value (s @ t) = digits_value s * 10 ^ length t + digits_value t"
  using foldl_digits [of "digits_value s" t] by simp

lemma digits_value_zeros [simp]: "digits_value (replicate n CHR ''0'') = 0"
  by (induction n) simp_all

lemma length_show_pos: "0 \<le> n \<Longrightarrow> n < 10 ^ k \<Longrightarrow> 0 < k \<Longrightarrow> length (show_pos n) \<le> k"
proof (induction n arbitrary: k rule: show_pos.induct)
  case (1 n)
  show ?case
  proof (cases "n < 10")
    case True
    with 1 show ?thesis by (simp add: show_pos_small)
  next
    case False
    from 1(4) obtain j where j: "k = Suc j" by (cases k) simp_all
    have "j \<noteq> 0" using 1(3) False j by (cases j) simp_all
    with j have k: "k = Suc j" "0 < j" by simp_all
    have "n < 10 ^ j * 10" using 1(3) k by simp
    then have "n div 10 < 10 ^ j" by linarith
    with 1 False k show ?thesis by (simp add: show_pos_big pos_imp_zdiv_nonneg_iff)
  qed
qed

lemma length_sha256_round: "length s = 8 \<Longrightarrow> length (sha256_round s x) = 8"
  by (cases "(s, x)" rule: sha256_round.cases) (simp_all add: Let_def)

lemma length_sha256: "length (sha256 m) = 32"
proof -
  have r: "length (foldl sha256_round s xs) = 8" if "length s = 8" for s xs using that by (induction xs arbitrary: s) (simp_all add: length_sha256_round)
  have b: "length (sha256_block s ws) = 8" if "length s = 8" for s ws using that r by (simp add: sha256_block_def)
  have "length (foldl (\<lambda>s b. sha256_block s (map be_word (chunks 16 4 b))) s bs) = 8" if "length s = 8" for s bs
    using that by (induction bs arbitrary: s) (simp_all add: b)
  moreover have "length sha256_init = 8" by (simp add: sha256_init_def)
  moreover have "length (concat (map (\<lambda>w. be_bytes 4 (uint w)) ws)) = 4 * length ws" for ws :: "u32 list" by (induction ws) (simp_all add: be_bytes_def)
  ultimately show ?thesis by (simp add: sha256_def Let_def)
qed

end
