(* ===== verification/Receipt.thy ===== *)
theory Receipt
  imports GoStd
begin

unbundle bit_operations_syntax

section \<open>Lanes, acceptance identifiers and receipt selections (internal/model, internal/ingest)\<close>

text \<open>
  \<open>internal/model/topology.go\<close> assigns an acceptance identifier to one of sixteen lanes,
  \<open>internal/ingest/identity.go\<close> makes identifiers and normalises source identifiers, and
  \<open>internal/model/receipt.go\<close> encodes, per request, which record positions were
  accepted, duplicate or conflicting, as maximally coalesced ranges.
\<close>

abbreviation LaneCount :: int where "LaneCount \<equiv> 16"

datatype model_error = NotUUIDv4 | NotCanonicalUUIDv4 | InvalidReceiptClass
  | InvalidSelectionEnvelope | RangesNotCoalesced | RangesOverlap | RangesDoNotPartition

subsection \<open>Lane assignment\<close>

definition byte_at :: "string \<Rightarrow> nat \<Rightarrow> int" where
  "byte_at s i = of_char (s ! i)"

definition laneForAcceptance :: "string \<Rightarrow> model_error + int" where
  "laneForAcceptance s =
    (if length s \<noteq> 36 \<or> s ! 8 \<noteq> CHR ''-'' \<or> s ! 13 \<noteq> CHR ''-'' \<or> s ! 18 \<noteq> CHR ''-'' \<or> s ! 23 \<noteq> CHR ''-''
     then Inl NotUUIDv4
     else case hex_decode (remove_all CHR ''-'' s) of
       None \<Rightarrow> Inl NotCanonicalUUIDv4
     | Some v \<Rightarrow>
         if length v \<noteq> 16 \<or> drop_bit 4 (byte_at v 6) \<noteq> 4 \<or> drop_bit 6 (byte_at v 8) \<noteq> 2 \<or> s \<noteq> to_lower s
         then Inl NotCanonicalUUIDv4
         else Inr (byte_at (sha256 v) 0 mod LaneCount))"

subsection \<open>Identifiers\<close>

text \<open>The hexadecimal text of sixteen bytes with the dashes of a UUID.\<close>

definition uuid_text :: "string \<Rightarrow> string" where
  "uuid_text e = take 8 e @ ''-'' @ take 4 (drop 8 e) @ ''-'' @ take 4 (drop 12 e) @ ''-'' @ take 4 (drop 16 e) @ ''-'' @ drop 20 e"

text \<open>The identifier made from the sixteen random bytes \<open>value\<close>.\<close>

definition newAcceptanceID :: "string \<Rightarrow> string" where
  "newAcceptanceID v0 =
    (let v1 = v0[6 := char_of ((byte_at v0 6 AND 15) OR 64)];
         v2 = v1[8 := char_of ((byte_at v1 8 AND 63) OR 128)]
     in uuid_text (hex_encode v2))"

definition allZero :: "string \<Rightarrow> bool" where
  "allZero s = list_all (\<lambda>c. c = CHR ''0'') s"

definition normalizeEventID :: "string \<Rightarrow> string option" where
  "normalizeEventID v =
    (let n = to_lower (remove_all CHR ''-'' v)
     in if length n \<noteq> 32 \<or> allZero n then None
        else if hex_decode n = None then None else Some n)"

definition normalizeTraceID :: "string \<Rightarrow> nat \<Rightarrow> string option" where
  "normalizeTraceID v width =
    (let n = to_lower v
     in if length n \<noteq> width \<or> allZero n then None
        else if hex_decode n = None then None else Some n)"

text \<open>The identity of a record: each part is preceded by its length in eight bytes.\<close>

definition recordID_input :: "string list \<Rightarrow> string" where
  "recordID_input parts =
     ''eventglass-record-id-v1'' @ [char_of (0::int)] @ concat (map (\<lambda>p. be_bytes 8 (int (length p)) @ p) parts)"

definition recordID :: "string list \<Rightarrow> string" where
  "recordID parts = sha256_hex (recordID_input parts)"

subsection \<open>Receipt selections\<close>

type_synonym receipt_class = "8 word"

abbreviation ReceiptAccepted :: receipt_class where "ReceiptAccepted \<equiv> 1"
abbreviation ReceiptDuplicate :: receipt_class where "ReceiptDuplicate \<equiv> 2"
abbreviation ReceiptConflict :: receipt_class where "ReceiptConflict \<equiv> 3"

type_synonym receipt_ranges = "(int \<times> int) list"

text \<open>A nil slice is \<open>None\<close>: \<open>Validate\<close> tells it apart from an empty one.\<close>

record receipt_selection =
  sel_version :: int
  sel_accepted :: "receipt_ranges option"
  sel_duplicate :: "receipt_ranges option"
  sel_conflict :: "receipt_ranges option"

definition extend_ranges :: "int \<Rightarrow> receipt_ranges \<Rightarrow> receipt_ranges" where
  "extend_ranges position rs =
    (if rs \<noteq> [] \<and> snd (last rs) + 1 = position
     then butlast rs @ [(fst (last rs), position)]
     else rs @ [(position, position)])"

fun selection_loop :: "int \<Rightarrow> receipt_class list \<Rightarrow> receipt_ranges \<Rightarrow> receipt_ranges \<Rightarrow> receipt_ranges
    \<Rightarrow> model_error + receipt_selection" where
  "selection_loop p [] a d c =
     Inr \<lparr>sel_version = 1, sel_accepted = Some a, sel_duplicate = Some d, sel_conflict = Some c\<rparr>"
| "selection_loop p (x # xs) a d c =
    (if x = ReceiptAccepted then selection_loop (p + 1) xs (extend_ranges p a) d c
     else if x = ReceiptDuplicate then selection_loop (p + 1) xs a (extend_ranges p d) c
     else if x = ReceiptConflict then selection_loop (p + 1) xs a d (extend_ranges p c)
     else Inl InvalidReceiptClass)"

definition newReceiptSelection :: "receipt_class list \<Rightarrow> model_error + receipt_selection" where
  "newReceiptSelection classes = selection_loop 0 classes [] [] []"

definition mark_position :: "receipt_class \<Rightarrow> receipt_class list \<Rightarrow> int \<Rightarrow> model_error + receipt_class list" where
  "mark_position k classes p =
    (if classes ! nat p \<noteq> 0 then Inl RangesOverlap else Inr (classes[nat p := k]))"

fun mark_ranges :: "receipt_class \<Rightarrow> int \<Rightarrow> int \<Rightarrow> receipt_ranges \<Rightarrow> receipt_class list
    \<Rightarrow> model_error + receipt_class list" where
  "mark_ranges k n previousLast [] classes = Inr classes"
| "mark_ranges k n previousLast ((lo, hi) # rs) classes =
    (if lo < 0 \<or> hi < lo \<or> n \<le> hi \<or> lo \<le> previousLast + 1 then Inl RangesNotCoalesced
     else bindR (foldR (mark_position k) classes [lo..hi]) (\<lambda>classes'. mark_ranges k n hi rs classes'))"

definition class_ranges :: "receipt_selection \<Rightarrow> receipt_class \<Rightarrow> receipt_ranges" where
  "class_ranges sel k =
    (if k = ReceiptAccepted then the (sel_accepted sel)
     else if k = ReceiptDuplicate then the (sel_duplicate sel)
     else the (sel_conflict sel))"

text \<open>
  \<open>Validate\<close> ranges over a Go map, whose iteration order is not determined: the order in
  which the three classes are visited is the argument \<open>order\<close>.
\<close>

definition validateSelection :: "receipt_class list \<Rightarrow> receipt_selection \<Rightarrow> int \<Rightarrow> model_error + unit" where
  "validateSelection order sel n =
    (if sel_version sel \<noteq> 1 \<or> n < 0 \<or> sel_accepted sel = None \<or> sel_duplicate sel = None \<or> sel_conflict sel = None
     then Inl InvalidSelectionEnvelope
     else bindR (foldR (\<lambda>cs k. mark_ranges k n (-2) (class_ranges sel k) cs) (replicate (nat n) 0) order)
       (\<lambda>classes. if list_all (\<lambda>k. k \<noteq> 0) classes then Inr () else Inl RangesDoNotPartition))"

definition json_ranges :: "receipt_ranges option \<Rightarrow> string" where
  "json_ranges r =
    (case r of None \<Rightarrow> ''null''
     | Some rs \<Rightarrow> ''['' @ concat (separate '','' (map (\<lambda>(lo, hi). ''['' @ showInt lo @ '','' @ showInt hi @ '']'') rs)) @ '']'')"

definition selection_json :: "receipt_selection \<Rightarrow> string" where
  "selection_json sel =
    [CHR ''{'', CHR 0x22] @ ''version'' @ [CHR 0x22] @ '':'' @ showInt (sel_version sel) @
    '','' @ [CHR 0x22] @ ''accepted'' @ [CHR 0x22] @ '':'' @ json_ranges (sel_accepted sel) @
    '','' @ [CHR 0x22] @ ''duplicate'' @ [CHR 0x22] @ '':'' @ json_ranges (sel_duplicate sel) @
    '','' @ [CHR 0x22] @ ''conflict'' @ [CHR 0x22] @ '':'' @ json_ranges (sel_conflict sel) @ ''}''"

definition selectionCanonicalJSON :: "receipt_class list \<Rightarrow> receipt_selection \<Rightarrow> int \<Rightarrow> model_error + string" where
  "selectionCanonicalJSON order sel n =
    bindR (validateSelection order sel n) (\<lambda>_. Inr (selection_json sel))"

definition selectionSHA256 :: "receipt_class list \<Rightarrow> receipt_selection \<Rightarrow> int \<Rightarrow> model_error + string" where
  "selectionSHA256 order sel n =
    bindR (selectionCanonicalJSON order sel n) (\<lambda>encoded. Inr (sha256_hex encoded))"

subsection \<open>The set of positions a list of ranges denotes\<close>

definition covers :: "receipt_ranges \<Rightarrow> int set" where
  "covers rs = (\<Union>(lo, hi) \<in> set rs. {lo..hi})"

fun coalesced :: "int \<Rightarrow> int \<Rightarrow> receipt_ranges \<Rightarrow> bool" where
  "coalesced prev n [] = True"
| "coalesced prev n ((lo, hi) # rs) = (0 \<le> lo \<and> lo \<le> hi \<and> hi < n \<and> prev + 1 < lo \<and> coalesced hi n rs)"

lemma covers_simps [simp]:
  "covers [] = {}"
  "covers ((lo, hi) # rs) = {lo..hi} \<union> covers rs"
  "covers (xs @ ys) = covers xs \<union> covers ys"
  by (auto simp: covers_def)

lemma covers_bounds: "coalesced prev n rs \<Longrightarrow> p \<in> covers rs \<Longrightarrow> 0 \<le> p \<and> prev + 1 < p \<and> p < n"
  by (induction prev n rs rule: coalesced.induct) fastforce+

lemma coalesced_append:
  "coalesced prev n (rs @ [(lo, hi)]) \<longleftrightarrow>
     coalesced prev n rs \<and> 0 \<le> lo \<and> lo \<le> hi \<and> hi < n \<and> (if rs = [] then prev else snd (last rs)) + 1 < lo"
  by (induction prev n rs rule: coalesced.induct) auto

lemma coalesced_mono: "coalesced prev n rs \<Longrightarrow> n \<le> m \<Longrightarrow> coalesced prev m rs"
  by (induction prev n rs rule: coalesced.induct) auto

text \<open>Coalesced ranges are determined by the positions they cover.\<close>

lemma coalesced_unique:
  assumes "coalesced prev n rs" and "coalesced prev' n rs'" and "covers rs = covers rs'"
  shows "rs = rs'"
  using assms
proof (induction prev n rs arbitrary: prev' rs' rule: coalesced.induct)
  case (1 prev n)
  then show ?case by (cases rs') auto
next
  case (2 prev n lo hi rs)
  then obtain lo' hi' rs2 where rs': "rs' = (lo', hi') # rs2"
    by (cases rs') auto
  note c = "2.prems"(1) and c' = "2.prems"(2)[unfolded rs'] and eq = "2.prems"(3)[unfolded rs']
  have tail: "p \<in> covers rs \<Longrightarrow> hi + 1 < p" and tail': "p \<in> covers rs2 \<Longrightarrow> hi' + 1 < p" for p
    using c c' by (auto dest: covers_bounds)
  have "lo \<in> covers ((lo', hi') # rs2)" "lo' \<in> covers ((lo, hi) # rs)"
    using c c' eq by auto
  then have lo: "lo = lo'"
    using c c' tail tail' by fastforce
  have "hi + 1 \<notin> covers ((lo, hi) # rs)" "hi' + 1 \<notin> covers ((lo', hi') # rs2)"
    using tail tail' by auto
  then have "hi + 1 \<notin> {lo'..hi'}" "hi' + 1 \<notin> {lo..hi}"
    using eq by (metis UnI1 covers_simps(2))+
  then have hi: "hi = hi'"
    using lo c c' by auto
  have "covers rs = covers ((lo, hi) # rs) - {lo..hi}" "covers rs2 = covers ((lo', hi') # rs2) - {lo'..hi'}"
    using tail tail' by fastforce+
  then have "covers rs = covers rs2"
    using eq lo hi by simp
  with "2.IH" [of hi' rs2] c c' lo hi show ?case by (simp add: rs')
qed

subsection \<open>What \<open>NewReceiptSelection\<close> builds\<close>

fun ranges_from :: "receipt_class \<Rightarrow> int \<Rightarrow> receipt_class list \<Rightarrow> receipt_ranges \<Rightarrow> receipt_ranges" where
  "ranges_from k p [] rs = rs"
| "ranges_from k p (x # xs) rs = ranges_from k (p + 1) xs (if x = k then extend_ranges p rs else rs)"

definition valid_class :: "receipt_class \<Rightarrow> bool" where
  "valid_class k \<longleftrightarrow> k = ReceiptAccepted \<or> k = ReceiptDuplicate \<or> k = ReceiptConflict"

definition positions :: "receipt_class \<Rightarrow> int \<Rightarrow> receipt_class list \<Rightarrow> int set" where
  "positions k p xs = {p + int i | i. i < length xs \<and> xs ! i = k}"

lemma selection_loop_eq:
  "selection_loop p xs a d c =
    (if list_all valid_class xs
     then Inr \<lparr>sel_version = 1, sel_accepted = Some (ranges_from 1 p xs a),
               sel_duplicate = Some (ranges_from 2 p xs d), sel_conflict = Some (ranges_from 3 p xs c)\<rparr>
     else Inl InvalidReceiptClass)"
  by (induction p xs a d c rule: selection_loop.induct) (auto simp: valid_class_def)

lemma extend_ranges_snoc:
  "extend_ranges p (rs @ [(lo, hi)]) = (if hi + 1 = p then rs @ [(lo, p)] else rs @ [(lo, hi), (p, p)])"
  by (simp add: extend_ranges_def)

lemma extend_ranges_coalesced:
  assumes "coalesced (-2) p rs" and "0 \<le> p"
  shows "coalesced (-2) (p + 1) (extend_ranges p rs) \<and> covers (extend_ranges p rs) = insert p (covers rs)"
proof (cases rs rule: rev_cases)
  case Nil
  with assms show ?thesis by (simp add: extend_ranges_def)
next
  case (snoc ys y)
  obtain lo hi where y: "y = (lo, hi)" by (cases y)
  have ys: "coalesced (-2) p ys" "0 \<le> lo" "lo \<le> hi" "hi < p" "(if ys = [] then -2 else snd (last ys)) + 1 < lo"
    using assms snoc y by (simp_all add: coalesced_append)
  then have "coalesced (-2) (p + 1) ys" by (auto intro: coalesced_mono)
  then show ?thesis
    using ys assms(2) coalesced_append [of "-2" "p + 1" "ys @ [(lo, hi)]" p p]
    by (auto simp: snoc y extend_ranges_snoc coalesced_append)
qed

lemma positions_Cons: "positions k p (x # xs) = (if x = k then {p} else {}) \<union> positions k (p + 1) xs"
proof (rule set_eqI)
  fix q
  have "q \<in> positions k p (x # xs) \<longleftrightarrow> (\<exists>i < Suc (length xs). q = p + int i \<and> (x # xs) ! i = k)"
    by (auto simp: positions_def)
  also have "\<dots> \<longleftrightarrow> (q = p \<and> x = k) \<or> (\<exists>i < length xs. q = p + int (Suc i) \<and> xs ! i = k)"
    by (subst Ex_less_Suc2) simp
  also have "\<dots> \<longleftrightarrow> q \<in> (if x = k then {p} else {}) \<union> positions k (p + 1) xs"
    by (auto simp: positions_def algebra_simps)
  finally show "q \<in> positions k p (x # xs) \<longleftrightarrow> q \<in> (if x = k then {p} else {}) \<union> positions k (p + 1) xs" .
qed

lemma ranges_from_coalesced:
  assumes "coalesced (-2) p rs" and "0 \<le> p"
  shows "coalesced (-2) (p + int (length xs)) (ranges_from k p xs rs) \<and>
    covers (ranges_from k p xs rs) = covers rs \<union> positions k p xs"
  using assms
proof (induction xs arbitrary: p rs)
  case Nil
  then show ?case by (simp add: positions_def)
next
  case (Cons x xs)
  have "coalesced (-2) (p + 1) (if x = k then extend_ranges p rs else rs)"
    using Cons.prems extend_ranges_coalesced [of p rs] coalesced_mono by auto
  from Cons.IH [OF this] Cons.prems extend_ranges_coalesced [of p rs] show ?case
    by (auto simp: positions_Cons algebra_simps split: if_splits)
qed

subsection \<open>What \<open>Validate\<close> accepts\<close>

definition paint :: "receipt_class \<Rightarrow> int set \<Rightarrow> receipt_class list \<Rightarrow> receipt_class list" where
  "paint k S cs = map (\<lambda>i. if int i \<in> S then k else cs ! i) [0..<length cs]"

lemma length_paint [simp]: "length (paint k S cs) = length cs"
  by (simp add: paint_def)

lemma nth_paint [simp]: "i < length cs \<Longrightarrow> paint k S cs ! i = (if int i \<in> S then k else cs ! i)"
  by (simp add: paint_def)

lemma paint_empty [simp]: "paint k {} cs = cs"
  by (simp add: paint_def map_nth)

lemma paint_paint: "paint k S (paint k T cs) = paint k (S \<union> T) cs"
  by (rule nth_equalityI) auto

lemma update_paint: "0 \<le> p \<Longrightarrow> nat p < length cs \<Longrightarrow> cs[nat p := k] = paint k {p} cs"
  by (rule nth_equalityI) (auto simp: nth_list_update)

lemma mark_span:
  assumes "0 \<le> lo" and "hi < int (length cs)"
  shows "foldR (mark_position k) cs [lo..hi] = Inr cs' \<longleftrightarrow>
    (\<forall>p \<in> {lo..hi}. cs ! nat p = 0) \<and> cs' = paint k {lo..hi} cs"
  using assms
proof (induction lo hi arbitrary: cs rule: upto.induct)
  case (1 lo hi)
  show ?case
  proof (cases "lo \<le> hi")
    case False
    then show ?thesis by auto
  next
    case True
    then have split: "{lo..hi} = insert lo {lo + 1..hi}" by auto
    have lo: "nat lo < length cs" using 1 True by simp
    then have upd: "cs[nat lo := k] = paint k {lo} cs" by (rule update_paint [OF 1(2)])
    have keep: "p \<in> {lo + 1..hi} \<Longrightarrow> paint k {lo} cs ! nat p = cs ! nat p" for p
      using 1 by auto
    have "foldR (mark_position k) cs [lo..hi] = Inr cs' \<longleftrightarrow>
       cs ! nat lo = 0 \<and> foldR (mark_position k) (paint k {lo} cs) [lo + 1..hi] = Inr cs'"
      using True upd by (simp add: upto.simps [of lo hi] mark_position_def [of k cs lo])
    also have "\<dots> \<longleftrightarrow> cs ! nat lo = 0 \<and> (\<forall>p \<in> {lo + 1..hi}. cs ! nat p = 0) \<and> cs' = paint k {lo..hi} cs"
      using 1 True keep by (simp add: paint_paint split Un_commute)
    finally show ?thesis by (auto simp: split)
  qed
qed

lemma mark_ranges_iff:
  assumes "n = int (length cs)"
  shows "mark_ranges k n prev rs cs = Inr cs' \<longleftrightarrow>
    coalesced prev n rs \<and> (\<forall>p \<in> covers rs. cs ! nat p = 0) \<and> cs' = paint k (covers rs) cs"
  using assms
proof (induction k n prev rs cs rule: mark_ranges.induct)
  case (1 k n prev cs)
  then show ?case by auto
next
  case (2 k n prev lo hi rs cs)
  show ?case
  proof (cases "lo < 0 \<or> hi < lo \<or> n \<le> hi \<or> lo \<le> prev + 1")
    case True
    then show ?thesis by auto
  next
    case False
    have IH: "mark_ranges k n hi rs (paint k {lo..hi} cs) = Inr cs' \<longleftrightarrow>
       coalesced hi n rs \<and> (\<forall>p \<in> covers rs. paint k {lo..hi} cs ! nat p = 0) \<and>
       cs' = paint k (covers rs) (paint k {lo..hi} cs)"
      using "2.IH" [of "paint k {lo..hi} cs"] False "2.prems" by simp
    have keep: "coalesced hi n rs \<Longrightarrow> p \<in> covers rs \<Longrightarrow> paint k {lo..hi} cs ! nat p = cs ! nat p" for p
      using covers_bounds [of hi n rs p] "2.prems" by auto
    have "mark_ranges k n prev ((lo, hi) # rs) cs = Inr cs' \<longleftrightarrow>
       (\<forall>p \<in> {lo..hi}. cs ! nat p = 0) \<and> mark_ranges k n hi rs (paint k {lo..hi} cs) = Inr cs'"
      using False "2.prems" by (simp add: bindR_eq_Inr mark_span)
    then show ?thesis
      using False keep by (auto simp: IH paint_paint Un_commute)
  qed
qed

text \<open>The whole loop over the classes, in any order without repetition.\<close>

definition paint_all :: "(receipt_class \<Rightarrow> receipt_ranges) \<Rightarrow> receipt_class list \<Rightarrow> receipt_class list \<Rightarrow> receipt_class list" where
  "paint_all R cs order = foldl (\<lambda>cs k. paint k (covers (R k)) cs) cs order"

lemma paint_all_nonzero:
  "0 \<notin> set order \<Longrightarrow> length (paint_all R cs order) = length cs \<and>
   (\<forall>i < length cs. paint_all R cs order ! i \<noteq> 0 \<longleftrightarrow> cs ! i \<noteq> 0 \<or> int i \<in> (\<Union>k \<in> set order. covers (R k)))"
proof (induction order arbitrary: cs)
  case (Cons k order)
  then have "k \<noteq> 0" by auto
  with Cons.IH [of "paint k (covers (R k)) cs"] Cons.prems show ?case
    by (auto simp: paint_all_def)
qed (simp add: paint_all_def)

abbreviation disjoint_covers :: "(receipt_class \<Rightarrow> receipt_ranges) \<Rightarrow> receipt_class set \<Rightarrow> bool" where
  "disjoint_covers R ks \<equiv> pairwise (\<lambda>j k. disjnt (covers (R j)) (covers (R k))) ks"

lemma mark_classes_iff:
  assumes "n = int (length cs)" and "distinct order" and "0 \<notin> set order"
  shows "foldR (\<lambda>cs k. mark_ranges k n (-2) (R k) cs) cs order = Inr cs' \<longleftrightarrow>
    (\<forall>k \<in> set order. coalesced (-2) n (R k) \<and> (\<forall>p \<in> covers (R k). cs ! nat p = 0)) \<and>
    disjoint_covers R (set order) \<and> cs' = paint_all R cs order"
  using assms
proof (induction order arbitrary: cs)
  case Nil
  then show ?case by (auto simp: paint_all_def)
next
  case (Cons k order)
  let ?p = "paint k (covers (R k)) cs"
  let ?ok = "coalesced (-2) n (R k) \<and> (\<forall>p \<in> covers (R k). cs ! nat p = 0)"
  have nz: "k \<noteq> 0" using Cons.prems(3) by auto
  have zero: "coalesced (-2) n (R j) \<Longrightarrow> (\<forall>p \<in> covers (R j). ?p ! nat p = 0) \<longleftrightarrow>
     (\<forall>p \<in> covers (R j). p \<notin> covers (R k) \<and> cs ! nat p = 0)" for j
    using covers_bounds [of "-2" n "R j"] Cons.prems(1) nz by (fastforce split: if_splits)
  have "foldR (\<lambda>cs k. mark_ranges k n (-2) (R k) cs) cs (k # order) = Inr cs' \<longleftrightarrow>
     ?ok \<and> foldR (\<lambda>cs k. mark_ranges k n (-2) (R k) cs) ?p order = Inr cs'"
    using Cons.prems(1) by (auto simp: bindR_eq_Inr mark_ranges_iff)
  also have "\<dots> \<longleftrightarrow> ?ok \<and>
    (\<forall>j \<in> set order. coalesced (-2) n (R j) \<and> (\<forall>p \<in> covers (R j). ?p ! nat p = 0)) \<and>
    disjoint_covers R (set order) \<and> cs' = paint_all R ?p order"
    using Cons.IH [of ?p] Cons.prems by simp
  also have "\<dots> \<longleftrightarrow> ?ok \<and>
    (\<forall>j \<in> set order. coalesced (-2) n (R j) \<and> (\<forall>p \<in> covers (R j). p \<notin> covers (R k) \<and> cs ! nat p = 0)) \<and>
    disjoint_covers R (set order) \<and> cs' = paint_all R cs (k # order)"
    using zero by (simp add: paint_all_def cong: conj_cong)
  also have "\<dots> \<longleftrightarrow> (\<forall>j \<in> set (k # order). coalesced (-2) n (R j) \<and> (\<forall>p \<in> covers (R j). cs ! nat p = 0)) \<and>
    disjoint_covers R (set (k # order)) \<and> cs' = paint_all R cs (k # order)"
    using Cons.prems(2) by (auto simp: pairwise_insert disjnt_iff)
  finally show ?case .
qed

lemma paint_all_full:
  assumes "0 \<notin> set order"
  shows "list_all (\<lambda>k. k \<noteq> 0) (paint_all R (replicate (nat n) 0) order) \<longleftrightarrow>
    {0..<n} \<subseteq> (\<Union>k \<in> set order. covers (R k))"
proof -
  have "list_all (\<lambda>k. k \<noteq> 0) (paint_all R (replicate (nat n) 0) order) \<longleftrightarrow>
     (\<forall>i < nat n. int i \<in> (\<Union>k \<in> set order. covers (R k)))"
    using paint_all_nonzero [OF assms, of R "replicate (nat n) 0"] by (auto simp: list_all_length)
  also have "\<dots> \<longleftrightarrow> {0..<n} \<subseteq> (\<Union>k \<in> set order. covers (R k))" (is "?l \<longleftrightarrow> ?r")
  proof
    assume l: ?l
    show ?r
    proof
      fix x assume "x \<in> {0..<n}"
      with l [rule_format, of "nat x"] show "x \<in> (\<Union>k \<in> set order. covers (R k))" by simp
    qed
  next
    assume ?r
    then show ?l by (simp add: subset_iff)
  qed
  finally show ?thesis .
qed

text \<open>Validity, stated on the three sets of positions.\<close>

definition partition_ranges :: "int \<Rightarrow> receipt_ranges \<Rightarrow> receipt_ranges \<Rightarrow> receipt_ranges \<Rightarrow> bool" where
  "partition_ranges n a d c \<longleftrightarrow> 0 \<le> n \<and> coalesced (-2) n a \<and> coalesced (-2) n d \<and> coalesced (-2) n c \<and>
     disjnt (covers a) (covers d) \<and> disjnt (covers a) (covers c) \<and> disjnt (covers d) (covers c) \<and>
     covers a \<union> covers d \<union> covers c = {0..<n}"

lemma validateSelection_iff:
  assumes order: "mset order = {#ReceiptAccepted, ReceiptDuplicate, ReceiptConflict#}"
  shows "validateSelection order sel n = Inr () \<longleftrightarrow>
    (\<exists>a d c. sel = \<lparr>sel_version = 1, sel_accepted = Some a, sel_duplicate = Some d, sel_conflict = Some c\<rparr> \<and>
      partition_ranges n a d c)"
proof (cases "sel_version sel \<noteq> 1 \<or> n < 0 \<or> sel_accepted sel = None \<or> sel_duplicate sel = None \<or> sel_conflict sel = None")
  case True
  then show ?thesis by (auto simp: validateSelection_def partition_ranges_def)
next
  case False
  then obtain a d c where sel: "sel = \<lparr>sel_version = 1, sel_accepted = Some a, sel_duplicate = Some d, sel_conflict = Some c\<rparr>"
    by (cases sel) auto
  have "set order = set_mset (mset order)" by simp
  then have set: "set order = {1, 2, 3}" by (simp add: order)
  have "mset order = mset [ReceiptAccepted, ReceiptDuplicate, ReceiptConflict]"
    by (simp add: order)
  then have dist: "distinct order"
    using mset_eq_imp_distinct_iff by fastforce
  let ?z = "replicate (nat n) (0 :: receipt_class)"
  have n: "0 \<le> n" "n = int (length ?z)" using False by simp_all
  have R: "class_ranges sel 1 = a" "class_ranges sel 2 = d" "class_ranges sel 3 = c"
    by (simp_all add: class_ranges_def sel)
  have zero: "coalesced (-2) n rs \<Longrightarrow> \<forall>p \<in> covers rs. ?z ! nat p = 0" for rs
    using n by (auto dest!: covers_bounds)
  have sub: "coalesced (-2) n rs \<Longrightarrow> covers rs \<subseteq> {0..<n}" for rs
    by (auto dest: covers_bounds)
  have "validateSelection order sel n = Inr () \<longleftrightarrow>
     (\<exists>cs. foldR (\<lambda>cs k. mark_ranges k n (-2) (class_ranges sel k) cs) ?z order = Inr cs \<and> list_all (\<lambda>k. k \<noteq> 0) cs)"
    using False by (auto simp: validateSelection_def bindR_eq_Inr)
  also have "\<dots> \<longleftrightarrow> (\<forall>k \<in> {1, 2, 3}. coalesced (-2) n (class_ranges sel k)) \<and>
     disjoint_covers (class_ranges sel) {1, 2, 3} \<and> {0..<n} \<subseteq> (\<Union>k \<in> {1, 2, 3}. covers (class_ranges sel k))"
    using mark_classes_iff [OF n(2) dist, of "class_ranges sel"] paint_all_full [of order "class_ranges sel" n] zero
    by (auto simp: set)
  also have "\<dots> \<longleftrightarrow> coalesced (-2) n a \<and> coalesced (-2) n d \<and> coalesced (-2) n c \<and>
     disjnt (covers a) (covers d) \<and> disjnt (covers a) (covers c) \<and> disjnt (covers d) (covers c) \<and>
     {0..<n} \<subseteq> covers a \<union> covers d \<union> covers c"
    by (simp add: R pairwise_def disjnt_def Int_commute Un_assoc) blast
  also have "\<dots> \<longleftrightarrow> partition_ranges n a d c"
    using n(1) sub [of a] sub [of d] sub [of c] unfolding partition_ranges_def by blast
  finally show ?thesis by (simp add: sel)
qed

subsection \<open>The validator accepts exactly the canonical selections\<close>

lemma positions_disjoint: "j \<noteq> k \<Longrightarrow> positions j p xs \<inter> positions k p xs = {}"
  by (auto simp: positions_def)

lemma positions_cover:
  assumes "list_all valid_class xs"
  shows "positions 1 0 xs \<union> positions 2 0 xs \<union> positions 3 0 xs = {0..<int (length xs)}"
proof -
  have "x \<in> positions 1 0 xs \<union> positions 2 0 xs \<union> positions 3 0 xs" if "0 \<le> x" "x < int (length xs)" for x
  proof -
    have "valid_class (xs ! nat x)" using assms that by (simp add: list_all_length)
    then show ?thesis
      using that by (auto simp: positions_def valid_class_def intro!: exI [of _ "nat x"])
  qed
  then have "{0..<int (length xs)} \<subseteq> positions 1 0 xs \<union> positions 2 0 xs \<union> positions 3 0 xs"
    by (intro subsetI) (simp only: atLeastLessThan_iff)
  moreover have "positions k 0 xs \<subseteq> {0..<int (length xs)}" for k
    by (auto simp: positions_def)
  ultimately show ?thesis by (intro equalityI) simp_all
qed

lemma newReceiptSelection_eq:
  "newReceiptSelection xs = Inr sel \<longleftrightarrow> list_all valid_class xs \<and>
    sel = \<lparr>sel_version = 1, sel_accepted = Some (ranges_from 1 0 xs []),
           sel_duplicate = Some (ranges_from 2 0 xs []), sel_conflict = Some (ranges_from 3 0 xs [])\<rparr>"
  by (auto simp: newReceiptSelection_def selection_loop_eq)

lemma ranges_from_start:
  "coalesced (-2) (int (length xs)) (ranges_from k 0 xs []) \<and> covers (ranges_from k 0 xs []) = positions k 0 xs"
  using ranges_from_coalesced [of 0 "[]" xs k] by simp

text \<open>The classes a valid selection stands for.\<close>

definition classes_of :: "receipt_ranges \<Rightarrow> receipt_ranges \<Rightarrow> int \<Rightarrow> receipt_class list" where
  "classes_of a d n = map (\<lambda>i. if int i \<in> covers a then 1 else if int i \<in> covers d then 2 else 3) [0..<nat n]"

lemma positions_classes_of:
  assumes "partition_ranges n a d c"
  shows "positions 1 0 (classes_of a d n) = covers a" "positions 2 0 (classes_of a d n) = covers d"
    "positions 3 0 (classes_of a d n) = covers c"
proof -
  have p: "positions k 0 (classes_of a d n) =
     {x \<in> {0..<n}. (if x \<in> covers a then 1 else if x \<in> covers d then 2 else 3) = k}" for k
    using assms by (auto simp: partition_ranges_def positions_def classes_of_def nat_less_iff intro!: exI [of _ "nat _"])
  show "positions 1 0 (classes_of a d n) = covers a" "positions 2 0 (classes_of a d n) = covers d"
    "positions 3 0 (classes_of a d n) = covers c"
    unfolding p using assms by (auto simp: partition_ranges_def disjnt_iff)
qed

lemma newReceiptSelection_classes_of:
  assumes "partition_ranges n a d c"
  shows "newReceiptSelection (classes_of a d n) =
    Inr \<lparr>sel_version = 1, sel_accepted = Some a, sel_duplicate = Some d, sel_conflict = Some c\<rparr>"
proof -
  let ?xs = "classes_of a d n"
  have len: "int (length ?xs) = n" using assms by (simp add: classes_of_def partition_ranges_def)
  note pos = positions_classes_of [OF assms]
  have "ranges_from 1 0 ?xs [] = a" "ranges_from 2 0 ?xs [] = d" "ranges_from 3 0 ?xs [] = c"
    using ranges_from_start [of ?xs 1] ranges_from_start [of ?xs 2] ranges_from_start [of ?xs 3] pos len assms
    by (auto simp: partition_ranges_def intro: coalesced_unique)
  moreover have "list_all valid_class ?xs"
    by (auto simp: classes_of_def list_all_length valid_class_def)
  ultimately show ?thesis by (simp add: newReceiptSelection_eq)
qed

lemma newReceiptSelection_partition:
  assumes "newReceiptSelection xs = Inr sel"
  shows "\<exists>a d c. sel = \<lparr>sel_version = 1, sel_accepted = Some a, sel_duplicate = Some d, sel_conflict = Some c\<rparr> \<and>
    partition_ranges (int (length xs)) a d c \<and> xs = classes_of a d (int (length xs))"
proof -
  have v: "list_all valid_class xs" using assms by (simp add: newReceiptSelection_eq)
  have "partition_ranges (int (length xs)) (ranges_from 1 0 xs []) (ranges_from 2 0 xs []) (ranges_from 3 0 xs [])"
    using positions_cover [OF v] by (simp add: partition_ranges_def ranges_from_start disjnt_def positions_disjoint)
  moreover have "xs = classes_of (ranges_from 1 0 xs []) (ranges_from 2 0 xs []) (int (length xs))"
    using v by (intro nth_equalityI)
      (auto simp: classes_of_def ranges_from_start positions_def list_all_length valid_class_def)
  ultimately show ?thesis using assms by (auto simp: newReceiptSelection_eq)
qed

text \<open>
  C31. The receipt validator accepts exactly the canonical selections: for every order in
  which Go may iterate over the map of classes, \<open>Validate(n)\<close> succeeds on a selection if
  and only if the selection is what \<open>NewReceiptSelection\<close> builds from a sequence of
  \<open>n\<close> valid classes. Nothing else is accepted and nothing built is refused.
\<close>

theorem receipt_validate_accepts_exactly_canonical:
  assumes "mset order = {#ReceiptAccepted, ReceiptDuplicate, ReceiptConflict#}"
  shows "validateSelection order sel n = Inr () \<longleftrightarrow>
    (\<exists>classes. int (length classes) = n \<and> newReceiptSelection classes = Inr sel)"
proof
  assume "validateSelection order sel n = Inr ()"
  then obtain a d c where "partition_ranges n a d c"
    and "sel = \<lparr>sel_version = 1, sel_accepted = Some a, sel_duplicate = Some d, sel_conflict = Some c\<rparr>"
    by (auto simp: validateSelection_iff [OF assms])
  then show "\<exists>classes. int (length classes) = n \<and> newReceiptSelection classes = Inr sel"
    using newReceiptSelection_classes_of [of n a d c]
    by (intro exI [of _ "classes_of a d n"]) (simp add: classes_of_def partition_ranges_def)
next
  assume "\<exists>classes. int (length classes) = n \<and> newReceiptSelection classes = Inr sel"
  then obtain classes where "int (length classes) = n" "newReceiptSelection classes = Inr sel" by blast
  then show "validateSelection order sel n = Inr ()"
    using newReceiptSelection_partition [of classes sel] by (simp add: validateSelection_iff [OF assms]) blast
qed

theorem receipt_validate_accepts_exactly_canonical_witness:
  "newReceiptSelection [1, 1, 2, 1, 3] = Inr \<lparr>sel_version = 1, sel_accepted = Some [(0, 1), (3, 3)],
      sel_duplicate = Some [(2, 2)], sel_conflict = Some [(4, 4)]\<rparr> \<and>
   validateSelection [2, 3, 1] \<lparr>sel_version = 1, sel_accepted = Some [(0, 1), (3, 3)],
      sel_duplicate = Some [(2, 2)], sel_conflict = Some [(4, 4)]\<rparr> 5 = Inr ()"
proof -
  have sel: "newReceiptSelection [1, 1, 2, 1, 3] = Inr \<lparr>sel_version = 1, sel_accepted = Some [(0, 1), (3, 3)],
      sel_duplicate = Some [(2, 2)], sel_conflict = Some [(4, 4)]\<rparr>"
    by (simp add: newReceiptSelection_def extend_ranges_def)
  have "mset [2, 3, 1 :: receipt_class] = {#1, 2, 3#}" by simp
  then show ?thesis
    using receipt_validate_accepts_exactly_canonical [of "[2, 3, 1]" "\<lparr>sel_version = 1, sel_accepted = Some [(0, 1), (3, 3)],
      sel_duplicate = Some [(2, 2)], sel_conflict = Some [(4, 4)]\<rparr>" 5] sel
    by (metis length_Cons list.size(3) numeral_eq_Suc pred_numeral_simps of_nat_numeral One_nat_def Suc_numeral add_num_simps)
qed

text \<open>
  A receipt selection loses nothing: the classes are recovered from it, so two class
  sequences of the same length with the same selection are equal, and a sequence with a
  class other than accepted, duplicate or conflict is refused.
\<close>

lemma receipt_selection_lossless:
  "newReceiptSelection xs = Inr sel \<Longrightarrow> newReceiptSelection ys = Inr sel \<Longrightarrow> length xs = length ys \<Longrightarrow> xs = ys"
  using newReceiptSelection_partition [of xs sel] newReceiptSelection_partition [of ys sel] by auto

subsection \<open>Generated identifiers are canonical\<close>

lemma and_low_or_high:
  fixes m :: int
  assumes "k \<le> j"
  shows "take_bit k m OR 2 ^ j = take_bit k m + 2 ^ j"
proof -
  have b: "bit ((2::int) ^ j) i \<longleftrightarrow> i = j" for i
    by (auto simp: bit_exp_iff)
  have "take_bit k m AND 2 ^ j = 0"
    by (rule bit_eqI) (use assms in \<open>auto simp: bit_and_iff bit_take_bit_iff b\<close>)
  then show ?thesis by (metis add_0 plus_and_or)
qed

lemma version_nibble: "(n AND 15) OR 64 = n mod 16 + (64 :: int)"
  using and_low_or_high [of 4 6 n] take_bit_eq_mask [of 4 n]
  by (simp add: mask_eq_exp_minus_1 take_bit_eq_mod)

lemma variant_bits: "(n AND 63) OR 128 = n mod 64 + (128 :: int)"
  using and_low_or_high [of 6 7 n] take_bit_eq_mask [of 6 n]
  by (simp add: mask_eq_exp_minus_1 take_bit_eq_mod)

lemma lower_hex_not_dash: "lower_hex_char c \<Longrightarrow> c \<noteq> CHR ''-''"
  by (auto simp: lower_hex_char_def)

lemma lower_hex_lower: "lower_hex_char c \<Longrightarrow> lower_char c = c"
  by (auto simp: lower_hex_char_def lower_char_def Let_def)

lemma remove_all_append:
  "remove_all c (xs @ ys) = remove_all c xs @ remove_all c ys"
  "remove_all c (x # xs) = (if x = c then remove_all c xs else x # remove_all c xs)"
  by (simp_all add: remove_all_def)

lemma remove_all_hex: "list_all lower_hex_char s \<Longrightarrow> remove_all CHR ''-'' s = s"
  by (auto simp: remove_all_def list_all_iff filter_id_conv dest: lower_hex_not_dash)

lemma list_all_take_drop: "list_all P s \<Longrightarrow> list_all P (take n s) \<and> list_all P (drop n s)"
  by (auto simp: list_all_iff dest: in_set_takeD in_set_dropD)

lemma take_drop_join: "take j (drop k s) @ drop (k + j) s = drop k s"
  by (metis add.commute append_take_drop_id drop_drop)

lemma uuid_text_hex:
  assumes "list_all lower_hex_char e"
  shows "remove_all CHR ''-'' (uuid_text e) = e" and "to_lower (uuid_text e) = uuid_text e"
proof -
  have parts: "list_all lower_hex_char (take n (drop m e))" "list_all lower_hex_char (take n e)"
    "list_all lower_hex_char (drop m e)" for n m
    using assms list_all_take_drop by blast+
  have "remove_all CHR ''-'' (uuid_text e) =
     take 8 e @ take 4 (drop 8 e) @ take 4 (drop 12 e) @ take 4 (drop 16 e) @ drop 20 e"
    using parts by (simp add: uuid_text_def remove_all_append remove_all_hex)
  also have "\<dots> = e"
    using take_drop_join [of 4 16 e] take_drop_join [of 4 12 e] take_drop_join [of 4 8 e] by simp
  finally show "remove_all CHR ''-'' (uuid_text e) = e" .
  have low: "map lower_char s = s" if "list_all lower_hex_char s" for s
    using that by (auto simp: list_all_iff lower_hex_lower map_idI)
  have dash: "lower_char CHR ''-'' = CHR ''-''" by (simp add: lower_char_def)
  show "to_lower (uuid_text e) = uuid_text e"
    using parts by (simp add: uuid_text_def to_lower_def low dash)
qed

lemma newAcceptanceID_bytes:
  assumes "length v = 16"
  shows "\<exists>w. newAcceptanceID v = uuid_text (hex_encode w) \<and> length w = 16 \<and>
    drop_bit 4 (byte_at w 6) = 4 \<and> drop_bit 6 (byte_at w 8) = 2"
proof -
  let ?v1 = "v[6 := char_of ((byte_at v 6 AND 15) OR 64)]"
  let ?w = "?v1[8 := char_of ((byte_at ?v1 8 AND 63) OR 128)]"
  have "byte_at ?w 6 = byte_at v 6 mod 16 + 64" "byte_at ?w 8 = byte_at v 8 mod 64 + 128"
    using assms by (simp_all add: byte_at_def version_nibble variant_bits of_char_char_of_int)
  then have "drop_bit 4 (byte_at ?w 6) = 4" "drop_bit 6 (byte_at ?w 8) = 2"
    by (simp_all add: drop_bit_eq_div)
  then show ?thesis
    using assms by (intro exI [of _ ?w]) (simp add: newAcceptanceID_def Let_def)
qed

lemma newAcceptanceID_lane:
  assumes "length v = 16"
  shows "\<exists>lane. laneForAcceptance (newAcceptanceID v) = Inr lane \<and> 0 \<le> lane \<and> lane < LaneCount"
proof -
  obtain w where w: "newAcceptanceID v = uuid_text (hex_encode w)" "length w = 16"
    "drop_bit 4 (byte_at w 6) = 4" "drop_bit 6 (byte_at w 8) = 2"
    using newAcceptanceID_bytes [OF assms] by blast
  let ?s = "uuid_text (hex_encode w)"
  note hex = uuid_text_hex [OF hex_encode_lower, of w]
  have "length ?s = 36" "?s ! 8 = CHR ''-''" "?s ! 13 = CHR ''-''" "?s ! 18 = CHR ''-''" "?s ! 23 = CHR ''-''"
    using w(2) by (simp_all add: uuid_text_def nth_append nth_Cons')
  then have "laneForAcceptance ?s = Inr (byte_at (sha256 w) 0 mod LaneCount)"
    using w hex by (simp add: laneForAcceptance_def hex_decode_encode)
  then show ?thesis by (simp add: w(1))
qed

text \<open>
  Every identifier the ingest path makes is usable: from any sixteen random bytes
  \<open>NewAcceptanceID\<close> produces a canonical version 4 UUID, which \<open>LaneForAcceptance\<close>
  accepts and maps to one of the sixteen lanes.
\<close>

lemma new_acceptance_id_has_lane:
  assumes "length v = 16"
  shows "\<exists>lane. laneForAcceptance (newAcceptanceID v) = Inr lane \<and> 0 \<le> lane \<and> lane < LaneCount"
  using assms by (rule newAcceptanceID_lane)

end
