(* ===== verification/Codec.thy ===== *)
theory Codec
  imports GoStd
begin

unbundle bit_operations_syntax

section \<open>Variable-length integers and length-prefixed bytes (encoding/binary, internal/query/hash.go)\<close>

text \<open>
  The wire format shared by the canonical filter, the dataset identity and the aggregate
  group key. A \<open>uint64\<close> is an \<open>int\<close> between 0 and \<open>2 ^ 64 - 1\<close>. A \<open>bytes.Reader\<close> is
  the string of bytes not yet read; a read that fails is \<open>None\<close>, because every caller
  gives up on the first failing read.
\<close>

subsection \<open>Writing\<close>

function putUvarint :: "int \<Rightarrow> string" where
  "putUvarint x = (if x < 128 then [char_of x] else char_of (x OR 128) # putUvarint (drop_bit 7 x))"
  by pat_completeness auto
termination
  by (relation "measure nat") (auto simp: drop_bit_eq_div)

declare putUvarint.simps [simp del]

definition writeUint :: "int \<Rightarrow> string" where
  "writeUint v = putUvarint v"

definition zigzag :: "int \<Rightarrow> int" where
  "zigzag x = (let ux = (2 * x) mod 18446744073709551616 in if x < 0 then 18446744073709551615 - ux else ux)"

definition writeInt :: "int \<Rightarrow> string" where
  "writeInt v = putUvarint (zigzag v)"

definition writeBytes :: "string \<Rightarrow> string" where
  "writeBytes v = writeUint (int (length v)) @ v"

subsection \<open>Reading\<close>

text \<open>The loop of \<open>binary.ReadUvarint\<close>: at most ten bytes, the tenth at most 1.\<close>

fun uvarint_loop :: "nat \<Rightarrow> int \<Rightarrow> nat \<Rightarrow> string \<Rightarrow> (int \<times> string) option" where
  "uvarint_loop 0 x s bs = None"
| "uvarint_loop (Suc k) x s [] = None"
| "uvarint_loop (Suc k) x s (c # cs) =
    (let b = of_char c :: int in
     if b < 128 then (if k = 0 \<and> 1 < b then None else Some (x OR push_bit s b, cs))
     else uvarint_loop k (x OR push_bit s (b AND 127)) (s + 7) cs)"

definition readUvarint :: "string \<Rightarrow> (int \<times> string) option" where
  "readUvarint bs = uvarint_loop 10 0 0 bs"

definition readVarint :: "string \<Rightarrow> (int \<times> string) option" where
  "readVarint bs =
    (case readUvarint bs of None \<Rightarrow> None
     | Some (ux, r) \<Rightarrow> Some (if ux AND 1 \<noteq> 0 then - drop_bit 1 ux - 1 else drop_bit 1 ux, r))"

definition readByte :: "string \<Rightarrow> (int \<times> string) option" where
  "readByte bs = (case bs of [] \<Rightarrow> None | c # cs \<Rightarrow> Some (of_char c, cs))"

definition readDatasetCount :: "string \<Rightarrow> int \<Rightarrow> (nat \<times> string) option" where
  "readDatasetCount bs maximum =
    (case readUvarint bs of None \<Rightarrow> None
     | Some (v, r) \<Rightarrow> if maximum < v then None else Some (nat v, r))"

text \<open>
  \<open>reader.Read(value)\<close> on a \<open>bytes.Reader\<close> with nothing left returns \<open>io.EOF\<close> before it
  looks at the length of \<open>value\<close>; so an empty value at the very end of the input is an
  error.
\<close>

definition readDatasetBytes :: "string \<Rightarrow> int \<Rightarrow> (string \<times> string) option" where
  "readDatasetBytes bs maximum =
    (case readUvarint bs of None \<Rightarrow> None
     | Some (n, r) \<Rightarrow>
         if maximum < n \<or> int (length r) < n then None
         else if r = [] then None
         else Some (take (nat n) r, drop (nat n) r))"

subsection \<open>Round trips\<close>

lemma or_push_bit_add:
  fixes x b :: int
  assumes "0 \<le> x" and "x < 2 ^ s"
  shows "x OR push_bit s b = x + 2 ^ s * b"
proof -
  have x: "take_bit s x = x" using assms by (simp add: take_bit_int_eq_self)
  have "take_bit s x AND push_bit s b = 0"
    by (rule bit_eqI) (auto simp: bit_and_iff bit_take_bit_iff bit_push_bit_iff)
  then have "x AND push_bit s b = 0" using x by simp
  then have "x OR push_bit s b = x + push_bit s b" by (metis add_0 plus_and_or)
  then show ?thesis by (simp add: push_bit_eq_mult)
qed

lemma and_127: "(n :: int) AND 127 = n mod 128"
  using take_bit_eq_mask [of 7 n] by (simp add: mask_eq_exp_minus_1 take_bit_eq_mod)

lemma or_128_byte: "(of_char (char_of ((x :: int) OR 128)) :: int) = x mod 128 + 128"
proof -
  have low: "x mod 128 OR 128 = x mod 128 + (128 :: int)"
    using or_push_bit_add [of "x mod 128" 7 1] by (simp add: push_bit_eq_mult)
  have "take_bit 8 (x OR 128) = take_bit 8 (take_bit 7 x OR 128)"
    by (rule bit_eqI) (use bit_exp_iff [of 7 _, where 'a = int] in
        \<open>auto simp: bit_take_bit_iff bit_or_iff less_Suc_eq numeral_eq_Suc\<close>)
  then have "(x OR 128) mod 256 = (x mod 128 + 128) mod 256" by (simp add: low take_bit_eq_mod)
  also have "\<dots> = x mod 128 + 128" by (intro mod_pos_pos_trivial) auto
  finally show ?thesis by simp
qed

lemma putUvarint_small: "x < 128 \<Longrightarrow> putUvarint x = [char_of x]"
  by (simp add: putUvarint.simps [of x])

lemma putUvarint_big: "128 \<le> x \<Longrightarrow> putUvarint x = char_of (x OR 128) # putUvarint (x div 128)"
  by (simp add: putUvarint.simps [of x] drop_bit_eq_div)

lemma putUvarint_not_Nil [simp]: "putUvarint x \<noteq> []"
  by (simp add: putUvarint.simps [of x])

lemma uvarint_loop_put:
  assumes "0 \<le> v" and "0 \<le> x" and "x < 2 ^ s" and "s + 7 * k = 70" and "2 ^ s * v < 2 ^ 64" and "s < 70"
  shows "uvarint_loop k x s (putUvarint v @ rest) = Some (x + 2 ^ s * v, rest)"
  using assms
proof (induction k arbitrary: v x s)
  case 0
  then show ?case by simp
next
  case (Suc k)
  show ?case
  proof (cases "v < 128")
    case True
    have "k = 0 \<Longrightarrow> v < 2"
    proof -
      assume "k = 0"
      then have "s = 63" using Suc.prems by simp
      then show "v < 2" using Suc.prems by simp
    qed
    moreover have "(of_char (char_of v) :: int) = v"
      using True Suc.prems(1) by (intro of_char_char_of_int) simp_all
    ultimately show ?thesis
      using True Suc.prems by (auto simp: putUvarint_small or_push_bit_add)
  next
    case False
    have k: "0 < k"
    proof (rule ccontr)
      assume "\<not> 0 < k"
      then have "s = 63" using Suc.prems by simp
      then show False using Suc.prems False by simp
    qed
    let ?x = "x + 2 ^ s * (v mod 128)"
    have pow: "(2::int) ^ (s + 7) = 2 ^ s * 128" by (simp add: power_add)
    have v: "v mod 128 + 128 * (v div 128) = v" by simp
    have "v mod 128 \<le> 127" "0 \<le> v mod 128" by simp_all
    then have "2 ^ s * (v mod 128) \<le> 2 ^ s * (127 :: int)" by (intro mult_left_mono) simp_all
    then have "?x < 2 ^ s + 2 ^ s * 127" using Suc.prems(3) by linarith
    then have x: "0 \<le> ?x" "?x < 2 ^ (s + 7)" using Suc.prems pow by simp_all
    have eq: "?x + 2 ^ (s + 7) * (v div 128) = x + 2 ^ s * v"
      using v by (metis (no_types, lifting) add.assoc distrib_left mult.assoc pow)
    have "0 \<le> 2 ^ s * (v mod 128)" by simp
    with eq have "2 ^ (s + 7) * (v div 128) \<le> 2 ^ s * v" by linarith
    then have "2 ^ (s + 7) * (v div 128) < 2 ^ 64" using Suc.prems by simp
    moreover have "s + 7 < 70" "s + 7 + 7 * k = 70" using Suc.prems k by simp_all
    ultimately have "uvarint_loop k ?x (s + 7) (putUvarint (v div 128) @ rest) = Some (?x + 2 ^ (s + 7) * (v div 128), rest)"
      using Suc.IH [of "v div 128" ?x "s + 7"] x False by (simp add: pos_imp_zdiv_nonneg_iff)
    moreover have "\<not> (of_char (char_of (v OR 128)) :: int) < 128"
      unfolding or_128_byte by (simp add: not_less)
    moreover have "(of_char (char_of (v OR 128)) :: int) AND 127 = v mod 128"
      unfolding or_128_byte and_127 by simp
    ultimately show ?thesis
      using False Suc.prems eq by (simp add: putUvarint_big or_push_bit_add del: of_char_of)
  qed
qed

lemma readUvarint_put: "0 \<le> v \<Longrightarrow> v < 18446744073709551616 \<Longrightarrow> readUvarint (putUvarint v @ rest) = Some (v, rest)"
  using uvarint_loop_put [of v 0 0 10 rest] by (simp add: readUvarint_def)

lemma zigzag_range: "int64 v \<Longrightarrow> 0 \<le> zigzag v \<and> zigzag v < 18446744073709551616"
  by (auto simp: zigzag_def Let_def)

lemma zigzag_eq: "int64 v \<Longrightarrow> zigzag v = (if v < 0 then - 2 * v - 1 else 2 * v)"
proof (cases "v < 0")
  case True
  assume v: "int64 v"
  have "(2 * v) mod 18446744073709551616 = (2 * v + 18446744073709551616) mod 18446744073709551616" by simp
  also have "\<dots> = 2 * v + 18446744073709551616"
    using v True by (intro mod_pos_pos_trivial) (auto simp: int64_def)
  finally show ?thesis using True by (simp add: zigzag_def)
next
  case False
  assume "int64 v"
  with False show ?thesis by (simp add: zigzag_def int64_def)
qed

lemma readVarint_write: "int64 v \<Longrightarrow> readVarint (writeInt v @ rest) = Some (v, rest)"
proof -
  assume v: "int64 v"
  have "(zigzag v AND 1 \<noteq> 0) = (v < 0)" "(if v < 0 then - drop_bit 1 (zigzag v) - 1 else drop_bit 1 (zigzag v)) = v"
    by (auto simp: zigzag_eq [OF v] and_one_eq drop_bit_eq_div) presburger+
  then show ?thesis
    using zigzag_range [OF v] by (simp add: readVarint_def writeInt_def readUvarint_put)
qed

text \<open>
  A length-prefixed value is read back, unless it is empty and nothing follows it.
\<close>

lemma readDatasetBytes_write:
  assumes "int (length v) \<le> maximum" and "maximum < 18446744073709551616"
  shows "readDatasetBytes (writeBytes v @ rest) maximum = (if v @ rest = [] then None else Some (v, rest))"
  using assms by (simp add: readDatasetBytes_def writeBytes_def writeUint_def readUvarint_put)

lemma readDatasetCount_write:
  assumes "int n \<le> maximum" and "maximum < 18446744073709551616"
  shows "readDatasetCount (writeUint (int n) @ rest) maximum = Some (n, rest)"
  using assms by (simp add: readDatasetCount_def writeUint_def readUvarint_put)

lemma writeBytes_not_Nil [simp]: "writeBytes v \<noteq> []"
  by (simp add: writeBytes_def writeUint_def)

end
