(* ===== verification/FilterExpr.thy ===== *)
theory FilterExpr
  imports Codec
begin

unbundle bit_operations_syntax

section \<open>Filter expressions and their canonical encoding (internal/query)\<close>

text \<open>
  The filter tree of \<open>internal/query/filter.go\<close>, its validation, its canonical encoding
  (\<open>hash.go\<close>) and the decoder that rebuilds the tree kept in a snapshot
  (\<open>canonical_filter.go\<close>). A \<open>*Node\<close> is a \<open>node option\<close> (\<open>None\<close> is nil) and a
  \<open>Node\<close> carries every field of the Go struct, so that malformed trees are values of the
  model too. A \<open>float64\<close> is its 64-bit pattern. \<open>regexp.Compile\<close> enters as the predicate
  \<open>re_ok\<close> on patterns, an argument of everything that validates.
\<close>

subsection \<open>Data\<close>

datatype filter_error =
    DepthLimit | UnsupportedField | InvalidAttribute | InvalidLiteral | InvalidComparison
  | BadArity | NotPredicate | InvalidSet | SetTypesDiffer | InvalidStringPredicate | InvalidPattern
  | TextTooLarge | InvalidPresence | InvalidArrayPredicate | UnsupportedNode
  | RootNotPredicate | NodeLimit | RegexLimit | InvalidCanonical | NonCanonical

record literal =
  l_type :: string
  l_string :: string
  l_integer :: string
  l_double :: "64 word"
  l_boolean :: bool

datatype node = Node
  (n_op: string) (n_name: string) (n_type: string) (n_namespace: string) (n_path: string)
  (n_literal: "literal option") (n_left: "node option") (n_right: "node option") (n_value: "node option")
  (n_arg: "node option") (n_args: "node option list") (n_items: "literal list") (n_pattern: string)
  (n_constant: bool)

record vstate =
  v_nodes :: int
  v_regex :: int

definition fieldTypes :: "string \<rightharpoonup> string" where
  "fieldTypes = map_of
    [(''kind'', ''string''), (''level'', ''string''), (''severity_number'', ''integer''), (''message'', ''string''),
     (''message_template'', ''string''), (''service'', ''string''), (''environment'', ''string''), (''release'', ''string''),
     (''logger'', ''string''), (''sdk_name'', ''string''), (''sdk_version'', ''string''), (''platform'', ''string''),
     (''server_name'', ''string''), (''trace_id'', ''string''), (''span_id'', ''string''), (''source_event_id'', ''string''),
     (''issue_id'', ''string'')]"

definition namespaces :: "string list" where
  "namespaces = [''attributes'', ''tags'', ''extra'', ''contexts'', ''user'', ''request'', ''sdk'']"

definition comparison_ops :: "string list" where
  "comparison_ops = [''eq'', ''ne'', ''lt'', ''le'', ''gt'', ''ge'']"

definition string_ops :: "string list" where
  "string_ops = [''contains'', ''starts_with'', ''ends_with'', ''icontains'', ''matches'']"

definition predicate_ops :: "string list" where
  "predicate_ops = comparison_ops @ [''and'', ''or'', ''not'', ''in''] @ string_ops @
     [''text'', ''exists'', ''is_null'', ''array_contains'', ''constant'']"

subsection \<open>Leaves: scalar types, literals, pointers\<close>

definition validScalarType :: "string \<Rightarrow> bool" where
  "validScalarType t \<longleftrightarrow> t = ''string'' \<or> t = ''integer'' \<or> t = ''double'' \<or> t = ''boolean''"

definition f64_exponent :: "64 word \<Rightarrow> int" where
  "f64_exponent d = (uint d div 4503599627370496) mod 2048"

text \<open>Neither NaN nor an infinity: the exponent bits are not all ones.\<close>

definition f64_finite :: "64 word \<Rightarrow> bool" where
  "f64_finite d \<longleftrightarrow> f64_exponent d \<noteq> 2047"

definition validDecimal38 :: "string \<Rightarrow> bool" where
  "validDecimal38 v =
    (let digits = (if has_prefix v ''-'' then drop 1 v else v)
     in digits \<noteq> [] \<and> list_all digit_char digits \<and> length (trim_left CHR ''0'' digits) \<le> 38)"

definition validLiteral :: "literal \<Rightarrow> bool" where
  "validLiteral l =
    (if l_type l = ''string'' \<or> l_type l = ''boolean'' then True
     else if l_type l = ''integer'' then validDecimal38 (l_integer l)
     else if l_type l = ''double'' then f64_finite (l_double l)
     else False)"

fun tildes_ok :: "string \<Rightarrow> bool" where
  "tildes_ok [] = True"
| "tildes_ok (c # cs) =
    (if c = CHR ''~''
     then (case cs of [] \<Rightarrow> False | d # ds \<Rightarrow> (d = CHR ''0'' \<or> d = CHR ''1'') \<and> tildes_ok ds)
     else tildes_ok cs)"

definition validPointer :: "string \<Rightarrow> bool" where
  "validPointer path \<longleftrightarrow> path \<noteq> [] \<and> length path \<le> 1024 \<and> hd path = CHR ''/'' \<and> tildes_ok path"

definition isPredicate :: "node \<Rightarrow> bool" where
  "isPredicate nd \<longleftrightarrow> n_op nd \<in> set predicate_ops"

definition is_operand :: "node option \<Rightarrow> bool" where
  "is_operand n = (case n of None \<Rightarrow> False | Some nd \<Rightarrow> n_op nd = ''field'' \<or> n_op nd = ''attr'')"

definition normalizeInteger :: "string \<Rightarrow> string" where
  "normalizeInteger v =
    (let negative = has_prefix v ''-'';
         digits = trim_left CHR ''0'' (if negative then drop 1 v else v)
     in if digits = [] then ''0'' else if negative then CHR ''-'' # digits else digits)"

subsection \<open>Validation\<close>

definition bump_nodes :: "vstate \<Rightarrow> vstate" where
  "bump_nodes st = st\<lparr>v_nodes := v_nodes st + 1\<rparr>"

definition bump_regex :: "vstate \<Rightarrow> vstate" where
  "bump_regex st = st\<lparr>v_regex := v_regex st + 1\<rparr>"

fun validate_items :: "string \<Rightarrow> literal list \<Rightarrow> vstate \<Rightarrow> filter_error + vstate" where
  "validate_items k [] st = Inr st"
| "validate_items k (i # is) st =
    (if l_type i \<noteq> k \<or> \<not> validLiteral i then Inl SetTypesDiffer else validate_items k is (bump_nodes st))"

function (sequential) validateNode :: "(string \<Rightarrow> bool) \<Rightarrow> node option \<Rightarrow> int \<Rightarrow> vstate \<Rightarrow> filter_error + string \<times> vstate"
  and validate_args :: "(string \<Rightarrow> bool) \<Rightarrow> node option list \<Rightarrow> int \<Rightarrow> vstate \<Rightarrow> filter_error + vstate" where
  "validateNode re_ok None depth st = Inl DepthLimit"
| "validateNode re_ok (Some (Node op name ty ns path lit left right val arg args items pattern const)) depth st0 =
    (if 16 < depth then Inl DepthLimit else
     let st = bump_nodes st0 in
     if op = ''field'' then
       (case fieldTypes name of None \<Rightarrow> Inl UnsupportedField | Some k \<Rightarrow> Inr (k, st))
     else if op = ''attr'' then
       (if ns \<notin> set namespaces \<or> \<not> validPointer path \<or> \<not> validScalarType ty then Inl InvalidAttribute else Inr (ty, st))
     else if op = ''literal'' then
       (case lit of None \<Rightarrow> Inl InvalidLiteral
        | Some l \<Rightarrow> if l_type l \<noteq> ty \<or> \<not> validLiteral l then Inl InvalidLiteral else Inr (ty, st))
     else if op \<in> set comparison_ops then
       bindR (validateNode re_ok left (depth + 1) st) (\<lambda>(lk, st1).
       bindR (validateNode re_ok right (depth + 1) st1) (\<lambda>(rk, st2).
         if \<not> is_operand left \<or> map_option n_op right \<noteq> Some ''literal'' \<or> lk \<noteq> rk \<or>
            ((op \<noteq> ''eq'' \<and> op \<noteq> ''ne'') \<and> lk = ''boolean'')
         then Inl InvalidComparison else Inr (''boolean'', st2)))
     else if op = ''and'' \<or> op = ''or'' then
       (if length args < 2 \<or> 16 < length args then Inl BadArity
        else bindR (validate_args re_ok args (depth + 1) st) (\<lambda>st1. Inr (''boolean'', st1)))
     else if op = ''not'' then
       (case validateNode re_ok arg (depth + 1) st of
          Inl e \<Rightarrow> Inl NotPredicate
        | Inr (k, st1) \<Rightarrow>
            if k \<noteq> ''boolean'' \<or> \<not> (case arg of None \<Rightarrow> False | Some a \<Rightarrow> isPredicate a)
            then Inl NotPredicate else Inr (''boolean'', st1))
     else if op = ''in'' then
       (case validateNode re_ok val (depth + 1) st of
          Inl e \<Rightarrow> Inl InvalidSet
        | Inr (k, st1) \<Rightarrow>
            if \<not> is_operand val \<or> length items < 1 \<or> 100 < length items then Inl InvalidSet
            else bindR (validate_items k items st1) (\<lambda>st2. Inr (''boolean'', st2)))
     else if op \<in> set string_ops then
       (case validateNode re_ok val (depth + 1) st of
          Inl e \<Rightarrow> Inl InvalidStringPredicate
        | Inr (k, st1) \<Rightarrow>
            if k \<noteq> ''string'' \<or> \<not> is_operand val \<or> 1024 < length pattern then Inl InvalidStringPredicate
            else if op = ''matches'' then
              (if re_ok pattern then Inr (''boolean'', bump_regex st1) else Inl InvalidPattern)
            else Inr (''boolean'', st1))
     else if op = ''text'' then
       (if 1024 < length pattern then Inl TextTooLarge else Inr (''boolean'', st))
     else if op = ''exists'' \<or> op = ''is_null'' then
       (if ns \<notin> set namespaces \<or> \<not> validPointer path then Inl InvalidPresence else Inr (''boolean'', st))
     else if op = ''array_contains'' then
       (case lit of None \<Rightarrow> Inl InvalidArrayPredicate
        | Some l \<Rightarrow>
            if ns \<notin> set namespaces \<or> \<not> validPointer path \<or> \<not> validScalarType (l_type l) \<or> \<not> validLiteral l
            then Inl InvalidArrayPredicate else Inr (''boolean'', bump_nodes st))
     else if op = ''constant'' then Inr (''boolean'', st)
     else Inl UnsupportedNode)"
| "validate_args re_ok [] depth st = Inr st"
| "validate_args re_ok (c # cs) depth st =
    (case validateNode re_ok c depth st of
       Inl e \<Rightarrow> Inl NotPredicate
     | Inr (k, st1) \<Rightarrow>
         if k \<noteq> ''boolean'' \<or> \<not> (case c of None \<Rightarrow> False | Some a \<Rightarrow> isPredicate a)
         then Inl NotPredicate else validate_args re_ok cs depth st1)"
  by pat_completeness auto
termination
  by (relation "measure (\<lambda>x. case x of Inl (_, n, _, _) \<Rightarrow> size_option size n | Inr (_, ns, _, _) \<Rightarrow> size_list (size_option size) ns)")
    auto

definition validateFilter :: "(string \<Rightarrow> bool) \<Rightarrow> node option \<Rightarrow> filter_error + unit" where
  "validateFilter re_ok root =
    bindR (validateNode re_ok root 1 \<lparr>v_nodes = 0, v_regex = 0\<rparr>) (\<lambda>(k, st).
      if k \<noteq> ''boolean'' \<or> \<not> (case root of None \<Rightarrow> False | Some nd \<Rightarrow> isPredicate nd) then Inl RootNotPredicate
      else if 128 < v_nodes st then Inl NodeLimit
      else if 4 < v_regex st then Inl RegexLimit
      else Inr ())"

subsection \<open>The branches of the validator\<close>

lemma comparison_ops_neq:
  "op \<in> set comparison_ops \<Longrightarrow> op \<noteq> ''field'' \<and> op \<noteq> ''attr'' \<and> op \<noteq> ''literal''"
  by (auto simp: comparison_ops_def)

lemma string_ops_neq:
  "op \<in> set string_ops \<Longrightarrow> op \<notin> set comparison_ops \<and> op \<noteq> ''field'' \<and> op \<noteq> ''attr'' \<and> op \<noteq> ''literal'' \<and>
   op \<noteq> ''and'' \<and> op \<noteq> ''or'' \<and> op \<noteq> ''not'' \<and> op \<noteq> ''in''"
  by (auto simp: comparison_ops_def string_ops_def)

lemma validateNode_depth: "validateNode re_ok n d st = Inr x \<Longrightarrow> d \<le> 16"
  by (cases "(re_ok, n, d, st)" rule: validateNode.cases) (auto split: if_splits)

lemma validate_field:
  "d \<le> 16 \<Longrightarrow> 
   validateNode re_ok (Some (Node ''field'' name ty ns path lit l r v a as is p c)) d st =
     (case fieldTypes name of None \<Rightarrow> Inl UnsupportedField | Some k \<Rightarrow> Inr (k, bump_nodes st))"
  by (simp add: Let_def comparison_ops_def string_ops_def)

lemma validate_attr:
  "d \<le> 16 \<Longrightarrow> 
   validateNode re_ok (Some (Node ''attr'' name ty ns path lit l r v a as is p c)) d st =
     (if ns \<in> set namespaces \<and> validPointer path \<and> validScalarType ty then Inr (ty, bump_nodes st) else Inl InvalidAttribute)"
  by (simp add: Let_def comparison_ops_def string_ops_def)

lemma validate_literal:
  "d \<le> 16 \<Longrightarrow> 
   validateNode re_ok (Some (Node ''literal'' name ty ns path lit l r v a as is p c)) d st =
     (case lit of None \<Rightarrow> Inl InvalidLiteral
      | Some x \<Rightarrow> if l_type x = ty \<and> validLiteral x then Inr (ty, bump_nodes st) else Inl InvalidLiteral)"
  by (simp split: option.split add: Let_def comparison_ops_def string_ops_def)

lemma validate_comparison:
  "d \<le> 16 \<Longrightarrow> op \<in> set comparison_ops \<Longrightarrow>
   validateNode re_ok (Some (Node op name ty ns path lit l r v a as is p c)) d st =
     bindR (validateNode re_ok l (d + 1) (bump_nodes st)) (\<lambda>(lk, st1).
       bindR (validateNode re_ok r (d + 1) st1) (\<lambda>(rk, st2).
         if \<not> is_operand l \<or> map_option n_op r \<noteq> Some ''literal'' \<or> lk \<noteq> rk \<or>
            ((op \<noteq> ''eq'' \<and> op \<noteq> ''ne'') \<and> lk = ''boolean'')
         then Inl InvalidComparison else Inr (''boolean'', st2)))"
  using comparison_ops_neq [of op] by (simp add: Let_def)

lemma validate_boolean:
  "d \<le> 16 \<Longrightarrow> op = ''and'' \<or> op = ''or'' \<Longrightarrow> 
   validateNode re_ok (Some (Node op name ty ns path lit l r v a as is p c)) d st =
     (if 2 \<le> length as \<and> length as \<le> 16
      then bindR (validate_args re_ok as (d + 1) (bump_nodes st)) (\<lambda>st1. Inr (''boolean'', st1)) else Inl BadArity)"
  by (elim disjE) (simp_all add: Let_def comparison_ops_def)

lemma validate_not:
  "d \<le> 16 \<Longrightarrow> 
   validateNode re_ok (Some (Node ''not'' name ty ns path lit l r v a as is p c)) d st =
     (case validateNode re_ok a (d + 1) (bump_nodes st) of
        Inl e \<Rightarrow> Inl NotPredicate
      | Inr (k, st1) \<Rightarrow>
          if k \<noteq> ''boolean'' \<or> \<not> (case a of None \<Rightarrow> False | Some a \<Rightarrow> isPredicate a)
          then Inl NotPredicate else Inr (''boolean'', st1))"
  by (simp add: Let_def comparison_ops_def string_ops_def)

lemma validate_in:
  "d \<le> 16 \<Longrightarrow> 
   validateNode re_ok (Some (Node ''in'' name ty ns path lit l r v a as is p c)) d st =
     (case validateNode re_ok v (d + 1) (bump_nodes st) of
        Inl e \<Rightarrow> Inl InvalidSet
      | Inr (k, st1) \<Rightarrow>
          if \<not> is_operand v \<or> length is < 1 \<or> 100 < length is then Inl InvalidSet
          else bindR (validate_items k is st1) (\<lambda>st2. Inr (''boolean'', st2)))"
  by (simp add: Let_def comparison_ops_def string_ops_def)

lemma validate_string:
  "d \<le> 16 \<Longrightarrow> op \<in> set string_ops \<Longrightarrow> 
   validateNode re_ok (Some (Node op name ty ns path lit l r v a as is p c)) d st =
     (case validateNode re_ok v (d + 1) (bump_nodes st) of
        Inl e \<Rightarrow> Inl InvalidStringPredicate
      | Inr (k, st1) \<Rightarrow>
          if k \<noteq> ''string'' \<or> \<not> is_operand v \<or> 1024 < length p then Inl InvalidStringPredicate
          else if op = ''matches'' then
            (if re_ok p then Inr (''boolean'', bump_regex st1) else Inl InvalidPattern)
          else Inr (''boolean'', st1))"
  using string_ops_neq [of op] by (simp add: Let_def)

lemma validate_text:
  "d \<le> 16 \<Longrightarrow> 
   validateNode re_ok (Some (Node ''text'' name ty ns path lit l r v a as is p c)) d st =
     (if 1024 < length p then Inl TextTooLarge else Inr (''boolean'', bump_nodes st))"
  by (simp add: Let_def comparison_ops_def string_ops_def)

lemma validate_presence:
  "d \<le> 16 \<Longrightarrow> op = ''exists'' \<or> op = ''is_null'' \<Longrightarrow> 
   validateNode re_ok (Some (Node op name ty ns path lit l r v a as is p c)) d st =
     (if ns \<in> set namespaces \<and> validPointer path then Inr (''boolean'', bump_nodes st) else Inl InvalidPresence)"
  by (elim disjE) (simp_all add: Let_def comparison_ops_def string_ops_def)

lemma validate_array:
  "d \<le> 16 \<Longrightarrow> 
   validateNode re_ok (Some (Node ''array_contains'' name ty ns path lit l r v a as is p c)) d st =
     (case lit of None \<Rightarrow> Inl InvalidArrayPredicate
      | Some x \<Rightarrow>
          if ns \<in> set namespaces \<and> validPointer path \<and> validScalarType (l_type x) \<and> validLiteral x
          then Inr (''boolean'', bump_nodes (bump_nodes st)) else Inl InvalidArrayPredicate)"
  by (simp split: option.split add: Let_def comparison_ops_def string_ops_def)

lemma validate_constant:
  "d \<le> 16 \<Longrightarrow> 
   validateNode re_ok (Some (Node ''constant'' name ty ns path lit l r v a as is p c)) d st =
     Inr (''boolean'', bump_nodes st)"
  by (simp add: Let_def comparison_ops_def string_ops_def)

definition node_ops :: "string list" where
  "node_ops = [''field'', ''attr'', ''literal''] @ predicate_ops"

lemma validateNode_op:
  "validateNode re_ok (Some (Node op name ty ns path lit l r v a as is p c)) d st = Inr x \<Longrightarrow> d \<le> 16 \<and> op \<in> set node_ops"
  by (rule ccontr) (auto simp: node_ops_def predicate_ops_def Let_def split: if_splits)

declare validateNode.simps(2) [simp del]

lemmas validate_simps = validate_field validate_attr validate_literal validate_comparison validate_boolean validate_not
  validate_in validate_string validate_text validate_presence validate_array validate_constant

subsection \<open>Well-typed trees\<close>

text \<open>
  The declarative reading of the validator: \<open>well_typed re_ok d n k c x\<close> says that the tree
  \<open>n\<close> at depth \<open>d\<close> has scalar type \<open>k\<close>, counts \<open>c\<close> nodes (set items and array literals
  count as nodes) and holds \<open>x\<close> regular expressions. A rule constrains only the fields
  that its operation uses.
\<close>

inductive well_typed :: "(string \<Rightarrow> bool) \<Rightarrow> int \<Rightarrow> node \<Rightarrow> string \<Rightarrow> int \<Rightarrow> int \<Rightarrow> bool"
  and well_typed_args :: "(string \<Rightarrow> bool) \<Rightarrow> int \<Rightarrow> node option list \<Rightarrow> int \<Rightarrow> int \<Rightarrow> bool"
  for re_ok :: "string \<Rightarrow> bool" where
  wt_field: "d \<le> 16 \<Longrightarrow> fieldTypes name = Some k \<Longrightarrow>
    well_typed re_ok d (Node ''field'' name ty ns path lit l r v a as is p c) k 1 0"
| wt_attr: "d \<le> 16 \<Longrightarrow> ns \<in> set namespaces \<Longrightarrow> validPointer path \<Longrightarrow> validScalarType ty \<Longrightarrow>
    well_typed re_ok d (Node ''attr'' name ty ns path lit l r v a as is p c) ty 1 0"
| wt_literal: "d \<le> 16 \<Longrightarrow> validLiteral x \<Longrightarrow>
    well_typed re_ok d (Node ''literal'' name (l_type x) ns path (Some x) l r v a as is p c) (l_type x) 1 0"
| wt_comparison: "d \<le> 16 \<Longrightarrow> op \<in> set comparison_ops \<Longrightarrow>
    well_typed re_ok (d + 1) l k i m \<Longrightarrow> n_op l \<in> {''field'', ''attr''} \<Longrightarrow>
    well_typed re_ok (d + 1) r k j m' \<Longrightarrow> n_op r = ''literal'' \<Longrightarrow> (k = ''boolean'' \<Longrightarrow> op \<in> {''eq'', ''ne''}) \<Longrightarrow>
    well_typed re_ok d (Node op name ty ns path lit (Some l) (Some r) v a as is p c) ''boolean'' (1 + i + j) (m + m')"
| wt_boolean: "d \<le> 16 \<Longrightarrow> op \<in> {''and'', ''or''} \<Longrightarrow> 2 \<le> length as \<Longrightarrow> length as \<le> 16 \<Longrightarrow>
    well_typed_args re_ok (d + 1) as i m \<Longrightarrow>
    well_typed re_ok d (Node op name ty ns path lit l r v a as is p c) ''boolean'' (1 + i) m"
| wt_not: "d \<le> 16 \<Longrightarrow> well_typed re_ok (d + 1) a ''boolean'' i m \<Longrightarrow> isPredicate a \<Longrightarrow>
    well_typed re_ok d (Node ''not'' name ty ns path lit l r v (Some a) as is p c) ''boolean'' (1 + i) m"
| wt_in: "d \<le> 16 \<Longrightarrow> well_typed re_ok (d + 1) v k i m \<Longrightarrow> n_op v \<in> {''field'', ''attr''} \<Longrightarrow>
    1 \<le> length is \<Longrightarrow> length is \<le> 100 \<Longrightarrow> list_all (\<lambda>x. l_type x = k \<and> validLiteral x) is \<Longrightarrow>
    well_typed re_ok d (Node ''in'' name ty ns path lit l r (Some v) a as is p c) ''boolean'' (1 + i + int (length is)) m"
| wt_string: "d \<le> 16 \<Longrightarrow> op \<in> set string_ops \<Longrightarrow> well_typed re_ok (d + 1) v ''string'' i m \<Longrightarrow>
    n_op v \<in> {''field'', ''attr''} \<Longrightarrow> length p \<le> 1024 \<Longrightarrow> (op = ''matches'' \<Longrightarrow> re_ok p) \<Longrightarrow>
    well_typed re_ok d (Node op name ty ns path lit l r (Some v) a as is p c) ''boolean'' (1 + i)
      (if op = ''matches'' then m + 1 else m)"
| wt_text: "d \<le> 16 \<Longrightarrow> length p \<le> 1024 \<Longrightarrow>
    well_typed re_ok d (Node ''text'' name ty ns path lit l r v a as is p c) ''boolean'' 1 0"
| wt_presence: "d \<le> 16 \<Longrightarrow> op \<in> {''exists'', ''is_null''} \<Longrightarrow> ns \<in> set namespaces \<Longrightarrow> validPointer path \<Longrightarrow>
    well_typed re_ok d (Node op name ty ns path lit l r v a as is p c) ''boolean'' 1 0"
| wt_array: "d \<le> 16 \<Longrightarrow> ns \<in> set namespaces \<Longrightarrow> validPointer path \<Longrightarrow> validScalarType (l_type x) \<Longrightarrow> validLiteral x \<Longrightarrow>
    well_typed re_ok d (Node ''array_contains'' name ty ns path (Some x) l r v a as is p c) ''boolean'' 2 0"
| wt_constant: "d \<le> 16 \<Longrightarrow> well_typed re_ok d (Node ''constant'' name ty ns path lit l r v a as is p c) ''boolean'' 1 0"
| wt_none: "well_typed_args re_ok d [] 0 0"
| wt_more: "well_typed re_ok d a ''boolean'' i m \<Longrightarrow> isPredicate a \<Longrightarrow> well_typed_args re_ok d as j m' \<Longrightarrow>
    well_typed_args re_ok d (Some a # as) (i + j) (m + m')"

definition count_nodes :: "vstate \<Rightarrow> int \<Rightarrow> int \<Rightarrow> vstate" where
  "count_nodes st i m = st\<lparr>v_nodes := v_nodes st + i, v_regex := v_regex st + m\<rparr>"

lemma count_nodes_simps [simp]:
  "bump_nodes (count_nodes st i m) = count_nodes st (i + 1) m"
  "bump_regex (count_nodes st i m) = count_nodes st i (m + 1)"
  "count_nodes (count_nodes st i m) j m' = count_nodes st (i + j) (m + m')"
  "v_nodes (count_nodes st i m) = v_nodes st + i"
  "v_regex (count_nodes st i m) = v_regex st + m"
  by (simp_all add: count_nodes_def bump_nodes_def bump_regex_def)

lemma bump_nodes_count: "bump_nodes st = count_nodes st 1 0"
  by (simp add: count_nodes_def bump_nodes_def)

lemma validate_items_eq_Inr:
  "validate_items k is st = Inr st' \<longleftrightarrow>
   list_all (\<lambda>x. l_type x = k \<and> validLiteral x) is \<and> st' = count_nodes st (int (length is)) 0"
proof (induction "is" arbitrary: st)
  case Nil
  then show ?case by (auto simp: count_nodes_def)
next
  case (Cons i "is")
  then show ?case by (auto simp: bump_nodes_count algebra_simps)
qed

text \<open>The validator accepts a tree that has a typing.\<close>

lemma well_typed_validates:
  "well_typed re_ok d n k i m \<Longrightarrow> validateNode re_ok (Some n) d st = Inr (k, count_nodes st i m)"
  "well_typed_args re_ok d as i m \<Longrightarrow> validate_args re_ok as d st = Inr (count_nodes st i m)"
proof (induction arbitrary: st and st rule: well_typed_well_typed_args.inducts)
  case (wt_in d v k i m "is")
  moreover have "validate_items k is (count_nodes st (1 + i) m) = Inr (count_nodes st (1 + i + int (length is)) m)" for st
    using wt_in by (simp add: validate_items_eq_Inr)
  ultimately show ?case
    by (auto simp: validate_simps bump_nodes_count is_operand_def)
next
  case (wt_none d)
  then show ?case by (simp add: count_nodes_def)
qed (auto simp: validate_simps bump_nodes_count is_operand_def ac_simps)

text \<open>
  Conversely, whatever the validator accepts has a typing, and the state it returns counts
  the nodes and the regular expressions of the tree.
\<close>

definition accepts_typed :: "(string \<Rightarrow> bool) \<Rightarrow> node option \<Rightarrow> bool" where
  "accepts_typed re_ok n \<longleftrightarrow> (\<forall>d st k st'. validateNode re_ok n d st = Inr (k, st') \<longrightarrow>
     (\<exists>nd i m. n = Some nd \<and> well_typed re_ok d nd k i m \<and> st' = count_nodes st i m))"

lemma accepts_typedD:
  "accepts_typed re_ok n \<Longrightarrow> validateNode re_ok n d st = Inr (k, st') \<Longrightarrow>
   \<exists>nd i m. n = Some nd \<and> well_typed re_ok d nd k i m \<and> st' = count_nodes st i m"
  by (auto simp: accepts_typed_def)

lemma accepts_typed_args:
  "\<forall>n \<in> set ns. accepts_typed re_ok n \<Longrightarrow> validate_args re_ok ns d st = Inr st' \<Longrightarrow>
   \<exists>i m. well_typed_args re_ok d ns i m \<and> st' = count_nodes st i m"
proof (induction ns arbitrary: st)
  case Nil
  then show ?case by (auto intro!: exI [of _ 0] wt_none simp: count_nodes_def)
next
  case (Cons n ns)
  from Cons.prems(2) obtain st1 nd where step: "validateNode re_ok n d st = Inr (''boolean'', st1)" "n = Some nd" "isPredicate nd"
    "validate_args re_ok ns d st1 = Inr st'"
    by (auto split: sum.splits if_splits option.splits)
  from accepts_typedD [OF _ step(1)] Cons.prems(1) step(2)
  obtain i m where head: "well_typed re_ok d nd ''boolean'' i m" "st1 = count_nodes st i m" by auto
  from Cons.IH [OF _ step(4)] Cons.prems(1)
  obtain j m' where "well_typed_args re_ok d ns j m'" "st' = count_nodes st1 j m'" by auto
  with head step(2,3) wt_more [of re_ok d nd i m ns j m'] show ?case
    by (intro exI [of _ "i + j"] exI [of _ "m + m'"]) simp
qed

lemma validateNode_comparison:
  assumes "accepts_typed re_ok l" and "accepts_typed re_ok r" and op: "op \<in> set comparison_ops"
    and v: "validateNode re_ok (Some (Node op name ty ns path lit l r v a as is p c)) d st = Inr (k, st')"
  shows "\<exists>i m. well_typed re_ok d (Node op name ty ns path lit l r v a as is p c) k i m \<and> st' = count_nodes st i m"
proof -
  have d: "d \<le> 16" using v by (rule validateNode_depth)
  from v op d obtain lk st1 where
    1: "validateNode re_ok l (d + 1) (bump_nodes st) = Inr (lk, st1)" "validateNode re_ok r (d + 1) st1 = Inr (lk, st')"
    and ok: "is_operand l" "map_option n_op r = Some ''literal''" "lk = ''boolean'' \<Longrightarrow> op \<in> {''eq'', ''ne''}" "k = ''boolean''"
    by (auto simp: validate_comparison bindR_eq_Inr split: if_splits)
  from accepts_typedD [OF assms(1) 1(1)] accepts_typedD [OF assms(2) 1(2)] obtain l' r' i m j m' where
    sub: "l = Some l'" "r = Some r'" "well_typed re_ok (d + 1) l' lk i m" "well_typed re_ok (d + 1) r' lk j m'"
    and st: "st' = count_nodes st (1 + i + j) (m + m')"
    by (auto simp: bump_nodes_count)
  have "n_op l' \<in> {''field'', ''attr''}" "n_op r' = ''literal''" using ok sub by (auto simp: is_operand_def)
  from wt_comparison [OF d op sub(3) this(1) sub(4) this(2) ok(3)] show ?thesis
    using sub st ok by blast
qed

lemma validateNode_operand:
  assumes "accepts_typed re_ok v" and op: "op = ''in'' \<or> op \<in> set string_ops"
    and v: "validateNode re_ok (Some (Node op name ty ns path lit l r v a as is p c)) d st = Inr (k, st')"
  shows "\<exists>i m. well_typed re_ok d (Node op name ty ns path lit l r v a as is p c) k i m \<and> st' = count_nodes st i m"
proof -
  have d: "d \<le> 16" using v by (rule validateNode_depth)
  from v op d obtain vk st1 where
    1: "validateNode re_ok v (d + 1) (bump_nodes st) = Inr (vk, st1)"
    by (auto simp: validate_in validate_string split: sum.splits)
  from accepts_typedD [OF assms(1) 1] obtain v' i m where
    v': "v = Some v'" "well_typed re_ok (d + 1) v' vk i m" "st1 = count_nodes st (1 + i) m"
    by (auto simp: bump_nodes_count)
  from op show ?thesis
  proof
    assume op: "op = ''in''"
    with v 1 d v' have "n_op v' \<in> {''field'', ''attr''}" "1 \<le> length is" "length is \<le> 100"
      "list_all (\<lambda>x. l_type x = vk \<and> validLiteral x) is"
      and r: "k = ''boolean''" "st' = count_nodes st (1 + i + int (length is)) m"
      by (auto simp: validate_in is_operand_def bindR_eq_Inr validate_items_eq_Inr Suc_le_eq split: if_splits)
    from wt_in [OF d v'(2) this(1-4)] show ?thesis using r v' op by blast
  next
    assume op: "op \<in> set string_ops"
    with v 1 d v' have "vk = ''string''" "n_op v' \<in> {''field'', ''attr''}" "length p \<le> 1024" "op = ''matches'' \<Longrightarrow> re_ok p"
      and r: "k = ''boolean''" "st' = count_nodes st (1 + i) (if op = ''matches'' then m + 1 else m)"
      by (auto simp: validate_string is_operand_def split: if_splits)
    from wt_string [OF d op v'(2) [unfolded this(1)] this(2-4)] show ?thesis using r v' by blast
  qed
qed

lemma validateNode_boolean:
  assumes "\<forall>n \<in> set as. accepts_typed re_ok n" and "accepts_typed re_ok a" and op: "op \<in> {''and'', ''or'', ''not''}"
    and v: "validateNode re_ok (Some (Node op name ty ns path lit l r v a as is p c)) d st = Inr (k, st')"
  shows "\<exists>i m. well_typed re_ok d (Node op name ty ns path lit l r v a as is p c) k i m \<and> st' = count_nodes st i m"
proof (cases "op = ''not''")
  case True
  have d: "d \<le> 16" using v by (rule validateNode_depth)
  with v True have 1: "validateNode re_ok a (d + 1) (bump_nodes st) = Inr (''boolean'', st')"
    "\<exists>b. a = Some b \<and> isPredicate b" "k = ''boolean''"
    by (auto simp: validate_not split: sum.splits if_splits option.splits)
  from accepts_typedD [OF assms(2) 1(1)] 1(2) obtain b i m where
    "a = Some b" "well_typed re_ok (d + 1) b ''boolean'' i m" "st' = count_nodes st (1 + i) m" "isPredicate b"
    by (auto simp: bump_nodes_count)
  with wt_not [of d re_ok b i m] 1(3) d True show ?thesis by blast
next
  case False
  have d: "d \<le> 16" using v by (rule validateNode_depth)
  with v False op have 1: "validate_args re_ok as (d + 1) (bump_nodes st) = Inr st'"
    and r: "2 \<le> length as" "length as \<le> 16" "k = ''boolean''"
    by (auto simp: validate_boolean bindR_eq_Inr split: if_splits)
  from accepts_typed_args [OF assms(1) 1] obtain i m where
    w: "well_typed_args re_ok (d + 1) as i m" and st: "st' = count_nodes st (1 + i) m"
    by (auto simp: bump_nodes_count)
  from False op have "op \<in> {''and'', ''or''}" by simp
  from wt_boolean [OF d this r(1,2) w] show ?thesis using st r by blast
qed

lemma validateNode_leaf:
  assumes op: "op \<in> {''field'', ''attr'', ''literal'', ''text'', ''exists'', ''is_null'', ''array_contains'', ''constant''}"
    and v: "validateNode re_ok (Some (Node op name ty ns path lit l r v a as is p c)) d st = Inr (k, st')"
  shows "\<exists>i m. well_typed re_ok d (Node op name ty ns path lit l r v a as is p c) k i m \<and> st' = count_nodes st i m"
proof -
  have d: "d \<le> 16" using v by (rule validateNode_depth)
  from op consider "op = ''field''" | "op = ''attr''" | "op = ''literal''" | "op = ''text''"
    | "op = ''array_contains''" | "op = ''constant''" | "op = ''exists'' \<or> op = ''is_null''"
    by (simp only: insert_iff empty_iff simp_thms) (elim disjE; simp only: simp_thms)
  then show ?thesis
  proof cases
    case 1
    with v d have "well_typed re_ok d (Node op name ty ns path lit l r v a as is p c) k 1 0 \<and> st' = count_nodes st 1 0"
      by (auto simp: validate_field bump_nodes_count split: option.splits intro: wt_field)
    then show ?thesis by blast
  next
    case 2
    with v d have "well_typed re_ok d (Node op name ty ns path lit l r v a as is p c) k 1 0 \<and> st' = count_nodes st 1 0"
      by (auto simp: validate_attr bump_nodes_count split: if_splits intro: wt_attr)
    then show ?thesis by blast
  next
    case 3
    with v d have "well_typed re_ok d (Node op name ty ns path lit l r v a as is p c) k 1 0 \<and> st' = count_nodes st 1 0"
      by (auto simp: validate_literal bump_nodes_count split: option.splits if_splits intro: wt_literal)
    then show ?thesis by blast
  next
    case 4
    with v d have "well_typed re_ok d (Node op name ty ns path lit l r v a as is p c) k 1 0 \<and> st' = count_nodes st 1 0"
      by (auto simp: validate_text bump_nodes_count split: if_splits intro: wt_text)
    then show ?thesis by blast
  next
    case 5
    with v d have "well_typed re_ok d (Node op name ty ns path lit l r v a as is p c) k 2 0 \<and> st' = count_nodes st 2 0"
      by (auto simp: validate_array bump_nodes_count split: option.splits if_splits intro: wt_array)
    then show ?thesis by blast
  next
    case 6
    with v d have "well_typed re_ok d (Node op name ty ns path lit l r v a as is p c) k 1 0 \<and> st' = count_nodes st 1 0"
      by (auto simp: validate_constant bump_nodes_count intro: wt_constant)
    then show ?thesis by blast
  next
    case 7
    with v d have "well_typed re_ok d (Node op name ty ns path lit l r v a as is p c) k 1 0 \<and> st' = count_nodes st 1 0"
      by (auto simp: validate_presence bump_nodes_count split: if_splits intro: wt_presence)
    then show ?thesis by blast
  qed
qed

lemma accepts_typed_all: "accepts_typed re_ok n"
proof (cases n)
  case None
  then show ?thesis by (simp add: accepts_typed_def)
next
  case (Some nd)
  have "accepts_typed re_ok (Some nd)"
  proof (induction nd rule: node.induct)
    case (Node op name ty ns path lit l r v a as "is" p c)
    have sub: "accepts_typed re_ok l" "accepts_typed re_ok r" "accepts_typed re_ok v" "accepts_typed re_ok a"
      "\<forall>n \<in> set as. accepts_typed re_ok n"
      using Node by (auto simp: accepts_typed_def) (metis not_Some_eq validateNode.simps(1) Inl_Inr_False)+
    show ?case
      unfolding accepts_typed_def
    proof (intro allI impI)
      fix d st k st'
      assume v: "validateNode re_ok (Some (Node op name ty ns path lit l r v a as is p c)) d st = Inr (k, st')"
      from validateNode_op [OF v] consider "op \<in> set comparison_ops" | "op = ''in'' \<or> op \<in> set string_ops" | "op \<in> {''and'', ''or'', ''not''}"
        | "op \<in> {''field'', ''attr'', ''literal'', ''text'', ''exists'', ''is_null'', ''array_contains'', ''constant''}"
        by (simp only: node_ops_def predicate_ops_def comparison_ops_def string_ops_def append.simps list.set insert_iff empty_iff simp_thms)
          (elim disjE conjE; simp only: simp_thms)
      then have "\<exists>i m. well_typed re_ok d (Node op name ty ns path lit l r v a as is p c) k i m \<and> st' = count_nodes st i m"
        by cases (rule validateNode_comparison [OF sub(1,2) _ v] validateNode_operand [OF sub(3) _ v]
            validateNode_boolean [OF sub(5,4) _ v] validateNode_leaf [OF _ v], assumption)+
      then show "\<exists>nd i m. Some (Node op name ty ns path lit l r v a as is p c) = Some nd \<and> well_typed re_ok d nd k i m \<and> st' = count_nodes st i m"
        by blast
    qed
  qed
  with Some show ?thesis by simp
qed

lemma validateNode_eq_Inr:
  "validateNode re_ok n d st = Inr (k, st') \<longleftrightarrow>
   (\<exists>nd i m. n = Some nd \<and> well_typed re_ok d nd k i m \<and> st' = count_nodes st i m)"
  using accepts_typedD [OF accepts_typed_all] well_typed_validates(1) by metis

text \<open>
  C20: \<open>Validate\<close> accepts exactly the predicates that have type Boolean at depth 1, with at
  most 128 nodes (set items and array literals included), depth at most 16 and at most four
  regular expressions. In particular it never follows a nil child into acceptance.
\<close>

theorem filter_validate_accepts_exactly_well_typed:
  "validateFilter re_ok root = Inr () \<longleftrightarrow>
   (\<exists>nd c x. root = Some nd \<and> isPredicate nd \<and> well_typed re_ok 1 nd ''boolean'' c x \<and> c \<le> 128 \<and> x \<le> 4)"
  (is "?accepted \<longleftrightarrow> ?typed")
proof
  assume ?accepted
  then show ?typed
    by (fastforce simp: validateFilter_def bindR_eq_Inr validateNode_eq_Inr count_nodes_def split: if_splits option.splits)
next
  assume ?typed
  then obtain nd c x where "root = Some nd" "isPredicate nd" "well_typed re_ok 1 nd ''boolean'' c x" "c \<le> 128" "x \<le> 4"
    by blast
  then show ?accepted by (simp add: validateFilter_def well_typed_validates count_nodes_def)
qed

end
