(* ===== verification/CanonicalFilter.thy ===== *)
theory CanonicalFilter
  imports FilterExpr
begin

section \<open>The canonical filter encoding and its decoder\<close>

text \<open>
  \<open>CanonicalFilter\<close> and \<open>encodeNode\<close> of \<open>internal/query/hash.go\<close>, and
  \<open>DecodeCanonicalFilter\<close> of \<open>canonical_filter.go\<close>. \<open>encodeNode\<close> follows pointers
  without checking them, so it returns an option: \<open>None\<close> is a nil dereference, which the
  theorems below exclude for validated trees.
\<close>

subsection \<open>Encoding\<close>

definition bool_byte :: "bool \<Rightarrow> string" where
  "bool_byte b = [char_of (if b then 1 else 0 :: int)]"

definition encodeLiteral :: "literal \<Rightarrow> string" where
  "encodeLiteral l = writeBytes (l_type l) @
    (if l_type l = ''string'' then writeBytes (l_string l)
     else if l_type l = ''integer'' then writeBytes (normalizeInteger (l_integer l))
     else if l_type l = ''double'' then writeUint (uint (l_double l))
     else if l_type l = ''boolean'' then bool_byte (l_boolean l)
     else [])"

function (sequential) encodeNode :: "node option \<Rightarrow> string option"
  and encode_args :: "node option list \<Rightarrow> string option" where
  "encodeNode None = None"
| "encodeNode (Some (Node op name ty ns path lit left right val arg args items pattern const)) =
    map_option ((@) (writeBytes op))
     (if op = ''field'' then Some (writeBytes name)
      else if op = ''attr'' then Some (writeBytes ty @ writeBytes ns @ writeBytes path)
      else if op = ''literal'' then map_option encodeLiteral lit
      else if op \<in> set comparison_ops then
        (case encodeNode left of None \<Rightarrow> None | Some a \<Rightarrow> map_option ((@) a) (encodeNode right))
      else if op = ''and'' \<or> op = ''or'' then
        map_option ((@) (writeUint (int (length args)))) (encode_args args)
      else if op = ''not'' then encodeNode arg
      else if op = ''in'' then
        map_option (\<lambda>a. a @ writeUint (int (length items)) @ concat (map encodeLiteral items)) (encodeNode val)
      else if op \<in> set string_ops then map_option (\<lambda>a. a @ writeBytes pattern) (encodeNode val)
      else if op = ''text'' then Some (writeBytes pattern)
      else if op = ''exists'' \<or> op = ''is_null'' then Some (writeBytes ns @ writeBytes path)
      else if op = ''array_contains'' then
        map_option (\<lambda>l. writeBytes ns @ writeBytes path @ encodeLiteral l) lit
      else if op = ''constant'' then Some (bool_byte const)
      else Some [])"
| "encode_args [] = Some []"
| "encode_args (c # cs) =
    (case encodeNode c of None \<Rightarrow> None | Some a \<Rightarrow> map_option ((@) a) (encode_args cs))"
  by pat_completeness auto
termination
  by (relation "measure (\<lambda>x. case x of Inl n \<Rightarrow> size_option size n | Inr ns \<Rightarrow> size_list (size_option size) ns)") auto

definition canonicalFilter :: "(string \<Rightarrow> bool) \<Rightarrow> node option \<Rightarrow> filter_error + string option" where
  "canonicalFilter re_ok root = bindR (validateFilter re_ok root) (\<lambda>_. Inr (encodeNode root))"

subsection \<open>Decoding\<close>

definition empty_node :: "string \<Rightarrow> node" where
  "empty_node op = Node op [] [] [] [] None None None None None [] [] [] False"

definition readCanonicalText :: "string \<Rightarrow> int \<Rightarrow> (string \<times> string) option" where
  "readCanonicalText bs maximum = readDatasetBytes bs maximum"

definition empty_literal :: "string \<Rightarrow> literal" where
  "empty_literal ty = \<lparr>l_type = ty, l_string = [], l_integer = [], l_double = 0, l_boolean = False\<rparr>"

definition read_bool :: "string \<Rightarrow> (bool \<times> string) option" where
  "read_bool bs =
    (case readByte bs of None \<Rightarrow> None | Some (v, r) \<Rightarrow> if 1 < v then None else Some (v = 1, r))"

definition decodeCanonicalLiteral :: "string \<Rightarrow> (literal \<times> string) option" where
  "decodeCanonicalLiteral bs =
    (case readCanonicalText bs 16 of None \<Rightarrow> None
     | Some (ty, r) \<Rightarrow>
         if ty = ''string'' then
           map_option (\<lambda>(v, r'). ((empty_literal ty)\<lparr>l_string := v\<rparr>, r')) (readCanonicalText r 8192)
         else if ty = ''integer'' then
           map_option (\<lambda>(v, r'). ((empty_literal ty)\<lparr>l_integer := v\<rparr>, r')) (readCanonicalText r 128)
         else if ty = ''double'' then
           map_option (\<lambda>(v, r'). ((empty_literal ty)\<lparr>l_double := word_of_int v\<rparr>, r')) (readUvarint r)
         else if ty = ''boolean'' then
           map_option (\<lambda>(v, r'). ((empty_literal ty)\<lparr>l_boolean := v\<rparr>, r')) (read_bool r)
         else None)"

fun decode_items :: "nat \<Rightarrow> string \<Rightarrow> (literal list \<times> string) option" where
  "decode_items 0 bs = Some ([], bs)"
| "decode_items (Suc n) bs =
    (case decodeCanonicalLiteral bs of None \<Rightarrow> None
     | Some (l, r) \<Rightarrow> map_option (\<lambda>(ls, r'). (l # ls, r')) (decode_items n r))"

function (sequential) decodeCanonicalNode :: "string \<Rightarrow> int \<Rightarrow> (node \<times> string) option"
  and decode_args :: "nat \<Rightarrow> string \<Rightarrow> int \<Rightarrow> (node option list \<times> string) option" where
  "decodeCanonicalNode bs depth =
    (if 16 < depth then None else
     case readCanonicalText bs 32 of None \<Rightarrow> None
     | Some (op, r) \<Rightarrow>
       if op = ''field'' then
         map_option (\<lambda>(v, r1). (Node op v [] [] [] None None None None None [] [] [] False, r1)) (readCanonicalText r 64)
       else if op = ''attr'' then
         (case readCanonicalText r 16 of None \<Rightarrow> None | Some (ty, r1) \<Rightarrow>
          case readCanonicalText r1 64 of None \<Rightarrow> None | Some (ns, r2) \<Rightarrow>
          map_option (\<lambda>(path, r3). (Node op [] ty ns path None None None None None [] [] [] False, r3)) (readCanonicalText r2 1024))
       else if op = ''literal'' then
         map_option (\<lambda>(l, r1). (Node op [] (l_type l) [] [] (Some l) None None None None [] [] [] False, r1)) (decodeCanonicalLiteral r)
       else if op \<in> set comparison_ops then
         (case decodeCanonicalNode r (depth + 1) of None \<Rightarrow> None | Some (a, r1) \<Rightarrow>
          map_option (\<lambda>(b, r2). (Node op [] [] [] [] None (Some a) (Some b) None None [] [] [] False, r2)) (decodeCanonicalNode r1 (depth + 1)))
       else if op = ''and'' \<or> op = ''or'' then
         (case readUvarint r of None \<Rightarrow> None | Some (cnt, r1) \<Rightarrow>
          if cnt < 2 \<or> 16 < cnt then None
          else map_option (\<lambda>(as, r2). (Node op [] [] [] [] None None None None None as [] [] False, r2)) (decode_args (nat cnt) r1 (depth + 1)))
       else if op = ''not'' then
         map_option (\<lambda>(a, r1). (Node op [] [] [] [] None None None None (Some a) [] [] [] False, r1)) (decodeCanonicalNode r (depth + 1))
       else if op = ''in'' then
         (case decodeCanonicalNode r (depth + 1) of None \<Rightarrow> None | Some (v, r1) \<Rightarrow>
          case readUvarint r1 of None \<Rightarrow> None | Some (cnt, r2) \<Rightarrow>
          if cnt < 1 \<or> 100 < cnt then None
          else map_option (\<lambda>(is, r3). (Node op [] [] [] [] None None None (Some v) None [] is [] False, r3)) (decode_items (nat cnt) r2))
       else if op \<in> set string_ops then
         (case decodeCanonicalNode r (depth + 1) of None \<Rightarrow> None | Some (v, r1) \<Rightarrow>
          map_option (\<lambda>(p, r2). (Node op [] [] [] [] None None None (Some v) None [] [] p False, r2)) (readCanonicalText r1 1024))
       else if op = ''text'' then
         map_option (\<lambda>(p, r1). (Node op [] [] [] [] None None None None None [] [] p False, r1)) (readCanonicalText r 1024)
       else if op = ''exists'' \<or> op = ''is_null'' then
         (case readCanonicalText r 64 of None \<Rightarrow> None | Some (ns, r1) \<Rightarrow>
          map_option (\<lambda>(path, r2). (Node op [] [] ns path None None None None None [] [] [] False, r2)) (readCanonicalText r1 1024))
       else if op = ''array_contains'' then
         (case readCanonicalText r 64 of None \<Rightarrow> None | Some (ns, r1) \<Rightarrow>
          case readCanonicalText r1 1024 of None \<Rightarrow> None | Some (path, r2) \<Rightarrow>
          map_option (\<lambda>(l, r3). (Node op [] [] ns path (Some l) None None None None [] [] [] False, r3)) (decodeCanonicalLiteral r2))
       else if op = ''constant'' then
         map_option (\<lambda>(b, r1). (Node op [] [] [] [] None None None None None [] [] [] b, r1)) (read_bool r)
       else None)"
| "decode_args 0 bs depth = Some ([], bs)"
| "decode_args (Suc n) bs depth =
    (case decodeCanonicalNode bs depth of None \<Rightarrow> None
     | Some (a, r) \<Rightarrow> map_option (\<lambda>(as, r'). (Some a # as, r')) (decode_args n r depth))"
  by pat_completeness auto
termination
  by (relation "measures [\<lambda>x. case x of Inl (_, d) \<Rightarrow> nat (17 - d) | Inr (_, _, d) \<Rightarrow> nat (17 - d),
      \<lambda>x. case x of Inl _ \<Rightarrow> 0 | Inr (n, _, _) \<Rightarrow> Suc n]") auto

definition decodeCanonicalFilter :: "(string \<Rightarrow> bool) \<Rightarrow> string \<Rightarrow> filter_error + node" where
  "decodeCanonicalFilter re_ok encoded =
    (if encoded = [] \<or> 32768 < length encoded then Inl InvalidCanonical
     else case decodeCanonicalNode encoded 1 of
       None \<Rightarrow> Inl InvalidCanonical
     | Some (root, r) \<Rightarrow>
         if r \<noteq> [] \<or> validateFilter re_ok (Some root) \<noteq> Inr () then Inl InvalidCanonical
         else if canonicalFilter re_ok (Some root) \<noteq> Inr (Some encoded) then Inl NonCanonical
         else Inr root)"

declare decodeCanonicalNode.simps [simp del]

subsection \<open>What the encoding keeps of a tree\<close>

text \<open>
  The encoding reads only the fields that the operation of a node uses, and it writes an
  integer literal in its shortest form. \<open>clean\<close> is the tree that remains; \<open>texts_fit\<close> says
  that no string literal is longer than an expression may be (\<open>MaxExpressionBytes\<close>), and
  \<open>ends_empty\<close> that the last thing written is an empty text.
\<close>

definition clean_literal :: "literal \<Rightarrow> literal" where
  "clean_literal l =
    (if l_type l = ''string'' then (empty_literal (l_type l))\<lparr>l_string := l_string l\<rparr>
     else if l_type l = ''integer'' then (empty_literal (l_type l))\<lparr>l_integer := normalizeInteger (l_integer l)\<rparr>
     else if l_type l = ''double'' then (empty_literal (l_type l))\<lparr>l_double := l_double l\<rparr>
     else (empty_literal (l_type l))\<lparr>l_boolean := l_boolean l\<rparr>)"

definition pointer_ops :: "string list" where
  "pointer_ops = [''attr'', ''exists'', ''is_null'', ''array_contains'']"

lemma size_arg_less: "Some a \<in> set args \<Longrightarrow> size (a :: node) < size_list (size_option size) args"
  by (induction args) auto

function clean :: "node \<Rightarrow> node" where
  "clean (Node op name ty ns path lit left right val arg args items pattern const) =
    Node op (if op = ''field'' then name else [])
      (if op = ''attr'' \<or> op = ''literal'' then ty else [])
      (if op \<in> set pointer_ops then ns else []) (if op \<in> set pointer_ops then path else [])
      (if op = ''literal'' \<or> op = ''array_contains'' then map_option clean_literal lit else None)
      (if op \<in> set comparison_ops then map_option clean left else None)
      (if op \<in> set comparison_ops then map_option clean right else None)
      (if op = ''in'' \<or> op \<in> set string_ops then map_option clean val else None)
      (if op = ''not'' then map_option clean arg else None)
      (if op = ''and'' \<or> op = ''or'' then map (map_option clean) args else [])
      (if op = ''in'' then map clean_literal items else [])
      (if op = ''text'' \<or> op \<in> set string_ops then pattern else [])
      (if op = ''constant'' then const else False)"
  by pat_completeness auto
termination
  by (relation "measure size") (auto dest: size_arg_less)

definition literal_fits :: "literal \<Rightarrow> bool" where
  "literal_fits l \<longleftrightarrow> (l_type l = ''string'' \<longrightarrow> length (l_string l) \<le> 8192)"

definition literal_empty :: "literal \<Rightarrow> bool" where
  "literal_empty l \<longleftrightarrow> l_type l = ''string'' \<and> l_string l = []"

function (sequential) texts_fit :: "node option \<Rightarrow> bool" and args_fit :: "node option list \<Rightarrow> bool" where
  "texts_fit None = True"
| "texts_fit (Some (Node op name ty ns path lit left right val arg args items pattern const)) =
    (if op = ''literal'' \<or> op = ''array_contains'' then (case lit of None \<Rightarrow> True | Some l \<Rightarrow> literal_fits l)
     else if op \<in> set comparison_ops then texts_fit left \<and> texts_fit right
     else if op = ''and'' \<or> op = ''or'' then args_fit args
     else if op = ''not'' then texts_fit arg
     else if op = ''in'' then texts_fit val \<and> list_all literal_fits items
     else if op \<in> set string_ops then texts_fit val
     else True)"
| "args_fit [] = True"
| "args_fit (c # cs) = (texts_fit c \<and> args_fit cs)"
  by pat_completeness auto
termination
  by (relation "measure (\<lambda>x. case x of Inl n \<Rightarrow> size_option size n | Inr ns \<Rightarrow> size_list (size_option size) ns)") auto

function (sequential) ends_empty :: "node option \<Rightarrow> bool" and args_end_empty :: "node option list \<Rightarrow> bool" where
  "ends_empty None = False"
| "ends_empty (Some (Node op name ty ns path lit left right val arg args items pattern const)) =
    (if op = ''literal'' \<or> op = ''array_contains'' then (case lit of None \<Rightarrow> False | Some l \<Rightarrow> literal_empty l)
     else if op \<in> set comparison_ops then ends_empty right
     else if op = ''and'' \<or> op = ''or'' then args_end_empty args
     else if op = ''not'' then ends_empty arg
     else if op = ''in'' then (items \<noteq> [] \<and> literal_empty (last items))
     else if op = ''text'' \<or> op \<in> set string_ops then pattern = []
     else False)"
| "args_end_empty [] = False"
| "args_end_empty [c] = ends_empty c"
| "args_end_empty (c # cs) = args_end_empty cs"
  by pat_completeness auto
termination
  by (relation "measure (\<lambda>x. case x of Inl n \<Rightarrow> size_option size n | Inr ns \<Rightarrow> size_list (size_option size) ns)") auto

subsection \<open>Literals round trip\<close>

lemma readCanonicalText_write:
  "int (length v) \<le> m \<Longrightarrow> m < 18446744073709551616 \<Longrightarrow>
   readCanonicalText (writeBytes v @ r) m = (if v @ r = [] then None else Some (v, r))"
  by (simp add: readCanonicalText_def readDatasetBytes_write)

lemma readCanonicalText_write_end:
  "int (length v) \<le> m \<Longrightarrow> m < 18446744073709551616 \<Longrightarrow>
   readCanonicalText (writeBytes v) m = (if v = [] then None else Some (v, []))"
  using readCanonicalText_write [of v m "[]"] by simp

lemmas text_write = readCanonicalText_write readCanonicalText_write_end

lemma normalizeInteger_length: "validDecimal38 v \<Longrightarrow> length (normalizeInteger v) \<le> 39 \<and> normalizeInteger v \<noteq> []"
  by (auto simp: validDecimal38_def normalizeInteger_def Let_def split: if_splits)

lemma uint_range [simp]: "uint (d :: 64 word) < 18446744073709551616"
  using uint_bounded [of d] by simp

lemma read_bool_write [simp]: "read_bool (bool_byte b @ r) = Some (b, r)"
  by (cases b) (simp_all add: read_bool_def bool_byte_def readByte_def of_char_char_of_int)

lemma read_bool_write_end [simp]: "read_bool (bool_byte b) = Some (b, [])"
  using read_bool_write [of b "[]"] by simp

lemma encodeLiteral_not_Nil [simp]: "encodeLiteral l \<noteq> []"
  by (simp add: encodeLiteral_def)

lemma decodeCanonicalLiteral_encode:
  assumes "validLiteral l" and "literal_fits l"
  shows "decodeCanonicalLiteral (encodeLiteral l @ rest) =
    (if rest = [] \<and> literal_empty l then None else Some (clean_literal l, rest))"
  using assms normalizeInteger_length [of "l_integer l"]
  by (auto simp: validLiteral_def literal_fits_def encodeLiteral_def decodeCanonicalLiteral_def text_write
      literal_empty_def clean_literal_def readUvarint_put writeUint_def split: if_splits)

lemma clean_literal_type [simp]: "l_type (clean_literal x) = l_type x"
  by (simp add: clean_literal_def empty_literal_def)

lemma decodeCanonicalLiteral_encode_end:
  "validLiteral l \<Longrightarrow> literal_fits l \<Longrightarrow>
   decodeCanonicalLiteral (encodeLiteral l) = (if literal_empty l then None else Some (clean_literal l, []))"
  using decodeCanonicalLiteral_encode [of l "[]"] by simp

lemma decode_items_encode:
  assumes "list_all validLiteral items" and "list_all literal_fits items"
  shows "decode_items (length items) (concat (map encodeLiteral items) @ rest) =
    (if rest = [] \<and> items \<noteq> [] \<and> literal_empty (last items) then None else Some (map clean_literal items, rest))"
  using assms by (induction items) (auto simp: decodeCanonicalLiteral_encode)

subsection \<open>Trees round trip\<close>

lemmas ops_defs = comparison_ops_def string_ops_def pointer_ops_def

lemma fieldTypes_length: "fieldTypes name = Some k \<Longrightarrow> name \<noteq> [] \<and> length name \<le> 64"
  by (auto simp: fieldTypes_def split: if_splits)

lemma namespaces_length: "ns \<in> set namespaces \<Longrightarrow> ns \<noteq> [] \<and> length ns \<le> 64"
  by (auto simp: namespaces_def)

lemma validPointer_length: "validPointer p \<Longrightarrow> p \<noteq> [] \<and> length p \<le> 1024"
  by (simp add: validPointer_def)

lemma validScalarType_length: "validScalarType t \<Longrightarrow> t \<noteq> [] \<and> length t \<le> 16"
  by (auto simp: validScalarType_def)

lemmas valid_lengths = fieldTypes_length namespaces_length validPointer_length validScalarType_length

subsection \<open>The branches of the encoder and of the decoder\<close>

lemma encode_field:
  "encodeNode (Some (Node ''field'' name ty ns path lit l r v a as is p c)) =
     Some (writeBytes ''field'' @ writeBytes name)"
  by (simp add: comparison_ops_def string_ops_def option.map_comp comp_def)

lemma encode_attr:
  "encodeNode (Some (Node ''attr'' name ty ns path lit l r v a as is p c)) =
     Some (writeBytes ''attr'' @ writeBytes ty @ writeBytes ns @ writeBytes path)"
  by (simp add: comparison_ops_def string_ops_def option.map_comp comp_def)

lemma encode_literal:
  "encodeNode (Some (Node ''literal'' name ty ns path lit l r v a as is p c)) =
     map_option (\<lambda>x. writeBytes ''literal'' @ encodeLiteral x) lit"
  by (simp add: comparison_ops_def string_ops_def option.map_comp comp_def)

lemma encode_comparison:
  "op \<in> set comparison_ops \<Longrightarrow> encodeNode (Some (Node op name ty ns path lit l r v a as is p c)) =
     (case encodeNode l of None \<Rightarrow> None
      | Some b \<Rightarrow> map_option (\<lambda>b'. writeBytes op @ b @ b') (encodeNode r))"
  using comparison_ops_neq [of op] by (auto simp: option.map_comp comp_def split: option.split)

lemma encode_boolean:
  "op = ''and'' \<or> op = ''or'' \<Longrightarrow> encodeNode (Some (Node op name ty ns path lit l r v a as is p c)) =
     map_option (\<lambda>b. writeBytes op @ writeUint (int (length as)) @ b) (encode_args as)"
  by (elim disjE) (simp_all add: comparison_ops_def option.map_comp comp_def)

lemma encode_not:
  "encodeNode (Some (Node ''not'' name ty ns path lit l r v a as is p c)) =
     map_option (\<lambda>b. writeBytes ''not'' @ b) (encodeNode a)"
  by (simp add: comparison_ops_def string_ops_def option.map_comp comp_def)

lemma encode_in:
  "encodeNode (Some (Node ''in'' name ty ns path lit l r v a as is p c)) =
     map_option (\<lambda>b. writeBytes ''in'' @ b @ writeUint (int (length is)) @ concat (map encodeLiteral is)) (encodeNode v)"
  by (simp add: comparison_ops_def string_ops_def option.map_comp comp_def)

lemma encode_string:
  "op \<in> set string_ops \<Longrightarrow> encodeNode (Some (Node op name ty ns path lit l r v a as is p c)) =
     map_option (\<lambda>b. writeBytes op @ b @ writeBytes p) (encodeNode v)"
  using string_ops_neq [of op] by (simp add: option.map_comp comp_def)

lemma encode_text:
  "encodeNode (Some (Node ''text'' name ty ns path lit l r v a as is p c)) =
     Some (writeBytes ''text'' @ writeBytes p)"
  by (simp add: comparison_ops_def string_ops_def option.map_comp comp_def)

lemma encode_presence:
  "op = ''exists'' \<or> op = ''is_null'' \<Longrightarrow> encodeNode (Some (Node op name ty ns path lit l r v a as is p c)) =
     Some (writeBytes op @ writeBytes ns @ writeBytes path)"
  by (elim disjE) (simp_all add: comparison_ops_def string_ops_def)

lemma encode_array:
  "encodeNode (Some (Node ''array_contains'' name ty ns path lit l r v a as is p c)) =
     map_option (\<lambda>x. writeBytes ''array_contains'' @ writeBytes ns @ writeBytes path @ encodeLiteral x) lit"
  by (simp add: comparison_ops_def string_ops_def option.map_comp comp_def)

lemma encode_constant:
  "encodeNode (Some (Node ''constant'' name ty ns path lit l r v a as is p c)) =
     Some (writeBytes ''constant'' @ bool_byte c)"
  by (simp add: comparison_ops_def string_ops_def option.map_comp comp_def)

declare encodeNode.simps(2) [simp del]

lemmas encode_simps = encode_field encode_attr encode_literal encode_comparison encode_boolean encode_not encode_in encode_string encode_text encode_presence encode_array encode_constant

lemma comparison_ops_short: "op \<in> set comparison_ops \<Longrightarrow> length op \<le> 32 \<and> op \<noteq> []"
  by (auto simp: comparison_ops_def)

lemma string_ops_short: "op \<in> set string_ops \<Longrightarrow> length op \<le> 32 \<and> op \<noteq> []"
  by (auto simp: string_ops_def)

lemma decode_field:
  "d \<le> 16 \<Longrightarrow> decodeCanonicalNode (writeBytes ''field'' @ r) d =
     map_option (\<lambda>(v, r1). (Node ''field'' v [] [] [] None None None None None [] [] [] False, r1)) (readCanonicalText r 64)"
  by (simp add: decodeCanonicalNode.simps [of _ d] text_write comparison_ops_def string_ops_def)

lemma decode_attr:
  "d \<le> 16 \<Longrightarrow> decodeCanonicalNode (writeBytes ''attr'' @ r) d =
     (case readCanonicalText r 16 of None \<Rightarrow> None | Some (ty, r1) \<Rightarrow>
      case readCanonicalText r1 64 of None \<Rightarrow> None | Some (ns, r2) \<Rightarrow>
      map_option (\<lambda>(path, r3). (Node ''attr'' [] ty ns path None None None None None [] [] [] False, r3)) (readCanonicalText r2 1024))"
  by (simp add: decodeCanonicalNode.simps [of _ d] text_write comparison_ops_def string_ops_def)

lemma decode_literal:
  "d \<le> 16 \<Longrightarrow> decodeCanonicalNode (writeBytes ''literal'' @ r) d =
     map_option (\<lambda>(l, r1). (Node ''literal'' [] (l_type l) [] [] (Some l) None None None None [] [] [] False, r1)) (decodeCanonicalLiteral r)"
  by (simp add: decodeCanonicalNode.simps [of _ d] text_write comparison_ops_def string_ops_def)

lemma decode_comparison:
  "d \<le> 16 \<Longrightarrow> op \<in> set comparison_ops \<Longrightarrow> decodeCanonicalNode (writeBytes op @ r) d =
     (case decodeCanonicalNode r (d + 1) of None \<Rightarrow> None | Some (a, r1) \<Rightarrow>
      map_option (\<lambda>(b, r2). (Node op [] [] [] [] None (Some a) (Some b) None None [] [] [] False, r2)) (decodeCanonicalNode r1 (d + 1)))"
  using comparison_ops_neq [of op] comparison_ops_short [of op] by (simp add: decodeCanonicalNode.simps [of _ d] text_write)

lemma decode_boolean:
  "d \<le> 16 \<Longrightarrow> op = ''and'' \<or> op = ''or'' \<Longrightarrow> decodeCanonicalNode (writeBytes op @ r) d =
     (case readUvarint r of None \<Rightarrow> None | Some (cnt, r1) \<Rightarrow>
      if cnt < 2 \<or> 16 < cnt then None
      else map_option (\<lambda>(as, r2). (Node op [] [] [] [] None None None None None as [] [] False, r2)) (decode_args (nat cnt) r1 (d + 1)))"
  by (elim disjE; hypsubst) (simp_all add: decodeCanonicalNode.simps [of _ d] text_write comparison_ops_def)

lemma decode_not:
  "d \<le> 16 \<Longrightarrow> decodeCanonicalNode (writeBytes ''not'' @ r) d =
     map_option (\<lambda>(a, r1). (Node ''not'' [] [] [] [] None None None None (Some a) [] [] [] False, r1)) (decodeCanonicalNode r (d + 1))"
  by (simp add: decodeCanonicalNode.simps [of _ d] text_write comparison_ops_def string_ops_def)

lemma decode_in:
  "d \<le> 16 \<Longrightarrow> decodeCanonicalNode (writeBytes ''in'' @ r) d =
     (case decodeCanonicalNode r (d + 1) of None \<Rightarrow> None | Some (v, r1) \<Rightarrow>
      case readUvarint r1 of None \<Rightarrow> None | Some (cnt, r2) \<Rightarrow>
      if cnt < 1 \<or> 100 < cnt then None
      else map_option (\<lambda>(is, r3). (Node ''in'' [] [] [] [] None None None (Some v) None [] is [] False, r3)) (decode_items (nat cnt) r2))"
  by (simp add: decodeCanonicalNode.simps [of _ d] text_write comparison_ops_def string_ops_def)

lemma decode_string:
  "d \<le> 16 \<Longrightarrow> op \<in> set string_ops \<Longrightarrow> decodeCanonicalNode (writeBytes op @ r) d =
     (case decodeCanonicalNode r (d + 1) of None \<Rightarrow> None | Some (v, r1) \<Rightarrow>
      map_option (\<lambda>(p, r2). (Node op [] [] [] [] None None None (Some v) None [] [] p False, r2)) (readCanonicalText r1 1024))"
  using string_ops_neq [of op] string_ops_short [of op] by (simp add: decodeCanonicalNode.simps [of _ d] text_write)

lemma decode_text:
  "d \<le> 16 \<Longrightarrow> decodeCanonicalNode (writeBytes ''text'' @ r) d =
     map_option (\<lambda>(p, r1). (Node ''text'' [] [] [] [] None None None None None [] [] p False, r1)) (readCanonicalText r 1024)"
  by (simp add: decodeCanonicalNode.simps [of _ d] text_write comparison_ops_def string_ops_def)

lemma decode_presence:
  "d \<le> 16 \<Longrightarrow> op = ''exists'' \<or> op = ''is_null'' \<Longrightarrow> decodeCanonicalNode (writeBytes op @ r) d =
     (case readCanonicalText r 64 of None \<Rightarrow> None | Some (ns, r1) \<Rightarrow>
      map_option (\<lambda>(path, r2). (Node op [] [] ns path None None None None None [] [] [] False, r2)) (readCanonicalText r1 1024))"
  by (elim disjE; hypsubst) (simp_all add: decodeCanonicalNode.simps [of _ d] text_write comparison_ops_def string_ops_def)

lemma decode_array:
  "d \<le> 16 \<Longrightarrow> decodeCanonicalNode (writeBytes ''array_contains'' @ r) d =
     (case readCanonicalText r 64 of None \<Rightarrow> None | Some (ns, r1) \<Rightarrow>
      case readCanonicalText r1 1024 of None \<Rightarrow> None | Some (path, r2) \<Rightarrow>
      map_option (\<lambda>(l, r3). (Node ''array_contains'' [] [] ns path (Some l) None None None None [] [] [] False, r3)) (decodeCanonicalLiteral r2))"
  by (simp add: decodeCanonicalNode.simps [of _ d] text_write comparison_ops_def string_ops_def)

lemma decode_constant:
  "d \<le> 16 \<Longrightarrow> decodeCanonicalNode (writeBytes ''constant'' @ r) d =
     map_option (\<lambda>(b, r1). (Node ''constant'' [] [] [] [] None None None None None [] [] [] b, r1)) (read_bool r)"
  by (simp add: decodeCanonicalNode.simps [of _ d] text_write comparison_ops_def string_ops_def)

lemmas decode_simps = decode_field decode_attr decode_literal decode_comparison decode_boolean decode_not decode_in decode_string decode_text decode_presence decode_array decode_constant

subsection \<open>Validated trees are encoded and decoded\<close>

text \<open>A validated tree has every pointer that the encoding follows.\<close>

lemma encode_defined:
  "well_typed re_ok d n k i m \<Longrightarrow> \<exists>bs. encodeNode (Some n) = Some bs"
  "well_typed_args re_ok d as i m \<Longrightarrow> \<exists>bs. encode_args as = Some bs"
  by (induction rule: well_typed_well_typed_args.inducts) (auto simp: encode_simps)

lemma encode_not_Nil: "encodeNode n \<noteq> Some []"
  by (cases n rule: encodeNode.cases) (auto simp: encodeNode.simps(2))

lemma encode_args_Nil: "encode_args ns = Some [] \<longleftrightarrow> ns = []"
  using encode_not_Nil by (cases ns) (auto split: option.splits)

text \<open>Only the kind of a node decides whether it is an operand or a predicate.\<close>

lemma n_op_clean [simp]: "n_op (clean nd) = n_op nd"
  by (cases nd) simp

lemma comparison_ops_only:
  "op \<in> set comparison_ops \<Longrightarrow> op \<notin> set string_ops \<and> op \<notin> set pointer_ops \<and> op \<noteq> ''field'' \<and> op \<noteq> ''attr'' \<and> op \<noteq> ''literal'' \<and>
   op \<noteq> ''array_contains'' \<and> op \<noteq> ''and'' \<and> op \<noteq> ''or'' \<and> op \<noteq> ''not'' \<and> op \<noteq> ''in'' \<and> op \<noteq> ''text'' \<and> op \<noteq> ''constant''"
  by (auto simp: ops_defs)

lemma string_ops_only:
  "op \<in> set string_ops \<Longrightarrow> op \<notin> set comparison_ops \<and> op \<notin> set pointer_ops \<and> op \<noteq> ''field'' \<and> op \<noteq> ''attr'' \<and> op \<noteq> ''literal'' \<and>
   op \<noteq> ''array_contains'' \<and> op \<noteq> ''and'' \<and> op \<noteq> ''or'' \<and> op \<noteq> ''not'' \<and> op \<noteq> ''in'' \<and> op \<noteq> ''text'' \<and> op \<noteq> ''constant''"
  by (auto simp: ops_defs)

lemma args_end_empty_Cons: "args_end_empty (n # ns) = (if ns = [] then ends_empty n else args_end_empty ns)"
  by (cases ns) simp_all

lemma decode_encode_node:
  "well_typed re_ok d n k i m \<Longrightarrow> texts_fit (Some n) \<Longrightarrow> encodeNode (Some n) = Some bs \<Longrightarrow>
   decodeCanonicalNode (bs @ rest) d = (if rest = [] \<and> ends_empty (Some n) then None else Some (clean n, rest))"
  "well_typed_args re_ok d as i m \<Longrightarrow> args_fit as \<Longrightarrow> encode_args as = Some bs \<Longrightarrow>
   decode_args (length as) (bs @ rest) d =
     (if rest = [] \<and> args_end_empty as then None else Some (map (map_option clean) as, rest))"
proof (induction arbitrary: bs rest and bs rest rule: well_typed_well_typed_args.inducts)
  case (wt_comparison d op l k i m r j m' name ty ns path lit v a as "is" p c)
  note only = comparison_ops_only [OF wt_comparison.hyps(2)]
  from wt_comparison.prems wt_comparison.hyps obtain bl br where
    e: "encodeNode (Some l) = Some bl" "encodeNode (Some r) = Some br" "bs = writeBytes op @ bl @ br"
    by (auto simp: encode_comparison split: option.splits)
  have "br \<noteq> []" using e encode_not_Nil by blast
  with e only wt_comparison show ?case
    by (simp add: decode_comparison)
next
  case (wt_boolean d op as i m name ty ns path lit l r v a "is" p c)
  then have op: "op = ''and'' \<or> op = ''or''" by simp
  then have only: "op \<notin> set comparison_ops" "op \<notin> set string_ops" "op \<notin> set pointer_ops" by (auto simp: ops_defs)
  from wt_boolean.prems op obtain b where
    e: "encode_args as = Some b" "bs = writeBytes op @ writeUint (int (length as)) @ b"
    by (auto simp: encode_boolean)
  have "args_fit as" using wt_boolean.prems op only by auto
  with wt_boolean e have "decode_args (length as) (b @ rest) (d + 1) =
     (if rest = [] \<and> args_end_empty as then None else Some (map (map_option clean) as, rest))" by simp
  with e op only wt_boolean.hyps show ?case
    by (auto simp: decode_boolean writeUint_def readUvarint_put)
next
  case (wt_string d op v i m p name ty ns path lit l r a as "is" c)
  note only = string_ops_only [OF wt_string.hyps(2)]
  from wt_string.prems wt_string.hyps obtain b where
    e: "encodeNode (Some v) = Some b" "bs = writeBytes op @ b @ writeBytes p"
    by (auto simp: encode_string split: option.splits)
  with only wt_string show ?case
    by (simp add: decode_string text_write)
next
  case (wt_presence d op ns path name ty lit l r v a as "is" p c)
  then have op: "op = ''exists'' \<or> op = ''is_null''" by simp
  then have only: "op \<notin> set comparison_ops" "op \<notin> set string_ops" "op \<in> set pointer_ops"
    "op \<notin> {''field'', ''attr'', ''literal'', ''array_contains'', ''and'', ''or'', ''not'', ''in'', ''text'', ''constant''}"
    by (auto simp: ops_defs)
  have bs: "bs = writeBytes op @ writeBytes ns @ writeBytes path"
    using wt_presence.prems op by (simp add: encode_presence)
  have "ns \<noteq> []" "length ns \<le> 64" "path \<noteq> []" "length path \<le> 1024"
    using wt_presence.hyps namespaces_length validPointer_length by blast+
  then have "decodeCanonicalNode (bs @ rest) d = Some (Node op [] [] ns path None None None None None [] [] [] False, rest)"
    using op wt_presence.hyps(1) by (simp add: bs decode_presence text_write)
  then show ?case using only by simp
next
  case (wt_in d v k i m "is" name ty ns path lit l r a as p c)
  from wt_in.prems obtain b where
    e: "encodeNode (Some v) = Some b" "bs = writeBytes ''in'' @ b @ writeUint (int (length is)) @ concat (map encodeLiteral is)"
    by (auto simp: encode_in)
  have "list_all validLiteral is" using wt_in.hyps by (auto simp: list_all_iff)
  moreover have "list_all literal_fits is" using wt_in.prems by (simp add: ops_defs)
  ultimately have "decode_items (length is) (concat (map encodeLiteral is) @ rest) =
    (if rest = [] \<and> is \<noteq> [] \<and> literal_empty (last is) then None else Some (map clean_literal is, rest))"
    by (rule decode_items_encode)
  moreover have "is \<noteq> []" using wt_in.hyps by auto
  ultimately show ?case using e wt_in
    by (simp add: decode_in ops_defs writeUint_def readUvarint_put)
next
  case (wt_not d a i m)
  from wt_not.prems obtain b where e: "encodeNode (Some a) = Some b" "bs = writeBytes ''not'' @ b"
    by (auto simp: encode_not)
  moreover have "texts_fit (Some a)" using wt_not.prems by (simp add: ops_defs)
  ultimately have "decodeCanonicalNode (b @ rest) (d + 1) = (if rest = [] \<and> ends_empty (Some a) then None else Some (clean a, rest))"
    using wt_not by blast
  with e wt_not.hyps show ?case by (simp add: decode_not ops_defs)
next
  case (wt_more d a i m as j m')
  from wt_more.prems obtain b b' where
    e: "encodeNode (Some a) = Some b" "encode_args as = Some b'" "bs = b @ b'"
    by (auto split: option.splits)
  have fits: "texts_fit (Some a)" "args_fit as" using wt_more.prems by simp_all
  have "b' = [] \<longleftrightarrow> as = []" using e(2) encode_args_Nil [of as] by auto
  with wt_more.IH(2) [OF fits(1) e(1), of "b' @ rest"] wt_more.IH(4) [OF fits(2) e(2), of rest] e(3) show ?case
    by (cases "rest = []") (auto simp: args_end_empty_Cons)
qed (use valid_lengths in \<open>auto simp: encode_simps decode_simps text_write ops_defs decodeCanonicalLiteral_encode
    decodeCanonicalLiteral_encode_end\<close>)

subsection \<open>Cleaning changes neither the type nor the encoding\<close>

lemma normalizeInteger_valid:
  assumes "validDecimal38 v"
  shows "normalizeInteger (normalizeInteger v) = normalizeInteger v" and "validDecimal38 (normalizeInteger v)"
proof -
  define ds where "ds = (if has_prefix v ''-'' then drop 1 v else v)"
  define t where "t = trim_left CHR ''0'' ds"
  have digits: "list_all digit_char t" "length t \<le> 38" and t: "trim_left CHR ''0'' t = t"
    using assms by (auto simp: validDecimal38_def Let_def ds_def t_def trim_left_def list_all_iff dest: set_dropWhileD)
  have n: "normalizeInteger v = (if t = [] then ''0'' else if has_prefix v ''-'' then CHR ''-'' # t else t)"
    by (simp add: normalizeInteger_def ds_def t_def Let_def)
  have "\<not> has_prefix t ''-''"
  proof (cases t)
    case (Cons c cs)
    then have "digit_char c" using digits by simp
    then show ?thesis using Cons by (auto simp: digit_char_def)
  qed simp
  moreover have "digit_char CHR ''0''" by (simp add: digit_char_def)
  moreover have "trim_left CHR ''0'' ''0'' = []" by (simp add: trim_left_def)
  ultimately have "normalizeInteger (normalizeInteger v) = normalizeInteger v \<and> validDecimal38 (normalizeInteger v)"
    using digits t unfolding n
    by (cases "t = []"; cases "has_prefix v ''-''")
      (simp_all add: normalizeInteger_def validDecimal38_def)
  then show "normalizeInteger (normalizeInteger v) = normalizeInteger v" "validDecimal38 (normalizeInteger v)" by blast+
qed

lemma clean_literal_valid: "validLiteral x \<Longrightarrow> validLiteral (clean_literal x)"
  by (auto simp: clean_literal_def empty_literal_def validLiteral_def normalizeInteger_valid split: if_splits)

lemma clean_literal_encode: "validLiteral x \<Longrightarrow> encodeLiteral (clean_literal x) = encodeLiteral x"
  by (auto simp: clean_literal_def empty_literal_def encodeLiteral_def validLiteral_def normalizeInteger_valid split: if_splits)

lemma clean_encode:
  "well_typed re_ok d n k i m \<Longrightarrow> encodeNode (Some (clean n)) = encodeNode (Some n)"
  "well_typed_args re_ok d as i m \<Longrightarrow> encode_args (map (map_option clean) as) = encode_args as"
proof (induction rule: well_typed_well_typed_args.inducts)
  case (wt_comparison d op l k i m r j m')
  then show ?case using comparison_ops_only [of op]
    by (cases "encodeNode (Some l)") (simp_all add: encode_comparison)
next
  case (wt_string d op v i m p)
  then show ?case using string_ops_only [of op] by (simp add: encode_string)
next
  case (wt_boolean d op as i m)
  then show ?case using encode_boolean [of op] by simp
next
  case (wt_presence d op ns path)
  then show ?case using encode_presence [of op] by (auto simp: pointer_ops_def)
next
  case (wt_in d v k i m "is")
  then have "concat (map (encodeLiteral \<circ> clean_literal) is) = concat (map encodeLiteral is)"
    by (auto simp: list_all_iff clean_literal_encode intro!: arg_cong [where f = concat])
  with wt_in show ?case by (simp add: encode_in ops_defs)
next
  case (wt_more d a i m as j m')
  then show ?case by (cases "encodeNode (Some a)") simp_all
qed (simp_all add: encode_simps ops_defs clean_literal_encode)

lemma clean_typed:
  "well_typed re_ok d n k i m \<Longrightarrow> well_typed re_ok d (clean n) k i m"
  "well_typed_args re_ok d as i m \<Longrightarrow> well_typed_args re_ok d (map (map_option clean) as) i m"
proof (induction rule: well_typed_well_typed_args.inducts)
  case (wt_literal d x)
  then show ?case
    using well_typed_well_typed_args.wt_literal [OF _ clean_literal_valid, of d x re_ok] by (simp add: ops_defs)
next
  case (wt_comparison d op l k i m r j m')
  then show ?case using comparison_ops_only [of op] by (simp add: well_typed_well_typed_args.wt_comparison)
next
  case (wt_string d op v i m p)
  then show ?case using string_ops_only [of op] by (simp add: well_typed_well_typed_args.wt_string)
next
  case (wt_boolean d op as i m)
  then show ?case by (simp add: well_typed_well_typed_args.wt_boolean)
next
  case (wt_presence d op ns path)
  moreover from this have "op \<in> set pointer_ops" by (auto simp: pointer_ops_def)
  ultimately show ?case by (simp add: well_typed_well_typed_args.wt_presence)
next
  case (wt_in d v k i m "is")
  then show ?case
    using well_typed_well_typed_args.wt_in [of d re_ok "clean v" k i m "map clean_literal is"]
    by (simp add: ops_defs list_all_iff clean_literal_valid)
qed (auto simp: ops_defs clean_literal_valid isPredicate_def intro: well_typed_well_typed_args.intros)

subsection \<open>The encoding identifies the filter\<close>

lemma validateFilter_typed:
  "validateFilter re_ok (Some nd) = Inr () \<longleftrightarrow>
   isPredicate nd \<and> (\<exists>c x. well_typed re_ok 1 nd ''boolean'' c x \<and> c \<le> 128 \<and> x \<le> 4)"
proof
  assume "validateFilter re_ok (Some nd) = Inr ()"
  then show "isPredicate nd \<and> (\<exists>c x. well_typed re_ok 1 nd ''boolean'' c x \<and> c \<le> 128 \<and> x \<le> 4)"
    by (fastforce simp: validateFilter_def bindR_eq_Inr validateNode_eq_Inr count_nodes_def split: if_splits)
qed (auto simp: validateFilter_def well_typed_validates count_nodes_def)

lemma validateFilter_clean: "validateFilter re_ok (Some nd) = Inr () \<Longrightarrow> validateFilter re_ok (Some (clean nd)) = Inr ()"
  by (auto simp: validateFilter_typed isPredicate_def dest: clean_typed(1))

lemma canonicalFilter_eq: "validateFilter re_ok root = Inr () \<Longrightarrow> canonicalFilter re_ok root = Inr (encodeNode root)"
  by (simp add: canonicalFilter_def)

text \<open>
  C19: the canonical encoding of a filter that validates is defined (no nil pointer is
  followed). When no string literal exceeds the expression limit, decoding the encoding gives
  back the filter, reduced to the fields its operations use and with integers in shortest form,
  with exactly two exceptions, which the decoder rejects: an encoding longer than a snapshot
  holds (32,768 bytes), and one that ends in an empty text.
\<close>

theorem canonical_filter_round_trip:
  assumes "validateFilter re_ok (Some n) = Inr ()" and "texts_fit (Some n)"
  shows "\<exists>bs. canonicalFilter re_ok (Some n) = Inr (Some bs) \<and>
    decodeCanonicalFilter re_ok bs = (if 32768 < length bs \<or> ends_empty (Some n) then Inl InvalidCanonical else Inr (clean n))"
proof -
  from assms(1) obtain c x where wt: "well_typed re_ok 1 n ''boolean'' c x"
    by (auto simp: validateFilter_typed)
  from encode_defined(1) [OF wt] obtain bs where bs: "encodeNode (Some n) = Some bs" by blast
  have "bs \<noteq> []" using bs encode_not_Nil by metis
  moreover have "decodeCanonicalNode bs 1 = (if ends_empty (Some n) then None else Some (clean n, []))"
    using decode_encode_node(1) [OF wt assms(2) bs, of "[]"] by simp
  moreover note validateFilter_clean [OF assms(1)]
  moreover have "canonicalFilter re_ok (Some (clean n)) = Inr (Some bs)"
    using clean_encode(1) [OF wt] bs by (simp add: canonicalFilter_eq [OF validateFilter_clean [OF assms(1)]])
  ultimately show ?thesis
    using bs by (auto simp: canonicalFilter_eq [OF assms(1)] decodeCanonicalFilter_def)
qed

theorem canonical_filter_round_trip_witness:
  "let f = Node ''eq'' [] [] [] [] None
        (Some (Node ''field'' ''severity_number'' [] [] [] None None None None None [] [] [] False))
        (Some (Node ''literal'' [] ''integer'' [] [] (Some ((empty_literal ''integer'')\<lparr>l_integer := ''007''\<rparr>)) None None None None [] [] [] False))
        None None [] [] [] False;
       g = Node ''text'' [] [] [] [] None None None None None [] [] [] False
   in decodeCanonicalFilter (\<lambda>_. True) (the (encodeNode (Some f))) = Inr (clean f) \<and>
      decodeCanonicalFilter (\<lambda>_. True) (the (encodeNode (Some g))) = Inl InvalidCanonical"
proof -
  define f where "f = Node ''eq'' [] [] [] [] None
        (Some (Node ''field'' ''severity_number'' [] [] [] None None None None None [] [] [] False))
        (Some (Node ''literal'' [] ''integer'' [] [] (Some ((empty_literal ''integer'')\<lparr>l_integer := ''007''\<rparr>)) None None None None [] [] [] False))
        None None [] [] [] False"
  define g where "g = Node ''text'' [] [] [] [] None None None None None [] [] [] False"
  have f: "validateFilter (\<lambda>_. True) (Some f) = Inr ()" "texts_fit (Some f)" "\<not> ends_empty (Some f)"
    "length (the (encodeNode (Some f))) \<le> 32768"
    unfolding f_def by code_simp+
  have g: "validateFilter (\<lambda>_. True) (Some g) = Inr ()" "texts_fit (Some g)" "ends_empty (Some g)"
    "length (the (encodeNode (Some g))) \<le> 32768"
    unfolding g_def by code_simp+
  show ?thesis
    using canonical_filter_round_trip [OF f(1,2)] canonical_filter_round_trip [OF g(1,2)] f g
    unfolding Let_def f_def [symmetric] g_def [symmetric]
    by (auto simp: canonicalFilter_def)
qed

text \<open>
  C18: the canonical encoding identifies a filter: two filters that validate, whose string
  literals are within the expression limit, have the same canonical bytes exactly when they
  are the same tree up to unused fields and leading zeros of integers. Distinct filters thus
  never share a dataset identity, a cached result or a read token.
\<close>

theorem canonical_filter_identifies:
  assumes "validateFilter re_ok (Some n) = Inr ()" and "texts_fit (Some n)"
    and "validateFilter re_ok (Some m) = Inr ()" and "texts_fit (Some m)"
  shows "canonicalFilter re_ok (Some n) = canonicalFilter re_ok (Some m) \<longleftrightarrow> clean n = clean m"
proof -
  obtain c x where wn: "well_typed re_ok 1 n ''boolean'' c x" using assms(1) by (auto simp: validateFilter_typed)
  obtain c' x' where wm: "well_typed re_ok 1 m ''boolean'' c' x'" using assms(3) by (auto simp: validateFilter_typed)
  obtain bn where bn: "encodeNode (Some n) = Some bn" using encode_defined(1) [OF wn] by blast
  obtain bm where bm: "encodeNode (Some m) = Some bm" using encode_defined(1) [OF wm] by blast
  have "clean n = clean m" if "bn = bm"
    using decode_encode_node(1) [OF wn assms(2) bn, of "''x''"] decode_encode_node(1) [OF wm assms(4) bm, of "''x''"] that by simp
  moreover have "bn = bm" if "clean n = clean m"
    using clean_encode(1) [OF wn] clean_encode(1) [OF wm] that bn bm by simp
  ultimately show ?thesis
    using bn bm by (auto simp: canonicalFilter_eq [OF assms(1)] canonicalFilter_eq [OF assms(3)])
qed

theorem canonical_filter_identifies_witness:
  "canonicalFilter (\<lambda>_. True) (Some (Node ''text'' [] [] [] [] None None None None None [] [] ''a'' False)) \<noteq>
   canonicalFilter (\<lambda>_. True) (Some (Node ''constant'' [] [] [] [] None None None None None [] [] [] True))"
proof -
  let ?n = "Node ''text'' [] [] [] [] None None None None None [] [] ''a'' False"
  let ?m = "Node ''constant'' [] [] [] [] None None None None None [] [] [] True"
  have "validateFilter (\<lambda>_. True) (Some ?n) = Inr ()" "texts_fit (Some ?n)"
    "validateFilter (\<lambda>_. True) (Some ?m) = Inr ()" "texts_fit (Some ?m)"
    by code_simp+
  from canonical_filter_identifies [OF this] show ?thesis by simp
qed

end
