(* ===== verification/Dataset.thy ===== *)
theory Dataset
  imports Codec
begin

section \<open>Dataset identities (internal/query/hash.go)\<close>

text \<open>
  \<open>DatasetHash\<close> turns the scope of a query - tenant, projects, kinds, time range, canonical
  filter bytes - into the canonical identity kept in a snapshot and its SHA-256;
  \<open>DecodeDatasetIdentity\<close> is its inverse. The theorems say that the identity determines the
  scope up to the order of its sets, and that decoding never fails on an identity that was
  written.
\<close>

subsection \<open>Data\<close>

record dataset_spec =
  d_tenant :: int
  d_projects :: "int list"
  d_kinds :: "string list"
  d_time_basis :: string
  d_start :: int
  d_end :: int
  d_filter :: string

datatype dataset_error =
    InvalidDataset | InvalidProjectScope | InvalidKindScope | InvalidDatasetFilter | InvalidIdentity
  | UnsupportedIdentity | InvalidTenant | InvalidProjects | InvalidProject | InvalidKinds
  | InvalidBytes | InvalidStart | InvalidEnd | InvalidFilterBytes | NoncanonicalIdentity

definition all_kinds :: "string list" where
  "all_kinds = [''error'', ''log'', ''transaction'']"

subsection \<open>Encoding\<close>

text \<open>The two loops over a sorted scope: the element is valid and differs from its predecessor.\<close>

fun scope_ok :: "('a \<Rightarrow> bool) \<Rightarrow> 'a list \<Rightarrow> bool" where
  "scope_ok ok [] = True"
| "scope_ok ok [x] = ok x"
| "scope_ok ok (x # y # ys) = (ok x \<and> x \<noteq> y \<and> scope_ok ok (y # ys))"

definition scope_kinds :: "string list \<Rightarrow> string list" where
  "scope_kinds kinds = sortBy (<) (if kinds = [] then all_kinds else kinds)"

definition dataset_prefix :: string where
  "dataset_prefix = ''eventglass-dataset''"

definition dataset_bytes :: "dataset_spec \<Rightarrow> int list \<Rightarrow> string list \<Rightarrow> string" where
  "dataset_bytes spec projects kinds =
    dataset_prefix @ writeUint 1 @ writeInt (d_tenant spec) @
    writeUint (int (length projects)) @ concat (map writeInt projects) @
    writeUint (int (length kinds)) @ concat (map writeBytes kinds) @
    writeBytes (d_time_basis spec) @ writeInt (d_start spec) @ writeInt (d_end spec) @ writeBytes (d_filter spec)"

definition datasetHash :: "dataset_spec \<Rightarrow> dataset_error + string \<times> string" where
  "datasetHash spec =
    (if d_tenant spec \<le> 0 \<or> d_end spec \<le> d_start spec \<or>
        (d_time_basis spec \<noteq> ''event'' \<and> d_time_basis spec \<noteq> ''received'') \<or>
        length (d_projects spec) < 1 \<or> 100 < length (d_projects spec) then Inl InvalidDataset
     else
       let projects = sortBy (<) (d_projects spec); kinds = scope_kinds (d_kinds spec) in
       if \<not> scope_ok (\<lambda>p. 0 < p) projects then Inl InvalidProjectScope
       else if \<not> scope_ok (\<lambda>k. k \<in> set all_kinds) kinds then Inl InvalidKindScope
       else if d_filter spec = [] \<or> 32768 < length (d_filter spec) then Inl InvalidDatasetFilter
       else let encoded = dataset_bytes spec projects kinds in Inr (sha256_hex encoded, encoded))"

subsection \<open>Decoding\<close>

fun read_projects :: "nat \<Rightarrow> string \<Rightarrow> (int list \<times> string) option" where
  "read_projects 0 bs = Some ([], bs)"
| "read_projects (Suc n) bs =
    (case readVarint bs of None \<Rightarrow> None
     | Some (v, r) \<Rightarrow> map_option (\<lambda>(vs, r'). (v # vs, r')) (read_projects n r))"

fun read_kinds :: "nat \<Rightarrow> string \<Rightarrow> (string list \<times> string) option" where
  "read_kinds 0 bs = Some ([], bs)"
| "read_kinds (Suc n) bs =
    (case readDatasetBytes bs 32 of None \<Rightarrow> None
     | Some (v, r) \<Rightarrow> map_option (\<lambda>(vs, r'). (v # vs, r')) (read_kinds n r))"

definition or_fail :: "'e \<Rightarrow> 'a option \<Rightarrow> 'e + 'a" where
  "or_fail e x = (case x of None \<Rightarrow> Inl e | Some v \<Rightarrow> Inr v)"

definition decodeDatasetIdentity :: "string \<Rightarrow> dataset_error + dataset_spec" where
  "decodeDatasetIdentity encoded =
    (if length encoded \<le> length dataset_prefix \<or> take (length dataset_prefix) encoded \<noteq> dataset_prefix then Inl InvalidIdentity
     else
       bindR (or_fail UnsupportedIdentity (readUvarint (drop (length dataset_prefix) encoded))) (\<lambda>(version, r0).
       bindR (check (version = 1) UnsupportedIdentity) (\<lambda>_.
       bindR (or_fail InvalidTenant (readVarint r0)) (\<lambda>(tenant, r1).
       bindR (or_fail InvalidProjects (readDatasetCount r1 100)) (\<lambda>(projects, r2).
       bindR (check (1 \<le> projects) InvalidProjects) (\<lambda>_.
       bindR (or_fail InvalidProject (read_projects projects r2)) (\<lambda>(ps, r3).
       bindR (or_fail InvalidKinds (readDatasetCount r3 3)) (\<lambda>(kinds, r4).
       bindR (check (1 \<le> kinds) InvalidKinds) (\<lambda>_.
       bindR (or_fail InvalidBytes (read_kinds kinds r4)) (\<lambda>(ks, r5).
       bindR (or_fail InvalidBytes (readDatasetBytes r5 32)) (\<lambda>(basis, r6).
       bindR (or_fail InvalidStart (readVarint r6)) (\<lambda>(start, r7).
       bindR (or_fail InvalidEnd (readVarint r7)) (\<lambda>(finish, r8).
       bindR (or_fail InvalidFilterBytes (readDatasetBytes r8 32768)) (\<lambda>(flt, r9).
       bindR (check (r9 = []) InvalidFilterBytes) (\<lambda>_.
         let spec = \<lparr>d_tenant = tenant, d_projects = ps, d_kinds = ks, d_time_basis = basis,
                     d_start = start, d_end = finish, d_filter = flt\<rparr>
         in case datasetHash spec of
              Inl e \<Rightarrow> Inl NoncanonicalIdentity
            | Inr (h, canonical) \<Rightarrow> if canonical = encoded then Inr spec else Inl NoncanonicalIdentity)))))))))))))))"

subsection \<open>The canonical scope\<close>

definition canonical_spec :: "dataset_spec \<Rightarrow> dataset_spec" where
  "canonical_spec spec = spec\<lparr>d_projects := sortBy (<) (d_projects spec), d_kinds := scope_kinds (d_kinds spec)\<rparr>"

lemma canonical_spec_eq:
  "canonical_spec spec = \<lparr>d_tenant = d_tenant spec, d_projects = sortBy (<) (d_projects spec), d_kinds = scope_kinds (d_kinds spec),
     d_time_basis = d_time_basis spec, d_start = d_start spec, d_end = d_end spec, d_filter = d_filter spec\<rparr>"
  by (cases spec) (simp add: canonical_spec_def)

text \<open>Every number of the specification is an \<open>int64\<close>, as in the Go struct.\<close>

definition spec64 :: "dataset_spec \<Rightarrow> bool" where
  "spec64 spec \<longleftrightarrow> int64 (d_tenant spec) \<and> int64 (d_start spec) \<and> int64 (d_end spec) \<and> list_all int64 (d_projects spec)"

lemma scope_ok_all: "scope_ok ok xs \<Longrightarrow> x \<in> set xs \<Longrightarrow> ok x"
  by (induction ok xs rule: scope_ok.induct) auto

lemma scope_ok_distinct: "sorted (xs :: 'a::linorder list) \<Longrightarrow> scope_ok ok xs \<Longrightarrow> distinct xs"
proof (induction ok xs rule: scope_ok.induct)
  case (3 ok x y ys)
  then have "x < y" by (simp add: order.not_eq_order_implies_strict)
  with 3 show ?case by force
qed simp_all

lemma scope_kinds_sorted: "sorted (scope_kinds ks)"
  by (simp add: scope_kinds_def sortBy_less_sorted)

lemma scope_kinds_idem: "scope_kinds (scope_kinds ks) = scope_kinds ks"
  by (simp add: scope_kinds_def all_kinds_def)

lemma scope_kinds_length:
  assumes "scope_ok (\<lambda>k. k \<in> set all_kinds) (scope_kinds ks)"
  shows "1 \<le> length (scope_kinds ks)" and "length (scope_kinds ks) \<le> 3"
proof -
  show "1 \<le> length (scope_kinds ks)" by (cases ks) (simp_all add: scope_kinds_def all_kinds_def)
  have "distinct (scope_kinds ks)" by (rule scope_ok_distinct [OF scope_kinds_sorted assms])
  moreover have "set (scope_kinds ks) \<subseteq> set all_kinds" using scope_ok_all [OF assms] by blast
  ultimately have "length (scope_kinds ks) \<le> card (set all_kinds)"
    by (metis card_mono distinct_card finite_set)
  also have "\<dots> = 3" by (simp add: all_kinds_def)
  finally show "length (scope_kinds ks) \<le> 3" .
qed

lemma canonical_spec_idem: "canonical_spec (canonical_spec spec) = canonical_spec spec"
  by (simp add: canonical_spec_def scope_kinds_idem)

lemma datasetHash_canonical: "datasetHash (canonical_spec spec) = datasetHash spec"
  by (simp add: datasetHash_def canonical_spec_def scope_kinds_idem dataset_bytes_def Let_def)

subsection \<open>Reading back what was written\<close>

lemma read_projects_write:
  "list_all int64 ps \<Longrightarrow> read_projects (length ps) (concat (map writeInt ps) @ rest) = Some (ps, rest)"
  by (induction ps) (simp_all add: readVarint_write)

lemma read_kinds_write:
  "\<forall>k \<in> set ks. k \<noteq> [] \<and> length k \<le> 32 \<Longrightarrow>
   read_kinds (length ks) (concat (map writeBytes ks) @ rest) = Some (ks, rest)"
  by (induction ks) (simp_all add: readDatasetBytes_write)

lemma kind_length: "k \<in> set all_kinds \<Longrightarrow> k \<noteq> [] \<and> length k \<le> 32"
  by (auto simp: all_kinds_def)

lemma readUvarint_writeUint:
  "0 \<le> v \<Longrightarrow> v < 18446744073709551616 \<Longrightarrow> readUvarint (writeUint v @ rest) = Some (v, rest)"
  by (simp add: writeUint_def readUvarint_put)

lemma decode_dataset_bytes:
  assumes "spec64 spec" and "datasetHash spec = Inr (h, bs)"
  shows "decodeDatasetIdentity bs = Inr (canonical_spec spec)"
proof -
  let ?ps = "sortBy (<) (d_projects spec)" and ?ks = "scope_kinds (d_kinds spec)"
  have bs: "bs = dataset_bytes spec ?ps ?ks" and ok: "1 \<le> length ?ps" "length ?ps \<le> 100"
    and ks: "scope_ok (\<lambda>k. k \<in> set all_kinds) ?ks" and basis: "d_time_basis spec \<in> {''event'', ''received''}"
    and flt: "d_filter spec \<noteq> []" "length (d_filter spec) \<le> 32768"
    using assms(2) by (auto simp: datasetHash_def Let_def Suc_le_eq split: if_splits)
  have kinds: "\<forall>k \<in> set ?ks. k \<noteq> [] \<and> length k \<le> 32" using scope_ok_all [OF ks] kind_length by blast
  have ps: "list_all int64 ?ps" using assms(1) by (simp add: spec64_def list_all_iff)
  have basis_len: "d_time_basis spec \<noteq> []" "length (d_time_basis spec) \<le> 32" using basis by auto
  have "datasetHash (canonical_spec spec) = Inr (h, bs)" by (simp add: datasetHash_canonical assms(2))
  then have hash: "datasetHash \<lparr>d_tenant = d_tenant spec, d_projects = ?ps, d_kinds = ?ks, d_time_basis = d_time_basis spec,
      d_start = d_start spec, d_end = d_end spec, d_filter = d_filter spec\<rparr> = Inr (h, bs)"
    by (simp add: canonical_spec_eq)
  have prefix: "take (length dataset_prefix) bs = dataset_prefix" "\<not> length bs \<le> length dataset_prefix"
    by (simp_all add: bs dataset_bytes_def writeUint_def)
  note reads = readUvarint_writeUint readVarint_write readDatasetCount_write read_projects_write [OF ps, simplified]
    read_kinds_write [OF kinds] readDatasetBytes_write or_fail_def
  show ?thesis
    using assms(1) ok scope_kinds_length [OF ks] basis_len flt hash
    unfolding decodeDatasetIdentity_def using prefix
    by (simp add: reads bs dataset_bytes_def spec64_def readDatasetBytes_write [where rest = "[]", simplified] canonical_spec_eq)
qed

lemma dataset_identity_round_trip:
  assumes "spec64 spec" and "datasetHash spec = Inr (h, bs)"
  shows "decodeDatasetIdentity bs = Inr (canonical_spec spec)"
  using assms by (rule decode_dataset_bytes)

definition sample_spec :: dataset_spec where
  "sample_spec = \<lparr>d_tenant = 7, d_projects = [9, 3], d_kinds = [], d_time_basis = ''event'', d_start = -5, d_end = 1000,
     d_filter = ''x''\<rparr>"

lemma sample_spec_hash: "spec64 sample_spec" "\<exists>h bs. datasetHash sample_spec = Inr (h, bs)"
  by (simp_all add: sample_spec_def spec64_def int64_def datasetHash_def scope_kinds_def all_kinds_def Let_def)

text \<open>
  C32: two query scopes have the same identity exactly when they agree on everything but the
  order of their projects and kinds; and whatever \<open>DecodeDatasetIdentity\<close> accepts is the
  identity of the scope it returns.
\<close>

theorem dataset_identity_determines_scope:
  assumes "spec64 spec" and "datasetHash spec = Inr (h, bs)" and "spec64 spec'" and "datasetHash spec' = Inr (h', bs')"
  shows "(bs = bs' \<longleftrightarrow> canonical_spec spec = canonical_spec spec') \<and> (bs = bs' \<longrightarrow> h = h')"
proof -
  have "canonical_spec spec = canonical_spec spec'" if "bs = bs'"
    using decode_dataset_bytes [OF assms(1,2)] decode_dataset_bytes [OF assms(3,4)] that by simp
  moreover have "bs = bs' \<and> h = h'" if "canonical_spec spec = canonical_spec spec'"
    using assms(2,4) that datasetHash_canonical [of spec] datasetHash_canonical [of spec'] by simp
  ultimately show ?thesis by blast
qed

theorem dataset_identity_determines_scope_witness:
  "\<exists>h bs h' bs'. datasetHash sample_spec = Inr (h, bs) \<and> datasetHash (sample_spec\<lparr>d_projects := [3, 9]\<rparr>) = Inr (h', bs') \<and> bs = bs' \<and> h = h'"
proof -
  have c: "canonical_spec (sample_spec\<lparr>d_projects := [3, 9]\<rparr>) = canonical_spec sample_spec"
    by (simp add: sample_spec_def canonical_spec_def)
  have s: "spec64 (sample_spec\<lparr>d_projects := [3, 9]\<rparr>)" by (simp add: sample_spec_def spec64_def int64_def)
  obtain h bs where 1: "datasetHash sample_spec = Inr (h, bs)" using sample_spec_hash(2) by blast
  then have 2: "datasetHash (sample_spec\<lparr>d_projects := [3, 9]\<rparr>) = Inr (h, bs)"
    by (metis c datasetHash_canonical)
  show ?thesis
    using dataset_identity_determines_scope [OF sample_spec_hash(1) 1 s 2] 1 2 c by auto
qed

end
