(* ===== verification/Aggregate.thy ===== *)
theory Aggregate
  imports GoStd
begin

section \<open>Exact aggregate states (internal/query/merge.go)\<close>

text \<open>
  Integer sums are carried between workers as five signed decimal limbs of nine digits, so
  that no partial sum is ever rounded. A \<open>big.Int\<close> is an \<open>int\<close>; a counter is an \<open>int64\<close>.
\<close>

subsection \<open>Data\<close>

datatype query_error = QueryLimit | OutsideDecimal | LimbOverflow | InvalidLimb | NumericOverflow | InvalidCount
  | EmptyGroupKey | InvalidHistogram

abbreviation decimalBase :: int where
  "decimalBase \<equiv> 1000000000"

abbreviation decimalLimit :: int where
  "decimalLimit \<equiv> 99999999999999999999999999999999999999"

abbreviation IntegerLimbCount :: nat where
  "IntegerLimbCount \<equiv> 5"

abbreviation MaxAggregateGroups :: nat where
  "MaxAggregateGroups \<equiv> 20000"

record integer_state =
  i_limbs :: "string list"
  i_count :: int
  i_excluded :: int

record aggregate_group_state =
  g_key :: string
  g_integer :: integer_state

text \<open>The Go array \<open>[5]string\<close> has exactly five elements.\<close>

definition state_shape :: "integer_state \<Rightarrow> bool" where
  "state_shape st \<longleftrightarrow> length (i_limbs st) = IntegerLimbCount \<and> int64 (i_count st) \<and> int64 (i_excluded st)"

subsection \<open>Limbs\<close>

fun split_limbs :: "nat \<Rightarrow> int \<Rightarrow> int \<Rightarrow> string list \<times> int" where
  "split_limbs 0 sign a = ([], a)"
| "split_limbs (Suc n) sign a =
    (let quotient = a div decimalBase; remainder = a mod decimalBase;
         (rest, final) = split_limbs n sign quotient
     in (showInt (if sign < 0 then - remainder else remainder) # rest, final))"

definition decimalLimbs :: "string \<Rightarrow> query_error + string list" where
  "decimalLimbs v =
    (case bigSetString v of
       None \<Rightarrow> Inl OutsideDecimal
     | Some parsed \<Rightarrow>
         if v = [] \<or> has_prefix v ''+'' \<or> decimalLimit < parsed \<or> parsed < - decimalLimit then Inl OutsideDecimal
         else let (result, a) = split_limbs IntegerLimbCount (sgn parsed) \<bar>parsed\<bar>
              in if a \<noteq> 0 then Inl LimbOverflow else Inr result)"

definition parse_limb :: "string \<Rightarrow> query_error + int" where
  "parse_limb s = (case bigSetString s of None \<Rightarrow> Inl InvalidLimb | Some v \<Rightarrow> Inr v)"

subsection \<open>Merging\<close>

record merge_state =
  m_limbs :: "int list"
  m_count :: int
  m_excluded :: int

definition merge_step :: "merge_state \<Rightarrow> integer_state \<Rightarrow> query_error + merge_state" where
  "merge_step ms st =
    (if i_count st < 0 \<or> i_excluded st < 0 \<or> sub64 maxInt64 (i_count st) < m_count ms \<or>
        sub64 maxInt64 (i_excluded st) < m_excluded ms then Inl QueryLimit
     else bindR (mapR parse_limb (i_limbs st)) (\<lambda>vs.
       Inr \<lparr>m_limbs = map2 (+) (m_limbs ms) vs, m_count = add64 (m_count ms) (i_count st),
            m_excluded = add64 (m_excluded ms) (i_excluded st)\<rparr>))"

definition mergeIntegerStates :: "integer_state list \<Rightarrow> query_error + integer_state" where
  "mergeIntegerStates states =
    bindR (foldR merge_step \<lparr>m_limbs = replicate IntegerLimbCount 0, m_count = 0, m_excluded = 0\<rparr> states) (\<lambda>ms.
      Inr \<lparr>i_limbs = map showInt (m_limbs ms), i_count = m_count ms, i_excluded = m_excluded ms\<rparr>)"

fun limbs_value :: "int \<Rightarrow> int list \<Rightarrow> int" where
  "limbs_value pow [] = 0"
| "limbs_value pow (v # vs) = v * pow + limbs_value (pow * decimalBase) vs"

definition integerStateValue :: "integer_state \<Rightarrow> query_error + int" where
  "integerStateValue st = bindR (mapR parse_limb (i_limbs st)) (\<lambda>vs. Inr (limbs_value 1 vs))"

subsection \<open>Finalizing\<close>

definition finalizeIntegerSum :: "integer_state \<Rightarrow> query_error + string option" where
  "finalizeIntegerSum st =
    (if i_count st = 0 then Inr None
     else bindR (integerStateValue st) (\<lambda>v.
       if decimalLimit < \<bar>v\<bar> then Inl NumericOverflow else Inr (Some (showInt v))))"

definition leftPadNine :: "string \<Rightarrow> string" where
  "leftPadNine v = (if 9 \<le> length v then v else replicate (9 - length v) CHR ''0'' @ v)"

definition formatScaleNine :: "int \<Rightarrow> string" where
  "formatScaleNine v =
    (if v < 0 then ''-'' else []) @ showInt (\<bar>v\<bar> div decimalBase) @ ''.'' @ leftPadNine (showInt (\<bar>v\<bar> mod decimalBase))"

definition round_half_even :: "int \<Rightarrow> int \<Rightarrow> int" where
  "round_half_even scaled denominator =
    (let quotient = quo scaled denominator; remainder = remn scaled denominator; twice = 2 * \<bar>remainder\<bar>
     in if denominator < twice \<or> (twice = denominator \<and> odd quotient)
        then (if scaled < 0 then quotient - 1 else quotient + 1) else quotient)"

definition finalizeIntegerAverage :: "integer_state \<Rightarrow> query_error + string option" where
  "finalizeIntegerAverage st =
    (if i_count st = 0 then Inr None
     else if i_count st < 0 then Inl InvalidCount
     else bindR (integerStateValue st) (\<lambda>n.
       Inr (Some (formatScaleNine (round_half_even (n * decimalBase) (i_count st))))))"

subsection \<open>Merging groups\<close>

text \<open>The map \<open>byKey\<close> is an association list in insertion order; only its sorted keys are read.\<close>

fun append_state :: "string \<Rightarrow> integer_state \<Rightarrow> (string \<times> integer_state list) list \<Rightarrow> (string \<times> integer_state list) list" where
  "append_state k st [] = [(k, [st])]"
| "append_state k st ((k', sts) # m) = (if k' = k then (k', sts @ [st]) # m else (k', sts) # append_state k st m)"

definition collect_group :: "(string \<times> integer_state list) list \<Rightarrow> aggregate_group_state \<Rightarrow> query_error + (string \<times> integer_state list) list" where
  "collect_group m g =
    (if g_key g = [] then Inl EmptyGroupKey
     else if map_of m (g_key g) = None \<and> MaxAggregateGroups \<le> length m then Inl QueryLimit
     else Inr (append_state (g_key g) (g_integer g) m))"

definition mergeAggregateGroups :: "aggregate_group_state list list \<Rightarrow> query_error + aggregate_group_state list" where
  "mergeAggregateGroups partitions =
    bindR (foldR (foldR collect_group) [] partitions) (\<lambda>byKey.
      mapR (\<lambda>k. bindR (mergeIntegerStates (the (map_of byKey k))) (\<lambda>merged. Inr \<lparr>g_key = k, g_integer = merged\<rparr>))
        (sortBy (<) (map fst byKey)))"

subsection \<open>Histogram buckets\<close>

definition validHistogramInterval :: "int \<Rightarrow> bool" where
  "validHistogramInterval v \<longleftrightarrow> v \<in> {1000000, 10000000, 60000000, 300000000, 3600000000, 86400000000}"

definition floorMultiple :: "int \<Rightarrow> int \<Rightarrow> int" where
  "floorMultiple v interval =
    (let quotient = quo v interval; remainder = remn v interval
     in mul64 (if remainder < 0 then sub64 quotient 1 else quotient) interval)"

text \<open>The first argument is how many more buckets fit, \<open>2000 - len(result)\<close>.\<close>

fun bucket_loop :: "nat \<Rightarrow> int \<Rightarrow> int \<Rightarrow> int \<Rightarrow> query_error + int list" where
  "bucket_loop 0 bucket finish interval = (if bucket < finish then Inl QueryLimit else Inr [])"
| "bucket_loop (Suc n) bucket finish interval =
    (if bucket < finish then
       (if sub64 maxInt64 interval < bucket then Inr [bucket]
        else bindR (bucket_loop n (add64 bucket interval) finish interval) (\<lambda>bs. Inr (bucket # bs)))
     else Inr [])"

definition histogramBucketStarts :: "int \<Rightarrow> int \<Rightarrow> int \<Rightarrow> query_error + int list" where
  "histogramBucketStarts start finish interval =
    (if finish \<le> start \<or> \<not> validHistogramInterval interval then Inl InvalidHistogram
     else let first = floorMultiple start interval
          in if sub64 maxInt64 (mul64 interval 2000) < first then Inl QueryLimit
             else bucket_loop 2000 first finish interval)"

subsection \<open>Limbs represent the integer exactly\<close>

lemma parse_limb_showInt [simp]: "parse_limb (showInt v) = Inr v"
  by (simp add: parse_limb_def)

lemma mapR_parse_showInt [simp]: "mapR parse_limb (map showInt vs) = Inr vs"
  by (induction vs) simp_all

lemma limbs_value_add:
  "length us = length vs \<Longrightarrow> limbs_value p (map2 (+) us vs) = limbs_value p us + limbs_value p vs"
  by (induction us vs arbitrary: p rule: list_induct2) (simp_all add: algebra_simps)

lemma limbs_value_zero [simp]: "limbs_value p (replicate n 0) = 0"
  by (induction n arbitrary: p) simp_all

lemma split_limbs_value:
  "split_limbs n s a = (ls, f) \<Longrightarrow>
   \<exists>vs. ls = map showInt vs \<and> length vs = n \<and>
     limbs_value p vs + (if s < 0 then -1 else 1) * f * p * decimalBase ^ n = (if s < 0 then -1 else 1) * a * p"
proof (induction n arbitrary: a ls p)
  case (Suc n)
  let ?sg = "(if s < 0 then -1 else 1) :: int"
  from Suc.prems obtain rest where rest: "split_limbs n s (a div decimalBase) = (rest, f)"
    "ls = showInt (?sg * (a mod decimalBase)) # rest"
    by (auto simp: Let_def split: prod.splits if_splits)
  from Suc.IH [OF rest(1), of "p * decimalBase"] obtain vs where
    vs: "rest = map showInt vs" "length vs = n"
    "limbs_value (p * decimalBase) vs + ?sg * f * (p * decimalBase) * decimalBase ^ n = ?sg * (a div decimalBase) * (p * decimalBase)"
    by blast
  have alg: "sg * (q * b + r) * p = sg * q * (p * b) + sg * r * p" for sg q b r :: int by (simp add: algebra_simps)
  have "?sg * a * p = ?sg * (a div decimalBase) * (p * decimalBase) + ?sg * (a mod decimalBase) * p"
    using alg [of ?sg "a div decimalBase" decimalBase "a mod decimalBase"] by simp
  with vs rest show ?case
    by (intro exI [of _ "?sg * (a mod decimalBase) # vs"]) (simp add: algebra_simps)
qed simp

lemma split_limbs_rest: "0 \<le> a \<Longrightarrow> snd (split_limbs n s a) = a div decimalBase ^ n"
proof (induction n arbitrary: a)
  case (Suc n)
  then show ?case
    by (simp add: case_prod_unfold Let_def pos_imp_zdiv_nonneg_iff zdiv_zmult2_eq)
qed simp

lemma decimalLimbs_value:
  assumes "bigSetString v = Some n" and "\<not> has_prefix v ''+''" and "\<bar>n\<bar> \<le> decimalLimit"
  shows "\<exists>vs. decimalLimbs v = Inr (map showInt vs) \<and> length vs = IntegerLimbCount \<and> limbs_value 1 vs = n"
proof -
  obtain ls f where sl: "split_limbs IntegerLimbCount (sgn n) \<bar>n\<bar> = (ls, f)" by force
  have f: "f = 0"
    using split_limbs_rest [of "\<bar>n\<bar>" IntegerLimbCount "sgn n"] sl assms(3) by (simp add: div_pos_pos_trivial)
  from split_limbs_value [OF sl, of 1] f obtain vs where
    vs: "ls = map showInt vs" "length vs = IntegerLimbCount" "limbs_value 1 vs = (if sgn n < 0 then -1 else 1) * \<bar>n\<bar>"
    by auto
  have "v \<noteq> []" using assms(1) by (auto simp: bigSetString_def)
  with assms sl f vs show ?thesis
    by (auto simp: decimalLimbs_def abs_le_iff split: if_splits)
qed

subsection \<open>Merging adds exactly\<close>

definition merged_ok :: "merge_state \<Rightarrow> bool" where
  "merged_ok ms \<longleftrightarrow> length (m_limbs ms) = IntegerLimbCount \<and> 0 \<le> m_count ms \<and> 0 \<le> m_excluded ms"

lemma foldR_merge_step:
  assumes "list_all state_shape states" and "mapR integerStateValue states = Inr vs"
    and "list_all (\<lambda>st. 0 \<le> i_count st \<and> 0 \<le> i_excluded st) states" and "merged_ok ms"
    and "m_count ms + sum_list (map i_count states) \<le> maxInt64"
    and "m_excluded ms + sum_list (map i_excluded states) \<le> maxInt64"
  shows "\<exists>ms'. foldR merge_step ms states = Inr ms' \<and> merged_ok ms' \<and>
    limbs_value 1 (m_limbs ms') = limbs_value 1 (m_limbs ms) + sum_list vs \<and>
    m_count ms' = m_count ms + sum_list (map i_count states) \<and>
    m_excluded ms' = m_excluded ms + sum_list (map i_excluded states)"
  using assms
proof (induction states arbitrary: ms vs)
  case Nil
  then show ?case by simp
next
  case (Cons st states)
  from Cons.prems(2) obtain v vs' where v: "integerStateValue st = Inr v" "mapR integerStateValue states = Inr vs'" "vs = v # vs'"
    by (auto simp: bindR_eq_Inr)
  from v(1) obtain ls where ls: "mapR parse_limb (i_limbs st) = Inr ls" "v = limbs_value 1 ls"
    by (auto simp: integerStateValue_def bindR_eq_Inr)
  then have len: "length ls = IntegerLimbCount"
    using Cons.prems(1) by (auto simp: mapR_eq_Inr state_shape_def dest: list_all2_lengthD)
  have nonneg: "0 \<le> sum_list (map i_count states)" "0 \<le> sum_list (map i_excluded states)"
    using Cons.prems(3) by (auto intro!: sum_list_nonneg simp: list_all_iff)
  let ?ms = "\<lparr>m_limbs = map2 (+) (m_limbs ms) ls, m_count = m_count ms + i_count st, m_excluded = m_excluded ms + i_excluded st\<rparr>"
  have bounds: "0 \<le> i_count st" "0 \<le> i_excluded st" "0 \<le> m_count ms" "0 \<le> m_excluded ms"
    "m_count ms + i_count st \<le> maxInt64" "m_excluded ms + i_excluded st \<le> maxInt64"
    using Cons.prems nonneg by (auto simp: merged_ok_def)
  then have "merge_step ms st = Inr ?ms"
    using ls by (simp add: merge_step_def add64_id sub64_id int64_def)
  moreover have "merged_ok ?ms" using Cons.prems(4) len bounds by (simp add: merged_ok_def)
  moreover note Cons.IH [OF _ v(2) _ calculation(2)]
  ultimately show ?case
    using Cons.prems len ls v by (auto simp: limbs_value_add merged_ok_def)
qed

subsection \<open>Averages round half to even\<close>

lemma round_half_even_nonneg:
  assumes "0 < d" and "0 \<le> n"
  shows "2 * \<bar>d * round_half_even n d - n\<bar> \<le> d \<and> (2 * \<bar>d * round_half_even n d - n\<bar> = d \<longrightarrow> even (round_half_even n d))"
proof -
  have n: "n = d * (n div d) + n mod d" by simp
  have r: "0 \<le> n mod d" "n mod d < d" using assms by simp_all
  have q: "round_half_even n d =
      (if d < 2 * (n mod d) \<or> (2 * (n mod d) = d \<and> odd (n div d)) then n div d + 1 else n div d)"
    using assms r by (simp add: round_half_even_def quo_nonneg remn_nonneg Let_def)
  have up: "d * (n div d + 1) - n = d - n mod d" and down: "d * (n div d) - n = - (n mod d)"
    using n by (simp_all add: algebra_simps)
  show ?thesis unfolding q using r by (auto simp: up down)
qed

lemma round_half_even_neg: "0 < d \<Longrightarrow> n < 0 \<Longrightarrow> round_half_even n d = - round_half_even (- n) d"
  by (simp add: round_half_even_def quo_neg remn_neg quo_nonneg remn_nonneg Let_def)

lemma round_half_even_correct:
  assumes "0 < d"
  shows "2 * \<bar>d * round_half_even n d - n\<bar> \<le> d"
    and "2 * \<bar>d * round_half_even n d - n\<bar> = d \<Longrightarrow> even (round_half_even n d)"
proof -
  have "\<bar>d * - x - n\<bar> = \<bar>d * x - (- n)\<bar>" for x by simp
  then show "2 * \<bar>d * round_half_even n d - n\<bar> \<le> d" "2 * \<bar>d * round_half_even n d - n\<bar> = d \<Longrightarrow> even (round_half_even n d)"
    using round_half_even_nonneg [OF assms, of n] round_half_even_nonneg [OF assms, of "- n"] round_half_even_neg [OF assms, of n]
    by (cases "0 \<le> n"; simp)+
qed

text \<open>Nine fractional digits: the text is the scaled integer with its point before the ninth digit from the right.\<close>

lemma leftPadNine_digits:
  assumes "0 \<le> n" and "n < decimalBase"
  shows "list_all digit_char (leftPadNine (showInt n))" and "length (leftPadNine (showInt n)) = 9"
    and "digits_value (leftPadNine (showInt n)) = n"
proof -
  have s: "showInt n = show_pos n" using assms by (simp add: showInt_def)
  have len: "length (show_pos n) \<le> 9" using length_show_pos [of n 9] assms by simp
  have "list_all digit_char (replicate k CHR ''0'')" for k by (induction k) (simp_all add: digit_char_def)
  then show "list_all digit_char (leftPadNine (showInt n))"
    using show_pos_digits [of n] assms by (simp add: leftPadNine_def s)
  show "length (leftPadNine (showInt n)) = 9" using len by (simp add: leftPadNine_def s)
  show "digits_value (leftPadNine (showInt n)) = n"
    using assms by (simp add: leftPadNine_def s digits_value_append foldl_show_pos del: foldl_append)
qed

lemma formatScaleNine_exact:
  obtains w frac where "formatScaleNine v = (if v < 0 then ''-'' else []) @ showInt w @ ''.'' @ frac" "0 \<le> w" "length frac = 9" "list_all digit_char frac"
    "\<bar>v\<bar> = w * 1000000000 + digits_value frac"
proof
  let ?f = "\<bar>v\<bar> mod decimalBase"
  have f: "0 \<le> ?f" "?f < decimalBase" by simp_all
  show "formatScaleNine v = (if v < 0 then ''-'' else []) @ showInt (\<bar>v\<bar> div decimalBase) @ ''.'' @ leftPadNine (showInt ?f)" by (simp add: formatScaleNine_def)
  show "0 \<le> \<bar>v\<bar> div decimalBase" by (simp add: pos_imp_zdiv_nonneg_iff)
  show "length (leftPadNine (showInt ?f)) = 9" "list_all digit_char (leftPadNine (showInt ?f))" by (rule leftPadNine_digits [OF f])+
  show "\<bar>v\<bar> = \<bar>v\<bar> div decimalBase * 1000000000 + digits_value (leftPadNine (showInt ?f))" unfolding leftPadNine_digits(3) [OF f] by simp
qed

subsection \<open>Groups\<close>

definition states_of :: "string \<Rightarrow> aggregate_group_state list \<Rightarrow> integer_state list" where
  "states_of k gs = map g_integer (filter (\<lambda>g. g_key g = k) gs)"

definition group_keys :: "aggregate_group_state list \<Rightarrow> string set" where
  "group_keys gs = g_key ` set gs"

lemma append_state_keys:
  "map fst (append_state k st m) = map fst m @ (if k \<in> set (map fst m) then [] else [k])"
  by (induction k st m rule: append_state.induct) (simp, force)

lemma append_state_lookup:
  "map_of (append_state k st m) k' =
   (if k' = k then Some (case map_of m k of None \<Rightarrow> [st] | Some sts \<Rightarrow> sts @ [st]) else map_of m k')"
  by (induction m) auto

definition collected :: "(string \<times> integer_state list) list \<Rightarrow> aggregate_group_state list \<Rightarrow> bool" where
  "collected m gs \<longleftrightarrow> distinct (map fst m) \<and> set (map fst m) = group_keys gs \<and>
     (\<forall>k \<in> group_keys gs. map_of m k = Some (states_of k gs))"

lemma collected_length: "collected m gs \<Longrightarrow> length m = card (group_keys gs)"
  by (metis collected_def distinct_card length_map)

lemma collected_None: "collected m gs \<Longrightarrow> map_of m k = None \<longleftrightarrow> k \<notin> group_keys gs"
  by (auto simp: collected_def map_of_eq_None_iff)

lemma states_of_snoc: "states_of k (gs @ [g]) = states_of k gs @ (if g_key g = k then [g_integer g] else [])"
  by (simp add: states_of_def)

lemma states_of_none: "k \<notin> group_keys gs \<Longrightarrow> states_of k gs = []"
  by (auto simp: states_of_def group_keys_def filter_empty_conv)

lemma collected_append:
  assumes "collected m gs"
  shows "collected (append_state (g_key g) (g_integer g) m) (gs @ [g])"
  unfolding collected_def
proof (intro conjI ballI)
  have keys: "set (map fst m) = group_keys gs" "distinct (map fst m)" using assms by (simp_all add: collected_def)
  show "distinct (map fst (append_state (g_key g) (g_integer g) m))"
    unfolding append_state_keys using keys by auto
  show "set (map fst (append_state (g_key g) (g_integer g) m)) = group_keys (gs @ [g])"
    unfolding append_state_keys using keys(1) by (auto simp: group_keys_def)
  fix k
  assume "k \<in> group_keys (gs @ [g])"
  then have "k \<noteq> g_key g \<Longrightarrow> k \<in> group_keys gs" by (auto simp: group_keys_def)
  then show "map_of (append_state (g_key g) (g_integer g) m) k = Some (states_of k (gs @ [g]))"
    using assms collected_None [OF assms, of "g_key g"] states_of_none [of "g_key g" gs]
    by (cases "map_of m (g_key g)") (auto simp: append_state_lookup states_of_snoc collected_def)
qed

lemma collect_group_eq_Inr:
  "collect_group m g = Inr m' \<longleftrightarrow>
   g_key g \<noteq> [] \<and> \<not> (map_of m (g_key g) = None \<and> MaxAggregateGroups \<le> length m) \<and> m' = append_state (g_key g) (g_integer g) m"
  by (auto simp: collect_group_def)

lemma collect_groups:
  assumes "collected m0 gs0" and "list_all (\<lambda>g. g_key g \<noteq> []) gs0" and "card (group_keys gs0) \<le> MaxAggregateGroups"
  shows "foldR collect_group m0 gs = Inr m \<Longrightarrow>
      collected m (gs0 @ gs) \<and> list_all (\<lambda>g. g_key g \<noteq> []) (gs0 @ gs) \<and> card (group_keys (gs0 @ gs)) \<le> MaxAggregateGroups"
    and "list_all (\<lambda>g. g_key g \<noteq> []) gs \<Longrightarrow> card (group_keys (gs0 @ gs)) \<le> MaxAggregateGroups \<Longrightarrow> \<exists>m. foldR collect_group m0 gs = Inr m"
  using assms
proof (induction gs arbitrary: m0 gs0)
  case (Cons g gs)
  have keys: "group_keys (xs @ [g]) = insert (g_key g) (group_keys xs)" for xs by (simp add: group_keys_def)
  have fin: "finite (group_keys xs)" for xs by (simp add: group_keys_def)
  have sub: "group_keys (xs @ [g]) \<subseteq> group_keys (xs @ g # gs)" for xs by (auto simp: group_keys_def)
  have shift: "xs @ g # gs = (xs @ [g]) @ gs" for xs by simp
  { case 1
    then have c: "collected m0 gs0" "list_all (\<lambda>g. g_key g \<noteq> []) gs0" "card (group_keys gs0) \<le> MaxAggregateGroups" by simp_all
    from 1(1) have ne: "g_key g \<noteq> []" and room: "\<not> (map_of m0 (g_key g) = None \<and> MaxAggregateGroups \<le> length m0)"
      and run: "foldR collect_group (append_state (g_key g) (g_integer g) m0) gs = Inr m"
      by (auto simp: collect_group_eq_Inr bindR_eq_Inr)
    have "card (group_keys (gs0 @ [g])) \<le> MaxAggregateGroups"
      using room c(3) fin [of gs0] unfolding collected_None [OF c(1)] collected_length [OF c(1)]
      by (cases "g_key g \<in> group_keys gs0") (simp_all add: keys insert_absorb)
    from Cons.IH(1) [OF run collected_append [OF c(1)] _ this] show ?case
      using c(2) ne unfolding shift by simp }
  { case 2
    then have c: "collected m0 gs0" "list_all (\<lambda>g. g_key g \<noteq> []) gs0" "card (group_keys gs0) \<le> MaxAggregateGroups" by simp_all
    have ne: "g_key g \<noteq> []" using 2(1) by simp
    have le: "card (group_keys (gs0 @ [g])) \<le> MaxAggregateGroups" using card_mono [OF fin sub, of gs0] 2(2) by simp
    have "\<not> (map_of m0 (g_key g) = None \<and> MaxAggregateGroups \<le> length m0)"
      using le fin [of gs0] unfolding keys collected_None [OF c(1)] collected_length [OF c(1)] by auto
    moreover have "\<exists>m. foldR collect_group (append_state (g_key g) (g_integer g) m0) gs = Inr m"
      using Cons.IH(2) [of "gs0 @ [g]" "append_state (g_key g) (g_integer g) m0"] collected_append [OF c(1), of g] 2 ne le c(2)
      unfolding shift by simp
    ultimately show ?case using ne by (auto simp: collect_group_eq_Inr bindR_eq_Inr) }
qed simp_all

lemma collected_Nil: "collected [] []"
  by (simp add: collected_def group_keys_def)

lemma merged_group_keys:
  assumes "collected byKey gs"
  shows "sortBy (<) (map fst byKey) = sorted_list_of_set (group_keys gs)"
proof -
  have "sortBy (<) (map fst byKey) = sort (map fst byKey)" by (rule sortBy_less_eq_sort)
  also have "\<dots> = sorted_list_of_set (set (map fst byKey))"
    using assms unfolding sorted_list_of_set_sort_remdups by (simp add: collected_def distinct_remdups_id)
  finally show ?thesis using assms by (simp add: collected_def)
qed

subsection \<open>Histogram buckets\<close>

lemma validHistogramInterval_pos: "validHistogramInterval i \<Longrightarrow> 0 < i \<and> i \<le> 86400000000"
  by (auto simp: validHistogramInterval_def)

lemma floorMultiple_eq:
  assumes "0 < i" and "int64 v" and "int64 i" and "minInt64 + i \<le> v"
  shows "floorMultiple v i = i * (v div i)"
proof -
  have d: "v = i * (v div i) + v mod i" "0 \<le> v mod i" "v mod i < i" using assms by simp_all
  have q: "(if remn v i < 0 then quo v i - 1 else quo v i) = v div i"
  proof (cases "0 \<le> v")
    case True
    then show ?thesis using assms d by (simp add: quo_nonneg remn_nonneg)
  next
    case False
    have "0 \<le> - v mod i" using assms(1) by simp
    with False show ?thesis
      using assms d(2,3) by (auto simp: quo_neg remn_neg zdiv_zminus1_eq_if zmod_zminus1_eq_if split: if_splits)
  qed
  have "1 * \<bar>v div i\<bar> \<le> i * \<bar>v div i\<bar>" using assms(1) by (intro mult_right_mono) simp_all
  also have "\<dots> = \<bar>i * (v div i)\<bar>" using assms(1) by (simp add: abs_mult)
  finally have small: "\<bar>v div i\<bar> \<le> \<bar>i * (v div i)\<bar>" by simp
  have prod: "minInt64 < i * (v div i)" "i * (v div i) \<le> maxInt64"
    using d assms(2,4) unfolding int64_def by linarith+
  then have "(if remn v i < 0 then sub64 (quo v i) 1 else quo v i) = v div i"
  proof (cases "remn v i < 0")
    case True
    then have "quo v i - 1 = v div i" using q by simp
    moreover have "int64 (v div i)" unfolding int64_def using small prod by linarith
    ultimately show ?thesis using True by (simp add: sub64_id)
  qed (use q in simp)
  then show ?thesis using prod by (simp add: floorMultiple_def Let_def mul64_id int64_def mult.commute)
qed

lemma bucket_loop_result:
  assumes "0 < i" and "b + int n * i \<le> maxInt64" and "minInt64 \<le> b"
  shows "case bucket_loop n b finish i of
      Inl e \<Rightarrow> e = QueryLimit \<and> b + int n * i < finish
    | Inr bs \<Rightarrow> length bs \<le> n \<and> bs = map (\<lambda>j. b + int j * i) [0..<length bs] \<and>
        finish \<le> b + int (length bs) * i \<and> list_all (\<lambda>x. x < finish) bs"
  using assms(2,3)
proof (induction n arbitrary: b)
  case (Suc n)
  show ?case
  proof (cases "b < finish")
    case True
    have "0 \<le> int n * i" using assms(1) by simp
    moreover have "b + i + int n * i \<le> maxInt64" using Suc.prems by (simp add: algebra_simps)
    ultimately have next_b: "b + i \<le> maxInt64" "minInt64 \<le> b + i" "b + i + int n * i \<le> maxInt64"
      using assms(1) Suc.prems by linarith+
    then have step: "bucket_loop (Suc n) b finish i = bindR (bucket_loop n (b + i) finish i) (\<lambda>bs. Inr (b # bs))"
      using True assms(1) Suc.prems by (simp add: add64_id sub64_id int64_def)
    have shift: "map (\<lambda>j. b + int j * i) [0..<Suc k] = b # map (\<lambda>j. b + i + int j * i) [0..<k]" for k
      by (simp add: upt_conv_Cons map_Suc_upt [symmetric] comp_def algebra_simps del: upt_Suc)
    show ?thesis
    proof (cases "bucket_loop n (b + i) finish i")
      case (Inl e)
      with Suc.IH [OF next_b(3,2)] show ?thesis unfolding step by (simp add: algebra_simps)
    next
      case (Inr bs)
      have p1: "b # bs = map (\<lambda>j. b + int j * i) [0..<length (b # bs)]"
        using Inr Suc.IH [OF next_b(3,2)] shift [of "length bs"] by (simp del: upt_Suc)
      have p2: "list_all (\<lambda>x. x < finish) (b # bs)" "length (b # bs) \<le> Suc n" "finish \<le> b + int (length (b # bs)) * i"
        using Inr Suc.IH [OF next_b(3,2)] True by (simp_all add: algebra_simps)
      have "bucket_loop (Suc n) b finish i = Inr (b # bs)" unfolding step Inr by simp
      then show ?thesis by (simp only: sum.case) (intro conjI p1 p2)
    qed
  qed simp
qed simp

lemma bucket_index:
  fixes f j i t :: int
  assumes "0 < i"
  shows "f + j * i \<le> t \<and> t < f + j * i + i \<longleftrightarrow> j = (t - f) div i"
proof -
  have "i * ((t - f) div i) + (t - f) mod i = t - f" "0 \<le> (t - f) mod i" "(t - f) mod i < i" using assms by simp_all
  moreover have "f + j * i \<le> t \<Longrightarrow> t < f + j * i + i \<Longrightarrow> (t - f) div i = j"
    by (rule int_div_pos_eq [of "t - f" i j "t - f - i * j"]) (simp_all add: algebra_simps)
  ultimately show ?thesis by (auto simp only: mult.commute [of i])
qed

lemma sorted_progression: "0 < i \<Longrightarrow> sorted_wrt (<) (map (\<lambda>j. f + int j * i) [0..<n])" for f i :: int
  unfolding sorted_wrt_map by (rule sorted_wrt_mono_rel [OF _ sorted_wrt_upt]) simp

subsection \<open>Properties\<close>

lemma decimal_limbs_exact:
  assumes "bigSetString v = Some n" and "\<not> has_prefix v ''+''" and "\<bar>n\<bar> \<le> decimalLimit"
  shows "\<exists>ls. decimalLimbs v = Inr ls \<and> length ls = IntegerLimbCount \<and>
    integerStateValue \<lparr>i_limbs = ls, i_count = c, i_excluded = e\<rparr> = Inr n"
  using decimalLimbs_value [OF assms] by (auto simp: integerStateValue_def)

text \<open>
  C36: merging partial states adds their values exactly, whatever the number of workers and
  however large the intermediate sums, provided the row counts fit; the merged state is well
  formed and its counts are the sums of the counts.
\<close>

theorem merge_integer_states_exact:
  assumes "list_all state_shape states" and "mapR integerStateValue states = Inr vs"
    and "list_all (\<lambda>st. 0 \<le> i_count st \<and> 0 \<le> i_excluded st) states"
    and "sum_list (map i_count states) \<le> maxInt64" and "sum_list (map i_excluded states) \<le> maxInt64"
  shows "\<exists>r. mergeIntegerStates states = Inr r \<and> integerStateValue r = Inr (sum_list vs) \<and>
    length (i_limbs r) = IntegerLimbCount \<and>
    i_count r = sum_list (map i_count states) \<and> i_excluded r = sum_list (map i_excluded states)"
proof -
  let ?z = "\<lparr>m_limbs = replicate IntegerLimbCount 0, m_count = 0, m_excluded = 0\<rparr>"
  have "merged_ok ?z" by (simp add: merged_ok_def)
  from foldR_merge_step [OF assms(1-3) this] assms(4,5) obtain ms where
    ms: "foldR merge_step ?z states = Inr ms" "merged_ok ms" "limbs_value 1 (m_limbs ms) = sum_list vs"
    "m_count ms = sum_list (map i_count states)" "m_excluded ms = sum_list (map i_excluded states)"
    by auto
  then show ?thesis
    unfolding mergeIntegerStates_def by (simp add: integerStateValue_def merged_ok_def)
qed

theorem merge_integer_states_exact_witness:
  "let a = \<lparr>i_limbs = [''999999999'', ''0'', ''0'', ''0'', ''0''], i_count = 1, i_excluded = 0\<rparr>;
       b = \<lparr>i_limbs = [''-1'', ''-3'', ''0'', ''0'', ''0''], i_count = 2, i_excluded = 1\<rparr>
   in \<exists>r. mergeIntegerStates [a, b] = Inr r \<and> integerStateValue r = Inr (999999999 - 3000000001) \<and> i_count r = 3"
proof -
  let ?a = "\<lparr>i_limbs = [''999999999'', ''0'', ''0'', ''0'', ''0''], i_count = 1, i_excluded = 0\<rparr>"
  let ?b = "\<lparr>i_limbs = [''-1'', ''-3'', ''0'', ''0'', ''0''], i_count = 2, i_excluded = 1\<rparr>"
  have v: "mapR integerStateValue [?a, ?b] = Inr [999999999, - 3000000001]" by code_simp
  have "list_all state_shape [?a, ?b]" by (simp add: state_shape_def int64_def)
  from merge_integer_states_exact [OF this v] show ?thesis unfolding Let_def by force
qed

text \<open>
  C37: an average is the exact rational mean rounded half to even at nine decimals. The printed text is
  a minus sign for a negative value, the integer part without leading zeros, a point and exactly nine
  digits; the number it denotes, in units of \<open>10 ^ -9\<close>, is an integer \<open>q\<close> that differs from
  \<open>10 ^ 9 * sum / count\<close> by at most one half, and a tie gives an even \<open>q\<close>.
\<close>

theorem finalize_average_half_even:
  assumes "integerStateValue st = Inr n" and "0 < i_count st"
  shows "\<exists>q w frac. finalizeIntegerAverage st = Inr (Some ((if q < 0 then ''-'' else []) @ showInt w @ ''.'' @ frac)) \<and>
    0 \<le> w \<and> length frac = 9 \<and> list_all digit_char frac \<and> \<bar>q\<bar> = w * 1000000000 + digits_value frac \<and>
    2 * \<bar>i_count st * q - n * 1000000000\<bar> \<le> i_count st \<and>
    (2 * \<bar>i_count st * q - n * 1000000000\<bar> = i_count st \<longrightarrow> even q)"
proof -
  let ?q = "round_half_even (n * decimalBase) (i_count st)"
  obtain w frac where f: "formatScaleNine ?q = (if ?q < 0 then ''-'' else []) @ showInt w @ ''.'' @ frac" "0 \<le> w" "length frac = 9" "list_all digit_char frac"
    "\<bar>?q\<bar> = w * 1000000000 + digits_value frac" by (rule formatScaleNine_exact)
  have "finalizeIntegerAverage st = Inr (Some (formatScaleNine ?q))" using assms by (simp add: finalizeIntegerAverage_def)
  then show ?thesis using f round_half_even_correct [OF assms(2), of "n * decimalBase"]
    by (intro exI [of _ ?q] exI [of _ w] exI [of _ frac]) simp
qed

theorem finalize_average_half_even_witness:
  "let st = \<lparr>i_limbs = [''-5'', ''0'', ''0'', ''0'', ''0''], i_count = 3, i_excluded = 0\<rparr>
   in finalizeIntegerAverage st = Inr (Some ''-1.666666667'') \<and>
      (\<exists>q w frac. ''-1.666666667'' = (if q < 0 then ''-'' else []) @ showInt w @ ''.'' @ frac \<and> length frac = 9 \<and> \<bar>q\<bar> = w * 1000000000 + digits_value frac \<and>
        2 * \<bar>3 * q + 5000000000\<bar> \<le> 3)"
proof -
  let ?st = "\<lparr>i_limbs = [''-5'', ''0'', ''0'', ''0'', ''0''], i_count = 3, i_excluded = 0\<rparr>"
  have v: "integerStateValue ?st = Inr (- 5)" by code_simp
  have a: "finalizeIntegerAverage ?st = Inr (Some ''-1.666666667'')" by code_simp
  obtain q w frac where "finalizeIntegerAverage ?st = Inr (Some ((if q < 0 then ''-'' else []) @ showInt w @ ''.'' @ frac))" "length frac = 9"
    "\<bar>q\<bar> = w * 1000000000 + digits_value frac" "2 * \<bar>3 * q - (- 5) * 1000000000\<bar> \<le> 3"
    using finalize_average_half_even [OF v] by auto
  then show ?thesis unfolding Let_def a by (intro conjI refl exI [of _ q] exI [of _ w] exI [of _ frac]) simp_all
qed

text \<open>
  C35: merging the groups of all partitions succeeds exactly when no key is empty, at most
  20,000 distinct keys occur and every group's states merge; the result has one group per
  distinct key, in increasing byte order of the keys, holding the merge of that key's states
  of all partitions.
\<close>

theorem merge_groups_by_key:
  "mergeAggregateGroups parts = Inr out \<longleftrightarrow>
   list_all (\<lambda>g. g_key g \<noteq> []) (concat parts) \<and> card (group_keys (concat parts)) \<le> MaxAggregateGroups \<and>
   list_all2 (\<lambda>k r. mergeIntegerStates (states_of k (concat parts)) = Inr (g_integer r) \<and> g_key r = k)
     (sorted_list_of_set (group_keys (concat parts))) out"
proof -
  let ?gs = "concat parts" and ?f = "\<lambda>m k. bindR (mergeIntegerStates (the (map_of m k))) (\<lambda>merged. Inr \<lparr>g_key = k, g_integer = merged\<rparr>)"
  have fin: "finite (group_keys ?gs)" by (simp add: group_keys_def)
  have each: "mapR (?f m) (sortBy (<) (map fst m)) = Inr out \<longleftrightarrow>
      list_all2 (\<lambda>k r. mergeIntegerStates (states_of k ?gs) = Inr (g_integer r) \<and> g_key r = k) (sorted_list_of_set (group_keys ?gs)) out"
    if "collected m ?gs" for m
    unfolding mapR_eq_Inr merged_group_keys [OF that]
  proof (rule list.rel_cong [OF refl refl])
    fix k r
    assume "k \<in> set (sorted_list_of_set (group_keys ?gs))"
    then have "map_of m k = Some (states_of k ?gs)" using that fin by (simp add: collected_def)
    then show "?f m k = Inr r \<longleftrightarrow> mergeIntegerStates (states_of k ?gs) = Inr (g_integer r) \<and> g_key r = k"
      by (cases r) (auto simp: bindR_eq_Inr)
  qed
  note collect = collect_groups [OF collected_Nil, of ?gs, simplified, unfolded group_keys_def [of "[]"], simplified]
  show ?thesis
    unfolding mergeAggregateGroups_def foldR_concat bindR_eq_Inr
    using collect each by blast
qed

text \<open>
  C38: the histogram buckets of a range are aligned multiples of the interval, at most 2,000
  of them, in increasing order; every instant of the range lies in exactly one bucket, and no
  bucket starts at or after the end of the range.
\<close>

theorem histogram_buckets_partition:
  assumes "int64 start" and "int64 finish" and "minInt64 + interval \<le> start"
    and "histogramBucketStarts start finish interval = Inr bs"
  shows "length bs \<le> 2000 \<and> sorted_wrt (<) bs \<and> list_all (\<lambda>b. interval dvd b \<and> b < finish) bs \<and>
    (\<forall>t. start \<le> t \<and> t < finish \<longrightarrow> (\<exists>!b. b \<in> set bs \<and> b \<le> t \<and> t < b + interval))"
proof -
  have v: "validHistogramInterval interval" "start < finish"
    using assms(4) by (auto simp: histogramBucketStarts_def split: if_splits)
  note i = validHistogramInterval_pos [OF v(1)]
  define f where "f = interval * (start div interval)"
  have i64: "int64 interval" using i by (simp add: int64_def)
  have first: "floorMultiple start interval = f"
    using floorMultiple_eq [OF _ assms(1) i64 assms(3)] i by (simp add: f_def)
  have mod: "start = f + start mod interval" "0 \<le> start mod interval" "start mod interval < interval"
    using i by (simp_all add: f_def)
  have "mul64 interval 2000 = interval * 2000" "sub64 maxInt64 (interval * 2000) = maxInt64 - interval * 2000"
    using i by (simp_all add: mul64_id sub64_id int64_def)
  then have loop: "bucket_loop 2000 f finish interval = Inr bs" and room: "f + int 2000 * interval \<le> maxInt64"
    using assms(4) v first by (auto simp: histogramBucketStarts_def split: if_splits)
  have "minInt64 \<le> f" using mod assms(3) by linarith
  from bucket_loop_result [OF conjunct1 [OF i] room this, of finish] loop have
    len: "length bs \<le> 2000" and bs: "bs = map (\<lambda>j. f + int j * interval) [0..<length bs]"
    and cover: "finish \<le> f + int (length bs) * interval" and lt: "list_all (\<lambda>x. x < finish) bs" by simp_all
  have mem: "b \<in> set bs \<longleftrightarrow> (\<exists>j < length bs. b = f + int j * interval)" for b
    by (subst bs) auto
  have "sorted_wrt (<) bs"
    using sorted_progression [OF conjunct1 [OF i], of f "length bs"] bs by simp
  moreover have "list_all (\<lambda>b. interval dvd b \<and> b < finish) bs"
    using lt mem by (auto simp: list_all_iff f_def)
  moreover have "\<exists>!b. b \<in> set bs \<and> b \<le> t \<and> t < b + interval" if t: "start \<le> t" "t < finish" for t
  proof -
    let ?j = "(t - f) div interval"
    have at: "f + ?j * interval \<le> t" "t < f + ?j * interval + interval"
      using bucket_index [OF conjunct1 [OF i], of f ?j t] by simp_all
    have "f \<le> t" using t mod by linarith
    then have "0 \<le> ?j" using i by (simp add: pos_imp_zdiv_nonneg_iff)
    moreover have "?j < int (length bs)"
    proof (rule ccontr)
      assume "\<not> ?j < int (length bs)"
      then have "int (length bs) * interval \<le> ?j * interval" using i by (intro mult_right_mono) simp_all
      with at t cover show False by linarith
    qed
    ultimately have "f + ?j * interval \<in> set bs" unfolding mem by (intro exI [of _ "nat ?j"]) simp
    moreover have "b = f + ?j * interval" if "b \<in> set bs \<and> b \<le> t \<and> t < b + interval" for b
    proof -
      from that mem obtain j where "b = f + int j * interval" by blast
      with that bucket_index [OF conjunct1 [OF i], of f "int j" t] show ?thesis by simp
    qed
    ultimately show ?thesis using at by blast
  qed
  ultimately show ?thesis using len by blast
qed

theorem histogram_buckets_partition_witness:
  "histogramBucketStarts (-1500000) 2500000 1000000 = Inr [-2000000, -1000000, 0, 1000000, 2000000] \<and>
   length [-2000000, -1000000, 0, 1000000, 2000000 :: int] \<le> 2000"
proof -
  have h: "histogramBucketStarts (-1500000) 2500000 1000000 = Inr [-2000000, -1000000, 0, 1000000, 2000000]"
    by code_simp
  have "int64 (-1500000)" "int64 2500000" "minInt64 + 1000000 \<le> -1500000" by (simp_all add: int64_def)
  from conjunct1 [OF histogram_buckets_partition [OF this h]] h show ?thesis by blast
qed

end
