(* ===== verification/Heap.thy ===== *)
theory Heap
  imports Prelude
begin

section \<open>container/heap\<close>

text \<open>
  The part of Go's \<open>container/heap\<close> that the aggregate finalizer uses, on the slice inside
  the heap: \<open>up\<close>, \<open>down\<close>, \<open>Push\<close> and \<open>Pop\<close>, written as the library writes them. The lemmas
  are proved once for every comparison that is a strict weak order on the elements.
\<close>

definition swap :: "'a list \<Rightarrow> nat \<Rightarrow> nat \<Rightarrow> 'a list" where
  "swap xs i j = xs[i := xs ! j, j := xs ! i]"

definition parent :: "nat \<Rightarrow> nat" where
  "parent j = (j - 1) div 2"

lemma parent_less [simp]: "0 < j \<Longrightarrow> parent j < j"
  by (simp add: parent_def)

lemma parent_neq [simp]: "0 < j \<Longrightarrow> parent j \<noteq> j" "0 < j \<Longrightarrow> j \<noteq> parent j"
  using parent_less [of j] by linarith+

lemma parent_not_gr [simp]: "\<not> j < parent j"
  by (simp add: parent_def)

lemma parent_bound [simp]: "j < n \<Longrightarrow> parent j < n"
  by (simp add: parent_def)

lemma parent_0 [simp]: "parent 0 = 0"
  by (simp add: parent_def)

function heap_up :: "('a \<Rightarrow> 'a \<Rightarrow> bool) \<Rightarrow> nat \<Rightarrow> 'a list \<Rightarrow> 'a list" where
  "heap_up lt j xs =
    (let i = parent j in if i = j \<or> \<not> lt (xs ! j) (xs ! i) then xs else heap_up lt i (swap xs i j))"
  by pat_completeness auto
termination
proof (relation "measure (\<lambda>(_, j, _). j)", goal_cases)
  case (2 lt j xs i)
  then have "0 < j" by (cases j) simp_all
  with 2 show ?case by simp
qed simp

function heap_down :: "('a \<Rightarrow> 'a \<Rightarrow> bool) \<Rightarrow> nat \<Rightarrow> nat \<Rightarrow> 'a list \<Rightarrow> 'a list" where
  "heap_down lt i n xs =
    (let j1 = 2 * i + 1 in
     if n \<le> j1 then xs
     else let j2 = j1 + 1; j = (if j2 < n \<and> lt (xs ! j2) (xs ! j1) then j2 else j1)
          in if \<not> lt (xs ! j) (xs ! i) then xs else heap_down lt j n (swap xs i j))"
  by pat_completeness auto
termination
  by (relation "measure (\<lambda>(_, i, n, _). n - i)") auto

declare heap_up.simps [simp del] heap_down.simps [simp del]

definition heap_push :: "('a \<Rightarrow> 'a \<Rightarrow> bool) \<Rightarrow> 'a list \<Rightarrow> 'a \<Rightarrow> 'a list" where
  "heap_push lt xs x = heap_up lt (length xs) (xs @ [x])"

definition heap_pop :: "('a \<Rightarrow> 'a \<Rightarrow> bool) \<Rightarrow> 'a list \<Rightarrow> 'a \<times> 'a list" where
  "heap_pop lt xs =
    (let n = length xs - 1; ys = heap_down lt 0 n (swap xs 0 n) in (ys ! n, take n ys))"

subsection \<open>Elements are only permuted\<close>

lemma length_swap [simp]: "length (swap xs i j) = length xs"
  by (simp add: swap_def)

lemma mset_swap [simp]: "i < length xs \<Longrightarrow> j < length xs \<Longrightarrow> mset (swap xs i j) = mset xs"
  by (simp add: swap_def mset_swap)

lemma set_swap [simp]: "i < length xs \<Longrightarrow> j < length xs \<Longrightarrow> set (swap xs i j) = set xs"
  by (metis mset_swap set_mset_mset)

lemma swap_nth: "i < length xs \<Longrightarrow> j < length xs \<Longrightarrow> k < length xs \<Longrightarrow>
    swap xs i j ! k = (if k = i then xs ! j else if k = j then xs ! i else xs ! k)"
  by (auto simp: swap_def nth_list_update)

lemma mset_heap_up: "j < length xs \<Longrightarrow> mset (heap_up lt j xs) = mset xs"
proof (induction lt j xs rule: heap_up.induct)
  case (1 lt j xs)
  have p: "parent j < length xs" using 1(2) by (cases "j = 0") (auto intro: less_trans)
  show ?case
    using 1 p by (simp add: heap_up.simps [of lt j xs] Let_def)
qed

lemma length_heap_up: "j < length xs \<Longrightarrow> length (heap_up lt j xs) = length xs"
  by (metis mset_heap_up size_mset)

lemma heap_down_keeps:
  "n \<le> length xs \<Longrightarrow> i < n \<Longrightarrow>
   mset (heap_down lt i n xs) = mset xs \<and> (\<forall>k. n \<le> k \<and> k < length xs \<longrightarrow> heap_down lt i n xs ! k = xs ! k)"
proof (induction lt i n xs rule: heap_down.induct)
  case (1 lt i n xs)
  show ?case
    using 1 by (simp add: heap_down.simps [of lt i n xs] Let_def swap_nth)
qed

subsection \<open>The heap order\<close>

definition is_heap :: "('a \<Rightarrow> 'a \<Rightarrow> bool) \<Rightarrow> nat \<Rightarrow> 'a list \<Rightarrow> bool" where
  "is_heap lt n xs \<longleftrightarrow> (\<forall>k. 0 < k \<and> k < n \<longrightarrow> \<not> lt (xs ! k) (xs ! parent k))"

text \<open>The order holds except between \<open>j\<close> and its parent, or between \<open>i\<close> and its children.\<close>

definition up_inv :: "('a \<Rightarrow> 'a \<Rightarrow> bool) \<Rightarrow> nat \<Rightarrow> 'a list \<Rightarrow> bool" where
  "up_inv lt j xs \<longleftrightarrow>
    (\<forall>k. 0 < k \<and> k < length xs \<and> k \<noteq> j \<longrightarrow> \<not> lt (xs ! k) (xs ! parent k)) \<and>
    (\<forall>k. 0 < k \<and> k < length xs \<and> parent k = j \<and> 0 < j \<longrightarrow> \<not> lt (xs ! k) (xs ! parent j))"

definition down_inv :: "('a \<Rightarrow> 'a \<Rightarrow> bool) \<Rightarrow> nat \<Rightarrow> nat \<Rightarrow> 'a list \<Rightarrow> bool" where
  "down_inv lt i n xs \<longleftrightarrow>
    (\<forall>k. 0 < k \<and> k < n \<and> parent k \<noteq> i \<longrightarrow> \<not> lt (xs ! k) (xs ! parent k)) \<and>
    (\<forall>k. 0 < k \<and> k < n \<and> parent k = i \<and> 0 < i \<longrightarrow> \<not> lt (xs ! k) (xs ! parent i))"

lemma parent_children: "0 < k \<Longrightarrow> parent k = i \<longleftrightarrow> k = 2 * i + 1 \<or> k = 2 * i + 2"
  unfolding parent_def by presburger

context strict_weak_order_on
begin

lemma up_inv_step:
  assumes A: "set xs \<subseteq> A" and j: "0 < j" "j < length xs" and inv: "up_inv lt j xs"
    and less: "lt (xs ! j) (xs ! parent j)"
  shows "up_inv lt (parent j) (swap xs (parent j) j)"
proof -
  let ?i = "parent j" and ?ys = "swap xs (parent j) j"
  have i: "?i < j" "?i < length xs" using j by (auto intro: less_trans)
  have mem: "k < length xs \<Longrightarrow> xs ! k \<in> A" for k using A by auto
  have par: "0 < k \<Longrightarrow> k < length xs \<Longrightarrow> parent k < length xs" for k by (auto intro: less_trans parent_less)
  have nth: "k < length xs \<Longrightarrow> ?ys ! k = (if k = ?i then xs ! j else if k = j then xs ! ?i else xs ! k)" for k
    using i j by (simp add: swap_nth)
  have heap: "\<not> lt (xs ! k) (xs ! parent k)" if "0 < k" "k < length xs" "k \<noteq> j" for k
    using inv that by (simp add: up_inv_def)
  have grand: "\<not> lt (xs ! k) (xs ! ?i)" if "0 < k" "k < length xs" "parent k = j" for k
    using inv that j by (simp add: up_inv_def)
  have "\<not> lt (?ys ! k) (?ys ! parent k)" if k: "0 < k" "k < length xs" "k \<noteq> ?i" for k
  proof (cases "k = j")
    case True
    have "j \<noteq> parent j" using i by simp
    with True show ?thesis using less asym_on [of "xs ! j" "xs ! ?i"] mem i j by (simp add: nth)
  next
    case False
    consider "parent k = ?i" | "parent k = j" | "parent k \<noteq> ?i" "parent k \<noteq> j" by blast
    then show ?thesis
    proof cases
      case 1
      have "\<not> lt (xs ! k) (xs ! j)"
        using heap [OF k(1,2) False] less trans_on [of "xs ! k" "xs ! j" "xs ! ?i"] mem i j k 1 by auto
      then show ?thesis using False k i j 1 by (simp add: nth)
    next
      case 2
      then show ?thesis using grand [OF k(1,2) 2] False k i j by (simp add: nth)
    next
      case 3
      then show ?thesis using heap [OF k(1,2) False] False k par [OF k(1,2)] by (simp add: nth)
    qed
  qed
  moreover have "\<not> lt (?ys ! k) (?ys ! parent ?i)" if k: "0 < k" "k < length xs" "parent k = ?i" "0 < ?i" for k
  proof -
    have pi: "parent ?i < ?i" "parent ?i < length xs" using k i by (auto intro: less_trans)
    have up: "\<not> lt (xs ! ?i) (xs ! parent ?i)" using heap [OF k(4) i(2)] i by simp
    show ?thesis
    proof (cases "k = j")
      case True
      have "?ys ! parent ?i = xs ! parent ?i" using nth [OF pi(2)] pi i by simp
      moreover have "?ys ! j = xs ! ?i" using nth [OF j(2)] i by simp
      ultimately show ?thesis using up True by simp
    next
      case False
      have "k \<noteq> ?i" using k by (metis less_irrefl parent_less)
      moreover have "\<not> lt (xs ! k) (xs ! parent ?i)"
        using incomp_trans_on [of "xs ! k" "xs ! ?i" "xs ! parent ?i"] heap [OF k(1,2) False] k up mem i pi by simp
      ultimately show ?thesis using False k pi i by (simp add: nth)
    qed
  qed
  ultimately show ?thesis by (simp add: up_inv_def)
qed

lemma heap_up_heap:
  "set xs \<subseteq> A \<Longrightarrow> j < length xs \<Longrightarrow> up_inv lt j xs \<Longrightarrow> is_heap lt (length xs) (heap_up lt j xs)"
proof (induction j arbitrary: xs rule: less_induct)
  case (less j)
  show ?case
  proof (cases "parent j = j \<or> \<not> lt (xs ! j) (xs ! parent j)")
    case True
    have "\<not> lt (xs ! j) (xs ! parent j)" if "0 < j" using True that by (metis less_irrefl parent_less)
    with less.prems(3) have "is_heap lt (length xs) xs" by (auto simp: is_heap_def up_inv_def)
    with True show ?thesis by (simp add: heap_up.simps [of lt j xs] Let_def)
  next
    case False
    then have j: "0 < j" by (cases "j = 0") auto
    then have i: "parent j < j" "parent j < length xs" using less.prems by (auto intro: less_trans)
    have "is_heap lt (length (swap xs (parent j) j)) (heap_up lt (parent j) (swap xs (parent j) j))"
      using less.IH [OF i(1), of "swap xs (parent j) j"] up_inv_step [OF less.prems(1) j less.prems(2,3)] less.prems False i
      by simp
    with False show ?thesis by (simp add: heap_up.simps [of lt j xs] Let_def)
  qed
qed

lemma down_inv_step:
  assumes A: "set xs \<subseteq> A" and n: "n \<le> length xs" and inv: "down_inv lt i n xs"
    and j: "parent j = i" "0 < j" "j < n"
    and least: "\<And>k. 0 < k \<Longrightarrow> k < n \<Longrightarrow> parent k = i \<Longrightarrow> \<not> lt (xs ! k) (xs ! j)"
    and less: "lt (xs ! j) (xs ! i)"
  shows "down_inv lt j n (swap xs i j)"
proof -
  let ?ys = "swap xs i j"
  have i: "i < j" "i < n" using j by auto
  have mem: "k < n \<Longrightarrow> xs ! k \<in> A" for k using A n by auto
  have nth: "k < n \<Longrightarrow> ?ys ! k = (if k = i then xs ! j else if k = j then xs ! i else xs ! k)" for k
    using i j n by (simp add: swap_nth)
  have heap: "\<not> lt (xs ! k) (xs ! parent k)" if "0 < k" "k < n" "parent k \<noteq> i" for k
    using inv that by (simp add: down_inv_def)
  have grand: "\<not> lt (xs ! k) (xs ! parent i)" if "0 < k" "k < n" "parent k = i" "0 < i" for k
    using inv that by (simp add: down_inv_def)
  have "\<not> lt (?ys ! k) (?ys ! parent k)" if k: "0 < k" "k < n" "parent k \<noteq> j" for k
  proof (cases "parent k = i")
    case True
    have ki: "k \<noteq> i" using True k by (metis less_irrefl parent_less)
    show ?thesis
    proof (cases "k = j")
      case True
      then show ?thesis using less asym_on [of "xs ! j" "xs ! i"] mem i j by (simp add: nth)
    next
      case False
      then show ?thesis using least [OF k(1,2) True] True k ki i by (simp add: nth)
    qed
  next
    case False
    have kj: "k \<noteq> j" using False j by auto
    show ?thesis
    proof (cases "k = i")
      case True
      then have "parent i \<noteq> i" "parent i \<noteq> j" "0 < i" "parent i < n" using k i parent_less [of i] by auto
      then show ?thesis using grand [OF j(2,3,1)] True i j(3) unfolding True by (simp add: nth)
    next
      case ki: False
      then show ?thesis using heap [OF k(1,2) False] False k kj by (simp add: nth)
    qed
  qed
  moreover have "\<not> lt (?ys ! k) (?ys ! parent j)" if k: "0 < k" "k < n" "parent k = j" for k
  proof -
    have "k \<noteq> i" "k \<noteq> j" using k i parent_less [OF k(1)] by auto
    then show ?thesis using heap [OF k(1,2)] k i j by (simp add: nth)
  qed
  ultimately show ?thesis by (simp add: down_inv_def)
qed

lemma heap_down_heap:
  "set xs \<subseteq> A \<Longrightarrow> n \<le> length xs \<Longrightarrow> i < n \<Longrightarrow> down_inv lt i n xs \<Longrightarrow> is_heap lt n (heap_down lt i n xs)"
proof (induction "n - i" arbitrary: i xs rule: less_induct)
  case less
  let ?j1 = "2 * i + 1"
  define j where "j = (if ?j1 + 1 < n \<and> lt (xs ! (?j1 + 1)) (xs ! ?j1) then ?j1 + 1 else ?j1)"
  have unfold: "heap_down lt i n xs =
      (if n \<le> ?j1 then xs else if \<not> lt (xs ! j) (xs ! i) then xs else heap_down lt j n (swap xs i j))"
    by (simp add: heap_down.simps [of lt i n xs] j_def Let_def)
  show ?case
  proof (cases "n \<le> ?j1")
    case True
    then have "parent k \<noteq> i" if "0 < k" "k < n" for k using that by (simp add: parent_children)
    with less.prems(4) True show ?thesis by (simp add: unfold is_heap_def down_inv_def)
  next
    case False
    have j: "parent j = i" "0 < j" "j < n" "i < j" using False by (auto simp: j_def parent_def)
    have mem: "k < n \<Longrightarrow> xs ! k \<in> A" for k using less.prems by auto
    have least: "\<not> lt (xs ! k) (xs ! j)" if "0 < k" "k < n" "parent k = i" for k
    proof -
      have "k = ?j1 \<or> k = ?j1 + 1" using that by (simp add: parent_children)
      then show ?thesis
        using irrefl_on [OF mem [OF that(2)]] asym_on [OF mem [of "?j1 + 1"] mem [of ?j1]] that(2) False
        by (elim disjE; simp only: j_def split: if_split) auto
    qed
    show ?thesis
    proof (cases "lt (xs ! j) (xs ! i)")
      case True
      have down: "down_inv lt j n (swap xs i j)"
        by (rule down_inv_step [OF less.prems(1,2,4) j(1-3) least True])
      have swapped: "set (swap xs i j) \<subseteq> A" "n \<le> length (swap xs i j)" using less.prems j by simp_all
      have "n - j < n - i" using j less.prems by simp
      from less.hyps [OF this swapped j(3) down] show ?thesis using True False by (simp add: unfold)
    next
      case stop: False
      have "\<not> lt (xs ! k) (xs ! i)" if "0 < k" "k < n" "parent k = i" for k
        using incomp_trans_on [of "xs ! k" "xs ! j" "xs ! i"] least [OF that] stop mem that j less.prems by simp
      then show ?thesis using less.prems(4) stop by (auto simp: unfold is_heap_def down_inv_def)
    qed
  qed
qed

lemma heap_root: "set xs \<subseteq> A \<Longrightarrow> is_heap lt n xs \<Longrightarrow> n \<le> length xs \<Longrightarrow> k < n \<Longrightarrow> \<not> lt (xs ! k) (xs ! 0)"
proof (induction k rule: less_induct)
  case (less k)
  show ?case
  proof (cases "k = 0")
    case True
    moreover have "xs ! 0 \<in> A" using less.prems True by (auto intro!: subsetD [OF less.prems(1)] nth_mem)
    ultimately show ?thesis using irrefl_on by simp
  next
    case False
    then have "\<not> lt (xs ! parent k) (xs ! 0)" using less by simp
    moreover have "\<not> lt (xs ! k) (xs ! parent k)" using less.prems False by (simp add: is_heap_def)
    moreover have "xs ! k \<in> A" "xs ! parent k \<in> A" "xs ! 0 \<in> A"
      using less.prems parent_bound [of k n] by (auto dest!: subsetD intro!: nth_mem)
    ultimately show ?thesis using incomp_trans_on [of "xs ! k" "xs ! parent k" "xs ! 0"] by simp
  qed
qed

lemma heap_push_heap:
  assumes "set xs \<subseteq> A" and "x \<in> A" and "is_heap lt (length xs) xs"
  shows "is_heap lt (length (heap_push lt xs x)) (heap_push lt xs x)" and "mset (heap_push lt xs x) = add_mset x (mset xs)"
proof -
  have "up_inv lt (length xs) (xs @ [x])"
    using assms(3) by (auto simp: up_inv_def is_heap_def nth_append less_Suc_eq parent_children)
  then show "is_heap lt (length (heap_push lt xs x)) (heap_push lt xs x)" "mset (heap_push lt xs x) = add_mset x (mset xs)"
    using heap_up_heap [of "xs @ [x]" "length xs"] assms
    by (simp_all add: heap_push_def length_heap_up mset_heap_up)
qed

lemma heap_pop_heap:
  assumes "set xs \<subseteq> A" and "is_heap lt (length xs) xs" and "xs \<noteq> []"
  obtains ys where "heap_pop lt xs = (xs ! 0, ys)" and "mset xs = add_mset (xs ! 0) (mset ys)" and "is_heap lt (length ys) ys"
proof -
  obtain n where len: "length xs = Suc n" using assms(3) by (cases xs) simp_all
  define sw where "sw = swap xs 0 n"
  define ys where "ys = heap_down lt 0 n sw"
  have pop: "heap_pop lt xs = (ys ! n, take n ys)" by (simp add: heap_pop_def len sw_def ys_def Let_def)
  have sw: "length sw = Suc n" "set sw \<subseteq> A" "mset sw = mset xs" using assms(1) len by (simp_all add: sw_def)
  show ?thesis
  proof (cases "n = 0")
    case True
    then obtain x where "xs = [x]" using len by (auto simp: length_Suc_conv)
    with True show ?thesis
      by (intro that [of "[]"]) (simp_all add: heap_pop_def Let_def heap_down.simps [of lt 0 0] swap_def is_heap_def)
  next
    case False
    have nth: "k < Suc n \<Longrightarrow> sw ! k = (if k = 0 then xs ! n else if k = n then xs ! 0 else xs ! k)" for k
      using len by (simp add: sw_def swap_nth)
    have "down_inv lt 0 n sw"
      using assms(2) len by (auto simp: down_inv_def is_heap_def nth)
    then have heap: "is_heap lt n ys"
      using heap_down_heap [of sw n 0] sw False by (simp add: ys_def)
    have keep: "mset ys = mset xs" "ys ! n = xs ! 0"
      using heap_down_keeps [of n sw 0 lt] sw False nth [of n] by (simp_all add: ys_def)
    then have ylen: "length ys = Suc n" by (metis size_mset len)
    then have split: "ys = take n ys @ [xs ! 0]"
      using keep(2) by (metis lessI order_refl take_Suc_conv_app_nth take_all)
    have "mset xs = mset (take n ys @ [xs ! 0])" using keep(1) split by metis
    then have "mset xs = add_mset (xs ! 0) (mset (take n ys))" by simp
    moreover have "is_heap lt (length (take n ys)) (take n ys)"
      using heap ylen by (simp add: is_heap_def)
    moreover have "heap_pop lt xs = (xs ! 0, take n ys)" by (simp add: pop keep(2))
    ultimately show ?thesis by (rule that [rotated])
  qed
qed

end

end
