(* ===== verification/TopK.thy ===== *)
theory TopK
  imports Complex_Main Aggregate Heap FilterExpr
begin

section \<open>Top-k selection (internal/query/topk.go)\<close>

text \<open>
  \<open>SelectAggregateTopK\<close> reads every reduced group once and keeps the best \<open>top\<close> of them in a
  heap whose root is the worst kept group. The callback \<open>next\<close> is the list of groups it
  yields and the error, if any, it ends with. A \<open>float64\<close> is its bit pattern; finite doubles
  are compared through the integer they encode in sign-magnitude form.
\<close>

subsection \<open>Data\<close>

datatype rank_kind = RankByCount | RankByIntegerSum | RankByIntegerAvg | RankByDouble | RankOther string

record rank_order =
  o_kind :: rank_kind
  o_descending :: bool

record 'p ranked_group =
  r_key :: string
  r_count :: int
  r_integer :: "integer_state option"
  r_double :: "64 word option"
  r_payload :: 'p

datatype topk_error = InvalidTopKRequest | TopKLimit | InvalidAggregateCount | InvalidAverageCount | NonfiniteResult
  | StateError query_error | NextError string

record 'p prepared_rank =
  p_group :: "'p ranked_group"
  p_null :: bool
  p_integer :: int
  p_denominator :: int
  p_double :: "64 word"

definition validAggregateRank :: "rank_kind \<Rightarrow> bool" where
  "validAggregateRank k = (case k of RankOther _ \<Rightarrow> False | _ \<Rightarrow> True)"

definition f64_order :: "64 word \<Rightarrow> int" where
  "f64_order d =
    (let u = uint d; magnitude = u mod 9223372036854775808 in if 9223372036854775808 \<le> u then - magnitude else magnitude)"

subsection \<open>Preparing and comparing\<close>

definition state_result :: "query_error + 'a \<Rightarrow> topk_error + 'a" where
  "state_result r = (case r of Inl e \<Rightarrow> Inl (StateError e) | Inr v \<Rightarrow> Inr v)"

definition prepareAggregateRank :: "'p ranked_group \<Rightarrow> rank_kind \<Rightarrow> topk_error + 'p prepared_rank" where
  "prepareAggregateRank g kind =
    (let prepared = \<lparr>p_group = g, p_null = False, p_integer = 0, p_denominator = 0, p_double = 0\<rparr> in
     case kind of
       RankByCount \<Rightarrow>
         if r_count g < 0 then Inl InvalidAggregateCount else Inr (prepared\<lparr>p_integer := r_count g\<rparr>)
     | RankByIntegerSum \<Rightarrow>
         (case r_integer g of None \<Rightarrow> Inr (prepared\<lparr>p_null := True\<rparr>)
          | Some st \<Rightarrow> if i_count st = 0 then Inr (prepared\<lparr>p_null := True\<rparr>)
              else bindR (state_result (finalizeIntegerSum st)) (\<lambda>_.
                   bindR (state_result (integerStateValue st)) (\<lambda>v. Inr (prepared\<lparr>p_integer := v\<rparr>))))
     | RankByIntegerAvg \<Rightarrow>
         (case r_integer g of None \<Rightarrow> Inr (prepared\<lparr>p_null := True\<rparr>)
          | Some st \<Rightarrow> if i_count st = 0 then Inr (prepared\<lparr>p_null := True\<rparr>)
              else if i_count st < 0 then Inl InvalidAverageCount
              else bindR (state_result (integerStateValue st)) (\<lambda>v.
                     Inr (prepared\<lparr>p_integer := v, p_denominator := i_count st\<rparr>)))
     | RankByDouble \<Rightarrow>
         (case r_double g of None \<Rightarrow> Inr (prepared\<lparr>p_null := True\<rparr>)
          | Some d \<Rightarrow> if \<not> f64_finite d then Inl NonfiniteResult else Inr (prepared\<lparr>p_double := d\<rparr>))
     | RankOther _ \<Rightarrow> Inr prepared)"

definition cmp_int :: "int \<Rightarrow> int \<Rightarrow> int" where
  "cmp_int a b = (if a < b then - 1 else if b < a then 1 else 0)"

definition bytes_compare :: "string \<Rightarrow> string \<Rightarrow> int" where
  "bytes_compare a b = (if a < b then - 1 else if b < a then 1 else 0)"

definition rank_comparison :: "'p prepared_rank \<Rightarrow> 'p prepared_rank \<Rightarrow> rank_order \<Rightarrow> int" where
  "rank_comparison l r ord =
    (let comparison =
      (case o_kind ord of
         RankByIntegerAvg \<Rightarrow> cmp_int (p_integer l * p_denominator r) (p_integer r * p_denominator l)
       | RankByCount \<Rightarrow> cmp_int (p_integer l) (p_integer r)
       | RankByIntegerSum \<Rightarrow> cmp_int (p_integer l) (p_integer r)
       | RankByDouble \<Rightarrow> cmp_int (f64_order (p_double l)) (f64_order (p_double r))
       | RankOther _ \<Rightarrow> 0)
     in if o_descending ord then - comparison else comparison)"

definition compareAggregateRank :: "'p prepared_rank \<Rightarrow> 'p prepared_rank \<Rightarrow> rank_order \<Rightarrow> int" where
  "compareAggregateRank l r ord =
    (if p_null l \<noteq> p_null r then (if p_null l then 1 else - 1)
     else let comparison = (if p_null l then 0 else rank_comparison l r ord)
          in if comparison \<noteq> 0 then comparison else bytes_compare (r_key (p_group l)) (r_key (p_group r)))"

subsection \<open>Selection\<close>

definition worst_less :: "rank_order \<Rightarrow> 'p prepared_rank \<Rightarrow> 'p prepared_rank \<Rightarrow> bool" where
  "worst_less ord a b \<longleftrightarrow> 0 < compareAggregateRank a b ord"

definition rank_less :: "rank_order \<Rightarrow> 'p prepared_rank \<Rightarrow> 'p prepared_rank \<Rightarrow> bool" where
  "rank_less ord a b \<longleftrightarrow> compareAggregateRank a b ord < 0"

definition offer :: "nat \<Rightarrow> rank_order \<Rightarrow> 'p prepared_rank list \<Rightarrow> 'p prepared_rank \<Rightarrow> 'p prepared_rank list" where
  "offer maxk ord items candidate =
    (if length items < maxk then heap_push (worst_less ord) items candidate
     else if compareAggregateRank candidate (items ! 0) ord < 0
       then heap_push (worst_less ord) (snd (heap_pop (worst_less ord) items)) candidate
     else items)"

fun select_loop :: "nat \<Rightarrow> rank_order \<Rightarrow> nat \<Rightarrow> 'p prepared_rank list \<Rightarrow> 'p ranked_group list \<Rightarrow> string option \<Rightarrow>
    topk_error + 'p prepared_rank list" where
  "select_loop maxk ord seen items [] err = (case err of None \<Rightarrow> Inr items | Some e \<Rightarrow> Inl (NextError e))"
| "select_loop maxk ord seen items (g # gs) err =
    (if MaxAggregateGroups < Suc seen \<or> r_key g = [] then Inl TopKLimit
     else bindR (prepareAggregateRank g (o_kind ord)) (\<lambda>candidate.
       select_loop maxk ord (Suc seen) (offer maxk ord items candidate) gs err))"

definition selectAggregateTopK :: "'p ranked_group list \<Rightarrow> string option \<Rightarrow> int \<Rightarrow> rank_order \<Rightarrow> topk_error + 'p ranked_group list" where
  "selectAggregateTopK groups err maxk ord =
    (if maxk < 1 \<or> 1000 < maxk \<or> \<not> validAggregateRank (o_kind ord) then Inl InvalidTopKRequest
     else bindR (select_loop (nat maxk) ord 0 [] groups err) (\<lambda>items.
       Inr (map p_group (sortBy (rank_less ord) items))))"

subsection \<open>The comparison is an order\<close>

text \<open>
  On prepared groups the comparison orders by a rational value, nulls last, ties by key;
  averages are compared as exact rationals because their counts are positive.
\<close>

definition rank_ok :: "rank_order \<Rightarrow> 'p prepared_rank \<Rightarrow> bool" where
  "rank_ok ord x \<longleftrightarrow> (o_kind ord = RankByIntegerAvg \<and> \<not> p_null x \<longrightarrow> 0 < p_denominator x)"

definition rank_value :: "rank_order \<Rightarrow> 'p prepared_rank \<Rightarrow> rat" where
  "rank_value ord x =
    (let v = (case o_kind ord of
        RankByIntegerAvg \<Rightarrow> of_int (p_integer x) / of_int (p_denominator x)
      | RankByCount \<Rightarrow> of_int (p_integer x)
      | RankByIntegerSum \<Rightarrow> of_int (p_integer x)
      | RankByDouble \<Rightarrow> of_int (f64_order (p_double x))
      | RankOther _ \<Rightarrow> 0)
     in if o_descending ord then - v else v)"

lemma cmp_int_cases: "cmp_int a b < 0 \<longleftrightarrow> a < b" "0 < cmp_int a b \<longleftrightarrow> b < a" "cmp_int a b = 0 \<longleftrightarrow> a = b"
  by (auto simp: cmp_int_def)

lemma cross_multiplication:
  assumes "0 < (d :: int)" and "0 < e"
  shows "a * e < b * d \<longleftrightarrow> (of_int a / of_int d :: rat) < of_int b / of_int e"
    and "a * e = b * d \<longleftrightarrow> (of_int a / of_int d :: rat) = of_int b / of_int e"
proof -
  have "(of_int a / of_int d :: rat) < of_int b / of_int e \<longleftrightarrow> (of_int a * of_int e :: rat) < of_int b * of_int d"
    using assms by (simp add: divide_less_eq less_divide_eq field_simps)
  also have "\<dots> \<longleftrightarrow> (of_int (a * e) :: rat) < of_int (b * d)" by simp
  finally show "a * e < b * d \<longleftrightarrow> (of_int a / of_int d :: rat) < of_int b / of_int e" by (simp only: of_int_less_iff)
  have "(of_int a / of_int d :: rat) = of_int b / of_int e \<longleftrightarrow> (of_int a * of_int e :: rat) = of_int b * of_int d"
    using assms by (simp add: frac_eq_eq)
  also have "\<dots> \<longleftrightarrow> (of_int (a * e) :: rat) = of_int (b * d)" by simp
  finally show "a * e = b * d \<longleftrightarrow> (of_int a / of_int d :: rat) = of_int b / of_int e" by (simp only: of_int_eq_iff)
qed

lemma rank_comparison_value:
  assumes "rank_ok ord l" and "rank_ok ord r" and "\<not> p_null l" and "\<not> p_null r"
  shows "rank_comparison l r ord < 0 \<longleftrightarrow> rank_value ord l < rank_value ord r"
    and "0 < rank_comparison l r ord \<longleftrightarrow> rank_value ord r < rank_value ord l"
    and "rank_comparison l r ord = 0 \<longleftrightarrow> rank_value ord l = rank_value ord r"
  using assms cross_multiplication [of "p_denominator l" "p_denominator r"] cross_multiplication [of "p_denominator r" "p_denominator l"]
  by (cases "o_kind ord"; cases "o_descending ord"; auto simp: rank_comparison_def rank_value_def rank_ok_def Let_def cmp_int_cases)+

lemma bytes_compare_cases:
  "bytes_compare a b < 0 \<longleftrightarrow> a < b" "0 < bytes_compare a b \<longleftrightarrow> b < a" "bytes_compare a b = 0 \<longleftrightarrow> a = b"
  by (auto simp: bytes_compare_def)

definition ranks_before :: "rank_order \<Rightarrow> 'p prepared_rank \<Rightarrow> 'p prepared_rank \<Rightarrow> bool" where
  "ranks_before ord l r \<longleftrightarrow>
    (if p_null l \<noteq> p_null r then p_null r
     else if \<not> p_null l \<and> rank_value ord l \<noteq> rank_value ord r then rank_value ord l < rank_value ord r
     else r_key (p_group l) < r_key (p_group r))"

lemma rank_less_eq: "rank_ok ord l \<Longrightarrow> rank_ok ord r \<Longrightarrow> rank_less ord l r \<longleftrightarrow> ranks_before ord l r"
  using rank_comparison_value [of ord l r]
  by (auto simp: rank_less_def ranks_before_def compareAggregateRank_def Let_def bytes_compare_cases)

lemma worst_less_eq: "rank_ok ord l \<Longrightarrow> rank_ok ord r \<Longrightarrow> worst_less ord l r \<longleftrightarrow> rank_less ord r l"
  using rank_comparison_value [of ord l r] rank_comparison_value [of ord r l]
  by (auto simp: worst_less_def rank_less_def compareAggregateRank_def Let_def bytes_compare_cases)

interpretation rank: strict_weak_order_on "{x. rank_ok ord x}" "rank_less ord" for ord :: rank_order
proof
  fix x y z :: "'a prepared_rank"
  assume x: "x \<in> {x. rank_ok ord x}"
  then show "\<not> rank_less ord x x" by (simp add: rank_less_eq ranks_before_def)
  assume y: "y \<in> {x. rank_ok ord x}" and z: "z \<in> {x. rank_ok ord x}"
  show "rank_less ord x y \<Longrightarrow> rank_less ord y z \<Longrightarrow> rank_less ord x z"
    using x y z by (auto simp: rank_less_eq ranks_before_def split: if_splits)
  show "\<not> rank_less ord x y \<Longrightarrow> \<not> rank_less ord y z \<Longrightarrow> \<not> rank_less ord x z"
    using x y z by (auto simp: rank_less_eq ranks_before_def split: if_splits)
qed

interpretation worst: strict_weak_order_on "{x. rank_ok ord x}" "worst_less ord" for ord :: rank_order
proof
  fix x y z :: "'a prepared_rank"
  assume x: "x \<in> {x. rank_ok ord x}"
  then show "\<not> worst_less ord x x" using rank.irrefl_on [OF x] by (simp add: worst_less_eq)
  assume y: "y \<in> {x. rank_ok ord x}" and z: "z \<in> {x. rank_ok ord x}"
  show "worst_less ord x y \<Longrightarrow> worst_less ord y z \<Longrightarrow> worst_less ord x z"
    using x y z rank.trans_on [OF z y x] by (simp add: worst_less_eq)
  show "\<not> worst_less ord x y \<Longrightarrow> \<not> worst_less ord y z \<Longrightarrow> \<not> worst_less ord x z"
    using x y z rank.incomp_trans_on [OF z y x] by (simp add: worst_less_eq)
qed

subsection \<open>The heap holds the best groups seen so far\<close>

definition best_kept :: "nat \<Rightarrow> rank_order \<Rightarrow> 'p prepared_rank list \<Rightarrow> 'p prepared_rank list \<Rightarrow> bool" where
  "best_kept k ord items seen \<longleftrightarrow>
    set seen \<subseteq> {x. rank_ok ord x} \<and> is_heap (worst_less ord) (length items) items \<and>
    length items = min k (length seen) \<and>
    (\<exists>rest. mset seen = mset items + rest \<and> (\<forall>x \<in># rest. \<forall>y \<in> set items. \<not> rank_less ord x y))"

lemma best_kept_ok: "best_kept k ord items seen \<Longrightarrow> set items \<subseteq> {x. rank_ok ord x}"
  unfolding best_kept_def by (metis mset_subset_eq_add_left set_mset_mono set_mset_mset subset_trans)

lemma best_kept_heap: "best_kept k ord items seen \<Longrightarrow> is_heap (worst_less ord) (length items) items"
  unfolding best_kept_def by blast

lemma worst_at_root:
  assumes "best_kept k ord items seen" and "y \<in> set items"
  shows "\<not> rank_less ord (items ! 0) y"
proof -
  obtain j where j: "j < length items" "y = items ! j" using assms(2) by (auto simp: in_set_conv_nth)
  have "\<not> worst_less ord y (items ! 0)"
    using worst.heap_root [OF best_kept_ok [OF assms(1)] best_kept_heap [OF assms(1)] order_refl j(1)] j by simp
  moreover have "items ! 0 \<in> set items" using j(1) by (auto intro: nth_mem)
  ultimately show ?thesis
    using best_kept_ok [OF assms(1)] assms(2) worst_less_eq [of ord y "items ! 0"] by blast
qed

lemma best_kept_push:
  assumes kept: "best_kept k ord items seen" and c: "rank_ok ord c" and room: "length items < k"
  shows "best_kept k ord (heap_push (worst_less ord) items c) (seen @ [c])"
proof -
  note ok = best_kept_ok [OF kept]
  from kept obtain rest where rest: "mset seen = mset items + rest" and len: "length items = min k (length seen)"
    by (auto simp: best_kept_def)
  then have "rest = {#}" using room by (metis add_cancel_right_right min_def order_less_irrefl size_eq_0_iff_empty size_mset size_union)
  moreover note push = worst.heap_push_heap [OF ok, of c]
  moreover have "length (heap_push (worst_less ord) items c) = Suc (length items)"
    using push(2) c kept by (metis best_kept_def mem_Collect_eq size_add_mset size_mset)
  ultimately show ?thesis
    using kept c rest room by (auto simp: best_kept_def)
qed

lemma best_kept_replace:
  assumes kept: "best_kept k ord items seen" and c: "rank_ok ord c" and full: "\<not> length items < k" and k: "0 < k"
    and better: "rank_less ord c (items ! 0)"
  shows "best_kept k ord (heap_push (worst_less ord) (snd (heap_pop (worst_less ord) items)) c) (seen @ [c])"
proof -
  note ok = best_kept_ok [OF kept]
  have len: "length items = k" "k \<le> length seen" using kept full by (auto simp: best_kept_def)
  have heap: "is_heap (worst_less ord) (length items) items" using kept by (rule best_kept_heap)
  have "items \<noteq> []" using len k by auto
  from worst.heap_pop_heap [OF ok heap this] obtain ys where
    pop: "heap_pop (worst_less ord) items = (items ! 0, ys)" and ys: "mset items = add_mset (items ! 0) (mset ys)"
    and heap_ys: "is_heap (worst_less ord) (length ys) ys" by blast
  have sub: "set ys \<subseteq> set items" "items ! 0 \<in> set items" using ys by (metis insert_iff set_mset_add_mset_insert set_mset_mset subsetI)+
  have ok_ys: "set ys \<subseteq> {x. rank_ok ord x}" using sub ok by blast
  note push = worst.heap_push_heap [OF ok_ys _ heap_ys, of c, simplified, OF c]
  from kept obtain rest where rest: "mset seen = mset items + rest" "\<forall>x \<in># rest. \<forall>y \<in> set items. \<not> rank_less ord x y"
    by (auto simp: best_kept_def)
  have okr: "rank_ok ord x" if "x \<in># rest" for x
    using kept rest(1) that by (metis best_kept_def mem_Collect_eq set_mset_mset subsetD union_iff)
  have root: "rank_ok ord (items ! 0)" using ok sub by blast
  have lenp: "length (heap_push (worst_less ord) ys c) = k"
    using push(2) ys len by (metis size_add_mset size_mset)
  have "\<not> rank_less ord x y" if x: "x \<in># add_mset (items ! 0) rest" and y: "y \<in> set (c # ys)" for x y
  proof (cases "x = items ! 0")
    case True
    show ?thesis
    proof (cases "y = c")
      case True
      then show ?thesis using better rank.asym_on [of c ord "items ! 0"] c root \<open>x = items ! 0\<close> by simp
    next
      case False
      then show ?thesis using worst_at_root [OF kept] sub y True by auto
    qed
  next
    case False
    then have xr: "x \<in># rest" using x by simp
    show ?thesis
    proof (cases "y = c")
      case True
      have "\<not> rank_less ord x (items ! 0)" using rest(2) xr sub by blast
      then show ?thesis using better rank.trans_on [of x ord c "items ! 0"] okr [OF xr] c root True by auto
    next
      case False
      then show ?thesis using rest(2) xr sub y by auto
    qed
  qed
  moreover have "mset (seen @ [c]) = mset (heap_push (worst_less ord) ys c) + add_mset (items ! 0) rest"
    using rest(1) ys push(2) by simp
  moreover have "set (heap_push (worst_less ord) ys c) = set (c # ys)"
    using push(2) by (metis list.simps(15) set_mset_add_mset_insert set_mset_mset)
  ultimately show ?thesis
    using kept c push(1) len lenp unfolding best_kept_def pop by (auto intro!: exI [of _ "add_mset (items ! 0) rest"])
qed

lemma best_kept_skip:
  assumes kept: "best_kept k ord items seen" and c: "rank_ok ord c" and full: "\<not> length items < k" and k: "0 < k"
    and worse: "\<not> rank_less ord c (items ! 0)"
  shows "best_kept k ord items (seen @ [c])"
proof -
  note ok = best_kept_ok [OF kept]
  have len: "length items = k" "k \<le> length seen" using kept full by (auto simp: best_kept_def)
  have root: "items ! 0 \<in> set items" using len k by auto
  from kept obtain rest where rest: "mset seen = mset items + rest" "\<forall>x \<in># rest. \<forall>y \<in> set items. \<not> rank_less ord x y"
    by (auto simp: best_kept_def)
  have "\<not> rank_less ord c y" if "y \<in> set items" for y
    using rank.incomp_trans_on [of c ord "items ! 0" y] worse worst_at_root [OF kept that] c ok root that by auto
  then show ?thesis
    using kept c len rest by (auto simp: best_kept_def intro!: exI [of _ "add_mset c rest"])
qed

lemma best_kept_offer:
  assumes "best_kept k ord items seen" and "rank_ok ord c" and "0 < k"
  shows "best_kept k ord (offer k ord items c) (seen @ [c])"
  using best_kept_push [OF assms(1,2)] best_kept_replace [OF assms(1,2) _ assms(3)] best_kept_skip [OF assms(1,2) _ assms(3)]
  by (simp add: offer_def rank_less_def [symmetric])

lemma prepare_ok: "prepareAggregateRank g (o_kind ord) = Inr c \<Longrightarrow> rank_ok ord c \<and> p_group c = g"
  by (auto simp: prepareAggregateRank_def rank_ok_def Let_def bindR_eq_Inr split: rank_kind.splits option.splits if_splits)

lemma select_loop_eq:
  assumes "best_kept k ord items seen" and "0 < k" and "length seen = n"
  shows "select_loop k ord n items gs err = Inr out \<Longrightarrow>
      err = None \<and> n + length gs \<le> max n MaxAggregateGroups \<and> list_all (\<lambda>g. r_key g \<noteq> []) gs \<and>
      (\<exists>ps. mapR (\<lambda>g. prepareAggregateRank g (o_kind ord)) gs = Inr ps \<and> best_kept k ord out (seen @ ps))"
    and "err = None \<Longrightarrow> n + length gs \<le> MaxAggregateGroups \<Longrightarrow> list_all (\<lambda>g. r_key g \<noteq> []) gs \<Longrightarrow>
      mapR (\<lambda>g. prepareAggregateRank g (o_kind ord)) gs = Inr ps \<Longrightarrow> \<exists>out. select_loop k ord n items gs err = Inr out"
  using assms
proof (induction gs arbitrary: items seen n ps)
  case Nil
  { case 1 then show ?case by (auto split: option.splits) }
  { case 2 then show ?case by simp }
next
  case (Cons g gs)
  { case 1
    then obtain c where c: "prepareAggregateRank g (o_kind ord) = Inr c" "Suc n \<le> MaxAggregateGroups" "r_key g \<noteq> []"
      and run: "select_loop k ord (Suc n) (offer k ord items c) gs err = Inr out"
      by (auto simp: bindR_eq_Inr split: if_splits)
    have "best_kept k ord (offer k ord items c) (seen @ [c])"
      using best_kept_offer 1 prepare_ok [OF c(1)] by blast
    from Cons.IH(1) [OF run this 1(3)] 1(4) c show ?case by (auto simp: bindR_eq_Inr) }
  { case 2
    then obtain c ps' where c: "prepareAggregateRank g (o_kind ord) = Inr c"
      and ps: "mapR (\<lambda>g. prepareAggregateRank g (o_kind ord)) gs = Inr ps'" by (auto simp: bindR_eq_Inr)
    have "best_kept k ord (offer k ord items c) (seen @ [c])"
      using best_kept_offer 2 prepare_ok [OF c] by blast
    from Cons.IH(2) [OF 2(1) _ _ ps this 2(6), of "Suc n"] 2 c show ?case by simp }
qed

text \<open>
  C17: \<open>SelectAggregateTopK\<close> succeeds exactly on a valid request whose source ends without an
  error, has at most 20,000 groups with non-empty keys and whose groups can all be ranked; it
  then returns \<open>min top n\<close> of the groups, in rank order, and no group left out ranks before
  one that is returned.
\<close>

theorem topk_selects_the_best:
  "((\<exists>out. selectAggregateTopK groups err k ord = Inr out) \<longleftrightarrow>
     1 \<le> k \<and> k \<le> 1000 \<and> validAggregateRank (o_kind ord) \<and> err = None \<and> length groups \<le> MaxAggregateGroups \<and>
     list_all (\<lambda>g. r_key g \<noteq> []) groups \<and> (\<exists>ps. mapR (\<lambda>g. prepareAggregateRank g (o_kind ord)) groups = Inr ps)) \<and>
   (\<forall>out. selectAggregateTopK groups err k ord = Inr out \<longrightarrow>
     (\<exists>ps items rest. mapR (\<lambda>g. prepareAggregateRank g (o_kind ord)) groups = Inr ps \<and>
        mset ps = mset items + rest \<and> out = map p_group items \<and> length out = min (nat k) (length groups) \<and>
        sorted_wrt (\<lambda>a b. \<not> rank_less ord b a) items \<and> (\<forall>x \<in># rest. \<forall>y \<in> set items. \<not> rank_less ord x y)))"
proof -
  let ?prep = "mapR (\<lambda>g. prepareAggregateRank g (o_kind ord)) groups"
  have start: "best_kept (nat k) ord [] []" for k by (simp add: best_kept_def is_heap_def)
  note loop = select_loop_eq [OF start [of k] _ refl, where gs = groups and err = err]
  have run: "err = None \<and> length groups \<le> MaxAggregateGroups \<and> list_all (\<lambda>g. r_key g \<noteq> []) groups \<and>
      (\<exists>ps. ?prep = Inr ps \<and> best_kept (nat k) ord items ps)"
    if "1 \<le> k" "select_loop (nat k) ord 0 [] groups err = Inr items" for items
    using loop(1) [of items] that by simp
  show ?thesis
  proof (intro conjI iffI allI impI)
    assume "\<exists>out. selectAggregateTopK groups err k ord = Inr out"
    then obtain items where ok: "1 \<le> k" "k \<le> 1000" "validAggregateRank (o_kind ord)"
      and items: "select_loop (nat k) ord 0 [] groups err = Inr items"
      by (auto simp: selectAggregateTopK_def bindR_eq_Inr split: if_splits)
    from ok run [OF ok(1) items]
    show "1 \<le> k" "k \<le> 1000" "validAggregateRank (o_kind ord)" "err = None" "length groups \<le> MaxAggregateGroups"
      "list_all (\<lambda>g. r_key g \<noteq> []) groups" "\<exists>ps. ?prep = Inr ps" by blast+
  next
    assume ok: "1 \<le> k \<and> k \<le> 1000 \<and> validAggregateRank (o_kind ord) \<and> err = None \<and> length groups \<le> MaxAggregateGroups \<and>
      list_all (\<lambda>g. r_key g \<noteq> []) groups \<and> (\<exists>ps. ?prep = Inr ps)"
    then obtain ps where "?prep = Inr ps" by blast
    with ok loop(2) [of ps] show "\<exists>out. selectAggregateTopK groups err k ord = Inr out"
      by (auto simp: selectAggregateTopK_def)
  next
    fix out
    assume "selectAggregateTopK groups err k ord = Inr out"
    then obtain items where k: "1 \<le> k" and items: "select_loop (nat k) ord 0 [] groups err = Inr items"
      and out: "out = map p_group (sortBy (rank_less ord) items)"
      by (auto simp: selectAggregateTopK_def bindR_eq_Inr split: if_splits)
    from run [OF k items] obtain ps where ps: "?prep = Inr ps" and kept: "best_kept (nat k) ord items ps" by blast
    have len: "length ps = length groups" using ps by (auto simp: mapR_eq_Inr dest: list_all2_lengthD)
    have sorted: "sorted_wrt (\<lambda>a b. \<not> rank_less ord b a) (sortBy (rank_less ord) items)"
      using rank.sortBy_sorted_on [OF best_kept_ok [OF kept]] .
    from kept obtain rest where "mset ps = mset items + rest" "\<forall>x \<in># rest. \<forall>y \<in> set items. \<not> rank_less ord x y"
      "length items = min (nat k) (length ps)" by (auto simp: best_kept_def)
    with ps out len sorted show "\<exists>ps items rest. ?prep = Inr ps \<and> mset ps = mset items + rest \<and> out = map p_group items \<and>
        length out = min (nat k) (length groups) \<and> sorted_wrt (\<lambda>a b. \<not> rank_less ord b a) items \<and>
        (\<forall>x \<in># rest. \<forall>y \<in> set items. \<not> rank_less ord x y)"
      by (intro exI [of _ ps] exI [of _ "sortBy (rank_less ord) items"] exI [of _ rest]) simp
  qed
qed

theorem topk_selects_the_best_witness:
  "let g = (\<lambda>key n. \<lparr>r_key = key, r_count = n, r_integer = None, r_double = None, r_payload = ()\<rparr>);
       ord = \<lparr>o_kind = RankByCount, o_descending = True\<rparr>
   in selectAggregateTopK [g ''a'' 2, g ''b'' 9, g ''c'' 5] None 2 ord = Inr [g ''b'' 9, g ''c'' 5] \<and>
      (\<exists>out. selectAggregateTopK [g ''a'' 2, g ''b'' 9, g ''c'' 5] None 2 ord = Inr out \<and> length out = 2)"
proof -
  let ?g = "\<lambda>key n. \<lparr>r_key = key, r_count = n, r_integer = None, r_double = None, r_payload = ()\<rparr>"
  let ?ord = "\<lparr>o_kind = RankByCount, o_descending = True\<rparr>"
  have run: "selectAggregateTopK [?g ''a'' 2, ?g ''b'' 9, ?g ''c'' 5] None 2 ?ord = Inr [?g ''b'' 9, ?g ''c'' 5]"
    by code_simp
  from topk_selects_the_best [of "[?g ''a'' 2, ?g ''b'' 9, ?g ''c'' 5]" None 2 ?ord] run show ?thesis by force
qed

end
