(* ===== verification/Batcher.thy ===== *)
theory Batcher
  imports Receipt "HOL-Library.AList"
begin

section \<open>The ingest batcher (internal/ingest/batcher.go)\<close>

text \<open>
  The batcher groups accepted requests by tenant and lane, seals a group when it is full or
  old enough, and hands sealed batches to at most \<open>MaxUploadWorkflows\<close> concurrent workflows,
  one tenant after the other. Its state is what \<open>loop\<close> keeps in local variables, the slot
  channel and the results sent; its steps are the cases of the \<open>select\<close>, each followed by
  the head of the loop, and the two waits of \<open>Accept\<close>.

  A request context is observed where the code calls \<open>ctx.Err()\<close>: a step takes the list of
  entries whose context is done at that moment. Iteration over a Go map takes the order of
  the keys as an argument, any enumeration of them. Time is an integer; the workflow's
  results are arbitrary.
\<close>

subsection \<open>Data\<close>

datatype entry_result = ResDraining | ResCanceled | ResLaneError | ResMismatch | ResProcessed int

record batcher_config =
  c_bytes :: int
  c_records :: int
  c_requests :: int
  c_wait :: int
  c_waiting :: int
  c_workflows :: int

record batch_entry =
  e_id :: nat
  e_tenant :: int
  e_acceptance :: string
  e_bytes :: int
  e_records :: int
  e_enqueued :: int

type_synonym batch_scope = "int \<times> int"

record pending_batch =
  pb_entries :: "batch_entry list"
  pb_bytes :: int
  pb_records :: int
  pb_oldest :: int

record sealed_batch =
  sb_tenant :: int
  sb_entries :: "batch_entry list"

text \<open>
  \<open>b_admitted\<close> records, for the theorems only, the entries that took a slot and did not give
  it back before entering the loop.
\<close>

record batcher =
  b_pending :: "(batch_scope \<times> pending_batch) list"
  b_ready :: "(int \<times> sealed_batch list) list"
  b_tenants :: "int list"
  b_active :: int
  b_running :: "sealed_batch list"
  b_draining :: bool
  b_exited :: bool
  b_slots :: int
  b_waiting :: "batch_entry list"
  b_results :: "(batch_entry \<times> entry_result) list"
  b_admitted :: "batch_entry list"

definition or_default :: "int \<Rightarrow> int \<Rightarrow> int" where
  "or_default v d = (if v \<le> 0 then d else v)"

definition batcher_defaults :: "batcher_config \<Rightarrow> batcher_config" where
  "batcher_defaults c =
    \<lparr>c_bytes = or_default (c_bytes c) 4194304, c_records = or_default (c_records c) 1000,
     c_requests = or_default (c_requests c) 1000, c_wait = or_default (c_wait c) 100000000,
     c_waiting = or_default (c_waiting c) 1024, c_workflows = or_default (c_workflows c) 2\<rparr>"

definition newBatcher :: batcher where
  "newBatcher = \<lparr>b_pending = [], b_ready = [], b_tenants = [], b_active = 0, b_running = [], b_draining = False,
     b_exited = False, b_slots = 0, b_waiting = [], b_results = [], b_admitted = []\<rparr>"

subsection \<open>Operations of the loop\<close>

definition canceled :: "nat list \<Rightarrow> batch_entry \<Rightarrow> bool" where
  "canceled cs e \<longleftrightarrow> e_id e \<in> set cs"

definition finishEntry :: "batcher \<Rightarrow> batch_entry \<times> entry_result \<Rightarrow> batcher" where
  "finishEntry st er = st\<lparr>b_results := b_results st @ [er], b_slots := b_slots st - 1\<rparr>"

definition finish_all :: "entry_result \<Rightarrow> batch_entry list \<Rightarrow> batcher \<Rightarrow> batcher" where
  "finish_all r es st = foldl finishEntry st (map (\<lambda>e. (e, r)) es)"

definition oldest_of :: "batch_entry list \<Rightarrow> int" where
  "oldest_of es = foldl (\<lambda>t e. if e_enqueued e < t then e_enqueued e else t) (e_enqueued (hd es)) (tl es)"

definition removeCanceled :: "nat list \<Rightarrow> pending_batch \<Rightarrow> batcher \<Rightarrow> pending_batch \<times> batcher" where
  "removeCanceled cs batch st =
    (let kept = filter (\<lambda>e. \<not> canceled cs e) (pb_entries batch)
     in (\<lparr>pb_entries = kept, pb_bytes = sum_list (map e_bytes kept), pb_records = sum_list (map e_records kept),
          pb_oldest = (if kept = [] then pb_oldest batch else oldest_of kept)\<rparr>,
         finish_all ResCanceled (filter (canceled cs) (pb_entries batch)) st))"

definition ready_of :: "batcher \<Rightarrow> int \<Rightarrow> sealed_batch list" where
  "ready_of st t = (case map_of (b_ready st) t of None \<Rightarrow> [] | Some q \<Rightarrow> q)"

definition enqueueReady :: "sealed_batch \<Rightarrow> batcher \<Rightarrow> batcher" where
  "enqueueReady sb st =
    st\<lparr>b_tenants := (if ready_of st (sb_tenant sb) = [] then b_tenants st @ [sb_tenant sb] else b_tenants st),
       b_ready := AList.update (sb_tenant sb) (ready_of st (sb_tenant sb) @ [sb]) (b_ready st)\<rparr>"

definition wouldExceedBatch :: "batcher_config \<Rightarrow> pending_batch \<Rightarrow> batch_entry \<Rightarrow> bool" where
  "wouldExceedBatch c batch e \<longleftrightarrow>
    c_bytes c < pb_bytes batch + e_bytes e \<or> c_records c < pb_records batch + e_records e \<or>
    c_requests c < int (length (pb_entries batch)) + 1"

definition seal_nonempty :: "int \<Rightarrow> pending_batch \<Rightarrow> batcher \<Rightarrow> batcher" where
  "seal_nonempty tenant batch st =
    (if pb_entries batch = [] then st else enqueueReady \<lparr>sb_tenant = tenant, sb_entries = pb_entries batch\<rparr> st)"

definition empty_batch :: "batch_entry \<Rightarrow> pending_batch" where
  "empty_batch e = \<lparr>pb_entries = [], pb_bytes = 0, pb_records = 0, pb_oldest = e_enqueued e\<rparr>"

definition append_entry :: "pending_batch \<Rightarrow> batch_entry \<Rightarrow> pending_batch" where
  "append_entry batch e =
    \<lparr>pb_entries = pb_entries batch @ [e], pb_bytes = pb_bytes batch + e_bytes e,
     pb_records = pb_records batch + e_records e, pb_oldest = pb_oldest batch\<rparr>"

text \<open>The batch an entry joins: the pending one, or a new one after sealing a full one.\<close>

definition batch_for :: "batcher_config \<Rightarrow> nat list \<Rightarrow> batch_scope \<Rightarrow> batch_entry \<Rightarrow> batcher \<Rightarrow> pending_batch \<times> batcher" where
  "batch_for c cs scope e st =
    (case map_of (b_pending st) scope of
       None \<Rightarrow> (empty_batch e, st)
     | Some batch \<Rightarrow>
         if pb_entries batch \<noteq> [] \<and> wouldExceedBatch c batch e
         then let (kept, st1) = removeCanceled cs batch (st\<lparr>b_pending := AList.delete scope (b_pending st)\<rparr>)
              in (empty_batch e, seal_nonempty (fst scope) kept st1)
         else (batch, st))"

definition addEntry :: "batcher_config \<Rightarrow> nat list \<Rightarrow> batch_entry \<Rightarrow> batcher \<Rightarrow> batcher" where
  "addEntry c cs e st =
    (if canceled cs e then finishEntry st (e, ResCanceled)
     else case laneForAcceptance (e_acceptance e) of
       Inl _ \<Rightarrow> finishEntry st (e, ResLaneError)
     | Inr lane \<Rightarrow>
         let scope = (e_tenant e, lane); (batch, st1) = batch_for c cs scope e st; full = append_entry batch e
         in if c_bytes c < e_bytes e \<or> c_records c < e_records e \<or> c_requests c \<le> int (length (pb_entries full))
            then enqueueReady \<lparr>sb_tenant = e_tenant e, sb_entries = pb_entries full\<rparr>
                   (st1\<lparr>b_pending := AList.delete scope (b_pending st1)\<rparr>)
            else st1\<lparr>b_pending := AList.update scope full (b_pending st1)\<rparr>)"

text \<open>\<open>None\<close> is an index out of range: a tenant queued without a sealed batch.\<close>

definition dispatch_one :: "batcher \<Rightarrow> batcher option" where
  "dispatch_one st =
    (case b_tenants st of [] \<Rightarrow> None
     | tenant # ts \<Rightarrow>
       (case ready_of st tenant of [] \<Rightarrow> None
        | batch # rest \<Rightarrow> Some (st\<lparr>
            b_ready := (if rest = [] then AList.delete tenant (b_ready st) else AList.update tenant rest (b_ready st)),
            b_tenants := (if rest = [] then ts else ts @ [tenant]),
            b_active := b_active st + 1, b_running := b_running st @ [batch]\<rparr>)))"

lemma dispatch_one_active: "dispatch_one st = Some st' \<Longrightarrow> b_active st' = b_active st + 1"
  by (auto simp: dispatch_one_def split: list.splits)

function dispatchReady :: "batcher_config \<Rightarrow> batcher \<Rightarrow> batcher option" where
  "dispatchReady c st =
    (if b_active st < c_workflows c \<and> b_tenants st \<noteq> []
     then (case dispatch_one st of None \<Rightarrow> None | Some st1 \<Rightarrow> dispatchReady c st1)
     else Some st)"
  by pat_completeness auto
termination
  by (relation "measure (\<lambda>(c, st). nat (c_workflows c - b_active st))") (auto dest: dispatch_one_active)

declare dispatchReady.simps [simp del]

definition loop_head :: "batcher_config \<Rightarrow> batcher \<Rightarrow> batcher option" where
  "loop_head c st = map_option (\<lambda>s.
      if b_draining s \<and> b_pending s = [] \<and> b_tenants s = [] \<and> b_active s = 0 then s\<lparr>b_exited := True\<rparr> else s)
    (dispatchReady c st)"

subsection \<open>Cases of the select\<close>

definition on_input :: "batcher_config \<Rightarrow> nat list \<Rightarrow> batch_entry \<Rightarrow> batcher \<Rightarrow> batcher" where
  "on_input c cs e st0 =
    (let st = st0\<lparr>b_waiting := remove1 e (b_waiting st0)\<rparr>
     in if b_draining st then finishEntry st (e, ResDraining) else addEntry c cs e st)"

definition on_completed :: "nat \<Rightarrow> entry_result list \<Rightarrow> batcher \<Rightarrow> batcher" where
  "on_completed k results st =
    (let es = sb_entries (b_running st ! k);
         rs = map (\<lambda>i. if i < length results then results ! i else ResMismatch) [0..<length es]
     in foldl finishEntry
          (st\<lparr>b_active := b_active st - 1, b_running := take k (b_running st) @ drop (Suc k) (b_running st)\<rparr>) (zip es rs))"

definition expire_scope :: "batcher_config \<Rightarrow> int \<Rightarrow> nat list \<Rightarrow> batcher \<Rightarrow> batch_scope \<Rightarrow> batcher" where
  "expire_scope c now cs st scope =
    (case map_of (b_pending st) scope of None \<Rightarrow> st
     | Some batch \<Rightarrow>
         let (kept, st1) = removeCanceled cs batch st in
         if pb_entries kept = [] then st1\<lparr>b_pending := AList.delete scope (b_pending st1)\<rparr>
         else if pb_oldest kept + c_wait c \<le> now
           then enqueueReady \<lparr>sb_tenant = fst scope, sb_entries = pb_entries kept\<rparr>
                  (st1\<lparr>b_pending := AList.delete scope (b_pending st1)\<rparr>)
         else st1\<lparr>b_pending := AList.update scope kept (b_pending st1)\<rparr>)"

definition on_timer :: "batcher_config \<Rightarrow> int \<Rightarrow> nat list \<Rightarrow> batch_scope list \<Rightarrow> batcher \<Rightarrow> batcher" where
  "on_timer c now cs order st = foldl (expire_scope c now cs) st order"

definition drain_scope :: "nat list \<Rightarrow> batcher \<Rightarrow> batch_scope \<Rightarrow> batcher" where
  "drain_scope cs st scope =
    (case map_of (b_pending st) scope of None \<Rightarrow> st
     | Some batch \<Rightarrow>
         let (kept, st1) = removeCanceled cs batch st
         in seal_nonempty (fst scope) kept (st1\<lparr>b_pending := AList.delete scope (b_pending st1)\<rparr>))"

definition on_drain :: "nat list \<Rightarrow> batch_scope list \<Rightarrow> batcher \<Rightarrow> batcher" where
  "on_drain cs order st =
    (if b_draining st then st else foldl (drain_scope cs) (st\<lparr>b_draining := True\<rparr>) order)"

definition pending_entries :: "batcher \<Rightarrow> batch_entry list" where
  "pending_entries st = concat (map (pb_entries \<circ> snd) (b_pending st))"

definition ready_entries :: "batcher \<Rightarrow> batch_entry list" where
  "ready_entries st = concat (map (concat \<circ> map sb_entries \<circ> snd) (b_ready st))"

definition running_entries :: "batcher \<Rightarrow> batch_entry list" where
  "running_entries st = concat (map sb_entries (b_running st))"

text \<open>The loop ends: everything not yet handed to a workflow is refused; the maps are dropped.\<close>

definition on_root_done :: "batcher \<Rightarrow> batcher" where
  "on_root_done st =
    (finish_all ResDraining (ready_entries st) (finish_all ResDraining (pending_entries st) st))
      \<lparr>b_pending := [], b_ready := [], b_tenants := [], b_exited := True\<rparr>"

subsection \<open>Accept\<close>

definition accept_slot :: "batch_entry \<Rightarrow> batcher \<Rightarrow> batcher" where
  "accept_slot e st =
    st\<lparr>b_slots := b_slots st + 1, b_waiting := b_waiting st @ [e], b_admitted := b_admitted st @ [e]\<rparr>"

definition accept_abandon :: "batch_entry \<Rightarrow> batcher \<Rightarrow> batcher" where
  "accept_abandon e st =
    st\<lparr>b_slots := b_slots st - 1, b_waiting := remove1 e (b_waiting st), b_admitted := remove1 e (b_admitted st)\<rparr>"

subsection \<open>The timer\<close>

definition next_deadline :: "batcher_config \<Rightarrow> batcher \<Rightarrow> int option" where
  "next_deadline c st =
    foldl (\<lambda>d batch. case d of None \<Rightarrow> Some (pb_oldest batch + c_wait c)
      | Some t \<Rightarrow> Some (if pb_oldest batch + c_wait c < t then pb_oldest batch + c_wait c else t))
      None (map snd (b_pending st))"

subsection \<open>Steps\<close>

text \<open>
  An event and when it can happen. Entries are distinguished by an identifier of their
  result channel; lengths are not negative. The timer fires no earlier than the deadline
  that \<open>resetBatchTimer\<close> computed.
\<close>

datatype batcher_event =
    AcceptSlot batch_entry
  | AcceptAbandon batch_entry
  | Input "nat list" batch_entry
  | Completed nat "entry_result list"
  | TimerFired int "nat list" "batch_scope list"
  | DrainRequest "nat list" "batch_scope list"
  | RootDone

definition enabled :: "batcher_config \<Rightarrow> batcher \<Rightarrow> batcher_event \<Rightarrow> bool" where
  "enabled c st ev =
    (case ev of
       AcceptSlot e \<Rightarrow> b_slots st < c_waiting c \<and> e_id e \<notin> e_id ` set (b_admitted st) \<and> 0 \<le> e_bytes e \<and> 0 \<le> e_records e
     | AcceptAbandon e \<Rightarrow> e \<in> set (b_waiting st)
     | Input cs e \<Rightarrow> \<not> b_exited st \<and> e \<in> set (b_waiting st)
     | Completed k rs \<Rightarrow> \<not> b_exited st \<and> k < length (b_running st)
     | TimerFired now cs order \<Rightarrow>
         \<not> b_exited st \<and> (case next_deadline c st of None \<Rightarrow> False | Some d \<Rightarrow> d \<le> now) \<and>
         distinct order \<and> set order = set (map fst (b_pending st))
     | DrainRequest cs order \<Rightarrow> \<not> b_exited st \<and> distinct order \<and> set order = set (map fst (b_pending st))
     | RootDone \<Rightarrow> \<not> b_exited st)"

definition handle :: "batcher_config \<Rightarrow> batcher_event \<Rightarrow> batcher \<Rightarrow> batcher option" where
  "handle c ev st =
    (case ev of
       AcceptSlot e \<Rightarrow> Some (accept_slot e st)
     | AcceptAbandon e \<Rightarrow> Some (accept_abandon e st)
     | Input cs e \<Rightarrow> loop_head c (on_input c cs e st)
     | Completed k rs \<Rightarrow> loop_head c (on_completed k rs st)
     | TimerFired now cs order \<Rightarrow> loop_head c (on_timer c now cs order st)
     | DrainRequest cs order \<Rightarrow> loop_head c (on_drain cs order st)
     | RootDone \<Rightarrow> Some (on_root_done st))"

inductive batcher_step :: "batcher_config \<Rightarrow> batcher \<Rightarrow> batcher \<Rightarrow> bool" for c :: batcher_config where
  step: "enabled c st ev \<Longrightarrow> handle c ev st = Some st' \<Longrightarrow> batcher_step c st st'"

subsection \<open>Contents of the maps\<close>

definition content :: "('v \<Rightarrow> 'a list) \<Rightarrow> ('k \<times> 'v) list \<Rightarrow> 'a multiset" where
  "content f m = mset (concat (map (f \<circ> snd) m))"

lemma content_simps [simp]: "content f [] = {#}" "content f ((k, v) # m) = mset (f v) + content f m"
  by (simp_all add: content_def)

lemma delete_absent: "k \<notin> fst ` set m \<Longrightarrow> AList.delete k m = m"
  by (induction m) auto

lemma content_delete:
  "distinct (map fst m) \<Longrightarrow> map_of m k = Some v \<Longrightarrow> content f m = mset (f v) + content f (AList.delete k m)"
  by (induction m) (auto simp: delete_absent split: if_splits)

lemma content_update_absent:
  "map_of m k = None \<Longrightarrow> content f (AList.update k v m) = mset (f v) + content f m"
  by (induction m) (auto split: if_splits)

lemma content_update_present:
  "map_of m k = Some w \<Longrightarrow> content f (AList.update k v m) + mset (f w) = mset (f v) + content f m"
  by (induction m) (auto split: if_splits)

lemma keys_delete: "fst ` set (AList.delete k m) = fst ` set m - {k}"
  by (induction m) auto

lemma map_of_delete: "map_of (AList.delete k m) k' = (if k' = k then None else map_of m k')"
  by (simp add: AList.delete_conv')

lemma map_of_update: "map_of (AList.update k v m) k' = (if k' = k then Some v else map_of m k')"
  by (simp add: AList.update_conv')

subsection \<open>Every entry is in exactly one place\<close>

definition held :: "batcher \<Rightarrow> batch_entry multiset" where
  "held st = mset (b_waiting st) + content pb_entries (b_pending st) +
     content (concat \<circ> map sb_entries) (b_ready st) + mset (running_entries st)"

definition finished :: "batcher \<Rightarrow> batch_entry multiset" where
  "finished st = mset (map fst (b_results st))"

text \<open>\<open>F\<close> are the entries the code holds in a local variable between two updates.\<close>

definition accounts :: "batch_entry multiset \<Rightarrow> batcher \<Rightarrow> bool" where
  "accounts F st \<longleftrightarrow> b_slots st = int (size (held st + F)) \<and> mset (b_admitted st) = held st + F + finished st"

lemma foldl_finishEntry:
  "foldl finishEntry st ers = st\<lparr>b_results := b_results st @ ers, b_slots := b_slots st - int (length ers)\<rparr>"
  by (induction ers arbitrary: st) (simp_all add: finishEntry_def)

lemma finish_all_eq:
  "finish_all r es st = st\<lparr>b_results := b_results st @ map (\<lambda>e. (e, r)) es, b_slots := b_slots st - int (length es)\<rparr>"
  by (simp add: finish_all_def foldl_finishEntry)

lemma held_updates [simp]:
  "held (st\<lparr>b_results := x\<rparr>) = held st" "held (st\<lparr>b_slots := y\<rparr>) = held st" "held (st\<lparr>b_tenants := t\<rparr>) = held st"
  "held (st\<lparr>b_draining := d\<rparr>) = held st" "held (st\<lparr>b_exited := d\<rparr>) = held st" "held (st\<lparr>b_active := n\<rparr>) = held st"
  "held (st\<lparr>b_admitted := w\<rparr>) = held st"
  by (simp_all add: held_def running_entries_def)

lemma accounts_finish:
  assumes "accounts (F + mset (map fst ers)) st"
  shows "accounts F (foldl finishEntry st ers)"
  using assms by (simp add: accounts_def foldl_finishEntry finished_def ac_simps)

lemma accounts_finish_all: "accounts (F + mset es) st \<Longrightarrow> accounts F (finish_all r es st)"
  using accounts_finish [of F "map (\<lambda>e. (e, r)) es" st] by (simp add: finish_all_def comp_def)

lemma accounts_finish_one: "accounts (add_mset e F) st \<Longrightarrow> accounts F (finishEntry st (e, r))"
  using accounts_finish [of F "[(e, r)]" st] by simp

lemma ready_of_content:
  "map_of (b_ready st) t = None \<Longrightarrow> ready_of st t = []"
  "map_of (b_ready st) t = Some q \<Longrightarrow> ready_of st t = q"
  by (simp_all add: ready_of_def)

lemma accounts_enqueue:
  assumes "accounts (F + mset (sb_entries sb)) st"
  shows "accounts F (enqueueReady sb st)"
proof -
  let ?t = "sb_tenant sb" and ?f = "concat \<circ> map sb_entries"
  have "content ?f (AList.update ?t (ready_of st ?t @ [sb]) (b_ready st)) = content ?f (b_ready st) + mset (sb_entries sb)"
  proof (cases "map_of (b_ready st) ?t")
    case None
    then show ?thesis by (simp add: content_update_absent ready_of_content)
  next
    case (Some q)
    from content_update_present [OF Some, of ?f "q @ [sb]"] show ?thesis
      using Some by (simp add: ready_of_content)
  qed
  then have "held (enqueueReady sb st) = held st + mset (sb_entries sb)"
    by (simp add: held_def enqueueReady_def running_entries_def)
  moreover have "b_slots (enqueueReady sb st) = b_slots st" "b_admitted (enqueueReady sb st) = b_admitted st"
    "finished (enqueueReady sb st) = finished st"
    by (simp_all add: enqueueReady_def finished_def)
  ultimately show ?thesis using assms by (simp add: accounts_def ac_simps)
qed

lemma held_pending: "held (st\<lparr>b_pending := m\<rparr>) + content pb_entries (b_pending st) = held st + content pb_entries m"
  by (simp add: held_def running_entries_def ac_simps)

lemma accounts_pending:
  assumes "accounts F st" and "content pb_entries (b_pending st) + F = content pb_entries m + G"
  shows "accounts G (st\<lparr>b_pending := m\<rparr>)"
proof -
  have "held (st\<lparr>b_pending := m\<rparr>) + G + content pb_entries (b_pending st) = held st + F + content pb_entries (b_pending st)"
    using held_pending [of m st] assms(2) by (metis add.assoc add.commute)
  then have "held (st\<lparr>b_pending := m\<rparr>) + G = held st + F" by simp
  then show ?thesis using assms(1) by (simp add: accounts_def finished_def)
qed

subsection \<open>Shape of the batches\<close>

definition entry_ok :: "batch_entry \<Rightarrow> bool" where
  "entry_ok e \<longleftrightarrow> 0 \<le> e_bytes e \<and> 0 \<le> e_records e"

definition in_scope :: "batch_scope \<Rightarrow> batch_entry \<Rightarrow> bool" where
  "in_scope scope e \<longleftrightarrow> e_tenant e = fst scope \<and> laneForAcceptance (e_acceptance e) = Inr (snd scope) \<and> entry_ok e"

definition within_limits :: "batcher_config \<Rightarrow> batch_entry list \<Rightarrow> bool" where
  "within_limits c es \<longleftrightarrow> sum_list (map e_bytes es) \<le> c_bytes c \<and> sum_list (map e_records es) \<le> c_records c"

definition pending_ok :: "batcher_config \<Rightarrow> batch_scope \<Rightarrow> pending_batch \<Rightarrow> bool" where
  "pending_ok c scope b \<longleftrightarrow> pb_entries b \<noteq> [] \<and> int (length (pb_entries b)) < c_requests c \<and>
     pb_bytes b = sum_list (map e_bytes (pb_entries b)) \<and> pb_records b = sum_list (map e_records (pb_entries b)) \<and>
     within_limits c (pb_entries b) \<and> list_all (in_scope scope) (pb_entries b)"

definition sealed_ok :: "batcher_config \<Rightarrow> sealed_batch \<Rightarrow> bool" where
  "sealed_ok c sb \<longleftrightarrow> sb_entries sb \<noteq> [] \<and> int (length (sb_entries sb)) \<le> c_requests c \<and>
     (length (sb_entries sb) = 1 \<or> within_limits c (sb_entries sb)) \<and>
     (\<exists>lane. list_all (in_scope (sb_tenant sb, lane)) (sb_entries sb))"

definition pending_shape :: "batcher_config \<Rightarrow> (batch_scope \<times> pending_batch) list \<Rightarrow> bool" where
  "pending_shape c m \<longleftrightarrow> distinct (map fst m) \<and> (\<forall>scope b. map_of m scope = Some b \<longrightarrow> pending_ok c scope b)"

definition ready_shape :: "batcher_config \<Rightarrow> batcher \<Rightarrow> bool" where
  "ready_shape c st \<longleftrightarrow> distinct (map fst (b_ready st)) \<and> distinct (b_tenants st) \<and>
     (\<forall>t. t \<in> set (b_tenants st) \<longleftrightarrow> map_of (b_ready st) t \<noteq> None) \<and>
     (\<forall>t q. map_of (b_ready st) t = Some q \<longrightarrow> q \<noteq> [] \<and> list_all (\<lambda>sb. sb_tenant sb = t \<and> sealed_ok c sb) q)"

definition running_shape :: "batcher_config \<Rightarrow> batcher \<Rightarrow> bool" where
  "running_shape c st \<longleftrightarrow> b_active st = int (length (b_running st)) \<and> b_active st \<le> c_workflows c \<and> list_all (sealed_ok c) (b_running st)"

text \<open>The values \<open>NewBatcher\<close> leaves in the configuration.\<close>

definition config_ok :: "batcher_config \<Rightarrow> bool" where
  "config_ok c \<longleftrightarrow> 0 < c_bytes c \<and> 0 < c_records c \<and> 0 < c_requests c \<and> 0 < c_wait c \<and> 0 < c_waiting c \<and> 0 < c_workflows c"

lemma batcher_defaults_ok: "config_ok (batcher_defaults c)"
  by (simp add: config_ok_def batcher_defaults_def or_default_def)

definition base_inv :: "batcher_config \<Rightarrow> batch_entry multiset \<Rightarrow> batcher \<Rightarrow> bool" where
  "base_inv c F st \<longleftrightarrow> accounts F st \<and> pending_shape c (b_pending st) \<and> ready_shape c st \<and> running_shape c st \<and>
     list_all entry_ok (b_waiting st) \<and> b_slots st \<le> c_waiting c \<and> distinct (map e_id (b_admitted st))"

lemma sum_filter_le:
  assumes "list_all (\<lambda>x. 0 \<le> (f x :: int)) xs"
  shows "sum_list (map f (filter P xs)) \<le> sum_list (map f xs)"
  using assms by (induction xs) auto

lemma within_limits_filter:
  assumes "list_all entry_ok es" and "within_limits c es"
  shows "within_limits c (filter P es)"
  using assms sum_filter_le [of e_bytes es P] sum_filter_le [of e_records es P]
  by (auto simp: within_limits_def entry_ok_def list_all_iff)

lemma removeCanceled_ok:
  assumes "pending_ok c scope b"
  shows "pb_entries (fst (removeCanceled cs b st)) = [] \<or> pending_ok c scope (fst (removeCanceled cs b st))"
proof -
  let ?kept = "filter (\<lambda>e. \<not> canceled cs e) (pb_entries b)"
  have "list_all entry_ok (pb_entries b)" using assms by (auto simp: pending_ok_def in_scope_def list_all_iff)
  then have "within_limits c ?kept" using assms within_limits_filter by (simp add: pending_ok_def)
  moreover have "int (length ?kept) < c_requests c"
    using assms by (auto simp: pending_ok_def intro: le_less_trans [OF of_nat_mono [OF length_filter_le]])
  ultimately show ?thesis
    using assms by (auto simp: removeCanceled_def Let_def pending_ok_def list_all_iff)
qed

lemma pending_ok_seal: "pending_ok c scope b \<Longrightarrow> sealed_ok c \<lparr>sb_tenant = fst scope, sb_entries = pb_entries b\<rparr>"
  by (auto simp: pending_ok_def sealed_ok_def intro: exI [of _ "snd scope"])

lemma base_inv_finish:
  assumes "base_inv c (F + mset (map fst ers)) st"
  shows "base_inv c F (foldl finishEntry st ers)"
  using assms accounts_finish [of F ers st] unfolding base_inv_def
  by (simp add: foldl_finishEntry ready_shape_def running_shape_def)

lemma base_inv_finish_all: "base_inv c (F + mset es) st \<Longrightarrow> base_inv c F (finish_all r es st)"
  using base_inv_finish [of c F "map (\<lambda>e. (e, r)) es" st] by (simp add: finish_all_def comp_def)

lemma base_inv_finish_one: "base_inv c (add_mset e F) st \<Longrightarrow> base_inv c F (finishEntry st (e, r))"
  using base_inv_finish [of c F "[(e, r)]" st] by simp

lemma base_inv_enqueue:
  assumes "base_inv c (F + mset (sb_entries sb)) st" and "sealed_ok c sb"
  shows "base_inv c F (enqueueReady sb st)"
proof -
  have "ready_shape c (enqueueReady sb st)"
    using assms unfolding base_inv_def ready_shape_def enqueueReady_def ready_of_def
    by (auto simp: map_of_update distinct_update split: option.splits)
  then show ?thesis
    using assms accounts_enqueue [of F sb st] unfolding base_inv_def running_shape_def
    by (simp add: enqueueReady_def)
qed

lemma base_inv_pending:
  assumes "base_inv c F st" and "content pb_entries (b_pending st) + F = content pb_entries m + G" and "pending_shape c m"
  shows "base_inv c G (st\<lparr>b_pending := m\<rparr>)"
  using assms accounts_pending [of F st m G] unfolding base_inv_def ready_shape_def running_shape_def by simp

lemma pending_shape_delete: "pending_shape c m \<Longrightarrow> pending_shape c (AList.delete k m)"
  by (auto simp: pending_shape_def distinct_delete map_of_delete split: if_splits)

lemma pending_shape_update: "pending_shape c m \<Longrightarrow> pending_ok c k b \<Longrightarrow> pending_shape c (AList.update k b m)"
  by (auto simp: pending_shape_def distinct_update map_of_update split: if_splits)

lemma base_inv_take:
  assumes "base_inv c F st" and "map_of (b_pending st) scope = Some b"
  shows "base_inv c (F + mset (pb_entries b)) (st\<lparr>b_pending := AList.delete scope (b_pending st)\<rparr>)"
proof (rule base_inv_pending [OF assms(1)])
  have shape: "pending_shape c (b_pending st)" using assms(1) by (simp add: base_inv_def)
  then show "pending_shape c (AList.delete scope (b_pending st))" by (rule pending_shape_delete)
  show "content pb_entries (b_pending st) + F = content pb_entries (AList.delete scope (b_pending st)) + (F + mset (pb_entries b))"
    using content_delete [of "b_pending st" scope b pb_entries] shape assms(2) by (simp add: pending_shape_def ac_simps)
qed

lemma pending_lookup_ok: "base_inv c F st \<Longrightarrow> map_of (b_pending st) scope = Some b \<Longrightarrow> pending_ok c scope b"
  unfolding base_inv_def pending_shape_def by blast

subsection \<open>The operations keep the invariant\<close>

lemma removeCanceled_parts:
  "snd (removeCanceled cs b st) = finish_all ResCanceled (filter (canceled cs) (pb_entries b)) st"
  "pb_entries (fst (removeCanceled cs b st)) = filter (\<lambda>e. \<not> canceled cs e) (pb_entries b)"
  by (simp_all add: removeCanceled_def Let_def)

lemma mset_canceled: "mset (pb_entries b) = mset (filter (\<lambda>e. \<not> canceled cs e) (pb_entries b)) + mset (filter (canceled cs) (pb_entries b))"
  by (metis add.commute mset_filter multiset_partition)

lemma base_inv_removeCanceled:
  assumes "base_inv c (F + mset (pb_entries b)) st"
  shows "base_inv c (F + mset (pb_entries (fst (removeCanceled cs b st)))) (snd (removeCanceled cs b st))"
proof -
  have "F + mset (pb_entries b) =
      F + mset (filter (\<lambda>e. \<not> canceled cs e) (pb_entries b)) + mset (filter (canceled cs) (pb_entries b))"
    by (metis add.assoc mset_canceled)
  with assms show ?thesis unfolding removeCanceled_parts by (metis base_inv_finish_all)
qed

lemma mset_move: "X + E = K + P \<Longrightarrow> E = K + G \<Longrightarrow> P + F = X + (F + G)" for X E K P G F :: "'a multiset"
  by (auto simp: ac_simps)

lemma base_inv_seal:
  assumes "base_inv c (F + mset (pb_entries b)) st" and "pb_entries b = [] \<or> pending_ok c scope b"
  shows "base_inv c F (seal_nonempty (fst scope) b st)"
  using assms base_inv_enqueue [of c F "\<lparr>sb_tenant = fst scope, sb_entries = pb_entries b\<rparr>" st] pending_ok_seal [of c scope b]
  by (auto simp: seal_nonempty_def)

lemma finish_all_pending: "(finish_all r es st)\<lparr>b_pending := m\<rparr> = finish_all r es (st\<lparr>b_pending := m\<rparr>)"
  "b_pending (finish_all r es st) = b_pending st"
  by (simp_all add: finish_all_eq)

lemma base_inv_drain_scope:
  assumes "base_inv c F st"
  shows "base_inv c F (drain_scope cs st scope)"
proof (cases "map_of (b_pending st) scope")
  case (Some b)
  let ?st = "st\<lparr>b_pending := AList.delete scope (b_pending st)\<rparr>"
  have "drain_scope cs st scope = seal_nonempty (fst scope) (fst (removeCanceled cs b ?st)) (snd (removeCanceled cs b ?st))"
    using Some by (simp add: drain_scope_def case_prod_unfold removeCanceled_parts finish_all_pending removeCanceled_def Let_def)
  with base_inv_seal [OF base_inv_removeCanceled [OF base_inv_take [OF assms Some]] removeCanceled_ok [OF pending_lookup_ok [OF assms Some]]]
  show ?thesis by simp
qed (use assms in \<open>simp add: drain_scope_def\<close>)

lemma base_inv_expire_scope:
  assumes "base_inv c F st"
  shows "base_inv c F (expire_scope c now cs st scope)"
proof (cases "map_of (b_pending st) scope")
  case (Some b)
  let ?kept = "fst (removeCanceled cs b st)" and ?gone = "filter (canceled cs) (pb_entries b)"
  let ?del = "st\<lparr>b_pending := AList.delete scope (b_pending st)\<rparr>" and ?upd = "st\<lparr>b_pending := AList.update scope ?kept (b_pending st)\<rparr>"
  note ok = removeCanceled_ok [OF pending_lookup_ok [OF assms Some], of cs st]
  have eq: "expire_scope c now cs st scope =
      (if pb_entries ?kept = [] then finish_all ResCanceled ?gone ?del
       else if pb_oldest ?kept + c_wait c \<le> now
         then enqueueReady \<lparr>sb_tenant = fst scope, sb_entries = pb_entries ?kept\<rparr> (finish_all ResCanceled ?gone ?del)
       else finish_all ResCanceled ?gone ?upd)"
    using Some by (simp add: expire_scope_def case_prod_unfold removeCanceled_def Let_def finish_all_pending)
  have del: "base_inv c (F + mset (pb_entries ?kept)) (finish_all ResCanceled ?gone ?del)"
    using base_inv_removeCanceled [OF base_inv_take [OF assms Some], of cs] by (simp add: removeCanceled_parts)
  have upd: "base_inv c F (finish_all ResCanceled ?gone ?upd)" if "pb_entries ?kept \<noteq> []"
  proof (rule base_inv_finish_all, rule base_inv_pending [OF assms])
    show "pending_shape c (AList.update scope ?kept (b_pending st))"
      using ok that assms by (auto simp: base_inv_def intro: pending_shape_update)
    have "content pb_entries (AList.update scope ?kept (b_pending st)) + mset (pb_entries b) = mset (pb_entries ?kept) + content pb_entries (b_pending st)"
      by (rule content_update_present [OF Some])
    then show "content pb_entries (b_pending st) + F = content pb_entries (AList.update scope ?kept (b_pending st)) + (F + mset ?gone)"
      by (rule mset_move) (simp only: removeCanceled_parts(2) mset_canceled [of b cs, symmetric])
  qed
  show ?thesis
    unfolding eq using del upd ok base_inv_enqueue [OF _ pending_ok_seal, of c F scope ?kept "finish_all ResCanceled ?gone ?del"]
    by auto
qed (use assms in \<open>simp add: expire_scope_def\<close>)

lemma base_inv_foldl:
  assumes "base_inv c F st" and "\<And>s x. base_inv c F s \<Longrightarrow> base_inv c F (f s x)"
  shows "base_inv c F (foldl f st xs)"
  using assms(1) by (induction xs arbitrary: st) (simp_all add: assms(2))

lemma content_delete_lookup:
  assumes "distinct (map fst m)"
  shows "content f m = (case map_of m k of None \<Rightarrow> {#} | Some v \<Rightarrow> mset (f v)) + content f (AList.delete k m)"
proof (cases "map_of m k")
  case None
  then have "AList.delete k m = m" by (intro delete_absent) (simp add: map_of_eq_None_iff)
  with None show ?thesis by simp
next
  case (Some v)
  with content_delete [OF assms Some] show ?thesis by simp
qed

lemma content_update:
  assumes "distinct (map fst m)"
  shows "content f (AList.update k v m) = mset (f v) + content f (AList.delete k m)"
proof (cases "map_of m k")
  case None
  with content_delete_lookup [OF assms, of f k] show ?thesis by (simp add: content_update_absent)
next
  case (Some w)
  have "content f (AList.update k v m) + mset (f w) = mset (f v) + content f (AList.delete k m) + mset (f w)"
    using content_update_present [OF Some, of f v] content_delete [OF assms Some, of f] by (simp add: ac_simps)
  then show ?thesis by simp
qed

text \<open>The batch an entry joins, and the entries of the scope still in the map.\<close>

definition joins :: "batcher_config \<Rightarrow> batch_scope \<Rightarrow> pending_batch \<Rightarrow> batch_entry \<Rightarrow> batcher \<Rightarrow> bool" where
  "joins c scope batch e st \<longleftrightarrow>
     (map_of (b_pending st) scope = None \<and> batch = empty_batch e) \<or>
     (map_of (b_pending st) scope = Some batch \<and> \<not> wouldExceedBatch c batch e)"

lemma batch_for_inv:
  assumes "base_inv c F st"
  shows "base_inv c F (snd (batch_for c cs scope e st))"
    and "joins c scope (fst (batch_for c cs scope e st)) e (snd (batch_for c cs scope e st))"
proof -
  have "base_inv c F (snd (batch_for c cs scope e st)) \<and> joins c scope (fst (batch_for c cs scope e st)) e (snd (batch_for c cs scope e st))"
  proof (cases "map_of (b_pending st) scope")
    case None
    then show ?thesis using assms by (simp add: batch_for_def joins_def)
  next
    case (Some b)
    have ne: "pb_entries b \<noteq> []" using pending_lookup_ok [OF assms Some] by (simp add: pending_ok_def)
    show ?thesis
    proof (cases "wouldExceedBatch c b e")
      case False
      then show ?thesis using assms Some by (simp add: batch_for_def joins_def)
    next
      case True
      let ?st = "st\<lparr>b_pending := AList.delete scope (b_pending st)\<rparr>"
      let ?r = "removeCanceled cs b ?st"
      have "base_inv c F (seal_nonempty (fst scope) (fst ?r) (snd ?r))"
        by (rule base_inv_seal [OF base_inv_removeCanceled [OF base_inv_take [OF assms Some]]
              removeCanceled_ok [OF pending_lookup_ok [OF assms Some]]])
      moreover have "b_pending (seal_nonempty (fst scope) (fst ?r) (snd ?r)) = AList.delete scope (b_pending st)"
        by (simp add: seal_nonempty_def enqueueReady_def removeCanceled_parts finish_all_pending)
      ultimately show ?thesis
        using Some ne True by (simp add: batch_for_def joins_def case_prod_unfold Let_def map_of_delete)
    qed
  qed
  then show "base_inv c F (snd (batch_for c cs scope e st))"
    "joins c scope (fst (batch_for c cs scope e st)) e (snd (batch_for c cs scope e st))" by simp_all
qed

lemma joined_ok:
  assumes "base_inv c F st" and "joins c scope batch e st" and "in_scope scope e" and "config_ok c"
  shows "sealed_ok c \<lparr>sb_tenant = fst scope, sb_entries = pb_entries batch @ [e]\<rparr>"
    and "\<not> c_bytes c < e_bytes e \<Longrightarrow> \<not> c_records c < e_records e \<Longrightarrow> \<not> c_requests c \<le> int (length (pb_entries batch @ [e])) \<Longrightarrow>
      pending_ok c scope (append_entry batch e)"
proof -
  have "batch = empty_batch e \<or> (pending_ok c scope batch \<and> \<not> wouldExceedBatch c batch e)"
    using assms(2) pending_lookup_ok [OF assms(1), of scope batch] by (auto simp: joins_def)
  then show "sealed_ok c \<lparr>sb_tenant = fst scope, sb_entries = pb_entries batch @ [e]\<rparr>"
    "\<not> c_bytes c < e_bytes e \<Longrightarrow> \<not> c_records c < e_records e \<Longrightarrow> \<not> c_requests c \<le> int (length (pb_entries batch @ [e])) \<Longrightarrow>
      pending_ok c scope (append_entry batch e)"
    using assms(3,4)
    by (auto simp: sealed_ok_def pending_ok_def append_entry_def empty_batch_def within_limits_def wouldExceedBatch_def config_ok_def
        intro!: exI [of _ "snd scope"])
qed

lemma base_inv_addEntry:
  assumes inv: "base_inv c (add_mset e F) st" and e: "entry_ok e" and c: "config_ok c"
  shows "base_inv c F (addEntry c cs e st)"
proof (cases "canceled cs e")
  case True
  then show ?thesis using base_inv_finish_one [OF inv] by (simp add: addEntry_def)
next
  case False
  show ?thesis
  proof (cases "laneForAcceptance (e_acceptance e)")
    case (Inl err)
    then show ?thesis using base_inv_finish_one [OF inv] False by (simp add: addEntry_def)
  next
    case (Inr lane)
    define scope batch st1 where "scope = (e_tenant e, lane)" and "batch = fst (batch_for c cs scope e st)"
      and "st1 = snd (batch_for c cs scope e st)"
    let ?full = "append_entry batch e" and ?m = "b_pending st1"
    have scope: "in_scope scope e" using e Inr by (simp add: in_scope_def scope_def)
    note st1 = batch_for_inv [OF inv, where cs = cs and scope = scope and e = e, folded batch_def st1_def]
    note ok = joined_ok [OF st1 scope c]
    have full: "pb_entries ?full = pb_entries batch @ [e]" by (simp add: append_entry_def)
    have dist: "distinct (map fst ?m)" and shape: "pending_shape c ?m" using st1(1) by (simp_all add: base_inv_def pending_shape_def)
    have cont: "content pb_entries ?m = mset (pb_entries batch) + content pb_entries (AList.delete scope ?m)"
      using content_delete_lookup [OF dist, of pb_entries scope] st1(2) by (auto simp: joins_def empty_batch_def)
    have eq: "addEntry c cs e st =
        (if c_bytes c < e_bytes e \<or> c_records c < e_records e \<or> c_requests c \<le> int (length (pb_entries ?full))
         then enqueueReady \<lparr>sb_tenant = e_tenant e, sb_entries = pb_entries ?full\<rparr> (st1\<lparr>b_pending := AList.delete scope ?m\<rparr>)
         else st1\<lparr>b_pending := AList.update scope ?full ?m\<rparr>)"
      using False Inr by (simp add: addEntry_def Let_def case_prod_unfold scope_def batch_def st1_def)
    have "base_inv c (F + mset (pb_entries batch @ [e])) (st1\<lparr>b_pending := AList.delete scope ?m\<rparr>)"
      by (rule base_inv_pending [OF st1(1) _ pending_shape_delete [OF shape]]) (simp add: cont ac_simps)
    then have sealed: "base_inv c F (enqueueReady \<lparr>sb_tenant = e_tenant e, sb_entries = pb_entries ?full\<rparr> (st1\<lparr>b_pending := AList.delete scope ?m\<rparr>))"
      using ok(1) by (intro base_inv_enqueue) (simp_all add: full scope_def)
    have "base_inv c F (st1\<lparr>b_pending := AList.update scope ?full ?m\<rparr>)"
      if "\<not> c_bytes c < e_bytes e" "\<not> c_records c < e_records e" "\<not> c_requests c \<le> int (length (pb_entries ?full))"
      by (rule base_inv_pending [OF st1(1) _ pending_shape_update [OF shape ok(2)]])
        (use that in \<open>simp_all add: cont content_update [OF dist] full ac_simps\<close>)
    with sealed show ?thesis unfolding eq by auto
  qed
qed

lemma base_inv_dispatch_one:
  assumes inv: "base_inv c F st" and room: "b_active st < c_workflows c" and some: "b_tenants st \<noteq> []"
  shows "\<exists>st'. dispatch_one st = Some st' \<and> base_inv c F st' \<and> b_pending st' = b_pending st \<and> b_draining st' = b_draining st"
proof -
  let ?f = "concat \<circ> map sb_entries"
  obtain t ts where ts: "b_tenants st = t # ts" using some by (cases "b_tenants st") auto
  have shape: "ready_shape c st" using inv by (simp add: base_inv_def)
  then obtain q where "map_of (b_ready st) t = Some q" and "q \<noteq> []" using ts by (force simp: ready_shape_def)
  then obtain sb rest where q: "map_of (b_ready st) t = Some (sb # rest)" by (cases q) auto
  have dist: "distinct (map fst (b_ready st))" using shape by (simp add: ready_shape_def)
  have sb: "list_all (\<lambda>sb. sb_tenant sb = t \<and> sealed_ok c sb) (sb # rest)" using shape q unfolding ready_shape_def by blast
  define m where "m = (if rest = [] then AList.delete t (b_ready st) else AList.update t rest (b_ready st))"
  define st' where "st' = st\<lparr>b_ready := m, b_tenants := (if rest = [] then ts else ts @ [t]), b_active := b_active st + 1,
    b_running := b_running st @ [sb]\<rparr>"
  have run: "dispatch_one st = Some st'" by (simp add: dispatch_one_def ts ready_of_def q st'_def m_def)
  have "content ?f (b_ready st) = mset (sb_entries sb) + content ?f m"
    using content_delete [OF dist q, of ?f] content_update [OF dist, of ?f t rest] by (simp add: m_def)
  then have "held st' = held st" by (simp add: held_def st'_def running_entries_def ac_simps)
  then have "accounts F st'" using inv by (simp add: base_inv_def accounts_def finished_def st'_def)
  moreover have "ready_shape c st'"
  proof -
    have lookup: "map_of m t' = (if t' = t then (if rest = [] then None else Some rest) else map_of (b_ready st) t')" for t'
      by (simp add: m_def map_of_delete map_of_update)
    have "distinct (t # ts)" and mem: "\<And>t'. t' \<in> set (t # ts) \<longleftrightarrow> map_of (b_ready st) t' \<noteq> None"
      and each: "\<And>t' q'. map_of (b_ready st) t' = Some q' \<Longrightarrow> q' \<noteq> [] \<and> list_all (\<lambda>sb. sb_tenant sb = t' \<and> sealed_ok c sb) q'"
      using shape unfolding ready_shape_def ts by blast+
    have "t' \<in> set (if rest = [] then ts else ts @ [t]) \<longleftrightarrow> map_of m t' \<noteq> None" for t'
      unfolding lookup using mem [of t'] \<open>distinct (t # ts)\<close> by (cases "t' = t") auto
    moreover have "q' \<noteq> [] \<and> list_all (\<lambda>sb. sb_tenant sb = t' \<and> sealed_ok c sb) q'" if "map_of m t' = Some q'" for t' q'
      using that sb each [of t' q'] unfolding lookup by (auto split: if_splits)
    moreover have "distinct (map fst m)" using dist by (simp add: m_def distinct_delete distinct_update)
    moreover have "distinct (if rest = [] then ts else ts @ [t])" using \<open>distinct (t # ts)\<close> by simp
    ultimately show ?thesis unfolding ready_shape_def st'_def by simp
  qed
  moreover have "running_shape c st'"
    using inv room sb by (simp add: base_inv_def running_shape_def st'_def)
  ultimately have "base_inv c F st'" using inv by (simp add: base_inv_def st'_def)
  with run show ?thesis by (simp add: st'_def)
qed

lemma base_inv_dispatch:
  "base_inv c F st \<Longrightarrow> \<exists>st'. dispatchReady c st = Some st' \<and> base_inv c F st' \<and> b_pending st' = b_pending st \<and>
     b_draining st' = b_draining st \<and> (b_active st' = c_workflows c \<or> b_tenants st' = [])"
proof (induction c st rule: dispatchReady.induct)
  case (1 c st)
  show ?case
  proof (cases "b_active st < c_workflows c \<and> b_tenants st \<noteq> []")
    case True
    with base_inv_dispatch_one [OF 1(2)] obtain st1 where
      st1: "dispatch_one st = Some st1" "base_inv c F st1" "b_pending st1 = b_pending st" "b_draining st1 = b_draining st" by blast
    from 1(1) [OF True st1(1,2)] st1 True show ?thesis by (simp add: dispatchReady.simps [of c st])
  next
    case False
    have "b_active st \<le> c_workflows c" using 1(2) by (simp add: base_inv_def running_shape_def)
    with False 1(2) show ?thesis by (auto simp: dispatchReady.simps [of c st])
  qed
qed

lemma base_inv_flags [simp]:
  "base_inv c F (st\<lparr>b_exited := x\<rparr>) = base_inv c F st" "base_inv c F (st\<lparr>b_draining := x\<rparr>) = base_inv c F st"
  by (simp_all add: base_inv_def accounts_def finished_def ready_shape_def running_shape_def)

lemma base_inv_loop_head:
  assumes "base_inv c F st"
  shows "\<exists>st'. loop_head c st = Some st' \<and> base_inv c F st'"
proof -
  from base_inv_dispatch [OF assms] obtain s where "dispatchReady c st = Some s" "base_inv c F s" by blast
  then show ?thesis by (simp add: loop_head_def)
qed

lemma base_inv_on_input:
  assumes "base_inv c {#} st" and "e \<in> set (b_waiting st)" and "config_ok c"
  shows "base_inv c {#} (on_input c cs e st)"
proof -
  let ?st = "st\<lparr>b_waiting := remove1 e (b_waiting st)\<rparr>"
  have "entry_ok e" using assms(1,2) by (simp add: base_inv_def list_all_iff)
  have "mset (b_waiting st) = add_mset e (mset (remove1 e (b_waiting st)))" using assms(2) by simp
  then have "held st = add_mset e (held ?st)" by (simp add: held_def running_entries_def)
  moreover have "list_all entry_ok (remove1 e (b_waiting st))"
    using assms(1) by (auto simp: base_inv_def list_all_iff dest: set_remove1_subset [THEN subsetD])
  ultimately have inv: "base_inv c (add_mset e {#}) ?st"
    using assms(1) unfolding base_inv_def accounts_def finished_def ready_shape_def running_shape_def by simp
  show ?thesis
    using base_inv_finish_one [OF inv] base_inv_addEntry [OF inv \<open>entry_ok e\<close> assms(3)]
    by (simp add: on_input_def Let_def)
qed

lemma base_inv_on_completed:
  assumes "base_inv c {#} st" and "k < length (b_running st)"
  shows "base_inv c {#} (on_completed k rs st)"
proof -
  let ?run = "take k (b_running st) @ drop (Suc k) (b_running st)" and ?es = "sb_entries (b_running st ! k)"
  let ?st = "st\<lparr>b_active := b_active st - 1, b_running := ?run\<rparr>"
  have split: "b_running st = take k (b_running st) @ b_running st ! k # drop (Suc k) (b_running st)"
    using assms(2) by (rule id_take_nth_drop)
  have "running_entries st = concat (map sb_entries (take k (b_running st))) @ ?es @ concat (map sb_entries (drop (Suc k) (b_running st)))"
    unfolding running_entries_def by (subst split) simp
  then have "held st = held ?st + mset ?es" by (simp add: held_def running_entries_def ac_simps)
  moreover have "running_shape c ?st"
    using assms by (auto simp: base_inv_def running_shape_def list_all_iff dest: in_set_takeD in_set_dropD)
  ultimately have "base_inv c ({#} + mset ?es) ?st"
    using assms(1) by (simp add: base_inv_def accounts_def finished_def ready_shape_def)
  then show ?thesis
    unfolding on_completed_def Let_def by (intro base_inv_finish) simp
qed

lemma base_inv_root_done:
  assumes "base_inv c {#} st"
  shows "base_inv c {#} (on_root_done st)"
proof -
  let ?st = "st\<lparr>b_pending := [], b_ready := [], b_tenants := [], b_exited := True\<rparr>"
  have entries: "mset (pending_entries st) = content pb_entries (b_pending st)"
    "mset (ready_entries st) = content (concat \<circ> map sb_entries) (b_ready st)"
    by (simp_all add: pending_entries_def ready_entries_def content_def comp_assoc)
  have eq: "on_root_done st = finish_all ResDraining (ready_entries st) (finish_all ResDraining (pending_entries st) ?st)"
    by (simp add: on_root_done_def finish_all_eq)
  have "held st = held ?st + mset (ready_entries st) + mset (pending_entries st)"
    unfolding entries by (simp add: held_def running_entries_def ac_simps)
  then have "base_inv c ({#} + mset (ready_entries st) + mset (pending_entries st)) ?st"
    using assms by (simp add: base_inv_def accounts_def finished_def ready_shape_def running_shape_def pending_shape_def ac_simps)
  then show ?thesis unfolding eq by (intro base_inv_finish_all)
qed

lemma base_inv_accept_slot:
  assumes "base_inv c {#} st" and "enabled c st (AcceptSlot e)"
  shows "base_inv c {#} (accept_slot e st)"
proof -
  have "held (accept_slot e st) = add_mset e (held st)" by (simp add: held_def accept_slot_def running_entries_def)
  with assms show ?thesis
    by (auto simp: base_inv_def accounts_def finished_def accept_slot_def enabled_def entry_ok_def ready_shape_def running_shape_def)
qed

lemma base_inv_accept_abandon:
  assumes "base_inv c {#} st" and "e \<in> set (b_waiting st)"
  shows "base_inv c {#} (accept_abandon e st)"
proof -
  have "mset (b_waiting st) = add_mset e (mset (remove1 e (b_waiting st)))" using assms(2) by simp
  then have held: "held st = add_mset e (held (accept_abandon e st))" by (simp add: held_def accept_abandon_def running_entries_def)
  have adm: "mset (b_admitted st) = held st + finished st" using assms(1) by (simp add: base_inv_def accounts_def)
  then have "mset (remove1 e (b_admitted st)) = held (accept_abandon e st) + finished st" by (simp add: held)
  moreover have "distinct (map e_id (remove1 e (b_admitted st)))"
    using assms(1) by (simp add: base_inv_def distinct_map inj_on_diff)
  ultimately show ?thesis
    using assms(1) held
    by (auto simp: base_inv_def accounts_def finished_def accept_abandon_def ready_shape_def running_shape_def list_all_iff
        dest: set_remove1_subset [THEN subsetD])
qed

lemma handle_inv:
  assumes "base_inv c {#} st" and "config_ok c" and "enabled c st ev"
  shows "\<exists>st'. handle c ev st = Some st' \<and> base_inv c {#} st'"
proof (cases ev)
  case (AcceptSlot e)
  then show ?thesis using base_inv_accept_slot assms by (simp add: handle_def)
next
  case (AcceptAbandon e)
  then show ?thesis using base_inv_accept_abandon assms by (simp add: handle_def enabled_def)
next
  case (Input cs e)
  then have "base_inv c {#} (on_input c cs e st)" using base_inv_on_input assms by (simp add: enabled_def)
  from base_inv_loop_head [OF this] Input show ?thesis by (simp add: handle_def)
next
  case (Completed k rs)
  then have "base_inv c {#} (on_completed k rs st)" using base_inv_on_completed assms by (simp add: enabled_def)
  from base_inv_loop_head [OF this] Completed show ?thesis by (simp add: handle_def)
next
  case (TimerFired now cs order)
  have "base_inv c {#} (on_timer c now cs order st)"
    unfolding on_timer_def by (rule base_inv_foldl [OF assms(1) base_inv_expire_scope])
  from base_inv_loop_head [OF this] TimerFired show ?thesis by (simp add: handle_def)
next
  case (DrainRequest cs order)
  have "base_inv c {#} (on_drain cs order st)"
    unfolding on_drain_def using assms(1) by (auto intro: base_inv_foldl base_inv_drain_scope)
  from base_inv_loop_head [OF this] DrainRequest show ?thesis by (simp add: handle_def)
next
  case RootDone
  then show ?thesis using base_inv_root_done [OF assms(1)] by (simp add: handle_def)
qed

lemma base_inv_new: "config_ok c \<Longrightarrow> base_inv c {#} newBatcher"
  by (simp add: base_inv_def newBatcher_def accounts_def held_def finished_def running_entries_def pending_shape_def
      ready_shape_def running_shape_def config_ok_def)

interpretation batcher_machine: state_machine "\<lambda>st. st = newBatcher" "batcher_step (batcher_defaults cfg)"
  "base_inv (batcher_defaults cfg) {#}" for cfg
proof
  fix s t
  show "s = newBatcher \<Longrightarrow> base_inv (batcher_defaults cfg) {#} s"
    using base_inv_new [OF batcher_defaults_ok] by simp
  show "batcher_step (batcher_defaults cfg) s t \<Longrightarrow> base_inv (batcher_defaults cfg) {#} s \<Longrightarrow> base_inv (batcher_defaults cfg) {#} t"
    using handle_inv [OF _ batcher_defaults_ok] by (fastforce elim!: batcher_step.cases)
qed

definition batcher_reachable :: "batcher_config \<Rightarrow> batcher \<Rightarrow> bool" where
  "batcher_reachable cfg st \<longleftrightarrow> reachable (\<lambda>s. s = newBatcher) (batcher_step (batcher_defaults cfg)) st"

lemma batcher_reachable_inv: "batcher_reachable cfg st \<Longrightarrow> base_inv (batcher_defaults cfg) {#} st"
  unfolding batcher_reachable_def by (rule batcher_machine.reachable_inv)

lemma batcher_reachable_new: "batcher_reachable cfg newBatcher"
  unfolding batcher_reachable_def by (simp add: reachable_init)

lemma batcher_reachable_handle:
  "batcher_reachable cfg st \<Longrightarrow> enabled (batcher_defaults cfg) st ev \<Longrightarrow> handle (batcher_defaults cfg) ev st = Some st' \<Longrightarrow>
   batcher_reachable cfg st'"
  unfolding batcher_reachable_def by (rule reachable_step) (auto intro: batcher_step.intros)

text \<open>After the loop has ended nothing is answered any more.\<close>

lemma exited_step:
  "batcher_step c st st' \<Longrightarrow> b_exited st \<Longrightarrow> b_exited st' \<and> b_results st' = b_results st \<and> b_running st' = b_running st"
  by (auto elim!: batcher_step.cases simp: enabled_def handle_def accept_slot_def accept_abandon_def split: batcher_event.splits)

lemma exited_run:
  "(batcher_step c)\<^sup>*\<^sup>* st st' \<Longrightarrow> b_exited st \<Longrightarrow> b_exited st' \<and> b_results st' = b_results st \<and> b_running st' = b_running st"
  by (induction rule: rtranclp_induct) (auto dest: exited_step)

lemma map_of_all_None: "(\<And>k. map_of m k = None) \<Longrightarrow> m = []"
proof (cases m)
  case (Cons a list)
  assume "\<And>k. map_of m k = None"
  from this [of "fst a"] Cons show ?thesis by simp
qed simp

lemma exited_local [simp]:
  "b_exited (finishEntry st er) = b_exited st" "b_exited (finish_all r es st) = b_exited st"
  "b_exited (enqueueReady sb st) = b_exited st" "b_exited (seal_nonempty t b st) = b_exited st"
  "b_exited (foldl finishEntry st ers) = b_exited st"
  by (simp_all add: finishEntry_def finish_all_eq enqueueReady_def seal_nonempty_def foldl_finishEntry)

lemma exited_expire: "b_exited (foldl (expire_scope c now cs) st order) = b_exited st"
  by (induction order arbitrary: st)
    (auto simp: expire_scope_def removeCanceled_def Let_def split: option.split)

lemma exited_drain: "b_exited (foldl (drain_scope cs) st order) = b_exited st"
  by (induction order arbitrary: st)
    (auto simp: drain_scope_def removeCanceled_def Let_def split: option.split)

lemma exited_ops:
  "b_exited (on_input c cs e st) = b_exited st" "b_exited (on_completed k rs st) = b_exited st"
  "b_exited (on_timer c now cs order st) = b_exited st" "b_exited (on_drain cs order st) = b_exited st"
  by (auto simp: on_input_def addEntry_def batch_for_def removeCanceled_def on_completed_def on_timer_def on_drain_def
      exited_expire exited_drain Let_def split: sum.split option.split)

lemma dispatch_exited: "dispatchReady c st = Some st' \<Longrightarrow> b_exited st' = b_exited st"
proof (induction c st rule: dispatchReady.induct)
  case (1 c st)
  show ?case
  proof (cases "b_active st < c_workflows c \<and> b_tenants st \<noteq> []")
    case True
    with 1(2) obtain s where s: "dispatch_one st = Some s" "dispatchReady c s = Some st'"
      by (auto simp: dispatchReady.simps [of c st] split: option.splits)
    have "b_exited s = b_exited st" using s(1) by (auto simp: dispatch_one_def split: list.splits)
    with 1(1) [OF True s] show ?thesis by simp
  next
    case False
    then have "dispatchReady c st = Some st" by (subst dispatchReady.simps) (simp only: if_False)
    with 1(2) show ?thesis by simp
  qed
qed

lemma loop_head_exit:
  assumes "loop_head c s = Some t" and "\<not> b_exited s" and "b_exited t"
  shows "b_draining t" "b_pending t = []" "b_tenants t = []" "b_active t = 0"
  using assms dispatch_exited [of c s] by (auto simp: loop_head_def split: if_splits)

subsection \<open>Properties\<close>

text \<open>
  C14: in every reachable interleaving each admitted request is in exactly one place -
  waiting for the loop, in a pending batch, in a sealed batch, in a running workflow - or has
  been answered, and never twice; the slots in use are the unanswered requests and never
  exceed the configured limit.
\<close>

theorem batcher_accounts_for_every_request:
  assumes "batcher_reachable cfg st"
  shows "mset (b_admitted st) = mset (b_waiting st) + mset (pending_entries st) + mset (ready_entries st) + mset (running_entries st) +
      mset (map fst (b_results st)) \<and>
    distinct (map (e_id \<circ> fst) (b_results st)) \<and>
    b_slots st = int (length (b_admitted st)) - int (length (b_results st)) \<and> 0 \<le> b_slots st \<and>
    b_slots st \<le> c_waiting (batcher_defaults cfg)"
proof -
  note inv = batcher_reachable_inv [OF assms]
  have held: "held st = mset (b_waiting st) + mset (pending_entries st) + mset (ready_entries st) + mset (running_entries st)"
    by (simp add: held_def content_def pending_entries_def ready_entries_def comp_assoc)
  have adm: "mset (b_admitted st) = held st + mset (map fst (b_results st))" and slots: "b_slots st = int (size (held st))"
    using inv by (simp_all add: base_inv_def accounts_def finished_def)
  have "mset (map e_id (b_admitted st)) = image_mset e_id (held st) + mset (map (e_id \<circ> fst) (b_results st))"
    unfolding mset_map adm by (simp add: multiset.map_comp comp_def)
  moreover have "distinct (map e_id (b_admitted st))" using inv by (simp add: base_inv_def)
  ultimately have "distinct (map (e_id \<circ> fst) (b_results st))"
    by (metis distinct_append ex_mset mset_append mset_eq_imp_distinct_iff)
  moreover have "int (length (b_admitted st)) = b_slots st + int (length (b_results st))"
    using arg_cong [OF adm, of size] slots by simp
  ultimately show ?thesis
    using adm held slots inv by (simp add: base_inv_def)
qed

definition sample_entry :: batch_entry where
  "sample_entry = \<lparr>e_id = 0, e_tenant = 4, e_acceptance = newAcceptanceID ''0123456789abcdef'', e_bytes = 10, e_records = 1, e_enqueued = 0\<rparr>"

definition sample_config :: batcher_config where
  "sample_config = \<lparr>c_bytes = 100, c_records = 10, c_requests = 1, c_wait = 5, c_waiting = 3, c_workflows = 1\<rparr>"

lemma sample_defaults: "batcher_defaults sample_config = sample_config"
  by (simp add: sample_config_def batcher_defaults_def or_default_def)

lemma sample_slot: "batcher_reachable sample_config (accept_slot sample_entry newBatcher)"
  by (rule batcher_reachable_handle [OF batcher_reachable_new, of _ "AcceptSlot sample_entry"])
    (simp_all add: sample_defaults enabled_def handle_def, simp_all add: newBatcher_def sample_config_def sample_entry_def)

text \<open>The request is sealed at once, for a batch holds one request here, and dispatched.\<close>

definition sample_running :: batcher where
  "sample_running = (accept_slot sample_entry newBatcher)\<lparr>b_waiting := [], b_active := 1,
     b_running := [\<lparr>sb_tenant = 4, sb_entries = [sample_entry]\<rparr>]\<rparr>"

lemma sample_input: "batcher_reachable sample_config sample_running"
proof -
  obtain lane where lane: "laneForAcceptance (newAcceptanceID ''0123456789abcdef'') = Inr lane"
    using newAcceptanceID_lane [of "''0123456789abcdef''"] by auto
  have "enabled sample_config (accept_slot sample_entry newBatcher) (Input [] sample_entry)"
    by (simp add: enabled_def accept_slot_def newBatcher_def)
  moreover have "handle sample_config (Input [] sample_entry) (accept_slot sample_entry newBatcher) = Some sample_running"
    using lane
    by (simp add: handle_def loop_head_def on_input_def accept_slot_def newBatcher_def addEntry_def canceled_def sample_entry_def
        batch_for_def append_entry_def empty_batch_def sample_config_def enqueueReady_def ready_of_def sample_running_def
        dispatchReady.simps dispatch_one_def Let_def)
  ultimately show ?thesis
    using batcher_reachable_handle [OF sample_slot] by (simp add: sample_defaults)
qed

theorem batcher_accounts_for_every_request_witness:
  "mset (b_admitted sample_running) = mset (running_entries sample_running) \<and> b_slots sample_running = 1"
  using batcher_accounts_for_every_request [OF sample_input]
  by (simp add: sample_running_def accept_slot_def newBatcher_def pending_entries_def ready_entries_def running_entries_def)

text \<open>
  C22: every batch handed to a workflow, or queued for one, holds between one and
  \<open>MaxBatchRequests\<close> requests of a single tenant and lane; unless it is a single request, its
  bytes and records are within the limits. At most \<open>MaxUploadWorkflows\<close> batches run.
\<close>

theorem batches_respect_limits:
  assumes "batcher_reachable cfg st" and "sb \<in> set (b_running st) \<or> (\<exists>t q. map_of (b_ready st) t = Some q \<and> sb \<in> set q)"
  shows "(let c = batcher_defaults cfg; es = sb_entries sb in
    1 \<le> length es \<and> int (length es) \<le> c_requests c \<and>
    (length es = 1 \<or> sum_list (map e_bytes es) \<le> c_bytes c \<and> sum_list (map e_records es) \<le> c_records c) \<and>
    (\<exists>lane. list_all (\<lambda>e. e_tenant e = sb_tenant sb \<and> laneForAcceptance (e_acceptance e) = Inr lane) es) \<and>
    int (length (b_running st)) \<le> c_workflows c)"
proof -
  note inv = batcher_reachable_inv [OF assms(1)]
  have run: "running_shape (batcher_defaults cfg) st" and ready: "ready_shape (batcher_defaults cfg) st"
    using inv by (simp_all add: base_inv_def)
  have ok: "sealed_ok (batcher_defaults cfg) sb"
    using assms(2)
  proof
    assume "sb \<in> set (b_running st)"
    with run show ?thesis by (simp add: running_shape_def list_all_iff)
  next
    assume "\<exists>t q. map_of (b_ready st) t = Some q \<and> sb \<in> set q"
    then obtain t q where "map_of (b_ready st) t = Some q" "sb \<in> set q" by blast
    with ready have "list_all (\<lambda>sb. sb_tenant sb = t \<and> sealed_ok (batcher_defaults cfg) sb) q"
      unfolding ready_shape_def by blast
    with \<open>sb \<in> set q\<close> show ?thesis by (simp add: list_all_iff)
  qed
  have "1 \<le> length (sb_entries sb)" using ok by (cases "sb_entries sb") (simp_all add: sealed_ok_def)
  with ok run show ?thesis
    by (auto simp: sealed_ok_def within_limits_def in_scope_def running_shape_def list_all_iff Let_def)
qed

theorem batches_respect_limits_witness:
  "let sb = \<lparr>sb_tenant = 4, sb_entries = [sample_entry]\<rparr> in
   sb \<in> set (b_running sample_running) \<and>
   (\<exists>lane. laneForAcceptance (e_acceptance sample_entry) = Inr lane \<and> e_tenant sample_entry = 4)"
proof -
  have "\<lparr>sb_tenant = 4, sb_entries = [sample_entry]\<rparr> \<in> set (b_running sample_running)" by (simp add: sample_running_def)
  with batches_respect_limits [OF sample_input, of "\<lparr>sb_tenant = 4, sb_entries = [sample_entry]\<rparr>"] show ?thesis
    by (auto simp: Let_def)
qed

text \<open>
  No reachable state makes the loop panic on an empty queue, and the loop is work
  conserving: after every turn either all workflow slots are busy or no sealed batch waits.
\<close>

theorem batcher_work_conserving:
  assumes "batcher_reachable cfg st" and "enabled (batcher_defaults cfg) st ev"
  shows "\<exists>st'. handle (batcher_defaults cfg) ev st = Some st' \<and>
    ((\<forall>e. ev \<noteq> AcceptSlot e \<and> ev \<noteq> AcceptAbandon e) \<longrightarrow>
      b_active st' = c_workflows (batcher_defaults cfg) \<or> b_ready st' = [])"
proof -
  let ?c = "batcher_defaults cfg"
  note inv = batcher_reachable_inv [OF assms(1)]
  from handle_inv [OF inv batcher_defaults_ok assms(2)] obtain st' where
    st': "handle ?c ev st = Some st'" "base_inv ?c {#} st'" by blast
  have head: "b_active t = c_workflows ?c \<or> b_tenants t = []" if "base_inv ?c {#} s" "loop_head ?c s = Some t" for s t
    using base_inv_dispatch [OF that(1)] that(2) by (auto simp: loop_head_def)
  have "b_ready st' = []" if "b_tenants st' = []"
  proof -
    have "map_of (b_ready st') t = None" for t using st'(2) that by (auto simp: base_inv_def ready_shape_def)
    then show ?thesis by (rule map_of_all_None)
  qed
  moreover have "b_active st' = c_workflows ?c \<or> b_tenants st' = []" if "\<forall>e. ev \<noteq> AcceptSlot e \<and> ev \<noteq> AcceptAbandon e"
  proof (cases ev)
    case (Input cs e)
    then show ?thesis using st' base_inv_on_input [OF inv _ batcher_defaults_ok] assms(2) by (intro head) (auto simp: handle_def enabled_def)
  next
    case (Completed k rs)
    then show ?thesis using st' base_inv_on_completed [OF inv] assms(2) by (intro head) (auto simp: handle_def enabled_def)
  next
    case (TimerFired now cs order)
    then show ?thesis using st' base_inv_foldl [OF inv base_inv_expire_scope] by (intro head) (auto simp: handle_def on_timer_def)
  next
    case (DrainRequest cs order)
    have "base_inv ?c {#} (on_drain cs order st)"
      unfolding on_drain_def using inv by (auto intro: base_inv_foldl base_inv_drain_scope)
    then show ?thesis using st' DrainRequest by (intro head) (auto simp: handle_def)
  next
    case RootDone
    then show ?thesis using st' by (auto simp: handle_def on_root_done_def)
  qed (use that in auto)
  ultimately show ?thesis using st' by blast
qed

theorem batcher_work_conserving_witness:
  "\<exists>st'. handle sample_config (Input [] sample_entry) (accept_slot sample_entry newBatcher) = Some st' \<and>
     (b_active st' = 1 \<or> b_ready st' = [])"
proof -
  have "enabled sample_config (accept_slot sample_entry newBatcher) (Input [] sample_entry)"
    by (simp add: enabled_def accept_slot_def newBatcher_def)
  with batcher_work_conserving [OF sample_slot, of "Input [] sample_entry"] show ?thesis
    by (simp add: sample_defaults) (simp add: sample_config_def)
qed

text \<open>
  C39: the loop ends in an orderly way only when it drains and nothing is pending, queued or
  running; then every admitted request has been answered, except those that never entered the
  loop and give their slot back. While draining, a request that enters is refused.
\<close>

theorem batcher_drain_answers_everything:
  assumes "batcher_reachable cfg st" and "enabled (batcher_defaults cfg) st ev" and "handle (batcher_defaults cfg) ev st = Some st'"
    and "ev \<noteq> RootDone" and "\<not> b_exited st" and "b_exited st'"
  shows "b_draining st' \<and> b_pending st' = [] \<and> b_ready st' = [] \<and> b_running st' = [] \<and>
    mset (b_admitted st') = mset (b_waiting st') + mset (map fst (b_results st'))"
proof -
  let ?c = "batcher_defaults cfg"
  have inv: "base_inv ?c {#} st'"
    using handle_inv [OF batcher_reachable_inv [OF assms(1)] batcher_defaults_ok assms(2)] assms(3) by auto
  have not_accept: "\<forall>e. ev \<noteq> AcceptSlot e \<and> ev \<noteq> AcceptAbandon e"
    using assms(3,5,6) by (auto simp: handle_def accept_slot_def accept_abandon_def)
  then obtain s where s: "loop_head ?c s = Some st'" "\<not> b_exited s"
    using assms(3,4,5) by (cases ev) (auto simp: handle_def exited_ops)
  have fin: "b_draining st'" "b_pending st' = []" "b_tenants st' = []" "b_active st' = 0"
    using loop_head_exit [OF s assms(6)] by simp_all
  have "map_of (b_ready st') t = None" for t using inv fin by (auto simp: base_inv_def ready_shape_def)
  then have ready: "b_ready st' = []" by (rule map_of_all_None)
  have "b_running st' = []" using inv fin by (simp add: base_inv_def running_shape_def)
  with fin ready inv show ?thesis
    by (simp add: base_inv_def accounts_def held_def finished_def running_entries_def)
qed

theorem batcher_drain_answers_everything_witness:
  "let st' = newBatcher\<lparr>b_draining := True, b_exited := True\<rparr> in
   handle sample_config (DrainRequest [] []) newBatcher = Some st' \<and> b_draining st' \<and>
   mset (b_admitted st') = mset (b_waiting st') + mset (map fst (b_results st'))"
proof -
  let ?st = "newBatcher\<lparr>b_draining := True, b_exited := True\<rparr>"
  have h: "handle sample_config (DrainRequest [] []) newBatcher = Some ?st"
    by (simp add: handle_def loop_head_def on_drain_def newBatcher_def dispatchReady.simps)
  have "enabled sample_config newBatcher (DrainRequest [] [])" by (simp add: enabled_def newBatcher_def)
  with batcher_drain_answers_everything [OF batcher_reachable_new, of sample_config "DrainRequest [] []" ?st] h show ?thesis
    unfolding sample_defaults by (simp add: newBatcher_def)
qed

text \<open>
  C40: when the root context is canceled the loop refuses every request it still holds
  itself, but the requests of running workflows are left without an answer for good: no later
  step sends them a result, although \<open>Accept\<close> waits for one without any other way out.
\<close>

theorem batcher_cancel_strands_running:
  assumes "batcher_reachable cfg st" and "enabled (batcher_defaults cfg) st RootDone"
    and "handle (batcher_defaults cfg) RootDone st = Some st'"
  shows "mset (b_admitted st') = mset (b_waiting st') + mset (running_entries st) + mset (map fst (b_results st')) \<and>
    (\<forall>st''. (batcher_step (batcher_defaults cfg))\<^sup>*\<^sup>* st' st'' \<longrightarrow> b_results st'' = b_results st')"
proof -
  let ?c = "batcher_defaults cfg"
  have st': "st' = on_root_done st" using assms(3) by (simp add: handle_def)
  have inv: "base_inv ?c {#} st'" using base_inv_root_done [OF batcher_reachable_inv [OF assms(1)]] by (simp add: st')
  have parts: "b_pending st' = []" "b_ready st' = []" "b_exited st'" "running_entries st' = running_entries st"
    by (simp_all add: st' on_root_done_def running_entries_def finish_all_eq)
  have "mset (b_admitted st') = mset (b_waiting st') + mset (running_entries st) + mset (map fst (b_results st'))"
    using inv parts by (simp add: base_inv_def accounts_def held_def finished_def)
  then show ?thesis using exited_run parts(3) by blast
qed

theorem batcher_cancel_strands_running_witness:
  "let st' = on_root_done sample_running in
   batcher_reachable sample_config st' \<and> b_admitted st' = [sample_entry] \<and> b_results st' = [] \<and>
   (\<forall>st''. (batcher_step sample_config)\<^sup>*\<^sup>* st' st'' \<longrightarrow> b_results st'' = [])"
proof -
  have en: "enabled sample_config sample_running RootDone"
    by (simp add: enabled_def sample_running_def accept_slot_def newBatcher_def)
  have h: "handle sample_config RootDone sample_running = Some (on_root_done sample_running)" by (simp add: handle_def)
  have reach: "batcher_reachable sample_config (on_root_done sample_running)"
    using batcher_reachable_handle [OF sample_input] en h unfolding sample_defaults by blast
  have parts: "b_admitted (on_root_done sample_running) = [sample_entry]" "b_results (on_root_done sample_running) = []"
    by (simp_all add: on_root_done_def finish_all_eq sample_running_def accept_slot_def newBatcher_def pending_entries_def ready_entries_def)
  show ?thesis
    using batcher_cancel_strands_running [OF sample_input, unfolded sample_defaults, OF en h] reach parts by (simp add: Let_def)
qed

end
