(* ===== verification/GoJson.thy ===== *)
theory GoJson
  imports GoStd
begin

text \<open>
  What the program uses of Go's \<open>unicode/utf8\<close> and \<open>encoding/json\<close> packages. Go strings are byte
  lists; \<open>decodeRune\<close> and \<open>encodeRune\<close> follow the tables of \<open>unicode/utf8\<close>, the decoder follows
  the scanner of \<open>encoding/json\<close> (its nesting limit, its number grammar, its replacement of
  malformed UTF-8 and of lone surrogates), and the encoder is the one with \<open>SetEscapeHTML(false)\<close>.
  The value of an \<open>any\<close> decoded with \<open>UseNumber\<close> is the datatype \<open>json\<close>; an object keeps one
  entry per key, the last one written, in the order of first appearance.
  The decoder runs on fuel; \<open>parse_value_fuel\<close> shows that the fuel \<open>decodeJson\<close> gives it is never
  exhausted. The encoder is shown injective on trees of valid strings, which is what makes
  identities computed from canonical JSON unambiguous.
\<close>

subsection \<open>Runes\<close>

abbreviation runeError :: int where "runeError \<equiv> 65533"

definition cont_byte :: "char \<Rightarrow> bool" where
  "cont_byte c = (128 \<le> (of_char c :: int) \<and> (of_char c :: int) \<le> 191)"

definition decodeRune2 :: "int \<Rightarrow> char \<Rightarrow> int \<times> nat" where
  "decodeRune2 b0 c1 = (if cont_byte c1 then ((b0 - 192) * 64 + (of_char c1 - 128), 2) else (runeError, 1))"

definition decodeRune3 :: "int \<Rightarrow> char \<Rightarrow> char \<Rightarrow> int \<times> nat" where
  "decodeRune3 b0 c1 c2 =
    (if (if b0 = 224 then 160 else 128) \<le> (of_char c1 :: int) \<and> of_char c1 \<le> (if b0 = 237 then 159 else 191 :: int) \<and> cont_byte c2
     then ((b0 - 224) * 4096 + (of_char c1 - 128) * 64 + (of_char c2 - 128), 3) else (runeError, 1))"

definition decodeRune4 :: "int \<Rightarrow> char \<Rightarrow> char \<Rightarrow> char \<Rightarrow> int \<times> nat" where
  "decodeRune4 b0 c1 c2 c3 =
    (if (if b0 = 240 then 144 else 128) \<le> (of_char c1 :: int) \<and> of_char c1 \<le> (if b0 = 244 then 143 else 191 :: int) \<and> cont_byte c2 \<and> cont_byte c3
     then ((b0 - 240) * 262144 + (of_char c1 - 128) * 4096 + (of_char c2 - 128) * 64 + (of_char c3 - 128), 4) else (runeError, 1))"

definition decodeRune :: "string \<Rightarrow> int \<times> nat" where
  "decodeRune s = (case s of [] \<Rightarrow> (runeError, 0) | c0 # s1 \<Rightarrow>
    let b0 = of_char c0 in
    if b0 < 128 then (b0, 1)
    else if 194 \<le> b0 \<and> b0 \<le> 223 then (case s1 of c1 # _ \<Rightarrow> decodeRune2 b0 c1 | _ \<Rightarrow> (runeError, 1))
    else if 224 \<le> b0 \<and> b0 \<le> 239 then (case s1 of c1 # c2 # _ \<Rightarrow> decodeRune3 b0 c1 c2 | _ \<Rightarrow> (runeError, 1))
    else if 240 \<le> b0 \<and> b0 \<le> 244 then (case s1 of c1 # c2 # c3 # _ \<Rightarrow> decodeRune4 b0 c1 c2 c3 | _ \<Rightarrow> (runeError, 1))
    else (runeError, 1))"

definition encodeRune :: "int \<Rightarrow> string" where
  "encodeRune r =
    (if 0 \<le> r \<and> r < 128 then [char_of r]
     else if 0 \<le> r \<and> r < 2048 then [char_of (192 + r div 64), char_of (128 + r mod 64)]
     else if r < 0 \<or> 1114111 < r \<or> 55296 \<le> r \<and> r \<le> 57343 then [CHR 0xEF, CHR 0xBF, CHR 0xBD]
     else if r < 65536 then [char_of (224 + r div 4096), char_of (128 + r div 64 mod 64), char_of (128 + r mod 64)]
     else [char_of (240 + r div 262144), char_of (128 + r div 4096 mod 64), char_of (128 + r div 64 mod 64), char_of (128 + r mod 64)])"

lemma decodeRune_size: "s \<noteq> [] \<Longrightarrow> 0 < snd (decodeRune s)"
  by (auto simp: decodeRune_def decodeRune2_def decodeRune3_def decodeRune4_def Let_def split: list.split)

function runes :: "string \<Rightarrow> int list" where
  "runes s = (if s = [] then [] else fst (decodeRune s) # runes (drop (snd (decodeRune s)) s))"
  by pat_completeness auto
termination
  by (relation "measure length") (auto simp: decodeRune_size)

declare runes.simps [simp del]

definition string_of_runes :: "int list \<Rightarrow> string" where
  "string_of_runes rs = concat (map encodeRune rs)"

function utf8_valid :: "string \<Rightarrow> bool" where
  "utf8_valid s =
    (if s = [] then True else decodeRune s \<noteq> (runeError, 1) \<and> utf8_valid (drop (snd (decodeRune s)) s))"
  by pat_completeness auto
termination
  by (relation "measure length") (auto simp: decodeRune_size)

declare utf8_valid.simps [simp del]

lemma base64_digit: "0 \<le> b \<Longrightarrow> b < 64 \<Longrightarrow> (a * 64 + b) div 64 = a \<and> (a * 64 + b) mod 64 = (b :: int)"
  by auto

lemma div_64_64: "v div 4096 = v div 64 div (64 :: int)" "v div 262144 = v div 64 div 64 div (64 :: int)"
  using zdiv_zmult2_eq [of 64 v 64] zdiv_zmult2_eq [of 64 v 4096] zdiv_zmult2_eq [of 64 "v div 64" 64] by simp_all

lemma encode_decode2:
  assumes "194 \<le> (of_char c0 :: int)" "(of_char c0 :: int) \<le> 223" "cont_byte c1"
  shows "encodeRune ((of_char c0 - 192) * 64 + (of_char c1 - 128)) = [c0, c1]"
proof -
  define x y where "x = (of_char c0 :: int) - 192" and "y = (of_char c1 :: int) - 128"
  have r: "2 \<le> x" "x < 32" "0 \<le> y" "y < 64" using assms by (auto simp: x_def y_def cont_byte_def)
  then have "(x * 64 + y) div 64 = x" "(x * 64 + y) mod 64 = y" by auto
  with r have "encodeRune (x * 64 + y) = [char_of (192 + x), char_of (128 + y)]"
    by (simp add: encodeRune_def)
  then show ?thesis by (simp add: x_def y_def)
qed

lemma encode_decode3:
  assumes "224 \<le> (of_char c0 :: int)" "(of_char c0 :: int) \<le> 239" "cont_byte c2"
    and "(if of_char c0 = (224 :: int) then 160 else 128) \<le> (of_char c1 :: int)"
    and "(of_char c1 :: int) \<le> (if of_char c0 = (237 :: int) then 159 else 191)"
  shows "encodeRune ((of_char c0 - 224) * 4096 + (of_char c1 - 128) * 64 + (of_char c2 - 128)) = [c0, c1, c2]"
proof -
  define x y z where "x = (of_char c0 :: int) - 224" and "y = (of_char c1 :: int) - 128" and "z = (of_char c2 :: int) - 128"
  have r: "0 \<le> x" "x < 16" "0 \<le> y" "y < 64" "0 \<le> z" "z < 64"
    and low: "x = 0 \<Longrightarrow> 32 \<le> y" and sur: "x = 13 \<Longrightarrow> y \<le> 31"
    using assms by (auto simp: x_def y_def z_def cont_byte_def split: if_splits)
  define v where "v = x * 4096 + y * 64 + z"
  have v: "v div 4096 = x" "v div 64 mod 64 = y" "v mod 64 = z" 
    using r base64_digit [of y x] base64_digit [of z "x * 64 + y"] by (simp_all add: v_def div_64_64 algebra_simps)
  have big: "2048 \<le> v" "v < 65536" using r low unfolding v_def by (cases "x = 0"; simp)+
  have nosur: "v < 55296 \<or> 57343 < v" using r sur unfolding v_def by (cases "x < 13"; cases "x = 13") auto
  have "encodeRune v = [char_of (224 + x), char_of (128 + y), char_of (128 + z)]"
    using big nosur v by (auto simp: encodeRune_def)
  then show ?thesis by (simp add: x_def y_def z_def v_def)
qed

lemma encode_decode4:
  assumes "240 \<le> (of_char c0 :: int)" "(of_char c0 :: int) \<le> 244" "cont_byte c2" "cont_byte c3"
    and "(if of_char c0 = (240 :: int) then 144 else 128) \<le> (of_char c1 :: int)"
    and "(of_char c1 :: int) \<le> (if of_char c0 = (244 :: int) then 143 else 191)"
  shows "encodeRune ((of_char c0 - 240) * 262144 + (of_char c1 - 128) * 4096 + (of_char c2 - 128) * 64 + (of_char c3 - 128))
    = [c0, c1, c2, c3]"
proof -
  define x y z w where "x = (of_char c0 :: int) - 240" and "y = (of_char c1 :: int) - 128"
    and "z = (of_char c2 :: int) - 128" and "w = (of_char c3 :: int) - 128"
  have r: "0 \<le> x" "x \<le> 4" "0 \<le> y" "y < 64" "0 \<le> z" "z < 64" "0 \<le> w" "w < 64"
    and low: "x = 0 \<Longrightarrow> 16 \<le> y" and high: "x = 4 \<Longrightarrow> y \<le> 15"
    using assms by (auto simp: x_def y_def z_def w_def cont_byte_def split: if_splits)
  define v where "v = x * 262144 + y * 4096 + z * 64 + w"
  have v: "v div 262144 = x" "v div 4096 mod 64 = y" "v div 64 mod 64 = z" "v mod 64 = w"
    using r base64_digit [of y x] base64_digit [of z "x * 64 + y"] base64_digit [of w "(x * 64 + y) * 64 + z"]
    by (simp_all add: v_def div_64_64 algebra_simps)
  have big: "65536 \<le> v" using r low unfolding v_def by (cases "x = 0") auto
  have top: "v \<le> 1114111" using r high unfolding v_def by (cases "x = 4") auto
  have "encodeRune v = [char_of (240 + x), char_of (128 + y), char_of (128 + z), char_of (128 + w)]"
    using big top v by (auto simp: encodeRune_def)
  then show ?thesis by (simp add: x_def y_def z_def w_def v_def)
qed

text \<open>A rune that decodes without error is its own encoding, whatever follows it.\<close>

lemma decodeRune_local:
  assumes "s \<noteq> []" and "decodeRune s \<noteq> (runeError, 1)"
  shows "\<exists>u t. s = u @ t \<and> length u = snd (decodeRune s) \<and> encodeRune (fst (decodeRune s)) = u \<and>
    (\<forall>t'. decodeRune (u @ t') = decodeRune s)"
proof -
  obtain c0 s1 where s: "s = c0 # s1" using assms(1) by (cases s) auto
  define b where "b = (of_char c0 :: int)"
  have b: "0 \<le> b" unfolding b_def by simp
  consider (a) "b < 128" | (two) "194 \<le> b" "b \<le> 223" | (three) "224 \<le> b" "b \<le> 239" | (four) "240 \<le> b" "b \<le> 244"
    using assms(2) unfolding s b_def decodeRune_def by (fastforce simp: Let_def split: if_splits)
  then show ?thesis
  proof cases
    case a
    then have "decodeRune (c0 # t) = (b, 1)" for t by (simp add: decodeRune_def b_def)
    moreover have "encodeRune b = [c0]" using a b by (simp add: encodeRune_def b_def)
    ultimately show ?thesis unfolding s by (intro exI [of _ "[c0]"] exI [of _ s1]) simp
  next
    case two
    then have d: "decodeRune (c0 # t) = (case t of c1 # _ \<Rightarrow> decodeRune2 b c1 | _ \<Rightarrow> (runeError, 1))" for t
      unfolding decodeRune_def b_def by simp
    with assms(2) obtain c1 t where t: "s1 = c1 # t" and c: "cont_byte c1"
      by (auto simp: s decodeRune2_def split: list.splits if_splits)
    show ?thesis using encode_decode2 [OF two [unfolded b_def] c]
      unfolding s t by (intro exI [of _ "[c0, c1]"] exI [of _ t]) (simp add: d decodeRune2_def c b_def)
  next
    case three
    then have d: "decodeRune (c0 # t) = (case t of c1 # c2 # _ \<Rightarrow> decodeRune3 b c1 c2 | _ \<Rightarrow> (runeError, 1))" for t
      unfolding decodeRune_def b_def by simp
    with assms(2) obtain c1 c2 t where t: "s1 = c1 # c2 # t" and ne: "decodeRune3 b c1 c2 \<noteq> (runeError, 1)"
      by (auto simp: s split: list.splits)
    have c: "cont_byte c2" "(if b = 224 then 160 else 128) \<le> (of_char c1 :: int)" "of_char c1 \<le> (if b = 237 then 159 else 191 :: int)"
      using ne by (auto simp: decodeRune3_def split: if_splits)
    have v: "decodeRune3 b c1 c2 = ((b - 224) * 4096 + (of_char c1 - 128) * 64 + (of_char c2 - 128), 3)"
      using c by (simp add: decodeRune3_def)
    show ?thesis using encode_decode3 [OF three [unfolded b_def] c [unfolded b_def]]
      unfolding s t by (intro exI [of _ "[c0, c1, c2]"] exI [of _ t]) (simp add: d v, simp add: b_def)
  next
    case four
    then have d: "decodeRune (c0 # t) = (case t of c1 # c2 # c3 # _ \<Rightarrow> decodeRune4 b c1 c2 c3 | _ \<Rightarrow> (runeError, 1))" for t
      unfolding decodeRune_def b_def by simp
    with assms(2) obtain c1 c2 c3 t where t: "s1 = c1 # c2 # c3 # t" and ne: "decodeRune4 b c1 c2 c3 \<noteq> (runeError, 1)"
      by (auto simp: s split: list.splits)
    have c: "cont_byte c2" "cont_byte c3" "(if b = 240 then 144 else 128) \<le> (of_char c1 :: int)" "of_char c1 \<le> (if b = 244 then 143 else 191 :: int)"
      using ne by (auto simp: decodeRune4_def split: if_splits)
    have v: "decodeRune4 b c1 c2 c3 = ((b - 240) * 262144 + (of_char c1 - 128) * 4096 + (of_char c2 - 128) * 64 + (of_char c3 - 128), 4)"
      using c by (simp add: decodeRune4_def)
    show ?thesis using encode_decode4 [OF four [unfolded b_def] c [unfolded b_def]]
      unfolding s t by (intro exI [of _ "[c0, c1, c2, c3]"] exI [of _ t]) (simp add: d v, simp add: b_def)
  qed
qed

lemma utf8_valid_Nil [simp]: "utf8_valid []"
  by (simp add: utf8_valid.simps)

text \<open>Induction over the runes of a valid string.\<close>

lemma utf8_induct [consumes 1, case_names Nil Rune]:
  assumes "utf8_valid s" and "P []"
    and step: "\<And>u t. u \<noteq> [] \<Longrightarrow> decodeRune (u @ t) \<noteq> (runeError, 1) \<Longrightarrow> snd (decodeRune (u @ t)) = length u \<Longrightarrow>
      encodeRune (fst (decodeRune (u @ t))) = u \<Longrightarrow> (\<And>t'. decodeRune (u @ t') = decodeRune (u @ t)) \<Longrightarrow>
      utf8_valid t \<Longrightarrow> P t \<Longrightarrow> P (u @ t)"
  shows "P s"
  using assms(1)
proof (induction s rule: length_induct)
  case (1 s)
  show ?case
  proof (cases "s = []")
    case True
    then show ?thesis using assms(2) by simp
  next
    case False
    then have ne: "decodeRune s \<noteq> (runeError, 1)" and v: "utf8_valid (drop (snd (decodeRune s)) s)"
      using 1(2) by (auto simp: utf8_valid.simps [of s])
    obtain u t where u: "s = u @ t" "length u = snd (decodeRune s)" "encodeRune (fst (decodeRune s)) = u"
      "\<And>t'. decodeRune (u @ t') = decodeRune s"
      using decodeRune_local [OF False ne] by blast
    have "u \<noteq> []" using u(2) decodeRune_size [OF False] by auto
    moreover have "utf8_valid t" using v u by (metis append_eq_conv_conj)
    moreover from this have "P t" using 1(1) u(1) \<open>u \<noteq> []\<close> by simp
    ultimately show ?thesis using step [of u t] ne u by metis
  qed
qed

subsection \<open>Values and the encoder\<close>

datatype json = JNull | JBool bool | JNum string | JStr string | JArr "json list" | JObj "(string \<times> json) list"

text \<open>The escapes of \<open>appendString\<close> with HTML escaping off.\<close>

definition escape_ascii :: "char \<Rightarrow> string" where
  "escape_ascii c =
    (if c = CHR 0x22 \<or> c = CHR 0x5C then [CHR 0x5C, c]
     else if c = CHR 0x08 then [CHR 0x5C, CHR ''b''] else if c = CHR 0x0C then [CHR 0x5C, CHR ''f'']
     else if c = CHR 0x0A then [CHR 0x5C, CHR ''n''] else if c = CHR 0x0D then [CHR 0x5C, CHR ''r'']
     else if c = CHR 0x09 then [CHR 0x5C, CHR ''t'']
     else if (of_char c :: int) < 32 then [CHR 0x5C, CHR ''u'', CHR ''0'', CHR ''0'', hex_digit (of_char c div 16), hex_digit (of_char c mod 16)]
     else [c])"

definition escape_rune :: "string \<Rightarrow> string" where
  "escape_rune s = (let (r, k) = decodeRune s in
    if (r, k) = (runeError, 1) then CHR 0x5C # ''ufffd''
    else if r < 128 then escape_ascii (char_of r)
    else if r = 8232 then CHR 0x5C # ''u2028'' else if r = 8233 then CHR 0x5C # ''u2029''
    else take k s)"

function escape_string :: "string \<Rightarrow> string" where
  "escape_string s = (if s = [] then [] else escape_rune s @ escape_string (drop (snd (decodeRune s)) s))"
  by pat_completeness auto
termination
  by (relation "measure length") (auto simp: decodeRune_size)

declare escape_string.simps [simp del]

definition quote_string :: "string \<Rightarrow> string" where
  "quote_string s = CHR 0x22 # escape_string s @ [CHR 0x22]"

definition join_with :: "char \<Rightarrow> string list \<Rightarrow> string" where
  "join_with c ss = concat (separate [c] ss)"

lemma join_with_Nil [simp]: "join_with c [] = []"
  by (simp add: join_with_def)

lemma join_with_Cons: "join_with c (x # xs) = x @ (if xs = [] then [] else c # join_with c xs)"
  by (cases xs) (simp_all add: join_with_def)

text \<open>Maps are written with their keys in byte order.\<close>

fun byte_less :: "string \<Rightarrow> string \<Rightarrow> bool" where
  "byte_less [] t = (t \<noteq> [])"
| "byte_less (c # s) [] = False"
| "byte_less (c # s) (d # t) = ((of_char c :: int) < of_char d \<or> c = d \<and> byte_less s t)"

lemma byte_less_irrefl [simp]: "\<not> byte_less s s"
  by (induction s) auto

lemma byte_less_trans: "byte_less s t \<Longrightarrow> byte_less t u \<Longrightarrow> byte_less s u"
proof (induction s t arbitrary: u rule: byte_less.induct)
  case (1 t)
  then show ?case by (cases u; cases t) auto
next
  case (3 c s d t)
  then show ?case by (cases u) auto
qed simp

lemma byte_less_total: "s \<noteq> t \<Longrightarrow> byte_less s t \<or> byte_less t s"
proof (induction s t rule: byte_less.induct)
  case (3 c s d t)
  then show ?case by (metis byte_less.simps(3) linorder_cases of_char_eq_iff)
qed auto

interpretation byte_order: strict_weak_order byte_less
proof
  show "byte_less x y \<Longrightarrow> byte_less y z \<Longrightarrow> byte_less x z" for x y z by (rule byte_less_trans)
  show "\<not> byte_less x y \<Longrightarrow> \<not> byte_less y z \<Longrightarrow> \<not> byte_less x z" for x y z
    using byte_less_total [of x y] byte_less_trans [of y x z] by (cases "x = y") auto
qed simp

definition member_less :: "(string \<times> string) \<Rightarrow> (string \<times> string) \<Rightarrow> bool" where
  "member_less a b = byte_less (fst a) (fst b)"

fun encodeJson :: "json \<Rightarrow> string" where
  "encodeJson JNull = ''null''"
| "encodeJson (JBool b) = (if b then ''true'' else ''false'')"
| "encodeJson (JNum n) = n"
| "encodeJson (JStr s) = quote_string s"
| "encodeJson (JArr vs) = [CHR 0x5B] @ join_with CHR '','' (map encodeJson vs) @ [CHR 0x5D]"
| "encodeJson (JObj ms) = [CHR 0x7B] @ join_with CHR '',''
     (map (\<lambda>(k, v). quote_string k @ [CHR '':''] @ v) (sortBy member_less (map (\<lambda>(k, v). (k, encodeJson v)) ms))) @ [CHR 0x7D]"

subsection \<open>Strings in the decoder\<close>

text \<open>
  One unit of a string literal: an escape, a run of one rune, or None for what the scanner
  rejects. A surrogate escape pairs with the escape after it or becomes U+FFFD.
\<close>

definition getu4 :: "string \<Rightarrow> int option" where
  "getu4 s = (case map hex_val (take 4 s) of
    [Some a, Some b, Some c, Some d] \<Rightarrow> Some (a * 4096 + b * 256 + c * 16 + d) | _ \<Rightarrow> None)"

definition surrogate_pair :: "int \<Rightarrow> int \<Rightarrow> int option" where
  "surrogate_pair hi lo =
    (if 55296 \<le> hi \<and> hi < 56320 \<and> 56320 \<le> lo \<and> lo < 57344 then Some ((hi - 55296) * 1024 + (lo - 56320) + 65536) else None)"

definition read_unicode :: "string \<Rightarrow> (string \<times> string) option" where
  "read_unicode s = (case getu4 s of None \<Rightarrow> None | Some r \<Rightarrow>
    let rest = drop 4 s in
    if 55296 \<le> r \<and> r < 57344 then
      (case (if has_prefix rest (CHR 0x5C # ''u'') then getu4 (drop 2 rest) else None) of
         Some r1 \<Rightarrow> (case surrogate_pair r r1 of
           Some p \<Rightarrow> Some (encodeRune p, drop 6 rest) | None \<Rightarrow> Some (encodeRune runeError, rest))
       | None \<Rightarrow> Some (encodeRune runeError, rest))
    else Some (encodeRune r, rest))"

definition read_escape :: "string \<Rightarrow> (string \<times> string) option" where
  "read_escape s = (case s of [] \<Rightarrow> None | c # r \<Rightarrow>
    if c = CHR ''u'' then read_unicode r
    else if c = CHR 0x22 \<or> c = CHR 0x5C \<or> c = CHR ''/'' then Some ([c], r)
    else if c = CHR ''b'' then Some ([CHR 0x08], r) else if c = CHR ''f'' then Some ([CHR 0x0C], r)
    else if c = CHR ''n'' then Some ([CHR 0x0A], r) else if c = CHR ''r'' then Some ([CHR 0x0D], r)
    else if c = CHR ''t'' then Some ([CHR 0x09], r) else None)"

definition read_unit :: "string \<Rightarrow> (string \<times> string) option" where
  "read_unit s = (case s of [] \<Rightarrow> None | c # r \<Rightarrow>
    if c = CHR 0x5C then read_escape r
    else if (of_char c :: int) < 32 then None
    else Some (encodeRune (fst (decodeRune s)), drop (snd (decodeRune s)) s))"

lemma read_unicode_shorter: "read_unicode s = Some (u, r) \<Longrightarrow> length r \<le> length s"
  by (auto simp: read_unicode_def Let_def split: option.splits if_splits)

lemma read_escape_shorter: "read_escape s = Some (u, r) \<Longrightarrow> length r \<le> length s"
  by (auto simp: read_escape_def dest: read_unicode_shorter split: list.splits if_splits)

lemma read_unit_shorter: "read_unit s = Some (u, r) \<Longrightarrow> length r < length s"
proof -
  assume a: "read_unit s = Some (u, r)"
  then obtain c t where s: "s = c # t" by (auto simp: read_unit_def split: list.splits)
  have "0 < snd (decodeRune s)" using s decodeRune_size by simp
  then show ?thesis using a s by (auto simp: read_unit_def dest!: read_escape_shorter split: if_splits)
qed

function read_string :: "string \<Rightarrow> (string \<times> string) option" where
  "read_string s = (case s of [] \<Rightarrow> None | c # r \<Rightarrow>
    if c = CHR 0x22 then Some ([], r)
    else (case read_unit s of None \<Rightarrow> None
      | Some (u, rest) \<Rightarrow> (case read_string rest of None \<Rightarrow> None | Some (v, rest') \<Rightarrow> Some (u @ v, rest'))))"
  by pat_completeness auto
termination
  by (relation "measure length") (auto dest: read_unit_shorter)

declare read_string.simps [simp del]

lemma read_string_unit:
  assumes "read_unit (c # s) = Some (u, rest)" and "c \<noteq> CHR 0x22" and "read_string rest = Some (v, rest')"
  shows "read_string (c # s) = Some (u @ v, rest')"
  using assms by (simp add: read_string.simps [of "c # s"])

lemma escape_ascii_unit:
  assumes "(of_char c :: int) < 128"
  shows "\<exists>d ds. escape_ascii c = d # ds \<and> d \<noteq> CHR 0x22 \<and> read_unit (escape_ascii c @ t) = Some ([c], t)"
proof -
  consider (esc) "c = CHR 0x22 \<or> c = CHR 0x5C \<or> c = CHR 0x08 \<or> c = CHR 0x0C \<or> c = CHR 0x0A \<or> c = CHR 0x0D \<or> c = CHR 0x09"
    | (ctl) "escape_ascii c = [CHR 0x5C, CHR ''u'', CHR ''0'', CHR ''0'', hex_digit (of_char c div 16), hex_digit (of_char c mod 16)]"
        "(of_char c :: int) < 32"
    | (plain) "escape_ascii c = [c]" "32 \<le> (of_char c :: int)" "c \<noteq> CHR 0x22" "c \<noteq> CHR 0x5C"
    by (fastforce simp: escape_ascii_def split: if_splits)
  then show ?thesis
  proof cases
    case esc
    then show ?thesis by (elim disjE; hypsubst; simp add: escape_ascii_def read_unit_def read_escape_def)
  next
    case ctl
    have h: "0 \<le> (of_char c :: int)" by simp
    then have "hex_val (hex_digit (of_char c div 16)) = Some (of_char c div 16)" "hex_val (hex_digit (of_char c mod 16)) = Some (of_char c mod 16)"
      using ctl(2) of_char_div_mod_range [of c] by (simp_all add: hex_val_hex_digit)
    moreover have "hex_val CHR ''0'' = Some 0" by (simp add: hex_val_def)
    ultimately have "getu4 ([CHR ''0'', CHR ''0'', hex_digit (of_char c div 16), hex_digit (of_char c mod 16)] @ t) = Some (of_char c)"
      by (simp add: getu4_def)
    moreover have "encodeRune (of_char c) = [c]" using assms h by (simp add: encodeRune_def)
    ultimately show ?thesis using assms
      by (simp add: ctl(1) read_unit_def read_escape_def read_unicode_def)
  next
    case plain
    have d: "decodeRune (c # t) = (of_char c, 1)" using assms by (simp add: decodeRune_def)
    have "encodeRune (of_char c) = [c]" using assms by (simp add: encodeRune_def)
    with plain d show ?thesis by (simp add: read_unit_def)
  qed
qed

lemma decodeRune_high: "s \<noteq> [] \<Longrightarrow> decodeRune s \<noteq> (runeError, 1) \<Longrightarrow> 128 \<le> fst (decodeRune s) \<Longrightarrow> 128 \<le> (of_char (hd s) :: int)"
  by (rule ccontr, cases s) (auto simp: decodeRune_def)

lemma read_unit_line_separator:
  "read_unit (CHR 0x5C # ''u2028'' @ t) = Some (encodeRune 8232, t)" "read_unit (CHR 0x5C # ''u2029'' @ t) = Some (encodeRune 8233, t)"
  by (simp_all add: read_unit_def read_escape_def read_unicode_def getu4_def hex_val_def)

lemma escape_rune_unit:
  assumes "u \<noteq> []" "decodeRune (u @ t) \<noteq> (runeError, 1)" "snd (decodeRune (u @ t)) = length u"
    and enc: "encodeRune (fst (decodeRune (u @ t))) = u" and any: "\<And>t'. decodeRune (u @ t') = decodeRune (u @ t)"
  shows "\<exists>d ds. escape_rune (u @ t) = d # ds \<and> d \<noteq> CHR 0x22 \<and> read_unit (escape_rune (u @ t) @ t') = Some (u, t')"
proof -
  define r where "r = fst (decodeRune (u @ t))"
  have d: "decodeRune (u @ x) = (r, length u)" for x using assms r_def by (metis prod.collapse)
  obtain c cs where u: "u = c # cs" using assms(1) by (cases u) auto
  show ?thesis
  proof (cases "r < 128")
    case True
    have "0 \<le> r" using d [of t] unfolding u by (auto simp: decodeRune_def decodeRune2_def decodeRune3_def decodeRune4_def cont_byte_def Let_def
          split: if_splits list.splits)
    with True enc have "u = [char_of r]" "(of_char (char_of r :: char) :: int) = r" by (auto simp: r_def [symmetric] encodeRune_def)
    moreover have "escape_rune (u @ t) = escape_ascii (char_of r)" using True d [of t] assms(2) by (simp add: escape_rune_def)
    ultimately show ?thesis using escape_ascii_unit [of "char_of r" t'] True by simp
  next
    case False
    then have hi: "128 \<le> (of_char c :: int)" using decodeRune_high [of "u @ t"] assms(1,2) d [of t] by (simp add: u)
    then have c: "c \<noteq> CHR 0x22" "c \<noteq> CHR 0x5C" by auto
    have raw: "read_unit (u @ t') = Some (u, t')"
      using d [of t'] enc [folded r_def] hi c by (simp add: read_unit_def u)
    consider "r = 8232" | "r = 8233" | "escape_rune (u @ t) = u"
      using False d [of t] assms(2) by (fastforce simp: escape_rune_def)
    then show ?thesis
    proof cases
      case 1
      with d [of t] have "escape_rune (u @ t) = CHR 0x5C # ''u2028''" by (simp add: escape_rune_def)
      with 1 enc show ?thesis using read_unit_line_separator(1) [of t'] by (simp add: r_def [symmetric])
    next
      case 2
      with d [of t] have "escape_rune (u @ t) = CHR 0x5C # ''u2029''" by (simp add: escape_rune_def)
      with 2 enc show ?thesis using read_unit_line_separator(2) [of t'] by (simp add: r_def [symmetric])
    next
      case 3
      then show ?thesis using raw c by (simp add: u)
    qed
  qed
qed

text \<open>Escaping a valid string is undone by the decoder.\<close>

lemma read_escape_string: "utf8_valid s \<Longrightarrow> read_string (escape_string s @ CHR 0x22 # rest) = Some (s, rest)"
proof (induction s rule: utf8_induct)
  case Nil
  then show ?case by (simp add: escape_string.simps read_string.simps)
next
  case (Rune u t)
  have e: "escape_string (u @ t) = escape_rune (u @ t) @ escape_string t"
    using Rune(1,3) by (simp add: escape_string.simps [of "u @ t"])
  obtain d ds where d: "escape_rune (u @ t) = d # ds" "d \<noteq> CHR 0x22"
    "read_unit (escape_rune (u @ t) @ escape_string t @ CHR 0x22 # rest) = Some (u, escape_string t @ CHR 0x22 # rest)"
    using escape_rune_unit [OF Rune(1-5)] by blast
  then show ?case using read_string_unit [of d "ds @ escape_string t @ CHR 0x22 # rest", OF _ d(2) Rune(7)] e by simp
qed

lemma quote_string_inj:
  assumes "utf8_valid s" "utf8_valid t" and eq: "quote_string s @ x = quote_string t @ y"
  shows "s = t \<and> x = y"
proof -
  have "escape_string s @ CHR 0x22 # x = escape_string t @ CHR 0x22 # y" using eq by (simp add: quote_string_def)
  then have "Some (s, x) = Some (t, y)"
    using read_escape_string [OF assms(1), of x] read_escape_string [OF assms(2), of y] by (simp only:)
  then show ?thesis by simp
qed

subsection \<open>The decoder\<close>

definition is_space :: "char \<Rightarrow> bool" where
  "is_space c = (c = CHR '' '' \<or> c = CHR 0x09 \<or> c = CHR 0x0A \<or> c = CHR 0x0D)"

definition skip_space :: "string \<Rightarrow> string" where
  "skip_space s = dropWhile is_space s"

definition take_digits :: "string \<Rightarrow> string \<times> string" where
  "take_digits s = (takeWhile digit_char s, dropWhile digit_char s)"

text \<open>The number grammar: sign, integer part without leading zeros, fraction, exponent.\<close>

definition read_integer_part :: "string \<Rightarrow> (string \<times> string) option" where
  "read_integer_part s = (case s of [] \<Rightarrow> None | c # r \<Rightarrow>
    if c = CHR ''0'' then Some ([c], r) else if digit_char c then Some (take_digits s) else None)"

definition read_fraction :: "string \<Rightarrow> (string \<times> string) option" where
  "read_fraction s = (case s of c # r \<Rightarrow>
      if c = CHR ''.'' then (case take_digits r of (d, r') \<Rightarrow> if d = [] then None else Some (c # d, r')) else Some ([], s)
    | [] \<Rightarrow> Some ([], []))"

definition read_exponent :: "string \<Rightarrow> (string \<times> string) option" where
  "read_exponent s = (case s of c # r \<Rightarrow>
      if c = CHR ''e'' \<or> c = CHR ''E'' then
        (let sign = (case r of d # _ \<Rightarrow> if d = CHR ''+'' \<or> d = CHR ''-'' then [d] else [] | [] \<Rightarrow> []) in
         case take_digits (drop (length sign) r) of (d, r') \<Rightarrow> if d = [] then None else Some (c # sign @ d, r'))
      else Some ([], s)
    | [] \<Rightarrow> Some ([], []))"

definition read_number :: "string \<Rightarrow> (string \<times> string) option" where
  "read_number s =
    (let sign = (case s of c # _ \<Rightarrow> if c = CHR ''-'' then [c] else [] | [] \<Rightarrow> []) in
     case read_integer_part (drop (length sign) s) of None \<Rightarrow> None | Some (i, r) \<Rightarrow>
     (case read_fraction r of None \<Rightarrow> None | Some (f, r) \<Rightarrow>
     (case read_exponent r of None \<Rightarrow> None | Some (e, r) \<Rightarrow> Some (sign @ i @ f @ e, r))))"

text \<open>A map keeps the last value written under a key.\<close>

fun put_member :: "(string \<times> json) list \<Rightarrow> string \<Rightarrow> json \<Rightarrow> (string \<times> json) list" where
  "put_member [] k v = [(k, v)]"
| "put_member ((k', v') # ms) k v = (if k' = k then (k, v) # ms else (k', v') # put_member ms k v)"

abbreviation maxNestingDepth :: nat where "maxNestingDepth \<equiv> 10000"

fun parse_value :: "nat \<Rightarrow> nat \<Rightarrow> string \<Rightarrow> (json \<times> string) option"
  and parse_elements :: "nat \<Rightarrow> nat \<Rightarrow> json list \<Rightarrow> string \<Rightarrow> (json \<times> string) option"
  and parse_members :: "nat \<Rightarrow> nat \<Rightarrow> (string \<times> json) list \<Rightarrow> string \<Rightarrow> (json \<times> string) option" where
  "parse_value 0 depth s = None"
| "parse_value (Suc fuel) depth s = (case skip_space s of [] \<Rightarrow> None | c # r \<Rightarrow>
    if c = CHR 0x22 then (case read_string r of None \<Rightarrow> None | Some (v, r') \<Rightarrow> Some (JStr v, r'))
    else if c = CHR 0x5B then
      (if depth \<ge> maxNestingDepth then None
       else if has_prefix (skip_space r) [CHR 0x5D] then Some (JArr [], drop 1 (skip_space r))
       else parse_elements fuel (Suc depth) [] r)
    else if c = CHR 0x7B then
      (if depth \<ge> maxNestingDepth then None
       else if has_prefix (skip_space r) [CHR 0x7D] then Some (JObj [], drop 1 (skip_space r))
       else parse_members fuel (Suc depth) [] r)
    else if has_prefix (c # r) ''null'' then Some (JNull, drop 3 r)
    else if has_prefix (c # r) ''true'' then Some (JBool True, drop 3 r)
    else if has_prefix (c # r) ''false'' then Some (JBool False, drop 4 r)
    else (case read_number (c # r) of None \<Rightarrow> None | Some (n, r') \<Rightarrow> Some (JNum n, r')))"
| "parse_elements 0 depth acc s = None"
| "parse_elements (Suc fuel) depth acc s = (case parse_value fuel depth s of None \<Rightarrow> None | Some (v, r) \<Rightarrow>
    (case skip_space r of [] \<Rightarrow> None | c # r' \<Rightarrow>
      if c = CHR '','' then parse_elements fuel depth (acc @ [v]) r'
      else if c = CHR 0x5D then Some (JArr (acc @ [v]), r') else None))"
| "parse_members 0 depth acc s = None"
| "parse_members (Suc fuel) depth acc s = (case skip_space s of [] \<Rightarrow> None | q # r0 \<Rightarrow>
    if q \<noteq> CHR 0x22 then None
    else (case read_string r0 of None \<Rightarrow> None | Some (k, r1) \<Rightarrow>
      (case skip_space r1 of [] \<Rightarrow> None | c # r2 \<Rightarrow>
        if c \<noteq> CHR '':'' then None
        else (case parse_value fuel depth r2 of None \<Rightarrow> None | Some (v, r3) \<Rightarrow>
          (case skip_space r3 of [] \<Rightarrow> None | d # r4 \<Rightarrow>
            if d = CHR '','' then parse_members fuel depth (put_member acc k v) r4
            else if d = CHR 0x7D then Some (JObj (put_member acc k v), r4) else None)))))"

lemma skip_space_le: "length (skip_space s) \<le> length s"
  by (simp add: skip_space_def length_dropWhile_le)

lemma skip_space_Cons: "skip_space s = c # r \<Longrightarrow> length r < length s"
  using skip_space_le [of s] by simp

lemma read_string_shorter: "read_string s = Some (v, r) \<Longrightarrow> length r < length s"
proof (induction s arbitrary: v r rule: read_string.induct)
  case (1 s)
  obtain c t where s: "s = c # t" using 1(2) by (cases s) (auto simp: read_string.simps)
  show ?case
  proof (cases "c = CHR 0x22")
    case True
    then show ?thesis using 1(2) read_string.simps [of "c # t"] by (simp add: s)
  next
    case False
    then obtain u rest v' where u: "read_unit s = Some (u, rest)" "read_string rest = Some (v', r)"
      using 1(2) by (auto simp: s read_string.simps [of "c # t"] split: option.splits)
    then show ?thesis using 1(1) [OF s False u(1) refl u(2)] read_unit_shorter [OF u(1)] by simp
  qed
qed

lemma take_digits_shorter: "take_digits s = (d, r) \<Longrightarrow> length r \<le> length s"
  by (auto simp: take_digits_def length_dropWhile_le)

lemma read_number_shorter: "read_number s = Some (n, r) \<Longrightarrow> length r < length s"
proof -
  have i: "length r < length s" if "read_integer_part s = Some (i, r)" for s i r
    using that by (cases s) (auto simp: read_integer_part_def take_digits_def le_imp_less_Suc length_dropWhile_le split: if_splits)
  have f: "length r \<le> length s" if "read_fraction s = Some (i, r)" for s i r
    using that by (cases s) (auto simp: read_fraction_def take_digits_def le_SucI length_dropWhile_le split: if_splits prod.splits)
  have e: "length r \<le> length s" if "read_exponent s = Some (i, r)" for s i r
    using that
  proof (cases s)
    case (Cons c t)
    have "length (dropWhile digit_char (drop k t)) \<le> length t" for k
      using length_dropWhile_le [of digit_char "drop k t"] by simp
    from this [of 0] this [of "Suc 0"] that Cons show ?thesis
      by (auto simp: read_exponent_def take_digits_def Let_def le_SucI split: if_splits list.splits)
  qed (simp add: read_exponent_def)
  assume "read_number s = Some (n, r)"
  then show ?thesis by (fastforce simp: read_number_def Let_def dest!: i f e split: option.splits prod.splits list.splits if_splits)
qed

lemma parse_shorter:
  "parse_value f d s = Some (v, r) \<Longrightarrow> length r < length s"
  "parse_elements f d acc s = Some (v, r) \<Longrightarrow> length r < length s"
  "parse_members f d mem s = Some (v, r) \<Longrightarrow> length r < length s"
proof (induction f d s and f d acc s and f d mem s arbitrary: v r and v r and v r
    rule: parse_value_parse_elements_parse_members.induct)
  case (2 f d s)
  obtain c t where c: "skip_space s = c # t" using 2(3) by (cases "skip_space s") auto
  have "length r \<le> length t"
    using 2 c skip_space_le [of t] read_number_shorter [of "c # t"]
    by (auto simp: parse_value.simps split: if_splits option.splits dest: read_string_shorter less_imp_le;
        metis less_imp_le)
  with skip_space_Cons [OF c] show ?case by simp
next
  case (4 f d acc s)
  then show ?case by (fastforce split: option.splits list.splits if_splits dest: skip_space_Cons)
next
  case (6 f d mem s)
  then show ?case
    by (fastforce split: option.splits list.splits if_splits dest!: skip_space_Cons read_string_shorter)
qed simp_all

declare parse_value.simps [simp del] parse_elements.simps [simp del] parse_members.simps [simp del]

text \<open>Twice the length of the input is enough fuel: more of it changes nothing.\<close>

lemma parse_fuel_step:
  "2 * length s \<le> f \<Longrightarrow> parse_value (Suc f) d s = parse_value f d s"
  "2 * length s + 1 \<le> f \<Longrightarrow> parse_elements (Suc f) d acc s = parse_elements f d acc s"
  "2 * length s + 1 \<le> f \<Longrightarrow> parse_members (Suc f) d mem s = parse_members f d mem s"
proof (induction f arbitrary: d s acc mem)
  case 0
  {
    case 1
    then show ?case by (simp add: skip_space_def parse_value.simps)
  next
    case 2
    then show ?case by simp
  next
    case 3
    then show ?case by simp
  }
next
  case (Suc f)
  {
    case 1
    show ?case
    proof (cases "skip_space s")
      case Nil
      then show ?thesis by (simp add: parse_value.simps)
    next
      case (Cons c t)
      with skip_space_Cons [OF this] 1 have "2 * length t + 1 \<le> f" by simp
      then show ?thesis using Suc.IH(2,3) Cons by (simp add: parse_value.simps(2))
    qed
  next
    case 2
    have v: "parse_value (Suc f) d s = parse_value f d s" using Suc.IH(1) 2 by simp
    have "parse_elements (Suc f) d acc' r' = parse_elements f d acc' r'"
      if "parse_value f d s = Some (v, r)" "skip_space r = c # r'" for v r c r' acc'
      using parse_shorter(1) [OF that(1)] skip_space_Cons [OF that(2)] Suc.IH(2) 2 by simp
    then show ?case by (auto simp: parse_elements.simps(2) v split: option.split list.split)
  next
    case 3
    have "parse_value (Suc f) d r2 = parse_value f d r2"
      if "skip_space s = q # r0" "read_string r0 = Some (k, r1)" "skip_space r1 = c # r2" for q r0 k r1 c r2
      using skip_space_Cons [OF that(1)] read_string_shorter [OF that(2)] skip_space_Cons [OF that(3)] Suc.IH(1) 3 by simp
    moreover have "parse_members (Suc f) d mem' r4 = parse_members f d mem' r4"
      if "skip_space s = q # r0" "read_string r0 = Some (k, r1)" "skip_space r1 = c # r2" "parse_value f d r2 = Some (v, r3)"
        "skip_space r3 = e # r4" for q r0 k r1 c r2 v r3 e r4 mem'
      using skip_space_Cons [OF that(1)] read_string_shorter [OF that(2)] skip_space_Cons [OF that(3)]
        parse_shorter(1) [OF that(4)] skip_space_Cons [OF that(5)] Suc.IH(3) 3 by simp
    ultimately show ?case
      by (auto simp: parse_members.simps(2) split: option.split list.split)
  }
qed

lemma parse_value_fuel: "2 * length s \<le> f \<Longrightarrow> parse_value f d s = parse_value (2 * length s) d s"
  by (induction f rule: dec_induct) (auto simp: parse_fuel_step(1))

text \<open>
  \<open>Decoder.Decode\<close> reads one value and ignores what follows; \<open>Unmarshal\<close> also wants nothing but
  space after it.
\<close>

definition decodeJson :: "string \<Rightarrow> json option" where
  "decodeJson s = map_option fst (parse_value (2 * length s) 0 s)"

definition unmarshalJson :: "string \<Rightarrow> json option" where
  "unmarshalJson s = (case parse_value (2 * length s) 0 s of
    Some (v, r) \<Rightarrow> if skip_space r = [] then Some v else None | None \<Rightarrow> None)"

subsection \<open>Decoded strings are valid UTF-8\<close>

lemma char_of_int_plus: "0 \<le> n \<Longrightarrow> n < 256 \<Longrightarrow> (of_char (char_of n :: char) :: int) = n"
  by (rule of_char_char_of_int)

lemma mod_64_range: "0 \<le> v mod 64" "v mod 64 < (64 :: int)"
  by simp_all

lemma decode_three:
  assumes "0 \<le> a" "a < 16" "0 \<le> b" "b < 64" "0 \<le> c" "c < 64" "a = 0 \<Longrightarrow> 32 \<le> b" "a = 13 \<Longrightarrow> b \<le> 31"
  shows "decodeRune ([char_of (224 + a), char_of (128 + b), char_of (128 + c)] @ s) = (a * 4096 + b * 64 + c, 3)"
proof -
  have "decodeRune3 (224 + a) (char_of (128 + b)) (char_of (128 + c)) = (a * 4096 + b * 64 + c, 3)"
    using assms by (auto simp: decodeRune3_def cont_byte_def char_of_int_plus)
  then show ?thesis using assms by (simp add: decodeRune_def char_of_int_plus)
qed

lemma decode_four:
  assumes "0 \<le> a" "a \<le> 4" "0 \<le> b" "b < 64" "0 \<le> c" "c < 64" "0 \<le> d" "d < 64" "a = 0 \<Longrightarrow> 16 \<le> b" "a = 4 \<Longrightarrow> b \<le> 15"
  shows "decodeRune ([char_of (240 + a), char_of (128 + b), char_of (128 + c), char_of (128 + d)] @ s) = (a * 262144 + b * 4096 + c * 64 + d, 4)"
proof -
  have "decodeRune4 (240 + a) (char_of (128 + b)) (char_of (128 + c)) (char_of (128 + d)) = (a * 262144 + b * 4096 + c * 64 + d, 4)"
    using assms by (auto simp: decodeRune4_def cont_byte_def char_of_int_plus)
  then show ?thesis using assms by (simp add: decodeRune_def char_of_int_plus)
qed

lemma decodeRune_encodeRune:
  "\<exists>c cs r'. encodeRune r = c # cs \<and> decodeRune (encodeRune r @ s) = (r', length (encodeRune r)) \<and> (r', length (encodeRune r)) \<noteq> (runeError, 1)"
proof -
  consider (one) "0 \<le> r" "r < 128" | (two) "128 \<le> r" "r < 2048"
    | (bad) "r < 0 \<or> 1114111 < r \<or> 55296 \<le> r \<and> r \<le> 57343"
    | (three) "2048 \<le> r" "r < 65536" "\<not> (55296 \<le> r \<and> r \<le> 57343)" | (four) "65536 \<le> r" "r \<le> 1114111"
    by linarith
  then show ?thesis
  proof cases
    case one
    then show ?thesis by (simp add: encodeRune_def decodeRune_def char_of_int_plus)
  next
    case two
    then have "2 \<le> r div 64" "r div 64 < 32" by auto
    with two show ?thesis using mod_64_range [of r]
      by (simp add: encodeRune_def decodeRune_def decodeRune2_def cont_byte_def char_of_int_plus)
  next
    case bad
    then have "encodeRune r = [CHR 0xEF, CHR 0xBF, CHR 0xBD]" by (auto simp: encodeRune_def)
    then show ?thesis by (simp add: decodeRune_def decodeRune3_def cont_byte_def)
  next
    case three
    have d: "0 \<le> r div 4096" "r div 4096 < 16" "0 \<le> r div 64 mod 64" "r div 64 mod 64 < 64" using three by auto
    have e: "encodeRune r = [char_of (224 + r div 4096), char_of (128 + r div 64 mod 64), char_of (128 + r mod 64)]"
      using three by (auto simp: encodeRune_def)
    have q: "r = 64 * (r div 64) + r mod 64" "r div 64 = 64 * (r div 4096) + r div 64 mod 64"
      by (simp_all add: div_64_64)
    have "r div 4096 = 0 \<Longrightarrow> 32 \<le> r div 64 mod 64" using three(1) q mod_64_range [of r] by linarith
    moreover have "r div 4096 = 13 \<Longrightarrow> r div 64 mod 64 \<le> 31"
      using three(3) q mod_64_range [of r] mod_64_range [of "r div 64"] by linarith
    ultimately show ?thesis using decode_three [OF d mod_64_range [of r], of s] by (simp add: e)
  next
    case four
    have d: "0 \<le> r div 262144" "r div 262144 \<le> 4" "0 \<le> r div 4096 mod 64" "r div 4096 mod 64 < 64" "0 \<le> r div 64 mod 64" "r div 64 mod 64 < 64"
      using four by auto
    have e: "encodeRune r = [char_of (240 + r div 262144), char_of (128 + r div 4096 mod 64), char_of (128 + r div 64 mod 64), char_of (128 + r mod 64)]"
      using four by (auto simp: encodeRune_def)
    have q: "r = 64 * (r div 64) + r mod 64" "r div 64 = 64 * (r div 4096) + r div 64 mod 64"
      "r div 4096 = 64 * (r div 262144) + r div 4096 mod 64"
      by (simp_all add: div_64_64)
    have "r div 262144 = 0 \<Longrightarrow> 16 \<le> r div 4096 mod 64"
      using four(1) q mod_64_range [of r] mod_64_range [of "r div 64"] by linarith
    moreover have "r div 262144 = 4 \<Longrightarrow> r div 4096 mod 64 \<le> 15"
      using four(2) q mod_64_range [of r] mod_64_range [of "r div 64"] by linarith
    ultimately show ?thesis using decode_four [OF d mod_64_range [of r], of s] by (simp add: e)
  qed
qed

lemma utf8_valid_rune [simp]: "utf8_valid (encodeRune r @ s) = utf8_valid s"
  using decodeRune_encodeRune [of r s] by (auto simp: utf8_valid.simps [of "encodeRune r @ s"])

lemma utf8_valid_ascii [simp]: "(of_char c :: int) < 128 \<Longrightarrow> utf8_valid (c # s) = utf8_valid s"
  using utf8_valid_rune [of "of_char c" s] by (simp add: encodeRune_def)

lemma read_unit_valid: "read_unit s = Some (u, r) \<Longrightarrow> utf8_valid (u @ t) = utf8_valid t"
  by (auto simp: read_unit_def read_escape_def read_unicode_def Let_def split: list.splits if_splits option.splits)

lemma read_string_valid: "read_string s = Some (v, r) \<Longrightarrow> utf8_valid v"
proof (induction s arbitrary: v r rule: read_string.induct)
  case (1 s)
  obtain c t where s: "s = c # t" using 1(2) by (cases s) (auto simp: read_string.simps)
  show ?case
  proof (cases "c = CHR 0x22")
    case True
    then show ?thesis using 1(2) read_string.simps [of "c # t"] by (simp add: s)
  next
    case False
    then obtain u rest v' where u: "read_unit s = Some (u, rest)" "read_string rest = Some (v', r)" "v = u @ v'"
      using 1(2) by (auto simp: s read_string.simps [of "c # t"] split: option.splits)
    then show ?thesis using 1(1) [OF s False u(1) refl u(2)] read_unit_valid [OF u(1)] by simp
  qed
qed

definition number_char :: "char \<Rightarrow> bool" where
  "number_char c = (digit_char c \<or> c = CHR ''+'' \<or> c = CHR ''-'' \<or> c = CHR ''.'' \<or> c = CHR ''e'' \<or> c = CHR ''E'')"

definition number_literal :: "string \<Rightarrow> bool" where
  "number_literal n = (list_all number_char n \<and> n \<noteq> [] \<and> (digit_char (hd n) \<or> hd n = CHR ''-''))"

lemma digits_number: "list_all number_char (takeWhile digit_char s)"
  by (induction s) (simp_all add: number_char_def)

lemma read_number_literal: "read_number s = Some (n, r) \<Longrightarrow> number_literal n"
proof -
  have i: "list_all number_char i \<and> i \<noteq> [] \<and> digit_char (hd i)" if "read_integer_part s = Some (i, r)" for s i r
    using that digits_number [of s]
    by (cases s) (auto simp: read_integer_part_def take_digits_def number_char_def digit_char_def split: if_splits)
  have f: "list_all number_char i" if "read_fraction s = Some (i, r)" for s i r
    using that digits_number [of "tl s"] by (cases s) (auto simp: read_fraction_def take_digits_def number_char_def split: if_splits prod.splits)
  have e: "list_all number_char i" if "read_exponent s = Some (i, r)" for s i r
    using that digits_number [of "tl s"] digits_number [of "tl (tl s)"]
    by (cases s) (auto simp: read_exponent_def take_digits_def Let_def number_char_def drop_Suc split: if_splits prod.splits list.splits)
  assume "read_number s = Some (n, r)"
  note num = this
  define sign where "sign = (case s of c # _ \<Rightarrow> if c = CHR ''-'' then [c] else [] | [] \<Rightarrow> [])"
  obtain i1 r1 f1 r2 e1 where p: "read_integer_part (drop (length sign) s) = Some (i1, r1)" "read_fraction r1 = Some (f1, r2)"
      "read_exponent r2 = Some (e1, r)" "n = sign @ i1 @ f1 @ e1"
    using num unfolding read_number_def Let_def sign_def [symmetric] by (auto split: option.splits)
  have "sign = [] \<or> sign = [CHR ''-'']" by (auto simp: sign_def split: list.split)
  then show ?thesis using i [OF p(1)] f [OF p(2)] e [OF p(3)] by (auto simp: p(4) number_literal_def number_char_def)
qed

fun json_valid :: "json \<Rightarrow> bool" where
  "json_valid (JNum n) = number_literal n"
| "json_valid (JStr s) = utf8_valid s"
| "json_valid (JArr vs) = list_all json_valid vs"
| "json_valid (JObj ms) = (distinct (map fst ms) \<and> list_all (\<lambda>(k, v). utf8_valid k \<and> json_valid v) ms)"
| "json_valid JNull = True"
| "json_valid (JBool b) = True"

lemma put_member_keys: "set (map fst (put_member ms k v)) = insert k (set (map fst ms))"
  by (induction ms k v rule: put_member.induct) auto

lemma put_member_valid:
  "distinct (map fst ms) \<and> list_all (\<lambda>(k, v). utf8_valid k \<and> json_valid v) ms \<Longrightarrow> utf8_valid k \<Longrightarrow> json_valid v \<Longrightarrow>
   distinct (map fst (put_member ms k v)) \<and> list_all (\<lambda>(k, v). utf8_valid k \<and> json_valid v) (put_member ms k v)"
  using put_member_keys by (induction ms k v rule: put_member.induct) auto

lemma parse_valid:
  "parse_value f d s = Some (v, r) \<Longrightarrow> json_valid v"
  "parse_elements f d acc s = Some (v, r) \<Longrightarrow> list_all json_valid acc \<Longrightarrow> json_valid v"
  "parse_members f d mem s = Some (v, r) \<Longrightarrow> distinct (map fst mem) \<and> list_all (\<lambda>(k, v). utf8_valid k \<and> json_valid v) mem \<Longrightarrow> json_valid v"
proof (induction f d s and f d acc s and f d mem s arbitrary: v r and v r and v r
    rule: parse_value_parse_elements_parse_members.induct)
  case (2 f d s)
  obtain c t where c: "skip_space s = c # t" using 2(3) by (cases "skip_space s") (auto simp: parse_value.simps)
  from 2(3) show ?case using 2(1,2) [OF c]
    by (auto simp: c parse_value.simps dest: read_string_valid read_number_literal split: if_splits option.splits)
next
  case (4 f d acc s)
  from 4(3) obtain u r1 c r2 where u: "parse_value f d s = Some (u, r1)" "skip_space r1 = c # r2"
    by (auto simp: parse_elements.simps split: option.splits list.splits)
  have "json_valid u" using 4(1) u by blast
  then show ?case using 4(2) [OF u(1) refl u(2)] 4(3,4) u by (auto simp: parse_elements.simps split: if_splits)
next
  case (6 f d mem s)
  from 6(3) obtain r0 k r1 r2 u r3 c r4 where u: "skip_space s = CHR 0x22 # r0" "read_string r0 = Some (k, r1)" "skip_space r1 = CHR '':'' # r2"
      "parse_value f d r2 = Some (u, r3)" "skip_space r3 = c # r4"
    by (auto simp: parse_members.simps split: option.splits list.splits if_splits)
  have v: "json_valid u" using 6(1) u by blast
  note valid = put_member_valid [OF 6(4) read_string_valid [OF u(2)] v]
  show ?case using 6(3) u valid 6(2) [OF u(1) _ u(2) refl u(3) _ u(4) refl u(5)] by (auto simp: parse_members.simps split: if_splits)
qed (auto simp: parse_value.simps parse_elements.simps parse_members.simps)

lemma unmarshal_valid: "unmarshalJson s = Some v \<Longrightarrow> json_valid v"
  by (auto simp: unmarshalJson_def dest: parse_valid(1) split: option.splits if_splits)

lemma decode_valid: "decodeJson s = Some v \<Longrightarrow> json_valid v"
  by (auto simp: decodeJson_def dest: parse_valid(1))

subsection \<open>The encoder is injective up to the order of keys\<close>

definition key_less :: "string \<times> json \<Rightarrow> string \<times> json \<Rightarrow> bool" where
  "key_less a b = byte_less (fst a) (fst b)"

fun canon :: "json \<Rightarrow> json" where
  "canon (JArr vs) = JArr (map canon vs)"
| "canon (JObj ms) = JObj (sortBy key_less (map (\<lambda>(k, v). (k, canon v)) ms))"
| "canon v = v"

lemma insertBy_map: "insertBy lt (f x) (map f ys) = map f (insertBy (\<lambda>a b. lt (f a) (f b)) x ys)"
  by (induction ys) simp_all

lemma sortBy_map: "sortBy lt (map f xs) = map f (sortBy (\<lambda>a b. lt (f a) (f b)) xs)"
  by (induction xs) (simp_all add: insertBy_map)

lemma encodeJson_object:
  "encodeJson (JObj ms) = CHR 0x7B # join_with CHR '','' (map (\<lambda>(k, v). quote_string k @ CHR '':'' # encodeJson v) (sortBy key_less ms)) @ [CHR 0x7D]"
  by (simp add: sortBy_map member_less_def case_prod_unfold key_less_def [abs_def] comp_def)

lemma canon_object: "canon (JObj ms) = JObj (map (\<lambda>(k, v). (k, canon v)) (sortBy key_less ms))"
  by (simp add: sortBy_map case_prod_unfold key_less_def [abs_def])

definition delimited :: "string \<Rightarrow> bool" where
  "delimited x = (x = [] \<or> \<not> number_char (hd x))"

lemma delimiters: "\<not> number_char CHR '',''" "\<not> number_char CHR 0x5D" "\<not> number_char CHR 0x7D"
  by (simp_all add: number_char_def digit_char_def)

text \<open>Two joined lists of self-delimiting pieces agree only piece by piece.\<close>

lemma join_with_inj:
  assumes "\<And>a b x y. a \<in> set as \<Longrightarrow> b \<in> set bs \<Longrightarrow> delimited x \<Longrightarrow> delimited y \<Longrightarrow> e a @ x = e b @ y \<Longrightarrow> R a b \<and> x = y"
    and "\<And>a. a \<in> set as \<union> set bs \<Longrightarrow> e a \<noteq> [] \<and> hd (e a) \<noteq> z"
    and z: "\<not> number_char z" "z \<noteq> CHR '',''"
    and "join_with CHR '','' (map e as) @ z # x = join_with CHR '','' (map e bs) @ z # y"
  shows "list_all2 R as bs \<and> x = y"
  using assms(1,2,5)
proof (induction as arbitrary: bs)
  case Nil
  show ?case
  proof (cases bs)
    case Nil
    then show ?thesis using Nil.prems by simp
  next
    case (Cons b bs')
    then show ?thesis using Nil.prems(2) [of b] Nil.prems(3) by (cases "e b") (auto simp: join_with_Cons)
  qed
next
  case (Cons a as)
  obtain b bs' where bs: "bs = b # bs'" using Cons.prems(2) [of a] Cons.prems(3) by (cases bs; cases "e a") (auto simp: join_with_Cons)
  let ?t = "\<lambda>cs. (if cs = [] then [] else CHR '','' # join_with CHR '','' (map e cs))"
  have "e a @ (?t as @ z # x) = e b @ (?t bs' @ z # y)"
    using Cons.prems(3) by (simp only: bs join_with_Cons list.map append_assoc map_is_Nil_conv)
  moreover have "delimited (?t as @ z # x)" "delimited (?t bs' @ z # y)" using z delimiters(1) by (simp_all add: delimited_def)
  ultimately have ab: "R a b" and rest: "?t as @ z # x = ?t bs' @ z # y"
    using Cons.prems(1) [of a b] unfolding bs by (meson list.set_intros(1))+
  show ?case
  proof (cases "as = []")
    case True
    with rest z(2) have "bs' = []" "x = y" by (auto split: if_splits)
    with True ab bs show ?thesis by simp
  next
    case False
    with rest z(2) have "bs' \<noteq> []" and tail: "join_with CHR '','' (map e as) @ z # x = join_with CHR '','' (map e bs') @ z # y"
      by (auto split: if_splits)
    have "list_all2 R as bs' \<and> x = y"
    proof (rule Cons.IH [OF _ _ tail])
      show "R a' b' \<and> x' = y'" if "a' \<in> set as" "b' \<in> set bs'" "delimited x'" "delimited y'" "e a' @ x' = e b' @ y'" for a' b' x' y'
        using Cons.prems(1) [of a' b' x' y'] that by (simp add: bs)
      show "e c \<noteq> [] \<and> hd (e c) \<noteq> z" if "c \<in> set as \<union> set bs'" for c using Cons.prems(2) [of c] that by (auto simp: bs)
    qed
    then show ?thesis using ab bs by simp
  qed
qed

text \<open>The first byte tells the kind of value.\<close>

fun first_byte :: "json \<Rightarrow> char" where
  "first_byte JNull = CHR ''n''"
| "first_byte (JBool b) = (if b then CHR ''t'' else CHR ''f'')"
| "first_byte (JNum n) = hd n"
| "first_byte (JStr s) = CHR 0x22"
| "first_byte (JArr vs) = CHR 0x5B"
| "first_byte (JObj ms) = CHR 0x7B"

lemma encodeJson_first: "json_valid v \<Longrightarrow> encodeJson v \<noteq> [] \<and> hd (encodeJson v) = first_byte v"
  by (cases v) (auto simp: quote_string_def number_literal_def)

lemma first_byte_number:
  assumes "number_literal n"
  shows "hd n \<noteq> CHR ''n''" "hd n \<noteq> CHR ''t''" "hd n \<noteq> CHR ''f''" "hd n \<noteq> CHR 0x22" "hd n \<noteq> CHR 0x5B" "hd n \<noteq> CHR 0x7B" "hd n \<noteq> CHR 0x5D"
  using assms by (auto simp: number_literal_def digit_char_def)

lemma first_byte_kind:
  assumes "json_valid v" "json_valid w" "first_byte v = first_byte w"
  shows "(\<exists>a b. v = JNum a \<and> w = JNum b) \<or> (\<exists>a b. v = JStr a \<and> w = JStr b) \<or> (\<exists>a b. v = JArr a \<and> w = JArr b) \<or>
    (\<exists>a b. v = JObj a \<and> w = JObj b) \<or> v = w"
  using assms by (cases v; cases w) (auto simp: first_byte_number first_byte_number [symmetric] split: if_splits)

lemma number_prefix:
  assumes "number_literal a" "number_literal b" "delimited x" "delimited y" "a @ x = b @ y"
  shows "a = b \<and> x = y"
proof -
  have "takeWhile number_char (c @ z) = c" if "number_literal c" "delimited z" for c z
    using that by (cases z) (auto simp: number_literal_def delimited_def list_all_iff takeWhile_tail)
  then have "a = b" using assms by metis
  with assms(5) show ?thesis by simp
qed

lemma member_first: "hd (quote_string k @ x) = CHR 0x22"
  by (simp add: quote_string_def)

lemma encodeJson_inj_gen:
  "json_valid v \<Longrightarrow> json_valid w \<Longrightarrow> delimited x \<Longrightarrow> delimited y \<Longrightarrow> encodeJson v @ x = encodeJson w @ y \<Longrightarrow> canon v = canon w \<and> x = y"
proof (induction v arbitrary: w x y rule: json_valid.induct)
  case (1 n)
  then have "first_byte (JNum n) = first_byte w" using encodeJson_first [of w] encodeJson_first [of "JNum n"] by (metis hd_append2)
  then obtain m where "w = JNum m" using first_byte_kind [OF 1(1,2)] by auto
  then show ?case using number_prefix 1 by simp
next
  case (2 s)
  then have "first_byte (JStr s) = first_byte w" using encodeJson_first [of w] encodeJson_first [of "JStr s"] by (metis hd_append2)
  then obtain t where "w = JStr t" using first_byte_kind [OF 2(1,2)] by auto
  then show ?case using quote_string_inj [of s t x y] 2 by simp
next
  case (3 vs)
  then have "first_byte (JArr vs) = first_byte w" using encodeJson_first [of w] encodeJson_first [of "JArr vs"] by (metis hd_append2)
  then obtain ws where w: "w = JArr ws" using first_byte_kind [OF 3(2,3)] by auto
  have "list_all2 (\<lambda>a b. canon a = canon b) vs ws \<and> x = y"
  proof (rule join_with_inj [where z = "CHR 0x5D" and e = encodeJson])
    show "canon a = canon b \<and> x' = y'" if "a \<in> set vs" "b \<in> set ws" "delimited x'" "delimited y'" "encodeJson a @ x' = encodeJson b @ y'" for a b x' y'
      using 3(1) [OF that(1) _ _ that(3-5)] 3(2,3) that w by (auto simp: list_all_iff)
    show "encodeJson a \<noteq> [] \<and> hd (encodeJson a) \<noteq> CHR 0x5D" if "a \<in> set vs \<union> set ws" for a
      using 3(2,3) that w encodeJson_first [of a] by (cases a) (auto simp: list_all_iff first_byte_number split: if_splits)
  qed (use 3(6) w delimiters in auto)
  then show ?case by (auto simp: w list_all2_conv_all_nth intro: nth_equalityI)
next
  case (4 ms)
  then have "first_byte (JObj ms) = first_byte w" using encodeJson_first [of w] encodeJson_first [of "JObj ms"] by (metis hd_append2)
  then obtain ws where w: "w = JObj ws" using first_byte_kind [OF 4(2,3)] by auto
  define e where "e = (\<lambda>(k, v). quote_string k @ CHR '':'' # encodeJson v)"
  have "list_all2 (\<lambda>a b. fst a = fst b \<and> canon (snd a) = canon (snd b)) (sortBy key_less ms) (sortBy key_less ws) \<and> x = y"
  proof (rule join_with_inj [where z = "CHR 0x7D" and e = e])
    fix a b x' y'
    assume a: "a \<in> set (sortBy key_less ms)" "b \<in> set (sortBy key_less ws)" "delimited x'" "delimited y'" "e a @ x' = e b @ y'"
    obtain k u l t where ab: "a = (k, u)" "b = (l, t)" by (cases a; cases b) auto
    have v: "utf8_valid k" "utf8_valid l" "json_valid u" "json_valid t" using a(1,2) 4(2,3) by (auto simp: ab w list_all_iff)
    from a(5) have "quote_string k @ (CHR '':'' # encodeJson u @ x') = quote_string l @ (CHR '':'' # encodeJson t @ y')" by (simp add: ab e_def)
    from quote_string_inj [OF v(1,2) this] have "k = l" "encodeJson u @ x' = encodeJson t @ y'" by auto
    with 4(1) [of a k u t x' y'] a v show "(fst a = fst b \<and> canon (snd a) = canon (snd b)) \<and> x' = y'" by (auto simp: ab)
  next
    show "e a \<noteq> [] \<and> hd (e a) \<noteq> CHR 0x7D" for a by (auto simp: e_def quote_string_def split: prod.split)
  next
    show "join_with CHR '','' (map e (sortBy key_less ms)) @ CHR 0x7D # x = join_with CHR '','' (map e (sortBy key_less ws)) @ CHR 0x7D # y"
      using 4(6) by (simp add: w encodeJson_object e_def del: encodeJson.simps)
  qed (simp_all add: delimiters)
  then show ?case unfolding w canon_object by (auto simp: list_all2_conv_all_nth case_prod_unfold intro: nth_equalityI)
next
  case 5
  then have "first_byte JNull = first_byte w" using encodeJson_first [of w] encodeJson_first [of JNull] by (metis hd_append2)
  then have "w = JNull" using first_byte_kind [OF 5(1,2)] by auto
  then show ?case using 5 by simp
next
  case (6 b)
  then have "first_byte (JBool b) = first_byte w" using encodeJson_first [of w] encodeJson_first [of "JBool b"] by (metis hd_append2)
  then have "w = JBool b" using first_byte_kind [OF 6(1,2)] by auto
  then show ?case using 6 by simp
qed

lemma encodeJson_inj: "json_valid v \<Longrightarrow> json_valid w \<Longrightarrow> encodeJson v = encodeJson w \<Longrightarrow> canon v = canon w"
  using encodeJson_inj_gen [of v w "[]" "[]"] by (simp add: delimited_def)

interpretation key_order: strict_weak_order key_less
  by unfold_locales (auto simp: key_less_def dest: byte_less_trans byte_order.incomp_trans)

lemma sortBy_key_idem: "sortBy key_less (sortBy key_less ms) = sortBy key_less ms"
  by (rule sortBy_id) (rule key_order.sortBy_sorted)

lemma encodeJson_canon: "encodeJson (canon v) = encodeJson v"
proof (induction v rule: canon.induct)
  case (1 vs)
  then show ?case by (simp add: comp_def cong: map_cong)
next
  case (2 ms)
  have "map (\<lambda>(k, v). quote_string k @ CHR '':'' # encodeJson v) (map (\<lambda>(k, v). (k, canon v)) ms') =
      map (\<lambda>(k, v). quote_string k @ CHR '':'' # encodeJson v) ms'" if "set ms' \<subseteq> set ms" for ms'
    using 2 that by (fastforce intro: map_cong)
  from this [of "sortBy key_less ms"] have "map (\<lambda>(k, v). quote_string k @ CHR '':'' # encodeJson v) (map (\<lambda>(k, v). (k, canon v)) (sortBy key_less ms)) =
      map (\<lambda>(k, v). quote_string k @ CHR '':'' # encodeJson v) (sortBy key_less ms)" by simp
  moreover have "sortBy key_less (map (\<lambda>(k, v). (k, canon v)) ms) = map (\<lambda>(k, v). (k, canon v)) (sortBy key_less ms)"
    using canon_object [of ms] by simp
  ultimately show ?case unfolding canon.simps(2) encodeJson_object sortBy_key_idem by (simp only:)
qed simp_all

lemma encodeJson_eq_iff: "json_valid v \<Longrightarrow> json_valid w \<Longrightarrow> encodeJson v = encodeJson w \<longleftrightarrow> canon v = canon w"
  using encodeJson_inj [of v w] encodeJson_canon [of v] encodeJson_canon [of w] by auto

subsection \<open>json.Marshal of a string\<close>

text \<open>
  \<open>Marshal\<close> escapes the three HTML characters as well. They never occur inside another escape, so
  its text is the plain one with these bytes replaced.
\<close>

definition html_byte :: "char \<Rightarrow> string" where
  "html_byte c = (if c = CHR ''<'' then CHR 0x5C # ''u003c'' else if c = CHR ''>'' then CHR 0x5C # ''u003e''
    else if c = CHR ''&'' then CHR 0x5C # ''u0026'' else [c])"

definition marshalString :: "string \<Rightarrow> string" where
  "marshalString s = CHR 0x22 # concat (map html_byte (escape_string s)) @ [CHR 0x22]"

definition html_free :: "string \<Rightarrow> bool" where
  "html_free s = list_all (\<lambda>c. c \<noteq> CHR ''<'' \<and> c \<noteq> CHR ''>'' \<and> c \<noteq> CHR ''&'') s"

lemma html_free_map: "html_free s \<Longrightarrow> concat (map html_byte s) = s"
  by (induction s) (simp_all add: html_free_def html_byte_def)

lemma html_free_hex: "0 \<le> n \<Longrightarrow> n < 16 \<Longrightarrow> html_free [hex_digit n]"
proof -
  assume n: "0 \<le> n" "n < 16"
  have l: "lower_hex_char (hex_digit n)" by (rule lower_hex_digit [OF n])
  show ?thesis using l by (auto simp: html_free_def lower_hex_char_def)
qed

lemma html_free_ascii: "html_free (escape_ascii c) \<or> escape_ascii c = [c]"
  using html_free_hex [of "of_char c div 16"] html_free_hex [of "of_char c mod 16"] of_char_div_mod_range [of c]
  by (auto simp: escape_ascii_def html_free_def)

lemma html_chars: "char_of (60 :: int) = CHR ''<''" "char_of (62 :: int) = CHR ''>''" "char_of (38 :: int) = CHR ''&''"
  by code_simp+

lemma decodeRune_nonneg: "0 \<le> fst (decodeRune s)"
  by (auto simp: decodeRune_def decodeRune2_def decodeRune3_def decodeRune4_def cont_byte_def Let_def split: list.split)

lemma read_unit_html:
  "read_unit (CHR 0x5C # ''u003c'' @ t) = Some (''<'', t)" "read_unit (CHR 0x5C # ''u003e'' @ t) = Some (''>'', t)"
  "read_unit (CHR 0x5C # ''u0026'' @ t) = Some (''&'', t)"
  by (simp_all add: read_unit_def read_escape_def read_unicode_def getu4_def hex_val_def encodeRune_def html_chars)

lemma html_byte_unit:
  "html_free [c] \<or> (\<exists>d ds. html_byte c = d # ds \<and> d \<noteq> CHR 0x22 \<and> read_unit (html_byte c @ t) = Some ([c], t))"
proof (cases "c = CHR ''<'' \<or> c = CHR ''>'' \<or> c = CHR ''&''")
  case True
  then show ?thesis using read_unit_html [of t] by (auto simp: html_byte_def)
qed (simp add: html_free_def)

lemma html_free_high: "list_all (\<lambda>c. 128 \<le> (of_char c :: int)) s \<Longrightarrow> html_free s"
  by (induction s) (auto simp: html_free_def)

lemma decodeRune_byte_high:
  assumes "decodeRune (u @ t) \<noteq> (runeError, 1)" "snd (decodeRune (u @ t)) = length u" "u = c # c' # cs"
  shows "list_all (\<lambda>c. 128 \<le> (of_char c :: int)) u"
  using assms(1,2) unfolding assms(3)
  by (auto simp: decodeRune_def decodeRune2_def decodeRune3_def decodeRune4_def cont_byte_def Let_def length_Suc_conv
      split: if_splits list.splits; cases cs; cases "tl cs"; auto)

lemma decodeRune_single:
  "decodeRune ([c] @ t) \<noteq> (runeError, 1) \<Longrightarrow> snd (decodeRune ([c] @ t)) = 1 \<Longrightarrow> (of_char c :: int) < 128 \<and> decodeRune ([c] @ t) = (of_char c, 1)"
  by (auto simp: decodeRune_def decodeRune2_def decodeRune3_def decodeRune4_def Let_def split: if_splits list.splits)

lemma html_rune_unit:
  assumes "u \<noteq> []" "decodeRune (u @ t) \<noteq> (runeError, 1)" "snd (decodeRune (u @ t)) = length u"
    and "encodeRune (fst (decodeRune (u @ t))) = u" and "\<And>t'. decodeRune (u @ t') = decodeRune (u @ t)"
  shows "\<exists>d ds. concat (map html_byte (escape_rune (u @ t))) = d # ds \<and> d \<noteq> CHR 0x22 \<and>
    read_unit (concat (map html_byte (escape_rune (u @ t))) @ t') = Some (u, t')"
proof (cases "html_free (escape_rune (u @ t))")
  case True
  then show ?thesis using escape_rune_unit [OF assms, of t'] by (simp add: html_free_map)
next
  case False
  obtain c where u: "u = [c]" and e: "escape_rune (u @ t) = [c]"
  proof (cases "\<exists>c. u = [c]")
    case True
    then obtain c where u: "u = [c]" by blast
    from decodeRune_single [of c t] assms(2,3) have d: "(of_char c :: int) < 128" "decodeRune (u @ t) = (of_char c, 1)" by (simp_all add: u)
    then have "escape_rune (u @ t) = escape_ascii c" using assms(2) by (simp add: escape_rune_def)
    with False html_free_ascii [of c] that [OF u] show ?thesis by simp
  next
    case no: False
    then obtain c c' cs where u: "u = c # c' # cs" using assms(1) by (cases u; cases "tl u") auto
    have "html_free u" by (rule html_free_high [OF decodeRune_byte_high [OF assms(2,3) u]])
    moreover have "escape_rune (u @ t) \<in> {u, CHR 0x5C # ''u2028'', CHR 0x5C # ''u2029''} \<or> fst (decodeRune (u @ t)) < 128"
      using assms(2,3) by (auto simp: escape_rune_def split: prod.split)
    moreover have "\<not> fst (decodeRune (u @ t)) < 128"
    proof
      assume "fst (decodeRune (u @ t)) < 128"
      then have "length (encodeRune (fst (decodeRune (u @ t)))) \<noteq> 2 + length cs"
        using decodeRune_nonneg [of "u @ t"] by (auto simp: encodeRune_def)
      with assms(4) u show False by simp
    qed
    ultimately have "html_free (escape_rune (u @ t))" by (auto simp: html_free_def)
    with False show ?thesis by simp
  qed
  with False html_byte_unit [of c t'] show ?thesis by simp
qed

lemma read_marshal: "utf8_valid s \<Longrightarrow> read_string (concat (map html_byte (escape_string s)) @ CHR 0x22 # rest) = Some (s, rest)"
proof (induction s rule: utf8_induct)
  case Nil
  then show ?case by (simp add: escape_string.simps read_string.simps)
next
  case (Rune u t)
  have e: "escape_string (u @ t) = escape_rune (u @ t) @ escape_string t"
    using Rune(1,3) by (simp add: escape_string.simps [of "u @ t"])
  let ?r = "concat (map html_byte (escape_string t)) @ CHR 0x22 # rest"
  obtain d ds where d: "concat (map html_byte (escape_rune (u @ t))) = d # ds" "d \<noteq> CHR 0x22"
    "read_unit (concat (map html_byte (escape_rune (u @ t))) @ ?r) = Some (u, ?r)"
    using html_rune_unit [OF Rune(1-5)] by blast
  then show ?case using read_string_unit [of d "ds @ ?r", OF _ d(2) Rune(7)] e by simp
qed

lemma unmarshal_marshal: "utf8_valid s \<Longrightarrow> unmarshalJson (marshalString s) = Some (JStr s)"
  using read_marshal [of s "[]"]
  by (simp add: unmarshalJson_def marshalString_def parse_value.simps skip_space_def is_space_def)

lemma hex_val_ascii: "hex_val c = Some n \<Longrightarrow> (of_char c :: int) < 128"
  by (auto simp: hex_val_def Let_def split: if_splits)

lemma utf8_valid_hex: "hex_decode s = Some d \<Longrightarrow> utf8_valid s"
  by (induction s arbitrary: d rule: hex_decode.induct) (auto simp: hex_val_ascii split: option.splits)

end
