(* ===== verification/Records.thy ===== *)
theory Records
  imports GoJson Receipt
begin

section \<open>Canonical records\<close>

text \<open>
  The data of \<open>internal/model/record.go\<close>: one field per field of the Go structs, in their order.
  Raw JSON messages are byte strings, pointers are options, a double is its IEEE bit pattern.
  The deduplication key of \<open>internal/ingest/dedupe.go\<close> is computed from a record here.
\<close>

record attribute =
  at_namespace :: string
  at_path :: string
  at_value_type :: string
  at_string :: "string option"
  at_integer :: "string option"
  at_double :: "64 word option"
  at_boolean :: "bool option"
  at_json :: string
  at_unit :: "string option"

record model_record =
  r_tenant :: int
  r_project :: int
  r_record_id :: string
  r_acceptance :: string
  r_item :: int
  r_ordinal :: int
  r_kind :: string
  r_event_us :: int
  r_event_ns :: int
  r_ts_source :: string
  r_ts_original :: string
  r_arrival_us :: int
  r_source_event :: "string option"
  r_trace :: "string option"
  r_span :: "string option"
  r_level :: string
  r_original_level :: string
  r_severity :: "int option"
  r_message :: string
  r_template :: "string option"
  r_service :: "string option"
  r_environment :: "string option"
  r_release :: "string option"
  r_logger :: "string option"
  r_sdk_name :: "string option"
  r_sdk_version :: "string option"
  r_envelope_sdk :: string
  r_sent_at :: string
  r_platform :: "string option"
  r_server :: "string option"
  r_attrs :: "attribute list"
  r_search :: "string list"
  r_raw :: string
  r_warnings :: "string list"
  r_schema :: int
  r_normalizer :: int
  r_scrub :: int

record request_outcome =
  oc_item :: int
  oc_category :: string
  oc_reason :: string
  oc_quantity :: int
  oc_approximate :: bool

record unsupported_item =
  ui_item :: int
  ui_type :: string
  ui_bytes :: int

record normalized_request =
  nr_tenant :: int
  nr_project :: int
  nr_acceptance :: string
  nr_records :: "model_record list"
  nr_outcomes :: "request_outcome list"
  nr_unsupported :: int
  nr_unsupported_items :: "unsupported_item list"

abbreviation KindError :: string where "KindError \<equiv> ''error''"
abbreviation KindLog :: string where "KindLog \<equiv> ''log''"
abbreviation KindTransaction :: string where "KindTransaction \<equiv> ''transaction''"

text \<open>\<open>Decode\<close> into a \<open>map[string]any\<close>: an object is the map, \<open>null\<close> leaves the nil map, anything else fails.\<close>

definition object_of :: "json option \<Rightarrow> (string \<times> json) list option option" where
  "object_of v = (case v of Some (JObj ms) \<Rightarrow> Some (Some ms) | Some JNull \<Rightarrow> Some None | _ \<Rightarrow> None)"

definition map_json :: "(string \<times> json) list option \<Rightarrow> json" where
  "map_json m = (case m of None \<Rightarrow> JNull | Some ms \<Rightarrow> JObj ms)"

definition delete_member :: "string \<Rightarrow> (string \<times> json) list \<Rightarrow> (string \<times> json) list" where
  "delete_member k ms = filter (\<lambda>x. fst x \<noteq> k) ms"

subsection \<open>The deduplication key\<close>

abbreviation DedupeHashVersion :: int where "DedupeHashVersion \<equiv> 1"

definition encodeJSONWithoutNewline :: "json \<Rightarrow> string" where
  "encodeJSONWithoutNewline v = encodeJson v"

text \<open>The struct \<open>dedupeHashInput\<close> is written in the order of its fields, its raw message as it stands.\<close>

definition dedupeHashInput :: "string \<Rightarrow> string \<Rightarrow> string \<Rightarrow> string" where
  "dedupeHashInput kind event raw =
    [CHR 0x7B] @ quote_string ''version'' @ [CHR '':''] @ showInt DedupeHashVersion @ [CHR '',''] @
    quote_string ''kind'' @ [CHR '':''] @ quote_string kind @ [CHR '',''] @
    quote_string ''source_event_id'' @ [CHR '':''] @ quote_string event @ [CHR '',''] @
    quote_string ''raw'' @ [CHR '':''] @ raw @ [CHR 0x7D]"

datatype dedupe_error = InvalidDedupeJSON

definition dedupe_bytes :: "model_record \<Rightarrow> dedupe_error + string option" where
  "dedupe_bytes r = (case r_source_event r of None \<Rightarrow> Inr None | Some event \<Rightarrow>
    if r_kind r \<noteq> KindError \<and> r_kind r \<noteq> KindTransaction then Inr None
    else case normalizeEventID event of None \<Rightarrow> Inr None | Some sourceEventID \<Rightarrow>
      (case object_of (unmarshalJson (r_raw r)) of None \<Rightarrow> Inl InvalidDedupeJSON
       | Some m \<Rightarrow> Inr (Some (dedupeHashInput (r_kind r) sourceEventID
           (encodeJSONWithoutNewline (map_json (map_option (delete_member ''event_id'') m)))))))"

definition dedupePayloadSHA256 :: "model_record \<Rightarrow> dedupe_error + string option" where
  "dedupePayloadSHA256 r = bindR (dedupe_bytes r) (\<lambda>b. Inr (map_option sha256_hex b))"

text \<open>What the key stands for: the kind, the event identifier and the payload without it, up to key order.\<close>

definition dedupe_payload :: "model_record \<Rightarrow> (string \<times> string \<times> json) option" where
  "dedupe_payload r = (case r_source_event r of None \<Rightarrow> None | Some event \<Rightarrow>
    (case (normalizeEventID event, object_of (unmarshalJson (r_raw r))) of
       (Some i, Some m) \<Rightarrow> Some (r_kind r, i, canon (map_json (map_option (delete_member ''event_id'') m)))
     | _ \<Rightarrow> None))"

lemma dedupe_object_valid:
  assumes "object_of (unmarshalJson s) = Some m"
  shows "json_valid (map_json (map_option (delete_member k) m))"
proof (cases m)
  case (Some ms)
  then have "unmarshalJson s = Some (JObj ms)" using assms by (auto simp: object_of_def split: option.splits json.splits)
  then have "json_valid (JObj ms)" by (rule unmarshal_valid)
  then show ?thesis using Some by (auto simp: map_json_def delete_member_def list_all_iff distinct_map inj_on_def)
qed (simp add: map_json_def)

lemma normalizeEventID_valid: "normalizeEventID s = Some i \<Longrightarrow> utf8_valid i"
  by (auto simp: normalizeEventID_def Let_def dest: utf8_valid_hex split: if_splits)

lemma utf8_kind [simp]: "utf8_valid KindError" "utf8_valid KindTransaction" "utf8_valid KindLog"
  by simp_all

lemma dedupeHashInput_inj:
  assumes "utf8_valid k" "utf8_valid k'" "utf8_valid e" "utf8_valid e'" "json_valid v" "json_valid v'"
  shows "dedupeHashInput k e (encodeJson v) = dedupeHashInput k' e' (encodeJson v') \<longleftrightarrow> k = k' \<and> e = e' \<and> canon v = canon v'"
proof
  let ?E = "\<lambda>e v. [CHR '',''] @ quote_string ''source_event_id'' @ [CHR '':''] @ quote_string e @ [CHR '',''] @ quote_string ''raw'' @ [CHR '':''] @ encodeJson v @ [CHR 0x7D]"
  let ?R = "\<lambda>v. [CHR '',''] @ quote_string ''raw'' @ [CHR '':''] @ encodeJson v @ [CHR 0x7D]"
  assume "dedupeHashInput k e (encodeJson v) = dedupeHashInput k' e' (encodeJson v')"
  then have "quote_string k @ ?E e v = quote_string k' @ ?E e' v'" by (simp add: dedupeHashInput_def)
  from quote_string_inj [OF assms(1,2) this] have k: "k = k'" and "quote_string e @ ?R v = quote_string e' @ ?R v'" by auto
  from quote_string_inj [OF assms(3,4) this(2)] have e: "e = e'" and v: "encodeJson v @ [CHR 0x7D] = encodeJson v' @ [CHR 0x7D]" by auto
  from encodeJson_inj_gen [OF assms(5,6) _ _ v] show "k = k' \<and> e = e' \<and> canon v = canon v'"
    using k e delimiters by (simp add: delimited_def)
next
  assume "k = k' \<and> e = e' \<and> canon v = canon v'"
  then show "dedupeHashInput k e (encodeJson v) = dedupeHashInput k' e' (encodeJson v')"
    using encodeJson_eq_iff [OF assms(5,6)] by simp
qed

lemma dedupe_bytes_cases:
  assumes "dedupe_bytes r = Inr (Some b)"
  obtains i v where "utf8_valid (r_kind r)" "utf8_valid i" "json_valid v" "b = dedupeHashInput (r_kind r) i (encodeJson v)"
    "dedupe_payload r = Some (r_kind r, i, canon v)"
proof -
  obtain ev i m where m: "r_source_event r = Some ev" "r_kind r = KindError \<or> r_kind r = KindTransaction" "normalizeEventID ev = Some i"
      "object_of (unmarshalJson (r_raw r)) = Some m"
      "b = dedupeHashInput (r_kind r) i (encodeJson (map_json (map_option (delete_member ''event_id'') m)))"
    using assms by (auto simp: dedupe_bytes_def encodeJSONWithoutNewline_def split: option.splits if_splits)
  show thesis
  proof (rule that [OF _ normalizeEventID_valid [OF m(3)] dedupe_object_valid [OF m(4)] m(5)])
    show "utf8_valid (r_kind r)" using m(2) by auto
  qed (simp add: dedupe_payload_def m(1,3,4))
qed

subsection \<open>Property\<close>

text \<open>
  C33: the deduplication key identifies the payload. Logs and records without a usable event
  identifier have no key. The bytes hashed for two records with keys are the same exactly when
  the records have the same kind, the same normalised event identifier and the same payload apart
  from \<open>event_id\<close>, whatever the order of object keys, the spacing and the spelling of escapes in
  the raw bytes; in particular equal payloads have equal keys.
\<close>

theorem dedupe_key_identifies_payload:
  assumes "dedupePayloadSHA256 r = Inr (Some h)" and "dedupePayloadSHA256 s = Inr (Some h')"
  shows "\<exists>b c. dedupe_bytes r = Inr (Some b) \<and> dedupe_bytes s = Inr (Some c) \<and> h = sha256_hex b \<and> h' = sha256_hex c \<and>
    (b = c \<longleftrightarrow> dedupe_payload r = dedupe_payload s) \<and> dedupe_payload r \<noteq> None \<and> r_kind r \<noteq> KindLog"
proof -
  obtain b where b: "dedupe_bytes r = Inr (Some b)" "h = sha256_hex b" using assms(1) by (auto simp: dedupePayloadSHA256_def bindR_eq_Inr)
  obtain c where c: "dedupe_bytes s = Inr (Some c)" "h' = sha256_hex c" using assms(2) by (auto simp: dedupePayloadSHA256_def bindR_eq_Inr)
  have kind: "r_kind r \<noteq> KindLog" using b(1) by (auto simp: dedupe_bytes_def split: option.splits if_splits)
  obtain i v where v: "utf8_valid (r_kind r)" "utf8_valid i" "json_valid v" "b = dedupeHashInput (r_kind r) i (encodeJson v)"
    "dedupe_payload r = Some (r_kind r, i, canon v)" using dedupe_bytes_cases [OF b(1)] .
  obtain j w where w: "utf8_valid (r_kind s)" "utf8_valid j" "json_valid w" "c = dedupeHashInput (r_kind s) j (encodeJson w)"
    "dedupe_payload s = Some (r_kind s, j, canon w)" using dedupe_bytes_cases [OF c(1)] .
  have "b = c \<longleftrightarrow> dedupe_payload r = dedupe_payload s"
    using dedupeHashInput_inj [OF v(1) w(1) v(2) w(2) v(3) w(3)] v(4,5) w(4,5) by simp
  then show ?thesis using b c kind v(5) by blast
qed

definition sample_record :: "string \<Rightarrow> string \<Rightarrow> model_record" where
  "sample_record kind raw = \<lparr>r_tenant = 1, r_project = 7, r_record_id = [], r_acceptance = [], r_item = 0, r_ordinal = 0, r_kind = kind,
    r_event_us = 0, r_event_ns = 0, r_ts_source = [], r_ts_original = [], r_arrival_us = 0, r_source_event = Some (replicate 32 CHR ''a''),
    r_trace = None, r_span = None, r_level = ''error'', r_original_level = [], r_severity = None, r_message = [], r_template = None,
    r_service = None, r_environment = None, r_release = None, r_logger = None, r_sdk_name = None, r_sdk_version = None, r_envelope_sdk = [],
    r_sent_at = [], r_platform = None, r_server = None, r_attrs = [], r_search = [], r_raw = raw, r_warnings = [], r_schema = 1,
    r_normalizer = 1, r_scrub = 1\<rparr>"

definition sample_raw :: "string \<Rightarrow> string" where
  "sample_raw ev = [CHR 0x7B] @ quote_string ''b'' @ '':1,'' @ quote_string ''event_id'' @ '':'' @ quote_string ev @ '', '' @ quote_string ''a'' @ '':[true]}''"

theorem dedupe_key_identifies_payload_witness:
  "\<exists>h h'. dedupePayloadSHA256 (sample_record KindError (sample_raw ''x'')) = Inr (Some h) \<and>
    dedupePayloadSHA256 (sample_record KindError (sample_raw ''y'')) = Inr (Some h') \<and> h = h'"
proof -
  let ?x = "sample_record KindError (sample_raw ''x'')" and ?y = "sample_record KindError (sample_raw ''y'')"
  have "case dedupe_bytes ?x of Inr (Some b) \<Rightarrow> True | _ \<Rightarrow> False" "case dedupe_bytes ?y of Inr (Some b) \<Rightarrow> True | _ \<Rightarrow> False"
    by code_simp+
  then obtain h h' where h: "dedupePayloadSHA256 ?x = Inr (Some h)" "dedupePayloadSHA256 ?y = Inr (Some h')"
    by (auto simp: dedupePayloadSHA256_def split: sum.splits option.splits)
  have "dedupe_payload ?x = dedupe_payload ?y" by code_simp
  with dedupe_key_identifies_payload [OF h] h show ?thesis by auto
qed

section \<open>Query snapshots\<close>

text \<open>\<open>SnapshotLane\<close>, \<open>QuerySnapshot\<close> and \<open>QueryPrincipalHash\<close> of \<open>internal/model/query.go\<close>. Times are in microseconds.\<close>

record snapshot_lane =
  sl_lane :: int
  sl_cut :: int
  sl_generation :: int

record query_snapshot =
  qs_id :: string
  qs_tenant :: int
  qs_user :: int
  qs_principal :: string
  qs_revision :: int
  qs_tenant_revision :: int
  qs_generation :: int
  qs_dataset :: string
  qs_bytes :: string
  qs_floor :: int
  qs_projects :: "int list"
  qs_revisions :: "int list"
  qs_lanes :: "snapshot_lane list"
  qs_expires :: int
  qs_until :: int

definition queryPrincipalHash :: "int \<Rightarrow> string \<Rightarrow> string" where
  "queryPrincipalHash user session = sha256_hex (''eventglass-principal-v1'' @ be_bytes 8 user @ session)"

end
