(* ===== verification/IssueLifecycle.thy ===== *)
theory IssueLifecycle
  imports GoJson Receipt
begin

section \<open>The lifecycle of an issue\<close>

text \<open>
  \<open>internal/issues/lifecycle.go\<close>: the pure transitions of an issue. \<open>applyUniqueOccurrence\<close> counts
  one occurrence, widens the first and the last event, and reopens a resolved issue that an
  occurrence beyond its resolved cut reaches; \<open>resolveIssue\<close>, \<open>ignoreIssue\<close> and \<open>reopenIssue\<close> are the
  operator's actions. A nil cut is None. The lemmas show what a sequence of occurrences leaves
  behind: everything but the title is independent of their order.
\<close>

abbreviation StatusUnresolved :: string where "StatusUnresolved \<equiv> ''unresolved''"
abbreviation StatusResolved :: string where "StatusResolved \<equiv> ''resolved''"
abbreviation StatusIgnored :: string where "StatusIgnored \<equiv> ''ignored''"

datatype transition_type = TransitionCreated | TransitionRegressed | TransitionResolved | TransitionIgnored | TransitionReopened

datatype issue_error = InvalidOccurrence | CountOverflow | IncompleteCut | RevisionOverflow | AllLaneCutsRequired | NegativeCut | InvalidRevision

record event_tuple =
  et_time :: int
  et_ns :: int
  et_record :: string
  et_release :: "string option"

record occurrence =
  o_record :: string
  o_lane :: int
  o_seq :: int
  o_time :: int
  o_ns :: int
  o_received :: int
  o_release :: "string option"

record issue_state =
  i_status :: string
  i_revision :: int
  i_count :: int
  i_first :: event_tuple
  i_last :: event_tuple
  i_received :: int
  i_cut :: "int list option"
  i_title :: string

definition truncateRunes :: "string \<Rightarrow> nat \<Rightarrow> string" where
  "truncateRunes s limit = (if length (runes s) \<le> limit then s else string_of_runes (take limit (runes s)))"

definition validRecordID :: "string \<Rightarrow> bool" where
  "validRecordID s = (length s = 64 \<and> (case hex_decode s of Some d \<Rightarrow> hex_encode d = s | None \<Rightarrow> False))"

text \<open>\<open>Unmarshal\<close> into a string accepts a JSON string and leaves the string alone for \<open>null\<close>.\<close>

definition validReleaseJSON :: "string option \<Rightarrow> bool" where
  "validReleaseJSON v = (case v of None \<Rightarrow> True | Some s \<Rightarrow>
    (case unmarshalJson s of Some (JStr _) \<Rightarrow> True | Some JNull \<Rightarrow> True | _ \<Rightarrow> False))"

definition validStatus :: "string \<Rightarrow> bool" where
  "validStatus s = (s = StatusUnresolved \<or> s = StatusResolved \<or> s = StatusIgnored)"

definition lessEventTuple :: "event_tuple \<Rightarrow> event_tuple \<Rightarrow> bool" where
  "lessEventTuple l r =
    (if et_time l \<noteq> et_time r then et_time l < et_time r
     else if et_ns l \<noteq> et_ns r then et_ns l < et_ns r
     else byte_less (et_record l) (et_record r))"

definition valid_occurrence :: "occurrence \<Rightarrow> bool" where
  "valid_occurrence oc = (validRecordID (o_record oc) \<and> 0 \<le> o_lane oc \<and> o_lane oc < LaneCount \<and> 0 < o_seq oc \<and> o_ns oc \<le> 999 \<and>
    validReleaseJSON (o_release oc))"

definition occ_tuple :: "occurrence \<Rightarrow> event_tuple" where
  "occ_tuple oc = \<lparr>et_time = o_time oc, et_ns = o_ns oc, et_record = o_record oc, et_release = o_release oc\<rparr>"

definition created_state :: "occurrence \<Rightarrow> string \<Rightarrow> issue_state" where
  "created_state oc title = \<lparr>i_status = StatusUnresolved, i_revision = 1, i_count = 1, i_first = occ_tuple oc, i_last = occ_tuple oc,
    i_received = o_received oc, i_cut = None, i_title = truncateRunes title 512\<rparr>"

definition counted_state :: "issue_state \<Rightarrow> occurrence \<Rightarrow> issue_state" where
  "counted_state st oc = st\<lparr>i_count := add64 (i_count st) 1,
    i_first := if lessEventTuple (occ_tuple oc) (i_first st) then occ_tuple oc else i_first st,
    i_last := if lessEventTuple (i_last st) (occ_tuple oc) then occ_tuple oc else i_last st,
    i_received := if i_received st < o_received oc then o_received oc else i_received st\<rparr>"

definition cut_length :: "int list option \<Rightarrow> int" where
  "cut_length cuts = (case cuts of None \<Rightarrow> 0 | Some c \<Rightarrow> int (length c))"

definition cut_at :: "int list option \<Rightarrow> int \<Rightarrow> int" where
  "cut_at cuts lane = (case cuts of None \<Rightarrow> 0 | Some c \<Rightarrow> c ! nat lane)"

definition applyUniqueOccurrence :: "issue_state option \<Rightarrow> occurrence \<Rightarrow> string \<Rightarrow> issue_error + issue_state \<times> transition_type option" where
  "applyUniqueOccurrence current oc title =
    (if \<not> valid_occurrence oc then Inl InvalidOccurrence
     else case current of None \<Rightarrow> Inr (created_state oc title, Some TransitionCreated)
     | Some st \<Rightarrow>
       (if i_count st = maxInt64 then Inl CountOverflow
        else let next = counted_state st oc in
          if i_status next = StatusResolved then
            (if cut_length (i_cut next) \<noteq> LaneCount then Inl IncompleteCut
             else if cut_at (i_cut next) (o_lane oc) < o_seq oc then
               (if i_revision next = maxInt64 then Inl RevisionOverflow
                else Inr (next\<lparr>i_status := StatusUnresolved, i_revision := add64 (i_revision next) 1, i_cut := None\<rparr>, Some TransitionRegressed))
             else Inr (next, None))
          else Inr (next, None)))"

definition mutateStatus :: "issue_state \<Rightarrow> string \<Rightarrow> transition_type \<Rightarrow> int list option \<Rightarrow> issue_error + issue_state \<times> transition_type option" where
  "mutateStatus st status tr cuts =
    (if i_revision st \<le> 0 \<or> i_revision st = maxInt64 \<or> \<not> validStatus (i_status st) then Inl InvalidRevision
     else Inr (st\<lparr>i_status := status, i_revision := add64 (i_revision st) 1, i_cut := cuts\<rparr>, Some tr))"

definition resolveIssue :: "issue_state \<Rightarrow> int list \<Rightarrow> issue_error + issue_state \<times> transition_type option" where
  "resolveIssue st cuts =
    (if int (length cuts) \<noteq> LaneCount then Inl AllLaneCutsRequired
     else if list_ex (\<lambda>s. s < 0) cuts then Inl NegativeCut
     else if i_status st = StatusResolved then Inr (st, None)
     else mutateStatus st StatusResolved TransitionResolved (Some cuts))"

definition ignoreIssue :: "issue_state \<Rightarrow> issue_error + issue_state \<times> transition_type option" where
  "ignoreIssue st = (if i_status st = StatusIgnored then Inr (st, None) else mutateStatus st StatusIgnored TransitionIgnored None)"

definition reopenIssue :: "issue_state \<Rightarrow> issue_error + issue_state \<times> transition_type option" where
  "reopenIssue st = (if i_status st = StatusUnresolved then Inr (st, None) else mutateStatus st StatusUnresolved TransitionReopened None)"

subsection \<open>The order of events\<close>

context strict_weak_order
begin

lemma foldl_least:
  "foldl (\<lambda>m y. if lt y m then y else m) x ys \<in> set (x # ys) \<and> (\<forall>y \<in> set (x # ys). \<not> lt y (foldl (\<lambda>m y. if lt y m then y else m) x ys))"
proof (induction ys rule: rev_induct)
  case Nil
  then show ?case using irrefl by simp
next
  case (snoc y ys)
  let ?m = "foldl (\<lambda>m y. if lt y m then y else m) x ys"
  show ?case
  proof (cases "lt y ?m")
    case True
    then have "\<not> lt z y" if "z \<in> set (x # ys)" for z using snoc that trans by blast
    with True show ?thesis using irrefl by auto
  qed (use snoc in auto)
qed

lemma foldl_greatest:
  "foldl (\<lambda>m y. if lt m y then y else m) x ys \<in> set (x # ys) \<and> (\<forall>y \<in> set (x # ys). \<not> lt (foldl (\<lambda>m y. if lt m y then y else m) x ys) y)"
proof (induction ys rule: rev_induct)
  case Nil
  then show ?case using irrefl by simp
next
  case (snoc y ys)
  let ?m = "foldl (\<lambda>m y. if lt m y then y else m) x ys"
  show ?case
  proof (cases "lt ?m y")
    case True
    then have "\<not> lt y z" if "z \<in> set (x # ys)" for z using snoc that trans by blast
    with True show ?thesis using irrefl by auto
  qed (use snoc in auto)
qed

end

interpretation tuple_order: strict_weak_order lessEventTuple
proof
  show "\<not> lessEventTuple x x" for x by (simp add: lessEventTuple_def)
  show "lessEventTuple x y \<Longrightarrow> lessEventTuple y z \<Longrightarrow> lessEventTuple x z" for x y z
    by (auto simp: lessEventTuple_def dest: byte_less_trans split: if_splits)
  show "\<not> lessEventTuple x y \<Longrightarrow> \<not> lessEventTuple y z \<Longrightarrow> \<not> lessEventTuple x z" for x y z
    using byte_order.incomp_trans [of "et_record x" "et_record y" "et_record z"]
    by (auto simp: lessEventTuple_def split: if_splits)
qed

lemma tuple_total: "et_record l \<noteq> et_record r \<Longrightarrow> lessEventTuple l r \<or> lessEventTuple r l"
  using byte_less_total by (auto simp: lessEventTuple_def)

subsection \<open>Sequences of occurrences\<close>

definition apply_step :: "issue_state option \<times> transition_type list \<Rightarrow> occurrence \<times> string \<Rightarrow>
    issue_error + issue_state option \<times> transition_type list" where
  "apply_step s x = bindR (applyUniqueOccurrence (fst s) (fst x) (snd x))
    (\<lambda>(n, t). Inr (Some n, snd s @ (case t of None \<Rightarrow> [] | Some tr \<Rightarrow> [tr])))"

definition applyAll :: "issue_state option \<Rightarrow> (occurrence \<times> string) list \<Rightarrow> issue_error + issue_state option \<times> transition_type list" where
  "applyAll st ocs = foldR apply_step (st, []) ocs"

definition room :: "issue_state \<Rightarrow> nat \<Rightarrow> bool" where
  "room st n = (0 \<le> i_count st \<and> i_count st + int n \<le> maxInt64)"

lemma counted_state_simps [simp]:
  "i_status (counted_state st oc) = i_status st" "i_revision (counted_state st oc) = i_revision st"
  "i_cut (counted_state st oc) = i_cut st" "i_title (counted_state st oc) = i_title st"
  by (simp_all add: counted_state_def)

lemma room_step: "room st (Suc n) \<Longrightarrow> i_count st \<noteq> maxInt64 \<and> i_count (counted_state st oc) = i_count st + 1 \<and> room (counted_state st oc) n"
  by (auto simp: room_def counted_state_def add64_id int64_def)

lemma apply_open:
  assumes "i_status st \<noteq> StatusResolved" "valid_occurrence oc" "i_count st \<noteq> maxInt64"
  shows "applyUniqueOccurrence (Some st) oc title = Inr (counted_state st oc, None)"
  using assms by (simp add: applyUniqueOccurrence_def)

lemma applyAll_open:
  assumes "i_status st \<noteq> StatusResolved" and "list_all (valid_occurrence \<circ> fst) ocs" and "room st (length ocs)"
  shows "foldR apply_step (Some st, ts) ocs = Inr (Some (foldl counted_state st (map fst ocs)), ts)"
  using assms
proof (induction ocs arbitrary: st)
  case (Cons x ocs)
  then show ?case
    using room_step [of st "length ocs" "fst x"] apply_open [of st "fst x" "snd x"] by (simp add: apply_step_def)
qed simp

lemma foldl_counted:
  "i_first (foldl counted_state st os) = foldl (\<lambda>m y. if lessEventTuple y m then y else m) (i_first st) (map occ_tuple os)"
  "i_last (foldl counted_state st os) = foldl (\<lambda>m y. if lessEventTuple m y then y else m) (i_last st) (map occ_tuple os)"
  "i_received (foldl counted_state st os) = foldl max (i_received st) (map o_received os)"
  "i_status (foldl counted_state st os) = i_status st" "i_revision (foldl counted_state st os) = i_revision st"
  "i_cut (foldl counted_state st os) = i_cut st" "i_title (foldl counted_state st os) = i_title st"
  by (induction os arbitrary: st) (simp_all add: counted_state_def max_def)

lemma foldl_counted_count: "room st (length os) \<Longrightarrow> i_count (foldl counted_state st os) = i_count st + int (length os)"
proof (induction os arbitrary: st)
  case (Cons oc os)
  then show ?case using room_step [of st "length os" oc] by simp
qed simp

lemma foldl_max: "foldl max x ys = Max (set (x # ys))" for x :: "'a::linorder"
proof -
  have "(\<lambda>x s. max s x) = (max :: 'a \<Rightarrow> 'a \<Rightarrow> 'a)" by (intro ext max.commute)
  then show ?thesis by (simp only: Max.set_eq_fold foldl_conv_fold)
qed

lemma applyAll_new:
  assumes "ocs \<noteq> []" "list_all (valid_occurrence \<circ> fst) ocs" "int (length ocs) \<le> maxInt64"
  shows "applyAll None ocs = Inr (Some (foldl counted_state (created_state (fst (hd ocs)) (snd (hd ocs))) (map fst (tl ocs))), [TransitionCreated])"
proof -
  obtain x rest where ocs: "ocs = x # rest" using assms(1) by (cases ocs) auto
  have "apply_step (None, []) x = Inr (Some (created_state (fst x) (snd x)), [TransitionCreated])"
    using assms(2) by (simp add: ocs apply_step_def applyUniqueOccurrence_def)
  moreover have "room (created_state (fst x) (snd x)) (length rest)" "i_status (created_state (fst x) (snd x)) \<noteq> StatusResolved"
    using assms(3) by (simp_all add: room_def created_state_def ocs)
  ultimately show ?thesis using applyAll_open [of "created_state (fst x) (snd x)" rest] assms(2)
    by (simp add: ocs applyAll_def)
qed

text \<open>What a set of occurrences with distinct record identifiers determines.\<close>

definition summarises :: "occurrence set \<Rightarrow> issue_state \<Rightarrow> bool" where
  "summarises S st = (i_first st \<in> occ_tuple ` S \<and> i_last st \<in> occ_tuple ` S \<and> i_received st = Max (o_received ` S) \<and>
    (\<forall>oc \<in> S. \<not> lessEventTuple (occ_tuple oc) (i_first st) \<and> \<not> lessEventTuple (i_last st) (occ_tuple oc)))"

lemma occ_tuple_record [simp]: "et_record (occ_tuple oc) = o_record oc"
  by (simp add: occ_tuple_def)

lemma summarises_unique:
  assumes "summarises S a" "summarises S b" "inj_on o_record S"
  shows "i_first a = i_first b \<and> i_last a = i_last b \<and> i_received a = i_received b"
proof -
  obtain x y where x: "x \<in> S" "i_first a = occ_tuple x" and y: "y \<in> S" "i_first b = occ_tuple y"
    using assms(1,2) by (auto simp: summarises_def)
  obtain u v where u: "u \<in> S" "i_last a = occ_tuple u" and v: "v \<in> S" "i_last b = occ_tuple v"
    using assms(1,2) by (auto simp: summarises_def)
  have "o_record x = o_record y" using assms(1,2) x y tuple_total [of "occ_tuple x" "occ_tuple y"] by (auto simp: summarises_def)
  moreover have "o_record u = o_record v" using assms(1,2) u v tuple_total [of "occ_tuple u" "occ_tuple v"] by (auto simp: summarises_def)
  ultimately have "x = y" "u = v" using assms(3) x y u v by (auto simp: inj_on_def)
  then show ?thesis using assms(1,2) x y u v by (simp add: summarises_def)
qed

lemma created_summarises: "summarises (set (oc # os)) (foldl counted_state (created_state oc title) os)"
  using tuple_order.foldl_least [of "occ_tuple oc" "map occ_tuple os"] tuple_order.foldl_greatest [of "occ_tuple oc" "map occ_tuple os"]
  by (simp add: summarises_def foldl_counted foldl_max created_state_def)

subsection \<open>Regression\<close>

definition beyond_cut :: "int list option \<Rightarrow> occurrence \<Rightarrow> bool" where
  "beyond_cut cuts oc = (cut_at cuts (o_lane oc) < o_seq oc)"

definition regressed :: "issue_state \<Rightarrow> issue_state" where
  "regressed st = st\<lparr>i_status := StatusUnresolved, i_revision := i_revision st + 1, i_cut := None\<rparr>"

lemma regressed_count [simp]: "i_count (regressed st) = i_count st" "i_status (regressed st) = StatusUnresolved"
  by (simp_all add: regressed_def)

lemma counted_regressed: "counted_state (regressed st) oc = regressed (counted_state st oc)"
  by (simp add: regressed_def counted_state_def)

lemma foldl_counted_regressed: "foldl counted_state (regressed st) os = regressed (foldl counted_state st os)"
  by (induction os arbitrary: st) (simp_all add: counted_regressed)

lemma applyAll_resolved:
  assumes "i_status st = StatusResolved" "cut_length (i_cut st) = LaneCount" "0 < i_revision st" "i_revision st < maxInt64"
    and "list_all (valid_occurrence \<circ> fst) ocs" "room st (length ocs)"
  shows "foldR apply_step (Some st, ts) ocs =
    (let st' = foldl counted_state st (map fst ocs) in
     if list_ex (beyond_cut (i_cut st) \<circ> fst) ocs then Inr (Some (regressed st'), ts @ [TransitionRegressed]) else Inr (Some st', ts))"
  using assms
proof (induction ocs arbitrary: st)
  case (Cons x ocs)
  note step = room_step [of st "length ocs" "fst x"]
  have v: "valid_occurrence (fst x)" using Cons.prems by simp
  show ?case
  proof (cases "beyond_cut (i_cut st) (fst x)")
    case True
    have "applyUniqueOccurrence (Some st) (fst x) (snd x) = Inr (regressed (counted_state st (fst x)), Some TransitionRegressed)"
      using True v Cons.prems step by (simp add: applyUniqueOccurrence_def beyond_cut_def regressed_def add64_id int64_def)
    moreover have "foldR apply_step (Some (regressed (counted_state st (fst x))), ts @ [TransitionRegressed]) ocs =
        Inr (Some (regressed (foldl counted_state (counted_state st (fst x)) (map fst ocs))), ts @ [TransitionRegressed])"
      using applyAll_open [of "regressed (counted_state st (fst x))" ocs] Cons.prems step
      by (simp add: foldl_counted_regressed room_def comp_def)
    ultimately show ?thesis using True by (simp add: apply_step_def [of _ x])
  next
    case False
    have "applyUniqueOccurrence (Some st) (fst x) (snd x) = Inr (counted_state st (fst x), None)"
      using False v Cons.prems step by (simp add: applyUniqueOccurrence_def beyond_cut_def)
    then show ?thesis using False Cons.IH [of "counted_state st (fst x)"] Cons.prems step
      by (simp add: apply_step_def [of _ x])
  qed
qed simp

subsection \<open>Properties\<close>

text \<open>
  C23: the counters of an issue do not depend on the order in which its occurrences are
  published: two orders of the same occurrences, with distinct record identifiers, both succeed,
  create the issue once, and agree on everything but the title, which is that of the occurrence
  seen first. The count is the number of occurrences, the first and the last event are the least
  and the greatest in event order, the receive time is the latest.
\<close>

theorem issue_summary_order_independent:
  assumes "mset ocs = mset ocs'" and "ocs \<noteq> []" and "distinct (map (o_record \<circ> fst) ocs)"
    and "list_all (valid_occurrence \<circ> fst) ocs" and "int (length ocs) \<le> maxInt64"
  shows "\<exists>st st'. applyAll None ocs = Inr (Some st, [TransitionCreated]) \<and> applyAll None ocs' = Inr (Some st', [TransitionCreated]) \<and>
    st' = st\<lparr>i_title := truncateRunes (snd (hd ocs')) 512\<rparr> \<and> i_title st = truncateRunes (snd (hd ocs)) 512 \<and>
    i_status st = StatusUnresolved \<and> i_revision st = 1 \<and> i_count st = int (length ocs) \<and> summarises (set (map fst ocs)) st"
proof -
  have set_eq: "set ocs = set ocs'" and len: "length ocs = length ocs'" using assms(1) by (metis mset_eq_setD, metis mset_eq_length)
  have ne: "ocs' \<noteq> []" and v: "list_all (valid_occurrence \<circ> fst) ocs'" and l: "int (length ocs') \<le> maxInt64"
    using assms(2,4,5) set_eq len by (auto simp: list_all_iff)
  define fin where "fin = (\<lambda>xs. foldl counted_state (created_state (fst (hd xs)) (snd (hd xs))) (map fst (tl xs :: (occurrence \<times> string) list)))"
  have sum: "summarises (set (map fst xs)) (fin xs) \<and> i_count (fin xs) = int (length xs) \<and> i_status (fin xs) = StatusUnresolved \<and>
      i_revision (fin xs) = 1 \<and> i_cut (fin xs) = None \<and> i_title (fin xs) = truncateRunes (snd (hd xs)) 512"
    if xs: "xs \<noteq> []" "int (length xs) \<le> maxInt64" for xs
  proof -
    obtain x rest where "xs = x # rest" using xs(1) by (cases xs) auto
    moreover from this xs have "room (created_state (fst x) (snd x)) (length (map fst rest))" by (simp add: room_def created_state_def)
    ultimately show ?thesis
      using created_summarises [of "fst x" "map fst rest" "snd x"] foldl_counted_count
      by (simp add: fin_def foldl_counted) (simp add: created_state_def)
  qed
  have inj: "inj_on o_record (set (map fst ocs))"
    using assms(3) by (metis distinct_map inj_on_imageI list.set_map map_map)
  from sum [OF assms(2,5)] sum [OF ne l] have "i_first (fin ocs) = i_first (fin ocs') \<and> i_last (fin ocs) = i_last (fin ocs') \<and> i_received (fin ocs) = i_received (fin ocs')"
    using summarises_unique [OF _ _ inj, of "fin ocs" "fin ocs'"] set_eq by simp
  then have "fin ocs' = (fin ocs)\<lparr>i_title := truncateRunes (snd (hd ocs')) 512\<rparr>"
    using sum [OF assms(2,5)] sum [OF ne l] len by simp
  then show ?thesis
    using applyAll_new [OF assms(2,4,5)] applyAll_new [OF ne v l] sum [OF assms(2,5)] unfolding fin_def by blast
qed

definition sample_occurrence :: "char \<Rightarrow> int \<Rightarrow> int \<Rightarrow> occurrence" where
  "sample_occurrence c seq t = \<lparr>o_record = replicate 64 c, o_lane = 3, o_seq = seq, o_time = t, o_ns = 0, o_received = t + 5,
    o_release = Some [CHR 0x22, CHR ''1'', CHR 0x22]\<rparr>"

lemma sample_occurrence_valid:
  "valid_occurrence (sample_occurrence CHR ''a'' 7 40)" "valid_occurrence (sample_occurrence CHR ''b'' 9 30)"
  by code_simp+

theorem issue_summary_order_independent_witness:
  "\<exists>st st'. applyAll None [(sample_occurrence CHR ''a'' 7 40, ''x''), (sample_occurrence CHR ''b'' 9 30, ''y'')] = Inr (Some st, [TransitionCreated]) \<and>
    applyAll None [(sample_occurrence CHR ''b'' 9 30, ''y''), (sample_occurrence CHR ''a'' 7 40, ''x'')] = Inr (Some st', [TransitionCreated]) \<and>
    i_first st = i_first st' \<and> i_last st = i_last st' \<and> i_count st = 2"
proof -
  let ?a = "(sample_occurrence CHR ''a'' 7 40, ''x'')" and ?b = "(sample_occurrence CHR ''b'' 9 30, ''y'')"
  have "distinct (map (o_record \<circ> fst) [?a, ?b])" by (simp add: sample_occurrence_def)
  then obtain st st' where "applyAll None [?a, ?b] = Inr (Some st, [TransitionCreated])" "applyAll None [?b, ?a] = Inr (Some st', [TransitionCreated])"
    "st' = st\<lparr>i_title := truncateRunes ''y'' 512\<rparr>" "i_count st = 2"
    using issue_summary_order_independent [of "[?a, ?b]" "[?b, ?a]"] sample_occurrence_valid by auto
  then show ?thesis by (intro exI [of _ st] exI [of _ st']) simp
qed

text \<open>
  A resolved issue reopens exactly when an occurrence lies beyond the lane cut recorded
  when it was resolved, and then once: one regression, one new revision, no cut left. Otherwise
  it stays resolved under the same cut and revision; the occurrences are counted either way.
\<close>

theorem resolved_issue_regresses_beyond_cut:
  assumes "resolveIssue st cuts = Inr (r, Some TransitionResolved)" and "int64 (i_revision st)"
    and "i_revision r < maxInt64" and "list_all (valid_occurrence \<circ> fst) ocs"
    and "0 \<le> i_count st" and "i_count st + int (length ocs) \<le> maxInt64"
  shows "\<exists>st'. applyAll (Some r) ocs = Inr (Some st',
      if list_ex (\<lambda>x. cuts ! nat (o_lane (fst x)) < o_seq (fst x)) ocs then [TransitionRegressed] else []) \<and>
    i_count st' = i_count st + int (length ocs) \<and>
    (if list_ex (\<lambda>x. cuts ! nat (o_lane (fst x)) < o_seq (fst x)) ocs
     then i_status st' = StatusUnresolved \<and> i_revision st' = i_revision st + 2 \<and> i_cut st' = None
     else i_status st' = StatusResolved \<and> i_revision st' = i_revision st + 1 \<and> i_cut st' = Some cuts)"
proof -
  have r: "i_status r = StatusResolved" "i_cut r = Some cuts" "int (length cuts) = LaneCount" "i_revision r = i_revision st + 1"
    "0 < i_revision r" "i_count r = i_count st"
    using assms(1,2) by (auto simp: resolveIssue_def mutateStatus_def add64_id int64_def split: if_splits)
  have cond: "(\<lambda>x. cuts ! nat (o_lane (fst x)) < o_seq (fst x)) = beyond_cut (i_cut r) \<circ> fst"
    by (simp add: r(2) fun_eq_iff beyond_cut_def cut_at_def)
  have room: "room r (length ocs)" using assms(5,6) r(6) by (simp add: room_def)
  show ?thesis
    using applyAll_resolved [OF r(1) _ r(5) assms(3,4) room, of "[]"] r room foldl_counted_count [of r "map fst ocs"]
    unfolding cond by (simp add: applyAll_def Let_def cut_length_def foldl_counted regressed_def)
qed

theorem resolved_issue_regresses_beyond_cut_witness:
  "\<exists>r st'. resolveIssue (created_state (sample_occurrence CHR ''a'' 7 40) ''x'') (replicate 16 8) = Inr (r, Some TransitionResolved) \<and>
    applyAll (Some r) [(sample_occurrence CHR ''b'' 9 30, ''y'')] = Inr (Some st', [TransitionRegressed]) \<and> i_status st' = StatusUnresolved"
proof -
  let ?st = "created_state (sample_occurrence CHR ''a'' 7 40) ''x''"
  obtain r where r: "resolveIssue ?st (replicate 16 8) = Inr (r, Some TransitionResolved)" "i_revision r = 2"
    by (auto simp: resolveIssue_def mutateStatus_def created_state_def validStatus_def add64_id int64_def list_ex_iff)
  have "\<exists>st'. applyAll (Some r) [(sample_occurrence CHR ''b'' 9 30, ''y'')] = Inr (Some st', [TransitionRegressed]) \<and> i_status st' = StatusUnresolved"
    using resolved_issue_regresses_beyond_cut [OF r(1), of "[(sample_occurrence CHR ''b'' 9 30, ''y'')]"] r(2) sample_occurrence_valid
    by (auto simp: created_state_def sample_occurrence_def int64_def)
  with r(1) show ?thesis by blast
qed

end
