(* ===== verification/IssueGroup.thy ===== *)
theory IssueGroup
  imports Records IssueLifecycle
begin

section \<open>Grouping errors into issues\<close>

text \<open>
  \<open>internal/issues/group.go\<close>: the components that identify an issue, their canonical JSON and the
  title. A decoded raw event is a \<open>json\<close> object; a component list is a tree of arrays and strings.
  The main fact is that the canonical bytes lose nothing: two errors share them exactly when they
  are of one project and have the same components.
\<close>

abbreviation GroupingVersion :: int where "GroupingVersion \<equiv> 1"

datatype group_error = ErrNotError | ProjectRequired | InvalidErrorJSON

record issue_group =
  g_version :: int
  g_bytes :: string
  g_issue :: string
  g_fingerprint :: string
  g_title :: string

record exception_info =
  x_type :: string
  x_value :: string
  x_frames :: "json list"

definition no_exception :: exception_info where
  "no_exception = \<lparr>x_type = [], x_value = [], x_frames = []\<rparr>"

type_synonym object = "(string \<times> json) list"

definition stringField :: "object \<Rightarrow> string \<Rightarrow> string" where
  "stringField ob name = (case map_of ob name of Some (JStr s) \<Rightarrow> s | _ \<Rightarrow> [])"

fun objects_of :: "json list \<Rightarrow> object list" where
  "objects_of [] = []"
| "objects_of (JObj ob # vs) = ob # objects_of vs"
| "objects_of (_ # vs) = objects_of vs"

definition array_field :: "object \<Rightarrow> string \<Rightarrow> json list" where
  "array_field ob name = (case map_of ob name of Some (JArr vs) \<Rightarrow> vs | _ \<Rightarrow> [])"

definition exceptionValues :: "json option \<Rightarrow> object list" where
  "exceptionValues v = (case v of
     Some (JObj ob) \<Rightarrow> objects_of (array_field ob ''values'')
   | Some (JArr vs) \<Rightarrow> objects_of vs
   | _ \<Rightarrow> [])"

definition in_app :: "object \<Rightarrow> bool" where
  "in_app ob = (map_of ob ''in_app'' = Some (JBool True))"

text \<open>Frames that are objects, only the application's own when it has any, the last eight of them.\<close>

definition selectFrames :: "json list \<Rightarrow> object list" where
  "selectFrames frames =
    (let valid = objects_of frames; inApp = filter in_app valid;
         selected = (if inApp \<noteq> [] then inApp else valid)
     in drop (length selected - 8) selected)"

definition slashes :: "string \<Rightarrow> string" where
  "slashes s = map (\<lambda>c. if c = CHR 0x5C then CHR ''/'' else c) s"

definition encoded_frame :: "object \<Rightarrow> json" where
  "encoded_frame ob = JArr [JStr (stringField ob ''module''), JStr (stringField ob ''function''), JStr (slashes (stringField ob ''filename''))]"

definition exception_frames :: "object \<Rightarrow> json list" where
  "exception_frames ob = (case map_of ob ''stacktrace'' of Some (JObj st) \<Rightarrow> array_field st ''frames'' | _ \<Rightarrow> [])"

definition defaultComponents :: "object \<Rightarrow> model_record \<Rightarrow> json \<times> exception_info" where
  "defaultComponents raw r =
    (let values = exceptionValues (map_of raw ''exception'') in
     if values = [] then
       (JArr [JStr ''message'', JStr (case r_template r of Some t \<Rightarrow> t | None \<Rightarrow> r_message r)], no_exception)
     else
       let representative = last values;
           info = no_exception\<lparr>x_type := stringField representative ''type'', x_value := stringField representative ''value''\<rparr>;
           selected = selectFrames (exception_frames representative)
       in if selected = [] then (JArr [JStr ''exception'', JStr (x_type info), JStr (x_value info)], info)
          else let frames = map encoded_frame selected in
            (JArr [JStr ''stack'', JArr (map (\<lambda>v. JStr (stringField v ''type'')) values), JArr frames], info\<lparr>x_frames := frames\<rparr>))"

fun strings_of :: "json list \<Rightarrow> string list option" where
  "strings_of [] = Some []"
| "strings_of (JStr s # vs) = map_option ((#) s) (strings_of vs)"
| "strings_of (_ # vs) = None"

definition allStrings :: "json list \<Rightarrow> bool" where
  "allStrings vs = (strings_of vs \<noteq> None)"

definition expand_literal :: "json \<Rightarrow> string \<Rightarrow> json" where
  "expand_literal defaults literal =
    (if literal = ''{{default}}'' \<or> literal = ''{{ default }}'' then JArr [JStr ''default'', defaults]
     else JArr [JStr ''literal'', JStr literal])"

definition components_of :: "object \<Rightarrow> json \<Rightarrow> json" where
  "components_of raw defaults = (case map_of raw ''fingerprint'' of
     Some (JArr items) \<Rightarrow> (if items \<noteq> [] \<and> allStrings items
       then JArr [JStr ''custom'', JArr (map (expand_literal defaults) (the (strings_of items)))] else defaults)
   | _ \<Rightarrow> defaults)"

definition canonicalJSON :: "json \<Rightarrow> string" where
  "canonicalJSON v = encodeJson v"

definition group_title :: "string \<Rightarrow> exception_info \<Rightarrow> string" where
  "group_title message x =
    (if message \<noteq> [] then message
     else if x_value x \<noteq> [] \<and> x_type x \<noteq> [] then x_type x @ '': '' @ x_value x
     else if x_type x = [] then x_value x else x_type x)"

definition raw_object :: "model_record \<Rightarrow> object option" where
  "raw_object r = (case object_of (decodeJson (r_raw r)) of None \<Rightarrow> None | Some None \<Rightarrow> Some [] | Some (Some ms) \<Rightarrow> Some ms)"

definition group_tree :: "model_record \<Rightarrow> object \<Rightarrow> json" where
  "group_tree r raw = JArr [JStr ''eventglass-grouping-v1'', JStr (showInt (r_project r)), components_of raw (fst (defaultComponents raw r))]"

definition groupRecord :: "model_record \<Rightarrow> group_error + issue_group" where
  "groupRecord r =
    (if r_kind r \<noteq> KindError then Inl ErrNotError
     else if r_project r \<le> 0 then Inl ProjectRequired
     else case raw_object r of None \<Rightarrow> Inl InvalidErrorJSON
     | Some raw \<Rightarrow>
       let canonical = canonicalJSON (group_tree r raw); identifier = sha256_hex canonical;
           title = truncateRunes (group_title (r_message r) (snd (defaultComponents raw r))) 512
       in Inr \<lparr>g_version = GroupingVersion, g_bytes = canonical, g_issue = identifier, g_fingerprint = identifier, g_title = title\<rparr>)"

subsection \<open>Components are trees of valid strings\<close>

fun string_tree :: "json \<Rightarrow> bool" where
  "string_tree (JStr s) = utf8_valid s"
| "string_tree (JArr vs) = list_all string_tree vs"
| "string_tree _ = False"

lemma string_tree_canon: "string_tree v \<Longrightarrow> json_valid v \<and> canon v = v"
proof (induction v rule: string_tree.induct)
  case (2 vs)
  then show ?case by (auto simp: list_all_iff intro: map_idI)
qed simp_all

definition object_valid :: "object \<Rightarrow> bool" where
  "object_valid ob = list_all (\<lambda>(k, v). utf8_valid k \<and> json_valid v) ob"

lemma object_valid_lookup: "object_valid ob \<Longrightarrow> map_of ob k = Some v \<Longrightarrow> json_valid v"
  by (auto simp: object_valid_def list_all_iff dest: map_of_SomeD)

lemma stringField_valid: "object_valid ob \<Longrightarrow> utf8_valid (stringField ob k)"
  by (auto simp: stringField_def dest: object_valid_lookup split: option.splits json.splits)

lemma objects_of_valid: "list_all json_valid vs \<Longrightarrow> list_all object_valid (objects_of vs)"
  by (induction vs rule: objects_of.induct) (auto simp: object_valid_def)

lemma array_field_valid: "object_valid ob \<Longrightarrow> list_all json_valid (array_field ob k)"
  by (auto simp: array_field_def dest: object_valid_lookup split: option.splits json.splits)

lemma json_valid_object: "json_valid (JObj ob) \<Longrightarrow> object_valid ob"
  by (simp add: object_valid_def)

lemma exceptionValues_valid: "(\<And>v. w = Some v \<Longrightarrow> json_valid v) \<Longrightarrow> list_all object_valid (exceptionValues w)"
  unfolding exceptionValues_def
  using json_valid_object objects_of_valid array_field_valid by (fastforce split: option.split json.split simp del: json_valid.simps(4))

lemma selectFrames_valid: "list_all json_valid vs \<Longrightarrow> list_all object_valid (selectFrames vs)"
  using objects_of_valid [of vs] by (auto simp: selectFrames_def Let_def list_all_iff dest: in_set_dropD)

lemma exception_frames_valid: "object_valid ob \<Longrightarrow> list_all json_valid (exception_frames ob)"
  unfolding exception_frames_def
  using json_valid_object array_field_valid object_valid_lookup by (fastforce split: option.split json.split simp del: json_valid.simps(4))

text \<open>Replacing a backslash byte by a slash keeps a valid string valid.\<close>

lemma slashes_valid: "utf8_valid s \<Longrightarrow> utf8_valid (slashes s)"
proof (induction s rule: utf8_induct)
  case Nil
  then show ?case by (simp add: slashes_def)
next
  case (Rune u t)
  show ?case
  proof (cases "\<exists>c. u = [c]")
    case True
    then obtain c where u: "u = [c]" by blast
    with Rune(2,3) have "(of_char c :: int) < 128"
      by (auto simp: decodeRune_def decodeRune2_def decodeRune3_def decodeRune4_def Let_def split: if_splits list.splits)
    with Rune(7) show ?thesis by (simp add: u slashes_def)
  next
    case False
    then obtain c c' cs where "u = c # c' # cs" using Rune(1) by (cases u; cases "tl u") auto
    from decodeRune_byte_high [OF Rune(2,3) this] have "slashes u = u"
      by (force simp: slashes_def list_all_iff intro: map_idI)
    then show ?thesis using Rune(4,7) utf8_valid_rune [of "fst (decodeRune (u @ t))" "slashes t"] by (simp add: slashes_def)
  qed
qed

lemma utf8_valid_showInt: "0 < n \<Longrightarrow> utf8_valid (showInt n)"
proof -
  have "utf8_valid s" if "list_all digit_char s" for s
    using that by (induction s) (auto simp: digit_char_def Let_def)
  moreover assume "0 < n"
  ultimately show ?thesis using show_pos_digits [of n] by (simp add: showInt_def)
qed

lemma encoded_frame_tree: "object_valid ob \<Longrightarrow> string_tree (encoded_frame ob)"
  by (simp add: encoded_frame_def stringField_valid slashes_valid)

lemma defaultComponents_tree:
  assumes "object_valid raw" "utf8_valid (r_message r)" "\<And>t. r_template r = Some t \<Longrightarrow> utf8_valid t"
  shows "string_tree (fst (defaultComponents raw r))"
proof -
  define exs where "exs = exceptionValues (map_of raw ''exception'')"
  have v: "list_all object_valid exs"
    unfolding exs_def by (rule exceptionValues_valid) (rule object_valid_lookup [OF assms(1)])
  have last: "object_valid (last exs)" if "exs \<noteq> []" using v that by (simp add: list_all_iff)
  have frames: "list_all object_valid (selectFrames (exception_frames (last exs)))" if "exs \<noteq> []"
    using last [OF that] exception_frames_valid selectFrames_valid by blast
  show ?thesis using assms(2,3) last frames v
    by (auto simp: defaultComponents_def Let_def exs_def [symmetric] list_all_iff stringField_valid encoded_frame_tree no_exception_def
        split: option.split)
qed

lemma strings_of_valid: "strings_of vs = Some ss \<Longrightarrow> list_all json_valid vs \<Longrightarrow> list_all utf8_valid ss"
  by (induction vs arbitrary: ss rule: strings_of.induct) auto

lemma components_tree:
  assumes "object_valid raw" "string_tree d"
  shows "string_tree (components_of raw d)"
proof -
  have "list_all utf8_valid ss" if "map_of raw ''fingerprint'' = Some (JArr items)" "strings_of items = Some ss" for items ss
    using object_valid_lookup [OF assms(1) that(1)] strings_of_valid [OF that(2)] by simp
  then show ?thesis using assms(2)
    by (auto simp: components_of_def allStrings_def expand_literal_def list_all_iff split: option.splits json.splits)
qed

lemma raw_object_valid: "raw_object r = Some raw \<Longrightarrow> object_valid raw"
  by (auto simp: raw_object_def object_of_def object_valid_def dest!: decode_valid split: option.splits json.splits)

lemma group_tree_valid:
  assumes "raw_object r = Some raw" "0 < r_project r" "utf8_valid (r_message r)" "\<And>t. r_template r = Some t \<Longrightarrow> utf8_valid t"
  shows "string_tree (group_tree r raw)"
  using components_tree [OF raw_object_valid [OF assms(1)] defaultComponents_tree [OF raw_object_valid [OF assms(1)] assms(3,4)]] utf8_valid_showInt [OF assms(2)]
  by (simp add: group_tree_def)

lemma groupRecord_cases:
  assumes "groupRecord r = Inr g"
  obtains raw where "raw_object r = Some raw" "0 < r_project r" "g_bytes g = encodeJson (group_tree r raw)"
    "g_issue g = sha256_hex (g_bytes g)" "g_fingerprint g = g_issue g"
    "g_title g = truncateRunes (group_title (r_message r) (snd (defaultComponents raw r))) 512"
  using assms by (auto simp: groupRecord_def canonicalJSON_def Let_def split: if_splits option.splits)

subsection \<open>Titles\<close>

lemma runes_encode: "runes (encodeRune r @ s) = fst (decodeRune (encodeRune r @ s)) # runes s"
proof -
  obtain c cs r' where d: "encodeRune r = c # cs" "decodeRune (encodeRune r @ s) = (r', length (encodeRune r))"
    using decodeRune_encodeRune [of r s] by blast
  then have "encodeRune r @ s \<noteq> []" by simp
  with d(2) show ?thesis by (subst runes.simps) simp
qed

lemma length_runes_string: "length (runes (string_of_runes rs)) = length rs"
  by (induction rs) (simp_all add: string_of_runes_def runes_encode, simp add: runes.simps)

lemma decodeRune_size_le: "snd (decodeRune s) \<le> 4"
  by (auto simp: decodeRune_def decodeRune2_def decodeRune3_def decodeRune4_def Let_def split: list.split)

lemma length_runes: "length s \<le> 4 * length (runes s)"
proof (induction s rule: runes.induct)
  case (1 s)
  show ?case
  proof (cases "s = []")
    case False
    then have "runes s = fst (decodeRune s) # runes (drop (snd (decodeRune s)) s)" by (subst runes.simps) simp
    with 1 False decodeRune_size_le [of s] show ?thesis by simp
  qed simp
qed

lemma truncateRunes_bound: "length (runes (truncateRunes s n)) \<le> n"
  by (simp add: truncateRunes_def length_runes_string)

subsection \<open>Properties\<close>

text \<open>
  C34: an issue is its components. Two errors get the same canonical bytes exactly when they
  belong to the same project and have the same grouping components, for records whose message
  and template are valid UTF-8 (every string decoded from JSON is); the issue identifier is the
  SHA-256 of these bytes.
\<close>

theorem issue_identity_is_components:
  assumes "groupRecord r = Inr g" and "groupRecord s = Inr h"
    and "utf8_valid (r_message r)" and "\<And>t. r_template r = Some t \<Longrightarrow> utf8_valid t"
    and "utf8_valid (r_message s)" and "\<And>t. r_template s = Some t \<Longrightarrow> utf8_valid t"
  shows "(g_bytes g = g_bytes h \<longleftrightarrow> r_project r = r_project s \<and>
      (\<exists>ra rb. raw_object r = Some ra \<and> raw_object s = Some rb \<and>
        components_of ra (fst (defaultComponents ra r)) = components_of rb (fst (defaultComponents rb s)))) \<and>
    g_issue g = sha256_hex (g_bytes g) \<and> g_fingerprint g = g_issue g"
proof -
  obtain ra where a: "raw_object r = Some ra" "0 < r_project r" "g_bytes g = encodeJson (group_tree r ra)"
    "g_issue g = sha256_hex (g_bytes g)" "g_fingerprint g = g_issue g" using groupRecord_cases [OF assms(1)] by blast
  obtain rb where b: "raw_object s = Some rb" "0 < r_project s" "g_bytes h = encodeJson (group_tree s rb)"
    using groupRecord_cases [OF assms(2)] by blast
  note ta = string_tree_canon [OF group_tree_valid [OF a(1,2) assms(3,4)]]
  note tb = string_tree_canon [OF group_tree_valid [OF b(1,2) assms(5,6)]]
  have "g_bytes g = g_bytes h \<longleftrightarrow> group_tree r ra = group_tree s rb"
    using encodeJson_eq_iff [of "group_tree r ra" "group_tree s rb"] ta tb by (simp add: a(3) b(3))
  then show ?thesis using a b by (auto simp: group_tree_def showInt_inj)
qed

definition sample_error :: "string \<Rightarrow> model_record" where
  "sample_error msg = (sample_record KindError [CHR 0x7B, CHR 0x7D])\<lparr>r_message := msg\<rparr>"

theorem issue_identity_is_components_witness:
  "\<exists>g h. groupRecord (sample_error ''disk full'') = Inr g \<and> groupRecord (sample_error ''timeout'') = Inr h \<and> g_bytes g \<noteq> g_bytes h"
proof -
  let ?r = "sample_error ''disk full''" and ?s = "sample_error ''timeout''"
  have raw: "raw_object ?r = Some []" "raw_object ?s = Some []" by code_simp+
  then obtain g h where g: "groupRecord ?r = Inr g" "groupRecord ?s = Inr h"
    by (auto simp: groupRecord_def Let_def sample_error_def sample_record_def)
  have "components_of [] (fst (defaultComponents [] ?r)) \<noteq> components_of [] (fst (defaultComponents [] ?s))"
    by (simp add: components_of_def defaultComponents_def exceptionValues_def sample_error_def sample_record_def)
  moreover have "utf8_valid (r_message ?r)" "utf8_valid (r_message ?s)" by code_simp+
  moreover have "r_template ?r = None" "r_template ?s = None" by (simp_all add: sample_error_def sample_record_def)
  ultimately show ?thesis using issue_identity_is_components [OF g] raw g by auto
qed

text \<open>
  Titles are bounded. The title of a group has at most 512 runes and at most 2048 bytes,
  whatever the event holds, and a message of at most 512 runes is its own title.
\<close>

theorem issue_title_bounded:
  assumes "groupRecord r = Inr g"
  shows "length (runes (g_title g)) \<le> 512 \<and> length (g_title g) \<le> 2048 \<and>
    (r_message r \<noteq> [] \<and> length (runes (r_message r)) \<le> 512 \<longrightarrow> g_title g = r_message r)"
proof -
  obtain raw where t: "g_title g = truncateRunes (group_title (r_message r) (snd (defaultComponents raw r))) 512"
    using groupRecord_cases [OF assms] by blast
  have "length (runes (g_title g)) \<le> 512" unfolding t by (rule truncateRunes_bound)
  moreover from this have "length (g_title g) \<le> 2048" using length_runes [of "g_title g"] by simp
  moreover have "g_title g = r_message r" if "r_message r \<noteq> []" "length (runes (r_message r)) \<le> 512"
    using that by (simp add: t group_title_def truncateRunes_def)
  ultimately show ?thesis by blast
qed

theorem issue_title_bounded_witness:
  "\<exists>g. groupRecord (sample_error ''disk full'') = Inr g \<and> g_title g = ''disk full''"
proof -
  have "raw_object (sample_error ''disk full'') = Some []" by code_simp
  then obtain g where "groupRecord (sample_error ''disk full'') = Inr g"
    by (auto simp: groupRecord_def Let_def sample_error_def sample_record_def)
  moreover have "r_message (sample_error ''disk full'') = ''disk full''" by (simp add: sample_error_def)
  moreover have "length (runes ''disk full'') \<le> 512" by code_simp
  ultimately show ?thesis using issue_title_bounded [of "sample_error ''disk full''"] by fastforce
qed

end
