(* ===== verification/ControlDB.thy ===== *)
theory ControlDB
  imports IssueLifecycle Records
begin

section \<open>The control database\<close>

text \<open>
  The tables of \<open>internal/control/migrations\<close> that the modelled transactions read and write, as
  lists of rows. A transaction of the program is a function from the database to an error or to a
  new database: an error leaves the old one in place, which is what the deferred rollback does. A
  transaction locks the rows it decides on before it reads them, so one function application stands
  for one whole transaction. \<open>clock_timestamp()\<close> is an argument. Uniqueness constraints that a
  statement can run into are part of that statement's model; foreign keys, column checks and
  connection failures are not. Columns that no modelled statement reads (names, settings, audit
  times) are left out. The JSON column \<open>resolved_cut\<close> (\<open>encodeResolvedCut\<close>) is kept decoded, as
  the list of sixteen sequence numbers or nothing.
\<close>

record tenant_row =
  tn_id :: int
  tn_state :: string
  tn_revision :: int

record user_row =
  us_id :: int
  us_state :: string
  us_revision :: int
  us_credential :: int

record membership_row =
  me_tenant :: int
  me_user :: int
  me_role :: string

record project_row =
  pr_tenant :: int
  pr_id :: int
  pr_state :: string
  pr_revision :: int
  pr_scrub :: int
  pr_config :: int

record grant_row =
  gr_tenant :: int
  gr_project :: int
  gr_user :: int
  gr_role :: string

record key_row =
  ke_tenant :: int
  ke_project :: int
  ke_hash :: string
  ke_state :: string
  ke_revision :: int

record lane_row =
  la_tenant :: int
  la_id :: int
  la_accepted :: int
  la_published :: int
  la_generation :: int
  la_received :: int

record job_row =
  jo_id :: string
  jo_kind :: string
  jo_tenant :: int
  jo_lane :: int
  jo_seq :: int
  jo_state :: string
  jo_attempt :: int
  jo_fence :: int
  jo_generation :: int
  jo_owner :: "string option"
  jo_lease :: "int option"
  jo_retry :: int
  jo_created :: int
  jo_updated :: int
  jo_output :: "string option"

record output_row =
  ou_id :: string
  ou_tenant :: int
  ou_job :: string
  ou_header :: string
  ou_sha :: string
  ou_state :: string
  ou_fence :: int

record part_row =
  pt_output :: string
  pt_index :: int
  pt_json :: string
  pt_sha :: string

record intent_row =
  in_id :: string
  in_installation :: string
  in_tenant :: int
  in_generation :: int
  in_key :: string
  in_kind :: string
  in_state :: string
  in_owner :: string
  in_fence :: int
  in_expires :: int
  in_bytes :: int
  in_sha :: string
  in_uploaded_bytes :: "int option"
  in_uploaded_sha :: "string option"
  in_job :: "string option"
  in_producer_generation :: "int option"
  in_producer_fence :: "int option"
  in_updated :: int
  in_retired :: "int option"
  in_protect :: "int option"
  in_query :: "string option"
  in_task :: "string option"
  in_marked :: "int option"
  in_confirmed :: "int option"
  in_sweeps :: int

record batch_row =
  ba_tenant :: int
  ba_lane :: int
  ba_seq :: int
  ba_state :: string
  ba_journal_sha :: string
  ba_accepted :: int
  ba_id :: string
  ba_intent :: string
  ba_requests :: int
  ba_received :: int
  ba_records :: int
  ba_duplicate :: int
  ba_conflict :: int
  ba_recovery :: string

text \<open>
  The selection of a receipt is a \<open>jsonb\<close> column, which stores the value and not its text; it is kept
  decoded.
\<close>

record receipt_row =
  re_acceptance :: string
  re_tenant :: int
  re_project :: int
  re_lane :: int
  re_seq :: int
  re_content :: string
  re_index :: int
  re_selection :: receipt_selection
  re_selection_sha :: string
  re_first :: int
  re_last :: int
  re_accepted :: int
  re_duplicate :: int
  re_conflict :: int
  re_unsupported :: int
  re_received :: int
  re_policy :: int
  re_normalizer :: int
  re_gversion :: int
  re_dedupe :: int

record dedupe_row =
  de_tenant :: int
  de_project :: int
  de_kind :: string
  de_source :: string
  de_record :: string
  de_acceptance :: string
  de_sha :: string
  de_expires :: int
  de_created :: int

record outcome_row =
  os_acceptance :: string
  os_item :: int
  os_category :: string
  os_reason :: string
  os_category_sha :: string
  os_reason_sha :: string
  os_quantity :: int
  os_approximate :: bool

record unsupported_row =
  un_acceptance :: string
  un_item :: int
  un_type :: string
  un_bytes :: int

text \<open>A prepared occurrence of an output, \<open>durableOccurrence\<close> in the code.\<close>

record durable_occurrence =
  du_occ :: occurrence
  du_project :: int
  du_acceptance :: string
  du_ordinal :: int
  du_issue :: string
  du_gversion :: int
  du_fingerprint :: string
  du_title_json :: string

record issue_row =
  ir_tenant :: int
  ir_project :: int
  ir_issue :: string
  ir_gversion :: int
  ir_fingerprint :: string
  ir_status :: string
  ir_revision :: int
  ir_count :: int
  ir_first :: event_tuple
  ir_last :: event_tuple
  ir_received :: int
  ir_title_json :: string
  ir_cut :: "int list option"

record occurrence_row =
  ow_tenant :: int
  ow_project :: int
  ow_issue :: string
  ow_acceptance :: string
  ow_ordinal :: int
  ow_occ :: occurrence

record transition_row =
  tr_id :: string
  tr_tenant :: int
  tr_project :: int
  tr_issue :: string
  tr_revision :: int
  tr_type :: transition_type
  tr_received :: int
  tr_record :: "string option"
  tr_actor :: "int option"
  tr_operation :: "string option"

record audit_row =
  au_tenant :: int
  au_id :: string
  au_actor :: int
  au_action :: string
  au_target :: string
  au_revision :: int
  au_request :: string
  au_operation :: "string option"

record bundle_row =
  bu_id :: string
  bu_tenant :: int
  bu_lane :: int
  bu_schema :: int
  bu_gversion :: int
  bu_day :: string
  bu_kind :: string
  bu_seq_min :: int
  bu_seq_max :: int
  bu_rows :: int
  bu_identity :: string
  bu_generation :: int
  bu_projects :: "int list"
  bu_valid_to :: "int option"
  bu_retired :: "int option"
  bu_reserved :: "string option"

record file_row =
  fi_id :: string
  fi_tenant :: int
  fi_bundle :: string
  fi_intent :: string
  fi_role :: string
  fi_bytes :: int
  fi_sha :: string
  fi_rows :: int
  fi_min_event :: int
  fi_max_event :: int
  fi_min_received :: int
  fi_max_received :: int
  fi_min_seq :: int
  fi_max_seq :: int
  fi_blocks :: "(int \<times> string) list"

record session_row =
  se_hash :: string
  se_user :: int
  se_credential :: int
  se_generation :: int
  se_expires :: int
  se_revoked :: "int option"

text \<open>A snapshot with its rows in \<open>snapshot_projects\<close> and \<open>snapshot_lanes\<close>, which are written once, with it.\<close>

record snapshot_row =
  sn_id :: string
  sn_tenant :: int
  sn_user :: "int option"
  sn_kind :: string
  sn_principal :: string
  sn_revision :: int
  sn_tenant_revision :: int
  sn_generation :: int
  sn_dataset :: string
  sn_bytes :: string
  sn_floor :: int
  sn_created :: int
  sn_expires :: int
  sn_until :: int
  sn_state :: string
  sn_projects :: "(int \<times> int) list"
  sn_lanes :: "snapshot_lane list"

record task_row =
  ta_id :: string
  ta_tenant :: int
  ta_lane :: int
  ta_kind :: string
  ta_identity :: string
  ta_state :: string
  ta_generation :: int
  ta_fence :: int
  ta_attempt :: int
  ta_owner :: "string option"
  ta_lease :: "int option"
  ta_retry :: int
  ta_manifest :: "string option"
  ta_sha :: "string option"
  ta_error :: "string option"
  ta_floor :: "int option"
  ta_created :: int
  ta_updated :: int

record input_row =
  mi_task :: string
  mi_tenant :: int
  mi_bundle :: string
  mi_generation :: int
  mi_identity :: string

record query_row =
  qj_id :: string
  qj_state :: string
  qj_created :: int
  qj_expires :: int

record backup_row =
  bs_state :: string
  bs_protected :: int

record summary_row =
  rs_tenant :: int
  rs_lane :: int
  rs_seq :: int
  rs_batch :: string
  rs_requests :: int
  rs_records :: int
  rs_accepted :: int
  rs_duplicate :: int
  rs_conflict :: int
  rs_journal :: string
  rs_receipts :: string

record control_db =
  db_installation :: string
  db_generation :: int
  db_tenants :: "tenant_row list"
  db_users :: "user_row list"
  db_memberships :: "membership_row list"
  db_projects :: "project_row list"
  db_grants :: "grant_row list"
  db_lanes :: "lane_row list"
  db_jobs :: "job_row list"
  db_outputs :: "output_row list"
  db_parts :: "part_row list"
  db_intents :: "intent_row list"
  db_batches :: "batch_row list"
  db_prepared :: "(string \<times> durable_occurrence) list"
  db_issues :: "issue_row list"
  db_occurrences :: "occurrence_row list"
  db_transitions :: "transition_row list"
  db_audit :: "audit_row list"
  db_bundles :: "bundle_row list"
  db_files :: "file_row list"
  db_dedupe_days :: int
  db_keys :: "key_row list"
  db_receipts :: "receipt_row list"
  db_dedupe :: "dedupe_row list"
  db_outcomes :: "outcome_row list"
  db_unsupported :: "unsupported_row list"
  db_setup :: string
  db_recovery :: string
  db_floor :: int
  db_tick :: int
  db_days :: int
  db_retention_revision :: int
  db_gc_safe :: "int option"
  db_gc_verified :: "int option"
  db_sessions :: "session_row list"
  db_snapshots :: "snapshot_row list"
  db_tasks :: "task_row list"
  db_inputs :: "input_row list"
  db_queries :: "query_row list"
  db_backups :: "backup_row list"
  db_summaries :: "summary_row list"

datatype control_error =
    ErrInvalidCommand | ErrForbidden | ErrJobFenceStale | ErrIntentStale | ErrAuthorizationStale | ErrIssueRevisionStale
  | ErrNoRows | ErrUnique | ErrAuthorityOverflow | ErrGroupInconsistent | ErrTitle | ErrLifecycle issue_error
  | ErrIssueDisappeared | ErrLaneTopology | ErrNotNextBatch | ErrOutputMismatch | ErrManifest | ErrInputDiffers
  | ErrCompletedConflict | ErrLaneCAS | ErrScan | ErrPanic
  | ErrInvalidVerifiedBatch | ErrIdempotencyConflict | ErrTenantDisabled | ErrProjectDisabled | ErrKeyRevoked | ErrSequenceOverflow
  | ErrOutcomes | ErrRetryAccept | ErrDatabaseRetry | ErrCommit | ErrSelection | ErrPrepared | ErrEvidence
  | ErrUnauthenticated | ErrSnapshotLimit | ErrSnapshotExpired | ErrSnapshotMismatch | ErrRetentionClockStale | ErrStorageGeneration
  | ErrInvalidSnapshot | ErrSnapshotLanes | ErrMaintenanceBusy | ErrMaintenanceFence | ErrBackupInterlock | ErrCompaction | ErrGenerationExhausted | ErrCatalog
  | ErrRevisionConflict | ErrQueryNotFound | ErrMaintenanceNoWork | ErrCleanup

text \<open>\<open>UPDATE ... WHERE\<close>: the rows that match are rewritten; the number of them is \<open>RowsAffected\<close>.\<close>

definition update_where :: "('r \<Rightarrow> bool) \<Rightarrow> ('r \<Rightarrow> 'r) \<Rightarrow> 'r list \<Rightarrow> 'r list" where
  "update_where P f rs = map (\<lambda>r. if P r then f r else r) rs"

definition affected :: "('r \<Rightarrow> bool) \<Rightarrow> 'r list \<Rightarrow> nat" where
  "affected P rs = length (filter P rs)"

definition lift_lifecycle :: "issue_error + 'a \<Rightarrow> control_error + 'a" where
  "lift_lifecycle r = (case r of Inl e \<Rightarrow> Inl (ErrLifecycle e) | Inr x \<Rightarrow> Inr x)"

text \<open>\<open>lockRuntimeGeneration\<close>: the installation row must still carry the caller's identity and generation.\<close>

definition lockRuntimeGeneration :: "string \<Rightarrow> int \<Rightarrow> control_db \<Rightarrow> control_error + unit" where
  "lockRuntimeGeneration installation gen db = check (db_installation db = installation \<and> db_generation db = gen) ErrJobFenceStale"

definition validSHA :: "string \<Rightarrow> bool" where
  "validSHA v = (length v = 64 \<and> v = to_lower v \<and> (case hex_decode v of Some d \<Rightarrow> length d = 32 | None \<Rightarrow> False))"

definition nullableText :: "string \<Rightarrow> string option" where
  "nullableText v = (if v = [] then None else Some v)"

definition deterministicTransitionID :: "string \<Rightarrow> int \<Rightarrow> string" where
  "deterministicTransitionID issue revision = newAcceptanceID (take 16 (sha256 (issue @ '':'' @ showInt revision)))"

lemma update_where_length [simp]: "length (update_where P f rs) = length rs"
  by (simp add: update_where_def)

lemma update_where_none: "(\<And>r. r \<in> set rs \<Longrightarrow> \<not> P r) \<Longrightarrow> update_where P f rs = rs"
  by (auto simp: update_where_def intro: map_idI)

lemma update_where_map: "(\<And>r. P r \<Longrightarrow> g (f r) = g r) \<Longrightarrow> map g (update_where P f rs) = map g rs"
  by (simp add: update_where_def)

lemma find_update_where:
  assumes "\<And>r. P r \<Longrightarrow> Q (f r) = Q r"
  shows "find Q (update_where P f rs) = map_option (\<lambda>r. if P r then f r else r) (find Q rs)"
  using assms by (induction rs) (auto simp: update_where_def)

lemma find_SomeD: "find P xs = Some x \<Longrightarrow> P x \<and> x \<in> set xs"
  by (metis find_Some_iff nth_mem)

lemma lift_lifecycle_eq_Inr [simp]: "lift_lifecycle r = Inr x \<longleftrightarrow> r = Inr x"
  by (cases r) (simp_all add: lift_lifecycle_def)

subsection \<open>Tenant access\<close>

text \<open>\<open>tenantAccess\<close> and \<open>requireTenantRole\<close> of \<open>alerts.go\<close>: the joins are on primary keys, so each finds at most one row.\<close>

definition tenantAccess :: "int \<Rightarrow> int \<Rightarrow> int \<Rightarrow> bool \<Rightarrow> control_db \<Rightarrow> control_error + bool" where
  "tenantAccess tenant user project operator db =
    (case (find (\<lambda>t. tn_id t = tenant) (db_tenants db), find (\<lambda>m. me_tenant m = tenant \<and> me_user m = user) (db_memberships db),
           find (\<lambda>u. us_id u = user) (db_users db)) of
       (Some t, Some m, Some u) \<Rightarrow>
         (if tn_state t \<noteq> ''active'' \<or> us_state u \<noteq> ''active'' then Inl ErrForbidden
          else if project \<le> 0 then Inr (me_role m = ''admin'')
          else (case find (\<lambda>p. pr_tenant p = tenant \<and> pr_id p = project) (db_projects db) of None \<Rightarrow> Inl ErrForbidden
            | Some p \<Rightarrow>
              if me_role m = ''admin'' then (if pr_state p \<noteq> ''active'' then Inl ErrForbidden else Inr True)
              else (case find (\<lambda>g. gr_tenant g = tenant \<and> gr_project g = project \<and> gr_user g = user) (db_grants db) of None \<Rightarrow> Inl ErrForbidden
                | Some g \<Rightarrow> if pr_state p \<noteq> ''active'' \<or> operator \<and> gr_role g \<noteq> ''operator'' then Inl ErrForbidden else Inr False)))
     | _ \<Rightarrow> Inl ErrForbidden)"

definition requireTenantRole :: "int \<Rightarrow> int \<Rightarrow> bool \<Rightarrow> int \<Rightarrow> bool \<Rightarrow> control_db \<Rightarrow> control_error + unit" where
  "requireTenantRole tenant user admin project operator db =
    bindR (tenantAccess tenant user project operator db) (\<lambda>_.
      if admin then (case find (\<lambda>m. me_tenant m = tenant \<and> me_user m = user) (db_memberships db) of
          Some m \<Rightarrow> check (me_role m = ''admin'') ErrForbidden | None \<Rightarrow> Inl ErrForbidden)
      else Inr ())"

end
