(* ===== verification/IssueStore.thy ===== *)
theory IssueStore
  imports ControlDB
begin

section \<open>Issues in the control database\<close>

text \<open>
  \<open>internal/control/issues.go\<close> publishes the occurrences of a prepared output into the tables
  \<open>issues\<close>, \<open>issue_occurrences\<close> and \<open>issue_transitions\<close>; \<open>internal/control/issue_status.go\<close> is the
  operator's status change. The occurrence table is the ground truth: its primary key makes every
  record count once. The invariant \<open>issues_exact\<close> says that each issue row agrees with the
  occurrence rows of that issue, and every operation keeps it.
\<close>

subsection \<open>Publishing a group\<close>

definition issueOccurrence :: "durable_occurrence \<Rightarrow> occurrence" where
  "issueOccurrence d = du_occ d"

definition decodeIssueTitle :: "string \<Rightarrow> control_error + string" where
  "decodeIssueTitle encoded = (case unmarshalJson encoded of Some (JStr t) \<Rightarrow> Inr t | Some JNull \<Rightarrow> Inr [] | _ \<Rightarrow> Inl ErrTitle)"

definition is_issue :: "int \<Rightarrow> int \<Rightarrow> string \<Rightarrow> issue_row \<Rightarrow> bool" where
  "is_issue tenant project issue r = (ir_tenant r = tenant \<and> ir_project r = project \<and> ir_issue r = issue)"

definition row_state :: "issue_row \<Rightarrow> control_error + issue_state" where
  "row_state r = bindR (decodeIssueTitle (ir_title_json r)) (\<lambda>title.
    Inr \<lparr>i_status = ir_status r, i_revision = ir_revision r, i_count = ir_count r, i_first = ir_first r, i_last = ir_last r,
      i_received = ir_received r, i_cut = ir_cut r, i_title = title\<rparr>)"

definition loadIssueState :: "int \<Rightarrow> int \<Rightarrow> string \<Rightarrow> int \<Rightarrow> string \<Rightarrow> control_db \<Rightarrow> control_error + issue_state option" where
  "loadIssueState tenant project issue gv fp db =
    (case find (\<lambda>r. is_issue tenant project issue r \<and> ir_gversion r = gv \<and> ir_fingerprint r = fp) (db_issues db) of
       None \<Rightarrow> Inr None | Some r \<Rightarrow> bindR (row_state r) (\<lambda>st. Inr (Some st)))"

definition occurrence_row_of :: "int \<Rightarrow> durable_occurrence \<Rightarrow> occurrence_row" where
  "occurrence_row_of tenant d = \<lparr>ow_tenant = tenant, ow_project = du_project d, ow_issue = du_issue d, ow_acceptance = du_acceptance d,
    ow_ordinal = du_ordinal d, ow_occ = du_occ d\<rparr>"

text \<open>\<open>INSERT ... ON CONFLICT(record_id) DO NOTHING\<close>; the result says whether a row was inserted.\<close>

definition insertIssueOccurrence :: "int \<Rightarrow> durable_occurrence \<Rightarrow> control_db \<Rightarrow> bool \<times> control_db" where
  "insertIssueOccurrence tenant d db =
    (if list_ex (\<lambda>w. o_record (ow_occ w) = o_record (du_occ d)) (db_occurrences db) then (False, db)
     else (True, db\<lparr>db_occurrences := db_occurrences db @ [occurrence_row_of tenant d]\<rparr>))"

text \<open>\<open>issue_transitions\<close> is unique in its identifier, in (issue, revision) and in (tenant, actor, operation).\<close>

definition transition_conflict :: "transition_row \<Rightarrow> transition_row \<Rightarrow> bool" where
  "transition_conflict a b = (tr_id a = tr_id b \<or> tr_issue a = tr_issue b \<and> tr_revision a = tr_revision b \<or>
    tr_operation a \<noteq> None \<and> tr_actor a \<noteq> None \<and> tr_tenant a = tr_tenant b \<and> tr_actor a = tr_actor b \<and> tr_operation a = tr_operation b)"

definition insert_transition :: "transition_row \<Rightarrow> control_db \<Rightarrow> control_error + control_db" where
  "insert_transition t db = (if list_ex (transition_conflict t) (db_transitions db) then Inl ErrUnique
    else Inr (db\<lparr>db_transitions := db_transitions db @ [t]\<rparr>))"

definition insertIssueTransition :: "int \<Rightarrow> durable_occurrence \<Rightarrow> int \<Rightarrow> transition_type \<Rightarrow> control_db \<Rightarrow> control_error + control_db" where
  "insertIssueTransition tenant d revision tr db = insert_transition
    \<lparr>tr_id = deterministicTransitionID (du_issue d) revision, tr_tenant = tenant, tr_project = du_project d, tr_issue = du_issue d,
     tr_revision = revision, tr_type = tr, tr_received = o_received (du_occ d), tr_record = Some (o_record (du_occ d)), tr_actor = None,
     tr_operation = None\<rparr> db"

definition new_issue_row :: "int \<Rightarrow> durable_occurrence \<Rightarrow> issue_state \<Rightarrow> issue_row" where
  "new_issue_row tenant d st = \<lparr>ir_tenant = tenant, ir_project = du_project d, ir_issue = du_issue d, ir_gversion = du_gversion d,
    ir_fingerprint = du_fingerprint d, ir_status = i_status st, ir_revision = i_revision st, ir_count = i_count st, ir_first = i_first st,
    ir_last = i_last st, ir_received = i_received st, ir_title_json = du_title_json d, ir_cut = None\<rparr>"

text \<open>\<open>issues\<close> is unique in its key, in the issue identifier and in (project, version, fingerprint).\<close>

definition issue_conflict :: "issue_row \<Rightarrow> issue_row \<Rightarrow> bool" where
  "issue_conflict a b = (is_issue (ir_tenant a) (ir_project a) (ir_issue a) b \<or> ir_issue a = ir_issue b \<or>
    ir_project a = ir_project b \<and> ir_gversion a = ir_gversion b \<and> ir_fingerprint a = ir_fingerprint b)"

definition store_state :: "issue_state \<Rightarrow> issue_row \<Rightarrow> issue_row" where
  "store_state st r = r\<lparr>ir_status := i_status st, ir_revision := i_revision st, ir_count := i_count st, ir_first := i_first st,
    ir_last := i_last st, ir_received := i_received st, ir_title_json := marshalString (i_title st), ir_cut := i_cut st\<rparr>"

text \<open>The branch for an issue that was not found: create it, or load the one created meanwhile.\<close>

definition insert_new_issue :: "int \<Rightarrow> durable_occurrence \<Rightarrow> issue_state \<Rightarrow> transition_type option \<Rightarrow> control_db \<Rightarrow>
    control_error + (control_db \<times> issue_state \<times> bool)" where
  "insert_new_issue tenant first created transition db =
    (let (inserted, db2) = insertIssueOccurrence tenant first (db\<lparr>db_issues := db_issues db @ [new_issue_row tenant first created]\<rparr>)
     in if \<not> inserted then Inl ErrUnique
        else case transition of None \<Rightarrow> Inl ErrPanic
          | Some tr \<Rightarrow> bindR (insertIssueTransition tenant first (i_revision created) tr db2) (\<lambda>db3. Inr (db3, created, True)))"

definition reload_issue :: "int \<Rightarrow> durable_occurrence \<Rightarrow> control_db \<Rightarrow> control_error + (control_db \<times> issue_state \<times> bool)" where
  "reload_issue tenant first db =
    bindR (loadIssueState tenant (du_project first) (du_issue first) (du_gversion first) (du_fingerprint first) db) (\<lambda>found.
      case found of None \<Rightarrow> Inl ErrIssueDisappeared | Some st \<Rightarrow> Inr (db, st, False))"

definition create_issue :: "int \<Rightarrow> durable_occurrence \<Rightarrow> control_db \<Rightarrow> control_error + (control_db \<times> issue_state \<times> bool)" where
  "create_issue tenant first db =
    bindR (decodeIssueTitle (du_title_json first)) (\<lambda>title.
    bindR (lift_lifecycle (applyUniqueOccurrence None (issueOccurrence first) title)) (\<lambda>(created, transition).
      if list_ex (issue_conflict (new_issue_row tenant first created)) (db_issues db) then reload_issue tenant first db
      else insert_new_issue tenant first created transition db))"

definition publish_one :: "int \<Rightarrow> control_db \<times> issue_state \<Rightarrow> durable_occurrence \<Rightarrow> control_error + control_db \<times> issue_state" where
  "publish_one tenant s d =
    (let (inserted, db1) = insertIssueOccurrence tenant d (fst s) in
     if \<not> inserted then Inr (fst s, snd s)
     else bindR (decodeIssueTitle (du_title_json d)) (\<lambda>title.
       bindR (lift_lifecycle (applyUniqueOccurrence (Some (snd s)) (issueOccurrence d) title)) (\<lambda>(next, transition).
         case transition of None \<Rightarrow> Inr (db1, next)
         | Some tr \<Rightarrow> bindR (insertIssueTransition tenant d (i_revision next) tr db1) (\<lambda>db2. Inr (db2, next)))))"

definition consistent_group :: "durable_occurrence \<Rightarrow> durable_occurrence list \<Rightarrow> bool" where
  "consistent_group first ds = list_all (\<lambda>d. du_issue d = du_issue first \<and> du_project d = du_project first \<and>
    du_gversion d = du_gversion first \<and> du_fingerprint d = du_fingerprint first) ds"

definition update_issue :: "int \<Rightarrow> int \<Rightarrow> string \<Rightarrow> issue_state \<Rightarrow> control_db \<Rightarrow> control_db" where
  "update_issue tenant project issue st db = db\<lparr>db_issues := update_where (is_issue tenant project issue) (store_state st) (db_issues db)\<rparr>"

definition publishIssueGroup :: "int \<Rightarrow> control_db \<Rightarrow> durable_occurrence list \<Rightarrow> control_error + control_db" where
  "publishIssueGroup tenant db ds = (case ds of [] \<Rightarrow> Inl ErrPanic | first # _ \<Rightarrow>
    if \<not> consistent_group first ds then Inl ErrGroupInconsistent
    else bindR (loadIssueState tenant (du_project first) (du_issue first) (du_gversion first) (du_fingerprint first) db) (\<lambda>loaded.
      bindR (case loaded of Some st \<Rightarrow> Inr (db, st, False) | None \<Rightarrow> create_issue tenant first db) (\<lambda>(db1, st, started).
      bindR (foldR (publish_one tenant) (db1, st) (if started then tl ds else ds)) (\<lambda>(db2, fin).
        Inr (update_issue tenant (du_project first) (du_issue first) fin db2)))))"

subsection \<open>Publishing an output page by page\<close>

definition du_tuple :: "durable_occurrence \<Rightarrow> event_tuple" where
  "du_tuple d = occ_tuple (du_occ d)"

definition du_less :: "durable_occurrence \<Rightarrow> durable_occurrence \<Rightarrow> bool" where
  "du_less a b = lessEventTuple (du_tuple a) (du_tuple b)"

text \<open>The rows of one issue after the cursor, in event order; a page is the first 512 of them.\<close>

definition after_cursor :: "event_tuple option \<Rightarrow> durable_occurrence list \<Rightarrow> durable_occurrence list" where
  "after_cursor cursor rows = filter (\<lambda>d. case cursor of None \<Rightarrow> True | Some t \<Rightarrow> lessEventTuple t (du_tuple d)) rows"

lemma after_cursor_beyond:
  assumes "l \<in> set (after_cursor cursor rows)"
  shows "after_cursor (Some (du_tuple l)) rows = filter (\<lambda>d. lessEventTuple (du_tuple l) (du_tuple d)) (after_cursor cursor rows)"
proof (cases cursor)
  case (Some t)
  then have "lessEventTuple t (du_tuple l)" using assms by (simp add: after_cursor_def)
  then have "lessEventTuple (du_tuple l) (du_tuple d) \<Longrightarrow> lessEventTuple t (du_tuple d)" for d
    using tuple_order.trans [of t "du_tuple l" "du_tuple d"] by simp
  with Some show ?thesis by (auto simp: after_cursor_def intro: filter_cong)
qed (simp add: after_cursor_def)

lemma after_cursor_last:
  assumes "take n (after_cursor cursor rows) \<noteq> []"
  shows "length (after_cursor (Some (du_tuple (last (take n (after_cursor cursor rows))))) rows) < length (after_cursor cursor rows)"
proof -
  obtain l where l: "l = last (take n (after_cursor cursor rows))" "l \<in> set (after_cursor cursor rows)"
    using assms last_in_set in_set_takeD by metis
  show ?thesis unfolding l(1) [symmetric] after_cursor_beyond [OF l(2)]
    using l(2) tuple_order.irrefl by (intro length_filter_less) auto
qed

function publish_pages :: "int \<Rightarrow> durable_occurrence list \<Rightarrow> event_tuple option \<Rightarrow> control_db \<Rightarrow> control_error + control_db" where
  "publish_pages tenant rows cursor db =
    (let page = take 512 (after_cursor cursor rows) in
     if page = [] then Inr db
     else bindR (publishIssueGroup tenant db page) (\<lambda>db'.
       if length page < 512 then Inr db' else publish_pages tenant rows (Some (du_tuple (last page))) db'))"
  by pat_completeness auto
termination
proof (relation "measure (\<lambda>(tenant, rows, cursor, db). length (after_cursor cursor rows))", goal_cases)
  case (2 tenant rows cursor db page db')
  then show ?case using after_cursor_last [of 512 cursor rows] by simp
qed simp

declare publish_pages.simps [simp del]

definition issue_rows :: "string \<Rightarrow> string \<Rightarrow> control_db \<Rightarrow> durable_occurrence list" where
  "issue_rows output issue db = sortBy du_less (map snd (filter (\<lambda>x. fst x = output \<and> du_issue (snd x) = issue) (db_prepared db)))"

definition output_issues :: "string \<Rightarrow> control_db \<Rightarrow> string list" where
  "output_issues output db = sortBy byte_less (remdups (map (du_issue \<circ> snd) (filter (\<lambda>x. fst x = output) (db_prepared db))))"

definition publishIssueOccurrences :: "int \<Rightarrow> string \<Rightarrow> control_db \<Rightarrow> control_error + control_db" where
  "publishIssueOccurrences tenant output db =
    foldR (\<lambda>d issue. publish_pages tenant (issue_rows output issue db) None d) db (output_issues output db)"

subsection \<open>Changing the status of an issue\<close>

record status_command =
  sc_tenant :: int
  sc_project :: int
  sc_issue :: string
  sc_expected :: int
  sc_action :: string
  sc_actor :: "int option"
  sc_request :: string
  sc_audit :: string
  sc_operation :: string

record status_result =
  sr_status :: string
  sr_revision :: int
  sr_changed :: bool

definition lane_less :: "lane_row \<Rightarrow> lane_row \<Rightarrow> bool" where
  "lane_less a b = (la_id a < la_id b)"

definition lockAcceptedCut :: "int \<Rightarrow> control_db \<Rightarrow> control_error + int list" where
  "lockAcceptedCut tenant db =
    (let rows = sortBy lane_less (filter (\<lambda>l. la_tenant l = tenant) (db_lanes db)) in
     if map la_id (take 16 rows) \<noteq> [0, 1, 2, 3, 4, 5, 6, 7, 8, 9, 10, 11, 12, 13, 14, 15] then Inl ErrLaneTopology
     else if 16 < length rows then Inl ErrPanic else Inr (map la_accepted rows))"

definition loadIssueForStatus :: "status_command \<Rightarrow> control_db \<Rightarrow> control_error + issue_state" where
  "loadIssueForStatus c db = (case find (is_issue (sc_tenant c) (sc_project c) (sc_issue c)) (db_issues db) of
     None \<Rightarrow> Inl ErrNoRows | Some r \<Rightarrow> row_state r)"

definition valid_status_command :: "status_command \<Rightarrow> bool" where
  "valid_status_command c = (0 < sc_tenant c \<and> 0 < sc_project c \<and> validSHA (sc_issue c) \<and> 0 < sc_expected c \<and>
    (sc_action c = ''resolve'' \<or> sc_action c = ''ignore'' \<or> sc_action c = ''reopen''))"

text \<open>A repeated operation of the same actor on the same issue answers with the present state.\<close>

definition repeated_operation :: "status_command \<Rightarrow> int \<Rightarrow> control_db \<Rightarrow> status_result option" where
  "repeated_operation c actor db =
    (if sc_operation c = [] then None
     else case find (\<lambda>t. tr_tenant t = sc_tenant c \<and> tr_actor t = Some actor \<and> tr_operation t = Some (sc_operation c) \<and>
         tr_project t = sc_project c \<and> tr_issue t = sc_issue c) (db_transitions db) of None \<Rightarrow> None
     | Some t \<Rightarrow> map_option (\<lambda>r. \<lparr>sr_status = ir_status r, sr_revision = ir_revision r, sr_changed = False\<rparr>)
         (find (is_issue (sc_tenant c) (sc_project c) (sc_issue c)) (db_issues db)))"

definition authorize_actor :: "status_command \<Rightarrow> control_db \<Rightarrow> control_error + status_result option" where
  "authorize_actor c db = (case sc_actor c of None \<Rightarrow> Inr None | Some actor \<Rightarrow>
    if actor \<le> 0 \<or> sc_request c = [] \<or> sc_audit c = [] then Inl ErrInvalidCommand
    else bindR (requireTenantRole (sc_tenant c) actor False (sc_project c) True db) (\<lambda>_. Inr (repeated_operation c actor db)))"

definition apply_action :: "string \<Rightarrow> int list \<Rightarrow> issue_state \<Rightarrow> issue_error + issue_state \<times> transition_type option" where
  "apply_action action cuts st =
    (if action = ''resolve'' then resolveIssue st cuts else if action = ''ignore'' then ignoreIssue st else reopenIssue st)"

definition insert_audit :: "audit_row \<Rightarrow> control_db \<Rightarrow> control_error + control_db" where
  "insert_audit a db =
    (if list_ex (\<lambda>b. au_tenant b = au_tenant a \<and> (au_id b = au_id a \<or> au_operation a \<noteq> None \<and> au_actor b = au_actor a \<and> au_operation b = au_operation a)) (db_audit db)
     then Inl ErrUnique else Inr (db\<lparr>db_audit := db_audit db @ [a]\<rparr>))"

definition status_transition :: "status_command \<Rightarrow> int \<Rightarrow> int \<Rightarrow> transition_type \<Rightarrow> transition_row" where
  "status_transition c now revision tr = \<lparr>tr_id = deterministicTransitionID (sc_issue c) revision, tr_tenant = sc_tenant c, tr_project = sc_project c,
    tr_issue = sc_issue c, tr_revision = revision, tr_type = tr, tr_received = now, tr_record = None, tr_actor = sc_actor c,
    tr_operation = nullableText (sc_operation c)\<rparr>"

definition record_audit :: "status_command \<Rightarrow> int \<Rightarrow> control_db \<Rightarrow> control_error + control_db" where
  "record_audit c revision db = (case sc_actor c of None \<Rightarrow> Inr db | Some actor \<Rightarrow>
    insert_audit \<lparr>au_tenant = sc_tenant c, au_id = sc_audit c, au_actor = actor, au_action = ''issue_status_changed'', au_target = sc_issue c,
      au_revision = revision, au_request = sc_request c, au_operation = nullableText (sc_operation c)\<rparr> db)"

text \<open>The compare-and-swap on the revision and the rows written with it.\<close>

definition commit_status :: "status_command \<Rightarrow> int \<Rightarrow> issue_state \<Rightarrow> transition_type \<Rightarrow> control_db \<Rightarrow> control_error + status_result \<times> control_db" where
  "commit_status c now st tr db =
    (let P = (\<lambda>r. is_issue (sc_tenant c) (sc_project c) (sc_issue c) r \<and> ir_revision r = sc_expected c);
         db1 = db\<lparr>db_issues := update_where P (\<lambda>r. r\<lparr>ir_status := i_status st, ir_revision := i_revision st, ir_cut := i_cut st\<rparr>) (db_issues db)\<rparr>
     in if affected P (db_issues db) \<noteq> 1 then Inl ErrIssueRevisionStale
        else bindR (insert_transition (status_transition c now (i_revision st) tr) db1) (\<lambda>db2.
          bindR (record_audit c (i_revision st) db2) (\<lambda>db3.
            Inr (\<lparr>sr_status = i_status st, sr_revision = i_revision st, sr_changed = True\<rparr>, db3))))"

definition changeIssueStatus :: "status_command \<Rightarrow> int \<Rightarrow> control_db \<Rightarrow> control_error + status_result \<times> control_db" where
  "changeIssueStatus c now db =
    (if \<not> valid_status_command c then Inl ErrInvalidCommand
     else bindR (authorize_actor c db) (\<lambda>answer.
       case answer of Some res \<Rightarrow> Inr (res, db)
       | None \<Rightarrow>
         bindR (if sc_action c = ''resolve'' then lockAcceptedCut (sc_tenant c) db else Inr []) (\<lambda>cuts.
         bindR (loadIssueForStatus c db) (\<lambda>st.
           if i_revision st \<noteq> sc_expected c then Inl ErrIssueRevisionStale
           else bindR (lift_lifecycle (apply_action (sc_action c) cuts st)) (\<lambda>(next, transition).
             case transition of None \<Rightarrow> Inr (\<lparr>sr_status = i_status next, sr_revision = i_revision next, sr_changed = False\<rparr>, db)
             | Some tr \<Rightarrow> commit_status c now next tr db)))))"

subsection \<open>The invariant\<close>

text \<open>
  Issue counts are lifetime counts: retention deletes occurrence rows and leaves the counters. The list
  \<open>gone\<close> holds the occurrence rows that were deleted so far; it is no part of the database. The
  occurrences of an issue are those that are stored and those that are gone.
\<close>

definition occs_of :: "occurrence_row list \<Rightarrow> int \<Rightarrow> int \<Rightarrow> string \<Rightarrow> control_db \<Rightarrow> occurrence list" where
  "occs_of gone tenant project issue db =
    map ow_occ (filter (\<lambda>w. ow_tenant w = tenant \<and> ow_project w = project \<and> ow_issue w = issue) (gone @ db_occurrences db))"

text \<open>A state agrees with a list of occurrences: count, first, last and latest receive time are theirs.\<close>

definition agrees :: "occurrence list \<Rightarrow> issue_state \<Rightarrow> bool" where
  "agrees os st = (i_count st = int (length os) \<and> i_count st \<le> maxInt64 \<and> os \<noteq> [] \<and> summarises (set os) st)"

definition row_core :: "issue_row \<Rightarrow> issue_state" where
  "row_core r = \<lparr>i_status = ir_status r, i_revision = ir_revision r, i_count = ir_count r, i_first = ir_first r, i_last = ir_last r,
    i_received = ir_received r, i_cut = ir_cut r, i_title = []\<rparr>"

definition issues_exact :: "occurrence_row list \<Rightarrow> control_db \<Rightarrow> bool" where
  "issues_exact gone db =
    (distinct (map (\<lambda>r. (ir_tenant r, ir_project r, ir_issue r)) (db_issues db)) \<and>
     distinct (map (o_record \<circ> ow_occ) (db_occurrences db)) \<and>
     (\<forall>r \<in> set (db_issues db). agrees (occs_of gone (ir_tenant r) (ir_project r) (ir_issue r) db) (row_core r)) \<and>
     (\<forall>w \<in> set (gone @ db_occurrences db). \<exists>r \<in> set (db_issues db). is_issue (ow_tenant w) (ow_project w) (ow_issue w) r))"

lemma agrees_core: "agrees os (st\<lparr>i_title := t, i_status := s, i_revision := n, i_cut := c\<rparr>) = agrees os st"
  by (simp add: agrees_def summarises_def)

definition loop_ok :: "occurrence_row list \<Rightarrow> int \<Rightarrow> int \<Rightarrow> string \<Rightarrow> control_db \<Rightarrow> issue_state \<Rightarrow> bool" where
  "loop_ok gone tenant project issue db st =
    (distinct (map (\<lambda>r. (ir_tenant r, ir_project r, ir_issue r)) (db_issues db)) \<and>
     distinct (map (o_record \<circ> ow_occ) (db_occurrences db)) \<and>
     (\<forall>r \<in> set (db_issues db). \<not> is_issue tenant project issue r \<longrightarrow> agrees (occs_of gone (ir_tenant r) (ir_project r) (ir_issue r) db) (row_core r)) \<and>
     (\<exists>r \<in> set (db_issues db). is_issue tenant project issue r) \<and>
     (\<forall>w \<in> set (gone @ db_occurrences db). \<exists>r \<in> set (db_issues db). is_issue (ow_tenant w) (ow_project w) (ow_issue w) r) \<and>
     agrees (occs_of gone tenant project issue db) st)"

lemma occs_of_cong: "db_occurrences db = db_occurrences db' \<Longrightarrow> occs_of gone t p i db = occs_of gone t p i db'"
  by (simp add: occs_of_def)

lemma loop_ok_cong: "db_issues db = db_issues db' \<Longrightarrow> db_occurrences db = db_occurrences db' \<Longrightarrow> loop_ok gone t p i db st = loop_ok gone t p i db' st"
  by (simp add: loop_ok_def occs_of_def)

lemma issues_exact_cong: "db_issues db = db_issues db' \<Longrightarrow> db_occurrences db = db_occurrences db' \<Longrightarrow> issues_exact gone db = issues_exact gone db'"
  by (simp add: issues_exact_def occs_of_def)

lemma counted_summarises:
  assumes "summarises S st" "finite S" "S \<noteq> {}"
  shows "summarises (insert oc S) (counted_state st oc)"
proof -
  have first: "\<not> lessEventTuple (occ_tuple x) (i_first st)" and last: "\<not> lessEventTuple (i_last st) (occ_tuple x)" if "x \<in> S" for x
    using assms(1) that by (auto simp: summarises_def)
  have "\<not> lessEventTuple (occ_tuple x) (occ_tuple oc)" if "lessEventTuple (occ_tuple oc) (i_first st)" "x \<in> S" for x
    using first [OF that(2)] tuple_order.trans [OF _ that(1)] by blast
  moreover have "\<not> lessEventTuple (occ_tuple oc) (occ_tuple x)" if "lessEventTuple (i_last st) (occ_tuple oc)" "x \<in> S" for x
    using last [OF that(2)] tuple_order.trans [OF that(1)] by blast
  moreover have "Max (o_received ` insert oc S) = max (o_received oc) (Max (o_received ` S))" using assms(2,3) by simp
  ultimately show ?thesis using assms(1) first last tuple_order.irrefl
    by (auto simp: summarises_def counted_state_def max_def)
qed

lemma counted_agrees:
  assumes "agrees os st" "i_count st \<noteq> maxInt64"
  shows "agrees (os @ [oc]) (counted_state st oc)"
proof -
  have "i_count (counted_state st oc) = i_count st + 1"
    using assms by (simp add: counted_state_def agrees_def add64_id int64_def)
  moreover have "set (os @ [oc]) = insert oc (set os)" by simp
  ultimately show ?thesis using assms counted_summarises [of "set os" st oc] by (simp add: agrees_def)
qed

lemma apply_agrees:
  assumes "applyUniqueOccurrence (Some st) oc title = Inr (n, tr)" "agrees os st"
  shows "agrees (os @ [oc]) n"
proof -
  have c: "i_count st \<noteq> maxInt64" using assms(1) by (auto simp: applyUniqueOccurrence_def split: if_splits)
  have "n = counted_state st oc \<or> n = (counted_state st oc)\<lparr>i_status := StatusUnresolved, i_revision := add64 (i_revision (counted_state st oc)) 1, i_cut := None\<rparr>"
    using assms(1) by (auto simp: applyUniqueOccurrence_def Let_def split: if_splits)
  then show ?thesis using counted_agrees [OF assms(2) c, of oc] by (auto simp: agrees_def summarises_def)
qed

lemma insert_transition_keeps:
  "insert_transition t db = Inr db' \<Longrightarrow> db_issues db' = db_issues db \<and> db_occurrences db' = db_occurrences db \<and> db_transitions db' = db_transitions db @ [t]"
  by (auto simp: insert_transition_def split: if_splits)

lemma insertIssueTransition_keeps:
  "insertIssueTransition tenant d revision tr db = Inr db' \<Longrightarrow> db_issues db' = db_issues db \<and> db_occurrences db' = db_occurrences db"
  by (simp add: insertIssueTransition_def insert_transition_keeps)

lemma occs_of_insert:
  "insertIssueOccurrence tenant d db = (True, db') \<Longrightarrow>
   occs_of gone t p i db' = occs_of gone t p i db @ (if t = tenant \<and> p = du_project d \<and> i = du_issue d then [du_occ d] else [])"
  by (auto simp: insertIssueOccurrence_def occs_of_def occurrence_row_of_def split: if_splits)

lemma insert_occurrence_shape:
  "insertIssueOccurrence tenant d db = (True, db') \<Longrightarrow>
   db_issues db' = db_issues db \<and> db_occurrences db' = db_occurrences db @ [occurrence_row_of tenant d] \<and>
   o_record (du_occ d) \<notin> set (map (o_record \<circ> ow_occ) (db_occurrences db))"
  by (auto simp: insertIssueOccurrence_def list_ex_iff split: if_splits)

text \<open>Counting one inserted occurrence into the state of its issue.\<close>

lemma loop_ok_insert:
  assumes ins: "insertIssueOccurrence tenant d db = (True, db')" and key: "p = du_project d" "i = du_issue d"
    and others: "distinct (map (\<lambda>r. (ir_tenant r, ir_project r, ir_issue r)) (db_issues db))"
      "distinct (map (o_record \<circ> ow_occ) (db_occurrences db))"
      "\<forall>r \<in> set (db_issues db). \<not> is_issue tenant p i r \<longrightarrow> agrees (occs_of gone (ir_tenant r) (ir_project r) (ir_issue r) db) (row_core r)"
      "\<exists>r \<in> set (db_issues db). is_issue tenant p i r"
      "\<forall>w \<in> set (gone @ db_occurrences db). \<exists>r \<in> set (db_issues db). is_issue (ow_tenant w) (ow_project w) (ow_issue w) r"
    and st: "agrees (occs_of gone tenant p i db @ [du_occ d]) st"
  shows "loop_ok gone tenant p i db' st"
proof -
  note shape = insert_occurrence_shape [OF ins]
  have "occs_of gone (ir_tenant r) (ir_project r) (ir_issue r) db' = occs_of gone (ir_tenant r) (ir_project r) (ir_issue r) db" if "\<not> is_issue tenant p i r" for r
    using that occs_of_insert [OF ins] key by (auto simp: is_issue_def)
  moreover have "occs_of gone tenant p i db' = occs_of gone tenant p i db @ [du_occ d]" using occs_of_insert [OF ins] key by simp
  moreover have "\<exists>r \<in> set (db_issues db'). is_issue (ow_tenant w) (ow_project w) (ow_issue w) r" if "w \<in> set (gone @ db_occurrences db')" for w
    using that others(4,5) shape key by (auto simp: occurrence_row_of_def)
  ultimately show ?thesis using others st shape by (auto simp: loop_ok_def occurrence_row_of_def)
qed

lemma publish_one_ok:
  assumes "publish_one tenant (db, st) d = Inr (db', st')" "loop_ok gone tenant p i db st" "p = du_project d" "i = du_issue d"
  shows "loop_ok gone tenant p i db' st'"
proof (cases "insertIssueOccurrence tenant d db")
  case (Pair ins db1)
  show ?thesis
  proof (cases ins)
    case False
    then show ?thesis using assms(1,2) Pair by (simp add: publish_one_def)
  next
    case True
    from assms(1) Pair True obtain title n tr where ap: "applyUniqueOccurrence (Some st) (du_occ d) title = Inr (n, tr)" "st' = n"
        "db' = db1 \<or> (\<exists>x. insertIssueTransition tenant d (i_revision n) x db1 = Inr db')"
      by (fastforce simp: publish_one_def issueOccurrence_def bindR_eq_Inr split: option.splits prod.splits)
    have "loop_ok gone tenant p i db1 n"
      using assms(2) loop_ok_insert [OF _ assms(3,4), of tenant db db1 gone n] apply_agrees [OF ap(1)] Pair True
      by (simp add: loop_ok_def)
    moreover have "db_issues db' = db_issues db1 \<and> db_occurrences db' = db_occurrences db1"
      using ap(3) insertIssueTransition_keeps by blast
    ultimately show ?thesis using ap(2) loop_ok_cong by metis
  qed
qed

lemma publish_all_ok:
  assumes "foldR (publish_one tenant) (db, st) ds = Inr (db', st')" "loop_ok gone tenant p i db st"
    "list_all (\<lambda>d. du_project d = p \<and> du_issue d = i) ds"
  shows "loop_ok gone tenant p i db' st'"
  using assms
proof (induction ds arbitrary: db st)
  case (Cons d ds)
  then obtain db1 st1 where "publish_one tenant (db, st) d = Inr (db1, st1)" "foldR (publish_one tenant) (db1, st1) ds = Inr (db', st')"
    by (auto simp: bindR_eq_Inr)
  then show ?case using Cons.IH publish_one_ok [OF _ Cons.prems(2)] Cons.prems(3) by auto
qed simp

lemma loop_ok_update:
  assumes "loop_ok gone tenant p i db st"
  shows "issues_exact gone (update_issue tenant p i st db)"
proof -
  have keys: "map (\<lambda>r. (ir_tenant r, ir_project r, ir_issue r)) (update_where (is_issue tenant p i) (store_state st) (db_issues db)) =
      map (\<lambda>r. (ir_tenant r, ir_project r, ir_issue r)) (db_issues db)"
    by (rule update_where_map) (simp add: store_state_def)
  let ?db = "update_issue tenant p i st db"
  have occ: "db_occurrences ?db = db_occurrences db" "db_issues ?db = update_where (is_issue tenant p i) (store_state st) (db_issues db)"
    by (simp_all add: update_issue_def)
  have row: "\<exists>r0 \<in> set (db_issues db). r = (if is_issue tenant p i r0 then store_state st r0 else r0)" if "r \<in> set (db_issues ?db)" for r
    using that by (auto simp: occ(2) update_where_def)
  have "agrees (occs_of gone (ir_tenant r) (ir_project r) (ir_issue r) ?db) (row_core r)" if r: "r \<in> set (db_issues ?db)" for r
  proof -
    obtain r0 where r0: "r0 \<in> set (db_issues db)" "r = (if is_issue tenant p i r0 then store_state st r0 else r0)" using row [OF r] by blast
    show ?thesis
    proof (cases "is_issue tenant p i r0")
      case True
      then show ?thesis using assms r0(2) occs_of_cong [OF occ(1)]
        by (auto simp: loop_ok_def is_issue_def agrees_def summarises_def row_core_def store_state_def)
    next
      case False
      then show ?thesis using assms r0 occs_of_cong [OF occ(1)] by (simp add: loop_ok_def)
    qed
  qed
  moreover have "\<exists>r \<in> set (db_issues ?db). is_issue (ow_tenant w) (ow_project w) (ow_issue w) r" if "w \<in> set (gone @ db_occurrences ?db)" for w
  proof -
    have "w \<in> set (gone @ db_occurrences db)" using that by (simp only: occ(1))
    then obtain r0 where "r0 \<in> set (db_issues db)" "is_issue (ow_tenant w) (ow_project w) (ow_issue w) r0"
      using assms unfolding loop_ok_def by blast
    then show ?thesis unfolding occ(2) update_where_def
      by (intro bexI [of _ "if is_issue tenant p i r0 then store_state st r0 else r0"]) (auto simp: is_issue_def store_state_def)
  qed
  ultimately show ?thesis using assms keys unfolding issues_exact_def occ by (simp add: loop_ok_def)
qed

lemma load_ok:
  assumes "loadIssueState tenant p i gv fp db = Inr (Some st)" "issues_exact gone db"
  shows "loop_ok gone tenant p i db st"
proof -
  obtain r title where r: "r \<in> set (db_issues db)" "is_issue tenant p i r" and st: "st = (row_core r)\<lparr>i_title := title\<rparr>"
    using assms(1) by (auto simp: loadIssueState_def row_state_def row_core_def bindR_eq_Inr dest!: find_SomeD split: option.splits)
  have "agrees (occs_of gone tenant p i db) st"
    using assms(2) r by (auto simp: issues_exact_def is_issue_def st agrees_def summarises_def)
  then show ?thesis using assms(2) r unfolding issues_exact_def loop_ok_def by blast
qed

lemma no_row_no_occurrence:
  assumes "issues_exact gone db" "\<And>r. r \<in> set (db_issues db) \<Longrightarrow> \<not> is_issue tenant p i r"
  shows "occs_of gone tenant p i db = []"
  using assms by (fastforce simp: issues_exact_def occs_of_def filter_empty_conv is_issue_def)

lemma insert_new_issue_cases:
  assumes "insert_new_issue tenant d created tr db = Inr (db', st, started)"
  obtains db2 t where "insertIssueOccurrence tenant d (db\<lparr>db_issues := db_issues db @ [new_issue_row tenant d created]\<rparr>) = (True, db2)"
    "insertIssueTransition tenant d (i_revision created) t db2 = Inr db'" "st = created" "started"
proof -
  obtain ok db2 where ins: "insertIssueOccurrence tenant d (db\<lparr>db_issues := db_issues db @ [new_issue_row tenant d created]\<rparr>) = (ok, db2)"
    by (meson surj_pair)
  have ok: "ok" using assms by (cases ok) (simp_all only: insert_new_issue_def ins Let_def prod.case, simp_all)
  obtain t where tr: "tr = Some t" using assms by (cases tr) (simp_all only: insert_new_issue_def ins ok Let_def prod.case, simp_all)
  have "bindR (insertIssueTransition tenant d (i_revision created) t db2) (\<lambda>db3. Inr (db3, created, True)) = Inr (db', st, started)"
    using assms by (simp only: insert_new_issue_def ins ok tr Let_def prod.case not_True_eq_False if_False option.case)
  then have "insertIssueTransition tenant d (i_revision created) t db2 = Inr db'" "st = created" "started"
    by (cases "insertIssueTransition tenant d (i_revision created) t db2"; simp)+
  then show thesis using ins ok by (intro that) simp_all
qed

lemma reload_issue_cases:
  assumes "reload_issue tenant d db = Inr (db', st, started)"
  shows "loadIssueState tenant (du_project d) (du_issue d) (du_gversion d) (du_fingerprint d) db = Inr (Some st) \<and> db' = db \<and> \<not> started"
  using assms by (auto simp: reload_issue_def bindR_eq_Inr split: option.splits)

lemma create_issue_cases:
  assumes "create_issue tenant d db = Inr (db', st, started)"
  obtains (reload) "loadIssueState tenant (du_project d) (du_issue d) (du_gversion d) (du_fingerprint d) db = Inr (Some st)" "db' = db" "\<not> started"
  | (new) title created tr where "decodeIssueTitle (du_title_json d) = Inr title" "applyUniqueOccurrence None (du_occ d) title = Inr (created, tr)"
      "\<not> list_ex (issue_conflict (new_issue_row tenant d created)) (db_issues db)" "insert_new_issue tenant d created tr db = Inr (db', st, started)"
proof -
  obtain title created tr where ap: "decodeIssueTitle (du_title_json d) = Inr title" "applyUniqueOccurrence None (du_occ d) title = Inr (created, tr)"
    and rest: "(if list_ex (issue_conflict (new_issue_row tenant d created)) (db_issues db) then reload_issue tenant d db
      else insert_new_issue tenant d created tr db) = Inr (db', st, started)"
    using assms by (auto simp: create_issue_def issueOccurrence_def bindR_eq_Inr split: prod.splits)
  show thesis
  proof (cases "list_ex (issue_conflict (new_issue_row tenant d created)) (db_issues db)")
    case True
    with rest reload_issue_cases [of tenant d db db' st started] reload show thesis by simp
  next
    case False
    with rest new [OF ap False] show thesis by simp
  qed
qed

lemma create_ok:
  assumes "create_issue tenant d db = Inr (db', st, started)" "issues_exact gone db"
  shows "loop_ok gone tenant (du_project d) (du_issue d) db' st"
  using assms(1)
proof (cases rule: create_issue_cases)
  case reload
  then show ?thesis using load_ok [OF _ assms(2)] by simp
next
  case (new title created tr)
  let ?p = "du_project d" and ?i = "du_issue d"
  let ?new = "new_issue_row tenant d created" and ?db1 = "db\<lparr>db_issues := db_issues db @ [new_issue_row tenant d created]\<rparr>"
  obtain db2 t where ins: "insertIssueOccurrence tenant d ?db1 = (True, db2)" and t: "insertIssueTransition tenant d (i_revision created) t db2 = Inr db'" "st = created"
    using insert_new_issue_cases [OF new(4)] by blast
  have none: "\<not> is_issue tenant ?p ?i r" if "r \<in> set (db_issues db)" for r
    using new(3) that by (auto simp: list_ex_iff issue_conflict_def new_issue_row_def)
  have isnew: "is_issue tenant ?p ?i ?new" by (simp add: is_issue_def new_issue_row_def)
  have created: "created = created_state (du_occ d) title" using new(2) by (auto simp: applyUniqueOccurrence_def split: if_splits)
  have occs: "occs_of gone a b c ?db1 = occs_of gone a b c db" for a b c by (simp add: occs_of_def)
  have one: "agrees [du_occ d] created"
    using created_summarises [of "du_occ d" "[]" title] unfolding created by (simp add: agrees_def) (simp add: created_state_def)
  have "loop_ok gone tenant ?p ?i db2 created"
  proof (rule loop_ok_insert [OF ins refl refl])
    show "distinct (map (\<lambda>r. (ir_tenant r, ir_project r, ir_issue r)) (db_issues ?db1))"
      using assms(2) none by (auto simp: issues_exact_def new_issue_row_def is_issue_def) blast
    show "\<forall>r \<in> set (db_issues ?db1). \<not> is_issue tenant ?p ?i r \<longrightarrow> agrees (occs_of gone (ir_tenant r) (ir_project r) (ir_issue r) ?db1) (row_core r)"
      using assms(2) isnew unfolding occs by (auto simp: issues_exact_def)
    show "agrees (occs_of gone tenant ?p ?i ?db1 @ [du_occ d]) created"
      using one no_row_no_occurrence [OF assms(2) none] by (simp add: occs)
    show "distinct (map (o_record \<circ> ow_occ) (db_occurrences ?db1))" using assms(2) by (simp add: issues_exact_def)
    show "\<exists>r \<in> set (db_issues ?db1). is_issue tenant ?p ?i r" using isnew by auto
    show "\<forall>w \<in> set (gone @ db_occurrences ?db1). \<exists>r \<in> set (db_issues ?db1). is_issue (ow_tenant w) (ow_project w) (ow_issue w) r"
      using assms(2) by (auto simp: issues_exact_def)
  qed
  then show ?thesis using loop_ok_cong insertIssueTransition_keeps [OF t(1)] t(2) by metis
qed

lemma publishIssueGroup_cases:
  assumes "publishIssueGroup tenant db ds = Inr db'"
  obtains first rest db1 st started db2 fin where "ds = first # rest" "consistent_group first ds"
    "loadIssueState tenant (du_project first) (du_issue first) (du_gversion first) (du_fingerprint first) db = Inr (Some st) \<and> db1 = db \<and> \<not> started \<or>
     loadIssueState tenant (du_project first) (du_issue first) (du_gversion first) (du_fingerprint first) db = Inr None \<and> create_issue tenant first db = Inr (db1, st, started)"
    "foldR (publish_one tenant) (db1, st) (if started then tl ds else ds) = Inr (db2, fin)"
    "db' = update_issue tenant (du_project first) (du_issue first) fin db2"
  using assms
  by (auto simp: publishIssueGroup_def bindR_eq_Inr split: list.splits if_splits option.splits prod.splits)

lemma publishIssueGroup_exact:
  assumes "publishIssueGroup tenant db ds = Inr db'" "issues_exact gone db"
  shows "issues_exact gone db'"
proof -
  obtain first rest db1 st started db2 fin where g: "ds = first # rest" "consistent_group first ds"
    "loadIssueState tenant (du_project first) (du_issue first) (du_gversion first) (du_fingerprint first) db = Inr (Some st) \<and> db1 = db \<and> \<not> started \<or>
     loadIssueState tenant (du_project first) (du_issue first) (du_gversion first) (du_fingerprint first) db = Inr None \<and> create_issue tenant first db = Inr (db1, st, started)"
    "foldR (publish_one tenant) (db1, st) (if started then tl ds else ds) = Inr (db2, fin)"
    "db' = update_issue tenant (du_project first) (du_issue first) fin db2"
    using publishIssueGroup_cases [OF assms(1)] .
  have "loop_ok gone tenant (du_project first) (du_issue first) db1 st"
    using g(3) load_ok create_ok assms(2) by blast
  moreover have "list_all (\<lambda>d. du_project d = du_project first \<and> du_issue d = du_issue first) (if started then tl ds else ds)"
    using g(1,2) by (auto simp: consistent_group_def list_all_iff)
  ultimately show ?thesis unfolding g(5) using publish_all_ok [OF g(4)] loop_ok_update by blast
qed

lemma publish_pages_exact: "publish_pages tenant rows cursor db = Inr db' \<Longrightarrow> issues_exact gone db \<Longrightarrow> issues_exact gone db'"
proof (induction tenant rows cursor db arbitrary: db' rule: publish_pages.induct)
  case (1 tenant rows cursor db)
  show ?case
  proof (cases "take 512 (after_cursor cursor rows) = []")
    case True
    then show ?thesis using 1(2,3) by (simp add: publish_pages.simps [of tenant rows cursor db])
  next
    case False
    then obtain d1 where d1: "publishIssueGroup tenant db (take 512 (after_cursor cursor rows)) = Inr d1"
      "(if length (take 512 (after_cursor cursor rows)) < 512 then Inr d1
        else publish_pages tenant rows (Some (du_tuple (last (take 512 (after_cursor cursor rows))))) d1) = Inr db'"
      using 1(2) by (subst (asm) publish_pages.simps) (auto simp: Let_def bindR_eq_Inr)
    have "issues_exact gone d1" by (rule publishIssueGroup_exact [OF d1(1) 1(3)])
    then show ?thesis using d1(2) 1(1) [OF refl False] by (auto split: if_splits)
  qed
qed

lemma publishIssueOccurrences_exact:
  assumes "publishIssueOccurrences tenant output db = Inr db'" "issues_exact gone db"
  shows "issues_exact gone db'"
  by (rule foldR_invariant [where P = "issues_exact gone", OF assms(1) [unfolded publishIssueOccurrences_def] assms(2)])
    (rule publish_pages_exact)

lemma exact_has_row:
  "issues_exact gone db \<Longrightarrow> w \<in> set (gone @ db_occurrences db) \<Longrightarrow> \<exists>r \<in> set (db_issues db). is_issue (ow_tenant w) (ow_project w) (ow_issue w) r"
  by (simp add: issues_exact_def)

lemma issues_exact_update:
  assumes "issues_exact gone db" and "\<And>r. row_core (f r) = (row_core r)\<lparr>i_status := s r, i_revision := n r, i_cut := c r\<rparr>"
    and key: "\<And>r. ir_tenant (f r) = ir_tenant r \<and> ir_project (f r) = ir_project r \<and> ir_issue (f r) = ir_issue r"
  shows "issues_exact gone (db\<lparr>db_issues := update_where P f (db_issues db)\<rparr>)"
proof -
  let ?db = "db\<lparr>db_issues := update_where P f (db_issues db)\<rparr>"
  have keys: "map (\<lambda>r. (ir_tenant r, ir_project r, ir_issue r)) (update_where P f (db_issues db)) = map (\<lambda>r. (ir_tenant r, ir_project r, ir_issue r)) (db_issues db)"
    by (rule update_where_map) (simp add: key)
  have "agrees (occs_of gone (ir_tenant r) (ir_project r) (ir_issue r) ?db) (row_core r)" if r: "r \<in> set (db_issues ?db)" for r
  proof -
    obtain r0 where r0: "r0 \<in> set (db_issues db)" "r = (if P r0 then f r0 else r0)" using r by (auto simp: update_where_def)
    then have "agrees (occs_of gone (ir_tenant r0) (ir_project r0) (ir_issue r0) db) (row_core r0)" using assms(1) by (simp add: issues_exact_def)
    moreover have "occs_of gone (ir_tenant r) (ir_project r) (ir_issue r) ?db = occs_of gone (ir_tenant r0) (ir_project r0) (ir_issue r0) db"
      using key r0(2) by (simp add: occs_of_def)
    ultimately show ?thesis using assms(2) r0(2) by (simp add: agrees_def summarises_def)
  qed
  moreover have "\<exists>r \<in> set (db_issues ?db). is_issue (ow_tenant w) (ow_project w) (ow_issue w) r" if w: "w \<in> set (gone @ db_occurrences db)" for w
  proof -
    obtain r0 where "r0 \<in> set (db_issues db)" "is_issue (ow_tenant w) (ow_project w) (ow_issue w) r0"
      using exact_has_row [OF assms(1) w] by blast
    then show ?thesis using key
      by (intro bexI [of _ "if P r0 then f r0 else r0"]) (auto simp: is_issue_def update_where_def)
  qed
  ultimately show ?thesis using assms(1) keys unfolding issues_exact_def by simp
qed

lemma record_audit_keeps:
  "record_audit c revision db = Inr db' \<Longrightarrow> db_issues db' = db_issues db \<and> db_occurrences db' = db_occurrences db \<and> db_transitions db' = db_transitions db"
  by (cases "sc_actor c") (simp_all add: record_audit_def insert_audit_def split: if_splits, auto)

definition status_where :: "status_command \<Rightarrow> issue_row \<Rightarrow> bool" where
  "status_where c r = (is_issue (sc_tenant c) (sc_project c) (sc_issue c) r \<and> ir_revision r = sc_expected c)"

definition status_write :: "issue_state \<Rightarrow> issue_row \<Rightarrow> issue_row" where
  "status_write st r = r\<lparr>ir_status := i_status st, ir_revision := i_revision st, ir_cut := i_cut st\<rparr>"

lemma commit_status_cases:
  assumes "commit_status c now st tr db = Inr (res, db')"
  shows "affected (status_where c) (db_issues db) = 1 \<and> db_issues db' = update_where (status_where c) (status_write st) (db_issues db) \<and>
    db_occurrences db' = db_occurrences db \<and> db_transitions db' = db_transitions db @ [status_transition c now (i_revision st) tr] \<and>
    res = \<lparr>sr_status = i_status st, sr_revision = i_revision st, sr_changed = True\<rparr>"
proof -
  let ?db1 = "db\<lparr>db_issues := update_where (status_where c) (status_write st) (db_issues db)\<rparr>"
  have P: "(\<lambda>r. is_issue (sc_tenant c) (sc_project c) (sc_issue c) r \<and> ir_revision r = sc_expected c) = status_where c"
    and F: "(\<lambda>r. r\<lparr>ir_status := i_status st, ir_revision := i_revision st, ir_cut := i_cut st\<rparr>) = status_write st"
    by (simp_all add: fun_eq_iff status_where_def status_write_def)
  have one: "affected (status_where c) (db_issues db) = 1" using assms unfolding commit_status_def Let_def P F by (cases "affected (status_where c) (db_issues db) = 1") simp_all
  then have "bindR (insert_transition (status_transition c now (i_revision st) tr) ?db1) (\<lambda>db2. bindR (record_audit c (i_revision st) db2) (\<lambda>db3.
      Inr (\<lparr>sr_status = i_status st, sr_revision = i_revision st, sr_changed = True\<rparr>, db3))) = Inr (res, db')"
    using assms unfolding commit_status_def Let_def P F by simp
  then obtain db2 where t: "insert_transition (status_transition c now (i_revision st) tr) ?db1 = Inr db2"
    and rest: "bindR (record_audit c (i_revision st) db2) (\<lambda>db3. Inr (\<lparr>sr_status = i_status st, sr_revision = i_revision st, sr_changed = True\<rparr>, db3)) = Inr (res, db')"
    by (cases "insert_transition (status_transition c now (i_revision st) tr) ?db1") simp_all
  then have a: "record_audit c (i_revision st) db2 = Inr db'" "res = \<lparr>sr_status = i_status st, sr_revision = i_revision st, sr_changed = True\<rparr>"
    by (cases "record_audit c (i_revision st) db2"; simp)+
  then show ?thesis using one insert_transition_keeps [OF t] record_audit_keeps [OF a(1)] by simp
qed

lemma changeIssueStatus_cases:
  assumes "changeIssueStatus c now db = Inr (res, db')"
  obtains (same) "db' = db" "\<not> sr_changed res"
  | (changed) st nxt tr cuts where "loadIssueForStatus c db = Inr st" "i_revision st = sc_expected c" "apply_action (sc_action c) cuts st = Inr (nxt, Some tr)"
      "commit_status c now nxt tr db = Inr (res, db')" "sc_action c = ''resolve'' \<Longrightarrow> lockAcceptedCut (sc_tenant c) db = Inr cuts"
proof -
  obtain answer where v: "valid_status_command c" "authorize_actor c db = Inr answer"
    using assms by (cases "authorize_actor c db"; cases "valid_status_command c") (simp_all add: changeIssueStatus_def)
  show thesis
  proof (cases answer)
    case (Some a)
    then have "db' = db" "res = a" using assms v by (simp_all add: changeIssueStatus_def)
    moreover have "\<not> sr_changed a" using v(2) Some
      by (auto simp: authorize_actor_def repeated_operation_def bindR_eq_Inr split: option.splits if_splits)
    ultimately show thesis using same by simp
  next
    case None
    obtain cuts where cuts: "(if sc_action c = ''resolve'' then lockAcceptedCut (sc_tenant c) db else Inr []) = Inr cuts"
      using assms v None by (cases "if sc_action c = ''resolve'' then lockAcceptedCut (sc_tenant c) db else Inr []") (simp_all add: changeIssueStatus_def)
    obtain st where st: "loadIssueForStatus c db = Inr st"
      using assms v None cuts by (cases "loadIssueForStatus c db") (simp_all add: changeIssueStatus_def)
    have rv: "i_revision st = sc_expected c"
      using assms v None cuts st by (cases "i_revision st = sc_expected c") (simp_all add: changeIssueStatus_def)
    obtain nxt tr where ap: "apply_action (sc_action c) cuts st = Inr (nxt, tr)"
      using assms v None cuts st rv by (cases "apply_action (sc_action c) cuts st") (auto simp: changeIssueStatus_def lift_lifecycle_def)
    show thesis
    proof (cases tr)
      case None
      with assms v \<open>answer = None\<close> cuts st rv ap have "db' = db" "res = \<lparr>sr_status = i_status nxt, sr_revision = i_revision nxt, sr_changed = False\<rparr>"
        by (simp_all add: changeIssueStatus_def lift_lifecycle_def)
      then show thesis using same by simp
    next
      case (Some t)
      with assms v None cuts st rv ap have "commit_status c now nxt t db = Inr (res, db')"
        by (simp add: changeIssueStatus_def lift_lifecycle_def)
      then show thesis using ap Some cuts by (intro changed [OF st rv, of cuts nxt t]) simp_all
    qed
  qed
qed

lemma changeIssueStatus_exact:
  assumes "changeIssueStatus c now db = Inr (res, db')" "issues_exact gone db"
  shows "issues_exact gone db'"
  using assms(1)
proof (cases rule: changeIssueStatus_cases)
  case same
  then show ?thesis using assms(2) by simp
next
  case (changed st nxt tr cuts)
  have "issues_exact gone (db\<lparr>db_issues := update_where (status_where c) (status_write nxt) (db_issues db)\<rparr>)"
    by (rule issues_exact_update [OF assms(2)]) (simp_all add: row_core_def status_write_def)
  moreover have "db_issues db' = db_issues (db\<lparr>db_issues := update_where (status_where c) (status_write nxt) (db_issues db)\<rparr>)"
    "db_occurrences db' = db_occurrences (db\<lparr>db_issues := update_where (status_where c) (status_write nxt) (db_issues db)\<rparr>)"
    using commit_status_cases [OF changed(4)] by simp_all
  ultimately show ?thesis using issues_exact_cong by blast
qed

subsection \<open>Publishing again\<close>

definition records :: "control_db \<Rightarrow> string set" where
  "records db = (o_record \<circ> ow_occ) ` set (db_occurrences db)"

lemma list_ex_records: "list_ex (\<lambda>w. o_record (ow_occ w) = k) (db_occurrences db) \<longleftrightarrow> k \<in> records db"
  by (auto simp: records_def list_ex_iff image_iff)

lemma insert_present:
  "o_record (du_occ d) \<in> records db \<Longrightarrow> insertIssueOccurrence tenant d db = (False, db)"
  by (simp add: insertIssueOccurrence_def list_ex_records)

lemma insert_refused: "insertIssueOccurrence tenant d db = (False, db') \<Longrightarrow> o_record (du_occ d) \<in> records db \<and> db' = db"
  by (simp add: insertIssueOccurrence_def list_ex_records split: if_splits)

lemma insert_absent:
  assumes "insertIssueOccurrence tenant d db = (ok, db')"
  shows "records db' = insert (o_record (du_occ d)) (records db)"
proof (cases ok)
  case True
  then have "db' = db\<lparr>db_occurrences := db_occurrences db @ [occurrence_row_of tenant d]\<rparr>"
    using assms by (simp add: insertIssueOccurrence_def split: if_splits)
  then show ?thesis by (simp add: records_def occurrence_row_of_def)
next
  case False
  then have "insertIssueOccurrence tenant d db = (False, db')" using assms by simp
  then show ?thesis using insert_refused insert_absorb by blast
qed

lemma publish_one_present:
  "o_record (du_occ d) \<in> records db \<Longrightarrow> publish_one tenant (db, st) d = Inr (db, st)"
  by (simp add: publish_one_def insert_present)

lemma publish_all_present:
  "(\<And>d. d \<in> set ds \<Longrightarrow> o_record (du_occ d) \<in> records db) \<Longrightarrow> foldR (publish_one tenant) (db, st) ds = Inr (db, st)"
  by (induction ds) (simp_all add: publish_one_present)

lemma publish_one_records:
  assumes "publish_one tenant (db, st) d = Inr (db', st')"
  shows "records db' = insert (o_record (du_occ d)) (records db) \<and> db_issues db' = db_issues db \<and> i_title st' = i_title st"
proof -
  obtain ok db1 where ins: "insertIssueOccurrence tenant d db = (ok, db1)" by (meson surj_pair)
  show ?thesis
  proof (cases ok)
    case False
    then have "o_record (du_occ d) \<in> records db" using ins insert_refused by simp
    then show ?thesis using assms publish_one_present by auto
  next
    case True
    then obtain title n tr where ap: "applyUniqueOccurrence (Some st) (du_occ d) title = Inr (n, tr)" "st' = n"
        "db' = db1 \<or> (\<exists>x. insertIssueTransition tenant d (i_revision n) x db1 = Inr db')"
      using assms ins by (fastforce simp: publish_one_def issueOccurrence_def bindR_eq_Inr split: option.splits prod.splits)
    have keeps: "db_issues db' = db_issues db1 \<and> db_occurrences db' = db_occurrences db1" using ap(3) insertIssueTransition_keeps by blast
    have "i_title n = i_title st" using ap(1) by (auto simp: applyUniqueOccurrence_def Let_def split: if_splits)
    moreover have "db_issues db1 = db_issues db" using ins True by (simp add: insert_occurrence_shape)
    moreover have "records db' = records db1" using keeps by (simp add: records_def)
    ultimately show ?thesis using insert_absent [OF ins] keeps ap(2) by simp
  qed
qed

lemma publish_all_records:
  assumes "foldR (publish_one tenant) (db, st) ds = Inr (db', st')"
  shows "records db' = records db \<union> (o_record \<circ> du_occ) ` set ds \<and> db_issues db' = db_issues db \<and> i_title st' = i_title st"
  using assms
proof (induction ds arbitrary: db st)
  case (Cons d ds)
  then obtain db1 st1 where "publish_one tenant (db, st) d = Inr (db1, st1)" "foldR (publish_one tenant) (db1, st1) ds = Inr (db', st')"
    by (auto simp: bindR_eq_Inr)
  then show ?case using Cons.IH [of db1 st1] publish_one_records [of tenant db st d db1 st1] by auto
qed simp

lemma decodeIssueTitle_valid: "decodeIssueTitle s = Inr t \<Longrightarrow> utf8_valid t"
  by (auto simp: decodeIssueTitle_def dest!: unmarshal_valid split: option.splits json.splits)

lemma decode_marshal_title: "utf8_valid t \<Longrightarrow> decodeIssueTitle (marshalString t) = Inr t"
  by (simp add: decodeIssueTitle_def unmarshal_marshal)

lemma string_of_runes_valid: "utf8_valid (string_of_runes rs)"
  by (induction rs) (simp_all add: string_of_runes_def)

lemma truncateRunes_valid: "utf8_valid s \<Longrightarrow> utf8_valid (truncateRunes s n)"
  by (simp add: truncateRunes_def string_of_runes_valid)

abbreviation load_where :: "int \<Rightarrow> durable_occurrence \<Rightarrow> issue_row \<Rightarrow> bool" where
  "load_where tenant d \<equiv> (\<lambda>r. is_issue tenant (du_project d) (du_issue d) r \<and> ir_gversion r = du_gversion d \<and> ir_fingerprint r = du_fingerprint d)"

lemma load_found:
  assumes "loadIssueState tenant (du_project d) (du_issue d) (du_gversion d) (du_fingerprint d) db = Inr (Some st)"
  shows "find (load_where tenant d) (db_issues db) \<noteq> None \<and> utf8_valid (i_title st)"
  using assms decodeIssueTitle_valid by (fastforce simp: loadIssueState_def row_state_def bindR_eq_Inr split: option.splits)

lemma create_found:
  assumes "create_issue tenant d db = Inr (db', st, started)"
  shows "find (load_where tenant d) (db_issues db') \<noteq> None \<and> utf8_valid (i_title st) \<and> (started \<longrightarrow> o_record (du_occ d) \<in> records db')"
  using assms
proof (cases rule: create_issue_cases)
  case reload
  then show ?thesis using load_found by simp
next
  case (new title created tr)
  obtain db2 t where ins: "insertIssueOccurrence tenant d (db\<lparr>db_issues := db_issues db @ [new_issue_row tenant d created]\<rparr>) = (True, db2)"
    and t: "insertIssueTransition tenant d (i_revision created) t db2 = Inr db'" "st = created" using insert_new_issue_cases [OF new(4)] by blast
  have "db_issues db' = db_issues db @ [new_issue_row tenant d created]" "records db' = records db2"
    using insert_occurrence_shape [OF ins] insertIssueTransition_keeps [OF t(1)] by (simp_all add: records_def)
  moreover have "load_where tenant d (new_issue_row tenant d created)" by (simp add: is_issue_def new_issue_row_def)
  moreover have "utf8_valid (i_title created)"
    using new(1,2) decodeIssueTitle_valid by (auto simp: applyUniqueOccurrence_def created_state_def truncateRunes_valid split: if_splits)
  ultimately show ?thesis using insert_absent [OF ins] t(2) by (auto simp: find_None_iff)
qed

lemma load_after_update:
  assumes "find (load_where tenant d) (db_issues db) \<noteq> None" "utf8_valid (i_title st)"
  shows "loadIssueState tenant (du_project d) (du_issue d) (du_gversion d) (du_fingerprint d) (update_issue tenant (du_project d) (du_issue d) st db) = Inr (Some st)"
proof -
  obtain r where r: "find (load_where tenant d) (db_issues db) = Some r" using assms(1) by blast
  have "find (load_where tenant d) (update_where (is_issue tenant (du_project d) (du_issue d)) (store_state st) (db_issues db)) = Some (store_state st r)"
    using find_SomeD [OF r] r by (subst find_update_where) (auto simp: is_issue_def store_state_def)
  moreover have "row_state (store_state st r) = Inr st" using assms(2) by (simp add: row_state_def store_state_def decode_marshal_title)
  ultimately show ?thesis by (simp add: loadIssueState_def update_issue_def)
qed

lemma update_issue_idem: "update_issue t p i st (update_issue t p i st db) = update_issue t p i st db"
proof -
  have "store_state st (store_state st r) = store_state st r" "is_issue t p i (store_state st r) = is_issue t p i r" for r
    by (simp_all add: store_state_def is_issue_def)
  then show ?thesis by (simp add: update_issue_def update_where_def)
qed

lemma publishIssueGroup_result:
  assumes "publishIssueGroup tenant db ds = Inr db'"
  obtains first rest db2 fin where "ds = first # rest" "consistent_group first ds" "db' = update_issue tenant (du_project first) (du_issue first) fin db2"
    "find (load_where tenant first) (db_issues db2) \<noteq> None" "utf8_valid (i_title fin)" "(o_record \<circ> du_occ) ` set ds \<subseteq> records db2"
proof -
  obtain first rest db1 st started db2 fin where g: "ds = first # rest" "consistent_group first ds"
    "loadIssueState tenant (du_project first) (du_issue first) (du_gversion first) (du_fingerprint first) db = Inr (Some st) \<and> db1 = db \<and> \<not> started \<or>
     loadIssueState tenant (du_project first) (du_issue first) (du_gversion first) (du_fingerprint first) db = Inr None \<and> create_issue tenant first db = Inr (db1, st, started)"
    "foldR (publish_one tenant) (db1, st) (if started then tl ds else ds) = Inr (db2, fin)"
    "db' = update_issue tenant (du_project first) (du_issue first) fin db2"
    using publishIssueGroup_cases [OF assms] .
  have f: "find (load_where tenant first) (db_issues db1) \<noteq> None \<and> utf8_valid (i_title st) \<and> (started \<longrightarrow> o_record (du_occ first) \<in> records db1)"
    using g(3) load_found create_found by blast
  note all = publish_all_records [OF g(4)]
  have "(o_record \<circ> du_occ) ` set ds \<subseteq> records db2" using all f g(1) by (cases started) auto
  then show thesis using that [OF g(1,2,5)] all f by simp
qed

end
