(* ===== verification/IssueStoreFacts.thy ===== *)
theory IssueStoreFacts
  imports IssueStore
begin

section \<open>What the issue store guarantees over time\<close>

text \<open>
  Publishing a group again changes nothing; the page loop is a fold over pages; a status change is a
  compare-and-swap on the issue's revision. The counters over time are in theory \<open>IssueHistory\<close>.
\<close>

subsection \<open>A sample\<close>

definition sample_durable :: "char \<Rightarrow> int \<Rightarrow> int \<Rightarrow> durable_occurrence" where
  "sample_durable c seq t = \<lparr>du_occ = sample_occurrence c seq t, du_project = 2, du_acceptance = ''a'', du_ordinal = 0, du_issue = replicate 64 CHR ''e'',
    du_gversion = 1, du_fingerprint = replicate 64 CHR ''f'', du_title_json = [CHR 0x22, CHR ''x'', CHR 0x22]\<rparr>"

definition sample_db :: control_db where
  "sample_db = \<lparr>db_installation = ''i'', db_generation = 1, db_tenants = [], db_users = [], db_memberships = [], db_projects = [], db_grants = [],
    db_lanes = map (\<lambda>n. \<lparr>la_tenant = 1, la_id = n, la_accepted = 8, la_published = 8, la_generation = 1, la_received = 0\<rparr>) [0..15], db_jobs = [], db_outputs = [],
    db_parts = [], db_intents = [], db_batches = [], db_prepared = [(''o'', sample_durable CHR ''a'' 7 40), (''o'', sample_durable CHR ''b'' 9 30)],
    db_issues = [], db_occurrences = [], db_transitions = [], db_audit = [], db_bundles = [], db_files = [],
    db_dedupe_days = 30, db_keys = [], db_receipts = [], db_dedupe = [], db_outcomes = [], db_unsupported = [], db_setup = ''ready'', db_recovery = ''ready'', db_floor = 0, db_tick = 0, db_days = 30, db_retention_revision = 1, db_gc_safe = None,
    db_gc_verified = None, db_sessions = [], db_snapshots = [], db_tasks = [], db_inputs = [], db_queries = [], db_backups = [], db_summaries = []\<rparr>"

lemma sample_title: "decodeIssueTitle [CHR 0x22, CHR ''x'', CHR 0x22] = Inr ''x''"
  by code_simp

lemma sample_rows: "issue_rows ''o'' (replicate 64 CHR ''e'') sample_db = [sample_durable CHR ''b'' 9 30, sample_durable CHR ''a'' 7 40]"
  "output_issues ''o'' sample_db = [replicate 64 CHR ''e'']"
  by (simp_all add: issue_rows_def output_issues_def sample_db_def sample_durable_def sample_occurrence_def du_less_def du_tuple_def occ_tuple_def
      lessEventTuple_def)


lemma sample_valid: "valid_occurrence (du_occ (sample_durable CHR ''a'' 7 40))" "valid_occurrence (du_occ (sample_durable CHR ''b'' 9 30))"
  using sample_occurrence_valid by (simp_all add: sample_durable_def)

lemma sample_titles: "decodeIssueTitle (du_title_json (sample_durable c q t)) = Inr ''x''"
  by (simp add: sample_durable_def sample_title)

lemma sample_publish:
  obtains db where "publishIssueGroup 1 sample_db [sample_durable CHR ''b'' 9 30, sample_durable CHR ''a'' 7 40] = Inr db"
    "db_issues db = [store_state (counted_state (created_state (sample_occurrence CHR ''b'' 9 30) ''x'') (sample_occurrence CHR ''a'' 7 40))
      (new_issue_row 1 (sample_durable CHR ''b'' 9 30) (created_state (sample_occurrence CHR ''b'' 9 30) ''x''))]"
    "db_occurrences db = [occurrence_row_of 1 (sample_durable CHR ''b'' 9 30), occurrence_row_of 1 (sample_durable CHR ''a'' 7 40)]"
proof -
  let ?a = "sample_durable CHR ''a'' 7 40" and ?b = "sample_durable CHR ''b'' 9 30"
  let ?st = "created_state (du_occ ?b) ''x''"
  define d1 where "d1 = sample_db\<lparr>db_issues := [new_issue_row 1 ?b ?st]\<rparr>"
  have i1: "insertIssueOccurrence 1 ?b d1 = (True, d1\<lparr>db_occurrences := [occurrence_row_of 1 ?b]\<rparr>)"
    by (simp add: insertIssueOccurrence_def d1_def sample_db_def)
  obtain d2 where d2: "insertIssueTransition 1 ?b 1 TransitionCreated (d1\<lparr>db_occurrences := [occurrence_row_of 1 ?b]\<rparr>) = Inr d2"
    by (simp add: insertIssueTransition_def insert_transition_def d1_def sample_db_def)
  have "create_issue 1 ?b sample_db = insert_new_issue 1 ?b ?st (Some TransitionCreated) sample_db"
    using sample_valid(2) by (simp add: create_issue_def sample_titles issueOccurrence_def applyUniqueOccurrence_def lift_lifecycle_def sample_db_def)
  moreover have "insert_new_issue 1 ?b ?st (Some TransitionCreated) sample_db = Inr (d2, ?st, True)"
    using i1 d2 by (simp add: insert_new_issue_def d1_def sample_db_def created_state_def)
  ultimately have c: "create_issue 1 ?b sample_db = Inr (d2, ?st, True)" by simp
  have o: "db_occurrences d2 = [occurrence_row_of 1 ?b]" "db_issues d2 = [new_issue_row 1 ?b ?st]"
    using insertIssueTransition_keeps [OF d2] by (simp_all add: d1_def)
  have "o_record (du_occ ?a) \<noteq> o_record (du_occ ?b)" by (simp add: sample_durable_def sample_occurrence_def)
  then have i2: "insertIssueOccurrence 1 ?a d2 = (True, d2\<lparr>db_occurrences := [occurrence_row_of 1 ?b, occurrence_row_of 1 ?a]\<rparr>)"
    using o(1) by (simp add: insertIssueOccurrence_def occurrence_row_of_def)
  have "applyUniqueOccurrence (Some ?st) (du_occ ?a) ''x'' = Inr (counted_state ?st (du_occ ?a), None)"
    using sample_valid(1) by (simp add: applyUniqueOccurrence_def counted_state_def created_state_def)
  then have p: "publish_one 1 (d2, ?st) ?a = Inr (d2\<lparr>db_occurrences := [occurrence_row_of 1 ?b, occurrence_row_of 1 ?a]\<rparr>, counted_state ?st (du_occ ?a))"
    using i2 by (simp add: publish_one_def sample_titles issueOccurrence_def lift_lifecycle_def)
  have l: "loadIssueState 1 (du_project ?b) (du_issue ?b) (du_gversion ?b) (du_fingerprint ?b) sample_db = Inr None"
    by (simp add: loadIssueState_def sample_db_def)
  have g: "consistent_group ?b [?b, ?a]" by (simp add: consistent_group_def sample_durable_def)
  have "publishIssueGroup 1 sample_db [?b, ?a] = Inr (update_issue 1 (du_project ?b) (du_issue ?b) (counted_state ?st (du_occ ?a))
      (d2\<lparr>db_occurrences := [occurrence_row_of 1 ?b, occurrence_row_of 1 ?a]\<rparr>))"
    using g l c p by (simp add: publishIssueGroup_def)
  moreover have "is_issue 1 (du_project ?b) (du_issue ?b) (new_issue_row 1 ?b ?st)" by (simp add: is_issue_def new_issue_row_def)
  moreover have "du_occ ?a = sample_occurrence CHR ''a'' 7 40" "du_occ ?b = sample_occurrence CHR ''b'' 9 30" by (simp_all add: sample_durable_def)
  ultimately show thesis using that o(2) by (simp add: update_issue_def update_where_def)
qed

lemma sample_pages:
  "publishIssueOccurrences 1 ''o'' sample_db = publishIssueGroup 1 sample_db [sample_durable CHR ''b'' 9 30, sample_durable CHR ''a'' 7 40]"
  by (cases "publishIssueGroup 1 sample_db [sample_durable CHR ''b'' 9 30, sample_durable CHR ''a'' 7 40]")
    (simp_all add: publishIssueOccurrences_def sample_rows publish_pages.simps [of _ _ None] after_cursor_def)

subsection \<open>What the issue store guarantees\<close>

text \<open>
  C30: publishing is idempotent. A group that has been published can be published again, as a
  retried publication does: the second run succeeds and leaves every table as it is.
\<close>

theorem publish_group_idempotent:
  assumes "publishIssueGroup tenant db ds = Inr db'"
  shows "publishIssueGroup tenant db' ds = Inr db'"
proof -
  obtain first rest db2 fin where g: "ds = first # rest" "consistent_group first ds" "db' = update_issue tenant (du_project first) (du_issue first) fin db2"
    "find (load_where tenant first) (db_issues db2) \<noteq> None" "utf8_valid (i_title fin)" "(o_record \<circ> du_occ) ` set ds \<subseteq> records db2"
    by (rule publishIssueGroup_result [OF assms])
  have load: "loadIssueState tenant (du_project first) (du_issue first) (du_gversion first) (du_fingerprint first) db' = Inr (Some fin)"
    unfolding g(3) by (rule load_after_update [OF g(4,5)])
  have "records db' = records db2" unfolding g(3) by (simp add: records_def update_issue_def)
  then have present: "foldR (publish_one tenant) (db', fin) ds = Inr (db', fin)"
    using g(6) by (intro publish_all_present) auto
  have "update_issue tenant (du_project first) (du_issue first) fin db' = db'" unfolding g(3) by (rule update_issue_idem)
  then show ?thesis using g(1,2) load present by (simp add: publishIssueGroup_def)
qed

theorem publish_group_idempotent_witness:
  "\<exists>db. publishIssueGroup 1 sample_db [sample_durable CHR ''b'' 9 30, sample_durable CHR ''a'' 7 40] = Inr db \<and> length (db_issues db) = 1 \<and>
    publishIssueGroup 1 db [sample_durable CHR ''b'' 9 30, sample_durable CHR ''a'' 7 40] = Inr db"
proof -
  obtain db where p: "publishIssueGroup 1 sample_db [sample_durable CHR ''b'' 9 30, sample_durable CHR ''a'' 7 40] = Inr db"
    "db_issues db = [store_state (counted_state (created_state (sample_occurrence CHR ''b'' 9 30) ''x'') (sample_occurrence CHR ''a'' 7 40))
      (new_issue_row 1 (sample_durable CHR ''b'' 9 30) (created_state (sample_occurrence CHR ''b'' 9 30) ''x''))]"
    by (rule sample_publish)
  then show ?thesis using publish_group_idempotent [OF p(1)] by (intro exI [of _ db]) simp
qed

subsection \<open>Pages\<close>

definition pages_of :: "'a list \<Rightarrow> 'a list list" where
  "pages_of xs = chunks ((length xs + 511) div 512) 512 xs"

lemma pages_of_Nil [simp]: "pages_of [] = []"
  by (simp add: pages_of_def)

lemma pages_of_step:
  assumes "xs \<noteq> []"
  shows "pages_of xs = take 512 xs # pages_of (drop 512 xs)"
proof -
  have "(length xs + 511) div 512 = Suc ((length xs - 512 + 511) div 512)"
    using assms by (cases "length xs \<le> 512") (simp_all add: Suc_leI div_if)
  then show ?thesis by (simp add: pages_of_def)
qed

lemma concat_pages_of [simp]: "concat (pages_of xs) = xs"
proof (induction "length xs" arbitrary: xs rule: less_induct)
  case less
  then show ?case by (cases "xs = []") (simp_all add: pages_of_step)
qed

lemma filter_beyond_page:
  assumes "sorted_wrt du_less A" "take n A \<noteq> []"
  shows "filter (\<lambda>d. lessEventTuple (du_tuple (last (take n A))) (du_tuple d)) A = drop n A"
proof -
  obtain B l where B: "take n A = B @ [l]" using assms(2) by (metis rev_exhaust)
  then have A: "A = B @ l # drop n A" by (metis append_take_drop_id append.assoc append_Cons append_Nil)
  then have "sorted_wrt du_less (B @ l # drop n A)" using assms(1) by simp
  then have "\<forall>x \<in> set B. du_less x l" "\<forall>x \<in> set (drop n A). du_less l x" by (simp_all add: sorted_wrt_append)
  then have "filter (du_less l) B = []" "filter (du_less l) (drop n A) = drop n A" "\<not> du_less l l"
    using tuple_order.asym tuple_order.irrefl by (auto simp: du_less_def filter_empty_conv)
  then have "filter (du_less l) (B @ l # drop n A) = drop n A" by simp
  then show ?thesis using A B by (simp add: du_less_def [abs_def])
qed

lemma publish_pages_chunks:
  assumes "sorted_wrt du_less rows"
  shows "publish_pages tenant rows cursor db = foldR (publishIssueGroup tenant) db (pages_of (after_cursor cursor rows))"
  using assms
proof (induction tenant rows cursor db rule: publish_pages.induct)
  case (1 tenant rows cursor db)
  let ?A = "after_cursor cursor rows"
  show ?case
  proof (cases "?A = []")
    case True
    then show ?thesis by (simp add: publish_pages.simps [of tenant rows cursor db])
  next
    case False
    then have page: "take 512 ?A \<noteq> []" by simp
    have sorted: "sorted_wrt du_less ?A" using 1(2) by (simp add: after_cursor_def sorted_wrt_filter)
    have "last (take 512 ?A) \<in> set ?A" using page last_in_set in_set_takeD by metis
    then have rest: "after_cursor (Some (du_tuple (last (take 512 ?A)))) rows = drop 512 ?A"
      using after_cursor_beyond filter_beyond_page [OF sorted page] by simp
    have turn: "(if length (take 512 ?A) < 512 then Inr d1 else publish_pages tenant rows (Some (du_tuple (last (take 512 ?A)))) d1) =
        foldR (publishIssueGroup tenant) d1 (pages_of (drop 512 ?A))" for d1
    proof (cases "length (take 512 ?A) < 512")
      case True
      then have "drop 512 ?A = []" by simp
      then show ?thesis using True by simp
    next
      case False
      then show ?thesis using 1(1) [OF refl page False 1(2)] unfolding rest by simp
    qed
    show ?thesis unfolding publish_pages.simps [of tenant rows cursor db] Let_def pages_of_step [OF False] foldR.simps turn
      using page by simp
  qed
qed

lemma sorted_strict:
  "sorted_wrt (\<lambda>a b. \<not> du_less b a) xs \<Longrightarrow> distinct (map (o_record \<circ> du_occ) xs) \<Longrightarrow> sorted_wrt du_less xs"
proof (induction xs)
  case (Cons x xs)
  have "du_less x y" if "y \<in> set xs" for y
  proof -
    have "o_record (du_occ x) \<noteq> o_record (du_occ y)" using Cons.prems(2) that by force
    then show ?thesis using Cons.prems(1) that tuple_total [of "du_tuple x" "du_tuple y"] by (auto simp: du_less_def du_tuple_def)
  qed
  then show ?case using Cons by simp
qed simp

interpretation du_order: strict_weak_order du_less
  using tuple_order.irrefl tuple_order.trans tuple_order.incomp_trans unfolding du_less_def by unfold_locales blast+

definition prepared_of :: "string \<Rightarrow> control_db \<Rightarrow> durable_occurrence list" where
  "prepared_of output db = map snd (filter (\<lambda>x. fst x = output) (db_prepared db))"

lemma issue_rows_prepared: "issue_rows output issue db = sortBy du_less (filter (\<lambda>d. du_issue d = issue) (prepared_of output db))"
  by (simp add: issue_rows_def prepared_of_def filter_map comp_def conj_commute)

lemma output_issues_prepared: "output_issues output db = sortBy byte_less (remdups (map du_issue (prepared_of output db)))"
  by (simp add: output_issues_def prepared_of_def)

lemma issue_rows_sorted:
  assumes "distinct (map (o_record \<circ> du_occ) (prepared_of output db))"
  shows "sorted_wrt du_less (issue_rows output issue db)"
proof (rule sorted_strict)
  show "sorted_wrt (\<lambda>a b. \<not> du_less b a) (issue_rows output issue db)"
    unfolding issue_rows_prepared by (rule du_order.sortBy_sorted)
  have "distinct (map (o_record \<circ> du_occ) (filter (\<lambda>d. du_issue d = issue) (prepared_of output db)))"
    using assms by (rule distinct_map_filter)
  moreover have "mset (map (o_record \<circ> du_occ) (issue_rows output issue db)) = mset (map (o_record \<circ> du_occ) (filter (\<lambda>d. du_issue d = issue) (prepared_of output db)))"
    by (simp add: issue_rows_prepared)
  ultimately show "distinct (map (o_record \<circ> du_occ) (issue_rows output issue db))" using mset_eq_imp_distinct_iff by blast
qed

lemma mset_by_key:
  "distinct ks \<Longrightarrow> mset (concat (map (\<lambda>k. filter (\<lambda>x. f x = k) xs) ks)) = mset (filter (\<lambda>x. f x \<in> set ks) xs)"
proof (induction ks)
  case (Cons k ks)
  have "mset (filter (\<lambda>x. f x = k) xs) + mset (filter (\<lambda>x. f x \<in> set ks) xs) = mset (filter (\<lambda>x. f x \<in> set (k # ks)) xs)"
    using Cons.prems by (induction xs) auto
  then show ?case using Cons by simp
qed simp

text \<open>
  C29: keyset paging visits every prepared occurrence exactly once. The loop that reads pages of
  512 rows behind a cursor always ends, and is the fold of \<open>publishIssueGroup\<close> over the issues in
  order and, for each, over consecutive pages of its rows in event order; together these pages are
  exactly the prepared rows of the output. The rows of one output have distinct records (their key).
\<close>

theorem publish_pages_visit_each_row_once:
  assumes "distinct (map (o_record \<circ> du_occ) (prepared_of output db))"
  shows "publishIssueOccurrences tenant output db =
      foldR (\<lambda>d issue. foldR (publishIssueGroup tenant) d (pages_of (issue_rows output issue db))) db (output_issues output db) \<and>
    (\<forall>issue. sorted_wrt du_less (issue_rows output issue db) \<and> concat (pages_of (issue_rows output issue db)) = issue_rows output issue db) \<and>
    mset (concat (map (\<lambda>issue. issue_rows output issue db) (output_issues output db))) = mset (prepared_of output db)"
proof -
  have "publish_pages tenant (issue_rows output issue db) None d = foldR (publishIssueGroup tenant) d (pages_of (issue_rows output issue db))" for issue d
    using publish_pages_chunks [OF issue_rows_sorted [OF assms], of tenant issue None d] by (simp add: after_cursor_def)
  moreover have "mset (concat (map (\<lambda>issue. issue_rows output issue db) ks)) = mset (concat (map (\<lambda>issue. filter (\<lambda>d. du_issue d = issue) (prepared_of output db)) ks))" for ks
    by (induction ks) (simp_all add: issue_rows_prepared)
  moreover have "distinct (output_issues output db)" "set (output_issues output db) = du_issue ` set (prepared_of output db)"
    by (simp_all add: output_issues_prepared)
  ultimately show ?thesis
    using mset_by_key [of "output_issues output db" du_issue "prepared_of output db"] issue_rows_sorted [OF assms]
    by (simp add: publishIssueOccurrences_def)
qed

theorem publish_pages_visit_each_row_once_witness:
  "publishIssueOccurrences 1 ''o'' sample_db = foldR (\<lambda>d issue. foldR (publishIssueGroup 1) d (pages_of (issue_rows ''o'' issue sample_db))) sample_db (output_issues ''o'' sample_db) \<and>
   mset (concat (map (\<lambda>issue. issue_rows ''o'' issue sample_db) (output_issues ''o'' sample_db))) =
     {# sample_durable CHR ''a'' 7 40, sample_durable CHR ''b'' 9 30 #}"
proof -
  have "prepared_of ''o'' sample_db = [sample_durable CHR ''a'' 7 40, sample_durable CHR ''b'' 9 30]" by (simp add: prepared_of_def sample_db_def)
  moreover from this have "distinct (map (o_record \<circ> du_occ) (prepared_of ''o'' sample_db))" by (simp add: sample_durable_def sample_occurrence_def)
  ultimately show ?thesis using publish_pages_visit_each_row_once [of "''o''" sample_db 1] by simp
qed

subsection \<open>Optimistic concurrency\<close>

lemma apply_action_changed:
  assumes "apply_action action cuts st = Inr (nxt, Some tr)" "int64 (i_revision st)"
  shows "i_revision nxt = i_revision st + 1 \<and> i_cut nxt = (if action = ''resolve'' then Some cuts else None) \<and> i_status nxt \<noteq> i_status st"
  using assms
  by (auto simp: apply_action_def resolveIssue_def ignoreIssue_def reopenIssue_def mutateStatus_def add64_id int64_def split: if_splits)

abbreviation this_issue :: "status_command \<Rightarrow> issue_row \<Rightarrow> bool" where
  "this_issue c \<equiv> is_issue (sc_tenant c) (sc_project c) (sc_issue c)"

lemma filter_update_where_other: "(\<And>r. P r \<Longrightarrow> \<not> Q r \<and> \<not> Q (f r)) \<Longrightarrow> filter Q (update_where P f rs) = filter Q rs"
  by (induction rs) (auto simp: update_where_def)

lemma load_status_row:
  assumes "loadIssueForStatus c db = Inr st"
  obtains r where "find (this_issue c) (db_issues db) = Some r" "ir_revision r = i_revision st" "ir_status r = i_status st"
  using assms by (auto simp: loadIssueForStatus_def row_state_def bindR_eq_Inr split: option.splits)

text \<open>
  C24: a status change is a compare-and-swap on the revision. A command that changes an issue found
  it at the revision the caller had seen and moved it to the next one, recording the lane cut when
  it resolves; it touches no other issue and no occurrence and appends one transition with the new
  revision. Afterwards no command with the old revision changes anything: it fails, or repeats an
  answer without a write.
\<close>

theorem issue_status_compare_and_swap:
  assumes "changeIssueStatus c now db = Inr (res, db')" "sr_changed res" "int64 (sc_expected c)"
  shows "(\<exists>r r'. find (this_issue c) (db_issues db) = Some r \<and> find (this_issue c) (db_issues db') = Some r' \<and> ir_revision r = sc_expected c \<and>
      ir_status r' \<noteq> ir_status r \<and>
      r' = r\<lparr>ir_status := sr_status res, ir_revision := sc_expected c + 1, ir_cut := ir_cut r'\<rparr> \<and>
      (sc_action c = ''resolve'' \<and> (\<exists>cuts. lockAcceptedCut (sc_tenant c) db = Inr cuts \<and> ir_cut r' = Some cuts) \<or> sc_action c \<noteq> ''resolve'' \<and> ir_cut r' = None)) \<and>
    filter (\<lambda>q. \<not> this_issue c q) (db_issues db') = filter (\<lambda>q. \<not> this_issue c q) (db_issues db) \<and> db_occurrences db' = db_occurrences db \<and>
    (\<exists>t. db_transitions db' = db_transitions db @ [t] \<and> tr_issue t = sc_issue c \<and> tr_revision t = sc_expected c + 1 \<and> tr_actor t = sc_actor c) \<and>
    (\<forall>c2 now2 res2 db2. sc_tenant c2 = sc_tenant c \<and> sc_project c2 = sc_project c \<and> sc_issue c2 = sc_issue c \<and> sc_expected c2 = sc_expected c \<and>
      changeIssueStatus c2 now2 db' = Inr (res2, db2) \<longrightarrow> \<not> sr_changed res2 \<and> db2 = db')"
  using assms(1)
proof (cases rule: changeIssueStatus_cases)
  case same
  with assms(2) show ?thesis by simp
next
  case (changed st nxt tr cuts)
  obtain r where r: "find (this_issue c) (db_issues db) = Some r" "ir_revision r = i_revision st" "ir_status r = i_status st"
    by (rule load_status_row [OF changed(1)])
  note cm = commit_status_cases [OF changed(4)]
  have act: "i_revision nxt = sc_expected c + 1" "i_cut nxt = (if sc_action c = ''resolve'' then Some cuts else None)" "i_status nxt \<noteq> i_status st"
    using apply_action_changed [OF changed(3)] changed(2) assms(3) by simp_all
  have "this_issue c r" using find_SomeD [OF r(1)] by simp
  then have P: "status_where c r" using r(2) changed(2) by (simp add: status_where_def)
  have "find (this_issue c) (db_issues db') = map_option (\<lambda>r. if status_where c r then status_write nxt r else r) (find (this_issue c) (db_issues db))"
    using cm by (simp only:) (rule find_update_where, simp add: is_issue_def status_write_def)
  then have r': "find (this_issue c) (db_issues db') = Some (status_write nxt r)" using r(1) P by simp
  have others: "filter (\<lambda>q. \<not> this_issue c q) (db_issues db') = filter (\<lambda>q. \<not> this_issue c q) (db_issues db)"
    using cm by (simp only:) (rule filter_update_where_other, simp add: status_where_def is_issue_def status_write_def)
  have again: "\<not> sr_changed res2 \<and> db2 = db'"
    if c2: "sc_tenant c2 = sc_tenant c \<and> sc_project c2 = sc_project c \<and> sc_issue c2 = sc_issue c \<and> sc_expected c2 = sc_expected c \<and>
      changeIssueStatus c2 now2 db' = Inr (res2, db2)" for c2 now2 res2 db2
  proof -
    have ch: "changeIssueStatus c2 now2 db' = Inr (res2, db2)" using c2 by simp
    have same: "this_issue c2 = this_issue c" using c2 by simp
    show ?thesis using ch
    proof (cases rule: changeIssueStatus_cases)
      case (changed st2 nxt2 tr2 cuts2)
      obtain q where "find (this_issue c2) (db_issues db') = Some q" "ir_revision q = i_revision st2" by (rule load_status_row [OF changed(1)])
      moreover from this have "q = status_write nxt r" using same r' by simp
      ultimately have "sc_expected c2 = sc_expected c + 1" using act(1) changed(2) by (simp add: status_write_def)
      then show ?thesis using c2 by simp
    qed simp
  qed
  have wrote: "status_write nxt r = r\<lparr>ir_status := sr_status res, ir_revision := sc_expected c + 1, ir_cut := ir_cut (status_write nxt r)\<rparr>"
    "ir_status (status_write nxt r) \<noteq> ir_status r" "ir_cut (status_write nxt r) = i_cut nxt"
    using cm act r(3) by (simp_all add: status_write_def)
  have "\<exists>t. db_transitions db' = db_transitions db @ [t] \<and> tr_issue t = sc_issue c \<and> tr_revision t = sc_expected c + 1 \<and> tr_actor t = sc_actor c"
    using cm act(1) by (simp add: status_transition_def)
  then show ?thesis using r r' wrote changed(2,5) act(2) others cm again
    by (intro conjI allI impI exI [of _ r] exI [of _ "status_write nxt r"]) auto
qed

definition sample_command :: status_command where
  "sample_command = \<lparr>sc_tenant = 1, sc_project = 2, sc_issue = replicate 64 CHR ''e'', sc_expected = 1, sc_action = ''resolve'', sc_actor = None,
    sc_request = [], sc_audit = [], sc_operation = []\<rparr>"

definition sample_issue :: issue_row where
  "sample_issue = new_issue_row 1 (sample_durable CHR ''a'' 7 40) (created_state (sample_occurrence CHR ''a'' 7 40) ''x'')"

lemma sample_cut: "lockAcceptedCut 1 sample_db = Inr (replicate 16 8)"
  by code_simp

lemma sample_command_valid: "valid_status_command sample_command"
  by code_simp

lemma sample_resolved:
  "\<exists>res db'. changeIssueStatus sample_command 90 (sample_db\<lparr>db_issues := [sample_issue]\<rparr>) = Inr (res, db') \<and> sr_changed res"
proof -
  let ?db = "sample_db\<lparr>db_issues := [sample_issue]\<rparr>"
  have cuts: "lockAcceptedCut 1 ?db = Inr (replicate 16 8)" using sample_cut by (simp add: lockAcceptedCut_def)
  have row: "is_issue 1 2 (replicate 64 CHR ''e'') sample_issue" "ir_revision sample_issue = 1" "ir_status sample_issue = StatusUnresolved"
    by (simp_all add: sample_issue_def is_issue_def new_issue_row_def sample_durable_def created_state_def)
  obtain st where st: "row_state sample_issue = Inr st" "i_revision st = 1" "i_status st = StatusUnresolved"
    using row by (simp add: row_state_def sample_issue_def new_issue_row_def sample_durable_def sample_title)
  obtain nxt where nxt: "resolveIssue st (replicate 16 8) = Inr (nxt, Some TransitionResolved)"
    using st by (simp add: resolveIssue_def mutateStatus_def validStatus_def list_ex_iff)
  have "affected (\<lambda>r. is_issue 1 2 (replicate 64 CHR ''e'') r \<and> ir_revision r = 1) [sample_issue] = 1" using row by (simp add: affected_def)
  then have "\<exists>res db'. commit_status sample_command 90 nxt TransitionResolved ?db = Inr (res, db') \<and> sr_changed res"
    by (simp add: commit_status_def sample_command_def insert_transition_def sample_db_def record_audit_def)
  then show ?thesis using sample_command_valid cuts row st nxt
    by (simp add: changeIssueStatus_def sample_command_def authorize_actor_def loadIssueForStatus_def apply_action_def lift_lifecycle_def)
qed

theorem issue_status_compare_and_swap_witness:
  "\<exists>res db' t. changeIssueStatus sample_command 90 (sample_db\<lparr>db_issues := [sample_issue]\<rparr>) = Inr (res, db') \<and> db_transitions db' = [t] \<and> tr_revision t = 2 \<and>
    (\<forall>now res2 db2. changeIssueStatus sample_command now db' = Inr (res2, db2) \<longrightarrow> db2 = db')"
proof -
  obtain res db' where ch: "changeIssueStatus sample_command 90 (sample_db\<lparr>db_issues := [sample_issue]\<rparr>) = Inr (res, db')" "sr_changed res"
    using sample_resolved by blast
  have "int64 (sc_expected sample_command)" "sc_expected sample_command = 1" by (simp_all add: sample_command_def int64_def)
  then have "\<exists>t. db_transitions db' = [t] \<and> tr_revision t = 2" "\<forall>now res2 db2. changeIssueStatus sample_command now db' = Inr (res2, db2) \<longrightarrow> db2 = db'"
    using issue_status_compare_and_swap [OF ch] by (auto simp: sample_db_def)
  then show ?thesis using ch(1) by blast
qed

end
