(* ===== verification/JsonText.thy ===== *)
theory JsonText
  imports GoJson
begin

section \<open>JSON text of structures\<close>

text \<open>
  \<open>encoding/json\<close> writes the fields of a structure in the order of their declaration and reads them
  by name. \<open>printJson\<close> is that writer for a value whose members stand in order; its argument quotes a
  string: \<open>quote_string\<close> for an encoder with \<open>SetEscapeHTML(false)\<close>, \<open>marshalString\<close> for \<open>json.Marshal\<close>.
  \<open>parse_print\<close> says that the decoder reads back what was written.
\<close>

fun printJson :: "(string \<Rightarrow> string) \<Rightarrow> json \<Rightarrow> string" where
  "printJson q JNull = ''null''"
| "printJson q (JBool b) = (if b then ''true'' else ''false'')"
| "printJson q (JNum n) = n"
| "printJson q (JStr s) = q s"
| "printJson q (JArr vs) = CHR 0x5B # join_with CHR '','' (map (printJson q) vs) @ [CHR 0x5D]"
| "printJson q (JObj ms) = CHR 0x7B # join_with CHR '','' (map (\<lambda>(k, v). q k @ CHR '':'' # printJson q v) ms) @ [CHR 0x7D]"

definition quotes :: "(string \<Rightarrow> string) \<Rightarrow> bool" where
  "quotes q = (\<forall>s. utf8_valid s \<longrightarrow> (\<exists>body. q s = CHR 0x22 # body \<and> (\<forall>rest. read_string (body @ rest) = Some (s, rest))))"

lemma quotes_quote_string: "quotes quote_string"
  unfolding quotes_def
proof (intro allI impI)
  fix s assume s: "utf8_valid s"
  show "\<exists>body. quote_string s = CHR 0x22 # body \<and> (\<forall>rest. read_string (body @ rest) = Some (s, rest))"
    using read_escape_string [OF s] by (intro exI [of _ "escape_string s @ [CHR 0x22]"]) (simp add: quote_string_def)
qed

lemma quotes_marshalString: "quotes marshalString"
  unfolding quotes_def
proof (intro allI impI)
  fix s assume s: "utf8_valid s"
  show "\<exists>body. marshalString s = CHR 0x22 # body \<and> (\<forall>rest. read_string (body @ rest) = Some (s, rest))"
    using read_marshal [OF s] by (intro exI [of _ "concat (map html_byte (escape_string s)) @ [CHR 0x22]"]) (simp add: marshalString_def)
qed

fun height :: "json \<Rightarrow> nat" where
  "height (JArr vs) = Suc (fold max (map height vs) 0)"
| "height (JObj ms) = Suc (fold max (map (\<lambda>(k, v). height v) ms) 0)"
| "height _ = 0"

fun nodes :: "json \<Rightarrow> nat" where
  "nodes (JArr vs) = Suc (sum_list (map (\<lambda>v. Suc (nodes v)) vs))"
| "nodes (JObj ms) = Suc (sum_list (map (\<lambda>(k, v). Suc (nodes v)) ms))"
| "nodes _ = 1"

definition number_text :: "string \<Rightarrow> bool" where
  "number_text n = (number_literal n \<and> (\<forall>rest. delimited rest \<longrightarrow> read_number (n @ rest) = Some (n, rest)))"

fun printable :: "json \<Rightarrow> bool" where
  "printable (JNum n) = number_text n"
| "printable (JStr s) = utf8_valid s"
| "printable (JArr vs) = list_all printable vs"
| "printable (JObj ms) = (distinct (map fst ms) \<and> list_all (\<lambda>(k, v). utf8_valid k \<and> printable v) ms)"
| "printable JNull = True"
| "printable (JBool b) = True"

lemma print_first:
  assumes "quotes q" "printable v"
  shows "\<exists>c r. printJson q v = c # r \<and> c = first_byte v"
  using assms by (cases v) (auto simp: quotes_def number_text_def number_literal_def neq_Nil_conv)

lemma first_byte_plain: "printable v \<Longrightarrow> \<not> is_space (first_byte v) \<and> first_byte v \<noteq> CHR 0x5D \<and> first_byte v \<noteq> CHR 0x7D"
  by (cases v) (auto simp: is_space_def number_text_def number_literal_def digit_char_def)

lemma skip_space_id: "\<not> is_space c \<Longrightarrow> skip_space (c # r) = c # r"
  by (simp add: skip_space_def)

lemma plain_punctuation: "\<not> is_space CHR '',''" "\<not> is_space CHR '':''" "\<not> is_space CHR 0x5D" "\<not> is_space CHR 0x7D" "\<not> is_space CHR 0x5B" "\<not> is_space CHR 0x7B" "\<not> is_space CHR 0x22"
  by (simp_all add: is_space_def)

lemma fold_max_ge: "(x :: nat) \<in> set xs \<Longrightarrow> x \<le> fold max xs m" "m \<le> fold max xs (m :: nat)"
proof (induction xs arbitrary: m)
  case (Cons y ys)
  { case 1 then show ?case using Cons(1) [of "max y m"] Cons(2) [of "max y m"] by auto }
  { case 2 then show ?case using Cons(2) [of "max y m"] by simp }
qed simp_all

definition reads_back :: "(string \<Rightarrow> string) \<Rightarrow> nat \<Rightarrow> json \<Rightarrow> bool" where
  "reads_back q d v = (\<forall>f rest. nodes v \<le> f \<longrightarrow> delimited rest \<longrightarrow> parse_value f d (printJson q v @ rest) = Some (v, rest))"

lemma parse_print_elements:
  assumes "vs \<noteq> []" "\<And>v. v \<in> set vs \<Longrightarrow> reads_back q d v" "sum_list (map (\<lambda>v. Suc (nodes v)) vs) \<le> f"
  shows "parse_elements f d acc (join_with CHR '','' (map (printJson q) vs) @ CHR 0x5D # rest) = Some (JArr (acc @ vs), rest)"
  using assms
proof (induction vs arbitrary: f acc)
  case (Cons v vs)
  obtain f' where f: "f = Suc f'" using Cons.prems(3) by (cases f) auto
  show ?case
  proof (cases "vs = []")
    case True
    have "parse_value f' d (printJson q v @ CHR 0x5D # rest) = Some (v, CHR 0x5D # rest)"
      using Cons.prems(2) [of v] Cons.prems(3) f delimiters by (simp add: reads_back_def delimited_def)
    then show ?thesis using True by (simp add: f join_with_Cons skip_space_id plain_punctuation parse_elements.simps)
  next
    case False
    let ?r = "join_with CHR '','' (map (printJson q) vs) @ CHR 0x5D # rest"
    have "parse_value f' d (printJson q v @ CHR '','' # ?r) = Some (v, CHR '','' # ?r)"
      using Cons.prems(2) [of v] Cons.prems(3) f delimiters by (simp add: reads_back_def delimited_def)
    moreover have "parse_elements f' d (acc @ [v]) ?r = Some (JArr ((acc @ [v]) @ vs), rest)"
      by (rule Cons.IH [OF False]) (use Cons.prems(2,3) f in auto)
    ultimately show ?thesis using False by (simp add: f join_with_Cons skip_space_id plain_punctuation parse_elements.simps)
  qed
qed simp

lemma put_member_new: "k \<notin> set (map fst ms) \<Longrightarrow> put_member ms k v = ms @ [(k, v)]"
  by (induction ms k v rule: put_member.induct) auto

lemma parse_print_members:
  assumes "ms \<noteq> []" "quotes q" "\<And>k v. (k, v) \<in> set ms \<Longrightarrow> utf8_valid k \<and> reads_back q d v" "sum_list (map (\<lambda>(k, v). Suc (nodes v)) ms) \<le> f"
    "distinct (map fst (acc @ ms))"
  shows "parse_members f d acc (join_with CHR '','' (map (\<lambda>(k, v). q k @ CHR '':'' # printJson q v) ms) @ CHR 0x7D # rest) = Some (JObj (acc @ ms), rest)"
  using assms
proof (induction ms arbitrary: f acc)
  case (Cons m ms)
  obtain k v where m: "m = (k, v)" by (cases m)
  obtain f' where f: "f = Suc f'" using Cons.prems(4) m by (cases f) auto
  have kv: "utf8_valid k" "reads_back q d v" "nodes v \<le> f'" using Cons.prems(3) [of k v] Cons.prems(4) f by (auto simp: m)
  obtain body where q: "q k = CHR 0x22 # body" "\<And>rest. read_string (body @ rest) = Some (k, rest)" using Cons.prems(2) kv(1) by (auto simp: quotes_def)
  have put: "put_member acc k v = acc @ [(k, v)]" using Cons.prems(5) by (intro put_member_new) (auto simp: m)
  show ?case
  proof (cases "ms = []")
    case True
    have "parse_value f' d (printJson q v @ CHR 0x7D # rest) = Some (v, CHR 0x7D # rest)"
      using kv(2,3) delimiters by (simp add: reads_back_def delimited_def)
    then show ?thesis using True put by (simp add: f m join_with_Cons q skip_space_id plain_punctuation parse_members.simps)
  next
    case False
    let ?r = "join_with CHR '','' (map (\<lambda>(k, v). q k @ CHR '':'' # printJson q v) ms) @ CHR 0x7D # rest"
    have "parse_value f' d (printJson q v @ CHR '','' # ?r) = Some (v, CHR '','' # ?r)"
      using kv(2,3) delimiters by (simp add: reads_back_def delimited_def)
    moreover have "parse_members f' d (acc @ [(k, v)]) ?r = Some (JObj ((acc @ [(k, v)]) @ ms), rest)"
    proof (rule Cons.IH [OF False Cons.prems(2)])
      show "utf8_valid k' \<and> reads_back q d v'" if "(k', v') \<in> set ms" for k' v' using Cons.prems(3) [of k' v'] that by simp
      show "sum_list (map (\<lambda>(k, v). Suc (nodes v)) ms) \<le> f'" using Cons.prems(4) f by (simp add: m)
      show "distinct (map fst ((acc @ [(k, v)]) @ ms))" using Cons.prems(5) by (auto simp: m)
    qed
    ultimately show ?thesis using False put by (simp add: f m join_with_Cons q skip_space_id plain_punctuation parse_members.simps)
  qed
qed simp

lemma parse_array:
  assumes "quotes q" "vs \<noteq> []" "list_all printable vs" "\<And>v. v \<in> set vs \<Longrightarrow> reads_back q (Suc d) v" "d < maxNestingDepth" "nodes (JArr vs) \<le> f"
  shows "parse_value f d (printJson q (JArr vs) @ rest) = Some (JArr vs, rest)"
proof -
  obtain f' where f: "f = Suc f'" using assms(6) by (cases f) auto
  obtain v ws where vs: "vs = v # ws" using assms(2) by (cases vs) auto
  obtain c r where c: "printJson q v = c # r" "\<not> is_space c" "c \<noteq> CHR 0x5D"
    using print_first [OF assms(1), of v] first_byte_plain [of v] assms(3) vs by auto
  let ?r = "join_with CHR '','' (map (printJson q) vs) @ CHR 0x5D # rest"
  have "\<not> has_prefix (skip_space ?r) [CHR 0x5D]" using c by (simp add: vs join_with_Cons skip_space_id)
  moreover have "parse_elements f' (Suc d) [] ?r = Some (JArr ([] @ vs), rest)"
    by (rule parse_print_elements [OF assms(2,4)]) (use assms(6) f in simp_all)
  ultimately show ?thesis using assms(5) by (simp add: f skip_space_id plain_punctuation parse_value.simps)
qed

lemma parse_object:
  assumes "quotes q" "ms \<noteq> []" "\<And>k v. (k, v) \<in> set ms \<Longrightarrow> utf8_valid k \<and> reads_back q (Suc d) v" "distinct (map fst ms)" "d < maxNestingDepth" "nodes (JObj ms) \<le> f"
  shows "parse_value f d (printJson q (JObj ms) @ rest) = Some (JObj ms, rest)"
proof -
  obtain f' where f: "f = Suc f'" using assms(6) by (cases f) auto
  obtain k v ws where ms: "ms = (k, v) # ws" using assms(2) by (cases ms) auto
  have "utf8_valid k" using assms(3) [of k v] ms by simp
  then obtain body where q: "q k = CHR 0x22 # body" using assms(1) by (auto simp: quotes_def)
  let ?r = "join_with CHR '','' (map (\<lambda>(k, v). q k @ CHR '':'' # printJson q v) ms) @ CHR 0x7D # rest"
  have "\<not> has_prefix (skip_space ?r) [CHR 0x7D]" using q by (simp add: ms join_with_Cons skip_space_id plain_punctuation)
  moreover have "parse_members f' (Suc d) [] ?r = Some (JObj ([] @ ms), rest)"
    by (rule parse_print_members [OF assms(2,1,3)]) (use assms(4,6) f in simp_all)
  ultimately show ?thesis using assms(5) by (simp add: f skip_space_id plain_punctuation parse_value.simps)
qed

lemma parse_number:
  assumes "number_text n" "delimited rest"
  shows "parse_value (Suc f) d (n @ rest) = Some (JNum n, rest)"
proof -
  obtain c r where n: "n = c # r" "digit_char c \<or> c = CHR ''-''" using assms(1) by (cases n) (auto simp: number_text_def number_literal_def)
  have c: "\<not> is_space c" "c \<noteq> CHR 0x22" "c \<noteq> CHR 0x5B" "c \<noteq> CHR 0x7B" "c \<noteq> CHR ''n''" "c \<noteq> CHR ''t''" "c \<noteq> CHR ''f''"
    using n(2) by (auto simp: is_space_def digit_char_def)
  have "read_number (c # r @ rest) = Some (c # r, rest)" using assms n(1) by (simp add: number_text_def)
  then show ?thesis using c by (simp add: n(1) skip_space_id parse_value.simps)
qed

lemma parse_print:
  assumes "quotes q"
  shows "printable v \<Longrightarrow> d + height v \<le> maxNestingDepth \<Longrightarrow> reads_back q d v"
proof (induction v arbitrary: d rule: printable.induct)
  case (1 n)
  then have "parse_value f d (n @ rest) = Some (JNum n, rest)" if "Suc 0 \<le> f" "delimited rest" for f rest
    using that parse_number [of n rest "f - 1" d] by (cases f) simp_all
  then show ?case by (simp add: reads_back_def)
next
  case (2 s)
  obtain body where q: "q s = CHR 0x22 # body" "\<And>rest. read_string (body @ rest) = Some (s, rest)" using assms 2(1) by (auto simp: quotes_def)
  have "parse_value f d (q s @ rest) = Some (JStr s, rest)" if "Suc 0 \<le> f" for f rest
    using that q by (cases f) (simp_all add: skip_space_id plain_punctuation parse_value.simps)
  then show ?case by (simp add: reads_back_def)
next
  case (3 vs)
  have h: "d + 1 + height v \<le> maxNestingDepth" if "v \<in> set vs" for v
    using 3(3) fold_max_ge(1) [of "height v" "map height vs" 0] that by simp
  have d: "d < maxNestingDepth" using 3(3) by simp
  show ?case
  proof (cases "vs = []")
    case True
    have "parse_value f d (printJson q (JArr []) @ rest) = Some (JArr [], rest)" if "Suc 0 \<le> f" for f rest
      using that d by (cases f) (simp_all add: skip_space_id plain_punctuation parse_value.simps)
    then show ?thesis by (simp add: reads_back_def True)
  next
    case False
    have "\<And>v. v \<in> set vs \<Longrightarrow> reads_back q (Suc d) v" using 3(1,2) h by (simp add: list_all_iff)
    then show ?thesis using parse_array [OF assms False] 3(2) d by (simp add: reads_back_def del: printJson.simps nodes.simps)
  qed
next
  case (4 ms)
  have h: "d + 1 + height v \<le> maxNestingDepth" if "(k, v) \<in> set ms" for k v
  proof -
    have "height v \<in> set (map (\<lambda>(k, v). height v) ms)" using that by force
    then show ?thesis using 4(3) fold_max_ge(1) [of "height v" "map (\<lambda>(k, v). height v) ms" 0] by simp
  qed
  have d: "d < maxNestingDepth" using 4(3) by simp
  show ?case
  proof (cases "ms = []")
    case True
    have "parse_value f d (printJson q (JObj []) @ rest) = Some (JObj [], rest)" if "Suc 0 \<le> f" for f rest
      using that d by (cases f) (simp_all add: skip_space_id plain_punctuation parse_value.simps)
    then show ?thesis by (simp add: reads_back_def True)
  next
    case False
    have "utf8_valid k \<and> reads_back q (Suc d) v" if "(k, v) \<in> set ms" for k v
      using 4(1) [OF that refl] 4(2) h [OF that] that by (auto simp: list_all_iff)
    then show ?thesis using parse_object [OF assms False] 4(2) d by (simp add: reads_back_def del: printJson.simps nodes.simps)
  qed
next
  case 5
  have "parse_value f d (''null'' @ rest) = Some (JNull, rest)" if "Suc 0 \<le> f" for f rest
    using that by (cases f) (simp_all add: skip_space_def is_space_def parse_value.simps)
  then show ?case by (simp add: reads_back_def)
next
  case (6 b)
  have "parse_value f d ((if b then ''true'' else ''false'') @ rest) = Some (JBool b, rest)" if "Suc 0 \<le> f" for f rest
    using that by (cases f; cases b) (simp_all add: skip_space_def is_space_def parse_value.simps)
  then show ?case by (simp add: reads_back_def)
qed

theorem unmarshal_print:
  assumes "quotes q" "printable v" "height v \<le> maxNestingDepth"
  shows "unmarshalJson (printJson q v) = Some v"
proof -
  let ?s = "printJson q v"
  let ?f = "max (2 * length ?s) (nodes v)"
  have "reads_back q 0 v" using parse_print [OF assms(1,2), of 0] assms(3) by simp
  then have "parse_value ?f 0 (?s @ []) = Some (v, [])" unfolding reads_back_def by (simp add: delimited_def del: append_Nil2)
  moreover have "parse_value ?f 0 ?s = parse_value (2 * length ?s) 0 ?s" by (rule parse_value_fuel) simp
  ultimately show ?thesis by (simp add: unmarshalJson_def skip_space_def)
qed

subsection \<open>Integers\<close>

lemma of_char_zero_digit: "(of_char CHR ''0'' :: int) = 48"
  by simp

lemma show_pos_head: "10 \<le> n \<Longrightarrow> hd (show_pos n) \<noteq> CHR ''0''"
proof (induction n rule: show_pos.induct)
  case (1 n)
  have ne: "show_pos (n div 10) \<noteq> []" using show_pos_digits [of "n div 10"] 1(2) by simp
  show ?case
  proof (cases "10 \<le> n div 10")
    case True
    then have "hd (show_pos (n div 10)) \<noteq> CHR ''0''" using 1 by simp
    then show ?thesis using ne unfolding show_pos_big [OF 1(2)] by simp
  next
    case False
    then have s: "show_pos (n div 10) = [char_of (n div 10 + 48)]" and r: "1 \<le> n div 10" "n div 10 < 10" using 1(2) by (simp_all add: show_pos_small)
    have "(of_char (char_of (n div 10 + 48) :: char) :: int) = n div 10 + 48" by (rule char_of_int_plus) (use r in simp_all)
    then have "char_of (n div 10 + 48) \<noteq> CHR ''0''" using r by (metis add_cancel_left_left not_one_le_zero of_char_zero_digit)
    then show ?thesis unfolding show_pos_big [OF 1(2)] s by simp
  qed
qed

lemma read_integer_show:
  assumes "0 \<le> n" "delimited rest"
  shows "read_integer_part (show_pos n @ rest) = Some (show_pos n, rest)"
proof -
  have d: "list_all digit_char (show_pos n)" "show_pos n \<noteq> []" using show_pos_digits [OF assms(1)] by auto
  have stop: "takeWhile digit_char rest = []" "dropWhile digit_char rest = rest"
    using assms(2) by (cases rest; simp add: delimited_def number_char_def)+
  have t: "take_digits (show_pos n @ rest) = (show_pos n, rest)"
    using d stop by (simp add: take_digits_def list_all_iff)
  show ?thesis
  proof (cases "n < 10")
    case True
    then have s: "show_pos n = [char_of (n + 48)]" by (simp add: show_pos_small)
    then show ?thesis using t d by (simp add: read_integer_part_def)
  next
    case False
    then obtain c r where c: "show_pos n = c # r" "c \<noteq> CHR ''0''" using show_pos_head [of n] d(2) by (cases "show_pos n") auto
    then show ?thesis using t d by (simp add: read_integer_part_def)
  qed
qed

lemma number_text_showInt: "number_text (showInt n)"
proof -
  have stop: "read_fraction rest = Some ([], rest)" "read_exponent rest = Some ([], rest)" if "delimited rest" for rest
    using that by (cases rest; simp add: delimited_def number_char_def read_fraction_def read_exponent_def)+
  have p: "read_number (show_pos m @ rest) = Some (show_pos m, rest)" if m: "0 \<le> m" "delimited rest" for m rest
  proof -
    obtain c r where c: "show_pos m = c # r" "digit_char c" using show_pos_digits [OF m(1)] by (cases "show_pos m") auto
    then have "c \<noteq> CHR ''-''" by (auto simp: digit_char_def)
    then show ?thesis using read_integer_show [OF m] stop [OF m(2)] c by (simp add: read_number_def)
  qed
  have neg: "read_number (CHR ''-'' # show_pos m @ rest) = Some (CHR ''-'' # show_pos m, rest)" if m: "0 \<le> m" "delimited rest" for m rest
    using read_integer_show [OF m] stop [OF m(2)] by (simp add: read_number_def)
  have "number_literal (showInt n)"
    using show_pos_digits [of "\<bar>n\<bar>"]
    by (cases "show_pos \<bar>n\<bar>"; cases "n < 0") (auto simp: showInt_def number_literal_def number_char_def list_all_iff)
  then show ?thesis using p neg by (auto simp: number_text_def showInt_def)
qed

end
