(* ===== verification/GoStruct.thy ===== *)
theory GoStruct
  imports JsonText "HOL-Library.Monad_Syntax"
begin

section \<open>JSON of Go structs\<close>

text \<open>
  How \<open>encoding/json\<close> maps structs to objects: integers and strings as members, members in the order of
  the fields when encoding, and the two ways a decoder meets an object.
\<close>

definition jint :: "int \<Rightarrow> json" where
  "jint n = JNum (showInt n)"

subsection \<open>Decoding members in order\<close>

definition json_fields :: "string list \<Rightarrow> json \<Rightarrow> json list option" where
  "json_fields ks v = (case v of JObj ms \<Rightarrow> if map fst ms = ks then Some (map snd ms) else None | _ \<Rightarrow> None)"

definition int_of :: "json \<Rightarrow> int option" where
  "int_of v = (case v of JNum n \<Rightarrow> (case bigSetString n of Some i \<Rightarrow> if int64 i then Some i else None | None \<Rightarrow> None) | _ \<Rightarrow> None)"

definition str_of :: "json \<Rightarrow> string option" where
  "str_of v = (case v of JStr s \<Rightarrow> Some s | _ \<Rightarrow> None)"

subsection \<open>Decoding members in any order\<close>

text \<open>
  Decoding an object into a struct: a member sets the field of its name, or else the first field
  whose name is equal up to case folding; an unknown member is an error when the decoder disallows
  unknown fields and is skipped otherwise; a member that is \<open>null\<close>
  leaves the field alone (or makes a pointer nil). Of members with the same name the reader keeps
  the last.
\<close>

definition fold_rune :: "int \<Rightarrow> int" where
  "fold_rune r = (if 97 \<le> r \<and> r \<le> 122 then r - 32 else if r = 0x17F then 0x53 else if r = 0x212A then 0x4B else r)"

definition find_field :: "string list \<Rightarrow> string \<Rightarrow> string option" where
  "find_field names k = (if k \<in> set names then Some k else find (\<lambda>n. map fold_rune (runes n) = map fold_rune (runes k)) names)"

definition decode_object :: "bool \<Rightarrow> string list \<Rightarrow> (string \<Rightarrow> json \<Rightarrow> 'a \<Rightarrow> 'a option) \<Rightarrow> 'a \<Rightarrow> json \<Rightarrow> 'a option" where
  "decode_object strict names set_field zero v =
    (case v of JNull \<Rightarrow> Some zero
     | JObj ms \<Rightarrow> foldl (\<lambda>r (k, x). Option.bind r (\<lambda>s. case find_field names k of None \<Rightarrow> if strict then None else Some s | Some f \<Rightarrow> set_field f x s)) (Some zero) ms
     | _ \<Rightarrow> None)"

abbreviation decode_struct :: "string list \<Rightarrow> (string \<Rightarrow> json \<Rightarrow> 'a \<Rightarrow> 'a option) \<Rightarrow> 'a \<Rightarrow> json \<Rightarrow> 'a option" where
  "decode_struct \<equiv> decode_object True"

definition put_int :: "json \<Rightarrow> (int \<Rightarrow> 'a) \<Rightarrow> 'a \<Rightarrow> 'a option" where
  "put_int x f s = (if x = JNull then Some s else map_option f (int_of x))"

definition put_str :: "json \<Rightarrow> (string \<Rightarrow> 'a) \<Rightarrow> 'a \<Rightarrow> 'a option" where
  "put_str x f s = (if x = JNull then Some s else map_option f (str_of x))"

definition put_uint16 :: "json \<Rightarrow> (int \<Rightarrow> 'a) \<Rightarrow> 'a \<Rightarrow> 'a option" where
  "put_uint16 x f s = (if x = JNull then Some s
    else case x of JNum n \<Rightarrow> if has_prefix n ''-'' then None else (case int_of x of Some i \<Rightarrow> if i \<le> 65535 then Some (f i) else None | None \<Rightarrow> None) | _ \<Rightarrow> None)"

definition put_pointer :: "json \<Rightarrow> (string option \<Rightarrow> 'a) \<Rightarrow> 'a option" where
  "put_pointer x f = (if x = JNull then Some (f None) else map_option (\<lambda>v. f (Some v)) (str_of x))"

subsection \<open>Facts\<close>

lemma int_of_jint: "int64 n \<Longrightarrow> int_of (jint n) = Some n"
  by (simp add: int_of_def jint_def)

lemma str_of_JStr: "str_of (JStr s) = Some s"
  by (simp add: str_of_def)

lemma printable_jint: "printable (jint n)"
  by (simp add: jint_def number_text_showInt)

lemma printable_object:
  assumes "distinct (map fst ms)" "list_all utf8_valid (map fst ms)" "list_all printable (map snd ms)"
  shows "printable (JObj ms)"
  using assms by (auto simp: list_all_iff)

lemma height_jint: "height (jint n) = 0" "height (JStr s) = 0"
  by (simp_all add: jint_def)

lemma fold_max_le: "(\<And>x. x \<in> set xs \<Longrightarrow> x \<le> n) \<Longrightarrow> m \<le> n \<Longrightarrow> fold max xs m \<le> (n :: nat)"
  by (induction xs arbitrary: m) auto

end
