(* ===== verification/Manifest.thy ===== *)
theory Manifest
  imports GoStruct Records ControlDB
begin

section \<open>Output manifests\<close>

text \<open>
  \<open>internal/model/publication.go\<close> (the manifest types, the canonical root) and
  \<open>internal/storage/manifest.go\<close> (the pager that cuts the bundles of an output into parts of bounded
  size). A slice of the source is an optional list: \<open>None\<close> is the nil slice, which JSON writes as
  \<open>null\<close>.
\<close>

abbreviation OutputManifestVersion :: int where "OutputManifestVersion \<equiv> 1"
abbreviation MaxManifestHeaderBytes :: int where "MaxManifestHeaderBytes \<equiv> 65536"
abbreviation MaxManifestPartBytes :: int where "MaxManifestPartBytes \<equiv> 65536"
abbreviation MaxManifestBytes :: int where "MaxManifestBytes \<equiv> 33554432"
abbreviation FileBlockBytes :: int where "FileBlockBytes \<equiv> 1048576"

record output_header =
  oh_version :: int
  oh_output :: string
  oh_job :: string
  oh_tenant :: int
  oh_lane :: int
  oh_seq :: int
  oh_journal :: string
  oh_receipts :: string
  oh_identity :: string
  oh_occurrences :: string
  oh_gversion :: int
  oh_records :: int
  oh_errors :: int
  oh_bundles :: int

record part_ref =
  rf_index :: int
  rf_sha :: string

record output_root =
  rt_version :: int
  rt_header :: output_header
  rt_parts :: "part_ref list option"

record file_block =
  fb_index :: int
  fb_sha :: string

record file_manifest =
  fm_file :: string
  fm_intent :: string
  fm_role :: string
  fm_bytes :: int
  fm_sha :: string
  fm_rows :: int
  fm_min_event :: int
  fm_max_event :: int
  fm_min_received :: int
  fm_max_received :: int
  fm_min_seq :: int
  fm_max_seq :: int
  fm_blocks :: "file_block list option"

record bundle_manifest =
  bm_bundle :: string
  bm_day :: string
  bm_kind :: string
  bm_seq_min :: int
  bm_seq_max :: int
  bm_rows :: int
  bm_identity :: string
  bm_projects :: "int list option"
  bm_analytics :: file_manifest
  bm_payload :: file_manifest

record output_part =
  op_version :: int
  op_index :: int
  op_bundles :: "bundle_manifest list option"

definition elems :: "'a list option \<Rightarrow> 'a list" where
  "elems s = (case s of None \<Rightarrow> [] | Some xs \<Rightarrow> xs)"

lemma elems_simps [simp]: "elems None = []" "elems (Some xs) = xs"
  by (simp_all add: elems_def)

subsection \<open>JSON of the types\<close>

definition jslice :: "('a \<Rightarrow> json) \<Rightarrow> 'a list option \<Rightarrow> json" where
  "jslice f s = (case s of None \<Rightarrow> JNull | Some xs \<Rightarrow> JArr (map f xs))"

definition header_json :: "output_header \<Rightarrow> json" where
  "header_json h = JObj [(''version'', jint (oh_version h)), (''output_id'', JStr (oh_output h)), (''job_id'', JStr (oh_job h)), (''tenant_id'', jint (oh_tenant h)),
    (''lane_id'', jint (oh_lane h)), (''batch_seq'', jint (oh_seq h)), (''journal_sha256'', JStr (oh_journal h)), (''receipt_set_sha256'', JStr (oh_receipts h)),
    (''selected_identity_sha256'', JStr (oh_identity h)), (''occurrence_summary_sha256'', JStr (oh_occurrences h)), (''grouping_version'', jint (oh_gversion h)),
    (''selected_record_count'', jint (oh_records h)), (''selected_error_count'', jint (oh_errors h)), (''bundle_count'', jint (oh_bundles h))]"

definition part_ref_json :: "part_ref \<Rightarrow> json" where
  "part_ref_json r = JObj [(''index'', jint (rf_index r)), (''sha256'', JStr (rf_sha r))]"

definition root_json :: "output_root \<Rightarrow> json" where
  "root_json r = JObj [(''version'', jint (rt_version r)), (''header'', header_json (rt_header r)), (''parts'', jslice part_ref_json (rt_parts r))]"

definition block_json :: "file_block \<Rightarrow> json" where
  "block_json b = JObj [(''index'', jint (fb_index b)), (''sha256'', JStr (fb_sha b))]"

definition file_json :: "file_manifest \<Rightarrow> json" where
  "file_json f = JObj [(''file_id'', JStr (fm_file f)), (''intent_id'', JStr (fm_intent f)), (''role'', JStr (fm_role f)), (''bytes'', jint (fm_bytes f)),
    (''sha256'', JStr (fm_sha f)), (''row_count'', jint (fm_rows f)), (''min_event_time_us'', jint (fm_min_event f)), (''max_event_time_us'', jint (fm_max_event f)),
    (''min_received_time_us'', jint (fm_min_received f)), (''max_received_time_us'', jint (fm_max_received f)), (''min_batch_seq'', jint (fm_min_seq f)),
    (''max_batch_seq'', jint (fm_max_seq f)), (''blocks'', jslice block_json (fm_blocks f))]"

definition bundle_json :: "bundle_manifest \<Rightarrow> json" where
  "bundle_json b = JObj [(''bundle_id'', JStr (bm_bundle b)), (''event_day'', JStr (bm_day b)), (''kind'', JStr (bm_kind b)), (''input_seq_min'', jint (bm_seq_min b)),
    (''input_seq_max'', jint (bm_seq_max b)), (''row_count'', jint (bm_rows b)), (''identity_sha256'', JStr (bm_identity b)), (''project_ids'', jslice jint (bm_projects b)),
    (''analytics'', file_json (bm_analytics b)), (''payload'', file_json (bm_payload b))]"

definition part_json :: "output_part \<Rightarrow> json" where
  "part_json p = JObj [(''version'', jint (op_version p)), (''index'', jint (op_index p)), (''bundles'', jslice bundle_json (op_bundles p))]"

text \<open>\<open>json.Marshal\<close> of a part.\<close>

definition marshalPart :: "output_part \<Rightarrow> string" where
  "marshalPart p = printJson marshalString (part_json p)"

subsection \<open>Reading them back\<close>

text \<open>
  The stored texts are accepted only when encoding the decoded value gives the stored text again.
  So it does not matter how the decoder treats a text that is not the encoding of any value (other
  field orders, letter cases, repeated or missing fields): the comparison rejects it. The model
  decodes texts with the fields in order and rejects the others at once.
\<close>

definition slice_of :: "(json \<Rightarrow> 'a option) \<Rightarrow> json \<Rightarrow> 'a list option option" where
  "slice_of f v = (case v of JNull \<Rightarrow> Some None | JArr vs \<Rightarrow> map_option Some (those (map f vs)) | _ \<Rightarrow> None)"

definition header_keys :: "string list" where
  "header_keys = [''version'', ''output_id'', ''job_id'', ''tenant_id'', ''lane_id'', ''batch_seq'', ''journal_sha256'', ''receipt_set_sha256'',
    ''selected_identity_sha256'', ''occurrence_summary_sha256'', ''grouping_version'', ''selected_record_count'', ''selected_error_count'', ''bundle_count'']"

definition header_of :: "json \<Rightarrow> output_header option" where
  "header_of v = do {
    xs \<leftarrow> json_fields header_keys v;
    a \<leftarrow> int_of (xs ! 0); b \<leftarrow> str_of (xs ! 1); c \<leftarrow> str_of (xs ! 2); d \<leftarrow> int_of (xs ! 3); e \<leftarrow> int_of (xs ! 4); f \<leftarrow> int_of (xs ! 5);
    g \<leftarrow> str_of (xs ! 6); h \<leftarrow> str_of (xs ! 7); i \<leftarrow> str_of (xs ! 8); j \<leftarrow> str_of (xs ! 9); k \<leftarrow> int_of (xs ! 10); l \<leftarrow> int_of (xs ! 11);
    m \<leftarrow> int_of (xs ! 12); n \<leftarrow> int_of (xs ! 13);
    Some \<lparr>oh_version = a, oh_output = b, oh_job = c, oh_tenant = d, oh_lane = e, oh_seq = f, oh_journal = g, oh_receipts = h, oh_identity = i,
      oh_occurrences = j, oh_gversion = k, oh_records = l, oh_errors = m, oh_bundles = n\<rparr> }"

definition part_ref_of :: "json \<Rightarrow> part_ref option" where
  "part_ref_of v = do {
    xs \<leftarrow> json_fields [''index'', ''sha256''] v; a \<leftarrow> int_of (xs ! 0); b \<leftarrow> str_of (xs ! 1);
    Some \<lparr>rf_index = a, rf_sha = b\<rparr> }"

definition root_of :: "json \<Rightarrow> output_root option" where
  "root_of v = do {
    xs \<leftarrow> json_fields [''version'', ''header'', ''parts''] v; a \<leftarrow> int_of (xs ! 0); b \<leftarrow> header_of (xs ! 1); c \<leftarrow> slice_of part_ref_of (xs ! 2);
    Some \<lparr>rt_version = a, rt_header = b, rt_parts = c\<rparr> }"

definition block_of :: "json \<Rightarrow> file_block option" where
  "block_of v = do {
    xs \<leftarrow> json_fields [''index'', ''sha256''] v; a \<leftarrow> int_of (xs ! 0); b \<leftarrow> str_of (xs ! 1);
    Some \<lparr>fb_index = a, fb_sha = b\<rparr> }"

definition file_keys :: "string list" where
  "file_keys = [''file_id'', ''intent_id'', ''role'', ''bytes'', ''sha256'', ''row_count'', ''min_event_time_us'', ''max_event_time_us'', ''min_received_time_us'',
    ''max_received_time_us'', ''min_batch_seq'', ''max_batch_seq'', ''blocks'']"

definition file_of :: "json \<Rightarrow> file_manifest option" where
  "file_of v = do {
    xs \<leftarrow> json_fields file_keys v;
    a \<leftarrow> str_of (xs ! 0); b \<leftarrow> str_of (xs ! 1); c \<leftarrow> str_of (xs ! 2); d \<leftarrow> int_of (xs ! 3); e \<leftarrow> str_of (xs ! 4); f \<leftarrow> int_of (xs ! 5);
    g \<leftarrow> int_of (xs ! 6); h \<leftarrow> int_of (xs ! 7); i \<leftarrow> int_of (xs ! 8); j \<leftarrow> int_of (xs ! 9); k \<leftarrow> int_of (xs ! 10); l \<leftarrow> int_of (xs ! 11);
    m \<leftarrow> slice_of block_of (xs ! 12);
    Some \<lparr>fm_file = a, fm_intent = b, fm_role = c, fm_bytes = d, fm_sha = e, fm_rows = f, fm_min_event = g, fm_max_event = h, fm_min_received = i,
      fm_max_received = j, fm_min_seq = k, fm_max_seq = l, fm_blocks = m\<rparr> }"

definition bundle_keys :: "string list" where
  "bundle_keys = [''bundle_id'', ''event_day'', ''kind'', ''input_seq_min'', ''input_seq_max'', ''row_count'', ''identity_sha256'', ''project_ids'', ''analytics'', ''payload'']"

definition bundle_of :: "json \<Rightarrow> bundle_manifest option" where
  "bundle_of v = do {
    xs \<leftarrow> json_fields bundle_keys v;
    a \<leftarrow> str_of (xs ! 0); b \<leftarrow> str_of (xs ! 1); c \<leftarrow> str_of (xs ! 2); d \<leftarrow> int_of (xs ! 3); e \<leftarrow> int_of (xs ! 4); f \<leftarrow> int_of (xs ! 5);
    g \<leftarrow> str_of (xs ! 6); h \<leftarrow> slice_of int_of (xs ! 7); i \<leftarrow> file_of (xs ! 8); j \<leftarrow> file_of (xs ! 9);
    Some \<lparr>bm_bundle = a, bm_day = b, bm_kind = c, bm_seq_min = d, bm_seq_max = e, bm_rows = f, bm_identity = g, bm_projects = h, bm_analytics = i, bm_payload = j\<rparr> }"

definition part_of :: "json \<Rightarrow> output_part option" where
  "part_of v = do {
    xs \<leftarrow> json_fields [''version'', ''index'', ''bundles''] v; a \<leftarrow> int_of (xs ! 0); b \<leftarrow> int_of (xs ! 1); c \<leftarrow> slice_of bundle_of (xs ! 2);
    Some \<lparr>op_version = a, op_index = b, op_bundles = c\<rparr> }"

text \<open>\<open>strictControlJSON\<close>: one value, nothing but space after it, only the fields of the type.\<close>

definition strictControlJSON :: "(json \<Rightarrow> 'a option) \<Rightarrow> string \<Rightarrow> 'a option" where
  "strictControlJSON f s = Option.bind (unmarshalJson s) f"

subsection \<open>The canonical root\<close>

datatype manifest_error = InvalidHeader | InvalidDigest | EmptyManifest | PartRefs | RootTooLarge | NotAbsolute | NotEmpty | PagerClosed
  | InvalidBundle | InvalidFile | PartOrder | BundleTooLarge | MetadataLimit | WriteFailed | CountsDisagree

definition bytesToLowerASCII :: "string \<Rightarrow> string" where
  "bytesToLowerASCII s = map (\<lambda>c. if 65 \<le> (of_char c :: int) \<and> (of_char c :: int) \<le> 70 then char_of (of_char c + 32 :: int) else c) s"

definition validManifestSHA :: "string \<Rightarrow> bool" where
  "validManifestSHA v = (length v = 64 \<and> hex_decode v \<noteq> None \<and> v = bytesToLowerASCII v)"

definition valid_header :: "output_root \<Rightarrow> bool" where
  "valid_header r = (let h = rt_header r in rt_version r = OutputManifestVersion \<and> oh_version h = OutputManifestVersion \<and> oh_output h \<noteq> [] \<and> oh_job h \<noteq> [] \<and>
    0 < oh_tenant h \<and> 0 \<le> oh_lane h \<and> oh_lane h < LaneCount \<and> 0 < oh_seq h \<and> 0 < oh_gversion h \<and> 0 \<le> oh_records h \<and> 0 \<le> oh_errors h \<and>
    oh_errors h \<le> oh_records h \<and> 0 \<le> oh_bundles h)"

definition refs_ok :: "part_ref list \<Rightarrow> bool" where
  "refs_ok ps = list_all (\<lambda>(i, p). rf_index p = int i \<and> validManifestSHA (rf_sha p)) (enumerate 0 ps)"

definition rootCanonicalJSON :: "output_root \<Rightarrow> manifest_error + string" where
  "rootCanonicalJSON r =
    (let h = rt_header r in
     if \<not> valid_header r then Inl InvalidHeader
     else if \<not> list_all validManifestSHA [oh_journal h, oh_receipts h, oh_identity h, oh_occurrences h] then Inl InvalidDigest
     else if oh_bundles h = 0 \<and> (oh_records h \<noteq> 0 \<or> elems (rt_parts r) \<noteq> []) then Inl EmptyManifest
     else if \<not> refs_ok (elems (rt_parts r)) then Inl PartRefs
     else let encoded = printJson quote_string (root_json r) in
       if int (length encoded) > MaxManifestHeaderBytes then Inl RootTooLarge else Inr encoded)"

definition rootSHA256 :: "output_root \<Rightarrow> manifest_error + string" where
  "rootSHA256 r = bindR (rootCanonicalJSON r) (\<lambda>encoded. Inr (sha256_hex encoded))"

subsection \<open>Decoding undoes encoding\<close>

definition slice_ok :: "('a \<Rightarrow> bool) \<Rightarrow> 'a list option \<Rightarrow> bool" where
  "slice_ok P s = list_all P (elems s)"

definition header_ok :: "output_header \<Rightarrow> bool" where
  "header_ok h = (list_all int64 [oh_version h, oh_tenant h, oh_lane h, oh_seq h, oh_gversion h, oh_records h, oh_errors h, oh_bundles h] \<and>
    list_all utf8_valid [oh_output h, oh_job h, oh_journal h, oh_receipts h, oh_identity h, oh_occurrences h])"

definition part_ref_ok :: "part_ref \<Rightarrow> bool" where
  "part_ref_ok r = (int64 (rf_index r) \<and> utf8_valid (rf_sha r))"

definition root_ok :: "output_root \<Rightarrow> bool" where
  "root_ok r = (int64 (rt_version r) \<and> header_ok (rt_header r) \<and> slice_ok part_ref_ok (rt_parts r))"

definition block_ok :: "file_block \<Rightarrow> bool" where
  "block_ok b = (int64 (fb_index b) \<and> utf8_valid (fb_sha b))"

definition file_ok :: "file_manifest \<Rightarrow> bool" where
  "file_ok f = (list_all int64 [fm_bytes f, fm_rows f, fm_min_event f, fm_max_event f, fm_min_received f, fm_max_received f, fm_min_seq f, fm_max_seq f] \<and>
    list_all utf8_valid [fm_file f, fm_intent f, fm_role f, fm_sha f] \<and> slice_ok block_ok (fm_blocks f))"

definition bundle_ok :: "bundle_manifest \<Rightarrow> bool" where
  "bundle_ok b = (list_all int64 [bm_seq_min b, bm_seq_max b, bm_rows b] \<and> list_all utf8_valid [bm_bundle b, bm_day b, bm_kind b, bm_identity b] \<and>
    slice_ok int64 (bm_projects b) \<and> file_ok (bm_analytics b) \<and> file_ok (bm_payload b))"

definition part_ok :: "output_part \<Rightarrow> bool" where
  "part_ok p = (int64 (op_version p) \<and> int64 (op_index p) \<and> slice_ok bundle_ok (op_bundles p))"

named_theorems manifest_json \<open>decoding a field of an encoded manifest\<close>

declare int_of_jint [manifest_json] str_of_JStr [manifest_json]

lemma those_map: "list_all (\<lambda>x. f (g x) = Some x) xs \<Longrightarrow> those (map (\<lambda>x. f (g x)) xs) = Some xs"
  by (induction xs) auto

lemma slice_of_jslice:
  assumes "slice_ok P s" "\<And>x. P x \<Longrightarrow> f (g x) = Some x"
  shows "slice_of f (jslice g s) = Some s"
  using assms those_map [of f g] by (cases s) (auto simp: slice_of_def jslice_def slice_ok_def list_all_iff comp_def)

lemma header_of_json [manifest_json]: "header_ok h \<Longrightarrow> header_of (header_json h) = Some h"
  by (simp add: header_ok_def header_of_def header_json_def json_fields_def header_keys_def manifest_json)

lemma part_ref_of_json [manifest_json]: "part_ref_ok r \<Longrightarrow> part_ref_of (part_ref_json r) = Some r"
  by (simp add: part_ref_ok_def part_ref_of_def part_ref_json_def json_fields_def manifest_json)

lemma root_of_json: "root_ok r \<Longrightarrow> root_of (root_json r) = Some r"
  using slice_of_jslice [of part_ref_ok "rt_parts r" part_ref_of part_ref_json]
  by (simp add: root_ok_def root_of_def root_json_def json_fields_def manifest_json)

lemma block_of_json [manifest_json]: "block_ok b \<Longrightarrow> block_of (block_json b) = Some b"
  by (simp add: block_ok_def block_of_def block_json_def json_fields_def manifest_json)

lemma file_of_json [manifest_json]: "file_ok f \<Longrightarrow> file_of (file_json f) = Some f"
  using slice_of_jslice [of block_ok "fm_blocks f" block_of block_json]
  by (simp add: file_ok_def file_of_def file_json_def json_fields_def file_keys_def manifest_json)

lemma bundle_of_json [manifest_json]: "bundle_ok b \<Longrightarrow> bundle_of (bundle_json b) = Some b"
  using slice_of_jslice [of int64 "bm_projects b" int_of jint]
  by (simp add: bundle_ok_def bundle_of_def bundle_json_def json_fields_def bundle_keys_def manifest_json)

lemma part_of_json: "part_ok p \<Longrightarrow> part_of (part_json p) = Some p"
  using slice_of_jslice [of bundle_ok "op_bundles p" bundle_of bundle_json]
  by (simp add: part_ok_def part_of_def part_json_def json_fields_def manifest_json)

named_theorems manifest_print \<open>the parts of a manifest print as JSON that parses\<close>

declare printable_jint [manifest_print]

lemma printable_jslice: "slice_ok P s \<Longrightarrow> (\<And>x. P x \<Longrightarrow> printable (g x)) \<Longrightarrow> printable (jslice g s)"
  by (cases s) (auto simp: jslice_def slice_ok_def list_all_iff)

lemma printable_header [manifest_print]: "header_ok h \<Longrightarrow> printable (header_json h)"
  unfolding header_json_def
  by (rule printable_object) (simp_all add: header_ok_def manifest_print)

lemma printable_part_ref [manifest_print]: "part_ref_ok r \<Longrightarrow> printable (part_ref_json r)"
  unfolding part_ref_json_def by (rule printable_object) (simp_all add: part_ref_ok_def manifest_print)

lemma printable_root: "root_ok r \<Longrightarrow> printable (root_json r)"
  unfolding root_json_def
  by (rule printable_object) (simp_all add: root_ok_def manifest_print printable_jslice [of part_ref_ok])

lemma printable_block [manifest_print]: "block_ok b \<Longrightarrow> printable (block_json b)"
  unfolding block_json_def by (rule printable_object) (simp_all add: block_ok_def manifest_print)

lemma printable_file [manifest_print]: "file_ok f \<Longrightarrow> printable (file_json f)"
  unfolding file_json_def
  by (rule printable_object) (simp_all add: file_ok_def manifest_print printable_jslice [of block_ok])

lemma printable_bundle [manifest_print]: "bundle_ok b \<Longrightarrow> printable (bundle_json b)"
  unfolding bundle_json_def
  by (rule printable_object) (simp_all add: bundle_ok_def manifest_print printable_jslice [of int64])

lemma printable_part: "part_ok p \<Longrightarrow> printable (part_json p)"
  unfolding part_json_def
  by (rule printable_object) (simp_all add: part_ok_def manifest_print printable_jslice [of bundle_ok])

named_theorems manifest_height \<open>nesting depth of the manifests\<close>

declare height_jint [manifest_height]

lemma height_jslice: "(\<And>x. height (g x) \<le> n) \<Longrightarrow> height (jslice g s) \<le> Suc n"
  by (cases s) (auto simp: jslice_def intro!: fold_max_le)

lemma height_header: "height (header_json h) = 1" and height_part_ref: "height (part_ref_json r) = 1" and height_block: "height (block_json b) = 1"
  by (simp_all add: header_json_def part_ref_json_def block_json_def manifest_height)

lemma height_file: "height (file_json f) \<le> 3"
  using height_jslice [of block_json 1 "fm_blocks f"] by (simp add: file_json_def manifest_height height_block)

lemma height_bundle: "height (bundle_json b) \<le> 4"
  using height_jslice [of jint 0 "bm_projects b"] height_file [of "bm_analytics b"] height_file [of "bm_payload b"]
  by (simp add: bundle_json_def manifest_height)

lemma height_root: "height (root_json r) \<le> 3"
  using height_jslice [of part_ref_json 1 "rt_parts r"] by (simp add: root_json_def manifest_height height_header height_part_ref)

lemma height_part: "height (part_json p) \<le> 6"
  using height_jslice [of bundle_json 4 "op_bundles p"] height_bundle by (simp add: part_json_def manifest_height)

lemma strict_root: "root_ok r \<Longrightarrow> strictControlJSON root_of (printJson quote_string (root_json r)) = Some r"
  using unmarshal_print [OF quotes_quote_string printable_root [of r]] height_root [of r] root_of_json [of r] by (simp add: strictControlJSON_def)

lemma strict_part: "part_ok p \<Longrightarrow> strictControlJSON part_of (marshalPart p) = Some p"
  using unmarshal_print [OF quotes_marshalString printable_part [of p]] height_part [of p] part_of_json [of p]
  by (simp add: strictControlJSON_def marshalPart_def)

text \<open>
  C26: the canonical root of an output determines it. Every root that has a canonical encoding (of
  at most 64 KiB, with valid digests and contiguous part references) is read back from it by the
  strict decoder, so two such roots with the same canonical bytes are the same root.
\<close>

theorem manifest_root_round_trip:
  assumes "rootCanonicalJSON r = Inr encoded" "root_ok r"
  shows "strictControlJSON root_of encoded = Some r \<and> int (length encoded) \<le> MaxManifestHeaderBytes \<and> refs_ok (elems (rt_parts r)) \<and>
    (\<forall>r'. root_ok r' \<and> rootCanonicalJSON r' = Inr encoded \<longrightarrow> r' = r)"
proof -
  have enc: "encoded = printJson quote_string (root_json r) \<and> int (length encoded) \<le> MaxManifestHeaderBytes \<and> refs_ok (elems (rt_parts r))"
    if "rootCanonicalJSON r = Inr encoded" for r using that by (auto simp: rootCanonicalJSON_def Let_def split: if_splits)
  have "r' = r" if "root_ok r'" "rootCanonicalJSON r' = Inr encoded" for r'
    using strict_root [OF that(1)] strict_root [OF assms(2)] enc [OF that(2)] enc [OF assms(1)] by simp
  then show ?thesis using strict_root [OF assms(2)] enc [OF assms(1)] by auto
qed

definition sample_root :: output_root where
  "sample_root = \<lparr>rt_version = 1, rt_header = \<lparr>oh_version = 1, oh_output = ''o'', oh_job = ''j'', oh_tenant = 1, oh_lane = 3, oh_seq = 9, oh_journal = replicate 64 CHR ''a'',
    oh_receipts = replicate 64 CHR ''b'', oh_identity = replicate 64 CHR ''c'', oh_occurrences = replicate 64 CHR ''d'', oh_gversion = 1, oh_records = 2, oh_errors = 1,
    oh_bundles = 1\<rparr>, rt_parts = Some [\<lparr>rf_index = 0, rf_sha = replicate 64 CHR ''e''\<rparr>]\<rparr>"

lemma sample_root_canonical: "rootCanonicalJSON sample_root = Inr (printJson quote_string (root_json sample_root))"
  by code_simp

lemma sample_root_ok: "root_ok sample_root"
  by code_simp

theorem manifest_root_round_trip_witness:
  "strictControlJSON root_of (printJson quote_string (root_json sample_root)) = Some sample_root \<and> length (elems (rt_parts sample_root)) = 1"
  using manifest_root_round_trip [OF sample_root_canonical sample_root_ok] by (simp add: sample_root_def)

end
