(* ===== verification/ManifestPager.thy ===== *)
theory ManifestPager
  imports Manifest
begin

section \<open>Cutting a manifest into parts\<close>

text \<open>
  \<open>internal/storage/manifest.go\<close>: bundles are validated, collected into parts of at most 64 KiB and
  written to one file per part; \<open>Finish\<close> makes the root that refers to the parts by index and digest.
\<close>

subsection \<open>Validating a bundle\<close>

definition days_in_month :: "int \<Rightarrow> int \<Rightarrow> int" where
  "days_in_month y m = (if m = 2 then (if y mod 4 = 0 \<and> (y mod 100 \<noteq> 0 \<or> y mod 400 = 0) then 29 else 28)
    else if m \<in> {4, 6, 9, 11} then 30 else 31)"

text \<open>\<open>time.Parse(time.DateOnly, s)\<close> followed by \<open>Format\<close>: four, two and two digits that name a day.\<close>

definition validEventDay :: "string \<Rightarrow> bool" where
  "validEventDay s = (length s = 10 \<and> s ! 4 = CHR ''-'' \<and> s ! 7 = CHR ''-'' \<and>
    (case (parse_digits (take 4 s), parse_digits (take 2 (drop 5 s)), parse_digits (drop 8 s)) of
       (Some y, Some m, Some d) \<Rightarrow> 1 \<le> m \<and> m \<le> 12 \<and> 1 \<le> d \<and> d \<le> days_in_month y m
     | _ \<Rightarrow> False))"

definition validLowerSHA :: "string \<Rightarrow> bool" where
  "validLowerSHA v = (length v = 64 \<and> v = to_lower v \<and> hex_decode v \<noteq> None)"

definition block_count :: "int \<Rightarrow> int" where
  "block_count bytes = quo (sub64 (add64 bytes FileBlockBytes) 1) FileBlockBytes"

definition blocks_ok :: "(string \<Rightarrow> bool) \<Rightarrow> file_block list \<Rightarrow> bool" where
  "blocks_ok sha bs = list_all (\<lambda>(i, b). fb_index b = int i \<and> sha (fb_sha b)) (enumerate 0 bs)"

definition validateFileManifest :: "file_manifest \<Rightarrow> string \<Rightarrow> int \<Rightarrow> manifest_error + unit" where
  "validateFileManifest f role rows = check (fm_file f \<noteq> [] \<and> fm_intent f \<noteq> [] \<and> fm_role f = role \<and> 0 < fm_bytes f \<and> validLowerSHA (fm_sha f) \<and> fm_rows f = rows \<and>
    fm_min_event f \<le> fm_max_event f \<and> fm_min_received f \<le> fm_max_received f \<and> 0 < fm_min_seq f \<and> fm_min_seq f \<le> fm_max_seq f \<and>
    int (length (elems (fm_blocks f))) = block_count (fm_bytes f) \<and> blocks_ok validLowerSHA (elems (fm_blocks f))) InvalidFile"

definition projects_ordered :: "int list \<Rightarrow> bool" where
  "projects_ordered ps = sorted_wrt (<) (0 # ps)"

definition validateBundleManifest :: "bundle_manifest \<Rightarrow> manifest_error + unit" where
  "validateBundleManifest b =
    (if bm_bundle b = [] \<or> \<not> validEventDay (bm_day b) \<or> (bm_kind b \<noteq> KindError \<and> bm_kind b \<noteq> KindLog \<and> bm_kind b \<noteq> KindTransaction) \<or> bm_seq_min b \<le> 0 \<or>
       bm_seq_max b < bm_seq_min b \<or> bm_rows b \<le> 0 \<or> \<not> validLowerSHA (bm_identity b) \<or> elems (bm_projects b) = [] then Inl InvalidBundle
     else if \<not> projects_ordered (elems (bm_projects b)) then Inl InvalidBundle
     else bindR (validateFileManifest (bm_analytics b) ''analytics'' (bm_rows b)) (\<lambda>_. validateFileManifest (bm_payload b) ''payload'' (bm_rows b)))"

subsection \<open>The pager\<close>

record manifest_artifact =
  ma_index :: int
  ma_path :: string
  ma_bytes :: int
  ma_sha :: string

record manifest_pager =
  pg_directory :: string
  pg_parts :: "manifest_artifact list"
  pg_current :: "bundle_manifest list"
  pg_total :: int
  pg_bundles :: int
  pg_rows :: int
  pg_errors :: int
  pg_closed :: bool
  pg_files :: "string \<rightharpoonup> string"

record prepared_manifest =
  pm_root :: output_root
  pm_json :: string
  pm_sha :: string
  pm_parts :: "manifest_artifact list"

text \<open>The state of the directory is what \<open>os.Stat\<close> and \<open>os.ReadDir\<close> report.\<close>

definition newOutputManifestPager :: "string \<Rightarrow> bool \<Rightarrow> string list \<Rightarrow> manifest_error + manifest_pager" where
  "newOutputManifestPager directory private entries =
    (if \<not> has_prefix directory ''/'' then Inl NotAbsolute
     else if \<not> private \<or> entries \<noteq> [] then Inl NotEmpty
     else Inr \<lparr>pg_directory = directory, pg_parts = [], pg_current = [], pg_total = 0, pg_bundles = 0, pg_rows = 0, pg_errors = 0, pg_closed = False, pg_files = Map.empty\<rparr>)"

definition encodeManifestPart :: "nat \<Rightarrow> bundle_manifest list \<Rightarrow> manifest_error + string" where
  "encodeManifestPart index bundles =
    (if bundles = [] then Inl PartOrder else Inr (marshalPart \<lparr>op_version = OutputManifestVersion, op_index = int index, op_bundles = Some bundles\<rparr>))"

definition part_path :: "string \<Rightarrow> nat \<Rightarrow> string" where
  "part_path directory index = directory @ ''/manifest-part-'' @ replicate (6 - length (showInt (int index))) CHR ''0'' @ showInt (int index) @ ''.json''"

text \<open>\<open>flush\<close> writes the open part; the argument says which paths \<open>os.WriteFile\<close> can write.\<close>

definition flush :: "(string \<Rightarrow> bool) \<Rightarrow> manifest_pager \<Rightarrow> manifest_pager \<times> manifest_error option" where
  "flush writable pg =
    (let index = length (pg_parts pg); path = part_path (pg_directory pg) index in
     case encodeManifestPart index (pg_current pg) of Inl e \<Rightarrow> (pg, Some e)
     | Inr encoded \<Rightarrow>
       if int (length encoded) > MaxManifestPartBytes \<or> add64 (pg_total pg) (int (length encoded)) > MaxManifestBytes then (pg, Some MetadataLimit)
       else if \<not> writable path then (pg, Some WriteFailed)
       else (pg\<lparr>pg_parts := pg_parts pg @ [\<lparr>ma_index = int index, ma_path = path, ma_bytes = int (length encoded), ma_sha = sha256_hex encoded\<rparr>],
           pg_total := add64 (pg_total pg) (int (length encoded)), pg_current := [], pg_files := (pg_files pg)(path \<mapsto> encoded)\<rparr>, None))"

definition count_bundle :: "bundle_manifest \<Rightarrow> manifest_pager \<Rightarrow> manifest_pager" where
  "count_bundle b pg = pg\<lparr>pg_bundles := add64 (pg_bundles pg) 1, pg_rows := add64 (pg_rows pg) (bm_rows b),
    pg_errors := if bm_kind b = KindError then add64 (pg_errors pg) (bm_rows b) else pg_errors pg\<rparr>"

definition appendBundle :: "(string \<Rightarrow> bool) \<Rightarrow> manifest_pager \<Rightarrow> bundle_manifest \<Rightarrow> manifest_pager \<times> manifest_error option" where
  "appendBundle writable pg b =
    (if pg_closed pg then (pg, Some PagerClosed)
     else case validateBundleManifest b of Inl e \<Rightarrow> (pg, Some e)
     | Inr _ \<Rightarrow> (case encodeManifestPart (length (pg_parts pg)) (pg_current pg @ [b]) of Inl e \<Rightarrow> (pg, Some e)
       | Inr encoded \<Rightarrow>
         if int (length encoded) \<le> MaxManifestPartBytes then (count_bundle b (pg\<lparr>pg_current := pg_current pg @ [b]\<rparr>), None)
         else if pg_current pg = [] then (pg, Some BundleTooLarge)
         else (case flush writable pg of (pg1, Some e) \<Rightarrow> (pg1, Some e)
           | (pg1, None) \<Rightarrow>
             let pg2 = pg1\<lparr>pg_current := pg_current pg1 @ [b]\<rparr> in
             (case encodeManifestPart (length (pg_parts pg2)) (pg_current pg2) of Inl e \<Rightarrow> (pg2, Some BundleTooLarge)
              | Inr encoded2 \<Rightarrow> if int (length encoded2) > MaxManifestPartBytes then (pg2, Some BundleTooLarge) else (count_bundle b pg2, None)))))"

definition finishManifest :: "(string \<Rightarrow> bool) \<Rightarrow> manifest_pager \<Rightarrow> output_header \<Rightarrow> manifest_pager \<times> (manifest_error + prepared_manifest)" where
  "finishManifest writable pg h =
    (if pg_closed pg then (pg, Inl PagerClosed)
     else let pg0 = pg\<lparr>pg_closed := True\<rparr> in
       case (if pg_current pg0 \<noteq> [] then flush writable pg0 else (pg0, None)) of (pg1, Some e) \<Rightarrow> (pg1, Inl e)
       | (pg1, None) \<Rightarrow>
         if oh_bundles h \<noteq> pg_bundles pg1 \<or> oh_records h \<noteq> pg_rows pg1 \<or> oh_errors h \<noteq> pg_errors pg1 \<or> oh_bundles h = 0 \<and> pg_parts pg1 \<noteq> [] \<or>
           oh_bundles h > 0 \<and> pg_parts pg1 = [] then (pg1, Inl CountsDisagree)
         else let root = \<lparr>rt_version = OutputManifestVersion, rt_header = h, rt_parts = Some (map (\<lambda>a. \<lparr>rf_index = ma_index a, rf_sha = ma_sha a\<rparr>) (pg_parts pg1))\<rparr> in
           (pg1, bindR (rootCanonicalJSON root) (\<lambda>encoded. Inr \<lparr>pm_root = root, pm_json = encoded, pm_sha = sha256_hex encoded, pm_parts = pg_parts pg1\<rparr>)))"

text \<open>\<open>Cleanup\<close> removes the part files; the argument says which paths \<open>os.Remove\<close> can remove, and the error is joined from all of them.\<close>

definition cleanupManifest :: "(string \<Rightarrow> bool) \<Rightarrow> manifest_pager \<Rightarrow> manifest_pager \<times> bool" where
  "cleanupManifest removable pg =
    (let paths = map ma_path (pg_parts pg); gone = filter (\<lambda>p. removable p \<and> pg_files pg p \<noteq> None) paths in
     (pg\<lparr>pg_parts := [], pg_current := [], pg_files := (pg_files pg) |` (- set gone)\<rparr>, gone = paths))"

subsection \<open>What the pager keeps\<close>

definition part_text :: "nat \<Rightarrow> bundle_manifest list \<Rightarrow> string" where
  "part_text i bs = marshalPart \<lparr>op_version = OutputManifestVersion, op_index = int i, op_bundles = Some bs\<rparr>"

lemma encodeManifestPart_eq: "encodeManifestPart i bs = (if bs = [] then Inl PartOrder else Inr (part_text i bs))"
  by (simp add: encodeManifestPart_def part_text_def)

definition tally :: "int \<times> int \<times> int \<Rightarrow> bundle_manifest \<Rightarrow> int \<times> int \<times> int" where
  "tally t b = (case t of (n, r, e) \<Rightarrow> (add64 n 1, add64 r (bm_rows b), if bm_kind b = KindError then add64 e (bm_rows b) else e))"

definition totals :: "bundle_manifest list \<Rightarrow> int \<times> int \<times> int" where
  "totals bs = foldl tally (0, 0, 0) bs"

definition part_stored :: "manifest_pager \<Rightarrow> nat \<Rightarrow> bundle_manifest list \<Rightarrow> bool" where
  "part_stored pg i g = (g \<noteq> [] \<and> int (length (part_text i g)) \<le> MaxManifestPartBytes \<and>
    pg_parts pg ! i = \<lparr>ma_index = int i, ma_path = part_path (pg_directory pg) i, ma_bytes = int (length (part_text i g)), ma_sha = sha256_hex (part_text i g)\<rparr> \<and>
    pg_files pg (part_path (pg_directory pg) i) = Some (part_text i g))"

definition pager_inv :: "bundle_manifest list list \<Rightarrow> bundle_manifest list \<Rightarrow> manifest_pager \<Rightarrow> bool" where
  "pager_inv gs bs pg = (concat gs @ pg_current pg = bs \<and> length (pg_parts pg) = length gs \<and> (\<forall>i < length gs. part_stored pg i (gs ! i)) \<and>
    pg_total pg = sum_list (map ma_bytes (pg_parts pg)) \<and> 0 \<le> pg_total pg \<and> pg_total pg \<le> MaxManifestBytes \<and>
    (pg_bundles pg, pg_rows pg, pg_errors pg) = totals bs)"

lemma foldl_zeros: "foldl (\<lambda>acc c. 10 * acc + (of_char c - 48)) 0 (replicate k CHR ''0'' @ s) = foldl (\<lambda>acc c. 10 * acc + (of_char c - 48)) (0 :: int) s"
  by (induction k) simp_all

lemma part_path_inj: "part_path d i = part_path d j \<Longrightarrow> i = j"
proof -
  assume "part_path d i = part_path d j"
  then have eq: "replicate (6 - length (showInt (int i))) CHR ''0'' @ showInt (int i) = replicate (6 - length (showInt (int j))) CHR ''0'' @ showInt (int j)"
    by (simp add: part_path_def)
  have v: "foldl (\<lambda>acc c. 10 * acc + (of_char c - 48)) (0 :: int) (replicate k CHR ''0'' @ showInt (int n)) = int n" for n k
    unfolding foldl_zeros using foldl_show_pos [of "int n"] by (simp add: showInt_def)
  have "int i = int j" using v [of "6 - length (showInt (int i))" i] v [of "6 - length (showInt (int j))" j] unfolding eq by simp
  then show "i = j" by simp
qed

lemma flush_cases:
  assumes "flush writable pg = (pg', None)" "0 \<le> pg_total pg" "pg_total pg \<le> MaxManifestBytes"
  defines "t \<equiv> part_text (length (pg_parts pg)) (pg_current pg)"
  shows "pg_current pg \<noteq> [] \<and> int (length t) \<le> MaxManifestPartBytes \<and> pg_total pg + int (length t) \<le> MaxManifestBytes \<and>
    pg' = pg\<lparr>pg_parts := pg_parts pg @ [\<lparr>ma_index = int (length (pg_parts pg)), ma_path = part_path (pg_directory pg) (length (pg_parts pg)), ma_bytes = int (length t), ma_sha = sha256_hex t\<rparr>],
      pg_total := pg_total pg + int (length t), pg_current := [], pg_files := (pg_files pg)(part_path (pg_directory pg) (length (pg_parts pg)) \<mapsto> t)\<rparr>"
proof -
  have t: "pg_current pg \<noteq> []" "int (length t) \<le> MaxManifestPartBytes" "add64 (pg_total pg) (int (length t)) \<le> MaxManifestBytes"
    using assms(1) unfolding t_def by (auto simp: flush_def Let_def encodeManifestPart_eq split: if_splits)
  have "add64 (pg_total pg) (int (length t)) = pg_total pg + int (length t)" using t(2) assms(2,3) by (simp add: add64_id int64_def)
  then show ?thesis using assms(1) t unfolding t_def by (auto simp: flush_def Let_def encodeManifestPart_eq split: if_splits)
qed

lemma flush_inv:
  assumes "flush writable pg = (pg', None)" "pager_inv gs bs pg"
  shows "pager_inv (gs @ [pg_current pg]) bs pg' \<and> pg_current pg' = [] \<and> pg_closed pg' = pg_closed pg"
proof -
  have tot: "0 \<le> pg_total pg" "pg_total pg \<le> MaxManifestBytes" and len: "length (pg_parts pg) = length gs" using assms(2) by (simp_all add: pager_inv_def)
  note fl = flush_cases [OF assms(1) tot]
  have old: "part_stored pg' i (gs ! i)" if "i < length gs" for i
  proof -
    have "part_path (pg_directory pg) i \<noteq> part_path (pg_directory pg) (length (pg_parts pg))" using part_path_inj that len by fastforce
    moreover have "part_stored pg i (gs ! i)" using assms(2) that by (simp add: pager_inv_def)
    ultimately show ?thesis using fl that len by (simp add: part_stored_def nth_append)
  qed
  have new: "part_stored pg' (length gs) (pg_current pg)" using fl len by (simp add: part_stored_def nth_append)
  have "part_stored pg' i ((gs @ [pg_current pg]) ! i)" if "i < length (gs @ [pg_current pg])" for i
    using that old new by (cases "i < length gs") (auto simp: nth_append less_Suc_eq)
  then show ?thesis using assms(2) fl by (simp add: pager_inv_def)
qed

lemma totals_snoc: "totals (bs @ [b]) = tally (totals bs) b"
  by (simp add: totals_def)

lemma count_inv:
  assumes "pager_inv gs bs pg"
  shows "pager_inv gs (bs @ [b]) (count_bundle b (pg\<lparr>pg_current := pg_current pg @ [b]\<rparr>))"
proof -
  have "tally (totals bs) b = tally (pg_bundles pg, pg_rows pg, pg_errors pg) b" using assms by (simp add: pager_inv_def)
  then show ?thesis using assms by (auto simp: pager_inv_def part_stored_def count_bundle_def totals_snoc tally_def)
qed

lemma append_inv:
  assumes "appendBundle writable pg b = (pg', None)" "pager_inv gs bs pg"
  shows "\<exists>gs'. pager_inv gs' (bs @ [b]) pg' \<and> \<not> pg_closed pg' \<and> validateBundleManifest b = Inr ()"
proof -
  have ok: "\<not> pg_closed pg" "validateBundleManifest b = Inr ()" using assms(1) by (auto simp: appendBundle_def split: sum.splits if_splits)
  show ?thesis
  proof (cases "int (length (part_text (length (pg_parts pg)) (pg_current pg @ [b]))) \<le> MaxManifestPartBytes")
    case True
    then have pg': "pg' = count_bundle b (pg\<lparr>pg_current := pg_current pg @ [b]\<rparr>)" using assms(1) ok by (simp add: appendBundle_def encodeManifestPart_eq)
    have "pager_inv gs (bs @ [b]) pg'" unfolding pg' by (rule count_inv [OF assms(2)])
    then show ?thesis using ok by (auto simp: pg' count_bundle_def)
  next
    case False
    obtain pg1 where fl: "flush writable pg = (pg1, None)" and pg': "pg' = count_bundle b (pg1\<lparr>pg_current := pg_current pg1 @ [b]\<rparr>)"
      using assms(1) ok False by (auto simp: appendBundle_def encodeManifestPart_eq Let_def split: if_splits prod.splits option.splits)
    note inv = flush_inv [OF fl assms(2)]
    have "pager_inv (gs @ [pg_current pg]) (bs @ [b]) pg'" unfolding pg' using inv by (blast intro: count_inv)
    then show ?thesis using ok inv by (auto simp: pg' count_bundle_def)
  qed
qed

text \<open>The caller appends bundles until one fails.\<close>

fun appendAll :: "(string \<Rightarrow> bool) \<Rightarrow> manifest_pager \<Rightarrow> bundle_manifest list \<Rightarrow> manifest_pager \<times> manifest_error option" where
  "appendAll writable pg [] = (pg, None)"
| "appendAll writable pg (b # bs) = (case appendBundle writable pg b of (pg', None) \<Rightarrow> appendAll writable pg' bs | (pg', Some e) \<Rightarrow> (pg', Some e))"

lemma appendAll_inv:
  assumes "appendAll writable pg bs = (pg', None)" "pager_inv gs cs pg"
  shows "\<exists>gs'. pager_inv gs' (cs @ bs) pg' \<and> list_all (\<lambda>b. validateBundleManifest b = Inr ()) bs"
  using assms
proof (induction bs arbitrary: pg gs cs)
  case (Cons b bs)
  then obtain pg1 where p: "appendBundle writable pg b = (pg1, None)" "appendAll writable pg1 bs = (pg', None)" by (auto split: prod.splits option.splits)
  obtain gs1 where g: "pager_inv gs1 (cs @ [b]) pg1" "validateBundleManifest b = Inr ()" using append_inv [OF p(1) Cons.prems(2)] by blast
  obtain gs' where "pager_inv gs' ((cs @ [b]) @ bs) pg'" "list_all (\<lambda>b. validateBundleManifest b = Inr ()) bs" using Cons.IH [OF p(2) g(1)] by blast
  then show ?case using g(2) by (intro exI [of _ gs']) simp
qed auto

lemma finish_inv:
  assumes "finishManifest writable pg h = (pg', Inr m)" "pager_inv gs bs pg"
  shows "\<exists>gs'. pager_inv gs' bs pg' \<and> pg_current pg' = [] \<and> pm_parts m = pg_parts pg' \<and> (oh_bundles h, oh_records h, oh_errors h) = totals bs \<and>
    rt_header (pm_root m) = h \<and> rt_parts (pm_root m) = Some (map (\<lambda>a. \<lparr>rf_index = ma_index a, rf_sha = ma_sha a\<rparr>) (pm_parts m)) \<and>
    rootCanonicalJSON (pm_root m) = Inr (pm_json m) \<and> pm_sha m = sha256_hex (pm_json m)"
proof -
  have c: "\<not> pg_closed pg" using assms(1) by (auto simp: finishManifest_def split: if_splits)
  have inv0: "pager_inv gs bs (pg\<lparr>pg_closed := True\<rparr>)" using assms(2) by (simp add: pager_inv_def part_stored_def)
  have step: "(if pg_current pg \<noteq> [] then flush writable (pg\<lparr>pg_closed := True\<rparr>) else (pg\<lparr>pg_closed := True\<rparr>, None)) = (pg', None)"
    using assms(1) c by (auto simp: finishManifest_def Let_def split: prod.splits option.splits if_splits)
  obtain gs' where g: "pager_inv gs' bs pg'" "pg_current pg' = []"
    using step inv0 flush_inv [of writable "pg\<lparr>pg_closed := True\<rparr>" pg' gs bs] by (cases "pg_current pg = []") auto
  have fin: "(oh_bundles h, oh_records h, oh_errors h) = (pg_bundles pg', pg_rows pg', pg_errors pg')" "pm_parts m = pg_parts pg'" "rt_header (pm_root m) = h"
    "rt_parts (pm_root m) = Some (map (\<lambda>a. \<lparr>rf_index = ma_index a, rf_sha = ma_sha a\<rparr>) (pg_parts pg'))"
    "rootCanonicalJSON (pm_root m) = Inr (pm_json m)" "pm_sha m = sha256_hex (pm_json m)"
    using assms(1) c step by (auto simp: finishManifest_def Let_def bindR_eq_Inr split: if_splits)
  then show ?thesis using g by (intro exI [of _ gs']) (simp add: pager_inv_def)
qed

lemma part_text_nonempty: "0 < length (part_text i g)"
  by (simp add: part_text_def marshalPart_def part_json_def)

lemma part_count_bounded:
  assumes "pager_inv gs bs pg"
  shows "int (length gs) \<le> MaxManifestBytes"
proof -
  have len: "length (pg_parts pg) = length gs" "sum_list (map ma_bytes (pg_parts pg)) \<le> MaxManifestBytes" using assms by (simp_all add: pager_inv_def)
  have "1 \<le> x" if x: "x \<in> set (map ma_bytes (pg_parts pg))" for x
  proof -
    obtain i where i: "i < length (pg_parts pg)" "x = ma_bytes (pg_parts pg ! i)" using x by (auto simp: in_set_conv_nth)
    then have "part_stored pg i (gs ! i)" using assms len by (simp add: pager_inv_def)
    then show ?thesis using i(2) part_text_nonempty [of i "gs ! i"] by (simp add: part_stored_def Suc_le_eq)
  qed
  moreover have "(\<forall>x \<in> set xs. 1 \<le> x) \<Longrightarrow> int (length xs) \<le> sum_list xs" for xs :: "int list" by (induction xs) auto
  ultimately have "int (length (map ma_bytes (pg_parts pg))) \<le> sum_list (map ma_bytes (pg_parts pg))" by blast
  then show ?thesis using len by simp
qed

text \<open>
  C25: no bundle is lost or changed on its way through a manifest. When every append and the finish
  succeed, the files written are parts of at most 64 KiB (32 MiB together) that the strict decoder
  reads back; read in the order of the root's references, whose indexes and digests match the
  files, they hold exactly the appended bundles in order, and the header's counts are their totals.
\<close>

theorem manifest_parts_hold_every_bundle:
  assumes "newOutputManifestPager directory private entries = Inr pg" "appendAll writable pg bs = (pg1, None)"
    "finishManifest writable pg1 h = (pg2, Inr m)" "list_all bundle_ok bs"
  shows "\<exists>gs. concat gs = bs \<and> length gs = length (pm_parts m) \<and>
      (\<forall>i < length gs. \<exists>text. pg_files pg2 (ma_path (pm_parts m ! i)) = Some text \<and> ma_bytes (pm_parts m ! i) = int (length text) \<and>
        int (length text) \<le> MaxManifestPartBytes \<and> elems (rt_parts (pm_root m)) ! i = \<lparr>rf_index = int i, rf_sha = sha256_hex text\<rparr> \<and>
        strictControlJSON part_of text = Some \<lparr>op_version = OutputManifestVersion, op_index = int i, op_bundles = Some (gs ! i)\<rparr> \<and>
        marshalPart \<lparr>op_version = OutputManifestVersion, op_index = int i, op_bundles = Some (gs ! i)\<rparr> = text \<and> gs ! i \<noteq> []) \<and>
      sum_list (map ma_bytes (pm_parts m)) \<le> MaxManifestBytes \<and> rt_header (pm_root m) = h \<and> (oh_bundles h, oh_records h, oh_errors h) = totals bs \<and>
      length (elems (rt_parts (pm_root m))) = length gs \<and> rootCanonicalJSON (pm_root m) = Inr (pm_json m) \<and>
      list_all (\<lambda>b. validateBundleManifest b = Inr ()) bs"
proof -
  have "pager_inv [] [] pg" using assms(1) by (auto simp: newOutputManifestPager_def pager_inv_def totals_def split: if_splits)
  from appendAll_inv [OF assms(2) this] obtain gs1 where g1: "pager_inv gs1 bs pg1" "list_all (\<lambda>b. validateBundleManifest b = Inr ()) bs" by auto
  obtain gs where g: "pager_inv gs bs pg2" "pg_current pg2 = []" and m: "pm_parts m = pg_parts pg2" "(oh_bundles h, oh_records h, oh_errors h) = totals bs"
    "rt_header (pm_root m) = h" "rt_parts (pm_root m) = Some (map (\<lambda>a. \<lparr>rf_index = ma_index a, rf_sha = ma_sha a\<rparr>) (pm_parts m))"
    "rootCanonicalJSON (pm_root m) = Inr (pm_json m)" using finish_inv [OF assms(3) g1(1)] by blast
  have bs: "concat gs = bs" and len: "length (pg_parts pg2) = length gs" using g by (simp_all add: pager_inv_def)
  have "\<exists>text. pg_files pg2 (ma_path (pm_parts m ! i)) = Some text \<and> ma_bytes (pm_parts m ! i) = int (length text) \<and>
        int (length text) \<le> MaxManifestPartBytes \<and> elems (rt_parts (pm_root m)) ! i = \<lparr>rf_index = int i, rf_sha = sha256_hex text\<rparr> \<and>
        strictControlJSON part_of text = Some \<lparr>op_version = OutputManifestVersion, op_index = int i, op_bundles = Some (gs ! i)\<rparr> \<and>
        marshalPart \<lparr>op_version = OutputManifestVersion, op_index = int i, op_bundles = Some (gs ! i)\<rparr> = text \<and> gs ! i \<noteq> []" if i: "i < length gs" for i
  proof -
    have st: "part_stored pg2 i (gs ! i)" using g(1) i by (simp add: pager_inv_def)
    have "list_all bundle_ok (gs ! i)" using assms(4) i bs by (auto simp: list_all_iff)
    moreover have "int64 (int i)" using part_count_bounded [OF g(1)] i by (simp add: int64_def)
    ultimately have "part_ok \<lparr>op_version = OutputManifestVersion, op_index = int i, op_bundles = Some (gs ! i)\<rparr>" by (simp add: part_ok_def slice_ok_def int64_def)
    from strict_part [OF this] st i show ?thesis by (intro exI [of _ "part_text i (gs ! i)"]) (simp add: part_stored_def m(1,4) len part_text_def)
  qed
  then show ?thesis using bs len m g g1(2) by (intro exI [of _ gs]) (simp add: pager_inv_def)
qed

definition sample_file :: "string \<Rightarrow> file_manifest" where
  "sample_file role = \<lparr>fm_file = CHR ''f'' # role, fm_intent = role, fm_role = role, fm_bytes = 7, fm_sha = replicate 64 CHR ''1'', fm_rows = 2, fm_min_event = 4, fm_max_event = 5,
    fm_min_received = 6, fm_max_received = 6, fm_min_seq = 9, fm_max_seq = 9, fm_blocks = Some [\<lparr>fb_index = 0, fb_sha = replicate 64 CHR ''2''\<rparr>]\<rparr>"

definition sample_bundle :: bundle_manifest where
  "sample_bundle = \<lparr>bm_bundle = ''b'', bm_day = ''2024-02-29'', bm_kind = ''log'', bm_seq_min = 9, bm_seq_max = 9, bm_rows = 2, bm_identity = replicate 64 CHR ''3'',
    bm_projects = Some [1, 4], bm_analytics = sample_file ''analytics'', bm_payload = sample_file ''payload''\<rparr>"

lemma sample_bundle_valid: "validateBundleManifest sample_bundle = Inr ()" "bundle_ok sample_bundle" "int (length (part_text 0 [sample_bundle])) \<le> 65536"
  by code_simp+

definition sample_header :: output_header where
  "sample_header = (rt_header sample_root)\<lparr>oh_errors := 0\<rparr>"

lemma lower_hex_plain:
  assumes "lower_hex_char c"
  shows "escape_rune (c # t) = [c] \<and> snd (decodeRune (c # t)) = 1"
proof -
  have n: "(48 \<le> (of_char c :: int) \<and> (of_char c :: int) \<le> 57) \<or> (97 \<le> (of_char c :: int) \<and> (of_char c :: int) \<le> 102)"
    using assms by (simp add: lower_hex_char_def Let_def)
  then have "decodeRune (c # t) = (of_char c, 1)" by (auto simp: decodeRune_def Let_def)
  moreover have "c \<noteq> CHR 0x22" "c \<noteq> CHR 0x5C" "c \<noteq> CHR 0x08" "c \<noteq> CHR 0x0C" "c \<noteq> CHR 0x0A" "c \<noteq> CHR 0x0D" "c \<noteq> CHR 0x09" using n by fastforce+
  moreover have low: "\<not> (of_char c :: int) < 32" "(of_char c :: int) < 128" using n by linarith+
  ultimately have "escape_ascii c = [c]" "decodeRune (c # t) = (of_char c, 1)" by (simp_all add: escape_ascii_def)
  then show ?thesis using low by (simp add: escape_rune_def)
qed

lemma escape_lower_hex: "list_all lower_hex_char s \<Longrightarrow> escape_string s = s"
  by (induction s) (simp_all add: escape_string.simps lower_hex_plain)

lemma lower_hex_not_upper: "lower_hex_char c \<Longrightarrow> \<not> (65 \<le> (of_char c :: int) \<and> (of_char c :: int) \<le> 70)"
  by (auto simp: lower_hex_char_def Let_def)

lemma sha256_hex_valid: "validManifestSHA (sha256_hex m) \<and> list_all lower_hex_char (sha256_hex m)"
proof -
  have l: "list_all lower_hex_char (sha256_hex m)" by (simp add: sha256_hex_def hex_encode_lower)
  then have "bytesToLowerASCII (sha256_hex m) = sha256_hex m"
    unfolding bytesToLowerASCII_def using lower_hex_not_upper by (intro map_idI) (auto simp: list_all_iff)
  then show ?thesis using l by (simp add: validManifestSHA_def sha256_hex_def hex_decode_encode length_sha256)
qed

lemma sample_finish: 
  assumes "validManifestSHA d" "list_all lower_hex_char d"
  shows "\<exists>e. rootCanonicalJSON \<lparr>rt_version = 1, rt_header = sample_header, rt_parts = Some [\<lparr>rf_index = 0, rf_sha = d\<rparr>]\<rparr> = Inr e"
proof -
  let ?r = "\<lparr>rt_version = 1, rt_header = sample_header, rt_parts = Some [\<lparr>rf_index = 0, rf_sha = d\<rparr>]\<rparr>"
  have d: "length d = 64" "quote_string d = CHR 0x22 # d @ [CHR 0x22]" using assms by (simp_all add: validManifestSHA_def quote_string_def escape_lower_hex)
  have h: "valid_header ?r" "list_all validManifestSHA [oh_journal sample_header, oh_receipts sample_header, oh_identity sample_header, oh_occurrences sample_header]"
    "oh_bundles sample_header = 1" by code_simp+
  have k: "int (length (printJson quote_string (header_json sample_header))) \<le> 1000" "int (length (quote_string ''version'')) \<le> 20" "int (length (quote_string ''header'')) \<le> 20"
    "int (length (quote_string ''parts'')) \<le> 20" "int (length (quote_string ''index'')) \<le> 20" "int (length (quote_string ''sha256'')) \<le> 20" "int (length (showInt 1)) \<le> 20" "int (length (showInt 0)) \<le> 20"
    by code_simp+
  have "int (length (printJson quote_string (root_json ?r))) \<le> 65536"
    using k d by (simp add: root_json_def jslice_def part_ref_json_def jint_def join_with_Cons)
  then show ?thesis using h assms by (simp add: rootCanonicalJSON_def refs_ok_def Let_def)
qed

theorem manifest_parts_hold_every_bundle_witness:
  "\<exists>pg pg1 pg2 m. newOutputManifestPager ''/d'' True [] = Inr pg \<and> appendAll (\<lambda>_. True) pg [sample_bundle] = (pg1, None) \<and>
    finishManifest (\<lambda>_. True) pg1 sample_header = (pg2, Inr m) \<and> rt_header (pm_root m) = sample_header"
proof -
  let ?t = "part_text 0 [sample_bundle]"
  obtain pg where pg: "newOutputManifestPager ''/d'' True [] = Inr pg" "pg_current pg = []" "pg_parts pg = []" "\<not> pg_closed pg" "pg_total pg = 0" "pg_bundles pg = 0" "pg_rows pg = 0" "pg_errors pg = 0"
    by (simp add: newOutputManifestPager_def)
  have a: "appendAll (\<lambda>_. True) pg [sample_bundle] = (count_bundle sample_bundle (pg\<lparr>pg_current := [sample_bundle]\<rparr>), None)"
    using sample_bundle_valid pg by (simp add: appendBundle_def encodeManifestPart_eq)
  obtain e where e: "rootCanonicalJSON \<lparr>rt_version = 1, rt_header = sample_header, rt_parts = Some [\<lparr>rf_index = 0, rf_sha = sha256_hex ?t\<rparr>]\<rparr> = Inr e"
    using sample_finish sha256_hex_valid by blast
  have counts: "oh_bundles sample_header = 1" "oh_records sample_header = 2" "oh_errors sample_header = 0" "bm_rows sample_bundle = 2" "bm_kind sample_bundle \<noteq> KindError" by code_simp+
  have tot: "int (length ?t) \<le> MaxManifestPartBytes" using sample_bundle_valid(3) by simp
  then have "add64 0 (int (length ?t)) = int (length ?t)" by (simp add: add64_id int64_def)
  moreover have "add64 0 1 = 1" "add64 0 2 = 2" by (simp_all add: add64_id int64_def)
  ultimately have "\<exists>pg2 m. finishManifest (\<lambda>_. True) (count_bundle sample_bundle (pg\<lparr>pg_current := [sample_bundle]\<rparr>)) sample_header = (pg2, Inr m)"
    using pg e counts tot by (simp add: finishManifest_def count_bundle_def flush_def encodeManifestPart_eq Let_def)
  then obtain pg2 m where f: "finishManifest (\<lambda>_. True) (count_bundle sample_bundle (pg\<lparr>pg_current := [sample_bundle]\<rparr>)) sample_header = (pg2, Inr m)" by blast
  have ok: "list_all bundle_ok [sample_bundle]" using sample_bundle_valid(2) by simp
  have "rt_header (pm_root m) = sample_header" using manifest_parts_hold_every_bundle [OF pg(1) a f ok] by blast
  then show ?thesis using pg(1) a f by blast
qed

end
