(* ===== verification/Jobs.thy ===== *)
theory Jobs
  imports ControlDB "HOL-Library.Sublist"
begin

section \<open>Jobs, leases and object intents\<close>

text \<open>
  \<open>internal/control/jobs.go\<close> hands out conversion and publication jobs under a lease with a fence
  number; \<open>internal/control/intents.go\<close> registers an object before it is uploaded and records the
  verified upload. Times are microseconds, leases are Go durations in nanoseconds. A statement with
  \<open>SKIP LOCKED\<close> takes the identifiers of the rows that other transactions hold as an argument.
\<close>

record job_authority =
  ja_installation :: string
  ja_generation :: int
  ja_job :: string
  ja_owner :: string
  ja_fence :: int

record conversion_job =
  cj_authority :: job_authority
  cj_tenant :: int
  cj_lane :: int
  cj_seq :: int
  cj_attempt :: int
  cj_lease :: int

record publication_job =
  pj_authority :: job_authority
  pj_tenant :: int
  pj_lane :: int
  pj_seq :: int
  pj_output :: string
  pj_manifest :: string
  pj_attempt :: int
  pj_lease :: int

record intent_authority =
  ia_intent :: string
  ia_owner :: string
  ia_fence :: int
  ia_bytes :: int
  ia_sha :: string

record output_registration =
  or_authority :: job_authority
  or_tenant :: int
  or_role :: string
  or_key :: string
  or_intent :: intent_authority

record journal_registration =
  jr_installation :: string
  jr_generation :: int
  jr_tenant :: int
  jr_key :: string
  jr_authority :: intent_authority

subsection \<open>Claiming a conversion job\<close>

definition maxLease :: int where
  "maxLease = 300000000000"

definition lease_us :: "int \<Rightarrow> int" where
  "lease_us lease = quo lease 1000"

definition lease_over :: "int \<Rightarrow> job_row \<Rightarrow> bool" where
  "lease_over now j = (case jo_lease j of None \<Rightarrow> False | Some t \<Rightarrow> t \<le> now)"

definition lease_live :: "int \<Rightarrow> job_row \<Rightarrow> bool" where
  "lease_live now j = (case jo_lease j of None \<Rightarrow> False | Some t \<Rightarrow> now < t)"

definition claimable :: "int \<Rightarrow> int \<Rightarrow> job_row \<Rightarrow> bool" where
  "claimable gen now j = (jo_kind j = ''convert'' \<and> jo_generation j = gen \<and> jo_output j = None \<and> jo_fence j < maxInt64 \<and> jo_attempt j < 2147483647 \<and>
    (jo_state j = ''queued'' \<and> jo_retry j \<le> now \<or> jo_state j = ''running'' \<and> lease_over now j))"

definition active_jobs :: "int \<Rightarrow> int \<Rightarrow> control_db \<Rightarrow> int" where
  "active_jobs tenant now db = int (length (filter (\<lambda>a. jo_tenant a = tenant \<and> jo_state a = ''running'' \<and> lease_live now a) (db_jobs db)))"

text \<open>The \<open>ORDER BY\<close> of the claim: load of the tenant, the tenants after the last one served, age, identifier.\<close>

definition claim_key :: "int \<Rightarrow> int \<Rightarrow> control_db \<Rightarrow> job_row \<Rightarrow> int list" where
  "claim_key after now db j =
    [active_jobs (jo_tenant j) now db, if 0 < after then (if jo_tenant j \<le> after then 1 else 0) else 0, if 0 < after then jo_tenant j else 0,
     jo_retry j, jo_created j]"

fun sort_key_less :: "int list \<Rightarrow> int list \<Rightarrow> bool" where
  "sort_key_less (a # as) (b # bs) = (a < b \<or> a = b \<and> sort_key_less as bs)"
| "sort_key_less [] (b # bs) = True"
| "sort_key_less _ [] = False"

definition claim_less :: "int \<Rightarrow> int \<Rightarrow> control_db \<Rightarrow> job_row \<Rightarrow> job_row \<Rightarrow> bool" where
  "claim_less after now db a b = (let x = claim_key after now db a; y = claim_key after now db b in
    if x = y then byte_less (jo_id a) (jo_id b) else sort_key_less x y)"

definition take_lease :: "string \<Rightarrow> int \<Rightarrow> int \<Rightarrow> int \<Rightarrow> job_row \<Rightarrow> job_row" where
  "take_lease owner fence lease now j = j\<lparr>jo_state := ''running'', jo_attempt := jo_attempt j + 1, jo_fence := fence, jo_owner := Some owner,
    jo_lease := Some (now + lease_us lease), jo_updated := now\<rparr>"

definition claimConversionJob :: "string \<Rightarrow> int \<Rightarrow> string \<Rightarrow> int \<Rightarrow> int \<Rightarrow> string list \<Rightarrow> int \<Rightarrow> control_db \<Rightarrow>
    control_error + conversion_job option \<times> control_db" where
  "claimConversionJob installation gen owner lease after locked now db =
    (if installation = [] \<or> gen \<le> 0 \<or> owner = [] \<or> lease \<le> 0 \<or> lease > maxLease \<or> after < 0 then Inl ErrInvalidCommand
     else bindR (lockRuntimeGeneration installation gen db) (\<lambda>_.
       case sortBy (claim_less after now db) (filter (\<lambda>j. claimable gen now j \<and> jo_id j \<notin> set locked) (db_jobs db)) of
         [] \<Rightarrow> Inr (None, db)
       | j # _ \<Rightarrow>
         (let j' = take_lease owner (jo_fence j + 1) lease now j in
          Inr (Some \<lparr>cj_authority = \<lparr>ja_installation = installation, ja_generation = gen, ja_job = jo_id j, ja_owner = owner, ja_fence = jo_fence j'\<rparr>,
                cj_tenant = jo_tenant j, cj_lane = jo_lane j, cj_seq = jo_seq j, cj_attempt = jo_attempt j', cj_lease = now + lease_us lease\<rparr>,
             db\<lparr>db_jobs := update_where (\<lambda>x. jo_id x = jo_id j) (\<lambda>x. take_lease owner (jo_fence x + 1) lease now x) (db_jobs db)\<rparr>))))"

definition ClaimConversionJob :: "string \<Rightarrow> int \<Rightarrow> string \<Rightarrow> int \<Rightarrow> string list \<Rightarrow> int \<Rightarrow> control_db \<Rightarrow>
    control_error + conversion_job option \<times> control_db" where
  "ClaimConversionJob installation gen owner lease = claimConversionJob installation gen owner lease 0"

subsection \<open>Extending a lease\<close>

definition valid_authority :: "job_authority \<Rightarrow> bool" where
  "valid_authority a = (ja_installation a \<noteq> [] \<and> 0 < ja_generation a \<and> ja_job a \<noteq> [] \<and> ja_owner a \<noteq> [] \<and> 0 < ja_fence a)"

text \<open>The condition every fenced statement puts on the job row.\<close>

definition holds_lease :: "job_authority \<Rightarrow> int \<Rightarrow> job_row \<Rightarrow> bool" where
  "holds_lease a now j = (jo_id j = ja_job a \<and> jo_generation j = ja_generation a \<and> jo_state j = ''running'' \<and> jo_owner j = Some (ja_owner a) \<and>
    jo_fence j = ja_fence a \<and> lease_live now j)"

definition heartbeatConversionJob :: "job_authority \<Rightarrow> int \<Rightarrow> int \<Rightarrow> control_db \<Rightarrow> control_error + int \<times> control_db" where
  "heartbeatConversionJob a lease now db =
    (if \<not> valid_authority a \<or> lease \<le> 0 \<or> lease > maxLease then Inl ErrJobFenceStale
     else bindR (lockRuntimeGeneration (ja_installation a) (ja_generation a) db) (\<lambda>_.
       if \<not> list_ex (holds_lease a now) (db_jobs db) then Inl ErrJobFenceStale
       else Inr (now + lease_us lease, db\<lparr>db_jobs := update_where (holds_lease a now)
         (\<lambda>j. j\<lparr>jo_lease := Some (now + lease_us lease), jo_updated := now\<rparr>) (db_jobs db)\<rparr>)))"

subsection \<open>Claiming the next publication of a lane\<close>

definition publishable :: "int \<Rightarrow> int \<Rightarrow> int \<Rightarrow> int \<Rightarrow> int \<Rightarrow> job_row \<times> output_row \<Rightarrow> bool" where
  "publishable tenant lane seq gen now x = (case x of (j, w) \<Rightarrow>
    jo_tenant j = tenant \<and> jo_lane j = lane \<and> jo_seq j = seq \<and> jo_generation j = gen \<and> jo_output j = Some (ou_id w) \<and> ou_tenant w = jo_tenant j \<and>
    (jo_state j = ''prepared'' \<or> jo_state j = ''running'' \<and> lease_over now j) \<and> ou_state w = ''prepared'')"

definition claimed_intents :: "int \<Rightarrow> string \<Rightarrow> control_db \<Rightarrow> string list" where
  "claimed_intents tenant job db = map in_id (filter (\<lambda>i. in_tenant i = tenant \<and> in_job i = Some job \<and> in_state i = ''referenced'' \<and>
    (in_kind i = ''analytics'' \<or> in_kind i = ''payload'')) (db_intents db))"

definition refence_intents :: "int \<Rightarrow> string list \<Rightarrow> string \<Rightarrow> int \<Rightarrow> int \<Rightarrow> int \<Rightarrow> control_db \<Rightarrow> control_error + control_db" where
  "refence_intents tenant ids owner fence gen now db =
    (let P = (\<lambda>i. in_tenant i = tenant \<and> in_id i \<in> set ids \<and> in_state i = ''referenced'' \<and> in_generation i = gen) in
     if ids = [] then Inr db
     else if affected P (db_intents db) \<noteq> length ids then Inl ErrIntentStale
     else Inr (db\<lparr>db_intents := update_where P (\<lambda>i. i\<lparr>in_owner := owner, in_fence := fence, in_producer_generation := Some gen,
       in_producer_fence := Some fence, in_updated := now\<rparr>) (db_intents db)\<rparr>))"

definition claimPublicationJob :: "string \<Rightarrow> int \<Rightarrow> int \<Rightarrow> int \<Rightarrow> string \<Rightarrow> int \<Rightarrow> int \<Rightarrow> control_db \<Rightarrow>
    control_error + publication_job option \<times> control_db" where
  "claimPublicationJob installation gen tenant lane owner lease now db =
    (if installation = [] \<or> gen \<le> 0 \<or> tenant \<le> 0 \<or> lane < 0 \<or> lane \<ge> 16 \<or> owner = [] \<or> lease \<le> 0 \<or> lease > maxLease then Inl ErrInvalidCommand
     else bindR (lockRuntimeGeneration installation gen db) (\<lambda>_.
       case find (\<lambda>l. la_tenant l = tenant \<and> la_id l = lane) (db_lanes db) of None \<Rightarrow> Inl ErrNoRows
       | Some l \<Rightarrow>
         (case find (publishable tenant lane (add64 (la_published l) 1) gen now) (List.product (db_jobs db) (db_outputs db)) of
            None \<Rightarrow> Inr (None, db)
          | Some (j, w) \<Rightarrow>
            if jo_fence j = maxInt64 \<or> jo_attempt j = 2147483647 then Inl ErrAuthorityOverflow
            else bindR (refence_intents tenant (claimed_intents tenant (jo_id j) db) owner (jo_fence j + 1) gen now db) (\<lambda>db1.
              Inr (Some \<lparr>pj_authority = \<lparr>ja_installation = installation, ja_generation = gen, ja_job = jo_id j, ja_owner = owner, ja_fence = jo_fence j + 1\<rparr>,
                  pj_tenant = tenant, pj_lane = lane, pj_seq = jo_seq j, pj_output = ou_id w, pj_manifest = ou_sha w, pj_attempt = jo_attempt j + 1,
                  pj_lease = now + lease_us lease\<rparr>,
                db1\<lparr>db_jobs := update_where (\<lambda>x. jo_id x = jo_id j) (take_lease owner (jo_fence j + 1) lease now) (db_jobs db1)\<rparr>)))))"

subsection \<open>Object intents\<close>

definition safeObjectKey :: "string \<Rightarrow> bool" where
  "safeObjectKey key = (key \<noteq> [] \<and> \<not> has_prefix key ''/'' \<and> \<not> sublist ''..'' key \<and> \<not> sublist [CHR 0x5C] key)"

definition intentTTL :: int where
  "intentTTL = 600000000"

text \<open>\<open>object_intents\<close> is unique in its identifier and in its object key.\<close>

definition insert_intent :: "intent_row \<Rightarrow> control_db \<Rightarrow> control_error + control_db" where
  "insert_intent i db = (if list_ex (\<lambda>x. in_id x = in_id i \<or> in_key x = in_key i) (db_intents db) then Inl ErrUnique
    else Inr (db\<lparr>db_intents := db_intents db @ [i]\<rparr>))"

definition pending_intent :: "string \<Rightarrow> int \<Rightarrow> int \<Rightarrow> string \<Rightarrow> string \<Rightarrow> intent_authority \<Rightarrow> int \<Rightarrow> intent_row" where
  "pending_intent installation tenant gen key kind a now = \<lparr>in_id = ia_intent a, in_installation = installation, in_tenant = tenant, in_generation = gen,
    in_key = key, in_kind = kind, in_state = ''pending'', in_owner = ia_owner a, in_fence = ia_fence a, in_expires = now + intentTTL,
    in_bytes = ia_bytes a, in_sha = ia_sha a, in_uploaded_bytes = None, in_uploaded_sha = None, in_job = None, in_producer_generation = None,
    in_producer_fence = None, in_updated = now, in_retired = None, in_protect = None, in_query = None, in_task = None, in_marked = None, in_confirmed = None, in_sweeps = 0\<rparr>"

definition registerJournalIntent :: "journal_registration \<Rightarrow> int \<Rightarrow> control_db \<Rightarrow> control_error + control_db" where
  "registerJournalIntent r now db =
    (let a = jr_authority r in
     if jr_tenant r \<le> 0 \<or> jr_generation r \<le> 0 \<or> jr_key r = [] \<or> has_prefix (jr_key r) ''/'' \<or> sublist ''..'' (jr_key r) \<or> sublist [CHR 0x5C] (jr_key r)
     then Inl ErrInvalidCommand
     else if (case laneForAcceptance (ia_intent a) of Inl _ \<Rightarrow> True | Inr _ \<Rightarrow> False) \<or> ia_owner a = [] \<or> ia_fence a \<noteq> 1 \<or> ia_bytes a \<le> 0 \<or> \<not> validSHA (ia_sha a)
     then Inl ErrInvalidCommand
     else if \<not> (db_installation db = jr_installation r \<and> db_generation db = jr_generation r \<and>
         list_ex (\<lambda>t. tn_id t = jr_tenant r \<and> tn_state t = ''active'') (db_tenants db)) then Inl ErrAuthorizationStale
     else insert_intent (pending_intent (jr_installation r) (jr_tenant r) (jr_generation r) (jr_key r) ''journal'' a now) db)"

definition mark_uploaded :: "(intent_row \<Rightarrow> bool) \<Rightarrow> intent_authority \<Rightarrow> int \<Rightarrow> control_db \<Rightarrow> control_error + control_db" where
  "mark_uploaded P a now db = (if affected P (db_intents db) \<noteq> 1 then Inl ErrIntentStale
    else Inr (db\<lparr>db_intents := update_where P (\<lambda>i. i\<lparr>in_state := ''uploaded'', in_uploaded_bytes := Some (ia_bytes a), in_uploaded_sha := Some (ia_sha a),
      in_updated := now\<rparr>) (db_intents db)\<rparr>))"

definition awaits_upload :: "string \<Rightarrow> int \<Rightarrow> int \<Rightarrow> intent_authority \<Rightarrow> int \<Rightarrow> intent_row \<Rightarrow> bool" where
  "awaits_upload installation gen tenant a now i = (in_id i = ia_intent a \<and> in_installation i = installation \<and> in_generation i = gen \<and> in_tenant i = tenant \<and>
    in_owner i = ia_owner a \<and> in_fence i = ia_fence a \<and> in_state i = ''pending'' \<and> now < in_expires i \<and> in_bytes i = ia_bytes a \<and> in_sha i = ia_sha a)"

definition markJournalIntentUploaded :: "string \<Rightarrow> int \<Rightarrow> int \<Rightarrow> intent_authority \<Rightarrow> int \<Rightarrow> control_db \<Rightarrow> control_error + control_db" where
  "markJournalIntentUploaded installation gen tenant a now db =
    (if gen \<le> 0 \<or> tenant \<le> 0 \<or> ia_owner a = [] \<or> ia_fence a \<le> 0 \<or> ia_bytes a \<le> 0 \<or> \<not> validSHA (ia_sha a) then Inl ErrInvalidCommand
     else mark_uploaded (awaits_upload installation gen tenant a now) a now db)"

definition registerOutputIntent :: "output_registration \<Rightarrow> int \<Rightarrow> control_db \<Rightarrow> control_error + control_db" where
  "registerOutputIntent r now db =
    (let a = or_authority r; i = or_intent r in
     if or_tenant r \<le> 0 \<or> (or_role r \<noteq> ''analytics'' \<and> or_role r \<noteq> ''payload'') \<or> \<not> safeObjectKey (or_key r) \<or> \<not> valid_authority a \<or> ia_intent i = [] \<or>
       ia_owner i \<noteq> ja_owner a \<or> ia_fence i \<noteq> ja_fence a \<or> ia_bytes i \<le> 0 \<or> \<not> validSHA (ia_sha i) then Inl ErrInvalidCommand
     else bindR (lockRuntimeGeneration (ja_installation a) (ja_generation a) db) (\<lambda>_.
       case find (holds_lease a now) (db_jobs db) of None \<Rightarrow> Inl ErrJobFenceStale
       | Some j \<Rightarrow> if jo_tenant j \<noteq> or_tenant r then Inl ErrJobFenceStale
         else insert_intent ((pending_intent (ja_installation a) (or_tenant r) (ja_generation a) (or_key r) (or_role r) i now)
           \<lparr>in_job := Some (ja_job a), in_producer_generation := Some (ja_generation a), in_producer_fence := Some (ja_fence a)\<rparr>) db))"

definition markOutputIntentUploaded :: "job_authority \<Rightarrow> int \<Rightarrow> intent_authority \<Rightarrow> int \<Rightarrow> control_db \<Rightarrow> control_error + control_db" where
  "markOutputIntentUploaded a tenant i now db =
    (if tenant \<le> 0 \<or> \<not> valid_authority a \<or> ia_owner i \<noteq> ja_owner a \<or> ia_fence i \<noteq> ja_fence a \<or> ia_bytes i \<le> 0 \<or> \<not> validSHA (ia_sha i) then Inl ErrInvalidCommand
     else mark_uploaded (\<lambda>x. awaits_upload (ja_installation a) (ja_generation a) tenant i now x \<and> in_job x = Some (ja_job a) \<and>
       in_producer_generation x = Some (ja_generation a) \<and> in_producer_fence x = Some (ja_fence a) \<and> list_ex (holds_lease a now) (db_jobs db)) i now db)"

subsection \<open>Fences only grow\<close>

definition jobs_grow :: "control_db \<Rightarrow> control_db \<Rightarrow> bool" where
  "jobs_grow db db' = (distinct (map jo_id (db_jobs db')) \<and> jo_id ` set (db_jobs db) \<subseteq> jo_id ` set (db_jobs db') \<and>
    (\<forall>j \<in> set (db_jobs db). \<forall>j' \<in> set (db_jobs db'). jo_id j = jo_id j' \<longrightarrow> jo_fence j \<le> jo_fence j'))"

definition superseded :: "job_authority \<Rightarrow> control_db \<Rightarrow> bool" where
  "superseded a db = ((\<exists>j \<in> set (db_jobs db). jo_id j = ja_job a) \<and> (\<forall>j \<in> set (db_jobs db). jo_id j = ja_job a \<longrightarrow> ja_fence a < jo_fence j))"

lemma same_job: "distinct (map jo_id js) \<Longrightarrow> j \<in> set js \<Longrightarrow> k \<in> set js \<Longrightarrow> jo_id j = jo_id k \<Longrightarrow> j = k"
  by (metis inj_on_def distinct_map)

lemma jobs_grow_same: "distinct (map jo_id (db_jobs db)) \<Longrightarrow> db_jobs db' = db_jobs db \<Longrightarrow> jobs_grow db db'"
  using same_job by (auto simp: jobs_grow_def)

lemma jobs_grow_update:
  assumes "distinct (map jo_id (db_jobs db))" "db_jobs db' = update_where P f (db_jobs db)"
    and keep: "\<And>j. j \<in> set (db_jobs db) \<Longrightarrow> P j \<Longrightarrow> jo_id (f j) = jo_id j \<and> jo_fence j \<le> jo_fence (f j)"
  shows "jobs_grow db db'"
proof -
  let ?g = "\<lambda>j. if P j then f j else j"
  have db': "db_jobs db' = map ?g (db_jobs db)" using assms(2) by (simp add: update_where_def)
  have g: "jo_id (?g j) = jo_id j \<and> jo_fence j \<le> jo_fence (?g j)" if "j \<in> set (db_jobs db)" for j using keep [OF that] by simp
  have ids: "map jo_id (db_jobs db') = map jo_id (db_jobs db)" unfolding db' using g by simp
  have "jo_fence j \<le> jo_fence j'" if jj: "j \<in> set (db_jobs db)" "j' \<in> set (db_jobs db')" "jo_id j = jo_id j'" for j j'
  proof -
    obtain k where k: "k \<in> set (db_jobs db)" "j' = ?g k" using jj(2) unfolding db' by auto
    then have "k = j" using same_job [OF assms(1) jj(1) k(1)] jj(3) g by simp
    then show ?thesis using g [OF jj(1)] k(2) by (auto split: if_splits)
  qed
  moreover have "jo_id ` set (db_jobs db) = jo_id ` set (db_jobs db')" using ids by (metis list.set_map)
  ultimately show ?thesis using assms(1) ids by (simp add: jobs_grow_def)
qed

lemma superseded_grow:
  assumes "superseded a db" "jobs_grow db db'"
  shows "superseded a db'"
proof -
  obtain j where j: "j \<in> set (db_jobs db)" "jo_id j = ja_job a" "ja_fence a < jo_fence j" using assms(1) by (auto simp: superseded_def)
  have "jo_id j \<in> jo_id ` set (db_jobs db')" using assms(2) j(1) unfolding jobs_grow_def by blast
  moreover have "ja_fence a < jo_fence j'" if "j' \<in> set (db_jobs db')" "jo_id j' = ja_job a" for j'
    using assms(2) j that unfolding jobs_grow_def by fastforce
  ultimately show ?thesis using j(2) by (auto simp: superseded_def)
qed

text \<open>
  A fenced operation succeeds only while the job row carries the caller's fence. The locale is the
  contract between the job table and the operations that act under a lease.
\<close>

locale fenced_operation =
  fixes act :: "job_authority \<Rightarrow> control_db \<Rightarrow> control_error + 'r"
  assumes needs_fence: "act a db = Inr r \<Longrightarrow> \<exists>j \<in> set (db_jobs db). jo_id j = ja_job a \<and> jo_fence j = ja_fence a"
begin

lemma stale_refused: "superseded a db \<Longrightarrow> \<exists>e. act a db = Inl e"
  using needs_fence by (cases "act a db") (fastforce simp: superseded_def)+

end

lemma holds_lease_fence: "list_ex (holds_lease a now) js \<Longrightarrow> \<exists>j \<in> set js. jo_id j = ja_job a \<and> jo_fence j = ja_fence a"
  by (auto simp: list_ex_iff holds_lease_def)

lemma heartbeat_holds: "heartbeatConversionJob a lease now db = Inr r \<Longrightarrow> list_ex (holds_lease a now) (db_jobs db)"
  by (auto simp: heartbeatConversionJob_def bindR_eq_Inr split: if_splits)

lemma registerOutputIntent_holds: "registerOutputIntent r now db = Inr db' \<Longrightarrow> list_ex (holds_lease (or_authority r) now) (db_jobs db)"
  using find_SomeD by (fastforce simp: registerOutputIntent_def Let_def bindR_eq_Inr list_ex_iff split: if_splits option.splits)

lemma markOutputIntent_holds:
  assumes "markOutputIntentUploaded a tenant i now db = Inr db'"
  shows "list_ex (holds_lease a now) (db_jobs db)"
proof (rule ccontr)
  assume "\<not> list_ex (holds_lease a now) (db_jobs db)"
  then show False using assms by (simp add: markOutputIntentUploaded_def mark_uploaded_def affected_def split: if_splits)
qed

interpretation heartbeat: fenced_operation "\<lambda>a. heartbeatConversionJob a lease now" for lease now
  by unfold_locales (blast dest: heartbeat_holds holds_lease_fence)

interpretation register_output: fenced_operation "\<lambda>a. registerOutputIntent (r\<lparr>or_authority := a\<rparr>) now" for r now
  by unfold_locales (auto dest!: registerOutputIntent_holds holds_lease_fence)

interpretation mark_output: fenced_operation "\<lambda>a. markOutputIntentUploaded a tenant i now" for tenant i now
  by unfold_locales (blast dest: markOutputIntent_holds holds_lease_fence)

lemma lock_generation_ok: "lockRuntimeGeneration installation gen db = Inr u \<longleftrightarrow> db_installation db = installation \<and> db_generation db = gen"
  by (simp add: lockRuntimeGeneration_def check_def)

subsection \<open>What a claim gives\<close>

lemma sort_key_less_irrefl: "\<not> sort_key_less a a"
  by (induction a) auto

lemma sort_key_less_trans: "sort_key_less a b \<Longrightarrow> sort_key_less b c \<Longrightarrow> sort_key_less a c"
proof (induction a b arbitrary: c rule: sort_key_less.induct)
  case (1 a as b bs)
  then show ?case by (cases c) auto
next
  case (2 b bs)
  then show ?case by (cases c) auto
qed simp

lemma sort_key_less_total: "a \<noteq> b \<Longrightarrow> sort_key_less a b \<or> sort_key_less b a"
  by (induction a b rule: sort_key_less.induct) (auto simp: neq_Nil_conv)

lemma claim_less_trans: "claim_less after now db x y \<Longrightarrow> claim_less after now db y z \<Longrightarrow> claim_less after now db x z"
  using byte_less_trans [of "jo_id x" "jo_id y" "jo_id z"] sort_key_less_trans [of "claim_key after now db x" "claim_key after now db y" "claim_key after now db z"]
    sort_key_less_irrefl
  by (auto simp: claim_less_def Let_def split: if_splits)

lemma claim_less_total:
  "claim_less after now db x y \<or> claim_less after now db y x \<or> claim_key after now db x = claim_key after now db y \<and> jo_id x = jo_id y"
  using byte_less_total [of "jo_id x" "jo_id y"] sort_key_less_total [of "claim_key after now db x" "claim_key after now db y"]
  by (auto simp: claim_less_def Let_def)

lemma claim_less_cong:
  "claim_key after now db x = claim_key after now db y \<Longrightarrow> jo_id x = jo_id y \<Longrightarrow>
   claim_less after now db x z = claim_less after now db y z \<and> claim_less after now db z x = claim_less after now db z y"
  by (simp add: claim_less_def)

interpretation claim_order: strict_weak_order "claim_less after now db" for after now db
proof
  fix x y z
  show "\<not> claim_less after now db x x" using byte_order.irrefl by (simp add: claim_less_def)
  show "claim_less after now db x y \<Longrightarrow> claim_less after now db y z \<Longrightarrow> claim_less after now db x z" by (rule claim_less_trans)
  assume "\<not> claim_less after now db x y" "\<not> claim_less after now db y z"
  then show "\<not> claim_less after now db x z"
    using claim_less_total [of after now db x y] claim_less_trans [of after now db y x z] claim_less_cong [of after now db x y z] by blast
qed

lemma sorted_head:
  assumes "sortBy lt xs = x # ys" "strict_weak_order lt"
  shows "x \<in> set xs \<and> (\<forall>y \<in> set xs. \<not> lt y x)"
proof -
  have "sorted_wrt (\<lambda>a b. \<not> lt b a) (x # ys)" using strict_weak_order.sortBy_sorted [OF assms(2), of xs] assms(1) by simp
  moreover have "set xs = set (x # ys)" using assms(1) set_sortBy by metis
  ultimately show ?thesis using strict_weak_order.irrefl [OF assms(2)] by auto
qed

lemma claim_key_load: "\<not> claim_less after now db k j \<Longrightarrow> active_jobs (jo_tenant j) now db \<le> active_jobs (jo_tenant k) now db"
  by (auto simp: claim_less_def claim_key_def Let_def split: if_splits)

lemma claimConversionJob_cases:
  assumes "claimConversionJob installation gen owner lease after locked now db = Inr (res, db')"
  obtains (none) "res = None" "db' = db" "\<And>j. j \<in> set (db_jobs db) \<Longrightarrow> claimable gen now j \<Longrightarrow> jo_id j \<in> set locked"
  | (some) j job where "res = Some job" "j \<in> set (db_jobs db)" "claimable gen now j" "jo_id j \<notin> set locked"
      "\<And>k. k \<in> set (db_jobs db) \<Longrightarrow> claimable gen now k \<Longrightarrow> jo_id k \<notin> set locked \<Longrightarrow> \<not> claim_less after now db k j"
      "cj_authority job = \<lparr>ja_installation = installation, ja_generation = gen, ja_job = jo_id j, ja_owner = owner, ja_fence = jo_fence j + 1\<rparr>"
      "cj_tenant job = jo_tenant j" "cj_lane job = jo_lane j" "cj_seq job = jo_seq j" "cj_lease job = now + lease_us lease" "0 < lease" "lease \<le> maxLease"
      "db_installation db = installation" "db_generation db = gen" "installation \<noteq> []" "0 < gen" "owner \<noteq> []"
      "db' = db\<lparr>db_jobs := update_where (\<lambda>x. jo_id x = jo_id j) (\<lambda>x. take_lease owner (jo_fence x + 1) lease now x) (db_jobs db)\<rparr>"
proof -
  let ?cs = "filter (\<lambda>j. claimable gen now j \<and> jo_id j \<notin> set locked) (db_jobs db)"
  have g: "db_installation db = installation" "db_generation db = gen" "0 < lease" "lease \<le> maxLease" "installation \<noteq> []" "0 < gen" "owner \<noteq> []"
    using assms by (auto simp: claimConversionJob_def bindR_eq_Inr lock_generation_ok split: if_splits)
  show thesis
  proof (cases "sortBy (claim_less after now db) ?cs")
    case Nil
    then have "?cs = []" by simp
    then have "\<And>j. j \<in> set (db_jobs db) \<Longrightarrow> claimable gen now j \<Longrightarrow> jo_id j \<in> set locked" by (auto simp: filter_empty_conv)
    then show thesis using none assms Nil g by (auto simp: claimConversionJob_def bindR_eq_Inr lock_generation_ok split: if_splits)
  next
    case (Cons j ys)
    have h: "j \<in> set ?cs \<and> (\<forall>k \<in> set ?cs. \<not> claim_less after now db k j)" by (rule sorted_head [OF Cons]) unfold_locales
    have "\<exists>job. res = Some job \<and> cj_authority job = \<lparr>ja_installation = installation, ja_generation = gen, ja_job = jo_id j, ja_owner = owner, ja_fence = jo_fence j + 1\<rparr> \<and>
        cj_tenant job = jo_tenant j \<and> cj_lane job = jo_lane j \<and> cj_seq job = jo_seq j \<and> cj_lease job = now + lease_us lease \<and>
        db' = db\<lparr>db_jobs := update_where (\<lambda>x. jo_id x = jo_id j) (\<lambda>x. take_lease owner (jo_fence x + 1) lease now x) (db_jobs db)\<rparr>"
      using assms Cons g by (auto simp: claimConversionJob_def bindR_eq_Inr lock_generation_ok Let_def take_lease_def split: if_splits)
    then show thesis using some [of _ j] h g by auto
  qed
qed

lemma lease_us_nonneg: "0 < lease \<Longrightarrow> 0 \<le> lease_us lease"
  by (simp add: lease_us_def quo_def)

lemma not_live_and_over: "lease_over now j \<Longrightarrow> \<not> lease_live now j"
  by (auto simp: lease_over_def lease_live_def split: option.splits)

lemma leased_holds:
  assumes "j \<in> set js" "jo_id j = ja_job a" "jo_generation j = ja_generation a" "f j = take_lease (ja_owner a) (ja_fence a) lease now j" "t < now + lease_us lease"
  shows "list_ex (holds_lease a t) (update_where (\<lambda>x. jo_id x = ja_job a) f js)"
proof -
  have "f j \<in> set (update_where (\<lambda>x. jo_id x = ja_job a) f js)" using assms(1,2) by (force simp: update_where_def)
  moreover have "holds_lease a t (f j)" using assms by (simp add: holds_lease_def lease_live_def take_lease_def)
  ultimately show ?thesis by (auto simp: list_ex_iff)
qed

lemma leased_supersedes:
  assumes "j \<in> set js" "db_jobs db = update_where (\<lambda>x. jo_id x = jo_id j) f js" "ja_job a = jo_id j"
    and "\<And>x. x \<in> set js \<Longrightarrow> jo_id x = jo_id j \<Longrightarrow> jo_id (f x) = jo_id j \<and> ja_fence a < jo_fence (f x)"
  shows "superseded a db"
proof -
  have "f j \<in> set (db_jobs db)" using assms(1,2) by (force simp: update_where_def)
  moreover have "\<And>x. x \<in> set (db_jobs db) \<Longrightarrow> jo_id x = ja_job a \<Longrightarrow> ja_fence a < jo_fence x"
    using assms(2,3,4) by (auto simp: update_where_def split: if_splits)
  ultimately show ?thesis using assms(1,3,4) by (auto simp: superseded_def)
qed

text \<open>
  C12: a conversion claim hands out one job, exclusively and fairly. Nothing is handed out only
  when every claimable job is locked by another claim. Otherwise the job was queued and due, or its
  lease had run out, so no live lease is taken away; no other claimable job belongs to a tenant
  with fewer running jobs; only that row changes; the new authority holds the lease until the time
  it was told; and every authority over this job from before is superseded.
\<close>

theorem conversion_claim_exclusive:
  assumes "claimConversionJob installation gen owner lease after locked now db = Inr (res, db')" "distinct (map jo_id (db_jobs db))"
  shows "case res of
      None \<Rightarrow> db' = db \<and> (\<forall>j \<in> set (db_jobs db). claimable gen now j \<longrightarrow> jo_id j \<in> set locked)
    | Some job \<Rightarrow> \<exists>j j'. j \<in> set (db_jobs db) \<and> claimable gen now j \<and> jo_id j \<notin> set locked \<and>
        (\<forall>k \<in> set (db_jobs db). claimable gen now k \<and> jo_id k \<notin> set locked \<longrightarrow> active_jobs (jo_tenant j) now db \<le> active_jobs (jo_tenant k) now db) \<and>
        ja_job (cj_authority job) = jo_id j \<and> ja_fence (cj_authority job) = jo_fence j + 1 \<and>
        db' = db\<lparr>db_jobs := map (\<lambda>x. if x = j then j' else x) (db_jobs db)\<rparr> \<and>
        (\<forall>t. t < cj_lease job \<longrightarrow> list_ex (holds_lease (cj_authority job) t) (db_jobs db')) \<and>
        (\<forall>a. list_ex (holds_lease a now) (db_jobs db) \<longrightarrow> ja_job a \<noteq> ja_job (cj_authority job)) \<and>
        (\<forall>a. ja_job a = ja_job (cj_authority job) \<and> ja_fence a \<le> jo_fence j \<longrightarrow> superseded a db')"
  using assms(1)
proof (cases rule: claimConversionJob_cases)
  case none
  then show ?thesis by simp
next
  case (some j job)
  let ?f = "\<lambda>x. take_lease owner (jo_fence x + 1) lease now x"
  have "update_where (\<lambda>x. jo_id x = jo_id j) ?f (db_jobs db) = map (\<lambda>x. if x = j then ?f j else x) (db_jobs db)"
    using same_job [OF assms(2) _ some(2)] by (auto simp: update_where_def)
  then have db': "db' = db\<lparr>db_jobs := map (\<lambda>x. if x = j then ?f j else x) (db_jobs db)\<rparr>" using some(18) by simp
  have load: "\<forall>k \<in> set (db_jobs db). claimable gen now k \<and> jo_id k \<notin> set locked \<longrightarrow> active_jobs (jo_tenant j) now db \<le> active_jobs (jo_tenant k) now db"
    using some(5) claim_key_load by blast
  have holds: "list_ex (holds_lease (cj_authority job) t) (db_jobs db')" if "t < cj_lease job" for t
    using leased_holds [OF some(2), of "cj_authority job" ?f lease now t] some(3,6,10,18) that by (simp add: claimable_def)
  have free: "ja_job a \<noteq> ja_job (cj_authority job)" if live: "list_ex (holds_lease a now) (db_jobs db)" for a
  proof
    assume same: "ja_job a = ja_job (cj_authority job)"
    obtain k where k: "k \<in> set (db_jobs db)" "holds_lease a now k" using live by (auto simp: list_ex_iff)
    then have "k = j" using same same_job [OF assms(2) k(1) some(2)] some(6) by (simp add: holds_lease_def)
    then show False using k(2) some(3) not_live_and_over by (auto simp: holds_lease_def claimable_def)
  qed
  have old: "superseded a db'" if "ja_job a = ja_job (cj_authority job)" "ja_fence a \<le> jo_fence j" for a
  proof (rule leased_supersedes [OF some(2), of db' ?f])
    show "jo_id (?f x) = jo_id j \<and> ja_fence a < jo_fence (?f x)" if "x \<in> set (db_jobs db)" "jo_id x = jo_id j" for x
      using same_job [OF assms(2) that(1) some(2) that(2)] \<open>ja_fence a \<le> jo_fence j\<close> by (simp add: take_lease_def)
  qed (simp_all add: some(6,18) that)
  have "\<exists>j j'. j \<in> set (db_jobs db) \<and> claimable gen now j \<and> jo_id j \<notin> set locked \<and>
        (\<forall>k \<in> set (db_jobs db). claimable gen now k \<and> jo_id k \<notin> set locked \<longrightarrow> active_jobs (jo_tenant j) now db \<le> active_jobs (jo_tenant k) now db) \<and>
        ja_job (cj_authority job) = jo_id j \<and> ja_fence (cj_authority job) = jo_fence j + 1 \<and>
        db' = db\<lparr>db_jobs := map (\<lambda>x. if x = j then j' else x) (db_jobs db)\<rparr> \<and>
        (\<forall>t. t < cj_lease job \<longrightarrow> list_ex (holds_lease (cj_authority job) t) (db_jobs db')) \<and>
        (\<forall>a. list_ex (holds_lease a now) (db_jobs db) \<longrightarrow> ja_job a \<noteq> ja_job (cj_authority job)) \<and>
        (\<forall>a. ja_job a = ja_job (cj_authority job) \<and> ja_fence a \<le> jo_fence j \<longrightarrow> superseded a db')"
    using some(2,3,4,6) load db' holds free old by (intro exI [of _ j] exI [of _ "?f j"] conjI) (simp_all only:, simp_all)
  then show ?thesis using some(1) by simp
qed

lemma claimPublicationJob_cases:
  assumes "claimPublicationJob installation gen tenant lane owner lease now db = Inr (res, db')"
  obtains (none) "res = None" "db' = db"
  | (some) l j w db1 job where "res = Some job" "find (\<lambda>l. la_tenant l = tenant \<and> la_id l = lane) (db_lanes db) = Some l"
      "j \<in> set (db_jobs db)" "w \<in> set (db_outputs db)" "publishable tenant lane (add64 (la_published l) 1) gen now (j, w)" "jo_fence j \<noteq> maxInt64"
      "refence_intents tenant (claimed_intents tenant (jo_id j) db) owner (jo_fence j + 1) gen now db = Inr db1"
      "job = \<lparr>pj_authority = \<lparr>ja_installation = installation, ja_generation = gen, ja_job = jo_id j, ja_owner = owner, ja_fence = jo_fence j + 1\<rparr>,
        pj_tenant = tenant, pj_lane = lane, pj_seq = jo_seq j, pj_output = ou_id w, pj_manifest = ou_sha w, pj_attempt = jo_attempt j + 1,
        pj_lease = now + lease_us lease\<rparr>"
      "db' = db1\<lparr>db_jobs := update_where (\<lambda>x. jo_id x = jo_id j) (take_lease owner (jo_fence j + 1) lease now) (db_jobs db1)\<rparr>"
proof -
  have g: "db_installation db = installation" "db_generation db = gen" "installation \<noteq> []" "0 < gen" "0 < tenant" "0 \<le> lane" "lane < 16" "owner \<noteq> []" "0 < lease" "lease \<le> maxLease"
    using assms by (auto simp: claimPublicationJob_def bindR_eq_Inr lock_generation_ok split: if_splits)
  obtain l where l: "find (\<lambda>l. la_tenant l = tenant \<and> la_id l = lane) (db_lanes db) = Some l"
    using assms g by (cases "find (\<lambda>l. la_tenant l = tenant \<and> la_id l = lane) (db_lanes db)") (auto simp: claimPublicationJob_def bindR_eq_Inr)
  show thesis
  proof (cases "find (publishable tenant lane (add64 (la_published l) 1) gen now) (List.product (db_jobs db) (db_outputs db))")
    case None
    then show thesis using none assms g l by (auto simp: claimPublicationJob_def bindR_eq_Inr)
  next
    case (Some x)
    obtain j w where x: "x = (j, w)" by (cases x)
    have m: "j \<in> set (db_jobs db)" "w \<in> set (db_outputs db)" "publishable tenant lane (add64 (la_published l) 1) gen now (j, w)"
      using find_SomeD [OF Some] x by auto
    have f: "jo_fence j \<noteq> maxInt64 \<and> jo_attempt j \<noteq> 2147483647"
      using assms g l Some x by (auto simp: claimPublicationJob_def bindR_eq_Inr split: if_splits)
    obtain db1 where r: "refence_intents tenant (claimed_intents tenant (jo_id j) db) owner (jo_fence j + 1) gen now db = Inr db1"
      using assms g l Some x f by (auto simp: claimPublicationJob_def bindR_eq_Inr)
    show thesis
      by (rule some [OF _ l m _ r]) (insert assms g l Some x f r, auto simp: claimPublicationJob_def lockRuntimeGeneration_def check_def)
  qed
qed

lemma refence_intents_cases:
  assumes "refence_intents tenant ids owner fence gen now db = Inr db1"
  shows "db_jobs db1 = db_jobs db \<and> db_lanes db1 = db_lanes db \<and> db_outputs db1 = db_outputs db \<and> db_batches db1 = db_batches db"
  using assms by (auto simp: refence_intents_def Let_def split: if_splits)

text \<open>The rows that the update reaches are the rows that were selected, since their number is the same.\<close>

lemma refence_all:
  assumes "refence_intents tenant (claimed_intents tenant job db) owner fence gen now db = Inr db1" "distinct (map in_id (db_intents db))"
    "i \<in> set (db_intents db1)" "in_tenant i = tenant" "in_job i = Some job" "in_state i = ''referenced''" "in_kind i = ''analytics'' \<or> in_kind i = ''payload''"
  shows "in_owner i = owner \<and> in_fence i = fence \<and> in_generation i = gen \<and> in_producer_generation i = Some gen \<and> in_producer_fence i = Some fence"
proof -
  define Q :: "intent_row \<Rightarrow> bool" where "Q = (\<lambda>i. in_tenant i = tenant \<and> in_job i = Some job \<and> in_state i = ''referenced'' \<and> (in_kind i = ''analytics'' \<or> in_kind i = ''payload''))"
  define P :: "intent_row \<Rightarrow> bool" where "P = (\<lambda>i. in_tenant i = tenant \<and> in_id i \<in> set (claimed_intents tenant job db) \<and> in_state i = ''referenced'' \<and> in_generation i = gen)"
  define f :: "intent_row \<Rightarrow> intent_row" where "f = (\<lambda>i. i\<lparr>in_owner := owner, in_fence := fence, in_producer_generation := Some gen, in_producer_fence := Some fence, in_updated := now\<rparr>)"
  have ids: "claimed_intents tenant job db = map in_id (filter Q (db_intents db))" by (simp add: claimed_intents_def Q_def)
  show ?thesis
  proof (cases "claimed_intents tenant job db = []")
    case True
    then have "db1 = db" "filter Q (db_intents db) = []" using assms(1) ids by (auto simp: refence_intents_def Let_def)
    then show ?thesis using assms(3-) by (auto simp: filter_empty_conv Q_def)
  next
    case False
    then have upd: "length (filter P (db_intents db)) = length (filter Q (db_intents db))" "db_intents db1 = update_where P f (db_intents db)"
      using assms(1) ids by (auto simp: refence_intents_def Let_def P_def f_def affected_def split: if_splits)
    have PQ: "Q x" if x: "x \<in> set (db_intents db)" "P x" for x
    proof -
      obtain y where y: "y \<in> set (db_intents db)" "Q y" "in_id y = in_id x" using x(2) ids unfolding P_def by auto
      then have "y = x" using x(1) assms(2) by (metis inj_on_def distinct_map)
      then show ?thesis using y(2) by simp
    qed
    have "filter P (db_intents db) = filter P (filter Q (db_intents db))" using PQ by (auto intro: filter_cong)
    then have "length (filter P (filter Q (db_intents db))) = length (filter Q (db_intents db))" using upd(1) by simp
    then have "\<forall>x \<in> set (filter Q (db_intents db)). P x" by (metis length_filter_less less_irrefl)
    then have QP: "P x" if "x \<in> set (db_intents db)" "Q x" for x using that by simp
    obtain y where y: "y \<in> set (db_intents db)" "i = (if P y then f y else y)" using assms(3) upd(2) by (auto simp: update_where_def)
    have "Q y" using y assms(4-) by (cases "P y") (auto simp: Q_def f_def)
    then have "P y" using QP y(1) by simp
    then show ?thesis using y(2) by (simp add: f_def P_def)
  qed
qed

text \<open>
  C13: publications are claimed in lane order, and the objects of the output move with the job. A
  publication job is handed out only for the batch right after the last published one of its lane,
  with a prepared output that no live lease works on. The claim supersedes every earlier authority,
  holds the lease until the time it was told, and every analytics or payload object the job
  references is then owned under the new fence.
\<close>

theorem publication_claim_in_order:
  assumes "claimPublicationJob installation gen tenant lane owner lease now db = Inr (Some job, db')"
    "distinct (map jo_id (db_jobs db))" "distinct (map in_id (db_intents db))"
  shows "\<exists>l j w. find (\<lambda>l. la_tenant l = tenant \<and> la_id l = lane) (db_lanes db) = Some l \<and> j \<in> set (db_jobs db) \<and> w \<in> set (db_outputs db) \<and>
      jo_seq j = add64 (la_published l) 1 \<and> pj_seq job = jo_seq j \<and> jo_output j = Some (ou_id w) \<and> ou_state w = ''prepared'' \<and>
      pj_output job = ou_id w \<and> pj_manifest job = ou_sha w \<and> ja_job (pj_authority job) = jo_id j \<and> ja_fence (pj_authority job) = jo_fence j + 1 \<and>
      (\<forall>a. list_ex (holds_lease a now) (db_jobs db) \<longrightarrow> ja_job a \<noteq> jo_id j) \<and>
      (\<forall>a. ja_job a = jo_id j \<and> ja_fence a \<le> jo_fence j \<longrightarrow> superseded a db') \<and>
      (\<forall>t. t < pj_lease job \<longrightarrow> list_ex (holds_lease (pj_authority job) t) (db_jobs db')) \<and>
      (\<forall>i \<in> set (db_intents db'). in_tenant i = tenant \<and> in_job i = Some (jo_id j) \<and> in_state i = ''referenced'' \<and> (in_kind i = ''analytics'' \<or> in_kind i = ''payload'') \<longrightarrow>
        in_owner i = owner \<and> in_fence i = jo_fence j + 1 \<and> in_generation i = gen \<and> in_producer_fence i = Some (jo_fence j + 1)) \<and>
      db_lanes db' = db_lanes db \<and> db_outputs db' = db_outputs db"
  using assms(1)
proof (cases rule: claimPublicationJob_cases)
  case (some l j w db1 job1)
  note keeps = refence_intents_cases [OF some(7)]
  let ?f = "take_lease owner (jo_fence j + 1) lease now"
  have job: "job = job1" using some(1) by simp
  have j: "jo_tenant j = tenant" "jo_seq j = add64 (la_published l) 1" "jo_generation j = gen" "jo_output j = Some (ou_id w)" "ou_state w = ''prepared''"
    "jo_state j = ''prepared'' \<or> jo_state j = ''running'' \<and> lease_over now j" using some(5) by (auto simp: publishable_def)
  have jobs': "db_jobs db' = update_where (\<lambda>x. jo_id x = jo_id j) ?f (db_jobs db)" using some(9) keeps by simp
  have free: "ja_job a \<noteq> jo_id j" if live: "list_ex (holds_lease a now) (db_jobs db)" for a
  proof
    assume same: "ja_job a = jo_id j"
    obtain k where k: "k \<in> set (db_jobs db)" "holds_lease a now k" using live by (auto simp: list_ex_iff)
    then have "k = j" using same same_job [OF assms(2) k(1) some(3)] by (simp add: holds_lease_def)
    then show False using k(2) j(6) not_live_and_over by (auto simp: holds_lease_def)
  qed
  have old: "superseded a db'" if "ja_job a = jo_id j \<and> ja_fence a \<le> jo_fence j" for a
    by (rule leased_supersedes [OF some(3) jobs']) (insert that, simp_all add: take_lease_def)
  have holds: "list_ex (holds_lease (pj_authority job) t) (db_jobs db')" if "t < pj_lease job" for t
    unfolding jobs' using leased_holds [OF some(3), of "pj_authority job" ?f lease now t] j(3) that by (simp add: job some(8))
  have "in_owner i = owner \<and> in_fence i = jo_fence j + 1 \<and> in_generation i = gen \<and> in_producer_fence i = Some (jo_fence j + 1)"
    if "i \<in> set (db_intents db')" "in_tenant i = tenant \<and> in_job i = Some (jo_id j) \<and> in_state i = ''referenced'' \<and> (in_kind i = ''analytics'' \<or> in_kind i = ''payload'')" for i
    using refence_all [OF some(7) assms(3), of i] that some(9) by simp
  then show ?thesis using some(2,3,4) j free old holds keeps
    by (intro exI [of _ l] exI [of _ j] exI [of _ w] conjI) (simp_all add: job some(8,9))
qed simp

subsection \<open>A run for the witnesses\<close>

definition sample_job :: "string \<Rightarrow> int \<Rightarrow> string \<Rightarrow> int \<Rightarrow> string option \<Rightarrow> job_row" where
  "sample_job i tenant st fence output = \<lparr>jo_id = i, jo_kind = ''convert'', jo_tenant = tenant, jo_lane = 3, jo_seq = 9, jo_state = st, jo_attempt = 1, jo_fence = fence,
    jo_generation = 1, jo_owner = (if st = ''running'' then Some ''old'' else None), jo_lease = (if st = ''running'' then Some 50 else None),
    jo_retry = 10, jo_created = 10, jo_updated = 10, jo_output = output\<rparr>"

definition jobs_db :: "job_row list \<Rightarrow> control_db" where
  "jobs_db js = \<lparr>db_installation = ''i'', db_generation = 1, db_tenants = [], db_users = [], db_memberships = [], db_projects = [], db_grants = [],
    db_lanes = [\<lparr>la_tenant = 1, la_id = 3, la_accepted = 9, la_published = 8, la_generation = 4, la_received = 0\<rparr>], db_jobs = js,
    db_outputs = [\<lparr>ou_id = ''o'', ou_tenant = 1, ou_job = ''a'', ou_header = [], ou_sha = ''m'', ou_state = ''prepared'', ou_fence = 4\<rparr>],
    db_parts = [], db_intents = [], db_batches = [], db_prepared = [], db_issues = [], db_occurrences = [], db_transitions = [], db_audit = [], db_bundles = [], db_files = [],
    db_dedupe_days = 30, db_keys = [], db_receipts = [], db_dedupe = [], db_outcomes = [], db_unsupported = [], db_setup = ''ready'', db_recovery = ''ready'', db_floor = 0, db_tick = 0, db_days = 30, db_retention_revision = 1, db_gc_safe = None,
    db_gc_verified = None, db_sessions = [], db_snapshots = [], db_tasks = [], db_inputs = [], db_queries = [], db_backups = [], db_summaries = []\<rparr>"

lemma sample_claim:
  "\<exists>job db'. claimConversionJob ''i'' 1 ''w'' 60000000000 0 [] 100 (jobs_db [sample_job ''a'' 1 ''running'' 4 None, sample_job ''b'' 2 ''queued'' 0 None]) = Inr (Some job, db')"
  by (simp add: claimConversionJob_def maxLease_def lockRuntimeGeneration_def check_def jobs_db_def sample_job_def claimable_def lease_over_def claim_less_def
      claim_key_def active_jobs_def lease_live_def Let_def bindR_def split: list.splits)

theorem conversion_claim_exclusive_witness:
  "\<exists>job db'. claimConversionJob ''i'' 1 ''w'' 60000000000 0 [] 100 (jobs_db [sample_job ''a'' 1 ''running'' 4 None, sample_job ''b'' 2 ''queued'' 0 None]) = Inr (Some job, db') \<and>
    (\<forall>t. t < cj_lease job \<longrightarrow> list_ex (holds_lease (cj_authority job) t) (db_jobs db'))"
proof -
  let ?db = "jobs_db [sample_job ''a'' 1 ''running'' 4 None, sample_job ''b'' 2 ''queued'' 0 None]"
  obtain job db' where c: "claimConversionJob ''i'' 1 ''w'' 60000000000 0 [] 100 ?db = Inr (Some job, db')" using sample_claim by blast
  have "distinct (map jo_id (db_jobs ?db))" by (simp add: jobs_db_def sample_job_def)
  from conversion_claim_exclusive [OF c this] have "\<forall>t. t < cj_lease job \<longrightarrow> list_ex (holds_lease (cj_authority job) t) (db_jobs db')" by auto
  with c show ?thesis by blast
qed

theorem publication_claim_in_order_witness:
  "\<exists>job db'. claimPublicationJob ''i'' 1 1 3 ''w'' 60000000000 100 (jobs_db [sample_job ''a'' 1 ''prepared'' 4 (Some ''o'')]) = Inr (Some job, db') \<and>
    ja_fence (pj_authority job) = 5 \<and> pj_seq job = 9"
proof -
  let ?db = "jobs_db [sample_job ''a'' 1 ''prepared'' 4 (Some ''o'')]"
  obtain job db' where c: "claimPublicationJob ''i'' 1 1 3 ''w'' 60000000000 100 ?db = Inr (Some job, db')"
    by (simp add: claimPublicationJob_def maxLease_def lockRuntimeGeneration_def check_def jobs_db_def sample_job_def publishable_def refence_intents_def
      claimed_intents_def add64_id int64_def)
  have "distinct (map jo_id (db_jobs ?db))" "distinct (map in_id (db_intents ?db))" by (simp_all add: jobs_db_def sample_job_def)
  from publication_claim_in_order [OF c this] show ?thesis using c by (auto simp: jobs_db_def sample_job_def add64_id int64_def)
qed

end
