(* ===== verification/Publish.thy ===== *)
theory Publish
  imports ManifestPager IssueStore Jobs
begin

section \<open>Publishing a prepared output\<close>

text \<open>
  \<open>internal/control/publish.go\<close>: the transaction that makes a prepared output part of the catalog.
  It checks the job's authority, reads the stored manifest again, checks every object of it, inserts
  the catalog rows, publishes the issue occurrences and moves the lane forward by one batch. The
  rows of \<open>file_blocks\<close> and \<open>bundle_projects\<close> are kept as lists in the rows of their file and bundle.
\<close>

record publish_command =
  pc_authority :: job_authority
  pc_tenant :: int
  pc_lane :: int
  pc_seq :: int
  pc_output :: string
  pc_manifest :: string

record publish_result =
  px_generation :: int
  px_already :: bool

record prepared_intent =
  pi_role :: string
  pi_file :: file_manifest

definition validatePublishCommand :: "publish_command \<Rightarrow> bool" where
  "validatePublishCommand c = (0 < pc_tenant c \<and> 0 \<le> pc_lane c \<and> pc_lane c < LaneCount \<and> 0 < pc_seq c \<and> pc_output c \<noteq> [] \<and> validSHA (pc_manifest c) \<and>
    valid_authority (pc_authority c))"

definition owner_text :: "job_row \<Rightarrow> string" where
  "owner_text j = (case jo_owner j of None \<Rightarrow> [] | Some w \<Rightarrow> w)"

definition lockPublishJob :: "publish_command \<Rightarrow> int \<Rightarrow> control_db \<Rightarrow> control_error + bool" where
  "lockPublishJob c now db =
    (let a = pc_authority c in
     case find (\<lambda>j. jo_id j = ja_job a) (db_jobs db) of None \<Rightarrow> Inl ErrNoRows
     | Some j \<Rightarrow>
       if jo_tenant j \<noteq> pc_tenant c \<or> jo_lane j \<noteq> pc_lane c \<or> jo_seq j \<noteq> pc_seq c \<or> jo_generation j \<noteq> ja_generation a \<or> jo_output j \<noteq> Some (pc_output c)
       then Inl ErrJobFenceStale
       else if jo_state j = ''completed'' then
         (case find (\<lambda>w. ou_id w = pc_output c) (db_outputs db) of None \<Rightarrow> Inl ErrNoRows
          | Some w \<Rightarrow> if ou_sha w = pc_manifest c \<and> ou_state w = ''published'' then Inr True else Inl ErrCompletedConflict)
       else if jo_state j \<noteq> ''running'' \<or> owner_text j \<noteq> ja_owner a \<or> jo_fence j \<noteq> ja_fence a \<or> \<not> lease_live now j then Inl ErrJobFenceStale
       else Inr False)"

definition root_in_scope :: "publish_command \<Rightarrow> output_root \<Rightarrow> bool" where
  "root_in_scope c r = (let h = rt_header r in oh_output h = pc_output c \<and> oh_job h = ja_job (pc_authority c) \<and> oh_tenant h = pc_tenant c \<and>
    oh_lane h = pc_lane c \<and> oh_seq h = pc_seq c)"

definition lockPreparedOutput :: "publish_command \<Rightarrow> control_db \<Rightarrow> control_error + output_root" where
  "lockPreparedOutput c db =
    (case find (\<lambda>w. ou_tenant w = pc_tenant c \<and> ou_id w = pc_output c \<and> ou_job w = ja_job (pc_authority c)) (db_outputs db) of None \<Rightarrow> Inl ErrNoRows
     | Some w \<Rightarrow>
       if ou_sha w \<noteq> pc_manifest c \<or> ou_state w \<noteq> ''prepared'' then Inl ErrOutputMismatch
       else if sha256_hex (ou_header w) \<noteq> ou_sha w then Inl ErrManifest
       else case strictControlJSON root_of (ou_header w) of None \<Rightarrow> Inl ErrManifest
         | Some r \<Rightarrow> if rootCanonicalJSON r \<noteq> Inr (ou_header w) \<or> \<not> root_in_scope c r then Inl ErrManifest else Inr r)"

definition validatePublishBatch :: "publish_command \<Rightarrow> output_root \<Rightarrow> control_db \<Rightarrow> control_error + unit" where
  "validatePublishBatch c r db =
    (case find (\<lambda>b. ba_tenant b = pc_tenant c \<and> ba_lane b = pc_lane c \<and> ba_seq b = pc_seq c) (db_batches db) of None \<Rightarrow> Inl ErrNoRows
     | Some b \<Rightarrow> check (ba_state b = ''accepted'' \<and> ba_journal_sha b = oh_journal (rt_header r) \<and> ba_accepted b = oh_records (rt_header r)) ErrInputDiffers)"

subsection \<open>Walking the stored parts\<close>

text \<open>A part is accepted when it decodes strictly and is the encoding of what it decodes to.\<close>

definition decode_part :: "nat \<Rightarrow> string \<Rightarrow> control_error + bundle_manifest list" where
  "decode_part index encoded =
    (case strictControlJSON part_of encoded of None \<Rightarrow> Inl ErrManifest
     | Some part \<Rightarrow>
       if op_version part \<noteq> OutputManifestVersion \<or> op_index part \<noteq> int index \<or> elems (op_bundles part) = [] then Inl ErrManifest
       else if marshalPart part \<noteq> encoded then Inl ErrManifest
       else Inr (elems (op_bundles part)))"

definition read_part :: "string \<Rightarrow> part_ref list \<Rightarrow> part_row list \<Rightarrow> nat \<Rightarrow> control_error + bundle_manifest list" where
  "read_part output refs parts index =
    (case find (\<lambda>p. pt_output p = output \<and> pt_index p = int index) parts of None \<Rightarrow> Inl ErrNoRows
     | Some p \<Rightarrow>
       if rf_index (refs ! index) \<noteq> int index \<or> rf_sha (refs ! index) \<noteq> pt_sha p then Inl ErrManifest
       else if sha256_hex (pt_json p) \<noteq> pt_sha p then Inl ErrManifest
       else decode_part index (pt_json p))"

definition walkDurableParts :: "string \<Rightarrow> output_root \<Rightarrow> part_row list \<Rightarrow> ('s \<Rightarrow> bundle_manifest \<Rightarrow> control_error + 's) \<Rightarrow> 's \<Rightarrow> control_error + 's" where
  "walkDurableParts output r parts consume s =
    (let refs = elems (rt_parts r) in
     bindR (foldR (\<lambda>s index. bindR (read_part output refs parts index) (foldR consume s)) s [0..<length refs]) (\<lambda>s'.
       if length (filter (\<lambda>p. pt_output p = output) parts) \<noteq> length refs then Inl ErrManifest else Inr s'))"

definition prepared_file_ok :: "int \<Rightarrow> file_manifest \<Rightarrow> bool" where
  "prepared_file_ok seq f = (fm_file f \<noteq> [] \<and> fm_intent f \<noteq> [] \<and> 0 < fm_bytes f \<and> validSHA (fm_sha f) \<and> fm_min_event f \<le> fm_max_event f \<and>
    fm_min_received f \<le> fm_max_received f \<and> fm_min_seq f = seq \<and> fm_max_seq f = seq \<and> int (length (elems (fm_blocks f))) = block_count (fm_bytes f) \<and>
    blocks_ok validSHA (elems (fm_blocks f)))"

definition validatePreparedBundle :: "int \<Rightarrow> bundle_manifest \<Rightarrow> control_error + unit" where
  "validatePreparedBundle seq b = check (bm_bundle b \<noteq> [] \<and> validEventDay (bm_day b) \<and> bm_seq_min b = seq \<and> bm_seq_max b = seq \<and> 0 < bm_rows b \<and>
    validSHA (bm_identity b) \<and> elems (bm_projects b) \<noteq> [] \<and> fm_role (bm_analytics b) = ''analytics'' \<and> fm_role (bm_payload b) = ''payload'' \<and>
    fm_rows (bm_analytics b) = bm_rows b \<and> fm_rows (bm_payload b) = bm_rows b \<and> (bm_kind b = KindError \<or> bm_kind b = KindLog \<or> bm_kind b = KindTransaction) \<and>
    projects_ordered (elems (bm_projects b)) \<and> prepared_file_ok seq (bm_analytics b) \<and> prepared_file_ok seq (bm_payload b)) ErrManifest"

type_synonym inspection = "(string \<times> prepared_intent) list \<times> (int \<times> int \<times> int)"

definition bundle_intents :: "bundle_manifest \<Rightarrow> (string \<times> prepared_intent) list" where
  "bundle_intents b = [(fm_intent (bm_analytics b), \<lparr>pi_role = ''analytics'', pi_file = bm_analytics b\<rparr>), (fm_intent (bm_payload b), \<lparr>pi_role = ''payload'', pi_file = bm_payload b\<rparr>)]"

text \<open>The two files of a bundle are visited in map order, which does not matter: both must be new.\<close>

definition inspect_bundle :: "int \<Rightarrow> inspection \<Rightarrow> bundle_manifest \<Rightarrow> control_error + inspection" where
  "inspect_bundle seq s b = bindR (validatePreparedBundle seq b) (\<lambda>_.
    let a = fm_intent (bm_analytics b); p = fm_intent (bm_payload b) in
    if a \<in> fst ` set (fst s) \<or> p \<in> fst ` set (fst s) \<or> a = p then Inl ErrManifest
    else Inr (fst s @ bundle_intents b, tally (snd s) b))"

definition inspectDurableParts :: "publish_command \<Rightarrow> output_root \<Rightarrow> control_db \<Rightarrow> control_error + inspection" where
  "inspectDurableParts c r db = walkDurableParts (pc_output c) r (db_parts db) (inspect_bundle (pc_seq c)) ([], (0, 0, 0))"

subsection \<open>The objects of the output\<close>

definition intent_matches :: "publish_command \<Rightarrow> prepared_intent \<Rightarrow> intent_row \<Rightarrow> bool" where
  "intent_matches c want i = (let a = pc_authority c in
    in_kind i = pi_role want \<and> in_state i = ''referenced'' \<and> in_owner i = ja_owner a \<and> in_fence i = ja_fence a \<and> in_generation i = ja_generation a \<and>
    in_bytes i = fm_bytes (pi_file want) \<and> in_uploaded_bytes i = Some (in_bytes i) \<and> in_sha i = fm_sha (pi_file want) \<and> in_uploaded_sha i = Some (in_sha i) \<and>
    in_job i = Some (ja_job a) \<and> in_producer_generation i = Some (in_generation i) \<and> in_producer_fence i = Some (in_fence i))"

definition scannable :: "intent_row \<Rightarrow> bool" where
  "scannable i = (in_uploaded_bytes i \<noteq> None \<and> in_uploaded_sha i \<noteq> None \<and> in_job i \<noteq> None \<and> in_producer_generation i \<noteq> None \<and> in_producer_fence i \<noteq> None)"

definition lock_intent :: "publish_command \<Rightarrow> (string \<times> prepared_intent) list \<Rightarrow> control_db \<Rightarrow> string \<Rightarrow> control_error + unit" where
  "lock_intent c intents db k =
    (case (map_of intents k, find (\<lambda>i. in_tenant i = pc_tenant c \<and> in_id i = k) (db_intents db)) of
       (Some want, Some i) \<Rightarrow> if \<not> scannable i then Inl ErrScan else check (intent_matches c want i) ErrIntentStale
     | _ \<Rightarrow> Inl ErrNoRows)"

definition lockPublishIntents :: "publish_command \<Rightarrow> (string \<times> prepared_intent) list \<Rightarrow> control_db \<Rightarrow> control_error + unit" where
  "lockPublishIntents c intents db = foldR (\<lambda>_. lock_intent c intents db) () (sortBy byte_less (map fst intents))"

subsection \<open>Catalog rows\<close>

definition bundle_row_of :: "publish_command \<Rightarrow> output_root \<Rightarrow> int \<Rightarrow> bundle_manifest \<Rightarrow> bundle_row" where
  "bundle_row_of c r gen b = \<lparr>bu_id = bm_bundle b, bu_tenant = pc_tenant c, bu_lane = pc_lane c, bu_schema = 1, bu_gversion = oh_gversion (rt_header r),
    bu_day = bm_day b, bu_kind = bm_kind b, bu_seq_min = bm_seq_min b, bu_seq_max = bm_seq_max b, bu_rows = bm_rows b, bu_identity = bm_identity b,
    bu_generation = gen, bu_projects = elems (bm_projects b), bu_valid_to = None, bu_retired = None, bu_reserved = None\<rparr>"

definition file_row_of :: "publish_command \<Rightarrow> bundle_manifest \<Rightarrow> file_manifest \<Rightarrow> file_row" where
  "file_row_of c b f = \<lparr>fi_id = fm_file f, fi_tenant = pc_tenant c, fi_bundle = bm_bundle b, fi_intent = fm_intent f, fi_role = fm_role f, fi_bytes = fm_bytes f,
    fi_sha = fm_sha f, fi_rows = fm_rows f, fi_min_event = fm_min_event f, fi_max_event = fm_max_event f, fi_min_received = fm_min_received f,
    fi_max_received = fm_max_received f, fi_min_seq = fm_min_seq f, fi_max_seq = fm_max_seq f,
    fi_blocks = map (\<lambda>k. (fb_index k, fb_sha k)) (elems (fm_blocks f))\<rparr>"

definition bundle_files :: "publish_command \<Rightarrow> bundle_manifest \<Rightarrow> file_row list" where
  "bundle_files c b = [file_row_of c b (bm_analytics b), file_row_of c b (bm_payload b)]"

text \<open>\<open>files\<close> is unique in its identifier, in (tenant, intent) and in (bundle, role); \<open>bundles\<close> in its identifier.\<close>

definition file_conflict :: "file_row \<Rightarrow> file_row \<Rightarrow> bool" where
  "file_conflict f g = (fi_id f = fi_id g \<or> fi_tenant f = fi_tenant g \<and> fi_intent f = fi_intent g \<or> fi_bundle f = fi_bundle g \<and> fi_role f = fi_role g)"

definition insert_file :: "control_db \<Rightarrow> file_row \<Rightarrow> control_error + control_db" where
  "insert_file db f =
    (if list_ex (file_conflict f) (db_files db) \<or> \<not> distinct (map fst (fi_blocks f)) then Inl ErrUnique else Inr (db\<lparr>db_files := db_files db @ [f]\<rparr>))"

definition insert_bundle :: "publish_command \<Rightarrow> output_root \<Rightarrow> int \<Rightarrow> control_db \<Rightarrow> bundle_manifest \<Rightarrow> control_error + control_db" where
  "insert_bundle c r gen db b =
    (let row = bundle_row_of c r gen b in
     if list_ex (\<lambda>x. bu_id x = bu_id row) (db_bundles db) then Inl ErrUnique
     else bindR (foldR insert_file (db\<lparr>db_bundles := db_bundles db @ [row]\<rparr>) (bundle_files c b)) (\<lambda>db'.
       if \<not> distinct (bu_projects row) then Inl ErrUnique else Inr db'))"

definition insertPublishedCatalog :: "publish_command \<Rightarrow> output_root \<Rightarrow> int \<Rightarrow> control_db \<Rightarrow> control_error + control_db" where
  "insertPublishedCatalog c r gen db = walkDurableParts (pc_output c) r (db_parts db) (insert_bundle c r gen) db"

subsection \<open>The transaction\<close>

definition mark_published :: "publish_command \<Rightarrow> control_db \<Rightarrow> control_db" where
  "mark_published c db = db\<lparr>
    db_outputs := update_where (\<lambda>w. ou_id w = pc_output c \<and> ou_state w = ''prepared'') (\<lambda>w. w\<lparr>ou_state := ''published''\<rparr>) (db_outputs db),
    db_batches := update_where (\<lambda>b. ba_tenant b = pc_tenant c \<and> ba_lane b = pc_lane c \<and> ba_seq b = pc_seq c \<and> ba_state b = ''accepted'')
      (\<lambda>b. b\<lparr>ba_state := ''published''\<rparr>) (db_batches db)\<rparr>"

definition complete_job :: "job_authority \<Rightarrow> int \<Rightarrow> control_db \<Rightarrow> control_error + control_db" where
  "complete_job a now db =
    (let P = (\<lambda>j. jo_id j = ja_job a \<and> jo_state j = ''running'' \<and> jo_owner j = Some (ja_owner a) \<and> jo_fence j = ja_fence a) in
     if affected P (db_jobs db) \<noteq> 1 then Inl ErrJobFenceStale
     else Inr (db\<lparr>db_jobs := update_where P (\<lambda>j. j\<lparr>jo_state := ''completed'', jo_owner := None, jo_lease := None, jo_updated := now\<rparr>) (db_jobs db)\<rparr>))"

definition advance_lane :: "publish_command \<Rightarrow> lane_row \<Rightarrow> int \<Rightarrow> control_db \<Rightarrow> control_error + control_db" where
  "advance_lane c l gen db =
    (let P = (\<lambda>x. la_tenant x = pc_tenant c \<and> la_id x = pc_lane c \<and> la_published x = la_published l \<and> la_generation x = la_generation l) in
     if affected P (db_lanes db) \<noteq> 1 then Inl ErrLaneCAS
     else Inr (db\<lparr>db_lanes := update_where P (\<lambda>x. x\<lparr>la_published := pc_seq c, la_generation := gen\<rparr>) (db_lanes db)\<rparr>))"

definition publish_output :: "publish_command \<Rightarrow> lane_row \<Rightarrow> int \<Rightarrow> control_db \<Rightarrow> control_error + publish_result \<times> control_db" where
  "publish_output c l now db =
    bindR (lockPreparedOutput c db) (\<lambda>r.
    bindR (validatePublishBatch c r db) (\<lambda>_.
    bindR (inspectDurableParts c r db) (\<lambda>(intents, n, rows, errs).
      if n \<noteq> oh_bundles (rt_header r) \<or> rows \<noteq> oh_records (rt_header r) \<or> errs \<noteq> oh_errors (rt_header r) then Inl ErrManifest
      else bindR (lockPublishIntents c intents db) (\<lambda>_.
        let gen = la_generation l + 1 in
        bindR (insertPublishedCatalog c r gen db) (\<lambda>db1.
        bindR (publishIssueOccurrences (pc_tenant c) (pc_output c) db1) (\<lambda>db2.
        bindR (complete_job (pc_authority c) now (mark_published c db2)) (\<lambda>db3.
        bindR (advance_lane c l gen db3) (\<lambda>db4. Inr (\<lparr>px_generation = gen, px_already = False\<rparr>, db4)))))))))"

definition publish :: "publish_command \<Rightarrow> int \<Rightarrow> control_db \<Rightarrow> control_error + publish_result \<times> control_db" where
  "publish c now db =
    (if \<not> validatePublishCommand c then Inl ErrInvalidCommand
     else bindR (lockRuntimeGeneration (ja_installation (pc_authority c)) (ja_generation (pc_authority c)) db) (\<lambda>_.
       case find (\<lambda>l. la_tenant l = pc_tenant c \<and> la_id l = pc_lane c) (db_lanes db) of None \<Rightarrow> Inl ErrNoRows
       | Some l \<Rightarrow> bindR (lockPublishJob c now db) (\<lambda>already.
           if already then Inr (\<lparr>px_generation = la_generation l, px_already = True\<rparr>, db)
           else if pc_seq c \<noteq> add64 (la_published l) 1 \<or> la_generation l = maxInt64 then Inl ErrNotNextBatch
           else publish_output c l now db)))"

subsection \<open>The stored bundles\<close>

lemma fold_read:
  assumes "foldR (\<lambda>s i. bindR (f i) (foldR g s)) s is = Inr s'"
  shows "\<exists>bss. mapR f is = Inr bss \<and> foldR g s (concat bss) = Inr s'"
  using assms
proof (induction "is" arbitrary: s)
  case (Cons i "is")
  then obtain bs s1 where i: "f i = Inr bs" "foldR g s bs = Inr s1" "foldR (\<lambda>s i. bindR (f i) (foldR g s)) s1 is = Inr s'" by (auto simp: bindR_eq_Inr)
  then obtain bss where "mapR f is = Inr bss" "foldR g s1 (concat bss) = Inr s'" using Cons.IH by blast
  then show ?case using i by (intro exI [of _ "bs # bss"]) (simp add: foldR_append)
qed simp

definition stored_bundles :: "string \<Rightarrow> output_root \<Rightarrow> part_row list \<Rightarrow> bundle_manifest list" where
  "stored_bundles output r parts =
    (case mapR (read_part output (elems (rt_parts r)) parts) [0..<length (elems (rt_parts r))] of Inl _ \<Rightarrow> [] | Inr bss \<Rightarrow> concat bss)"

lemma walk_stored:
  assumes "walkDurableParts output r parts consume s = Inr s'"
  shows "foldR consume s (stored_bundles output r parts) = Inr s'"
proof -
  let ?refs = "elems (rt_parts r)"
  have "foldR (\<lambda>s index. bindR (read_part output ?refs parts index) (foldR consume s)) s [0..<length ?refs] = Inr s'"
    using assms by (auto simp: walkDurableParts_def Let_def bindR_eq_Inr split: if_splits)
  from fold_read [OF this] show ?thesis by (auto simp: stored_bundles_def)
qed

subsection \<open>What each step keeps\<close>

text \<open>The tables that publishing occurrences leaves alone.\<close>

definition frame :: "control_db \<Rightarrow> _" where
  "frame db = (db_installation db, db_generation db, db_lanes db, db_jobs db, db_outputs db, db_parts db, db_intents db, db_batches db, db_bundles db, db_files db, db_snapshots db, db_tasks db, db_inputs db)"

lemma frame_occurrence: "insertIssueOccurrence tenant d db = (ok, db') \<Longrightarrow> frame db' = frame db"
  by (auto simp: insertIssueOccurrence_def frame_def split: if_splits)

lemma frame_transition: "insertIssueTransition tenant d n tr db = Inr db' \<Longrightarrow> frame db' = frame db"
  by (auto simp: insertIssueTransition_def insert_transition_def frame_def split: if_splits)

lemma frame_create:
  assumes "create_issue tenant d db = Inr (db', st, started)"
  shows "frame db' = frame db"
  using assms
proof (cases rule: create_issue_cases)
  case (new title created tr)
  obtain db2 t where "insertIssueOccurrence tenant d (db\<lparr>db_issues := db_issues db @ [new_issue_row tenant d created]\<rparr>) = (True, db2)"
    "insertIssueTransition tenant d (i_revision created) t db2 = Inr db'" using insert_new_issue_cases [OF new(4)] by blast
  then have "frame db' = frame (db\<lparr>db_issues := db_issues db @ [new_issue_row tenant d created]\<rparr>)" using frame_occurrence frame_transition by metis
  then show ?thesis by (simp add: frame_def)
qed simp

lemma frame_publish_one:
  assumes "publish_one tenant (db, st) d = Inr (db', st')"
  shows "frame db' = frame db"
proof -
  obtain ok db1 where ins: "insertIssueOccurrence tenant d db = (ok, db1)" by (meson surj_pair)
  have "db' = db \<or> db' = db1 \<or> (\<exists>n x. insertIssueTransition tenant d n x db1 = Inr db')"
    using assms ins by (cases ok) (auto simp: publish_one_def bindR_eq_Inr split: option.splits prod.splits)
  then show ?thesis using frame_occurrence [OF ins] frame_transition by metis
qed

lemma frame_publish_all: "foldR (publish_one tenant) (db, st) ds = Inr (db', st') \<Longrightarrow> frame db' = frame db"
proof (induction ds arbitrary: db st)
  case (Cons d ds)
  then obtain db1 st1 where "publish_one tenant (db, st) d = Inr (db1, st1)" "foldR (publish_one tenant) (db1, st1) ds = Inr (db', st')"
    by (auto simp: bindR_eq_Inr)
  then show ?case using Cons.IH frame_publish_one by metis
qed simp

lemma frame_group:
  assumes "publishIssueGroup tenant db ds = Inr db'"
  shows "frame db' = frame db"
proof -
  obtain first rest db1 st started db2 fin where g: "ds = first # rest" "consistent_group first ds"
    "loadIssueState tenant (du_project first) (du_issue first) (du_gversion first) (du_fingerprint first) db = Inr (Some st) \<and> db1 = db \<and> \<not> started \<or>
     loadIssueState tenant (du_project first) (du_issue first) (du_gversion first) (du_fingerprint first) db = Inr None \<and> create_issue tenant first db = Inr (db1, st, started)"
    "foldR (publish_one tenant) (db1, st) (if started then tl ds else ds) = Inr (db2, fin)"
    "db' = update_issue tenant (du_project first) (du_issue first) fin db2"
    using publishIssueGroup_cases [OF assms] .
  have "frame db1 = frame db" using g(3) frame_create by blast
  then show ?thesis using frame_publish_all [OF g(4)] by (simp add: g(5) update_issue_def frame_def)
qed

lemma frame_pages: "publish_pages tenant rows cursor db = Inr db' \<Longrightarrow> frame db' = frame db"
proof (induction tenant rows cursor db arbitrary: db' rule: publish_pages.induct)
  case (1 tenant rows cursor db)
  show ?case
  proof (cases "take 512 (after_cursor cursor rows) = []")
    case True
    then show ?thesis using 1(2) by (simp add: publish_pages.simps [of tenant rows cursor db])
  next
    case False
    then obtain d1 where d1: "publishIssueGroup tenant db (take 512 (after_cursor cursor rows)) = Inr d1"
      "(if length (take 512 (after_cursor cursor rows)) < 512 then Inr d1
        else publish_pages tenant rows (Some (du_tuple (last (take 512 (after_cursor cursor rows))))) d1) = Inr db'"
      using 1(2) by (subst (asm) publish_pages.simps) (auto simp: Let_def bindR_eq_Inr)
    then show ?thesis using frame_group [OF d1(1)] 1(1) [OF refl False] by (auto split: if_splits)
  qed
qed

lemma frame_occurrences:
  assumes "publishIssueOccurrences tenant output db = Inr db'"
  shows "frame db' = frame db"
  by (rule foldR_invariant [where P = "\<lambda>d. frame d = frame db", OF assms [unfolded publishIssueOccurrences_def]]) (simp, metis frame_pages)

lemma insert_bundle_eq:
  assumes "insert_bundle c r gen db b = Inr db'"
  shows "db' = db\<lparr>db_bundles := db_bundles db @ [bundle_row_of c r gen b], db_files := db_files db @ bundle_files c b\<rparr>"
  using assms by (auto simp: insert_bundle_def insert_file_def bundle_files_def Let_def bindR_eq_Inr split: if_splits)

lemma insert_catalog_eq:
  "foldR (insert_bundle c r gen) db bs = Inr db' \<Longrightarrow>
   db' = db\<lparr>db_bundles := db_bundles db @ map (bundle_row_of c r gen) bs,
     db_files := db_files db @ concat (map (bundle_files c) bs)\<rparr>"
proof (induction bs arbitrary: db)
  case (Cons b bs)
  then obtain db1 where i: "insert_bundle c r gen db b = Inr db1" "foldR (insert_bundle c r gen) db1 bs = Inr db'" by (auto simp: bindR_eq_Inr)
  show ?case using Cons.IH [OF i(2)] by (simp add: insert_bundle_eq [OF i(1)])
qed simp

lemma inspect_intents:
  assumes "foldR (inspect_bundle seq) (is, t) bs = Inr (is', t')"
  shows "t' = foldl tally t bs \<and> list_all (\<lambda>b. validatePreparedBundle seq b = Inr ()) bs \<and>
    is' = is @ concat (map bundle_intents bs) \<and>
    (distinct (map fst is) \<longrightarrow> distinct (map fst is'))"
  using assms
proof (induction bs arbitrary: "is" t)
  case (Cons b bs)
  then obtain is1 t1 where i: "inspect_bundle seq (is, t) b = Inr (is1, t1)" "foldR (inspect_bundle seq) (is1, t1) bs = Inr (is', t')"
    by (auto simp: bindR_eq_Inr)
  have b: "validatePreparedBundle seq b = Inr ()" "t1 = tally t b" "fm_intent (bm_analytics b) \<noteq> fm_intent (bm_payload b)"
    "fm_intent (bm_analytics b) \<notin> fst ` set is" "fm_intent (bm_payload b) \<notin> fst ` set is"
    "is1 = is @ bundle_intents b"
    using i(1) by (auto simp: inspect_bundle_def bindR_eq_Inr Let_def split: if_splits)
  note IH = Cons.IH [OF i(2)]
  have "distinct (map fst is1)" if "distinct (map fst is)" using that b by (auto simp: bundle_intents_def)
  then have d: "distinct (map fst is) \<longrightarrow> distinct (map fst is')" using IH by blast
  have "t' = foldl tally t (b # bs)" "list_all (\<lambda>b. validatePreparedBundle seq b = Inr ()) (b # bs)" using IH b by simp_all
  moreover have "is' = is @ concat (map bundle_intents (b # bs))"
    using IH b(6) by simp
  ultimately show ?case using d by blast
qed simp

lemma lock_intents_all:
  assumes "lockPublishIntents c intents db = Inr u" "(k, want) \<in> set intents" "distinct (map fst intents)"
  shows "\<exists>i \<in> set (db_intents db). in_id i = k \<and> in_tenant i = pc_tenant c \<and> intent_matches c want i"
proof -
  have each: "lock_intent c intents db x = Inr ()" if "foldR (\<lambda>_. lock_intent c intents db) () xs = Inr u" "x \<in> set xs" for xs x
    using that by (induction xs) (auto simp: bindR_eq_Inr)
  have "k \<in> set (sortBy byte_less (map fst intents))" using assms(2) by force
  then have "lock_intent c intents db k = Inr ()" using each assms(1) unfolding lockPublishIntents_def by blast
  moreover have "map_of intents k = Some want" using assms(2,3) by simp
  ultimately obtain i where i: "find (\<lambda>i. in_tenant i = pc_tenant c \<and> in_id i = k) (db_intents db) = Some i" "intent_matches c want i"
    by (auto simp: lock_intent_def check_def split: option.splits if_splits)
  then show ?thesis using find_SomeD [OF i(1)] by blast
qed

lemma inspected:
  assumes "inspectDurableParts c r db = Inr (intents, t)"
  defines "bs \<equiv> stored_bundles (pc_output c) r (db_parts db)"
  shows "totals bs = t \<and> list_all (\<lambda>b. validatePreparedBundle (pc_seq c) b = Inr ()) bs \<and> distinct (map fst intents) \<and>
    intents = concat (map bundle_intents bs)"
  using inspect_intents [OF walk_stored [OF assms(1) [unfolded inspectDurableParts_def]]] unfolding bs_def totals_def by auto

subsection \<open>A publication, taken apart\<close>

lemma publish_output_cases:
  assumes "publish_output c l now db = Inr (res, db')"
  obtains r intents db1 db2 db3 where "lockPreparedOutput c db = Inr r" "validatePublishBatch c r db = Inr ()"
    "inspectDurableParts c r db = Inr (intents, oh_bundles (rt_header r), oh_records (rt_header r), oh_errors (rt_header r))" "lockPublishIntents c intents db = Inr ()"
    "insertPublishedCatalog c r (la_generation l + 1) db = Inr db1" "publishIssueOccurrences (pc_tenant c) (pc_output c) db1 = Inr db2"
    "complete_job (pc_authority c) now (mark_published c db2) = Inr db3" "advance_lane c l (la_generation l + 1) db3 = Inr db'"
    "res = \<lparr>px_generation = la_generation l + 1, px_already = False\<rparr>"
proof -
  obtain r where r: "lockPreparedOutput c db = Inr r" using assms by (cases "lockPreparedOutput c db") (simp_all add: publish_output_def)
  have b: "validatePublishBatch c r db = Inr ()" using assms r by (cases "validatePublishBatch c r db") (simp_all add: publish_output_def)
  obtain x where x: "inspectDurableParts c r db = Inr x" using assms r b by (cases "inspectDurableParts c r db") (simp_all add: publish_output_def)
  obtain intents n rows errs where x': "x = (intents, n, rows, errs)" by (cases x) auto
  have t: "n = oh_bundles (rt_header r)" "rows = oh_records (rt_header r)" "errs = oh_errors (rt_header r)"
    using assms r b x x' by (auto simp: publish_output_def split: if_splits)
  have i: "lockPublishIntents c intents db = Inr ()" using assms r b x x' t by (cases "lockPublishIntents c intents db") (simp_all add: publish_output_def)
  obtain db1 where d1: "insertPublishedCatalog c r (la_generation l + 1) db = Inr db1"
    using assms r b x x' t i by (cases "insertPublishedCatalog c r (la_generation l + 1) db") (simp_all add: publish_output_def)
  obtain db2 where d2: "publishIssueOccurrences (pc_tenant c) (pc_output c) db1 = Inr db2"
    using assms r b x x' t i d1 by (cases "publishIssueOccurrences (pc_tenant c) (pc_output c) db1") (simp_all add: publish_output_def)
  obtain db3 where d3: "complete_job (pc_authority c) now (mark_published c db2) = Inr db3"
    using assms r b x x' t i d1 d2 by (cases "complete_job (pc_authority c) now (mark_published c db2)") (simp_all add: publish_output_def)
  obtain db4 where d4: "advance_lane c l (la_generation l + 1) db3 = Inr db4"
    using assms r b x x' t i d1 d2 d3 by (cases "advance_lane c l (la_generation l + 1) db3") (simp_all add: publish_output_def)
  have "db4 = db'" "res = \<lparr>px_generation = la_generation l + 1, px_already = False\<rparr>" using assms r b x x' t i d1 d2 d3 d4 by (simp_all add: publish_output_def)
  then show thesis using that [OF r b _ i d1 d2 d3] x x' t d4 by simp
qed

lemma publish_cases:
  assumes "publish c now db = Inr (res, db')"
  obtains (already) "px_already res" "db' = db"
  | (fresh) l where "find (\<lambda>l. la_tenant l = pc_tenant c \<and> la_id l = pc_lane c) (db_lanes db) = Some l" "lockPublishJob c now db = Inr False"
      "pc_seq c = add64 (la_published l) 1" "la_generation l \<noteq> maxInt64" "publish_output c l now db = Inr (res, db')" "\<not> px_already res"
      "validatePublishCommand c" "lockRuntimeGeneration (ja_installation (pc_authority c)) (ja_generation (pc_authority c)) db = Inr ()"
proof -
  have v: "validatePublishCommand c" using assms by (auto simp: publish_def split: if_splits)
  have g: "lockRuntimeGeneration (ja_installation (pc_authority c)) (ja_generation (pc_authority c)) db = Inr ()"
    using assms v by (cases "lockRuntimeGeneration (ja_installation (pc_authority c)) (ja_generation (pc_authority c)) db") (simp_all add: publish_def)
  obtain l where l: "find (\<lambda>l. la_tenant l = pc_tenant c \<and> la_id l = pc_lane c) (db_lanes db) = Some l"
    using assms v g by (cases "find (\<lambda>l. la_tenant l = pc_tenant c \<and> la_id l = pc_lane c) (db_lanes db)") (simp_all add: publish_def)
  obtain a where a: "lockPublishJob c now db = Inr a" using assms v g l by (cases "lockPublishJob c now db") (simp_all add: publish_def)
  show thesis
  proof (cases a)
    case True
    then have "res = \<lparr>px_generation = la_generation l, px_already = True\<rparr>" "db' = db" using assms v g l a by (simp_all add: publish_def)
    then show thesis using already by simp
  next
    case False
    have n: "pc_seq c = add64 (la_published l) 1 \<and> la_generation l \<noteq> maxInt64" using assms v g l a False by (simp add: publish_def split: if_splits)
    then have p: "publish_output c l now db = Inr (res, db')" using assms v g l a False by (simp add: publish_def)
    have "\<not> px_already res" by (rule publish_output_cases [OF p]) simp
    then show thesis using fresh [OF l _ _ _ p _ v g] a False n by simp
  qed
qed

lemma lockPublishJob_running:
  assumes "lockPublishJob c now db = Inr False"
  obtains j where "find (\<lambda>j. jo_id j = ja_job (pc_authority c)) (db_jobs db) = Some j" "jo_tenant j = pc_tenant c" "jo_lane j = pc_lane c" "jo_seq j = pc_seq c"
    "jo_generation j = ja_generation (pc_authority c)" "jo_output j = Some (pc_output c)" "jo_state j = ''running''" "owner_text j = ja_owner (pc_authority c)"
    "jo_fence j = ja_fence (pc_authority c)" "lease_live now j"
  using assms by (auto simp: lockPublishJob_def Let_def split: option.splits if_splits)

lemma lockPreparedOutput_row:
  assumes "lockPreparedOutput c db = Inr r"
  obtains w where "find (\<lambda>w. ou_tenant w = pc_tenant c \<and> ou_id w = pc_output c \<and> ou_job w = ja_job (pc_authority c)) (db_outputs db) = Some w"
    "ou_sha w = pc_manifest c" "ou_state w = ''prepared''" "sha256_hex (ou_header w) = pc_manifest c" "rootCanonicalJSON r = Inr (ou_header w)" "root_in_scope c r"
  using assms by (auto simp: lockPreparedOutput_def split: option.splits if_splits)

lemma complete_job_eq:
  assumes "complete_job a now db = Inr db'"
  defines "P \<equiv> (\<lambda>j. jo_id j = ja_job a \<and> jo_state j = ''running'' \<and> jo_owner j = Some (ja_owner a) \<and> jo_fence j = ja_fence a)"
  shows "db' = db\<lparr>db_jobs := update_where P (\<lambda>j. j\<lparr>jo_state := ''completed'', jo_owner := None, jo_lease := None, jo_updated := now\<rparr>) (db_jobs db)\<rparr>"
  using assms(1) unfolding P_def by (simp add: complete_job_def Let_def split: if_splits)

lemma advance_lane_eq:
  assumes "advance_lane c l gen db = Inr db'"
  defines "P \<equiv> (\<lambda>x. la_tenant x = pc_tenant c \<and> la_id x = pc_lane c \<and> la_published x = la_published l \<and> la_generation x = la_generation l)"
  shows "db' = db\<lparr>db_lanes := update_where P (\<lambda>x. x\<lparr>la_published := pc_seq c, la_generation := gen\<rparr>) (db_lanes db)\<rparr>"
  using assms(1) unfolding P_def by (simp add: advance_lane_def Let_def split: if_splits)

text \<open>The tables after a publication.\<close>

lemma publish_tables:
  assumes "publish c now db = Inr (res, db')" "\<not> px_already res"
  obtains l r intents where "find (\<lambda>l. la_tenant l = pc_tenant c \<and> la_id l = pc_lane c) (db_lanes db) = Some l" "pc_seq c = add64 (la_published l) 1"
    "res = \<lparr>px_generation = la_generation l + 1, px_already = False\<rparr>" "lockPublishJob c now db = Inr False" "lockPreparedOutput c db = Inr r"
    "inspectDurableParts c r db = Inr (intents, oh_bundles (rt_header r), oh_records (rt_header r), oh_errors (rt_header r))" "lockPublishIntents c intents db = Inr ()"
    "db_lanes db' = update_where (\<lambda>x. la_tenant x = pc_tenant c \<and> la_id x = pc_lane c \<and> la_published x = la_published l \<and> la_generation x = la_generation l)
       (\<lambda>x. x\<lparr>la_published := pc_seq c, la_generation := la_generation l + 1\<rparr>) (db_lanes db)"
    "db_jobs db' = update_where (\<lambda>j. jo_id j = ja_job (pc_authority c) \<and> jo_state j = ''running'' \<and> jo_owner j = Some (ja_owner (pc_authority c)) \<and> jo_fence j = ja_fence (pc_authority c))
       (\<lambda>j. j\<lparr>jo_state := ''completed'', jo_owner := None, jo_lease := None, jo_updated := now\<rparr>) (db_jobs db)"
    "db_outputs db' = update_where (\<lambda>w. ou_id w = pc_output c \<and> ou_state w = ''prepared'') (\<lambda>w. w\<lparr>ou_state := ''published''\<rparr>) (db_outputs db)"
    "db_bundles db' = db_bundles db @ map (bundle_row_of c r (la_generation l + 1)) (stored_bundles (pc_output c) r (db_parts db))"
    "db_files db' = db_files db @ concat (map (bundle_files c) (stored_bundles (pc_output c) r (db_parts db)))"
    "db_intents db' = db_intents db" "db_installation db' = db_installation db" "db_generation db' = db_generation db" "db_parts db' = db_parts db"
    "validatePublishCommand c" "lockRuntimeGeneration (ja_installation (pc_authority c)) (ja_generation (pc_authority c)) db = Inr ()"
    "db_snapshots db' = db_snapshots db" "db_tasks db' = db_tasks db" "db_inputs db' = db_inputs db"
  using assms(1)
proof (cases rule: publish_cases)
  case already
  then show thesis using assms(2) by simp
next
  case (fresh l)
  obtain r intents db1 db2 db3 where o: "lockPreparedOutput c db = Inr r" 
    "inspectDurableParts c r db = Inr (intents, oh_bundles (rt_header r), oh_records (rt_header r), oh_errors (rt_header r))" "lockPublishIntents c intents db = Inr ()"
    "insertPublishedCatalog c r (la_generation l + 1) db = Inr db1" "publishIssueOccurrences (pc_tenant c) (pc_output c) db1 = Inr db2"
    "complete_job (pc_authority c) now (mark_published c db2) = Inr db3" "advance_lane c l (la_generation l + 1) db3 = Inr db'"
    "res = \<lparr>px_generation = la_generation l + 1, px_already = False\<rparr>" by (rule publish_output_cases [OF fresh(5)])
  have d1: "db1 = db\<lparr>db_bundles := db_bundles db @ map (bundle_row_of c r (la_generation l + 1)) (stored_bundles (pc_output c) r (db_parts db)),
     db_files := db_files db @ concat (map (bundle_files c) (stored_bundles (pc_output c) r (db_parts db)))\<rparr>"
    by (rule insert_catalog_eq [OF walk_stored [OF o(4) [unfolded insertPublishedCatalog_def]]])
  have d2: "frame db2 = frame db1" by (rule frame_occurrences [OF o(5)])
  show thesis
    by (rule that [OF fresh(1,3) o(8) fresh(2) o(1,2,3)])
      (insert d1 d2 fresh(7,8), simp_all add: advance_lane_eq [OF o(7)] complete_job_eq [OF o(6)] mark_published_def frame_def)
qed

subsection \<open>The catalog as an append-only log\<close>

text \<open>
  The abstract view of a lane: its last published batch, its catalog generation and the bundles of
  its catalog, each with the generation it appeared in. Publishing the next batch is one step.
\<close>

type_synonym lane_view = "int \<times> int \<times> (string \<times> int) list"

definition view_of :: "int \<Rightarrow> int \<Rightarrow> control_db \<Rightarrow> lane_view option" where
  "view_of tenant lane db = map_option (\<lambda>l. (la_published l, la_generation l,
      map (\<lambda>b. (bu_id b, bu_generation b)) (filter (\<lambda>b. bu_tenant b = tenant \<and> bu_lane b = lane) (db_bundles db))))
    (find (\<lambda>l. la_tenant l = tenant \<and> la_id l = lane) (db_lanes db))"

definition spec_publish :: "int \<Rightarrow> string list \<Rightarrow> lane_view \<Rightarrow> lane_view option" where
  "spec_publish seq ids v = (case v of (p, g, es) \<Rightarrow>
    if seq = p + 1 then Some (seq, g + 1, es @ map (\<lambda>i. (i, g + 1)) ids) else None)"

lemma next_seq: "int64 p \<Longrightarrow> 0 < s \<Longrightarrow> s = add64 p 1 \<Longrightarrow> s = p + 1"
  by (cases "p = maxInt64") (auto simp: add64_def wrap64_def int64_def)

lemma find_other_lane:
  assumes "\<And>r. P r \<Longrightarrow> \<not> Q r \<and> \<not> Q (f r)"
  shows "find Q (update_where P f rs) = find Q rs"
  using assms by (induction rs) (auto simp: update_where_def)

text \<open>
  C3: publication refines an append-only catalog. A successful publication is exactly one step of
  its lane's log: the batch after the last published one, the next generation, and the bundles of
  the stored manifest (whose counts are those of the signed root) appended under that generation.
  The log of every other lane stays as it is.
\<close>

theorem publish_refines_catalog_step:
  assumes "publish c now db = Inr (res, db')" "\<not> px_already res" "list_all (\<lambda>l. int64 (la_published l)) (db_lanes db)"
  shows "\<exists>r v v'. lockPreparedOutput c db = Inr r \<and> view_of (pc_tenant c) (pc_lane c) db = Some v \<and>
      spec_publish (pc_seq c) (map bm_bundle (stored_bundles (pc_output c) r (db_parts db))) v = Some v' \<and>
      view_of (pc_tenant c) (pc_lane c) db' = Some v' \<and> px_generation res = fst (snd v') \<and>
      totals (stored_bundles (pc_output c) r (db_parts db)) = (oh_bundles (rt_header r), oh_records (rt_header r), oh_errors (rt_header r)) \<and>
      (\<forall>tenant lane. (tenant, lane) \<noteq> (pc_tenant c, pc_lane c) \<longrightarrow> view_of tenant lane db' = view_of tenant lane db)"
  using assms(1,2)
proof (cases rule: publish_tables)
  case (1 l r intents)
  let ?bs = "stored_bundles (pc_output c) r (db_parts db)" and ?here = "\<lambda>l. la_tenant l = pc_tenant c \<and> la_id l = pc_lane c"
  let ?P = "\<lambda>x. la_tenant x = pc_tenant c \<and> la_id x = pc_lane c \<and> la_published x = la_published l \<and> la_generation x = la_generation l"
  let ?f = "\<lambda>x. x\<lparr>la_published := pc_seq c, la_generation := la_generation l + 1\<rparr>"
  have l: "?here l" "l \<in> set (db_lanes db)" using find_SomeD [OF 1(1)] by auto
  have "0 < pc_seq c" using 1(17) by (simp add: validatePublishCommand_def)
  then have seq: "pc_seq c = la_published l + 1" using next_seq [of "la_published l" "pc_seq c"] assms(3) l(2) 1(2) by (simp add: list_all_iff)
  have "find ?here (db_lanes db') = map_option (\<lambda>r. if ?P r then ?f r else r) (find ?here (db_lanes db))"
    unfolding 1(8) by (rule find_update_where) simp
  then have lane': "find ?here (db_lanes db') = Some (?f l)" using 1(1) l(1) by simp
  have entries: "filter (\<lambda>b. bu_tenant b = t \<and> bu_lane b = n) (db_bundles db') = filter (\<lambda>b. bu_tenant b = t \<and> bu_lane b = n) (db_bundles db) @
      (if t = pc_tenant c \<and> n = pc_lane c then map (bundle_row_of c r (la_generation l + 1)) ?bs else [])" for t n
    unfolding 1(11) by (auto simp: bundle_row_of_def filter_empty_conv)
  have other: "view_of t n db' = view_of t n db" if "(t, n) \<noteq> (pc_tenant c, pc_lane c)" for t n
  proof -
    have "find (\<lambda>l. la_tenant l = t \<and> la_id l = n) (db_lanes db') = find (\<lambda>l. la_tenant l = t \<and> la_id l = n) (db_lanes db)"
      unfolding 1(8) by (rule find_other_lane) (use that in auto)
    then show ?thesis using entries [of t n] that by (auto simp: view_of_def)
  qed
  have tot: "totals ?bs = (oh_bundles (rt_header r), oh_records (rt_header r), oh_errors (rt_header r))" using inspected [OF 1(6)] by blast
  let ?es = "map (\<lambda>b. (bu_id b, bu_generation b)) (filter (\<lambda>b. bu_tenant b = pc_tenant c \<and> bu_lane b = pc_lane c) (db_bundles db))"
  have v: "view_of (pc_tenant c) (pc_lane c) db = Some (la_published l, la_generation l, ?es)" using 1(1) by (simp add: view_of_def)
  have v': "view_of (pc_tenant c) (pc_lane c) db' = Some (pc_seq c, la_generation l + 1, ?es @ map (\<lambda>i. (i, la_generation l + 1)) (map bm_bundle ?bs))"
    using lane' entries [of "pc_tenant c" "pc_lane c"] by (simp add: view_of_def bundle_row_of_def)
  show ?thesis using 1(3,5) v v' seq tot other
    by (intro exI [of _ r] exI [of _ "(la_published l, la_generation l, ?es)"]
        exI [of _ "(pc_seq c, la_generation l + 1, ?es @ map (\<lambda>i. (i, la_generation l + 1)) (map bm_bundle ?bs))"]) (simp add: spec_publish_def)
qed

text \<open>
  C4: the catalog holds only verified objects. Every file that a publication adds belongs to a
  bundle of the stored manifest and to an object that was registered under the publishing job,
  whose verified upload has exactly the bytes and the SHA-256 of the manifest, and whose fence is
  the one the publisher holds.
\<close>

theorem published_files_are_verified:
  assumes "publish c now db = Inr (res, db')" "\<not> px_already res"
  shows "\<exists>new. db_files db' = db_files db @ new \<and> (\<forall>f \<in> set new. fi_tenant f = pc_tenant c \<and>
      (\<exists>i \<in> set (db_intents db). in_id i = fi_intent f \<and> in_tenant i = fi_tenant f \<and> in_kind i = fi_role f \<and> in_state i = ''referenced'' \<and>
        in_job i = Some (ja_job (pc_authority c)) \<and> in_fence i = ja_fence (pc_authority c) \<and> in_owner i = ja_owner (pc_authority c) \<and>
        in_uploaded_bytes i = Some (fi_bytes f) \<and> in_uploaded_sha i = Some (fi_sha f) \<and> in_bytes i = fi_bytes f \<and> in_sha i = fi_sha f) \<and>
      0 < fi_bytes f \<and> int (length (fi_blocks f)) = block_count (fi_bytes f)) \<and> distinct (map fi_intent new)"
  using assms
proof (cases rule: publish_tables)
  case (1 l r intents)
  let ?bs = "stored_bundles (pc_output c) r (db_parts db)"
  let ?new = "concat (map (bundle_files c) ?bs)"
  note ins = inspected [OF 1(6)]
  have "map fi_intent (concat (map (bundle_files c) bs)) = map fst (concat (map bundle_intents bs))" for bs
    by (induction bs) (simp_all add: file_row_of_def bundle_files_def bundle_intents_def)
  then have dist: "distinct (map fi_intent ?new)" using ins by metis
  have one: "fi_tenant f = pc_tenant c \<and> (\<exists>i \<in> set (db_intents db). in_id i = fi_intent f \<and> in_tenant i = fi_tenant f \<and> in_kind i = fi_role f \<and> in_state i = ''referenced'' \<and>
        in_job i = Some (ja_job (pc_authority c)) \<and> in_fence i = ja_fence (pc_authority c) \<and> in_owner i = ja_owner (pc_authority c) \<and>
        in_uploaded_bytes i = Some (fi_bytes f) \<and> in_uploaded_sha i = Some (fi_sha f) \<and> in_bytes i = fi_bytes f \<and> in_sha i = fi_sha f) \<and>
      0 < fi_bytes f \<and> int (length (fi_blocks f)) = block_count (fi_bytes f)" if f: "f \<in> set ?new" for f
  proof -
    obtain b x where b: "b \<in> set ?bs" "f = file_row_of c b x" "x = bm_analytics b \<or> x = bm_payload b" using f by (auto simp: bundle_files_def)
    have v: "validatePreparedBundle (pc_seq c) b = Inr ()" using ins b(1) by (simp add: list_all_iff)
    then have ok: "prepared_file_ok (pc_seq c) x" "(fm_intent x, \<lparr>pi_role = fm_role x, pi_file = x\<rparr>) \<in> set intents"
      using b ins by (auto simp: validatePreparedBundle_def check_def bundle_intents_def split: if_splits)
    obtain i where i: "i \<in> set (db_intents db)" "in_id i = fm_intent x" "in_tenant i = pc_tenant c" "intent_matches c \<lparr>pi_role = fm_role x, pi_file = x\<rparr> i"
      using lock_intents_all [OF 1(7) ok(2)] ins by blast
    have "0 < fm_bytes x" "int (length (elems (fm_blocks x))) = block_count (fm_bytes x)" using ok(1) by (simp_all add: prepared_file_ok_def)
    then show ?thesis using i unfolding b(2) by (intro conjI bexI [of _ i]) (simp_all add: file_row_of_def intent_matches_def Let_def)
  qed
  show ?thesis using 1(12) dist one by blast
qed

subsection \<open>A run for the witnesses\<close>

definition stored_root :: "string \<Rightarrow> output_root" where
  "stored_root d = \<lparr>rt_version = 1, rt_header = sample_header, rt_parts = Some [\<lparr>rf_index = 0, rf_sha = d\<rparr>]\<rparr>"

definition stored_header :: "string \<Rightarrow> string" where
  "stored_header d = printJson quote_string (root_json (stored_root d))"

definition uploaded_intent :: "string \<Rightarrow> intent_row" where
  "uploaded_intent role = \<lparr>in_id = role, in_installation = ''i'', in_tenant = 1, in_generation = 1, in_key = role, in_kind = role, in_state = ''referenced'', in_owner = ''w'',
    in_fence = 5, in_expires = 900, in_bytes = 7, in_sha = replicate 64 CHR ''1'', in_uploaded_bytes = Some 7, in_uploaded_sha = Some (replicate 64 CHR ''1''), in_job = Some ''j'',
    in_producer_generation = Some 1, in_producer_fence = Some 5, in_updated = 50, in_retired = None, in_protect = None, in_query = None, in_task = None, in_marked = None, in_confirmed = None, in_sweeps = 0\<rparr>"

definition publish_db :: "string \<Rightarrow> control_db" where
  "publish_db d = (jobs_db [(sample_job ''j'' 1 ''running'' 5 (Some ''o''))\<lparr>jo_owner := Some ''w'', jo_lease := Some 400\<rparr>])
    \<lparr>db_outputs := [\<lparr>ou_id = ''o'', ou_tenant = 1, ou_job = ''j'', ou_header = stored_header d, ou_sha = sha256_hex (stored_header d), ou_state = ''prepared'', ou_fence = 4\<rparr>],
     db_parts := [\<lparr>pt_output = ''o'', pt_index = 0, pt_json = part_text 0 [sample_bundle], pt_sha = d\<rparr>],
     db_intents := [uploaded_intent ''analytics'', uploaded_intent ''payload''],
     db_batches := [\<lparr>ba_tenant = 1, ba_lane = 3, ba_seq = 9, ba_state = ''accepted'', ba_journal_sha = replicate 64 CHR ''a'', ba_accepted = 2,
       ba_id = ''x'', ba_intent = ''y'', ba_requests = 1, ba_received = 6, ba_records = 2, ba_duplicate = 0, ba_conflict = 0, ba_recovery = ''live''\<rparr>]\<rparr>"

definition publish_sample :: "string \<Rightarrow> publish_command" where
  "publish_sample d = \<lparr>pc_authority = \<lparr>ja_installation = ''i'', ja_generation = 1, ja_job = ''j'', ja_owner = ''w'', ja_fence = 5\<rparr>, pc_tenant = 1, pc_lane = 3, pc_seq = 9,
    pc_output = ''o'', pc_manifest = sha256_hex (stored_header d)\<rparr>"

lemmas sample_defs = publish_db_def publish_sample_def jobs_db_def sample_job_def

lemma sha256_hex_validSHA: "validSHA (sha256_hex m)"
proof -
  have "to_lower (sha256_hex m) = sha256_hex m"
    unfolding to_lower_def by (intro map_idI) (insert sha256_hex_valid [of m] lower_hex_lower, auto simp: list_all_iff)
  moreover have "length (sha256_hex m) = 64" using sha256_hex_valid [of m] by (simp add: validManifestSHA_def)
  ultimately show ?thesis by (simp add: validSHA_def sha256_hex_def hex_decode_encode length_sha256)
qed

lemma sample_header_facts:
  "oh_output sample_header = ''o''" "oh_job sample_header = ''j''" "oh_tenant sample_header = 1" "oh_lane sample_header = 3" "oh_seq sample_header = 9"
  "oh_bundles sample_header = 1" "oh_records sample_header = 2" "oh_errors sample_header = 0" "oh_journal sample_header = replicate 64 CHR ''a''"
  "header_ok sample_header"
  by code_simp+

lemma sample_bundle_prepared: "validatePreparedBundle 9 sample_bundle = Inr ()"
  by code_simp

lemma stored_root_read:
  defines "d \<equiv> sha256_hex (part_text 0 [sample_bundle])"
  shows "strictControlJSON root_of (stored_header d) = Some (stored_root d)" "rootCanonicalJSON (stored_root d) = Inr (stored_header d)"
proof -
  have d: "validManifestSHA d" "list_all lower_hex_char d" using sha256_hex_valid unfolding d_def by simp_all
  have "utf8_valid d" using utf8_valid_hex unfolding d_def sha256_hex_def by (metis hex_decode_encode)
  then have "root_ok (stored_root d)" using sample_header_facts by (simp add: root_ok_def stored_root_def slice_ok_def part_ref_ok_def int64_def)
  then show "strictControlJSON root_of (stored_header d) = Some (stored_root d)" unfolding stored_header_def by (rule strict_root)
  obtain e where "rootCanonicalJSON (stored_root d) = Inr e" using sample_finish [OF d] unfolding stored_root_def by blast
  then show "rootCanonicalJSON (stored_root d) = Inr (stored_header d)" by (auto simp: rootCanonicalJSON_def Let_def stored_header_def split: if_splits)
qed

lemma sample_part_read:
  defines "d \<equiv> sha256_hex (part_text 0 [sample_bundle])"
  shows "read_part ''o'' (elems (rt_parts (stored_root d))) (db_parts (publish_db d)) 0 = Inr [sample_bundle]"
proof -
  have "strictControlJSON part_of (part_text 0 [sample_bundle]) = Some \<lparr>op_version = OutputManifestVersion, op_index = 0, op_bundles = Some [sample_bundle]\<rparr>"
    using strict_part [of "\<lparr>op_version = OutputManifestVersion, op_index = 0, op_bundles = Some [sample_bundle]\<rparr>"] sample_bundle_valid(2)
    by (simp add: part_text_def part_ok_def slice_ok_def int64_def)
  then show ?thesis by (simp add: read_part_def decode_part_def stored_root_def publish_db_def d_def part_text_def)
qed

lemma sample_walk:
  defines "d \<equiv> sha256_hex (part_text 0 [sample_bundle])"
  shows "walkDurableParts ''o'' (stored_root d) (db_parts (publish_db d)) consume s = bindR (consume s sample_bundle) Inr"
proof -
  have "elems (rt_parts (stored_root d)) = [\<lparr>rf_index = 0, rf_sha = d\<rparr>]" "filter (\<lambda>p. pt_output p = ''o'') (db_parts (publish_db d)) = db_parts (publish_db d)" 
    "length (db_parts (publish_db d)) = 1" by (simp_all add: stored_root_def publish_db_def)
  then show ?thesis using sample_part_read unfolding d_def by (simp add: walkDurableParts_def Let_def bindR_def split: sum.splits)
qed

lemma sample_intents: "bundle_intents sample_bundle =
  [(''analytics'', \<lparr>pi_role = ''analytics'', pi_file = sample_file ''analytics''\<rparr>), (''payload'', \<lparr>pi_role = ''payload'', pi_file = sample_file ''payload''\<rparr>)]"
  by (simp add: bundle_intents_def sample_bundle_def sample_file_def)

lemma sample_locked: "lockPublishIntents (publish_sample d) (bundle_intents sample_bundle) (publish_db d') = Inr ()"
proof -
  have "lock_intent (publish_sample d) (bundle_intents sample_bundle) (publish_db d') k = Inr ()" if "k \<in> {''analytics'', ''payload''}" for k
    using that by (auto simp: lock_intent_def sample_intents publish_db_def publish_sample_def uploaded_intent_def scannable_def intent_matches_def check_def sample_file_def)
  then have "foldR (\<lambda>_. lock_intent (publish_sample d) (bundle_intents sample_bundle) (publish_db d')) () ks = Inr ()" if "set ks \<subseteq> {''analytics'', ''payload''}" for ks
    using that by (induction ks) auto
  moreover have "set (sortBy byte_less (map fst (bundle_intents sample_bundle))) \<subseteq> {''analytics'', ''payload''}" by (simp add: sample_intents)
  ultimately show ?thesis unfolding lockPublishIntents_def by blast
qed

lemma sample_catalog: "\<exists>db'. insert_bundle (publish_sample d) r 5 (publish_db d') sample_bundle = Inr db'"
  by (simp add: insert_bundle_def insert_file_def bundle_files_def file_conflict_def file_row_of_def bundle_row_of_def sample_defs sample_bundle_def sample_file_def Let_def)

lemma sample_lock:
  defines "d \<equiv> sha256_hex (part_text 0 [sample_bundle])"
  shows "lockPreparedOutput (publish_sample d) (publish_db d) = Inr (stored_root d)"
  using stored_root_read sample_header_facts unfolding d_def by (simp add: lockPreparedOutput_def sample_defs root_in_scope_def) (simp add: stored_root_def)

lemma sample_published:
  defines "d \<equiv> sha256_hex (part_text 0 [sample_bundle])"
  shows "\<exists>db'. publish (publish_sample d) 100 (publish_db d) = Inr (\<lparr>px_generation = 5, px_already = False\<rparr>, db')"
proof -
  let ?c = "publish_sample d" and ?db = "publish_db d" and ?l = "\<lparr>la_tenant = 1, la_id = 3, la_accepted = 9, la_published = 8, la_generation = 4, la_received = 0\<rparr>"
  have v: "validatePublishCommand ?c" by (simp add: validatePublishCommand_def publish_sample_def sha256_hex_validSHA valid_authority_def)
  have g: "lockRuntimeGeneration (ja_installation (pc_authority ?c)) (ja_generation (pc_authority ?c)) ?db = Inr ()" by (simp add: sample_defs lock_generation_ok)
  have l: "find (\<lambda>l. la_tenant l = pc_tenant ?c \<and> la_id l = pc_lane ?c) (db_lanes ?db) = Some ?l" by (simp add: sample_defs)
  have j: "lockPublishJob ?c 100 ?db = Inr False" by (simp add: lockPublishJob_def sample_defs owner_text_def lease_live_def)
  note r = sample_lock [folded d_def]
  have b: "validatePublishBatch ?c (stored_root d) ?db = Inr ()" using sample_header_facts by (simp add: validatePublishBatch_def sample_defs stored_root_def check_def)
  have out: "pc_output ?c = ''o''" "pc_seq ?c = 9" "pc_tenant ?c = 1" by (simp_all add: publish_sample_def)
  have t: "tally (0, 0, 0) sample_bundle = (1, 2, 0)" by code_simp
  have i: "inspectDurableParts ?c (stored_root d) ?db = Inr (bundle_intents sample_bundle, 1, 2, 0)"
    using sample_bundle_prepared t unfolding inspectDurableParts_def out
    by (simp add: sample_walk [folded d_def] inspect_bundle_def) (simp add: sample_bundle_def sample_file_def)
  obtain db1 where ins: "insert_bundle ?c (stored_root d) 5 ?db sample_bundle = Inr db1" using sample_catalog by blast
  then have d1: "insertPublishedCatalog ?c (stored_root d) 5 ?db = Inr db1" unfolding insertPublishedCatalog_def out by (simp add: sample_walk [folded d_def])
  note db1 = insert_bundle_eq [OF ins]
  have "db_prepared db1 = []" unfolding db1 by (simp add: sample_defs)
  then have o: "publishIssueOccurrences (pc_tenant ?c) (pc_output ?c) db1 = Inr db1" by (simp add: publishIssueOccurrences_def output_issues_def)
  obtain db3 where d3: "complete_job (pc_authority ?c) 100 (mark_published ?c db1) = Inr db3"
    unfolding db1 by (simp add: complete_job_def mark_published_def sample_defs affected_def)
  have "db_lanes db3 = [?l]" unfolding complete_job_eq [OF d3] db1 by (simp add: mark_published_def sample_defs)
  then obtain db4 where d4: "advance_lane ?c ?l 5 db3 = Inr db4" by (simp add: advance_lane_def affected_def publish_sample_def)
  have "publish_output ?c ?l 100 ?db = Inr (\<lparr>px_generation = 5, px_already = False\<rparr>, db4)"
    using r b i sample_locked d1 o d3 d4 sample_header_facts by (simp add: publish_output_def) (simp add: stored_root_def)
  then show ?thesis using v g l j out by (simp add: publish_def add64_id int64_def)
qed

theorem publish_refines_catalog_step_witness:
  "\<exists>c db res db'. publish c 100 db = Inr (res, db') \<and> view_of 1 3 db = Some (8, 4, []) \<and> view_of 1 3 db' = Some (9, 5, [(''b'', 5)])"
proof -
  define d where "d = sha256_hex (part_text 0 [sample_bundle])"
  let ?c = "publish_sample d" and ?db = "publish_db d"
  obtain db' where p: "publish ?c 100 ?db = Inr (\<lparr>px_generation = 5, px_already = False\<rparr>, db')" using sample_published unfolding d_def by blast
  have "list_all (\<lambda>l. int64 (la_published l)) (db_lanes ?db)" by (simp add: sample_defs int64_def)
  then obtain r v v' where r: "lockPreparedOutput ?c ?db = Inr r" "view_of 1 3 ?db = Some v" "spec_publish 9 (map bm_bundle (stored_bundles ''o'' r (db_parts ?db))) v = Some v'"
    "view_of 1 3 db' = Some v'" using publish_refines_catalog_step [OF p] by (auto simp: publish_sample_def)
  have "view_of 1 3 ?db = Some (8, 4, [])" by (simp add: view_of_def sample_defs)
  moreover have "r = stored_root d" using sample_lock r(1) unfolding d_def by simp
  then have "stored_bundles ''o'' r (db_parts ?db) = [sample_bundle]" using sample_part_read unfolding d_def by (simp add: stored_bundles_def stored_root_def)
  ultimately have "v' = (9, 5, [(''b'', 5)])" using r(2,3) by (simp add: spec_publish_def sample_bundle_def)
  then show ?thesis using p r(4) \<open>view_of 1 3 ?db = Some (8, 4, [])\<close> by blast
qed

theorem published_files_are_verified_witness:
  "\<exists>c db res db'. publish c 100 db = Inr (res, db') \<and> (\<exists>new. db_files db' = db_files db @ new \<and> distinct (map fi_intent new))"
proof -
  define d where "d = sha256_hex (part_text 0 [sample_bundle])"
  obtain db' where p: "publish (publish_sample d) 100 (publish_db d) = Inr (\<lparr>px_generation = 5, px_already = False\<rparr>, db')" using sample_published unfolding d_def by blast
  have "\<exists>new. db_files db' = db_files (publish_db d) @ new \<and> distinct (map fi_intent new)" using published_files_are_verified [OF p] by auto
  then show ?thesis using p by blast
qed

end
