(* ===== verification/Live.thy ===== *)
theory Live
  imports Receipt
begin

section \<open>Live queries\<close>

text \<open>
  \<open>internal/query/live.go\<close>, \<open>live_budget.go\<close>, the scan of \<open>live_operation.go\<close> and the turn of the
  polling loop in \<open>internal/api/public_live.go\<close>. A stream holds one position per lane; a turn reads
  the first page of the rows after the positions and up to the cuts of a snapshot, and advances.
\<close>

record live_position =
  lp_seq :: int
  lp_ordinal :: int

record live_row =
  lr_lane :: int
  lr_seq :: int
  lr_ordinal :: int
  lr_record :: string

datatype live_error = InvalidRow | NotAdvancing | CutRegressed | InvalidPosition | InvalidCut | PageLimit | Resync string

abbreviation maxInt32 :: int where "maxInt32 \<equiv> 2147483647"

definition validDigest :: "string \<Rightarrow> bool" where
  "validDigest v = (case hex_decode v of None \<Rightarrow> False | Some d \<Rightarrow> length d = 32 \<and> v = to_lower v)"

definition compareLivePosition :: "live_position \<Rightarrow> live_position \<Rightarrow> int" where
  "compareLivePosition l r =
    (if lp_seq l < lp_seq r \<or> lp_seq l = lp_seq r \<and> lp_ordinal l < lp_ordinal r then - 1 else if l = r then 0 else 1)"

definition initialLivePositions :: "int list \<Rightarrow> bool \<Rightarrow> live_position list" where
  "initialLivePositions cuts catchup = map (\<lambda>k. if \<not> catchup \<and> 0 < k then \<lparr>lp_seq = k, lp_ordinal = maxInt32\<rparr> else \<lparr>lp_seq = 0, lp_ordinal = - 1\<rparr>) cuts"

definition row_position :: "live_row \<Rightarrow> live_position" where
  "row_position r = \<lparr>lp_seq = lr_seq r, lp_ordinal = lr_ordinal r\<rparr>"

definition live_row_ok :: "int list \<Rightarrow> live_row \<Rightarrow> bool" where
  "live_row_ok cuts r = (0 \<le> lr_lane r \<and> lr_lane r < LaneCount \<and> 0 < lr_seq r \<and> lr_seq r \<le> cuts ! nat (lr_lane r) \<and> 0 \<le> lr_ordinal r \<and> validDigest (lr_record r))"

definition advance_row :: "int list \<Rightarrow> live_position list \<Rightarrow> live_row \<Rightarrow> live_error + live_position list" where
  "advance_row cuts ps r =
    (if \<not> live_row_ok cuts r then Inl InvalidRow
     else if compareLivePosition (row_position r) (ps ! nat (lr_lane r)) \<le> 0 then Inl NotAdvancing
     else Inr (ps[nat (lr_lane r) := row_position r]))"

definition complete_lane :: "int \<times> live_position \<Rightarrow> live_error + live_position" where
  "complete_lane x = (case x of (k, p) \<Rightarrow>
    if k < lp_seq p then Inl CutRegressed else Inr (if 0 < k then \<lparr>lp_seq = k, lp_ordinal = maxInt32\<rparr> else p))"

definition advanceLivePositions :: "live_position list \<Rightarrow> int list \<Rightarrow> live_row list \<Rightarrow> bool \<Rightarrow> live_error + live_position list" where
  "advanceLivePositions ps cuts rows complete =
    bindR (foldR (advance_row cuts) ps rows) (\<lambda>ps'. if complete then mapR complete_lane (zip cuts ps') else Inr ps')"

definition liveMinimumSequences :: "live_position list \<Rightarrow> int list" where
  "liveMinimumSequences ps = map (\<lambda>p. if lp_ordinal p = maxInt32 \<and> lp_seq p < maxInt64 then lp_seq p + 1 else lp_seq p) ps"

subsection \<open>The volume of a stream\<close>

text \<open>Times are nanoseconds; the zero time is \<open>None\<close>.\<close>

record live_budget =
  lb_window :: "int option"
  lb_rows :: int
  lb_pending :: "int option"

definition since :: "int \<Rightarrow> int option \<Rightarrow> int \<Rightarrow> bool" where
  "since now t d = (case t of None \<Rightarrow> False | Some s \<Rightarrow> d \<le> now - s)"

definition observeLive :: "live_budget \<Rightarrow> int \<Rightarrow> int \<Rightarrow> bool \<Rightarrow> string \<times> live_budget" where
  "observeLive b now rows complete =
    (if since now (lb_pending b) 900000000000 then (''backlog_expired'', b)
     else let b' = (if lb_window b = None \<or> since now (lb_window b) 10000000000 then b\<lparr>lb_window := Some now, lb_rows := 0\<rparr> else b) in
       if rows < 0 \<or> 10000 < add64 (lb_rows b') rows then (''rate_limit'', b')
       else ([], b'\<lparr>lb_rows := add64 (lb_rows b') rows,
         lb_pending := if complete then None else if lb_pending b' = None then Some now else lb_pending b'\<rparr>))"

subsection \<open>One turn\<close>

abbreviation LivePageRows :: nat where "LivePageRows \<equiv> 100"

definition after_position :: "live_position \<Rightarrow> live_row \<Rightarrow> bool" where
  "after_position p r = (lp_seq p < lr_seq r \<or> lr_seq r = lp_seq p \<and> lp_ordinal p < lr_ordinal r)"

definition in_scan :: "int list \<Rightarrow> live_position list \<Rightarrow> live_row \<Rightarrow> bool" where
  "in_scan cuts ps r = (0 \<le> lr_lane r \<and> lr_lane r < LaneCount \<and> lr_seq r \<le> cuts ! nat (lr_lane r) \<and> after_position (ps ! nat (lr_lane r)) r)"

definition live_key :: "live_row \<Rightarrow> int \<times> int \<times> int" where
  "live_key r = (lr_lane r, lr_seq r, lr_ordinal r)"

definition live_less :: "live_row \<Rightarrow> live_row \<Rightarrow> bool" where
  "live_less x y = (lr_lane x < lr_lane y \<or> lr_lane x = lr_lane y \<and> (lr_seq x < lr_seq y \<or> lr_seq x = lr_seq y \<and>
    (lr_ordinal x < lr_ordinal y \<or> lr_ordinal x = lr_ordinal y \<and> lr_record x < lr_record y)))"

text \<open>\<open>rows\<close> are the published rows that match the plan but for its cuts; the scan adds the cuts and the positions.\<close>

definition live_scan :: "int list \<Rightarrow> live_position list \<Rightarrow> live_row list \<Rightarrow> live_error + live_row list" where
  "live_scan cuts ps rows =
    (if list_ex (\<lambda>k. k < 0) cuts then Inl InvalidCut
     else if list_ex (\<lambda>p. lp_seq p < 0 \<or> lp_ordinal p < - 1) ps then Inl InvalidPosition
     else Inr (take (Suc LivePageRows) (sortBy live_less (filter (in_scan cuts ps) rows))))"

definition finalizeLiveResult :: "live_row list \<Rightarrow> live_error + live_row list \<times> bool" where
  "finalizeLiveResult rows = (if Suc LivePageRows < length rows then Inl PageLimit else Inr (take LivePageRows rows, length rows \<le> LivePageRows))"

definition pollLive :: "live_position list \<Rightarrow> int list \<Rightarrow> live_row list \<Rightarrow> live_error + live_row list \<times> bool" where
  "pollLive ps cuts rows =
    (if ps = initialLivePositions cuts False then Inr ([], True) else bindR (live_scan cuts ps rows) finalizeLiveResult)"

record live_state =
  ls_positions :: "live_position list"
  ls_budget :: live_budget
  ls_drain :: "int list option"

definition live_cuts :: "live_state \<Rightarrow> int list \<Rightarrow> int list" where
  "live_cuts st snapshot = (case ls_drain st of None \<Rightarrow> snapshot | Some cuts \<Rightarrow> cuts)"

definition live_turn :: "live_state \<Rightarrow> int \<Rightarrow> int list \<Rightarrow> live_row list \<Rightarrow> live_error + live_row list \<times> live_state" where
  "live_turn st now snapshot rows =
    (let cuts = live_cuts st snapshot in
     bindR (pollLive (ls_positions st) cuts rows) (\<lambda>(page, complete).
       case observeLive (ls_budget st) now (int (length page)) complete of (code, b) \<Rightarrow>
         if code \<noteq> [] then Inl (Resync code)
         else bindR (advanceLivePositions (ls_positions st) cuts page complete) (\<lambda>ps.
           Inr (page, st\<lparr>ls_positions := ps, ls_budget := b, ls_drain := if complete then None else Some cuts\<rparr>))))"

subsection \<open>Advancing\<close>

definition covered :: "live_position list \<Rightarrow> live_row \<Rightarrow> bool" where
  "covered ps r = (\<not> after_position (ps ! nat (lr_lane r)) r)"

definition lane_ok :: "live_row \<Rightarrow> bool" where
  "lane_ok r = (0 \<le> lr_lane r \<and> lr_lane r < LaneCount)"

lemma compare_position_after: "compareLivePosition (row_position r) p \<le> 0 \<longleftrightarrow> \<not> after_position p r"
  by (cases p) (auto simp: compareLivePosition_def row_position_def after_position_def)

lemma after_position_mono: "after_position p r \<Longrightarrow> \<not> after_position (row_position r) x \<or> after_position p x"
  by (auto simp: after_position_def row_position_def)

lemma not_after_self [simp]: "\<not> after_position (row_position r) r"
  by (simp add: after_position_def row_position_def)

lemma advance_row_eq: "advance_row cuts ps r = Inr ps' \<longleftrightarrow> live_row_ok cuts r \<and> after_position (ps ! nat (lr_lane r)) r \<and> ps' = ps[nat (lr_lane r) := row_position r]"
  by (auto simp: advance_row_def compare_position_after)

lemma row_ok_lane: "live_row_ok cuts r \<Longrightarrow> lane_ok r \<and> nat (lr_lane r) < 16"
  by (auto simp: live_row_ok_def lane_ok_def)

lemma advance_row_covers:
  assumes "advance_row cuts ps r = Inr ps'" "length ps = 16" "lane_ok x"
  shows "covered ps' x \<longleftrightarrow> covered ps x \<or> lr_lane x = lr_lane r \<and> \<not> after_position (row_position r) x"
proof -
  have a: "live_row_ok cuts r" "after_position (ps ! nat (lr_lane r)) r" "ps' = ps[nat (lr_lane r) := row_position r]" using assms(1) by (simp_all add: advance_row_eq)
  have n: "nat (lr_lane r) < 16" "lane_ok r" using row_ok_lane [OF a(1)] by auto
  show ?thesis
  proof (cases "lr_lane x = lr_lane r")
    case True
    then show ?thesis using a n assms(2) after_position_mono [of "ps ! nat (lr_lane r)" r x] by (auto simp: covered_def)
  next
    case False
    then have "nat (lr_lane x) \<noteq> nat (lr_lane r)" using n(2) assms(3) by (auto simp: lane_ok_def)
    then show ?thesis using a(3) False by (simp add: covered_def)
  qed
qed

lemma advance_rows:
  assumes "foldR (advance_row cuts) ps rows = Inr ps'" "length ps = 16"
  shows "length ps' = 16 \<and> list_all (live_row_ok cuts) rows \<and> (\<forall>r \<in> set rows. \<not> covered ps r \<and> covered ps' r) \<and> distinct (map live_key rows) \<and>
    (\<forall>x. lane_ok x \<longrightarrow> (covered ps' x \<longleftrightarrow> covered ps x \<or> (\<exists>r \<in> set rows. lr_lane x = lr_lane r \<and> \<not> after_position (row_position r) x)))"
  using assms
proof (induction rows arbitrary: ps)
  case (Cons r rows)
  obtain ps1 where one: "advance_row cuts ps r = Inr ps1" "foldR (advance_row cuts) ps1 rows = Inr ps'" using Cons.prems(1) by (auto simp: bindR_eq_Inr)
  have a: "live_row_ok cuts r" "after_position (ps ! nat (lr_lane r)) r" "ps1 = ps[nat (lr_lane r) := row_position r]" using one(1) by (simp_all add: advance_row_eq)
  have len: "length ps1 = 16" using a(3) Cons.prems(2) by simp
  note IH = Cons.IH [OF one(2) len]
  have cov: "covered ps1 x \<longleftrightarrow> covered ps x \<or> lr_lane x = lr_lane r \<and> \<not> after_position (row_position r) x" if "lane_ok x" for x
    using advance_row_covers [OF one(1) Cons.prems(2) that] .
  have lanes: "lane_ok x" if "x \<in> set (r # rows)" for x using that a(1) IH row_ok_lane by (auto simp: list_all_iff)
  have r: "covered ps1 r" using cov [OF lanes [of r]] by simp
  have fresh: "live_key r \<notin> live_key ` set rows"
  proof
    assume "live_key r \<in> live_key ` set rows"
    then obtain x where x: "x \<in> set rows" "lr_lane x = lr_lane r" "lr_seq x = lr_seq r" "lr_ordinal x = lr_ordinal r" by (auto simp: live_key_def)
    then have "covered ps1 x" using r by (simp add: covered_def after_position_def)
    then show False using IH x(1) by blast
  qed
  have all: "covered ps' x \<longleftrightarrow> covered ps x \<or> (\<exists>y \<in> set (r # rows). lr_lane x = lr_lane y \<and> \<not> after_position (row_position y) x)" if "lane_ok x" for x
    using IH cov [OF that] that by auto
  have news: "\<not> covered ps x \<and> covered ps' x" if x: "x \<in> set (r # rows)" for x
    using x all [OF lanes [OF x]] IH cov a(2) lanes [OF x] by (auto simp: covered_def)
  show ?case using IH a(1) fresh news all by auto
qed simp

lemma advance_complete:
  assumes "mapR complete_lane (zip cuts ps) = Inr ps'" "length cuts = 16" "length ps = 16" "list_all (\<lambda>k. 0 \<le> k) cuts"
  shows "length ps' = 16 \<and> (\<forall>x. lane_ok x \<and> 0 < lr_seq x \<and> lr_ordinal x \<le> maxInt32 \<longrightarrow> (covered ps' x \<longleftrightarrow> covered ps x \<or> lr_seq x \<le> cuts ! nat (lr_lane x)))"
proof -
  have all: "list_all2 (\<lambda>y p. complete_lane y = Inr p) (zip cuts ps) ps'" using assms(1) by (simp add: mapR_eq_Inr)
  then have len: "length ps' = 16" using list_all2_lengthD [OF all] assms(2,3) by simp
  have at: "complete_lane (cuts ! i, ps ! i) = Inr (ps' ! i)" if "i < 16" for i using list_all2_nthD [OF all, of i] that assms(2,3) by simp
  have "covered ps' x \<longleftrightarrow> covered ps x \<or> lr_seq x \<le> cuts ! nat (lr_lane x)" if x: "lane_ok x" "0 < lr_seq x" "lr_ordinal x \<le> maxInt32" for x
  proof -
    let ?i = "nat (lr_lane x)"
    have i: "?i < 16" using x(1) by (auto simp: lane_ok_def)
    then have pos: "0 \<le> cuts ! ?i" using assms(2,4) by (simp add: list_all_length)
    have le: "lp_seq (ps ! ?i) \<le> cuts ! ?i" "ps' ! ?i = (if 0 < cuts ! ?i then \<lparr>lp_seq = cuts ! ?i, lp_ordinal = maxInt32\<rparr> else ps ! ?i)"
      using at [OF i] by (auto simp: complete_lane_def split: if_splits)
    show ?thesis using le pos x(2,3) by (auto simp: covered_def after_position_def)
  qed
  then show ?thesis using len by blast
qed

subsection \<open>A page\<close>

interpretation live_order: strict_weak_order live_less
  by unfold_locales (auto simp: live_less_def)

definition row_wf :: "live_row \<Rightarrow> bool" where
  "row_wf r = (lane_ok r \<and> 0 < lr_seq r \<and> 0 \<le> lr_ordinal r \<and> lr_ordinal r \<le> maxInt32)"

definition live_rows_wf :: "live_row list \<Rightarrow> bool" where
  "live_rows_wf rows = (distinct (map live_key rows) \<and> list_all (\<lambda>r. row_wf r \<and> validDigest (lr_record r)) rows)"

lemma wf_row: "live_rows_wf rows \<Longrightarrow> r \<in> set rows \<Longrightarrow> row_wf r \<and> lane_ok r \<and> 0 < lr_seq r \<and> 0 \<le> lr_ordinal r \<and> lr_ordinal r \<le> maxInt32 \<and> validDigest (lr_record r)"
  by (simp add: live_rows_wf_def row_wf_def list_all_iff)

lemma same_row: "live_rows_wf rows \<Longrightarrow> x \<in> set rows \<Longrightarrow> y \<in> set rows \<Longrightarrow> live_key x = live_key y \<Longrightarrow> x = y"
  by (auto simp: live_rows_wf_def distinct_map dest: inj_onD)

lemma sorted_prefix:
  assumes "sorted_wrt (\<lambda>a b. \<not> lt b a) xs" "x \<in> set xs" "y \<in> set (take n xs)" "x \<notin> set (take n xs)"
  shows "\<not> lt x y"
proof -
  have "x \<in> set (drop n xs)" using assms(2,4) by (metis append_take_drop_id in_set_conv_decomp set_append UnE)
  moreover have "sorted_wrt (\<lambda>a b. \<not> lt b a) (take n xs @ drop n xs)" using assms(1) by simp
  ultimately show ?thesis using assms(3) unfolding sorted_wrt_append by blast
qed

lemma initial_scans_nothing:
  assumes "length cuts = 16" "0 < lr_seq r" "lr_ordinal r \<le> maxInt32"
  shows "\<not> in_scan cuts (initialLivePositions cuts False) r"
  using assms by (auto simp: in_scan_def initialLivePositions_def after_position_def)

lemma poll_page:
  assumes "pollLive ps cuts rows = Inr (page, complete)" "length cuts = 16" "live_rows_wf rows"
  shows "set page \<subseteq> set rows \<and> (\<forall>r \<in> set page. in_scan cuts ps r) \<and> distinct page \<and> sorted_wrt (\<lambda>a b. \<not> live_less b a) page \<and>
    (if complete then \<forall>r \<in> set rows. in_scan cuts ps r \<longrightarrow> r \<in> set page
     else length page = LivePageRows \<and> (\<forall>x \<in> set rows. \<forall>y \<in> set page. in_scan cuts ps x \<and> lr_lane x = lr_lane y \<and> \<not> after_position (row_position y) x \<longrightarrow> x \<in> set page))"
proof (cases "ps = initialLivePositions cuts False")
  case True
  then have "page = []" "complete" using assms(1) by (simp_all add: pollLive_def)
  moreover have "\<not> in_scan cuts ps r" if "r \<in> set rows" for r using initial_scans_nothing [OF assms(2)] wf_row [OF assms(3) that] True by blast
  ultimately show ?thesis by simp
next
  case False
  define xs where "xs = sortBy live_less (filter (in_scan cuts ps) rows)"
  have "finalizeLiveResult (take (Suc LivePageRows) xs) = Inr (page, complete)"
    using assms(1) False by (auto simp: pollLive_def live_scan_def xs_def bindR_eq_Inr split: if_splits)
  then have page: "page = take LivePageRows xs" and complete: "complete \<longleftrightarrow> length xs \<le> LivePageRows"
    by (auto simp: finalizeLiveResult_def min_def split: if_splits)
  have mem: "set xs = {r \<in> set rows. in_scan cuts ps r}" by (auto simp: xs_def)
  have "distinct rows" using assms(3) by (simp add: live_rows_wf_def distinct_map)
  then have d: "distinct xs" by (simp add: xs_def)
  have sorted: "sorted_wrt (\<lambda>a b. \<not> live_less b a) xs" unfolding xs_def by (rule live_order.sortBy_sorted)
  have pre: "x \<in> set page" if x: "x \<in> set xs" "y \<in> set page" "lr_lane x = lr_lane y" "\<not> after_position (row_position y) x" for x y
  proof (rule ccontr)
    assume n: "x \<notin> set page"
    then have "\<not> live_less x y" using sorted_prefix [OF sorted x(1)] x(2) unfolding page by blast
    moreover have y: "y \<in> set xs" using x(2) unfolding page by (meson in_set_takeD)
    ultimately have "live_key x = live_key y" using x(3,4) by (auto simp: live_less_def after_position_def row_position_def live_key_def)
    then have "x = y" using same_row [OF assms(3)] x(1) y mem by blast
    then show False using n x(2) by blast
  qed
  have sub: "set page \<subseteq> set xs" unfolding page by (rule set_take_subset)
  show ?thesis
  proof (cases complete)
    case True
    then have "page = xs" using complete page by simp
    then show ?thesis using True mem d sorted by auto
  next
    case False
    then have "length page = LivePageRows" using complete page by simp
    then show ?thesis using False sub mem d sorted pre page by (auto intro: sorted_wrt_take)
  qed
qed

subsection \<open>A stream\<close>

text \<open>
  A stream is a run of turns. Between turns the snapshot and the published rows change: rows appear as
  batches are published and disappear as retention drops them. The rows of \<open>kept\<close> are those that are
  there whenever a turn's cut includes their batch.
\<close>

definition turn_sees :: "live_row list \<Rightarrow> int list \<Rightarrow> live_row list \<Rightarrow> bool" where
  "turn_sees kept cuts rows = (length cuts = 16 \<and> list_all (\<lambda>k. 0 \<le> k) cuts \<and> live_rows_wf rows \<and>
    list_all (\<lambda>r. lr_seq r \<le> cuts ! nat (lr_lane r) \<longrightarrow> r \<in> set rows) kept)"

inductive live_step :: "live_row list \<Rightarrow> live_state \<times> live_row list \<Rightarrow> live_state \<times> live_row list \<Rightarrow> bool" for kept where
  turn: "turn_sees kept (live_cuts st snapshot) rows \<Longrightarrow> live_turn st now snapshot rows = Inr (page, st') \<Longrightarrow> live_step kept (st, out) (st', out @ page)"

lemma live_turn_cases:
  assumes "live_turn st now snapshot rows = Inr (page, st')"
  obtains complete where "pollLive (ls_positions st) (live_cuts st snapshot) rows = Inr (page, complete)"
    "advanceLivePositions (ls_positions st) (live_cuts st snapshot) page complete = Inr (ls_positions st')" "ls_drain st' = (if complete then None else Some (live_cuts st snapshot))"
proof -
  obtain pg c where p: "pollLive (ls_positions st) (live_cuts st snapshot) rows = Inr (pg, c)" using assms by (auto simp: live_turn_def Let_def bindR_eq_Inr)
  obtain code b where o: "observeLive (ls_budget st) now (int (length pg)) c = (code, b)" by (cases "observeLive (ls_budget st) now (int (length pg)) c")
  show thesis using assms p o by (intro that [of c]) (auto simp: live_turn_def Let_def bindR_eq_Inr split: if_splits)
qed

text \<open>What a piece of a stream from the positions \<open>from\<close> to \<open>ps\<close> delivers.\<close>

definition delivers :: "live_row list \<Rightarrow> live_position list \<Rightarrow> live_row list \<Rightarrow> live_position list \<Rightarrow> bool" where
  "delivers kept from out ps = (length ps = 16 \<and> distinct (map live_key out) \<and> (\<forall>r \<in> set out. row_wf r \<and> \<not> covered from r \<and> covered ps r) \<and>
    (\<forall>x. row_wf x \<and> covered from x \<longrightarrow> covered ps x) \<and> (\<forall>r \<in> set kept. row_wf r \<and> covered ps r \<and> \<not> covered from r \<longrightarrow> r \<in> set out))"

lemma deliversD:
  assumes "delivers kept from out ps"
  shows "length ps = 16" "distinct (map live_key out)" "r \<in> set out \<Longrightarrow> row_wf r" "r \<in> set out \<Longrightarrow> \<not> covered from r" "r \<in> set out \<Longrightarrow> covered ps r"
    "row_wf r \<Longrightarrow> covered from r \<Longrightarrow> covered ps r" "r \<in> set kept \<Longrightarrow> row_wf r \<Longrightarrow> covered ps r \<Longrightarrow> \<not> covered from r \<Longrightarrow> r \<in> set out"
  using assms by (simp_all add: delivers_def)

lemma deliversI:
  assumes "length ps = 16" "distinct (map live_key out)" "\<And>r. r \<in> set out \<Longrightarrow> row_wf r \<and> \<not> covered from r \<and> covered ps r"
    "\<And>r. row_wf r \<Longrightarrow> covered from r \<Longrightarrow> covered ps r" "\<And>r. r \<in> set kept \<Longrightarrow> row_wf r \<Longrightarrow> covered ps r \<Longrightarrow> \<not> covered from r \<Longrightarrow> r \<in> set out"
  shows "delivers kept from out ps"
  using assms unfolding delivers_def by simp

lemma covered_key: "live_key x = live_key y \<Longrightarrow> covered ps x = covered ps y"
  by (simp add: live_key_def covered_def after_position_def)

lemma delivers_append:
  assumes "delivers kept a out b" "delivers kept b page c"
  shows "delivers kept a (out @ page) c"
proof -
  have "live_key x \<noteq> live_key y" if "x \<in> set out" "y \<in> set page" for x y
    using deliversD(5) [OF assms(1) that(1)] deliversD(4) [OF assms(2) that(2)] covered_key [of x y b] by metis
  then have "live_key ` set out \<inter> live_key ` set page = {}" by (simp add: disjoint_iff image_iff) metis
  then have "distinct (map live_key (out @ page))" using deliversD(2) [OF assms(1)] deliversD(2) [OF assms(2)] by simp
  then show ?thesis
  proof (intro deliversI)
    fix r
    show "row_wf r \<and> \<not> covered a r \<and> covered c r" if "r \<in> set (out @ page)"
      using that deliversD(3-6) [OF assms(1), of r] deliversD(3-6) [OF assms(2), of r] by (simp, blast)
    show "covered c r" if "row_wf r" "covered a r" using that deliversD(6) [OF assms(1), of r] deliversD(6) [OF assms(2), of r] by simp
    show "r \<in> set (out @ page)" if "r \<in> set kept" "row_wf r" "covered c r" "\<not> covered a r"
      using that deliversD(7) [OF assms(1), of r] deliversD(7) [OF assms(2), of r] by (cases "covered b r") simp_all
  qed (rule deliversD(1) [OF assms(2)])
qed

lemma live_turn_delivers:
  assumes "live_turn st now snapshot rows = Inr (page, st')" "turn_sees kept (live_cuts st snapshot) rows" "length (ls_positions st) = 16"
  shows "delivers kept (ls_positions st) page (ls_positions st')"
  using assms(1)
proof (cases rule: live_turn_cases)
  case (1 complete)
  let ?ps = "ls_positions st" and ?ps' = "ls_positions st'" and ?cuts = "live_cuts st snapshot"
  have sees: "length ?cuts = 16" "list_all (\<lambda>k. 0 \<le> k) ?cuts" "live_rows_wf rows" "\<forall>r \<in> set kept. lr_seq r \<le> ?cuts ! nat (lr_lane r) \<longrightarrow> r \<in> set rows"
    using assms(2) by (simp_all add: turn_sees_def list_all_iff)
  note page = poll_page [OF 1(1) sees(1,3)]
  obtain mid where mid: "foldR (advance_row ?cuts) ?ps page = Inr mid" "(if complete then mapR complete_lane (zip ?cuts mid) else Inr mid) = Inr ?ps'"
    using 1(2) by (auto simp: advanceLivePositions_def bindR_eq_Inr)
  note adv = advance_rows [OF mid(1) assms(3)]
  have new: "\<not> covered ?ps r \<and> covered mid r" if "r \<in> set page" for r using adv that by simp
  have grows: "covered mid x \<longleftrightarrow> covered ?ps x \<or> (\<exists>r \<in> set page. lr_lane x = lr_lane r \<and> \<not> after_position (row_position r) x)" if "row_wf x" for x
    using adv that by (simp add: row_wf_def)
  have rows: "row_wf r" "lr_seq r \<le> ?cuts ! nat (lr_lane r)" if "r \<in> set page" for r
    using page wf_row [OF sees(3), of r] that by (auto simp: in_scan_def)
  have fin: "covered ?ps' x \<longleftrightarrow> covered mid x \<or> complete \<and> lr_seq x \<le> ?cuts ! nat (lr_lane x)" if "row_wf x" for x
  proof (cases complete)
    case True
    then have "mapR complete_lane (zip ?cuts mid) = Inr ?ps'" using mid(2) by simp
    from advance_complete [OF this sees(1) _ sees(2)] show ?thesis using adv True that by (simp add: row_wf_def)
  next
    case False
    then show ?thesis using mid(2) by simp
  qed
  have in_rows: "in_scan ?cuts ?ps r \<and> r \<in> set rows" if "r \<in> set kept" "row_wf r" "\<not> covered ?ps r" "lr_seq r \<le> ?cuts ! nat (lr_lane r)" for r
    using sees(4) that by (simp add: in_scan_def row_wf_def lane_ok_def covered_def)
  have miss: "r \<in> set page" if r: "r \<in> set kept" "row_wf r" "covered ?ps' r" "\<not> covered ?ps r" for r
  proof (cases "covered mid r")
    case True
    then obtain y where y: "y \<in> set page" "lr_lane r = lr_lane y" "\<not> after_position (row_position y) r" using grows [OF r(2)] r(4) by blast
    have "lr_seq r \<le> lr_seq y" using y(3) by (simp add: after_position_def row_position_def)
    then have "in_scan ?cuts ?ps r \<and> r \<in> set rows" using rows(2) [OF y(1)] y(2) by (intro in_rows r) simp
    then show ?thesis using page y by (cases complete) (simp, metis)+
  next
    case False
    then have c: "complete" "lr_seq r \<le> ?cuts ! nat (lr_lane r)" using fin [OF r(2)] r(3) by simp_all
    then show ?thesis using page in_rows [OF r(1,2,4) c(2)] by simp
  qed
  have "length ?ps' = 16" using adv mid(2) sees(1) by (cases complete) (simp_all add: mapR_eq_Inr list_all2_lengthD [symmetric])
  then show ?thesis using adv by (intro deliversI miss) (simp_all add: rows new fin grows)
qed

interpretation live_machine: state_machine "\<lambda>s. s = (st0, []) \<and> length (ls_positions st0) = 16" "live_step kept"
  "\<lambda>s. delivers kept (ls_positions st0) (snd s) (ls_positions (fst s))" for st0 kept
proof unfold_locales
  fix s t
  assume "live_step kept s t" "delivers kept (ls_positions st0) (snd s) (ls_positions (fst s))"
  then show "delivers kept (ls_positions st0) (snd t) (ls_positions (fst t))"
  proof cases
    case (turn st snapshot rows now page st' out)
    have d: "delivers kept (ls_positions st0) out (ls_positions st)" using \<open>delivers kept (ls_positions st0) (snd s) (ls_positions (fst s))\<close> turn(1) by simp
    then have "length (ls_positions st) = 16" by (rule deliversD)
    from delivers_append [OF d live_turn_delivers [OF turn(4,3) this]] show ?thesis using turn(2) by simp
  qed
qed (auto simp: delivers_def)

subsection \<open>Progress\<close>

definition positions_ok :: "int list \<Rightarrow> live_position list \<Rightarrow> bool" where
  "positions_ok cuts ps = (length ps = 16 \<and> list_all2 (\<lambda>p k. 0 \<le> lp_seq p \<and> - 1 \<le> lp_ordinal p \<and> lp_seq p \<le> k) ps cuts)"

lemma positions_ok_update: "positions_ok cuts ps \<Longrightarrow> live_row_ok cuts r \<Longrightarrow> positions_ok cuts (ps[nat (lr_lane r) := row_position r])"
  by (auto simp: positions_ok_def list_all2_conv_all_nth nth_list_update live_row_ok_def row_position_def)

lemma advance_sorted_rows:
  assumes "positions_ok cuts ps" "\<forall>r \<in> set rows. live_row_ok cuts r \<and> after_position (ps ! nat (lr_lane r)) r"
    "sorted_wrt (\<lambda>a b. \<not> live_less b a) rows" "distinct (map live_key rows)"
  shows "\<exists>ps'. foldR (advance_row cuts) ps rows = Inr ps' \<and> positions_ok cuts ps'"
  using assms
proof (induction rows arbitrary: ps)
  case (Cons r rows)
  let ?ps = "ps[nat (lr_lane r) := row_position r]"
  have r: "live_row_ok cuts r" "after_position (ps ! nat (lr_lane r)) r" using Cons.prems(2) by simp_all
  have "after_position (?ps ! nat (lr_lane y)) y" if y: "y \<in> set rows" for y
  proof (cases "nat (lr_lane y) = nat (lr_lane r)")
    case True
    have "lane_ok y" "lane_ok r" using Cons.prems(2) y r row_ok_lane by auto
    then have lane: "lr_lane y = lr_lane r" using True by (auto simp: lane_ok_def)
    have "\<not> live_less y r" "live_key y \<noteq> live_key r" using Cons.prems(3,4) y by (simp_all, metis image_eqI)
    then have "after_position (row_position r) y" using lane by (auto simp: live_less_def live_key_def after_position_def row_position_def)
    moreover have "nat (lr_lane r) < length ps" using Cons.prems(1) row_ok_lane [OF r(1)] by (simp add: positions_ok_def)
    ultimately show ?thesis using True by simp
  next
    case False
    then show ?thesis using Cons.prems(2) y by simp
  qed
  then have "\<exists>ps'. foldR (advance_row cuts) ?ps rows = Inr ps' \<and> positions_ok cuts ps'"
    using Cons.prems positions_ok_update [OF Cons.prems(1) r(1)] by (intro Cons.IH) simp_all
  moreover have "advance_row cuts ps r = Inr ?ps" using r by (simp add: advance_row_eq)
  ultimately show ?case by simp
qed simp

lemma complete_positions:
  assumes "positions_ok cuts ps" "length cuts = 16"
  shows "\<exists>ps'. mapR complete_lane (zip cuts ps) = Inr ps' \<and> positions_ok cuts ps'"
proof -
  let ?g = "\<lambda>(k, p). if 0 < k then \<lparr>lp_seq = k, lp_ordinal = maxInt32\<rparr> else p"
  have "complete_lane x = Inr (?g x)" if "x \<in> set (zip cuts ps)" for x
    using that assms by (auto simp: complete_lane_def positions_ok_def list_all2_conv_all_nth set_zip)
  then have "mapR complete_lane (zip cuts ps) = Inr (map ?g (zip cuts ps))" by (rule mapR_eq_InrI)
  moreover have "positions_ok cuts (map ?g (zip cuts ps))" using assms by (auto simp: positions_ok_def list_all2_conv_all_nth)
  ultimately show ?thesis by blast
qed

lemma poll_succeeds:
  assumes "positions_ok cuts ps" "list_all (\<lambda>k. 0 \<le> k) cuts"
  shows "\<exists>x. pollLive ps cuts rows = Inr x"
proof -
  have "\<not> list_ex (\<lambda>p. lp_seq p < 0 \<or> lp_ordinal p < - 1) ps" using assms(1) by (fastforce simp: positions_ok_def list_ex_iff list_all2_conv_all_nth in_set_conv_nth)
  moreover have "\<not> list_ex (\<lambda>k. k < 0) cuts" using assms(2) by (auto simp: list_ex_iff list_all_iff)
  ultimately show ?thesis by (cases "ps = initialLivePositions cuts False") (auto simp: pollLive_def live_scan_def finalizeLiveResult_def)
qed

lemma minimum_sequences_safe: "\<not> covered ps r \<Longrightarrow> nat (lr_lane r) < length ps \<Longrightarrow> lr_ordinal r \<le> maxInt32 \<Longrightarrow> liveMinimumSequences ps ! nat (lr_lane r) \<le> lr_seq r"
  by (auto simp: liveMinimumSequences_def covered_def after_position_def)

subsection \<open>Properties\<close>

text \<open>
  C15: a live stream delivers exactly once. Over any run of turns, with whatever snapshots, page
  breaks and retention in between, no row is delivered twice, only rows beyond the starting positions
  are delivered, and every row that was there whenever its batch was within the cut and that the
  stream's positions have passed has been delivered. The file pruning hint never excludes a row that
  is still to come.
\<close>

theorem live_stream_exactly_once:
  assumes "(live_step kept)\<^sup>*\<^sup>* (st0, []) (st, out)" "length (ls_positions st0) = 16"
  shows "distinct (map live_key out) \<and> (\<forall>r \<in> set out. \<not> covered (ls_positions st0) r \<and> covered (ls_positions st) r) \<and>
    (\<forall>r \<in> set kept. row_wf r \<and> covered (ls_positions st) r \<and> \<not> covered (ls_positions st0) r \<longrightarrow> r \<in> set out) \<and>
    (\<forall>r. row_wf r \<and> \<not> covered (ls_positions st) r \<longrightarrow> liveMinimumSequences (ls_positions st) ! nat (lr_lane r) \<le> lr_seq r)"
proof -
  have "delivers kept (ls_positions st0) [] (ls_positions st0)" using assms(2) by (simp add: delivers_def)
  then have d: "delivers kept (ls_positions st0) out (ls_positions st)" using live_machine.run_inv [OF assms(1), of st0] by simp
  have "liveMinimumSequences (ls_positions st) ! nat (lr_lane r) \<le> lr_seq r" if "row_wf r" "\<not> covered (ls_positions st) r" for r
    using that deliversD(1) [OF d] by (intro minimum_sequences_safe) (auto simp: row_wf_def lane_ok_def)
  then have a: "\<forall>r. row_wf r \<and> \<not> covered (ls_positions st) r \<longrightarrow> liveMinimumSequences (ls_positions st) ! nat (lr_lane r) \<le> lr_seq r" by blast
  have b: "\<forall>r \<in> set out. \<not> covered (ls_positions st0) r \<and> covered (ls_positions st) r" using deliversD(4,5) [OF d] by blast
  have c: "\<forall>r \<in> set kept. row_wf r \<and> covered (ls_positions st) r \<and> \<not> covered (ls_positions st0) r \<longrightarrow> r \<in> set out" using deliversD(7) [OF d] by blast
  show ?thesis by (intro conjI deliversD(2) [OF d] a b c)
qed

text \<open>
  C28: a live stream makes progress. A turn whose cuts lie at or beyond the positions never fails: it
  ends the stream with a resync code of the volume budget, or it delivers a full page, or it completes
  the interval, after which every row up to the cuts has been passed; the positions it leaves are valid
  again for the same cuts.
\<close>

theorem live_turn_progress:
  assumes "turn_sees kept (live_cuts st snapshot) rows" "positions_ok (live_cuts st snapshot) (ls_positions st)"
  shows "(\<exists>code. live_turn st now snapshot rows = Inl (Resync code)) \<or>
    (\<exists>page st'. live_turn st now snapshot rows = Inr (page, st') \<and> positions_ok (live_cuts st snapshot) (ls_positions st') \<and>
      (length page = LivePageRows \<and> ls_drain st' = Some (live_cuts st snapshot) \<or>
       ls_drain st' = None \<and> (\<forall>r \<in> set kept. row_wf r \<and> lr_seq r \<le> live_cuts st snapshot ! nat (lr_lane r) \<longrightarrow> covered (ls_positions st') r)))"
proof -
  let ?cuts = "live_cuts st snapshot" and ?ps = "ls_positions st"
  have sees: "length ?cuts = 16" "list_all (\<lambda>k. 0 \<le> k) ?cuts" "live_rows_wf rows" using assms(1) by (simp_all add: turn_sees_def)
  obtain page complete where p: "pollLive ?ps ?cuts rows = Inr (page, complete)" using poll_succeeds [OF assms(2) sees(2)] by fastforce
  obtain code b where o: "observeLive (ls_budget st) now (int (length page)) complete = (code, b)" by (cases "observeLive (ls_budget st) now (int (length page)) complete")
  note page = poll_page [OF p sees(1,3)]
  have rows: "live_row_ok ?cuts r \<and> after_position (?ps ! nat (lr_lane r)) r" if "r \<in> set page" for r
    using page wf_row [OF sees(3), of r] that by (auto simp: in_scan_def live_row_ok_def)
  have "inj_on live_key (set page)" using page sees(3) by (auto simp: live_rows_wf_def distinct_map intro: inj_on_subset)
  then have "distinct (map live_key page)" using page by (simp add: distinct_map)
  then obtain mid where mid: "foldR (advance_row ?cuts) ?ps page = Inr mid" "positions_ok ?cuts mid" using advance_sorted_rows [OF assms(2)] rows page by blast
  obtain ps' where adv: "advanceLivePositions ?ps ?cuts page complete = Inr ps'" "positions_ok ?cuts ps'" "if complete then mapR complete_lane (zip ?cuts mid) = Inr ps' else ps' = mid"
    using mid complete_positions [OF mid(2) sees(1)] by (cases complete) (auto simp: advanceLivePositions_def)
  show ?thesis
  proof (cases "code = []")
    case True
    let ?st = "st\<lparr>ls_positions := ps', ls_budget := b, ls_drain := if complete then None else Some ?cuts\<rparr>"
    have t: "live_turn st now snapshot rows = Inr (page, ?st)" using p o adv(1) True by (simp add: live_turn_def)
    have "covered ps' r" if "complete" "row_wf r" "lr_seq r \<le> ?cuts ! nat (lr_lane r)" for r
      using advance_complete [of ?cuts mid ps'] adv(3) mid(2) sees that by (simp add: positions_ok_def row_wf_def)
    then show ?thesis using t adv(2) page by (cases complete) auto
  next
    case False
    then have "live_turn st now snapshot rows = Inl (Resync code)" using p o by (simp add: live_turn_def)
    then show ?thesis by blast
  qed
qed

subsection \<open>A run for the witnesses\<close>

definition sample_live_row :: "int \<Rightarrow> live_row" where
  "sample_live_row n = \<lparr>lr_lane = 2, lr_seq = 5, lr_ordinal = n, lr_record = replicate 64 CHR ''a''\<rparr>"

definition sample_cuts :: "int list" where
  "sample_cuts = [0, 0, 5, 0, 0, 0, 0, 0, 0, 0, 0, 0, 0, 0, 0, 0]"

definition sample_live :: live_state where
  "sample_live = \<lparr>ls_positions = initialLivePositions sample_cuts True, ls_budget = \<lparr>lb_window = None, lb_rows = 0, lb_pending = None\<rparr>, ls_drain = None\<rparr>"

lemma sample_sees: "turn_sees [sample_live_row 0, sample_live_row 1] (live_cuts sample_live sample_cuts) [sample_live_row 1, sample_live_row 0]"
  by code_simp

lemma sample_turn: "\<exists>st. live_turn sample_live 1000 sample_cuts [sample_live_row 1, sample_live_row 0] = Inr ([sample_live_row 0, sample_live_row 1], st) \<and>
  covered (ls_positions st) (sample_live_row 0)"
proof -
  have "case live_turn sample_live 1000 sample_cuts [sample_live_row 1, sample_live_row 0] of Inl _ \<Rightarrow> False
    | Inr x \<Rightarrow> fst x = [sample_live_row 0, sample_live_row 1] \<and> covered (ls_positions (snd x)) (sample_live_row 0)" by code_simp
  then show ?thesis by (auto split: sum.splits)
qed

theorem live_stream_exactly_once_witness:
  "\<exists>st out. (live_step [sample_live_row 0, sample_live_row 1])\<^sup>*\<^sup>* (sample_live, []) (st, out) \<and> sample_live_row 0 \<in> set out \<and> distinct (map live_key out)"
proof -
  obtain st where t: "live_turn sample_live 1000 sample_cuts [sample_live_row 1, sample_live_row 0] = Inr ([sample_live_row 0, sample_live_row 1], st)"
    "covered (ls_positions st) (sample_live_row 0)" using sample_turn by blast
  have run: "(live_step [sample_live_row 0, sample_live_row 1])\<^sup>*\<^sup>* (sample_live, []) (st, [sample_live_row 0, sample_live_row 1])"
    using live_step.turn [OF sample_sees t(1), of "[]"] by (simp add: r_into_rtranclp)
  have "length (ls_positions sample_live) = 16" "row_wf (sample_live_row 0)" "\<not> covered (ls_positions sample_live) (sample_live_row 0)" by code_simp+
  then show ?thesis using live_stream_exactly_once [OF run] t(2) run by (metis list.set_intros(1))
qed

theorem live_turn_progress_witness:
  "turn_sees [sample_live_row 0] (live_cuts sample_live sample_cuts) [sample_live_row 0] \<and> (\<exists>page st. live_turn sample_live 1000 sample_cuts [sample_live_row 0] = Inr (page, st) \<and>
    positions_ok sample_cuts (ls_positions st))"
proof -
  have s: "turn_sees [sample_live_row 0] (live_cuts sample_live sample_cuts) [sample_live_row 0]" "positions_ok (live_cuts sample_live sample_cuts) (ls_positions sample_live)"
    "live_cuts sample_live sample_cuts = sample_cuts" by code_simp+
  have "case live_turn sample_live 1000 sample_cuts [sample_live_row 0] of Inl _ \<Rightarrow> False | Inr _ \<Rightarrow> True" by code_simp
  then have "\<not> (\<exists>code. live_turn sample_live 1000 sample_cuts [sample_live_row 0] = Inl (Resync code))" by auto
  then show ?thesis using live_turn_progress [OF s(1,2), of 1000] s by auto
qed

end
