(* ===== verification/Token.thy ===== *)
theory Token
  imports GoStruct Live Records
begin

section \<open>Signed tokens\<close>

text \<open>
  \<open>internal/query/token.go\<close>: the tokens that carry a snapshot, a page position or a live position
  through a client. The clock of the codec is an argument, in nanoseconds; \<open>uuid.Validate\<close> is the
  argument \<open>uuid_ok\<close>; \<open>crypto/hmac\<close> and \<open>encoding/base64\<close> are modelled.
\<close>

subsection \<open>HMAC and base64\<close>

unbundle bit_operations_syntax

definition xor_char :: "int \<Rightarrow> char \<Rightarrow> char" where
  "xor_char n c = char_of (n XOR of_char c)"

text \<open>Keys have 32 bytes, less than a block of SHA-256.\<close>

definition hmac_sha256 :: "string \<Rightarrow> string \<Rightarrow> string" where
  "hmac_sha256 key m = (let k = key @ replicate (64 - length key) CHR 0x00 in
    sha256 (map (xor_char 92) k @ sha256 (map (xor_char 54) k @ m)))"

definition b64_alphabet :: string where
  "b64_alphabet = ''ABCDEFGHIJKLMNOPQRSTUVWXYZabcdefghijklmnopqrstuvwxyz0123456789-_''"

definition b64_char :: "int \<Rightarrow> char" where
  "b64_char n = b64_alphabet ! nat n"

definition b64_value :: "char \<Rightarrow> int option" where
  "b64_value c = (let n = (of_char c :: int) in
    if 65 \<le> n \<and> n \<le> 90 then Some (n - 65) else if 97 \<le> n \<and> n \<le> 122 then Some (n - 71) else if 48 \<le> n \<and> n \<le> 57 then Some (n + 4)
    else if n = 45 then Some 62 else if n = 95 then Some 63 else None)"

fun b64_encode :: "string \<Rightarrow> string" where
  "b64_encode [] = []"
| "b64_encode [a] = (let x = of_char a in [b64_char (x div 4), b64_char (x mod 4 * 16)])"
| "b64_encode [a, b] = (let x = of_char a; y = of_char b in [b64_char (x div 4), b64_char (x mod 4 * 16 + y div 16), b64_char (y mod 16 * 4)])"
| "b64_encode (a # b # c # r) = (let x = of_char a; y = of_char b; z = of_char c in
    b64_char (x div 4) # b64_char (x mod 4 * 16 + y div 16) # b64_char (y mod 16 * 4 + z div 64) # b64_char (z mod 64) # b64_encode r)"

text \<open>The decoder skips line ends and does not look at the unused bits of the last character.\<close>

fun b64_quanta :: "int list \<Rightarrow> string option" where
  "b64_quanta [] = Some []"
| "b64_quanta [p] = None"
| "b64_quanta [p, q] = Some [char_of (p * 4 + q div 16)]"
| "b64_quanta [p, q, r] = Some [char_of (p * 4 + q div 16), char_of (q mod 16 * 16 + r div 4)]"
| "b64_quanta (p # q # r # s # t) = map_option (\<lambda>d. char_of (p * 4 + q div 16) # char_of (q mod 16 * 16 + r div 4) # char_of (r mod 4 * 64 + s) # d) (b64_quanta t)"

definition b64_decode :: "string \<Rightarrow> string option" where
  "b64_decode s = Option.bind (those (map b64_value (filter (\<lambda>c. c \<noteq> CHR 0x0A \<and> c \<noteq> CHR 0x0D) s))) b64_quanta"

lemma b64_value_char:
  assumes "0 \<le> n" "n < 64"
  shows "b64_value (b64_char n) = Some n \<and> b64_char n \<noteq> CHR 0x0A \<and> b64_char n \<noteq> CHR 0x0D \<and> b64_char n \<noteq> CHR ''.''"
proof -
  have "list_all (\<lambda>i. b64_value (b64_char (int i)) = Some (int i) \<and> b64_char (int i) \<noteq> CHR 0x0A \<and> b64_char (int i) \<noteq> CHR 0x0D \<and> b64_char (int i) \<noteq> CHR ''.'') [0..<64]"
    by code_simp
  then show ?thesis using assms by (auto simp: list_all_iff dest!: bspec [of _ _ "nat n"])
qed

fun b64_sextets :: "string \<Rightarrow> int list" where
  "b64_sextets [] = []"
| "b64_sextets [a] = (let x = of_char a in [x div 4, x mod 4 * 16])"
| "b64_sextets [a, b] = (let x = of_char a; y = of_char b in [x div 4, x mod 4 * 16 + y div 16, y mod 16 * 4])"
| "b64_sextets (a # b # c # r) = (let x = of_char a; y = of_char b; z = of_char c in
    x div 4 # (x mod 4 * 16 + y div 16) # (y mod 16 * 4 + z div 64) # (z mod 64) # b64_sextets r)"

lemma b64_encode_sextets: "b64_encode s = map b64_char (b64_sextets s)"
  by (induction s rule: b64_encode.induct) (simp_all add: Let_def)

lemma digit_split: "0 \<le> b \<Longrightarrow> b < k \<Longrightarrow> (a * k + b) div k = a" "0 \<le> b \<Longrightarrow> b < k \<Longrightarrow> (a * k + b) mod k = b" for a b k :: int
  by simp_all

lemma digit_bound: "0 \<le> a \<Longrightarrow> a < n \<Longrightarrow> 0 \<le> b \<Longrightarrow> b < k \<Longrightarrow> 0 \<le> a * k + b \<and> a * k + b < n * k" for a b k n :: int
proof -
  assume h: "0 \<le> a" "a < n" "0 \<le> b" "b < k"
  then have "0 \<le> a * k" "(a + 1) * k \<le> n * k" by (simp_all add: mult_right_mono)
  then show ?thesis using h by (simp add: distrib_right)
qed

lemma byte_split: "0 \<le> x div 4 \<and> x div 4 < 64" "0 \<le> x div 16 \<and> x div 16 < 16" "0 \<le> x div 64 \<and> x div 64 < 4" if "0 \<le> x" "x < 256" for x :: int
  using that by presburger+

lemma sextet_ranges:
  fixes x y z :: int
  assumes "0 \<le> y" "y < 256" "0 \<le> z" "z < 256"
  shows "0 \<le> x mod 4 * 16 \<and> x mod 4 * 16 < 64" "0 \<le> x mod 4 * 16 + y div 16 \<and> x mod 4 * 16 + y div 16 < 64" "0 \<le> y mod 16 * 4 \<and> y mod 16 * 4 < 64"
    "0 \<le> y mod 16 * 4 + z div 64 \<and> y mod 16 * 4 + z div 64 < 64"
  using digit_bound [of "x mod 4" 4 0 16] digit_bound [of "x mod 4" 4 "y div 16" 16] digit_bound [of "y mod 16" 16 0 4] digit_bound [of "y mod 16" 16 "z div 64" 4]
    byte_split [OF assms(1,2)] byte_split [OF assms(3,4)] by simp_all

lemma sextets_range: "list_all (\<lambda>n. 0 \<le> n \<and> n < 64) (b64_sextets s)"
  by (induction s rule: b64_sextets.induct)
    (simp_all only: b64_sextets.simps Let_def list.pred_inject byte_split sextet_ranges [OF of_char_int_range of_char_int_range] of_char_int_range pos_mod_bound pos_mod_sign zero_less_numeral simp_thms)

lemma joined_bytes:
  fixes x y z :: int
  assumes "0 \<le> y" "y < 256" "0 \<le> z" "z < 256"
  shows "x div 4 * 4 + (x mod 4 * 16) div 16 = x" "x div 4 * 4 + (x mod 4 * 16 + y div 16) div 16 = x"
    "(x mod 4 * 16 + y div 16) mod 16 * 16 + (y mod 16 * 4) div 4 = y" "(x mod 4 * 16 + y div 16) mod 16 * 16 + (y mod 16 * 4 + z div 64) div 4 = y"
    "(y mod 16 * 4 + z div 64) mod 4 * 64 + z mod 64 = z"
proof -
  have q: "0 \<le> y div 16" "y div 16 < 16" "0 \<le> z div 64" "z div 64 < 4" using byte_split [OF assms(1,2)] byte_split [OF assms(3,4)] by simp_all
  note d = digit_split [OF q(1,2), of "x mod 4"] digit_split [OF q(3,4), of "y mod 16"] nonzero_mult_div_cancel_right [of "16 :: int" "x mod 4"] nonzero_mult_div_cancel_right [of "4 :: int" "y mod 16"]
  show "x div 4 * 4 + (x mod 4 * 16) div 16 = x" "x div 4 * 4 + (x mod 4 * 16 + y div 16) div 16 = x"
    "(x mod 4 * 16 + y div 16) mod 16 * 16 + (y mod 16 * 4) div 4 = y" "(x mod 4 * 16 + y div 16) mod 16 * 16 + (y mod 16 * 4 + z div 64) div 4 = y"
    "(y mod 16 * 4 + z div 64) mod 4 * 64 + z mod 64 = z"
    unfolding d(1-4) by (simp_all add: d(5,6))
qed

lemma quanta_sextets: "b64_quanta (b64_sextets s) = Some s"
  by (induction s rule: b64_sextets.induct)
    (simp_all only: b64_sextets.simps b64_quanta.simps Let_def joined_bytes [OF of_char_int_range of_char_int_range] option.map char_of_char)

lemma b64_decode_encode: "b64_decode (b64_encode s) = Some s"
proof -
  have k: "filter (\<lambda>c. c \<noteq> CHR 0x0A \<and> c \<noteq> CHR 0x0D) (map b64_char xs) = map b64_char xs \<and> those (map b64_value (map b64_char xs)) = Some xs"
    if "list_all (\<lambda>n. 0 \<le> n \<and> n < 64) xs" for xs
    using that by (induction xs) (auto simp: b64_value_char)
  show ?thesis using k [OF sextets_range, of s] by (simp add: b64_decode_def b64_encode_sextets quanta_sextets)
qed

lemma b64_no_dot: "CHR ''.'' \<notin> set (b64_encode s)"
proof
  assume "CHR ''.'' \<in> set (b64_encode s)"
  then obtain n where "n \<in> set (b64_sextets s)" "CHR ''.'' = b64_char n" by (auto simp: b64_encode_sextets)
  then show False using sextets_range [of s] b64_value_char [of n] by (auto simp: list_all_iff)
qed

subsection \<open>Claims\<close>

record signing_key =
  sk_id :: string
  sk_secret :: string

record token_codec =
  tc_current :: signing_key
  tc_previous :: "signing_key option"

datatype token_error = ErrTokenMalformed | ErrTokenGenerationChanged | ErrTokenForbidden | ErrTokenExpired | ErrTokenMismatch | ErrSigningKeys

record read_claims =
  rc_version :: int
  rc_purpose :: string
  rc_key :: string
  rc_generation :: int
  rc_snapshot :: string
  rc_principal :: string
  rc_dataset :: string
  rc_expires :: int

record cursor_tuple =
  ct_event :: "int option"
  ct_ns :: "int option"
  ct_received :: "int option"
  ct_lane :: "int option"
  ct_seq :: "int option"
  ct_ordinal :: "int option"
  ct_record :: string

record cursor_claims =
  cc_version :: int
  cc_purpose :: string
  cc_key :: string
  cc_generation :: int
  cc_snapshot :: string
  cc_principal :: string
  cc_dataset :: string
  cc_operation :: string
  cc_sort :: string
  cc_limit :: int
  cc_last :: cursor_tuple
  cc_expires :: int

record live_claims =
  lc_start :: "int option"
  lc_version :: int
  lc_purpose :: string
  lc_key :: string
  lc_generation :: int
  lc_principal :: string
  lc_scope :: string
  lc_positions :: "live_position list"
  lc_expires :: int

record token_expectation =
  te_generation :: int
  te_principal :: string
  te_dataset :: string
  te_operation :: string
  te_sort :: string
  te_limit :: int

subsection \<open>Their JSON\<close>

definition joption :: "int option \<Rightarrow> json" where
  "joption x = (case x of None \<Rightarrow> JNull | Some n \<Rightarrow> jint n)"

definition read_json :: "read_claims \<Rightarrow> json" where
  "read_json c = JObj [(''version'', jint (rc_version c)), (''purpose'', JStr (rc_purpose c)), (''key_id'', JStr (rc_key c)), (''generation'', jint (rc_generation c)),
    (''snapshot_id'', JStr (rc_snapshot c)), (''principal_hash'', JStr (rc_principal c)), (''dataset_hash'', JStr (rc_dataset c)), (''expires_at_us'', jint (rc_expires c))]"

definition tuple_json :: "cursor_tuple \<Rightarrow> json" where
  "tuple_json t = JObj [(''event_us'', joption (ct_event t)), (''event_ns'', joption (ct_ns t)), (''received_us'', joption (ct_received t)), (''lane_id'', joption (ct_lane t)),
    (''batch_seq'', joption (ct_seq t)), (''record_ordinal'', joption (ct_ordinal t)), (''record_id'', JStr (ct_record t))]"

definition cursor_json :: "cursor_claims \<Rightarrow> json" where
  "cursor_json c = JObj [(''version'', jint (cc_version c)), (''purpose'', JStr (cc_purpose c)), (''key_id'', JStr (cc_key c)), (''generation'', jint (cc_generation c)),
    (''snapshot_id'', JStr (cc_snapshot c)), (''principal_hash'', JStr (cc_principal c)), (''dataset_hash'', JStr (cc_dataset c)), (''operation_hash'', JStr (cc_operation c)),
    (''sort'', JStr (cc_sort c)), (''limit'', jint (cc_limit c)), (''last'', tuple_json (cc_last c)), (''expires_at_us'', jint (cc_expires c))]"

definition position_json :: "live_position \<Rightarrow> json" where
  "position_json p = JObj [(''batch_seq'', jint (lp_seq p)), (''ordinal'', jint (lp_ordinal p))]"

definition live_json :: "live_claims \<Rightarrow> json" where
  "live_json c = JObj ((case lc_start c of None \<Rightarrow> [] | Some t \<Rightarrow> [(''start_us'', jint t)]) @ [(''version'', jint (lc_version c)), (''purpose'', JStr (lc_purpose c)),
    (''key_id'', JStr (lc_key c)), (''generation'', jint (lc_generation c)), (''principal_hash'', JStr (lc_principal c)), (''scope_hash'', JStr (lc_scope c)),
    (''positions'', JArr (map position_json (lc_positions c))), (''expires_at_us'', jint (lc_expires c))])"

text \<open>
  A verified payload must be the encoding of the claims it decodes to. So, as for the manifests, the
  decoders of the model take the fields in order and reject other texts at once; the first parse, which
  only selects the key, takes them in any order and skips the rest.
\<close>

definition option_of :: "json \<Rightarrow> int option option" where
  "option_of v = (if v = JNull then Some None else map_option Some (int_of v))"

definition read_of :: "json \<Rightarrow> read_claims option" where
  "read_of v = do {
    xs \<leftarrow> json_fields [''version'', ''purpose'', ''key_id'', ''generation'', ''snapshot_id'', ''principal_hash'', ''dataset_hash'', ''expires_at_us''] v;
    a \<leftarrow> int_of (xs ! 0); b \<leftarrow> str_of (xs ! 1); c \<leftarrow> str_of (xs ! 2); d \<leftarrow> int_of (xs ! 3); e \<leftarrow> str_of (xs ! 4); f \<leftarrow> str_of (xs ! 5); g \<leftarrow> str_of (xs ! 6); h \<leftarrow> int_of (xs ! 7);
    Some \<lparr>rc_version = a, rc_purpose = b, rc_key = c, rc_generation = d, rc_snapshot = e, rc_principal = f, rc_dataset = g, rc_expires = h\<rparr> }"

definition tuple_of :: "json \<Rightarrow> cursor_tuple option" where
  "tuple_of v = do {
    xs \<leftarrow> json_fields [''event_us'', ''event_ns'', ''received_us'', ''lane_id'', ''batch_seq'', ''record_ordinal'', ''record_id''] v;
    a \<leftarrow> option_of (xs ! 0); b \<leftarrow> option_of (xs ! 1); c \<leftarrow> option_of (xs ! 2); d \<leftarrow> option_of (xs ! 3); e \<leftarrow> option_of (xs ! 4); f \<leftarrow> option_of (xs ! 5); g \<leftarrow> str_of (xs ! 6);
    Some \<lparr>ct_event = a, ct_ns = b, ct_received = c, ct_lane = d, ct_seq = e, ct_ordinal = f, ct_record = g\<rparr> }"

definition cursor_of :: "json \<Rightarrow> cursor_claims option" where
  "cursor_of v = do {
    xs \<leftarrow> json_fields [''version'', ''purpose'', ''key_id'', ''generation'', ''snapshot_id'', ''principal_hash'', ''dataset_hash'', ''operation_hash'', ''sort'', ''limit'', ''last'', ''expires_at_us''] v;
    a \<leftarrow> int_of (xs ! 0); b \<leftarrow> str_of (xs ! 1); c \<leftarrow> str_of (xs ! 2); d \<leftarrow> int_of (xs ! 3); e \<leftarrow> str_of (xs ! 4); f \<leftarrow> str_of (xs ! 5); g \<leftarrow> str_of (xs ! 6);
    h \<leftarrow> str_of (xs ! 7); i \<leftarrow> str_of (xs ! 8); j \<leftarrow> int_of (xs ! 9); k \<leftarrow> tuple_of (xs ! 10); l \<leftarrow> int_of (xs ! 11);
    Some \<lparr>cc_version = a, cc_purpose = b, cc_key = c, cc_generation = d, cc_snapshot = e, cc_principal = f, cc_dataset = g, cc_operation = h, cc_sort = i, cc_limit = j, cc_last = k,
      cc_expires = l\<rparr> }"

definition position_of :: "json \<Rightarrow> live_position option" where
  "position_of v = do { xs \<leftarrow> json_fields [''batch_seq'', ''ordinal''] v; a \<leftarrow> int_of (xs ! 0); b \<leftarrow> int_of (xs ! 1); Some \<lparr>lp_seq = a, lp_ordinal = b\<rparr> }"

definition positions_of :: "json \<Rightarrow> live_position list option" where
  "positions_of v = (case v of JArr vs \<Rightarrow> if length vs = nat LaneCount then those (map position_of vs) else None | _ \<Rightarrow> None)"

definition live_fields_of :: "int option \<Rightarrow> json list \<Rightarrow> live_claims option" where
  "live_fields_of t xs = do {
    a \<leftarrow> int_of (xs ! 0); b \<leftarrow> str_of (xs ! 1); c \<leftarrow> str_of (xs ! 2); d \<leftarrow> int_of (xs ! 3); e \<leftarrow> str_of (xs ! 4); f \<leftarrow> str_of (xs ! 5); g \<leftarrow> positions_of (xs ! 6); h \<leftarrow> int_of (xs ! 7);
    Some \<lparr>lc_start = t, lc_version = a, lc_purpose = b, lc_key = c, lc_generation = d, lc_principal = e, lc_scope = f, lc_positions = g, lc_expires = h\<rparr> }"

definition live_keys :: "string list" where
  "live_keys = [''version'', ''purpose'', ''key_id'', ''generation'', ''principal_hash'', ''scope_hash'', ''positions'', ''expires_at_us'']"

definition live_of :: "json \<Rightarrow> live_claims option" where
  "live_of v = (case json_fields live_keys v of Some xs \<Rightarrow> live_fields_of None xs
    | None \<Rightarrow> do { xs \<leftarrow> json_fields (''start_us'' # live_keys) v; t \<leftarrow> int_of (xs ! 0); live_fields_of (Some t) (tl xs) })"

record token_header =
  th_version :: int
  th_purpose :: string
  th_key :: string

definition set_token_header :: "string \<Rightarrow> json \<Rightarrow> token_header \<Rightarrow> token_header option" where
  "set_token_header k x h = (if k = ''version'' then put_int x (\<lambda>v. h\<lparr>th_version := v\<rparr>) h
    else if k = ''purpose'' then put_str x (\<lambda>v. h\<lparr>th_purpose := v\<rparr>) h else put_str x (\<lambda>v. h\<lparr>th_key := v\<rparr>) h)"

definition token_header_of :: "json \<Rightarrow> token_header option" where
  "token_header_of = decode_object False [''version'', ''purpose'', ''key_id''] set_token_header \<lparr>th_version = 0, th_purpose = [], th_key = []\<rparr>"

subsection \<open>Signing and verifying\<close>

definition validSigningKey :: "signing_key \<Rightarrow> bool" where
  "validSigningKey k = (sk_id k \<noteq> [] \<and> length (sk_id k) \<le> 64 \<and> sk_secret k \<noteq> replicate 32 CHR 0x00)"

definition newTokenCodec :: "signing_key \<Rightarrow> signing_key option \<Rightarrow> token_error + token_codec" where
  "newTokenCodec current previous =
    (if \<not> validSigningKey current \<or> (case previous of None \<Rightarrow> False | Some p \<Rightarrow> \<not> validSigningKey p \<or> sk_id p = sk_id current) then Inl ErrSigningKeys
     else Inr \<lparr>tc_current = current, tc_previous = previous\<rparr>)"

definition codec_key :: "token_codec \<Rightarrow> string \<Rightarrow> signing_key option" where
  "codec_key codec i = (if i = sk_id (tc_current codec) then Some (tc_current codec)
    else case tc_previous codec of None \<Rightarrow> None | Some p \<Rightarrow> if i = sk_id p then Some p else None)"

abbreviation MaxTokenPayload :: nat where "MaxTokenPayload \<equiv> 8192"
abbreviation MaxTokenLifetime :: int where "MaxTokenLifetime \<equiv> 3600000000000"

definition sign :: "token_codec \<Rightarrow> json \<Rightarrow> token_error + string" where
  "sign codec claims = (let payload = printJson marshalString claims in
    if MaxTokenPayload < length payload then Inl ErrTokenMalformed
    else Inr (b64_encode payload @ CHR ''.'' # b64_encode (hmac_sha256 (sk_secret (tc_current codec)) payload)))"

fun split_dots :: "string \<Rightarrow> string list" where
  "split_dots [] = [[]]"
| "split_dots (c # s) = (if c = CHR ''.'' then [] # split_dots s else (c # hd (split_dots s)) # tl (split_dots s))"

definition decodeExact :: "(json \<Rightarrow> 'a option) \<Rightarrow> string \<Rightarrow> 'a option" where
  "decodeExact f payload = Option.bind (unmarshalJson payload) f"

definition token_parts :: "string \<Rightarrow> (string \<times> string) option" where
  "token_parts token = (case split_dots token of [p, q] \<Rightarrow> if p = [] \<or> q = [] then None else
      do { payload \<leftarrow> b64_decode p; signature \<leftarrow> b64_decode q;
           if payload = [] \<or> MaxTokenPayload < length payload \<or> length signature \<noteq> 32 then None else Some (payload, signature) }
    | _ \<Rightarrow> None)"

definition verify :: "token_codec \<Rightarrow> string \<Rightarrow> (json \<Rightarrow> 'a option) \<Rightarrow> ('a \<Rightarrow> json) \<Rightarrow> string \<Rightarrow> token_error + 'a" where
  "verify codec purpose decode encode token =
    (case token_parts token of None \<Rightarrow> Inl ErrTokenMalformed | Some (payload, signature) \<Rightarrow>
      case Option.bind (unmarshalJson payload) token_header_of of None \<Rightarrow> Inl ErrTokenMalformed | Some h \<Rightarrow>
      case codec_key codec (th_key h) of None \<Rightarrow> Inl ErrTokenMalformed | Some key \<Rightarrow>
      if signature \<noteq> hmac_sha256 (sk_secret key) payload then Inl ErrTokenMalformed
      else if th_version h \<noteq> 1 \<or> th_purpose h \<noteq> purpose then Inl ErrTokenMalformed
      else case decodeExact decode payload of None \<Rightarrow> Inl ErrTokenMalformed | Some claims \<Rightarrow>
        if printJson marshalString (encode claims) \<noteq> payload then Inl ErrTokenMalformed else Inr claims)"

definition unix_micro :: "int \<Rightarrow> int" where
  "unix_micro us = us * 1000"

definition validateCommon :: "(string \<Rightarrow> bool) \<Rightarrow> int \<Rightarrow> int \<Rightarrow> string \<Rightarrow> string \<Rightarrow> string \<Rightarrow> int \<Rightarrow> token_error + unit" where
  "validateCommon uuid_ok now generation snapshot who dataset expires =
    check (0 < generation \<and> uuid_ok snapshot \<and> validDigest who \<and> validDigest dataset \<and> now < unix_micro expires \<and> unix_micro expires \<le> now + MaxTokenLifetime) ErrTokenMismatch"

definition checkExpected :: "int \<Rightarrow> int \<Rightarrow> string \<Rightarrow> string \<Rightarrow> string \<Rightarrow> string \<Rightarrow> int \<Rightarrow> int \<Rightarrow> token_expectation \<Rightarrow> token_error + unit" where
  "checkExpected now generation who dataset operation order limit expires e =
    (if generation \<noteq> te_generation e then Inl ErrTokenGenerationChanged
     else if who \<noteq> te_principal e then Inl ErrTokenForbidden
     else if \<not> now < unix_micro expires then Inl ErrTokenExpired
     else if te_dataset e \<noteq> [] \<and> dataset \<noteq> te_dataset e \<or> te_operation e \<noteq> operation \<or> te_sort e \<noteq> order \<or> te_limit e \<noteq> limit then Inl ErrTokenMismatch
     else Inr ())"

definition validCursor :: "string \<Rightarrow> int \<Rightarrow> cursor_tuple \<Rightarrow> bool" where
  "validCursor order limit t =
    (1 \<le> limit \<and> limit \<le> 1000 \<and> validDigest (ct_record t) \<and>
     (if order = ''event_desc'' then ct_event t \<noteq> None \<and> (case ct_ns t of None \<Rightarrow> False | Some n \<Rightarrow> 0 \<le> n \<and> n \<le> 999) \<and>
        ct_received t = None \<and> ct_lane t = None \<and> ct_seq t = None \<and> ct_ordinal t = None
      else if order = ''received_desc'' then ct_event t = None \<and> ct_ns t = None \<and> ct_received t \<noteq> None \<and> (case ct_lane t of None \<Rightarrow> False | Some n \<Rightarrow> 0 \<le> n \<and> n < 16) \<and>
        (case ct_seq t of None \<Rightarrow> False | Some n \<Rightarrow> 0 < n) \<and> (case ct_ordinal t of None \<Rightarrow> False | Some n \<Rightarrow> 0 \<le> n)
      else False))"

definition position_valid :: "live_position \<Rightarrow> bool" where
  "position_valid p = (0 \<le> lp_seq p \<and> - 1 \<le> lp_ordinal p \<and> (lp_seq p = 0 \<longrightarrow> lp_ordinal p = - 1))"

definition validLiveClaims :: "live_claims \<Rightarrow> int option \<Rightarrow> bool" where
  "validLiveClaims c now = (lc_version c = 1 \<and> lc_purpose c = ''live'' \<and> 0 < lc_generation c \<and> validDigest (lc_principal c) \<and> validDigest (lc_scope c) \<and>
    list_all position_valid (lc_positions c) \<and>
    (case now of None \<Rightarrow> True | Some t \<Rightarrow> t < unix_micro (lc_expires c) \<and> unix_micro (lc_expires c) \<le> t + MaxTokenLifetime))"

subsection \<open>The three kinds of token\<close>

definition read_claims_of :: "token_codec \<Rightarrow> query_snapshot \<Rightarrow> read_claims" where
  "read_claims_of codec s = \<lparr>rc_version = 1, rc_purpose = ''read'', rc_key = sk_id (tc_current codec), rc_generation = qs_generation s, rc_snapshot = qs_id s,
    rc_principal = qs_principal s, rc_dataset = qs_dataset s, rc_expires = qs_expires s\<rparr>"

definition signRead :: "(string \<Rightarrow> bool) \<Rightarrow> token_codec \<Rightarrow> int \<Rightarrow> query_snapshot \<Rightarrow> token_error + string" where
  "signRead uuid_ok codec now s =
    bindR (validateCommon uuid_ok now (qs_generation s) (qs_id s) (qs_principal s) (qs_dataset s) (qs_expires s)) (\<lambda>_. sign codec (read_json (read_claims_of codec s)))"

definition verifyRead :: "(string \<Rightarrow> bool) \<Rightarrow> token_codec \<Rightarrow> int \<Rightarrow> token_expectation \<Rightarrow> string \<Rightarrow> token_error + read_claims" where
  "verifyRead uuid_ok codec now e token =
    bindR (verify codec ''read'' read_of read_json token) (\<lambda>c.
      if rc_generation c \<le> 0 \<or> \<not> uuid_ok (rc_snapshot c) \<or> \<not> validDigest (rc_principal c) \<or> \<not> validDigest (rc_dataset c) then Inl ErrTokenMalformed
      else bindR (checkExpected now (rc_generation c) (rc_principal c) (rc_dataset c) [] [] 0 (rc_expires c) e) (\<lambda>_. Inr c))"

definition cursor_claims_of :: "token_codec \<Rightarrow> query_snapshot \<Rightarrow> string \<Rightarrow> string \<Rightarrow> int \<Rightarrow> cursor_tuple \<Rightarrow> cursor_claims" where
  "cursor_claims_of codec s operation order limit tuple = \<lparr>cc_version = 1, cc_purpose = ''cursor'', cc_key = sk_id (tc_current codec), cc_generation = qs_generation s, cc_snapshot = qs_id s,
    cc_principal = qs_principal s, cc_dataset = qs_dataset s, cc_operation = operation, cc_sort = order, cc_limit = limit, cc_last = tuple, cc_expires = qs_expires s\<rparr>"

definition signCursor :: "(string \<Rightarrow> bool) \<Rightarrow> token_codec \<Rightarrow> int \<Rightarrow> query_snapshot \<Rightarrow> string \<Rightarrow> string \<Rightarrow> int \<Rightarrow> cursor_tuple \<Rightarrow> token_error + string" where
  "signCursor uuid_ok codec now s operation order limit tuple =
    bindR (validateCommon uuid_ok now (qs_generation s) (qs_id s) (qs_principal s) (qs_dataset s) (qs_expires s)) (\<lambda>_.
      if \<not> validDigest operation \<or> \<not> validCursor order limit tuple then Inl ErrTokenMismatch
      else sign codec (cursor_json (cursor_claims_of codec s operation order limit tuple)))"

definition verifyCursor :: "(string \<Rightarrow> bool) \<Rightarrow> token_codec \<Rightarrow> int \<Rightarrow> token_expectation \<Rightarrow> string \<Rightarrow> token_error + cursor_claims" where
  "verifyCursor uuid_ok codec now e token =
    bindR (verify codec ''cursor'' cursor_of cursor_json token) (\<lambda>c.
      if cc_generation c \<le> 0 \<or> \<not> uuid_ok (cc_snapshot c) \<or> \<not> validDigest (cc_principal c) \<or> \<not> validDigest (cc_dataset c) \<or> \<not> validDigest (cc_operation c) \<or>
        \<not> validCursor (cc_sort c) (cc_limit c) (cc_last c) then Inl ErrTokenMalformed
      else bindR (checkExpected now (cc_generation c) (cc_principal c) (cc_dataset c) (cc_operation c) (cc_sort c) (cc_limit c) (cc_expires c) e) (\<lambda>_. Inr c))"

definition live_claims_of :: "token_codec \<Rightarrow> int \<Rightarrow> string \<Rightarrow> string \<Rightarrow> live_position list \<Rightarrow> int \<Rightarrow> int \<Rightarrow> live_claims" where
  "live_claims_of codec generation who scope places expires start = \<lparr>lc_start = Some start, lc_version = 1, lc_purpose = ''live'', lc_key = sk_id (tc_current codec),
    lc_generation = generation, lc_principal = who, lc_scope = scope, lc_positions = places, lc_expires = expires\<rparr>"

definition signLiveFrom :: "token_codec \<Rightarrow> int \<Rightarrow> int \<Rightarrow> string \<Rightarrow> string \<Rightarrow> live_position list \<Rightarrow> int \<Rightarrow> int \<Rightarrow> token_error + string" where
  "signLiveFrom codec now generation who scope places expires start =
    (let c = live_claims_of codec generation who scope places expires start in
     if \<not> validLiveClaims c (Some now) then Inl ErrTokenMismatch else sign codec (live_json c))"

definition signLive :: "token_codec \<Rightarrow> int \<Rightarrow> int \<Rightarrow> string \<Rightarrow> string \<Rightarrow> live_position list \<Rightarrow> int \<Rightarrow> token_error + string" where
  "signLive codec now generation who scope places expires = signLiveFrom codec now generation who scope places expires minInt64"

definition verifyLive :: "token_codec \<Rightarrow> int \<Rightarrow> token_expectation \<Rightarrow> string \<Rightarrow> string \<Rightarrow> token_error + live_claims" where
  "verifyLive codec now e scope token =
    bindR (verify codec ''live'' live_of live_json token) (\<lambda>c.
      if \<not> validLiveClaims c None then Inl ErrTokenMalformed
      else bindR (checkExpected now (lc_generation c) (lc_principal c) [] [] [] 0 (lc_expires c) e) (\<lambda>_.
        if lc_scope c \<noteq> scope then Inl ErrTokenMismatch else Inr c))"

subsection \<open>The claims survive their encoding\<close>

definition int64_option :: "int option \<Rightarrow> bool" where
  "int64_option x = (case x of None \<Rightarrow> True | Some n \<Rightarrow> int64 n)"

definition read_wf :: "read_claims \<Rightarrow> bool" where
  "read_wf c = (int64 (rc_version c) \<and> utf8_valid (rc_purpose c) \<and> utf8_valid (rc_key c) \<and> int64 (rc_generation c) \<and> utf8_valid (rc_snapshot c) \<and> utf8_valid (rc_principal c) \<and>
    utf8_valid (rc_dataset c) \<and> int64 (rc_expires c))"

definition tuple_wf :: "cursor_tuple \<Rightarrow> bool" where
  "tuple_wf t = (int64_option (ct_event t) \<and> int64_option (ct_ns t) \<and> int64_option (ct_received t) \<and> int64_option (ct_lane t) \<and> int64_option (ct_seq t) \<and> int64_option (ct_ordinal t) \<and>
    utf8_valid (ct_record t))"

definition cursor_wf :: "cursor_claims \<Rightarrow> bool" where
  "cursor_wf c = (int64 (cc_version c) \<and> utf8_valid (cc_purpose c) \<and> utf8_valid (cc_key c) \<and> int64 (cc_generation c) \<and> utf8_valid (cc_snapshot c) \<and> utf8_valid (cc_principal c) \<and>
    utf8_valid (cc_dataset c) \<and> utf8_valid (cc_operation c) \<and> utf8_valid (cc_sort c) \<and> int64 (cc_limit c) \<and> tuple_wf (cc_last c) \<and> int64 (cc_expires c))"

definition position_wf :: "live_position \<Rightarrow> bool" where
  "position_wf p = (int64 (lp_seq p) \<and> int64 (lp_ordinal p))"

definition live_wf :: "live_claims \<Rightarrow> bool" where
  "live_wf c = (int64_option (lc_start c) \<and> int64 (lc_version c) \<and> utf8_valid (lc_purpose c) \<and> utf8_valid (lc_key c) \<and> int64 (lc_generation c) \<and> utf8_valid (lc_principal c) \<and>
    utf8_valid (lc_scope c) \<and> length (lc_positions c) = nat LaneCount \<and> list_all position_wf (lc_positions c) \<and> int64 (lc_expires c))"

named_theorems claim_json

lemmas claim_fields [claim_json] = json_fields_def int_of_jint str_of_JStr

lemma option_of_joption [claim_json]: "int64_option x \<Longrightarrow> option_of (joption x) = Some x"
  by (cases x) (simp_all add: int64_option_def joption_def option_of_def int_of_jint jint_def, simp add: jint_def [symmetric] int_of_jint)

lemma printable_joption [claim_json]: "printable (joption x)"
  by (cases x) (simp_all add: joption_def printable_jint)

lemma height_joption [claim_json]: "height (joption x) = 0"
  by (cases x) (simp_all add: joption_def height_jint)

lemma read_of_json: "read_wf c \<Longrightarrow> read_of (read_json c) = Some c"
  by (simp add: read_of_def read_json_def read_wf_def claim_json)

lemma tuple_of_json [claim_json]: "tuple_wf t \<Longrightarrow> tuple_of (tuple_json t) = Some t"
  by (simp add: tuple_of_def tuple_json_def tuple_wf_def claim_json)

lemma cursor_of_json: "cursor_wf c \<Longrightarrow> cursor_of (cursor_json c) = Some c"
  by (simp add: cursor_of_def cursor_json_def cursor_wf_def claim_json)

lemma position_of_json: "position_wf p \<Longrightarrow> position_of (position_json p) = Some p"
  by (simp add: position_of_def position_json_def position_wf_def claim_json)

lemma positions_of_json [claim_json]:
  assumes "length ps = nat LaneCount" "list_all position_wf ps"
  shows "positions_of (JArr (map position_json ps)) = Some ps"
proof -
  have "those (map position_of (map position_json ps)) = Some ps" using assms(2) by (induction ps) (simp_all add: position_of_json)
  then show ?thesis using assms(1) by (simp add: positions_of_def)
qed

lemma live_of_json: "live_wf c \<Longrightarrow> live_of (live_json c) = Some c"
  by (cases "lc_start c") (simp_all add: live_of_def live_json_def live_wf_def live_keys_def live_fields_of_def int64_option_def claim_json)

lemma printable_read: "read_wf c \<Longrightarrow> printable (read_json c)"
  unfolding read_json_def by (rule printable_object) (simp_all add: read_wf_def printable_jint)

lemma printable_tuple [claim_json]: "tuple_wf t \<Longrightarrow> printable (tuple_json t)"
  unfolding tuple_json_def by (rule printable_object) (simp_all add: tuple_wf_def printable_joption)

lemma printable_cursor: "cursor_wf c \<Longrightarrow> printable (cursor_json c)"
  unfolding cursor_json_def by (rule printable_object) (simp_all add: cursor_wf_def printable_jint printable_tuple)

lemma printable_position: "printable (position_json p)"
  unfolding position_json_def by (rule printable_object) (simp_all add: printable_jint)

lemma printable_live: "live_wf c \<Longrightarrow> printable (live_json c)"
  unfolding live_json_def by (rule printable_object; cases "lc_start c") (simp_all add: live_wf_def printable_jint printable_position list_all_iff)

lemma height_claims: "height (read_json c) \<le> 3" "height (cursor_json d) \<le> 3" "height (live_json l) \<le> 3"
proof -
  show "height (read_json c) \<le> 3" "height (cursor_json d) \<le> 3" by (simp_all add: read_json_def cursor_json_def tuple_json_def height_jint height_joption)
  have "fold max (map height (map position_json ps)) 0 \<le> 1" for ps by (rule fold_max_le) (auto simp: position_json_def height_jint)
  then show "height (live_json l) \<le> 3" by (cases "lc_start l") (simp_all add: live_json_def height_jint)
qed

subsubsection \<open>The header of a payload\<close>

lemma header_fields:
  "find_field [''version'', ''purpose'', ''key_id''] ''version'' = Some ''version''" "find_field [''version'', ''purpose'', ''key_id''] ''purpose'' = Some ''purpose''"
  "find_field [''version'', ''purpose'', ''key_id''] ''key_id'' = Some ''key_id''"
  by (simp_all add: find_field_def)

lemma header_skips: "list_all (\<lambda>k. find_field [''version'', ''purpose'', ''key_id''] k = None)
  [''generation'', ''snapshot_id'', ''principal_hash'', ''dataset_hash'', ''operation_hash'', ''sort'', ''limit'', ''last'', ''start_us'', ''scope_hash'', ''positions'', ''expires_at_us'']"
  by code_simp

lemmas header_simps = token_header_of_def decode_object_def set_token_header_def put_int_def put_str_def header_fields header_skips [simplified]
  int_of_jint str_of_JStr

lemma jint_not_null: "jint n \<noteq> JNull"
  by (simp add: jint_def)

lemma header_read: "read_wf c \<Longrightarrow> token_header_of (read_json c) = Some \<lparr>th_version = rc_version c, th_purpose = rc_purpose c, th_key = rc_key c\<rparr>"
  by (simp add: header_simps jint_not_null read_json_def read_wf_def)

lemma header_cursor: "cursor_wf c \<Longrightarrow> token_header_of (cursor_json c) = Some \<lparr>th_version = cc_version c, th_purpose = cc_purpose c, th_key = cc_key c\<rparr>"
  by (simp add: header_simps jint_not_null cursor_json_def cursor_wf_def)

lemma header_live: "live_wf c \<Longrightarrow> token_header_of (live_json c) = Some \<lparr>th_version = lc_version c, th_purpose = lc_purpose c, th_key = lc_key c\<rparr>"
  by (cases "lc_start c") (simp_all add: header_simps jint_not_null live_json_def live_wf_def)

subsubsection \<open>Decoded claims are values of Go\<close>

lemma int_of_range: "int_of v = Some n \<Longrightarrow> int64 n"
  by (auto simp: int_of_def split: json.splits option.splits if_splits)

lemma option_of_range: "option_of v = Some x \<Longrightarrow> int64_option x"
  by (auto simp: option_of_def int64_option_def dest: int_of_range split: if_splits)

lemma str_of_valid: "str_of v = Some s \<Longrightarrow> json_valid v \<Longrightarrow> utf8_valid s"
  by (auto simp: str_of_def split: json.splits)

lemma json_fields_valid:
  assumes "json_fields ks v = Some xs" "json_valid v"
  shows "length xs = length ks" "i < length ks \<Longrightarrow> json_valid (xs ! i)"
proof -
  obtain ms where ms: "v = JObj ms" "ks = map fst ms" "xs = map snd ms" using assms(1) by (auto simp: json_fields_def split: json.splits if_splits)
  show "length xs = length ks" by (simp add: ms)
  have "json_valid (snd m)" if "m \<in> set ms" for m using assms(2) that ms(1) by (auto simp: list_all_iff)
  then show "json_valid (xs ! i)" if "i < length ks" using that by (simp add: ms)
qed

lemma read_of_wf: 
  assumes "read_of v = Some c" "json_valid v"
  shows "read_wf c"
proof -
  obtain xs where xs: "json_fields [''version'', ''purpose'', ''key_id'', ''generation'', ''snapshot_id'', ''principal_hash'', ''dataset_hash'', ''expires_at_us''] v = Some xs"
    using assms(1) by (auto simp: read_of_def bind_eq_Some_conv)
  show ?thesis using assms(1) json_fields_valid(2) [OF xs assms(2)] by (auto simp: read_of_def read_wf_def xs bind_eq_Some_conv dest: int_of_range str_of_valid)
qed

lemma tuple_of_wf: 
  assumes "tuple_of v = Some c" "json_valid v"
  shows "tuple_wf c"
proof -
  obtain xs where xs: "json_fields [''event_us'', ''event_ns'', ''received_us'', ''lane_id'', ''batch_seq'', ''record_ordinal'', ''record_id''] v = Some xs"
    using assms(1) by (auto simp: tuple_of_def bind_eq_Some_conv)
  show ?thesis using assms(1) json_fields_valid(2) [OF xs assms(2)] by (auto simp: tuple_of_def tuple_wf_def xs bind_eq_Some_conv dest: option_of_range str_of_valid)
qed

lemma cursor_of_wf: 
  assumes "cursor_of v = Some c" "json_valid v"
  shows "cursor_wf c"
proof -
  obtain xs where xs: "json_fields [''version'', ''purpose'', ''key_id'', ''generation'', ''snapshot_id'', ''principal_hash'', ''dataset_hash'', ''operation_hash'', ''sort'', ''limit'', ''last'', ''expires_at_us''] v = Some xs"
    using assms(1) by (auto simp: cursor_of_def bind_eq_Some_conv)
  show ?thesis using assms(1) json_fields_valid(2) [OF xs assms(2)]
    by (auto simp: cursor_of_def cursor_wf_def xs bind_eq_Some_conv dest: int_of_range str_of_valid intro: tuple_of_wf)
qed

lemma position_of_wf: "position_of v = Some p \<Longrightarrow> position_wf p"
  by (auto simp: position_of_def position_wf_def bind_eq_Some_conv dest: int_of_range)

lemma positions_of_wf: "positions_of v = Some ps \<Longrightarrow> length ps = nat LaneCount \<and> list_all position_wf ps"
proof -
  have k: "those (map position_of vs) = Some ps \<Longrightarrow> length ps = length vs \<and> list_all position_wf ps" for vs ps
    by (induction vs arbitrary: ps) (auto dest: position_of_wf split: option.splits)
  show "positions_of v = Some ps \<Longrightarrow> length ps = nat LaneCount \<and> list_all position_wf ps"
    by (auto simp: positions_of_def dest: k split: json.splits if_splits)
qed

lemma live_fields_wf:
  assumes "live_fields_of t xs = Some c" "int64_option t" "\<And>i. i < 8 \<Longrightarrow> json_valid (xs ! i)"
  shows "live_wf c"
  using assms(1) assms(2) assms(3) [of 1] assms(3) [of 2] assms(3) [of 4] assms(3) [of 5]
  by (auto simp: live_fields_of_def live_wf_def bind_eq_Some_conv dest: int_of_range str_of_valid positions_of_wf)

lemma live_of_wf: 
  assumes "live_of v = Some c" "json_valid v"
  shows "live_wf c"
proof (cases "json_fields live_keys v")
  case (Some xs)
  then have "live_fields_of None xs = Some c" using assms(1) by (simp add: live_of_def)
  then show ?thesis by (rule live_fields_wf) (use json_fields_valid(2) [OF Some assms(2)] in \<open>simp_all add: live_keys_def int64_option_def\<close>)
next
  case None
  then obtain xs t where xs: "json_fields (''start_us'' # live_keys) v = Some xs" "int_of (xs ! 0) = Some t" "live_fields_of (Some t) (tl xs) = Some c"
    using assms(1) by (auto simp: live_of_def bind_eq_Some_conv)
  have "json_valid (tl xs ! i)" if "i < 8" for i
    using that json_fields_valid(2) [OF xs(1) assms(2), of "Suc i"] json_fields_valid(1) [OF xs(1) assms(2)] by (simp add: live_keys_def nth_tl)
  then show ?thesis using xs(3) live_fields_wf int_of_range [OF xs(2)] by (simp add: int64_option_def)
qed

subsection \<open>What a codec accepts\<close>

text \<open>
  A token carries a payload and its MAC under the key of the codec with the given identifier.
\<close>

definition token_signed :: "token_codec \<Rightarrow> string \<Rightarrow> string \<Rightarrow> string \<Rightarrow> bool" where
  "token_signed codec kid payload token =
    (case codec_key codec kid of None \<Rightarrow> False | Some k \<Rightarrow> token_parts token = Some (payload, hmac_sha256 (sk_secret k) payload))"

lemma split_dots_plain: "CHR ''.'' \<notin> set s \<Longrightarrow> split_dots s = [s]"
  by (induction s) auto

lemma split_dots_two: "CHR ''.'' \<notin> set p \<Longrightarrow> split_dots (p @ CHR ''.'' # r) = p # split_dots r"
  by (induction p) auto

lemma b64_encode_empty: "b64_encode s = [] \<longleftrightarrow> s = []"
  by (cases s rule: b64_encode.cases) (simp_all add: Let_def)

lemma token_parts_text:
  assumes "payload \<noteq> []" "length payload \<le> MaxTokenPayload" "length mac = 32"
  shows "token_parts (b64_encode payload @ CHR ''.'' # b64_encode mac) = Some (payload, mac)"
proof -
  have "split_dots (b64_encode payload @ CHR ''.'' # b64_encode mac) = [b64_encode payload, b64_encode mac]" by (simp add: split_dots_two split_dots_plain b64_no_dot)
  moreover have "mac \<noteq> []" using assms(3) by auto
  ultimately show ?thesis using assms by (simp add: token_parts_def b64_encode_empty b64_decode_encode)
qed

lemma length_hmac: "length (hmac_sha256 k m) = 32"
  by (simp add: hmac_sha256_def Let_def length_sha256)

lemma sign_signed:
  assumes "sign S v = Inr t" "codec_key V (sk_id (tc_current S)) = Some (tc_current S)" "printable v"
  shows "token_signed V (sk_id (tc_current S)) (printJson marshalString v) t"
proof -
  have "printJson marshalString v \<noteq> []" using print_first [OF quotes_marshalString assms(3)] by auto
  then show ?thesis using assms(1,2) by (auto simp: sign_def Let_def token_signed_def token_parts_text length_hmac split: if_splits)
qed

text \<open>What the signing and the verification of a kind of claims rely on.\<close>

locale token_claims =
  fixes encode :: "'a \<Rightarrow> json" and decode :: "json \<Rightarrow> 'a option" and wf :: "'a \<Rightarrow> bool" and header :: "'a \<Rightarrow> token_header"
  assumes decode_encode: "wf c \<Longrightarrow> decode (encode c) = Some c"
    and encode_printable: "wf c \<Longrightarrow> printable (encode c)"
    and encode_height: "height (encode c) \<le> maxNestingDepth"
    and header_encode: "wf c \<Longrightarrow> token_header_of (encode c) = Some (header c)"
    and decode_wf: "decode v = Some c \<Longrightarrow> json_valid v \<Longrightarrow> wf c"
begin

lemma unmarshal_encode: "wf c \<Longrightarrow> unmarshalJson (printJson marshalString (encode c)) = Some (encode c)"
  by (rule unmarshal_print [OF quotes_marshalString encode_printable encode_height])

lemma verify_exact:
  "verify codec purpose decode encode token = Inr c \<longleftrightarrow>
    wf c \<and> th_version (header c) = 1 \<and> th_purpose (header c) = purpose \<and> token_signed codec (th_key (header c)) (printJson marshalString (encode c)) token"
proof
  assume v: "verify codec purpose decode encode token = Inr c"
  then obtain payload mac h key where p: "token_parts token = Some (payload, mac)" "Option.bind (unmarshalJson payload) token_header_of = Some h"
      "codec_key codec (th_key h) = Some key" "mac = hmac_sha256 (sk_secret key) payload" "th_version h = 1" "th_purpose h = purpose" "decodeExact decode payload = Some c"
      "printJson marshalString (encode c) = payload"
    by (auto simp: verify_def split: option.splits if_splits)
  have w: "wf c" using p(7) decode_wf unmarshal_valid by (auto simp: decodeExact_def bind_eq_Some_conv)
  then have "h = header c" using p(2) unmarshal_encode [OF w] header_encode [OF w] by (simp add: p(8))
  then show "wf c \<and> th_version (header c) = 1 \<and> th_purpose (header c) = purpose \<and> token_signed codec (th_key (header c)) (printJson marshalString (encode c)) token"
    using w p by (simp add: token_signed_def)
next
  assume a: "wf c \<and> th_version (header c) = 1 \<and> th_purpose (header c) = purpose \<and> token_signed codec (th_key (header c)) (printJson marshalString (encode c)) token"
  then have w: "wf c" by simp
  obtain key where "codec_key codec (th_key (header c)) = Some key"
      "token_parts token = Some (printJson marshalString (encode c), hmac_sha256 (sk_secret key) (printJson marshalString (encode c)))"
    using a by (auto simp: token_signed_def split: option.splits)
  then show "verify codec purpose decode encode token = Inr c"
    using a by (simp add: verify_def unmarshal_encode [OF w] header_encode [OF w] decodeExact_def decode_encode [OF w])
qed

lemma verify_sign:
  assumes "sign S (encode c) = Inr t" "codec_key V (sk_id (tc_current S)) = Some (tc_current S)" "wf c" "header c = \<lparr>th_version = 1, th_purpose = purpose, th_key = sk_id (tc_current S)\<rparr>"
  shows "verify V purpose decode encode t = Inr c"
  using sign_signed [OF assms(1,2) encode_printable [OF assms(3)]] assms(3,4) by (simp add: verify_exact)

lemma verify_purpose:
  assumes "verify codec purpose decode encode token = Inr c"
  shows "th_purpose (header c) = purpose \<and> (\<exists>payload mac. token_parts token = Some (payload, mac) \<and> Option.bind (unmarshalJson payload) token_header_of = Some (header c))"
  using assms by (auto simp: verify_exact token_signed_def unmarshal_encode header_encode split: option.splits)

end

abbreviation read_header :: "read_claims \<Rightarrow> token_header" where
  "read_header c \<equiv> \<lparr>th_version = rc_version c, th_purpose = rc_purpose c, th_key = rc_key c\<rparr>"

abbreviation cursor_header :: "cursor_claims \<Rightarrow> token_header" where
  "cursor_header c \<equiv> \<lparr>th_version = cc_version c, th_purpose = cc_purpose c, th_key = cc_key c\<rparr>"

abbreviation live_header :: "live_claims \<Rightarrow> token_header" where
  "live_header c \<equiv> \<lparr>th_version = lc_version c, th_purpose = lc_purpose c, th_key = lc_key c\<rparr>"

lemma claims_height: "height (read_json c) \<le> maxNestingDepth" "height (cursor_json d) \<le> maxNestingDepth" "height (live_json l) \<le> maxNestingDepth"
  using height_claims(1) [of c] height_claims(2) [of d] height_claims(3) [of l] by simp_all

interpretation read_token: token_claims read_json read_of read_wf read_header
  by unfold_locales (simp_all add: read_of_json printable_read claims_height header_read read_of_wf)

interpretation cursor_token: token_claims cursor_json cursor_of cursor_wf cursor_header
  by unfold_locales (simp_all add: cursor_of_json printable_cursor claims_height header_cursor cursor_of_wf)

interpretation live_token: token_claims live_json live_of live_wf live_header
  by unfold_locales (simp_all add: live_of_json printable_live claims_height header_live live_of_wf)

subsection \<open>The codec's guarantees\<close>

lemma validDigest_utf8: "validDigest d \<Longrightarrow> utf8_valid d"
  by (auto simp: validDigest_def dest: utf8_valid_hex split: option.splits)

lemma int64_small: "0 \<le> n \<Longrightarrow> n \<le> 1000 \<Longrightarrow> int64 n"
  by (simp add: int64_def)

lemma validCursor_sort: "validCursor order limit t \<Longrightarrow> utf8_valid order \<and> utf8_valid (ct_record t) \<and> int64 limit"
  by (auto simp: validCursor_def validDigest_utf8 int64_small split: if_splits)

lemma codec_key_rotation:
  assumes "V = S \<or> newTokenCodec following (Some (tc_current S)) = Inr V"
  shows "codec_key V (sk_id (tc_current S)) = Some (tc_current S)"
  using assms by (auto simp: codec_key_def newTokenCodec_def split: if_splits)

lemma verify_signRead:
  assumes "signRead uuid_ok S now s = Inr t" "codec_key V (sk_id (tc_current S)) = Some (tc_current S)" "utf8_valid (sk_id (tc_current S))" "utf8_valid (qs_id s)"
    "int64 (qs_generation s)" "int64 (qs_expires s)"
  shows "verify V ''read'' read_of read_json t = Inr (read_claims_of S s)"
  using assms by (intro read_token.verify_sign [of S])
    (auto simp: signRead_def bindR_eq_Inr validateCommon_def check_def read_wf_def read_claims_of_def validDigest_utf8 int64_small split: if_splits)

lemma verify_signCursor:
  assumes "signCursor uuid_ok S now s op order limit tuple = Inr t" "codec_key V (sk_id (tc_current S)) = Some (tc_current S)" "utf8_valid (sk_id (tc_current S))" "utf8_valid (qs_id s)"
    "int64 (qs_generation s)" "int64 (qs_expires s)" "tuple_wf tuple"
  shows "verify V ''cursor'' cursor_of cursor_json t = Inr (cursor_claims_of S s op order limit tuple)"
  using assms by (intro cursor_token.verify_sign [of S])
    (auto simp: signCursor_def bindR_eq_Inr validateCommon_def check_def cursor_wf_def cursor_claims_of_def validDigest_utf8 int64_small dest: validCursor_sort split: if_splits)

lemma verify_signLive:
  assumes "signLiveFrom S now g who scope places expires start = Inr t" "codec_key V (sk_id (tc_current S)) = Some (tc_current S)" "utf8_valid (sk_id (tc_current S))"
    "int64 g" "int64 expires" "int64 start" "length places = nat LaneCount" "list_all position_wf places"
  shows "verify V ''live'' live_of live_json t = Inr (live_claims_of S g who scope places expires start)"
  using assms by (intro live_token.verify_sign [of S])
    (auto simp: signLiveFrom_def Let_def validLiveClaims_def live_wf_def live_claims_of_def int64_option_def validDigest_utf8 int64_small split: if_splits)

lemma checkExpected_ok: "checkExpected now g who ds op order limit expires e = Inr () \<longleftrightarrow>
    g = te_generation e \<and> who = te_principal e \<and> now < unix_micro expires \<and> (te_dataset e = [] \<or> ds = te_dataset e) \<and> te_operation e = op \<and> te_sort e = order \<and> te_limit e = limit"
  by (auto simp: checkExpected_def)

definition read_accepts :: "(string \<Rightarrow> bool) \<Rightarrow> int \<Rightarrow> token_expectation \<Rightarrow> read_claims \<Rightarrow> bool" where
  "read_accepts uuid_ok now e c = (0 < rc_generation c \<and> uuid_ok (rc_snapshot c) \<and> validDigest (rc_principal c) \<and> validDigest (rc_dataset c) \<and>
    rc_generation c = te_generation e \<and> rc_principal c = te_principal e \<and> now < unix_micro (rc_expires c) \<and> (te_dataset e = [] \<or> rc_dataset c = te_dataset e) \<and>
    te_operation e = [] \<and> te_sort e = [] \<and> te_limit e = 0)"

definition cursor_accepts :: "(string \<Rightarrow> bool) \<Rightarrow> int \<Rightarrow> token_expectation \<Rightarrow> cursor_claims \<Rightarrow> bool" where
  "cursor_accepts uuid_ok now e c = (0 < cc_generation c \<and> uuid_ok (cc_snapshot c) \<and> validDigest (cc_principal c) \<and> validDigest (cc_dataset c) \<and> validDigest (cc_operation c) \<and>
    validCursor (cc_sort c) (cc_limit c) (cc_last c) \<and>
    cc_generation c = te_generation e \<and> cc_principal c = te_principal e \<and> now < unix_micro (cc_expires c) \<and> (te_dataset e = [] \<or> cc_dataset c = te_dataset e) \<and>
    te_operation e = cc_operation c \<and> te_sort e = cc_sort c \<and> te_limit e = cc_limit c)"

definition live_accepts :: "int \<Rightarrow> token_expectation \<Rightarrow> string \<Rightarrow> live_claims \<Rightarrow> bool" where
  "live_accepts now e scope c = (0 < lc_generation c \<and> validDigest (lc_principal c) \<and> validDigest (lc_scope c) \<and> list_all position_valid (lc_positions c) \<and>
    lc_generation c = te_generation e \<and> lc_principal c = te_principal e \<and> now < unix_micro (lc_expires c) \<and> te_dataset e = [] \<and>
    te_operation e = [] \<and> te_sort e = [] \<and> te_limit e = 0 \<and> lc_scope c = scope)"

lemma verifyRead_exact:
  "verifyRead uuid_ok V now e t = Inr c \<longleftrightarrow> read_wf c \<and> read_header c = \<lparr>th_version = 1, th_purpose = ''read'', th_key = rc_key c\<rparr> \<and>
    token_signed V (rc_key c) (printJson marshalString (read_json c)) t \<and> read_accepts uuid_ok now e c"
proof -
  have "verifyRead uuid_ok V now e t = Inr c \<longleftrightarrow> verify V ''read'' read_of read_json t = Inr c \<and> read_accepts uuid_ok now e c"
    by (auto simp: verifyRead_def bindR_eq_Inr checkExpected_ok read_accepts_def split: if_splits)
  then show ?thesis using read_token.verify_exact [of V "''read''" t c] by auto
qed

lemma verifyCursor_exact:
  "verifyCursor uuid_ok V now e t = Inr c \<longleftrightarrow> cursor_wf c \<and> cursor_header c = \<lparr>th_version = 1, th_purpose = ''cursor'', th_key = cc_key c\<rparr> \<and>
    token_signed V (cc_key c) (printJson marshalString (cursor_json c)) t \<and> cursor_accepts uuid_ok now e c"
proof -
  have "verifyCursor uuid_ok V now e t = Inr c \<longleftrightarrow> verify V ''cursor'' cursor_of cursor_json t = Inr c \<and> cursor_accepts uuid_ok now e c"
    by (auto simp: verifyCursor_def bindR_eq_Inr checkExpected_ok cursor_accepts_def split: if_splits)
  then show ?thesis using cursor_token.verify_exact [of V "''cursor''" t c] by auto
qed

lemma verifyLive_exact:
  "verifyLive V now e scope t = Inr c \<longleftrightarrow> live_wf c \<and> live_header c = \<lparr>th_version = 1, th_purpose = ''live'', th_key = lc_key c\<rparr> \<and>
    token_signed V (lc_key c) (printJson marshalString (live_json c)) t \<and> live_accepts now e scope c"
proof -
  have "verifyLive V now e scope t = Inr c \<longleftrightarrow> verify V ''live'' live_of live_json t = Inr c \<and> lc_version c = 1 \<and> lc_purpose c = ''live'' \<and> live_accepts now e scope c"
    by (auto simp: verifyLive_def bindR_eq_Inr checkExpected_ok live_accepts_def validLiveClaims_def split: if_splits)
  then show ?thesis using live_token.verify_exact [of V "''live''" t c] by auto
qed

text \<open>
  C16: a token is accepted exactly when it carries a MAC, under the current or the previous key of the
  codec that its claims name, of the canonical encoding of the returned claims, when these are of
  version 1 and of the purpose asked for, valid, unexpired, and match the caller's generation,
  principal and scope. Read tokens, cursors and live tokens alike.
\<close>

theorem token_accepted_exactly:
  "(verifyRead uuid_ok V now e t = Inr c \<longleftrightarrow> read_wf c \<and> read_header c = \<lparr>th_version = 1, th_purpose = ''read'', th_key = rc_key c\<rparr> \<and>
      token_signed V (rc_key c) (printJson marshalString (read_json c)) t \<and> read_accepts uuid_ok now e c) \<and>
   (verifyCursor uuid_ok V now e t = Inr d \<longleftrightarrow> cursor_wf d \<and> cursor_header d = \<lparr>th_version = 1, th_purpose = ''cursor'', th_key = cc_key d\<rparr> \<and>
      token_signed V (cc_key d) (printJson marshalString (cursor_json d)) t \<and> cursor_accepts uuid_ok now e d) \<and>
   (verifyLive V now e scope t = Inr l \<longleftrightarrow> live_wf l \<and> live_header l = \<lparr>th_version = 1, th_purpose = ''live'', th_key = lc_key l\<rparr> \<and>
      token_signed V (lc_key l) (printJson marshalString (live_json l)) t \<and> live_accepts now e scope l)"
  using verifyRead_exact verifyCursor_exact verifyLive_exact by metis

lemma verify_other_purpose:
  assumes "verify codec purpose decode encode token = Inr c" "purpose \<noteq> purpose'"
  shows "verify codec' purpose' decode' encode' token = Inl ErrTokenMalformed"
  using assms by (auto simp: verify_def split: option.splits if_splits)

lemma other_purposes:
  assumes "verify codec purpose decode encode token = Inr c"
  shows "purpose \<noteq> ''read'' \<Longrightarrow> verifyRead uuid_ok W now e token = Inl ErrTokenMalformed"
    "purpose \<noteq> ''cursor'' \<Longrightarrow> verifyCursor uuid_ok W now e token = Inl ErrTokenMalformed"
    "purpose \<noteq> ''live'' \<Longrightarrow> verifyLive W now e scope token = Inl ErrTokenMalformed"
  by (simp_all add: verify_other_purpose [OF assms] verifyRead_def verifyCursor_def verifyLive_def)

lemma signRead_checked:
  assumes "signRead uuid_ok S now s = Inr t" "verify V ''read'' read_of read_json t = Inr (read_claims_of S s)"
  shows "verifyRead uuid_ok V later e t = bindR (checkExpected later (qs_generation s) (qs_principal s) (qs_dataset s) [] [] 0 (qs_expires s) e) (\<lambda>_. Inr (read_claims_of S s))"
  using assms by (auto simp: verifyRead_def signRead_def validateCommon_def check_def bindR_eq_Inr read_claims_of_def split: if_splits)

lemma signCursor_checked:
  assumes "signCursor uuid_ok S now s op order limit tuple = Inr t" "verify V ''cursor'' cursor_of cursor_json t = Inr (cursor_claims_of S s op order limit tuple)"
  shows "verifyCursor uuid_ok V later e t =
    bindR (checkExpected later (qs_generation s) (qs_principal s) (qs_dataset s) op order limit (qs_expires s) e) (\<lambda>_. Inr (cursor_claims_of S s op order limit tuple))"
  using assms by (auto simp: verifyCursor_def signCursor_def validateCommon_def check_def bindR_eq_Inr cursor_claims_of_def split: if_splits)

lemma signLive_checked:
  assumes "signLiveFrom S now g who scope places expires start = Inr t" "verify V ''live'' live_of live_json t = Inr (live_claims_of S g who scope places expires start)"
  shows "verifyLive V later e asked t =
    bindR (checkExpected later g who [] [] [] 0 expires e) (\<lambda>_. if scope \<noteq> asked then Inl ErrTokenMismatch else Inr (live_claims_of S g who scope places expires start))"
  using assms by (auto simp: verifyLive_def signLiveFrom_def Let_def validLiveClaims_def live_claims_of_def split: if_splits)

text \<open>
  C27: a signed token verifies, with the codec that signed it and, after the keys were rotated once, with
  the next one: verification returns the signed claims unless the caller's expectation rejects
  them, and then with the error of the first failing check, in this order: another storage
  generation (generation changed), another principal (forbidden), expiry, another dataset, operation,
  order, limit or live scope (mismatch). A token that is both expired and somebody else's is thus
  forbidden, never expired. A codec, of whatever keys, that takes a token of one purpose for one of
  another purpose rejects it as malformed.
\<close>

theorem token_round_trip:
  assumes keys: "V = S \<or> newTokenCodec following (Some (tc_current S)) = Inr V" and key: "utf8_valid (sk_id (tc_current S))"
    and uuid: "\<forall>i. uuid_ok i \<longrightarrow> utf8_valid i" and fields: "int64 (qs_generation s)" "int64 (qs_expires s)" "tuple_wf tuple"
    and live: "int64 g" "int64 expires" "int64 start" "length places = nat LaneCount" "list_all position_wf places"
  shows
    "(signRead uuid_ok S now s = Inr t \<longrightarrow>
        verifyRead uuid_ok V later e t =
          (if qs_generation s \<noteq> te_generation e then Inl ErrTokenGenerationChanged
           else if qs_principal s \<noteq> te_principal e then Inl ErrTokenForbidden
           else if qs_expires s * 1000 \<le> later then Inl ErrTokenExpired
           else if te_dataset e \<noteq> [] \<and> qs_dataset s \<noteq> te_dataset e \<or> te_operation e \<noteq> [] \<or> te_sort e \<noteq> [] \<or> te_limit e \<noteq> 0 then Inl ErrTokenMismatch
           else Inr (read_claims_of S s)) \<and>
        verifyCursor uuid_ok W later e t = Inl ErrTokenMalformed \<and> verifyLive W later e asked t = Inl ErrTokenMalformed) \<and>
     (signCursor uuid_ok S now s op order limit tuple = Inr t \<longrightarrow>
        verifyCursor uuid_ok V later e t =
          (if qs_generation s \<noteq> te_generation e then Inl ErrTokenGenerationChanged
           else if qs_principal s \<noteq> te_principal e then Inl ErrTokenForbidden
           else if qs_expires s * 1000 \<le> later then Inl ErrTokenExpired
           else if te_dataset e \<noteq> [] \<and> qs_dataset s \<noteq> te_dataset e \<or> te_operation e \<noteq> op \<or> te_sort e \<noteq> order \<or> te_limit e \<noteq> limit then Inl ErrTokenMismatch
           else Inr (cursor_claims_of S s op order limit tuple)) \<and>
        verifyRead uuid_ok W later e t = Inl ErrTokenMalformed \<and> verifyLive W later e asked t = Inl ErrTokenMalformed) \<and>
     (signLiveFrom S now g who scope places expires start = Inr t \<longrightarrow>
        verifyLive V later e asked t =
          (if g \<noteq> te_generation e then Inl ErrTokenGenerationChanged
           else if who \<noteq> te_principal e then Inl ErrTokenForbidden
           else if expires * 1000 \<le> later then Inl ErrTokenExpired
           else if te_dataset e \<noteq> [] \<or> te_operation e \<noteq> [] \<or> te_sort e \<noteq> [] \<or> te_limit e \<noteq> 0 \<or> scope \<noteq> asked then Inl ErrTokenMismatch
           else Inr (live_claims_of S g who scope places expires start)) \<and>
        verifyRead uuid_ok W later e t = Inl ErrTokenMalformed \<and> verifyCursor uuid_ok W later e t = Inl ErrTokenMalformed)"
    (is "(_ \<longrightarrow> ?read \<and> _ \<and> _) \<and> (_ \<longrightarrow> ?cursor \<and> _ \<and> _) \<and> (_ \<longrightarrow> ?live \<and> _ \<and> _)")
proof (intro conjI impI)
  note k = codec_key_rotation [OF keys]
  { assume t: "signRead uuid_ok S now s = Inr t"
    have "utf8_valid (qs_id s)" using t uuid by (auto simp: signRead_def validateCommon_def check_def split: if_splits)
    then have v: "verify V ''read'' read_of read_json t = Inr (read_claims_of S s)" using t k key fields by (intro verify_signRead)
    show ?read unfolding signRead_checked [OF t v] by (simp add: checkExpected_def unix_micro_def)
    show "verifyCursor uuid_ok W later e t = Inl ErrTokenMalformed" "verifyLive W later e asked t = Inl ErrTokenMalformed" by (simp_all add: other_purposes [OF v]) }
  { assume t: "signCursor uuid_ok S now s op order limit tuple = Inr t"
    have "utf8_valid (qs_id s)" using t uuid by (auto simp: signCursor_def validateCommon_def check_def split: if_splits)
    then have v: "verify V ''cursor'' cursor_of cursor_json t = Inr (cursor_claims_of S s op order limit tuple)" using t k key fields by (intro verify_signCursor)
    show ?cursor unfolding signCursor_checked [OF t v] by (simp add: checkExpected_def unix_micro_def)
    show "verifyRead uuid_ok W later e t = Inl ErrTokenMalformed" "verifyLive W later e asked t = Inl ErrTokenMalformed" by (simp_all add: other_purposes [OF v]) }
  { assume t: "signLiveFrom S now g who scope places expires start = Inr t"
    have v: "verify V ''live'' live_of live_json t = Inr (live_claims_of S g who scope places expires start)" using t k key live by (intro verify_signLive)
    show ?live unfolding signLive_checked [OF t v] by (auto simp: checkExpected_def unix_micro_def)
    show "verifyRead uuid_ok W later e t = Inl ErrTokenMalformed" "verifyCursor uuid_ok W later e t = Inl ErrTokenMalformed" by (simp_all add: other_purposes [OF v]) }
qed

subsubsection \<open>A sample\<close>

definition sample_key :: "string \<Rightarrow> signing_key" where
  "sample_key i = \<lparr>sk_id = i, sk_secret = replicate 32 CHR ''s''\<rparr>"

definition sample_snapshot :: query_snapshot where
  "sample_snapshot = \<lparr>qs_id = ''5f0c'', qs_tenant = 1, qs_user = 5, qs_principal = replicate 64 CHR ''a'', qs_revision = 1, qs_tenant_revision = 1, qs_generation = 3,
    qs_dataset = replicate 64 CHR ''b'', qs_bytes = [], qs_floor = 0, qs_projects = [], qs_revisions = [], qs_lanes = [], qs_expires = 2000000, qs_until = 2000000\<rparr>"

definition sample_tuple :: cursor_tuple where
  "sample_tuple = \<lparr>ct_event = Some 7, ct_ns = Some 5, ct_received = None, ct_lane = None, ct_seq = None, ct_ordinal = None, ct_record = replicate 64 CHR ''c''\<rparr>"

abbreviation sample_uuid :: "string \<Rightarrow> bool" where "sample_uuid i \<equiv> i = ''5f0c''"
abbreviation sample_codec :: token_codec where "sample_codec \<equiv> \<lparr>tc_current = sample_key ''k1'', tc_previous = None\<rparr>"
abbreviation rotated_codec :: token_codec where "rotated_codec \<equiv> \<lparr>tc_current = sample_key ''k2'', tc_previous = Some (sample_key ''k1'')\<rparr>"
abbreviation sample_limit :: int where "sample_limit \<equiv> 50"

lemma sample_rotation: "newTokenCodec (sample_key ''k2'') (Some (tc_current sample_codec)) = Inr rotated_codec"
  by code_simp

lemma sample_payloads:
  "length (printJson marshalString (read_json (read_claims_of sample_codec sample_snapshot))) \<le> MaxTokenPayload"
  "length (printJson marshalString (cursor_json (cursor_claims_of sample_codec sample_snapshot (replicate 64 CHR ''d'') ''event_desc'' sample_limit sample_tuple))) \<le> MaxTokenPayload"
  by code_simp+

lemma sample_checks:
  "validateCommon sample_uuid 1000000000 3 ''5f0c'' (replicate 64 CHR ''a'') (replicate 64 CHR ''b'') 2000000 = Inr ()"
  "validDigest (replicate 64 CHR ''d'')" "validCursor ''event_desc'' sample_limit sample_tuple" "tuple_wf sample_tuple"
  by code_simp+

lemma sample_signed:
  "\<exists>t. signRead sample_uuid sample_codec 1000000000 sample_snapshot = Inr t"
  "\<exists>t. signCursor sample_uuid sample_codec 1000000000 sample_snapshot (replicate 64 CHR ''d'') ''event_desc'' sample_limit sample_tuple = Inr t"
  using sample_payloads sample_checks by (simp_all add: signRead_def signCursor_def sample_snapshot_def sign_def Let_def)

theorem token_round_trip_witness:
  "\<exists>t u. signRead sample_uuid sample_codec 1000000000 sample_snapshot = Inr t \<and>
    verifyRead sample_uuid rotated_codec 1500000000 \<lparr>te_generation = 3, te_principal = replicate 64 CHR ''a'', te_dataset = [], te_operation = [], te_sort = [], te_limit = 0\<rparr> t
      = Inr (read_claims_of sample_codec sample_snapshot) \<and>
    verifyCursor sample_uuid rotated_codec 3000000000 \<lparr>te_generation = 3, te_principal = replicate 64 CHR ''a'', te_dataset = [], te_operation = [], te_sort = [], te_limit = 0\<rparr> u
      = Inl ErrTokenExpired \<and>
    verifyCursor sample_uuid rotated_codec 3000000000 \<lparr>te_generation = 3, te_principal = replicate 64 CHR ''b'', te_dataset = [], te_operation = [], te_sort = [], te_limit = 0\<rparr> u
      = Inl ErrTokenForbidden"
proof -
  obtain t u where t: "signRead sample_uuid sample_codec 1000000000 sample_snapshot = Inr t"
    and u: "signCursor sample_uuid sample_codec 1000000000 sample_snapshot (replicate 64 CHR ''d'') ''event_desc'' sample_limit sample_tuple = Inr u"
    using sample_signed by blast
  have s: "int64 (qs_generation sample_snapshot)" "int64 (qs_expires sample_snapshot)" "utf8_valid (sk_id (tc_current sample_codec))" "int64 0" "list_all position_wf (replicate (nat LaneCount) \<lparr>lp_seq = 0, lp_ordinal = - 1\<rparr>)"
    by (simp_all add: sample_snapshot_def sample_key_def int64_def position_wf_def list_all_iff)
  note r = token_round_trip [OF disjI2 [OF sample_rotation] s(3) _ s(1,2) sample_checks(4) s(4) s(4) s(4) length_replicate s(5)]
  have "verifyRead sample_uuid rotated_codec 1500000000 \<lparr>te_generation = 3, te_principal = replicate 64 CHR ''a'', te_dataset = [], te_operation = [], te_sort = [], te_limit = 0\<rparr> t
      = Inr (read_claims_of sample_codec sample_snapshot)"
    using r [of sample_uuid 1000000000 t 1500000000] t by (simp add: sample_snapshot_def)
  moreover have "verifyCursor sample_uuid rotated_codec 3000000000 \<lparr>te_generation = 3, te_principal = replicate 64 CHR ''a'', te_dataset = [], te_operation = [], te_sort = [], te_limit = 0\<rparr> u
      = Inl ErrTokenExpired"
    using r [of sample_uuid 1000000000 u 3000000000] u by (simp add: sample_snapshot_def)
  moreover have "verifyCursor sample_uuid rotated_codec 3000000000 \<lparr>te_generation = 3, te_principal = replicate 64 CHR ''b'', te_dataset = [], te_operation = [], te_sort = [], te_limit = 0\<rparr> u
      = Inl ErrTokenForbidden"
    using r [of sample_uuid 1000000000 u 3000000000] u by (simp add: sample_snapshot_def)
  ultimately show ?thesis using t by blast
qed

end
