(* ===== verification/Snapshot.thy ===== *)
theory Snapshot
  imports Publish Token
begin

section \<open>Query snapshots\<close>

text \<open>
  \<open>internal/control/snapshots.go\<close>, \<open>snapshot_validation.go\<close>, \<open>retention_policy.go\<close> and
  \<open>record_retention.go\<close>: who may read, what a snapshot pins, and the retention floor. Identifiers are
  texts in the canonical form of PostgreSQL's \<open>uuid\<close>; \<open>uuid.Validate\<close> is the argument \<open>uuid_ok\<close>. The
  locking variants of a statement (\<open>FOR SHARE\<close>, \<open>FOR UPDATE\<close>, the no-op update of the tenant row on
  admission, the advisory lock) read the same rows; they are what makes one transaction one step.
\<close>

record create_snapshot_command =
  cs_id :: string
  cs_session :: string
  cs_tenant :: int
  cs_projects :: "int list"
  cs_dataset :: string
  cs_bytes :: string

record query_authority =
  qa_user :: int
  qa_revision :: int
  qa_tenant_revision :: int
  qa_role :: string
  qa_generation :: int
  qa_floor :: int
  qa_now :: int
  qa_principal :: string

abbreviation SnapshotTTL :: int where "SnapshotTTL \<equiv> 900000000"
abbreviation SnapshotMaximumLifetime :: int where "SnapshotMaximumLifetime \<equiv> 3600000000"
abbreviation SnapshotTickMaximumAge :: int where "SnapshotTickMaximumAge \<equiv> 120000000"
abbreviation MaxUserSnapshots :: nat where "MaxUserSnapshots \<equiv> 4"
abbreviation MaxTenantSnapshots :: nat where "MaxTenantSnapshots \<equiv> 32"
abbreviation SnapshotRetryLimit :: nat where "SnapshotRetryLimit \<equiv> 3"

subsection \<open>The retention floor\<close>

definition dayUS :: int where
  "dayUS = 86400000000"

definition advanceRetentionFloor :: "int \<Rightarrow> control_db \<Rightarrow> control_error + (int \<times> int) \<times> control_db" where
  "advanceRetentionFloor now db =
    (if db_setup db \<noteq> ''ready'' \<or> db_recovery db \<noteq> ''ready'' then Inl ErrStorageGeneration
     else let f = max (db_floor db) (now - db_days db * dayUS) in Inr ((f, now), db\<lparr>db_floor := f, db_tick := now\<rparr>))"

definition retentionFloorAfterChange :: "int \<Rightarrow> int \<Rightarrow> int \<Rightarrow> int \<Rightarrow> control_error + int" where
  "retentionFloorAfterChange now old oldDays newDays =
    (if oldDays < 1 \<or> oldDays > 3650 \<or> newDays < 1 \<or> newDays > 3650 then Inl ErrInvalidCommand
     else Inr (foldl (\<lambda>r days. let cutoff = sub64 now (mul64 days dayUS) in if r < cutoff then cutoff else r) old [oldDays, newDays]))"

definition changeRetentionPolicy :: "(string \<Rightarrow> bool) \<Rightarrow> string \<Rightarrow> int \<Rightarrow> int \<Rightarrow> int \<Rightarrow> int \<Rightarrow> control_db \<Rightarrow> control_error + (int \<times> int) \<times> control_db" where
  "changeRetentionPolicy uuid_ok installation gen expected days now db =
    (if \<not> uuid_ok installation \<or> gen \<le> 0 \<or> expected \<le> 0 \<or> days < 1 \<or> days > 3650 then Inl ErrInvalidCommand
     else if db_installation db \<noteq> installation \<or> db_generation db \<noteq> gen then Inl ErrStorageGeneration
     else if db_retention_revision db \<noteq> expected then Inl ErrRevisionConflict
     else bindR (retentionFloorAfterChange now (db_floor db) (db_days db) days) (\<lambda>f.
       let revision = add64 (db_retention_revision db) 1 in
       Inr ((revision, f), db\<lparr>db_days := days, db_dedupe_days := max (db_dedupe_days db) days, db_retention_revision := revision, db_floor := f, db_tick := now\<rparr>)))"

subsection \<open>Authority\<close>

definition live_session :: "string \<Rightarrow> int \<Rightarrow> control_db \<Rightarrow> session_row \<Rightarrow> bool" where
  "live_session hash now db s = (se_hash s = hash \<and> se_revoked s = None \<and> now < se_expires s \<and> se_generation s = db_generation db)"

definition session_user :: "string \<Rightarrow> int \<Rightarrow> int \<Rightarrow> control_db \<Rightarrow> (user_row \<times> membership_row) option" where
  "session_user hash tenant now db = do {
    s \<leftarrow> find (live_session hash now db) (db_sessions db);
    u \<leftarrow> find (\<lambda>u. us_id u = se_user s) (db_users db);
    m \<leftarrow> find (\<lambda>m. me_user m = us_id u \<and> me_tenant m = tenant) (db_memberships db);
    if se_credential s = us_credential u then Some (u, m) else None }"

definition lockQueryAuthority :: "string \<Rightarrow> int \<Rightarrow> bool \<Rightarrow> int \<Rightarrow> control_db \<Rightarrow> control_error + query_authority" where
  "lockQueryAuthority hash tenant fresh now db =
    (if db_setup db \<noteq> ''ready'' \<or> db_recovery db \<noteq> ''ready'' then Inl ErrUnauthenticated
     else if fresh \<and> SnapshotTickMaximumAge < now - db_tick db then Inl ErrRetentionClockStale
     else case find (\<lambda>t. tn_id t = tenant) (db_tenants db) of None \<Rightarrow> Inl ErrForbidden
     | Some t \<Rightarrow> if tn_state t \<noteq> ''active'' then Inl ErrForbidden
       else case session_user hash tenant now db of None \<Rightarrow> Inl ErrUnauthenticated
       | Some (u, m) \<Rightarrow> if us_state u \<noteq> ''active'' then Inl ErrUnauthenticated
         else Inr \<lparr>qa_user = us_id u, qa_revision = us_revision u, qa_tenant_revision = tn_revision t, qa_role = me_role m, qa_generation = db_generation db,
           qa_floor = db_floor db, qa_now = now, qa_principal = queryPrincipalHash (us_id u) hash\<rparr>)"

text \<open>
  The loop of \<open>authorizeSnapshotProjects\<close> compares row by row and then the lengths, and every
  difference is \<open>ErrForbidden\<close>: the rows must list exactly the requested projects, all active and, when
  revisions are expected, with exactly those.
\<close>

definition authorizeSnapshotProjects :: "query_authority \<Rightarrow> int \<Rightarrow> int list \<Rightarrow> int list option \<Rightarrow> control_db \<Rightarrow> control_error + int list" where
  "authorizeSnapshotProjects a tenant projects expected db =
    (let rows = sort_key pr_id (filter (\<lambda>p. pr_tenant p = tenant \<and> pr_id p \<in> set projects) (db_projects db));
         grants = sort_key gr_project (filter (\<lambda>g. gr_tenant g = tenant \<and> gr_user g = qa_user a \<and> gr_project g \<in> set projects) (db_grants db)) in
     if map pr_id rows \<noteq> projects \<or> \<not> list_all (\<lambda>p. pr_state p = ''active'') rows then Inl ErrForbidden
     else if (case expected of None \<Rightarrow> False | Some es \<Rightarrow> map pr_revision rows \<noteq> es) then Inl ErrForbidden
     else if qa_role a \<noteq> ''admin'' \<and> map gr_project grants \<noteq> projects then Inl ErrForbidden
     else Inr (map pr_revision rows))"

definition lockSnapshotLanes :: "int \<Rightarrow> control_db \<Rightarrow> control_error + snapshot_lane list" where
  "lockSnapshotLanes tenant db =
    (let rows = sort_key la_id (filter (\<lambda>l. la_tenant l = tenant) (db_lanes db)) in
     if map la_id rows \<noteq> [0..15] then Inl ErrSnapshotLanes
     else Inr (map (\<lambda>l. \<lparr>sl_lane = la_id l, sl_cut = la_published l, sl_generation = la_generation l\<rparr>) rows))"

subsection \<open>Creating a snapshot\<close>

definition zero_hash :: string where
  "zero_hash = replicate 32 CHR 0x00"

definition validateCreateSnapshot :: "(string \<Rightarrow> bool) \<Rightarrow> create_snapshot_command \<Rightarrow> control_error + unit" where
  "validateCreateSnapshot uuid_ok c =
    check (uuid_ok (cs_id c) \<and> cs_session c \<noteq> zero_hash \<and> 0 < cs_tenant c \<and> validSHA (cs_dataset c) \<and> 2 \<le> length (cs_bytes c) \<and> length (cs_bytes c) \<le> 32768 \<and>
      1 \<le> length (cs_projects c) \<and> length (cs_projects c) \<le> 100 \<and>
      sha256_hex (cs_bytes c) = cs_dataset c \<and> hex_encode (cs_session c) \<noteq> cs_dataset c \<and>
      list_all (\<lambda>p. 0 < p) (cs_projects c) \<and> sorted_wrt (<) (cs_projects c)) ErrInvalidSnapshot"

definition snapshotResult :: "create_snapshot_command \<Rightarrow> query_authority \<Rightarrow> int list \<Rightarrow> snapshot_lane list \<Rightarrow> int \<Rightarrow> int \<Rightarrow> query_snapshot" where
  "snapshotResult c a revisions lanes expires until = \<lparr>qs_id = cs_id c, qs_tenant = cs_tenant c, qs_user = qa_user a, qs_principal = qa_principal a, qs_revision = qa_revision a,
    qs_tenant_revision = qa_tenant_revision a, qs_generation = qa_generation a, qs_dataset = cs_dataset c, qs_bytes = cs_bytes c, qs_floor = qa_floor a,
    qs_projects = cs_projects c, qs_revisions = revisions, qs_lanes = lanes, qs_expires = expires, qs_until = until\<rparr>"

definition snapshot_row_of :: "create_snapshot_command \<Rightarrow> query_authority \<Rightarrow> int list \<Rightarrow> snapshot_lane list \<Rightarrow> int \<Rightarrow> int \<Rightarrow> snapshot_row" where
  "snapshot_row_of c a revisions lanes expires until = \<lparr>sn_id = cs_id c, sn_tenant = cs_tenant c, sn_user = Some (qa_user a), sn_kind = ''user'', sn_principal = qa_principal a,
    sn_revision = qa_revision a, sn_tenant_revision = qa_tenant_revision a, sn_generation = qa_generation a, sn_dataset = cs_dataset c, sn_bytes = cs_bytes c,
    sn_floor = qa_floor a, sn_created = qa_now a, sn_expires = expires, sn_until = until, sn_state = ''active'', sn_projects = zip (cs_projects c) revisions, sn_lanes = lanes\<rparr>"

definition user_snapshots :: "int \<Rightarrow> int \<Rightarrow> control_db \<Rightarrow> snapshot_row list" where
  "user_snapshots tenant now db = filter (\<lambda>s. sn_tenant s = tenant \<and> sn_kind s = ''user'' \<and> sn_state s = ''active'' \<and> now < sn_expires s) (db_snapshots db)"

definition createSnapshotOnce :: "create_snapshot_command \<Rightarrow> int \<Rightarrow> control_db \<Rightarrow> control_error + query_snapshot \<times> control_db" where
  "createSnapshotOnce c now db =
    bindR (lockQueryAuthority (cs_session c) (cs_tenant c) True now db) (\<lambda>a.
    bindR (authorizeSnapshotProjects a (cs_tenant c) (cs_projects c) None db) (\<lambda>revisions.
      let active = user_snapshots (cs_tenant c) now db in
      if MaxUserSnapshots \<le> length (filter (\<lambda>s. sn_user s = Some (qa_user a)) active) \<or> MaxTenantSnapshots \<le> length active then Inl ErrSnapshotLimit
      else bindR (lockSnapshotLanes (cs_tenant c) db) (\<lambda>lanes.
        let expires = qa_now a + SnapshotTTL; until = qa_now a + SnapshotMaximumLifetime in
        if list_ex (\<lambda>s. sn_id s = cs_id c) (db_snapshots db) then Inl ErrUnique
        else Inr (snapshotResult c a revisions lanes expires until, db\<lparr>db_snapshots := db_snapshots db @ [snapshot_row_of c a revisions lanes expires until]\<rparr>))))"

text \<open>
  The retry loop: an attempt meets the database at some time, or fails with a serialization failure or
  a deadlock, and then the next one follows, four in all.
\<close>

fun snapshot_attempts :: "nat \<Rightarrow> (int \<Rightarrow> control_db \<Rightarrow> control_error + 'a) \<Rightarrow> (int \<times> control_db) option list \<Rightarrow> control_error + 'a" where
  "snapshot_attempts n f [] = Inl ErrDatabaseRetry"
| "snapshot_attempts n f (Some (now, db) # r) = f now db"
| "snapshot_attempts 0 f (None # r) = Inl ErrDatabaseRetry"
| "snapshot_attempts (Suc n) f (None # r) = snapshot_attempts n f r"

definition createSnapshot :: "(string \<Rightarrow> bool) \<Rightarrow> create_snapshot_command \<Rightarrow> (int \<times> control_db) option list \<Rightarrow> control_error + query_snapshot \<times> control_db" where
  "createSnapshot uuid_ok c attempts = bindR (validateCreateSnapshot uuid_ok c) (\<lambda>_. snapshot_attempts SnapshotRetryLimit (createSnapshotOnce c) attempts)"

subsection \<open>Loading, renewing and releasing\<close>

definition snapshot_of_row :: "snapshot_row \<Rightarrow> control_error + query_snapshot" where
  "snapshot_of_row s =
    (case sn_user s of None \<Rightarrow> Inl ErrScan | Some user \<Rightarrow>
      let projects = sort_key fst (sn_projects s); lanes = sort_key sl_lane (sn_lanes s) in
      if map sl_lane lanes \<noteq> [0..15] then Inl ErrSnapshotLanes
      else Inr \<lparr>qs_id = sn_id s, qs_tenant = sn_tenant s, qs_user = user, qs_principal = sn_principal s, qs_revision = sn_revision s,
        qs_tenant_revision = sn_tenant_revision s, qs_generation = sn_generation s, qs_dataset = sn_dataset s, qs_bytes = sn_bytes s, qs_floor = sn_floor s,
        qs_projects = map fst projects, qs_revisions = map snd projects, qs_lanes = lanes, qs_expires = sn_expires s, qs_until = sn_until s\<rparr>)"

definition loadSnapshotForUpdate :: "int \<Rightarrow> string \<Rightarrow> control_db \<Rightarrow> control_error + query_snapshot" where
  "loadSnapshotForUpdate tenant i db =
    (case find (\<lambda>s. sn_tenant s = tenant \<and> sn_id s = i \<and> sn_kind s = ''user'' \<and> sn_state s = ''active'') (db_snapshots db) of
       None \<Rightarrow> Inl ErrSnapshotExpired | Some s \<Rightarrow> snapshot_of_row s)"

definition loadSnapshot :: "(string \<Rightarrow> bool) \<Rightarrow> string \<Rightarrow> int \<Rightarrow> string \<Rightarrow> string \<Rightarrow> int \<Rightarrow> control_db \<Rightarrow> control_error + query_snapshot" where
  "loadSnapshot uuid_ok hash tenant i dataset now db =
    (if hash = zero_hash \<or> tenant \<le> 0 \<or> \<not> uuid_ok i \<or> \<not> validSHA dataset then Inl ErrSnapshotMismatch
     else bindR (lockQueryAuthority hash tenant False now db) (\<lambda>a.
     bindR (loadSnapshotForUpdate tenant i db) (\<lambda>s.
       if qs_user s \<noteq> qa_user a \<or> qs_principal s \<noteq> qa_principal a \<or> qs_dataset s \<noteq> dataset \<or> qs_generation s \<noteq> qa_generation a \<or> qs_revision s \<noteq> qa_revision a \<or>
         qs_tenant_revision s \<noteq> qa_tenant_revision a then Inl ErrSnapshotMismatch
       else if qs_expires s \<le> qa_now a then Inl ErrSnapshotExpired
       else bindR (authorizeSnapshotProjects a tenant (qs_projects s) (Some (qs_revisions s)) db) (\<lambda>_. Inr s))))"

definition renewSnapshotOnce :: "string \<Rightarrow> int \<Rightarrow> string \<Rightarrow> string \<Rightarrow> int \<Rightarrow> control_db \<Rightarrow> control_error + query_snapshot \<times> control_db" where
  "renewSnapshotOnce hash tenant i dataset now db =
    bindR (lockQueryAuthority hash tenant False now db) (\<lambda>a.
    bindR (loadSnapshotForUpdate tenant i db) (\<lambda>s.
      if qs_user s \<noteq> qa_user a \<or> qs_principal s \<noteq> qa_principal a \<or> qs_dataset s \<noteq> dataset then Inl ErrSnapshotMismatch
      else if qs_generation s \<noteq> qa_generation a then Inl ErrStorageGeneration
      else if qs_revision s \<noteq> qa_revision a \<or> qs_tenant_revision s \<noteq> qa_tenant_revision a then Inl ErrForbidden
      else bindR (authorizeSnapshotProjects a tenant (qs_projects s) (Some (qs_revisions s)) db) (\<lambda>_.
        if qs_expires s \<le> qa_now a \<or> qs_until s \<le> qa_now a then Inl ErrSnapshotExpired
        else let renewed = (if qs_until s < qa_now a + SnapshotTTL then qs_until s else qa_now a + SnapshotTTL) in
          Inr (s\<lparr>qs_expires := renewed\<rparr>,
            db\<lparr>db_snapshots := update_where (\<lambda>x. sn_tenant x = tenant \<and> sn_id x = i \<and> sn_state x = ''active'') (\<lambda>x. x\<lparr>sn_expires := renewed\<rparr>) (db_snapshots db)\<rparr>))))"

definition renewSnapshot :: "(string \<Rightarrow> bool) \<Rightarrow> string \<Rightarrow> int \<Rightarrow> string \<Rightarrow> string \<Rightarrow> (int \<times> control_db) option list \<Rightarrow> control_error + query_snapshot \<times> control_db" where
  "renewSnapshot uuid_ok hash tenant i dataset attempts =
    (if tenant \<le> 0 \<or> \<not> uuid_ok i \<or> \<not> validSHA dataset then Inl ErrSnapshotMismatch
     else snapshot_attempts SnapshotRetryLimit (renewSnapshotOnce hash tenant i dataset) attempts)"

definition releaseSnapshot :: "(string \<Rightarrow> bool) \<Rightarrow> string \<Rightarrow> int \<Rightarrow> string \<Rightarrow> int \<Rightarrow> control_db \<Rightarrow> control_error + control_db" where
  "releaseSnapshot uuid_ok hash tenant i now db =
    (if tenant \<le> 0 \<or> \<not> uuid_ok i then Inl ErrSnapshotMismatch
     else bindR (lockQueryAuthority hash tenant False now db) (\<lambda>a.
       let P = (\<lambda>s. sn_tenant s = tenant \<and> sn_id s = i \<and> sn_user s = Some (qa_user a) \<and> sn_principal s = qa_principal a) in
       if affected P (db_snapshots db) = 0 then Inl ErrSnapshotMismatch
       else Inr (db\<lparr>db_snapshots := update_where P (\<lambda>s. s\<lparr>sn_state := ''released'', sn_expires := min (sn_expires s) now\<rparr>) (db_snapshots db)\<rparr>)))"

definition recordKnownExpired :: "string \<Rightarrow> int \<Rightarrow> int \<Rightarrow> string \<Rightarrow> int \<Rightarrow> control_db \<Rightarrow> control_error + bool" where
  "recordKnownExpired hash tenant project i now db =
    (if hash = zero_hash \<or> tenant \<le> 0 \<or> project \<le> 0 \<or> \<not> validSHA i then Inl ErrQueryNotFound
     else bindR (lockQueryAuthority hash tenant False now db) (\<lambda>a.
     bindR (authorizeSnapshotProjects a tenant [project] None db) (\<lambda>_.
       case find (\<lambda>w. ow_tenant w = tenant \<and> ow_project w = project \<and> o_record (ow_occ w) = i) (db_occurrences db) of
         None \<Rightarrow> Inr False | Some w \<Rightarrow> Inr (o_received (ow_occ w) < qa_floor a))))"

end
