(* ===== verification/Catalog.thy ===== *)
theory Catalog
  imports Snapshot
begin

section \<open>The catalog of a snapshot\<close>

text \<open>
  \<open>internal/control/catalog.go\<close>: the page of files that a snapshot sees. The tables of the join are
  lists; its rows are sorted by file identifier, cut to the limit, and then checked one by one.
\<close>

record catalog_command =
  kc_session :: string
  kc_tenant :: int
  kc_snapshot :: string
  kc_dataset :: string
  kc_bytes :: string
  kc_basis :: string
  kc_start :: int
  kc_end :: int
  kc_kinds :: "string list"
  kc_after :: string
  kc_limit :: int
  kc_minimum :: "int list"

record catalog_file =
  cf_all_projects :: bool
  cf_file :: string
  cf_bundle :: string
  cf_key :: string
  cf_bytes :: int
  cf_sha :: string
  cf_rows :: int
  cf_min_event :: int
  cf_max_event :: int
  cf_min_received :: int
  cf_max_received :: int
  cf_min_seq :: int
  cf_max_seq :: int
  cf_lane :: int
  cf_kind :: string
  cf_blocks :: "string list"
  cf_payload_file :: string
  cf_payload_key :: string
  cf_payload_bytes :: int
  cf_payload_sha :: string
  cf_payload_blocks :: "string list"

abbreviation MaxCatalogPageFiles :: int where "MaxCatalogPageFiles \<equiv> 256"

definition validateCatalogCommand :: "(string \<Rightarrow> bool) \<Rightarrow> catalog_command \<Rightarrow> control_error + unit" where
  "validateCatalogCommand uuid_ok c =
    check (list_all (\<lambda>s. 0 \<le> s) (kc_minimum c) \<and> kc_session c \<noteq> zero_hash \<and> 0 < kc_tenant c \<and> uuid_ok (kc_snapshot c) \<and> validSHA (kc_dataset c) \<and>
      2 \<le> length (kc_bytes c) \<and> length (kc_bytes c) \<le> 32768 \<and> kc_start c < kc_end c \<and> 1 \<le> kc_limit c \<and> kc_limit c \<le> MaxCatalogPageFiles \<and>
      (kc_basis c = ''event'' \<or> kc_basis c = ''received'') \<and> (kc_after c = [] \<or> uuid_ok (kc_after c)) \<and>
      list_all (\<lambda>k. k = KindError \<or> k = KindLog \<or> k = KindTransaction) (kc_kinds c) \<and> distinct (kc_kinds c)) ErrCatalog"

subsection \<open>The page\<close>

text \<open>The generations in which a bundle is in the catalog.\<close>

definition visible_at :: "int \<Rightarrow> bundle_row \<Rightarrow> bool" where
  "visible_at gen b = (bu_generation b \<le> gen \<and> (case bu_valid_to b of None \<Rightarrow> True | Some v \<Rightarrow> gen < v))"

definition bundle_file :: "bundle_row \<Rightarrow> string \<Rightarrow> file_row \<Rightarrow> bool" where
  "bundle_file b role f = (fi_tenant f = bu_tenant b \<and> fi_bundle f = bu_id b \<and> fi_role f = role)"

definition stored_object :: "file_row \<Rightarrow> intent_row \<Rightarrow> bool" where
  "stored_object f i = (in_tenant i = fi_tenant f \<and> in_id i = fi_intent f \<and> in_state i = ''referenced'')"

definition catalog_kinds :: "catalog_command \<Rightarrow> string list" where
  "catalog_kinds c = (if kc_kinds c = [] then [KindError, KindLog, KindTransaction] else kc_kinds c)"

definition in_page :: "catalog_command \<Rightarrow> int \<Rightarrow> snapshot_row \<Rightarrow> snapshot_lane \<Rightarrow> bundle_row \<Rightarrow> file_row \<Rightarrow> bool" where
  "in_page c retention s sl b f =
    (let received = (kc_basis c = ''received'') in
     visible_at (sl_generation sl) b \<and> bu_seq_max b \<le> sl_cut sl \<and> bu_kind b \<in> set (catalog_kinds c) \<and>
     kc_start c \<le> (if received then fi_max_received f else fi_max_event f) \<and> (if received then fi_min_received f else fi_min_event f) < kc_end c \<and>
     retention \<le> fi_max_received f \<and> (kc_after c = [] \<or> byte_less (kc_after c) (fi_id f)) \<and> kc_minimum c ! nat (sl_lane sl) \<le> fi_max_seq f \<and>
     list_ex (\<lambda>p. p \<in> set (map fst (sn_projects s))) (bu_projects b))"

type_synonym page_row = "(string \<times> int \<times> string) \<times> file_row \<times> string \<times> file_row \<times> string \<times> bool"

definition object_keys :: "control_db \<Rightarrow> file_row \<Rightarrow> string list" where
  "object_keys db f = map in_key (filter (stored_object f) (db_intents db))"

definition bundle_rows :: "catalog_command \<Rightarrow> int \<Rightarrow> snapshot_row \<Rightarrow> control_db \<Rightarrow> snapshot_lane \<Rightarrow> bundle_row \<Rightarrow> page_row list" where
  "bundle_rows c retention s db sl b =
    [((bu_id b, bu_lane b, bu_kind b), f, k, g, k', list_all (\<lambda>p. p \<in> set (map fst (sn_projects s))) (bu_projects b)).
      f \<leftarrow> filter (bundle_file b ''analytics'') (db_files db), in_page c retention s sl b f, k \<leftarrow> object_keys db f,
      g \<leftarrow> filter (bundle_file b ''payload'') (db_files db), k' \<leftarrow> object_keys db g]"

definition lane_rows :: "catalog_command \<Rightarrow> int \<Rightarrow> snapshot_row \<Rightarrow> control_db \<Rightarrow> snapshot_lane \<Rightarrow> page_row list" where
  "lane_rows c retention s db sl = concat (map (bundle_rows c retention s db sl) (filter (\<lambda>b. bu_tenant b = sn_tenant s \<and> bu_lane b = sl_lane sl) (db_bundles db)))"

definition page_rows :: "catalog_command \<Rightarrow> int \<Rightarrow> control_db \<Rightarrow> page_row list" where
  "page_rows c retention db = concat (map (\<lambda>s. concat (map (lane_rows c retention s db) (sn_lanes s)))
    (filter (\<lambda>s. sn_tenant s = kc_tenant c \<and> sn_id s = kc_snapshot c) (db_snapshots db)))"

definition page_less :: "page_row \<Rightarrow> page_row \<Rightarrow> bool" where
  "page_less x y = byte_less (fi_id (fst (snd x))) (fi_id (fst (snd y)))"

definition contiguous_blocks :: "file_row \<Rightarrow> bool" where
  "contiguous_blocks f = (let bs = sort_key fst (fi_blocks f) in
    bs \<noteq> [] \<and> fst (hd bs) = 0 \<and> fst (last bs) = int (length bs) - 1 \<and> list_all (\<lambda>(_, d). validSHA d) bs)"

definition catalog_file_of :: "(string \<Rightarrow> bool) \<Rightarrow> page_row \<Rightarrow> control_error + catalog_file" where
  "catalog_file_of uuid_ok r = (case r of ((bundle, lane, kind), f, k, g, k', whole) \<Rightarrow>
    if \<not> contiguous_blocks f \<or> \<not> uuid_ok (fi_id g) \<or> k' = [] \<or> fi_bytes g \<le> 0 \<or> \<not> validSHA (fi_sha g) \<or> \<not> contiguous_blocks g then Inl ErrCatalog
    else Inr \<lparr>cf_all_projects = whole, cf_file = fi_id f, cf_bundle = bundle, cf_key = k, cf_bytes = fi_bytes f, cf_sha = fi_sha f, cf_rows = fi_rows f,
      cf_min_event = fi_min_event f, cf_max_event = fi_max_event f, cf_min_received = fi_min_received f, cf_max_received = fi_max_received f,
      cf_min_seq = fi_min_seq f, cf_max_seq = fi_max_seq f, cf_lane = lane, cf_kind = kind, cf_blocks = map snd (sort_key fst (fi_blocks f)),
      cf_payload_file = fi_id g, cf_payload_key = k', cf_payload_bytes = fi_bytes g, cf_payload_sha = fi_sha g, cf_payload_blocks = map snd (sort_key fst (fi_blocks g))\<rparr>)"

definition catalogPageRows :: "(string \<Rightarrow> bool) \<Rightarrow> catalog_command \<Rightarrow> int \<Rightarrow> control_db \<Rightarrow> control_error + catalog_file list" where
  "catalogPageRows uuid_ok c retention db = mapR (catalog_file_of uuid_ok) (take (nat (kc_limit c)) (sortBy page_less (page_rows c retention db)))"

definition catalogPageOnce :: "(string \<Rightarrow> bool) \<Rightarrow> catalog_command \<Rightarrow> int \<Rightarrow> control_db \<Rightarrow> control_error + catalog_file list" where
  "catalogPageOnce uuid_ok c now db =
    bindR (lockQueryAuthority (kc_session c) (kc_tenant c) False now db) (\<lambda>a.
    bindR (loadSnapshotForUpdate (kc_tenant c) (kc_snapshot c) db) (\<lambda>s.
      if qs_user s \<noteq> qa_user a \<or> qs_principal s \<noteq> qa_principal a \<or> qs_dataset s \<noteq> kc_dataset c \<or> qs_bytes s \<noteq> kc_bytes c then Inl ErrSnapshotMismatch
      else if qs_generation s \<noteq> qa_generation a then Inl ErrStorageGeneration
      else if qs_revision s \<noteq> qa_revision a \<or> qs_tenant_revision s \<noteq> qa_tenant_revision a then Inl ErrForbidden
      else if qs_expires s \<le> qa_now a then Inl ErrSnapshotExpired
      else bindR (authorizeSnapshotProjects a (kc_tenant c) (qs_projects s) (Some (qs_revisions s)) db) (\<lambda>_. catalogPageRows uuid_ok c (qs_floor s) db)))"

definition catalogPage :: "(string \<Rightarrow> bool) \<Rightarrow> catalog_command \<Rightarrow> (int \<times> control_db) option list \<Rightarrow> control_error + catalog_file list" where
  "catalogPage uuid_ok c attempts = bindR (validateCatalogCommand uuid_ok c) (\<lambda>_. snapshot_attempts SnapshotRetryLimit (catalogPageOnce uuid_ok c) attempts)"

end
