(* ===== verification/Compact.thy ===== *)
theory Compact
  imports Snapshot
begin

section \<open>Compaction\<close>

text \<open>
  \<open>internal/control/maintenance.go\<close>, \<open>maintenance_work.go\<close> and \<open>maintenance_swap.go\<close>: reserving small
  bundles of a lane, the lease of the task, the objects of its output, and the swap that replaces the
  inputs by the output in one catalog generation. The manifest of a task is decoded like those of
  outputs: it was written by \<open>PrepareCompaction\<close> and is checked against its digest.
\<close>

record maintenance_authority =
  ma_installation :: string
  ma_generation :: int
  ma_task :: string
  ma_tenant :: int
  ma_lane :: int
  ma_owner :: string
  ma_fence :: int

record compaction_partition =
  cp_schema :: int
  cp_gversion :: int
  cp_day :: string
  cp_kind :: string

record reserve_command =
  rv_installation :: string
  rv_generation :: int
  rv_task :: string
  rv_tenant :: int
  rv_lane :: int
  rv_bundles :: "string list"

record compaction_task =
  kt_authority :: maintenance_authority
  kt_partition :: compaction_partition
  kt_prepared :: bool

record work_input =
  wi_bundle :: string
  wi_identity :: string
  wi_generation :: int
  wi_rows :: int
  wi_seq_min :: int
  wi_seq_max :: int
  wi_projects :: "int list"

record maintenance_registration =
  mr_authority :: maintenance_authority
  mr_role :: string
  mr_key :: string
  mr_intent :: intent_authority

record swap_result =
  sw_generation :: int
  sw_already :: bool

abbreviation MaxCompactionInputs :: nat where "MaxCompactionInputs \<equiv> 128"
abbreviation MaxCompactionInputBytes :: int where "MaxCompactionInputBytes \<equiv> 268435456"

definition partition_of :: "bundle_row \<Rightarrow> compaction_partition" where
  "partition_of b = \<lparr>cp_schema = bu_schema b, cp_gversion = bu_gversion b, cp_day = bu_day b, cp_kind = bu_kind b\<rparr>"

definition maintenance_pressure :: "int \<Rightarrow> control_db \<Rightarrow> bool" where
  "maintenance_pressure now db =
    (list_ex (\<lambda>j. jo_state j \<in> {''queued'', ''running''} \<and> jo_created j < now - 5000000) (db_jobs db) \<or>
     list_ex (\<lambda>q. qj_state q \<in> {''planning'', ''queued'', ''running''} \<and> qj_created q < now - 500000) (db_queries db))"

subsection \<open>Reserving\<close>

definition validateReserveCompaction :: "(string \<Rightarrow> bool) \<Rightarrow> reserve_command \<Rightarrow> bool" where
  "validateReserveCompaction uuid_ok c = (uuid_ok (rv_installation c) \<and> 0 < rv_generation c \<and> uuid_ok (rv_task c) \<and> 0 < rv_tenant c \<and> 0 \<le> rv_lane c \<and> rv_lane c < LaneCount \<and>
    2 \<le> length (rv_bundles c) \<and> length (rv_bundles c) \<le> MaxCompactionInputs \<and> list_all uuid_ok (rv_bundles c) \<and> distinct (rv_bundles c))"

definition free_bundle :: "int \<Rightarrow> int \<Rightarrow> bundle_row \<Rightarrow> bool" where
  "free_bundle tenant lane b = (bu_tenant b = tenant \<and> bu_lane b = lane \<and> bu_valid_to b = None \<and> bu_reserved b = None)"

definition bundle_bytes :: "int \<Rightarrow> string \<Rightarrow> control_db \<Rightarrow> int" where
  "bundle_bytes tenant i db = sum_list (map fi_bytes (filter (\<lambda>f. fi_tenant f = tenant \<and> fi_bundle f = i) (db_files db)))"

definition input_line :: "string \<Rightarrow> bundle_row \<Rightarrow> string" where
  "input_line i b = printJson marshalString (JObj [(''bundle_id'', JStr i), (''valid_from'', jint (bu_generation b)), (''identity'', JStr (bu_identity b))]) @ [CHR 0x0A]"

text \<open>
  The query returns the free bundles among the requested ones in the requested order, so a missing one
  shows as a gap in the ordinals, or at the end.
\<close>

definition lock_input :: "int \<Rightarrow> int \<Rightarrow> control_db \<Rightarrow> compaction_partition option \<times> int \<times> string \<Rightarrow> string \<Rightarrow> control_error + compaction_partition option \<times> int \<times> string" where
  "lock_input tenant lane db s i = (case s of (p, bytes, text) \<Rightarrow>
    case find (\<lambda>b. bu_id b = i \<and> free_bundle tenant lane b) (db_bundles db) of None \<Rightarrow> Inl ErrMaintenanceBusy
    | Some b \<Rightarrow> if p \<noteq> None \<and> p \<noteq> Some (partition_of b) then Inl ErrCompaction
      else let n = bundle_bytes tenant i db in
        if n \<le> 0 \<or> bytes > MaxCompactionInputBytes - n then Inl ErrCompaction
        else Inr (Some (partition_of b), bytes + n, text @ input_line i b))"

definition lockCompactionInputs :: "int \<Rightarrow> int \<Rightarrow> string list \<Rightarrow> control_db \<Rightarrow> control_error + compaction_partition \<times> string" where
  "lockCompactionInputs tenant lane ids db =
    bindR (foldR (lock_input tenant lane db) (None, 0, []) ids) (\<lambda>(p, _, text).
      Inr (case p of None \<Rightarrow> \<lparr>cp_schema = 0, cp_gversion = 0, cp_day = [], cp_kind = []\<rparr> | Some x \<Rightarrow> x, sha256_hex text))"

text \<open>\<open>maintenance_tasks\<close> is unique in its identifier, in (tenant, kind, input), and in (tenant, lane) among the unfinished.\<close>

definition unfinished :: "task_row \<Rightarrow> bool" where
  "unfinished t = (ta_state t \<in> {''queued'', ''running'', ''prepared''})"

definition task_conflict :: "task_row \<Rightarrow> task_row \<Rightarrow> bool" where
  "task_conflict t u = (ta_id t = ta_id u \<or> ta_tenant t = ta_tenant u \<and> ta_kind t = ta_kind u \<and> ta_identity t = ta_identity u \<or>
    unfinished t \<and> unfinished u \<and> ta_tenant t = ta_tenant u \<and> ta_lane t = ta_lane u)"

definition queued_task :: "reserve_command \<Rightarrow> string \<Rightarrow> int option \<Rightarrow> string \<Rightarrow> int \<Rightarrow> task_row" where
  "queued_task c kind retention identity now = \<lparr>ta_id = rv_task c, ta_tenant = rv_tenant c, ta_lane = rv_lane c, ta_kind = kind, ta_identity = identity, ta_state = ''queued'',
    ta_generation = rv_generation c, ta_fence = 0, ta_attempt = 0, ta_owner = None, ta_lease = None, ta_retry = now, ta_manifest = None, ta_sha = None, ta_error = None,
    ta_floor = retention, ta_created = now, ta_updated = now\<rparr>"

definition reserveCompaction :: "(string \<Rightarrow> bool) \<Rightarrow> reserve_command \<Rightarrow> int \<Rightarrow> control_db \<Rightarrow> control_error + compaction_task \<times> control_db" where
  "reserveCompaction uuid_ok c now db =
    (if \<not> validateReserveCompaction uuid_ok c then Inl ErrInvalidCommand
     else let ids = sortBy byte_less (rv_bundles c) in
     bindR (lockRuntimeGeneration (rv_installation c) (rv_generation c) db) (\<lambda>_.
     bindR (lockCompactionInputs (rv_tenant c) (rv_lane c) ids db) (\<lambda>(p, identity).
       let t = queued_task c ''compact'' None identity now;
           P = (\<lambda>b. bu_id b \<in> set ids \<and> free_bundle (rv_tenant c) (rv_lane c) b) in
       if list_ex (task_conflict t) (db_tasks db) then Inl ErrMaintenanceBusy
       else if affected P (db_bundles db) \<noteq> length ids then Inl ErrMaintenanceBusy
       else let reserved = update_where P (\<lambda>b. b\<lparr>bu_reserved := Some (rv_task c)\<rparr>) (db_bundles db);
                taken = filter (\<lambda>b. bu_tenant b = rv_tenant c \<and> bu_lane b = rv_lane c \<and> bu_id b \<in> set ids \<and> bu_reserved b = Some (rv_task c)) reserved in
         if length taken \<noteq> length ids then Inl ErrMaintenanceBusy
         else Inr (\<lparr>kt_authority = \<lparr>ma_installation = rv_installation c, ma_generation = rv_generation c, ma_task = rv_task c, ma_tenant = rv_tenant c, ma_lane = rv_lane c,
               ma_owner = [], ma_fence = 0\<rparr>, kt_partition = p, kt_prepared = False\<rparr>,
           db\<lparr>db_tasks := db_tasks db @ [t], db_bundles := reserved,
             db_inputs := db_inputs db @ map (\<lambda>b. \<lparr>mi_task = rv_task c, mi_tenant = bu_tenant b, mi_bundle = bu_id b, mi_generation = bu_generation b, mi_identity = bu_identity b\<rparr>) taken\<rparr>))))"

subsection \<open>The lease\<close>

definition validateMaintenanceAuthority :: "(string \<Rightarrow> bool) \<Rightarrow> maintenance_authority \<Rightarrow> bool" where
  "validateMaintenanceAuthority uuid_ok a = (uuid_ok (ma_installation a) \<and> 0 < ma_generation a \<and> uuid_ok (ma_task a) \<and> 0 < ma_tenant a \<and> 0 \<le> ma_lane a \<and> ma_lane a < LaneCount \<and>
    ma_owner a \<noteq> [] \<and> 0 < ma_fence a)"

abbreviation maxTaskLease :: int where "maxTaskLease \<equiv> 300000000"

definition task_less :: "task_row \<Rightarrow> task_row \<Rightarrow> bool" where
  "task_less t u = (ta_created t < ta_created u \<or> ta_created t = ta_created u \<and> byte_less (ta_id t) (ta_id u))"

definition claimable_task :: "string \<Rightarrow> int \<Rightarrow> task_row \<Rightarrow> bool" where
  "claimable_task kind now t = (ta_kind t = kind \<and> ta_retry t \<le> now \<and>
    (ta_state t \<in> {''queued'', ''prepared''} \<or> ta_state t = ''running'' \<and> (case ta_lease t of None \<Rightarrow> False | Some l \<Rightarrow> l \<le> now)))"

definition task_bundles :: "control_db \<Rightarrow> task_row \<Rightarrow> bundle_row list" where
  "task_bundles db t = [b. m \<leftarrow> db_inputs db, mi_task m = ta_id t \<and> mi_tenant m = ta_tenant t, b \<leftarrow> db_bundles db, bu_tenant b = mi_tenant m \<and> bu_id b = mi_bundle m]"

definition claim_task :: "string \<Rightarrow> (string \<Rightarrow> bool) \<Rightarrow> string \<Rightarrow> string \<Rightarrow> int \<Rightarrow> int \<Rightarrow> control_db \<Rightarrow> control_error + (compaction_task \<times> task_row) option \<times> control_db" where
  "claim_task kind uuid_ok installation owner lease now db =
    (if \<not> uuid_ok installation \<or> owner = [] \<or> lease \<le> 0 \<or> lease > maxTaskLease then Inl ErrInvalidCommand
     else case find (\<lambda>t. claimable_task kind now t \<and> task_bundles db t \<noteq> [] \<and> \<not> maintenance_pressure now db) (sortBy task_less (db_tasks db)) of
       None \<Rightarrow> Inr (None, db)
     | Some t \<Rightarrow> bindR (lockRuntimeGeneration installation (ta_generation t) db) (\<lambda>_.
         let fence = add64 (ta_fence t) 1; P = (\<lambda>x. ta_id x = ta_id t \<and> ta_fence x = sub64 fence 1) in
         if affected P (db_tasks db) \<noteq> 1 then Inl ErrMaintenanceFence
         else Inr (Some (\<lparr>kt_authority = \<lparr>ma_installation = installation, ma_generation = ta_generation t, ma_task = ta_id t, ma_tenant = ta_tenant t, ma_lane = ta_lane t,
               ma_owner = owner, ma_fence = fence\<rparr>, kt_partition = partition_of (hd (task_bundles db t)), kt_prepared = (ta_state t = ''prepared'')\<rparr>, t),
           db\<lparr>db_tasks := update_where P (\<lambda>x. x\<lparr>ta_state := ''running'', ta_owner := Some owner, ta_fence := fence, ta_attempt := ta_attempt x + 1, ta_lease := Some (now + lease),
             ta_updated := now\<rparr>) (db_tasks db)\<rparr>)))"

definition claimCompaction :: "(string \<Rightarrow> bool) \<Rightarrow> string \<Rightarrow> string \<Rightarrow> int \<Rightarrow> int \<Rightarrow> control_db \<Rightarrow> control_error + compaction_task option \<times> control_db" where
  "claimCompaction uuid_ok installation owner lease now db =
    bindR (claim_task ''compact'' uuid_ok installation owner lease now db) (\<lambda>(r, db'). Inr (map_option fst r, db'))"

definition holds_task :: "maintenance_authority \<Rightarrow> task_row \<Rightarrow> bool" where
  "holds_task a t = (ta_id t = ma_task a \<and> ta_state t = ''running'' \<and> ta_owner t = Some (ma_owner a) \<and> ta_fence t = ma_fence a)"

definition task_live :: "int \<Rightarrow> task_row \<Rightarrow> bool" where
  "task_live now t = (case ta_lease t of None \<Rightarrow> False | Some l \<Rightarrow> now < l)"

definition heartbeatCompaction :: "(string \<Rightarrow> bool) \<Rightarrow> maintenance_authority \<Rightarrow> int \<Rightarrow> int \<Rightarrow> control_db \<Rightarrow> control_error + control_db" where
  "heartbeatCompaction uuid_ok a lease now db =
    (let P = (\<lambda>t. holds_task a t \<and> task_live now t) in
     if \<not> validateMaintenanceAuthority uuid_ok a \<or> lease \<le> 0 \<or> lease > maxTaskLease then Inl ErrInvalidCommand
     else if affected P (db_tasks db) \<noteq> 1 then Inl ErrMaintenanceFence
     else Inr (db\<lparr>db_tasks := update_where P (\<lambda>t. t\<lparr>ta_lease := Some (now + lease), ta_updated := now\<rparr>) (db_tasks db)\<rparr>))"

definition lockRunningMaintenance :: "maintenance_authority \<Rightarrow> int \<Rightarrow> control_db \<Rightarrow> control_error + unit" where
  "lockRunningMaintenance a now db =
    (case find (\<lambda>t. ta_id t = ma_task a \<and> ta_state t = ''running'' \<and> task_live now t) (db_tasks db) of None \<Rightarrow> Inl ErrMaintenanceFence
     | Some t \<Rightarrow> check (ta_tenant t = ma_tenant a \<and> ta_lane t = ma_lane a \<and> ta_generation t = ma_generation a \<and> ta_fence t = ma_fence a \<and> ta_owner t = Some (ma_owner a)) ErrMaintenanceFence)"

definition update_task :: "maintenance_authority \<Rightarrow> (task_row \<Rightarrow> task_row) \<Rightarrow> control_db \<Rightarrow> control_error + control_db" where
  "update_task a f db = (if affected (holds_task a) (db_tasks db) \<noteq> 1 then Inl ErrMaintenanceFence else Inr (db\<lparr>db_tasks := update_where (holds_task a) f (db_tasks db)\<rparr>))"

definition failCompaction :: "(string \<Rightarrow> bool) \<Rightarrow> maintenance_authority \<Rightarrow> string \<Rightarrow> bool \<Rightarrow> int \<Rightarrow> control_db \<Rightarrow> control_error + control_db" where
  "failCompaction uuid_ok a code retry now db =
    (if \<not> validateMaintenanceAuthority uuid_ok a \<or> code = [] \<or> length code > 64 then Inl ErrInvalidCommand
     else bindR (lockRunningMaintenance a now db) (\<lambda>_.
       if retry then update_task a (\<lambda>t. t\<lparr>ta_state := (if ta_manifest t = None then ''queued'' else ''prepared''), ta_owner := None, ta_lease := None, ta_retry := now + 1000000,
           ta_error := Some code, ta_updated := now\<rparr>) db
       else bindR (update_task a (\<lambda>t. t\<lparr>ta_state := ''failed'', ta_owner := None, ta_lease := None, ta_manifest := None, ta_sha := None, ta_error := Some code, ta_updated := now\<rparr>) db) (\<lambda>db1.
         Inr (db1\<lparr>db_bundles := update_where (\<lambda>b. bu_reserved b = Some (ma_task a)) (\<lambda>b. b\<lparr>bu_reserved := None\<rparr>) (db_bundles db1)\<rparr>))))"

subsection \<open>Objects\<close>

definition registerMaintenanceIntent :: "(string \<Rightarrow> bool) \<Rightarrow> maintenance_registration \<Rightarrow> int \<Rightarrow> control_db \<Rightarrow> control_error + control_db" where
  "registerMaintenanceIntent uuid_ok r now db =
    (let a = mr_authority r; i = mr_intent r in
     if \<not> validateMaintenanceAuthority uuid_ok a \<or> mr_role r \<noteq> ''analytics'' \<and> mr_role r \<noteq> ''payload'' \<or> \<not> safeObjectKey (mr_key r) \<or> \<not> uuid_ok (ia_intent i) \<or>
       ia_owner i \<noteq> ma_owner a \<or> ia_fence i \<noteq> ma_fence a \<or> ia_bytes i \<le> 0 \<or> \<not> validSHA (ia_sha i) then Inl ErrInvalidCommand
     else bindR (lockRuntimeGeneration (ma_installation a) (ma_generation a) db) (\<lambda>_.
       bindR (lockRunningMaintenance a now db) (\<lambda>_.
         insert_intent ((pending_intent (ma_installation a) (ma_tenant a) (ma_generation a) (mr_key r) (mr_role r) i now)
           \<lparr>in_task := Some (ma_task a), in_producer_generation := Some (ma_generation a), in_producer_fence := Some (ma_fence a)\<rparr>) db)))"

definition markMaintenanceIntentUploaded :: "(string \<Rightarrow> bool) \<Rightarrow> maintenance_authority \<Rightarrow> intent_authority \<Rightarrow> int \<Rightarrow> control_db \<Rightarrow> control_error + control_db" where
  "markMaintenanceIntentUploaded uuid_ok a i now db =
    (let P = (\<lambda>x. awaits_upload (ma_installation a) (ma_generation a) (ma_tenant a) i now x \<and> in_task x = Some (ma_task a) \<and>
       list_ex (\<lambda>t. holds_task a t \<and> task_live now t) (db_tasks db)) in
     if \<not> validateMaintenanceAuthority uuid_ok a \<or> ia_owner i \<noteq> ma_owner a \<or> ia_fence i \<noteq> ma_fence a \<or> ia_bytes i \<le> 0 \<or> \<not> validSHA (ia_sha i) then Inl ErrInvalidCommand
     else if affected P (db_intents db) \<noteq> 1 then Inl ErrMaintenanceFence
     else Inr (db\<lparr>db_intents := update_where P (\<lambda>x. x\<lparr>in_state := ''uploaded'', in_uploaded_bytes := Some (ia_bytes i), in_uploaded_sha := Some (ia_sha i), in_updated := now\<rparr>)
       (db_intents db)\<rparr>))"

subsection \<open>The output and its inputs\<close>

definition work_input_of :: "bundle_row \<Rightarrow> work_input" where
  "work_input_of b = \<lparr>wi_bundle = bu_id b, wi_identity = bu_identity b, wi_generation = bu_generation b, wi_rows = bu_rows b, wi_seq_min = bu_seq_min b, wi_seq_max = bu_seq_max b,
    wi_projects = sort (bu_projects b)\<rparr>"

definition expected_bundles :: "string \<Rightarrow> control_db \<Rightarrow> bundle_row list" where
  "expected_bundles task db = sortBy (\<lambda>x y. byte_less (bu_id x) (bu_id y))
    [b. m \<leftarrow> db_inputs db, mi_task m = task, b \<leftarrow> db_bundles db, bu_tenant b = mi_tenant m \<and> bu_id b = mi_bundle m]"

definition loadCompactionExpectations :: "string \<Rightarrow> control_db \<Rightarrow> control_error + compaction_partition \<times> work_input list" where
  "loadCompactionExpectations task db =
    (let bs = expected_bundles task db in
     if \<not> list_all (\<lambda>b. partition_of b = partition_of (hd bs)) bs \<or> length bs > MaxCompactionInputs then Inl ErrCompaction
     else Inr (if bs = [] then \<lparr>cp_schema = 0, cp_gversion = 0, cp_day = [], cp_kind = []\<rparr> else partition_of (hd bs), map work_input_of bs))"

definition input_totals :: "work_input list \<Rightarrow> int \<times> int \<times> int" where
  "input_totals ws = foldl (\<lambda>(rows, lo, hi) (i, w). (add64 rows (wi_rows w), if i = 0 \<or> wi_seq_min w < lo then wi_seq_min w else lo, if hi < wi_seq_max w then wi_seq_max w else hi))
    (0, 0, 0) (List.enumerate 0 ws)"

definition input_projects :: "work_input list \<Rightarrow> int list" where
  "input_projects ws = sort (remdups (concat (map wi_projects ws)))"

definition compaction_file_ok :: "(string \<Rightarrow> bool) \<Rightarrow> int \<times> int \<times> int \<Rightarrow> string \<Rightarrow> file_manifest \<Rightarrow> bool" where
  "compaction_file_ok uuid_ok t role f = (case t of (rows, lo, hi) \<Rightarrow>
    fm_role f = role \<and> uuid_ok (fm_file f) \<and> uuid_ok (fm_intent f) \<and> fm_rows f = rows \<and> 0 < fm_bytes f \<and> fm_bytes f \<le> 134217728 \<and> validSHA (fm_sha f) \<and>
    fm_min_event f \<le> fm_max_event f \<and> fm_min_received f \<le> fm_max_received f \<and> fm_min_seq f = lo \<and> fm_max_seq f = hi \<and>
    int (length (elems (fm_blocks f))) = block_count (fm_bytes f) \<and> blocks_ok validSHA (elems (fm_blocks f)))"

definition validateCompactionOutput :: "(string \<Rightarrow> bool) \<Rightarrow> bundle_manifest \<Rightarrow> compaction_partition \<Rightarrow> work_input list \<Rightarrow> control_error + unit" where
  "validateCompactionOutput uuid_ok b p ws =
    (let t = input_totals ws; f = bm_analytics b; g = bm_payload b in
     check (uuid_ok (bm_bundle b) \<and> validEventDay (bm_day b) \<and> bm_day b = cp_day p \<and> bm_kind b = cp_kind p \<and> 0 < bm_rows b \<and> validSHA (bm_identity b) \<and>
       t = (bm_rows b, bm_seq_min b, bm_seq_max b) \<and> input_projects ws = elems (bm_projects b) \<and>
       compaction_file_ok uuid_ok t ''analytics'' f \<and> compaction_file_ok uuid_ok t ''payload'' g \<and>
       fm_file f \<noteq> fm_file g \<and> fm_intent f \<noteq> fm_intent g \<and> fm_min_event f = fm_min_event g \<and> fm_max_event f = fm_max_event g \<and>
       fm_min_received f = fm_min_received g \<and> fm_max_received f = fm_max_received g) ErrCompaction)"

definition marshalBundle :: "bundle_manifest \<Rightarrow> string" where
  "marshalBundle b = printJson marshalString (bundle_json b)"

definition reference_output :: "maintenance_authority \<Rightarrow> int \<Rightarrow> control_db \<Rightarrow> file_manifest \<Rightarrow> control_error + control_db" where
  "reference_output a now db f =
    (let P = (\<lambda>i. in_id i = fm_intent f \<and> in_tenant i = ma_tenant a \<and> in_task i = Some (ma_task a) \<and> in_state i = ''uploaded'' \<and> in_owner i = ma_owner a \<and> in_fence i = ma_fence a \<and>
       in_uploaded_bytes i = Some (in_bytes i) \<and> in_uploaded_sha i = Some (in_sha i) \<and> in_bytes i = fm_bytes f \<and> in_sha i = fm_sha f) in
     if affected P (db_intents db) \<noteq> 1 then Inl ErrMaintenanceFence
     else Inr (db\<lparr>db_intents := update_where P (\<lambda>i. i\<lparr>in_state := ''referenced'', in_expires := now + 86400000000, in_updated := now\<rparr>) (db_intents db)\<rparr>))"

definition prepareCompaction :: "(string \<Rightarrow> bool) \<Rightarrow> maintenance_authority \<Rightarrow> bundle_manifest \<Rightarrow> int \<Rightarrow> control_db \<Rightarrow> control_error + control_db" where
  "prepareCompaction uuid_ok a b now db =
    (let encoded = marshalBundle b in
     if \<not> validateMaintenanceAuthority uuid_ok a then Inl ErrInvalidCommand
     else if length encoded > 1048576 then Inl ErrCompaction
     else bindR (lockRuntimeGeneration (ma_installation a) (ma_generation a) db) (\<lambda>_.
       bindR (lockRunningMaintenance a now db) (\<lambda>_.
       bindR (loadCompactionExpectations (ma_task a) db) (\<lambda>(p, ws).
       bindR (validateCompactionOutput uuid_ok b p ws) (\<lambda>_.
       bindR (foldR (reference_output a now) db [bm_analytics b, bm_payload b]) (\<lambda>db1.
         update_task a (\<lambda>t. t\<lparr>ta_state := ''prepared'', ta_owner := None, ta_lease := None, ta_manifest := Some encoded, ta_sha := Some (sha256_hex encoded), ta_updated := now\<rparr>) db1))))))"

subsection \<open>The swap\<close>

definition compacted_row :: "maintenance_authority \<Rightarrow> compaction_partition \<Rightarrow> int \<Rightarrow> bundle_manifest \<Rightarrow> bundle_row" where
  "compacted_row a p gen b = \<lparr>bu_id = bm_bundle b, bu_tenant = ma_tenant a, bu_lane = ma_lane a, bu_schema = cp_schema p, bu_gversion = cp_gversion p, bu_day = cp_day p, bu_kind = cp_kind p,
    bu_seq_min = bm_seq_min b, bu_seq_max = bm_seq_max b, bu_rows = bm_rows b, bu_identity = bm_identity b, bu_generation = gen, bu_projects = elems (bm_projects b),
    bu_valid_to = None, bu_retired = None, bu_reserved = None\<rparr>"

definition compacted_file :: "maintenance_authority \<Rightarrow> bundle_manifest \<Rightarrow> file_manifest \<Rightarrow> file_row" where
  "compacted_file a b f = \<lparr>fi_id = fm_file f, fi_tenant = ma_tenant a, fi_bundle = bm_bundle b, fi_intent = fm_intent f, fi_role = fm_role f, fi_bytes = fm_bytes f,
    fi_sha = fm_sha f, fi_rows = fm_rows f, fi_min_event = fm_min_event f, fi_max_event = fm_max_event f, fi_min_received = fm_min_received f,
    fi_max_received = fm_max_received f, fi_min_seq = fm_min_seq f, fi_max_seq = fm_max_seq f,
    fi_blocks = map (\<lambda>k. (fb_index k, fb_sha k)) (elems (fm_blocks f))\<rparr>"

definition insert_output_file :: "maintenance_authority \<Rightarrow> bundle_manifest \<Rightarrow> control_db \<Rightarrow> file_manifest \<Rightarrow> control_error + control_db" where
  "insert_output_file a b db f =
    (case find (\<lambda>i. in_tenant i = ma_tenant a \<and> in_id i = fm_intent f) (db_intents db) of None \<Rightarrow> Inl ErrNoRows
     | Some i \<Rightarrow> (case in_task i of None \<Rightarrow> Inl ErrScan | Some task \<Rightarrow>
         if in_state i \<noteq> ''referenced'' \<or> task \<noteq> ma_task a \<or> in_bytes i \<noteq> fm_bytes f \<or> in_sha i \<noteq> fm_sha f then Inl ErrIntentStale
         else insert_file db (compacted_file a b f)))"

definition insertCompactionBundle :: "maintenance_authority \<Rightarrow> compaction_partition \<Rightarrow> bundle_manifest \<Rightarrow> int \<Rightarrow> control_db \<Rightarrow> control_error + control_db" where
  "insertCompactionBundle a p b gen db =
    (let row = compacted_row a p gen b in
     if list_ex (\<lambda>x. bu_id x = bu_id row) (db_bundles db) then Inl ErrUnique
     else bindR (foldR (insert_output_file a b) (db\<lparr>db_bundles := db_bundles db @ [row]\<rparr>) [bm_analytics b, bm_payload b]) (\<lambda>db'.
       if \<not> distinct (bu_projects row) then Inl ErrUnique else Inr db'))"

definition retires :: "maintenance_authority \<Rightarrow> work_input \<Rightarrow> bundle_row \<Rightarrow> bool" where
  "retires a w b = (bu_tenant b = ma_tenant a \<and> bu_lane b = ma_lane a \<and> bu_id b = wi_bundle w \<and> bu_valid_to b = None \<and> bu_reserved b = Some (ma_task a) \<and>
    bu_generation b = wi_generation w \<and> bu_identity b = wi_identity w)"

definition retire_input :: "maintenance_authority \<Rightarrow> int \<Rightarrow> int \<Rightarrow> control_db \<Rightarrow> work_input \<Rightarrow> control_error + control_db" where
  "retire_input a gen now db w =
    (if affected (retires a w) (db_bundles db) \<noteq> 1 then Inl ErrMaintenanceBusy
     else Inr (db\<lparr>db_bundles := update_where (retires a w) (\<lambda>b. b\<lparr>bu_valid_to := Some gen, bu_retired := Some now, bu_reserved := None\<rparr>) (db_bundles db)\<rparr>))"

definition bump_lane :: "maintenance_authority \<Rightarrow> int \<Rightarrow> int \<Rightarrow> control_db \<Rightarrow> control_error + control_db" where
  "bump_lane a old gen db =
    (let P = (\<lambda>l. la_tenant l = ma_tenant a \<and> la_id l = ma_lane a \<and> la_generation l = old) in
     if affected P (db_lanes db) \<noteq> 1 then Inl ErrLaneCAS
     else Inr (db\<lparr>db_lanes := update_where P (\<lambda>l. l\<lparr>la_generation := gen\<rparr>) (db_lanes db)\<rparr>))"

text \<open>The writes of a swap: the inputs retire and the output, if there is one, appears, in the next generation of the lane.\<close>

definition replace_inputs :: "maintenance_authority \<Rightarrow> int \<Rightarrow> compaction_partition \<Rightarrow> work_input list \<Rightarrow> bundle_manifest option \<Rightarrow> int \<Rightarrow> control_db \<Rightarrow> control_error + swap_result \<times> control_db" where
  "replace_inputs a old p ws output_bundle now db =
    (if old = maxInt64 then Inl ErrGenerationExhausted
     else let gen = old + 1 in
       bindR (foldR (retire_input a gen now) db ws) (\<lambda>db1.
       bindR (case output_bundle of None \<Rightarrow> Inr db1 | Some b \<Rightarrow> insertCompactionBundle a p b gen db1) (\<lambda>db2.
       bindR (bump_lane a old gen db2) (\<lambda>db3.
       bindR (update_task a (\<lambda>t. t\<lparr>ta_state := ''completed'', ta_owner := None, ta_lease := None, ta_updated := now\<rparr>) db3) (\<lambda>db4.
         Inr (\<lparr>sw_generation = gen, sw_already = False\<rparr>, db4))))))"

definition swap_output :: "(string \<Rightarrow> bool) \<Rightarrow> maintenance_authority \<Rightarrow> int \<Rightarrow> string \<Rightarrow> int \<Rightarrow> control_db \<Rightarrow> control_error + swap_result \<times> control_db" where
  "swap_output uuid_ok a old encoded now db =
    (case strictControlJSON bundle_of encoded of None \<Rightarrow> Inl ErrManifest
     | Some b \<Rightarrow>
       bindR (loadCompactionExpectations (ma_task a) db) (\<lambda>(p, ws).
       bindR (validateCompactionOutput uuid_ok b p ws) (\<lambda>_. replace_inputs a old p ws (Some b) now db)))"

definition owner_of :: "task_row \<Rightarrow> string" where
  "owner_of t = (case ta_owner t of None \<Rightarrow> [] | Some w \<Rightarrow> w)"

definition swapCompaction :: "(string \<Rightarrow> bool) \<Rightarrow> maintenance_authority \<Rightarrow> int \<Rightarrow> control_db \<Rightarrow> control_error + swap_result \<times> control_db" where
  "swapCompaction uuid_ok a now db =
    (if \<not> validateMaintenanceAuthority uuid_ok a then Inl ErrInvalidCommand
     else bindR (lockRuntimeGeneration (ma_installation a) (ma_generation a) db) (\<lambda>_.
       case find (\<lambda>l. la_tenant l = ma_tenant a \<and> la_id l = ma_lane a) (db_lanes db) of None \<Rightarrow> Inl ErrNoRows
       | Some l \<Rightarrow> (case find (\<lambda>t. ta_id t = ma_task a \<and> ta_tenant t = ma_tenant a \<and> ta_lane t = ma_lane a) (db_tasks db) of None \<Rightarrow> Inl ErrNoRows
         | Some t \<Rightarrow>
           if ta_state t = ''completed'' then Inr (\<lparr>sw_generation = la_generation l, sw_already = True\<rparr>, db)
           else (case (ta_manifest t, ta_sha t) of
               (Some encoded, Some sha) \<Rightarrow>
                 if ta_state t \<noteq> ''running'' \<or> owner_of t \<noteq> ma_owner a \<or> ta_fence t \<noteq> ma_fence a \<or> ta_generation t \<noteq> ma_generation a \<or> encoded = []
                 then Inl ErrMaintenanceFence
                 else bindR (lockRunningMaintenance a now db) (\<lambda>_.
                   if sha256_hex encoded \<noteq> sha then Inl ErrCompaction else swap_output uuid_ok a (la_generation l) encoded now db)
             | _ \<Rightarrow> Inl ErrMaintenanceFence))))"

section \<open>Retention\<close>

text \<open>
  \<open>internal/control/retention.go\<close> and \<open>retention_swap.go\<close>: a task of the same kind that takes one bundle
  with rows below the retention floor, and replaces it by a bundle of the rows that stay, or by nothing
  when all of them have expired.
\<close>

record retention_command =
  rr_installation_id :: string
  rr_storage :: int
  rr_task_id :: string
  rr_tenant_id :: int
  rr_lane_id :: int
  rr_bundle_id :: string

record retention_task =
  rk_task :: compaction_task
  rk_floor :: int

definition reserve_of :: "retention_command \<Rightarrow> reserve_command" where
  "reserve_of c = \<lparr>rv_installation = rr_installation_id c, rv_generation = rr_storage c, rv_task = rr_task_id c, rv_tenant = rr_tenant_id c, rv_lane = rr_lane_id c, rv_bundles = [rr_bundle_id c]\<rparr>"

definition reserveRetention :: "(string \<Rightarrow> bool) \<Rightarrow> retention_command \<Rightarrow> int \<Rightarrow> control_db \<Rightarrow> control_error + retention_task \<times> control_db" where
  "reserveRetention uuid_ok c now db =
    (if \<not> uuid_ok (rr_installation_id c) \<or> rr_storage c \<le> 0 \<or> \<not> uuid_ok (rr_task_id c) \<or> rr_tenant_id c \<le> 0 \<or> rr_lane_id c < 0 \<or> rr_lane_id c \<ge> LaneCount \<or> \<not> uuid_ok (rr_bundle_id c)
     then Inl ErrInvalidCommand
     else bindR (lockRuntimeGeneration (rr_installation_id c) (rr_storage c) db) (\<lambda>_.
       bindR (lockCompactionInputs (rr_tenant_id c) (rr_lane_id c) [rr_bundle_id c] db) (\<lambda>(p, identity).
         case find (\<lambda>f. fi_tenant f = rr_tenant_id c \<and> fi_bundle f = rr_bundle_id c \<and> fi_role f = ''analytics'') (db_files db) of None \<Rightarrow> Inl ErrNoRows
         | Some f \<Rightarrow>
           if fi_min_received f \<ge> db_floor db then Inl ErrMaintenanceNoWork
           else let t = queued_task (reserve_of c) ''retain'' (Some (db_floor db)) identity now;
                    P = (\<lambda>b. bu_id b = rr_bundle_id c \<and> free_bundle (rr_tenant_id c) (rr_lane_id c) b) in
             if list_ex (task_conflict t) (db_tasks db) then Inl ErrMaintenanceBusy
             else if affected P (db_bundles db) \<noteq> 1 then Inl ErrMaintenanceBusy
             else let reserved = update_where P (\<lambda>b. b\<lparr>bu_reserved := Some (rr_task_id c)\<rparr>) (db_bundles db);
                      taken = filter (\<lambda>b. bu_tenant b = rr_tenant_id c \<and> bu_id b = rr_bundle_id c) reserved in
               Inr (\<lparr>rk_task = \<lparr>kt_authority = \<lparr>ma_installation = rr_installation_id c, ma_generation = rr_storage c, ma_task = rr_task_id c, ma_tenant = rr_tenant_id c,
                   ma_lane = rr_lane_id c, ma_owner = [], ma_fence = 0\<rparr>, kt_partition = p, kt_prepared = False\<rparr>, rk_floor = db_floor db\<rparr>,
                 db\<lparr>db_tasks := db_tasks db @ [t], db_bundles := reserved,
                   db_inputs := db_inputs db @ map (\<lambda>b. \<lparr>mi_task = rr_task_id c, mi_tenant = bu_tenant b, mi_bundle = bu_id b, mi_generation = bu_generation b, mi_identity = bu_identity b\<rparr>) taken\<rparr>))))"

definition claimRetention :: "(string \<Rightarrow> bool) \<Rightarrow> string \<Rightarrow> string \<Rightarrow> int \<Rightarrow> int \<Rightarrow> control_db \<Rightarrow> control_error + retention_task option \<times> control_db" where
  "claimRetention uuid_ok installation owner lease now db =
    bindR (claim_task ''retain'' uuid_ok installation owner lease now db) (\<lambda>(r, db').
      case r of None \<Rightarrow> Inr (None, db') | Some (k, t) \<Rightarrow> (case ta_floor t of None \<Rightarrow> Inl ErrScan | Some f \<Rightarrow> Inr (Some \<lparr>rk_task = k, rk_floor = f\<rparr>, db')))"

fun projects_within :: "int list \<Rightarrow> int \<Rightarrow> int list \<Rightarrow> bool" where
  "projects_within known previous [] = True"
| "projects_within known previous (p # ps) = (previous < p \<and> p \<in> set known \<and> projects_within known p ps)"

definition retention_file_ok :: "(string \<Rightarrow> bool) \<Rightarrow> bundle_manifest \<Rightarrow> int \<Rightarrow> string \<Rightarrow> file_manifest \<Rightarrow> bool" where
  "retention_file_ok uuid_ok b retention role f = (fm_role f = role \<and> uuid_ok (fm_file f) \<and> uuid_ok (fm_intent f) \<and> fm_rows f = bm_rows b \<and> 0 < fm_bytes f \<and> fm_bytes f \<le> 134217728 \<and>
    validSHA (fm_sha f) \<and> retention \<le> fm_min_received f \<and> fm_min_received f \<le> fm_max_received f \<and> fm_min_event f \<le> fm_max_event f \<and> fm_min_seq f = bm_seq_min b \<and>
    fm_max_seq f = bm_seq_max b \<and> int (length (elems (fm_blocks f))) = block_count (fm_bytes f) \<and> blocks_ok validSHA (elems (fm_blocks f)))"

definition validateRetentionOutput :: "(string \<Rightarrow> bool) \<Rightarrow> bundle_manifest \<Rightarrow> compaction_partition \<Rightarrow> work_input list \<Rightarrow> int \<Rightarrow> control_error + unit" where
  "validateRetentionOutput uuid_ok b p ws retention =
    (case input_totals ws of (rows, lo, hi) \<Rightarrow> let f = bm_analytics b; g = bm_payload b in
     check (uuid_ok (bm_bundle b) \<and> bm_day b = cp_day p \<and> bm_kind b = cp_kind p \<and> 0 < bm_rows b \<and> validSHA (bm_identity b) \<and>
       bm_rows b \<le> rows \<and> lo \<le> bm_seq_min b \<and> bm_seq_max b \<le> hi \<and> bm_seq_min b \<le> bm_seq_max b \<and>
       projects_within (concat (map wi_projects ws)) 0 (elems (bm_projects b)) \<and>
       retention_file_ok uuid_ok b retention ''analytics'' f \<and> retention_file_ok uuid_ok b retention ''payload'' g \<and>
       fm_file f \<noteq> fm_file g \<and> fm_intent f \<noteq> fm_intent g \<and> fm_min_event f = fm_min_event g \<and> fm_max_event f = fm_max_event g \<and> fm_min_received f = fm_min_received g \<and>
       fm_max_received f = fm_max_received g \<and> fm_min_seq f = fm_min_seq g \<and> fm_max_seq f = fm_max_seq g) ErrCompaction)"

definition prepareRetention :: "(string \<Rightarrow> bool) \<Rightarrow> retention_task \<Rightarrow> bundle_manifest \<Rightarrow> int \<Rightarrow> control_db \<Rightarrow> control_error + control_db" where
  "prepareRetention uuid_ok k b now db =
    (let encoded = marshalBundle b; a = kt_authority (rk_task k) in
     if length encoded > 1048576 then Inl ErrCompaction
     else bindR (lockRuntimeGeneration (ma_installation a) (ma_generation a) db) (\<lambda>_.
       bindR (lockRunningMaintenance a now db) (\<lambda>_.
       bindR (loadCompactionExpectations (ma_task a) db) (\<lambda>(p, ws).
       bindR (validateRetentionOutput uuid_ok b p ws (rk_floor k)) (\<lambda>_.
       bindR (foldR (reference_output a now) db [bm_analytics b, bm_payload b]) (\<lambda>db1.
         update_task a (\<lambda>t. t\<lparr>ta_state := ''prepared'', ta_owner := None, ta_lease := None, ta_manifest := Some encoded, ta_sha := Some (sha256_hex encoded), ta_updated := now\<rparr>) db1))))))"

definition input_files :: "string \<Rightarrow> control_db \<Rightarrow> file_row list" where
  "input_files task db = [f. m \<leftarrow> db_inputs db, mi_task m = task, f \<leftarrow> db_files db, fi_tenant f = mi_tenant m \<and> fi_bundle f = mi_bundle m \<and> fi_role f = ''analytics'']"

text \<open>What the swap puts in place: nothing when every row has expired, else the stored output.\<close>

definition retained_output :: "(string \<Rightarrow> bool) \<Rightarrow> maintenance_authority \<Rightarrow> task_row \<Rightarrow> int \<Rightarrow> compaction_partition \<Rightarrow> work_input list \<Rightarrow> control_db \<Rightarrow> control_error + bundle_manifest option" where
  "retained_output uuid_ok a t retention p ws db =
    (let files = input_files (ma_task a) db; encoded = (case ta_manifest t of None \<Rightarrow> [] | Some e \<Rightarrow> e) in
     if files = [] then Inl ErrScan
     else if list_all (\<lambda>f. fi_max_received f < retention) files then (if ta_sha t \<noteq> None \<or> encoded \<noteq> [] then Inl ErrCompaction else Inr None)
     else if ta_sha t = None \<or> encoded = [] then Inl ErrMaintenanceFence
     else if Some (sha256_hex encoded) \<noteq> ta_sha t then Inl ErrCompaction
     else case strictControlJSON bundle_of encoded of None \<Rightarrow> Inl ErrManifest
       | Some b \<Rightarrow> bindR (validateRetentionOutput uuid_ok b p ws retention) (\<lambda>_. Inr (Some b)))"

definition swapRetention :: "(string \<Rightarrow> bool) \<Rightarrow> retention_task \<Rightarrow> int \<Rightarrow> control_db \<Rightarrow> control_error + swap_result \<times> control_db" where
  "swapRetention uuid_ok k now db =
    (let a = kt_authority (rk_task k) in
     if \<not> validateMaintenanceAuthority uuid_ok a \<or> rk_floor k < 0 then Inl ErrInvalidCommand
     else bindR (lockRuntimeGeneration (ma_installation a) (ma_generation a) db) (\<lambda>_.
       case find (\<lambda>l. la_tenant l = ma_tenant a \<and> la_id l = ma_lane a) (db_lanes db) of None \<Rightarrow> Inl ErrNoRows
       | Some l \<Rightarrow> (case find (\<lambda>t. ta_id t = ma_task a \<and> ta_tenant t = ma_tenant a \<and> ta_lane t = ma_lane a \<and> ta_kind t = ''retain'') (db_tasks db) of None \<Rightarrow> Inl ErrNoRows
         | Some t \<Rightarrow> (case ta_floor t of None \<Rightarrow> Inl ErrScan
           | Some retention \<Rightarrow>
             if ta_state t = ''completed'' then Inr (\<lparr>sw_generation = la_generation l, sw_already = True\<rparr>, db)
             else if ta_state t \<noteq> ''running'' \<or> owner_of t \<noteq> ma_owner a \<or> ta_fence t \<noteq> ma_fence a \<or> ta_generation t \<noteq> ma_generation a \<or> retention \<noteq> rk_floor k
             then Inl ErrMaintenanceFence
             else bindR (lockRunningMaintenance a now db) (\<lambda>_.
               bindR (loadCompactionExpectations (ma_task a) db) (\<lambda>(p, ws).
               bindR (retained_output uuid_ok a t retention p ws db) (\<lambda>b. replace_inputs a (la_generation l) p ws b now db)))))))"

end
