(* ===== verification/Accept.thy ===== *)
theory Accept
  imports Jobs "HOL-Library.AList"
begin

section \<open>Accepting a batch\<close>

text \<open>
  \<open>internal/control/accept.go\<close> and \<open>receipts.go\<close>: the transaction that makes an uploaded journal
  durable. It looks for receipts of an earlier attempt, locks the authorities of the requests,
  decides for every record whether it is new, a duplicate or a conflict, and writes the batch, its
  receipts and the conversion job. Go maps with a determined lookup are association lists; where
  the code sorts the keys of a map, the order of the map does not matter.
\<close>

record authorization_snapshot =
  az_tenant :: int
  az_project :: int
  az_key :: int
  az_scrub :: int
  az_config :: int
  az_hash :: string

record candidate =
  ca_position :: int
  ca_record :: string
  ca_kind :: string
  ca_source :: string
  ca_sha :: string

record request_index =
  ri_acceptance :: string
  ri_project :: int
  ri_first :: int
  ri_last :: int
  ri_count :: int
  ri_content :: string
  ri_outcomes :: "request_outcome list"
  ri_unsupported :: "unsupported_item list"

record verified_request =
  vq_index :: request_index
  vq_candidates :: "candidate list"
  vq_auth :: authorization_snapshot

record verified_batch =
  vb_installation :: string
  vb_generation :: int
  vb_tenant :: int
  vb_lane :: int
  vb_batch :: string
  vb_job :: string
  vb_journal :: intent_authority
  vb_requests :: "verified_request list"

record receipt_result =
  rr_acceptance :: string
  rr_tenant :: int
  rr_project :: int
  rr_lane :: int
  rr_seq :: int
  rr_content :: string
  rr_selection :: receipt_selection
  rr_selection_sha :: string
  rr_first :: int
  rr_last :: int
  rr_accepted :: int
  rr_duplicate :: int
  rr_conflict :: int
  rr_unsupported :: int
  rr_received :: int

datatype accept_error = AcceptFailed control_error | AcceptSubset "receipt_result list" "string list" | AcceptRejected "(string \<times> control_error) list"

definition lift_control :: "control_error + 'a \<Rightarrow> accept_error + 'a" where
  "lift_control r = (case r of Inl e \<Rightarrow> Inl (AcceptFailed e) | Inr x \<Rightarrow> Inr x)"

definition lift_selection :: "model_error + 'a \<Rightarrow> control_error + 'a" where
  "lift_selection r = (case r of Inl e \<Rightarrow> Inl ErrSelection | Inr x \<Rightarrow> Inr x)"

subsection \<open>SDK outcomes\<close>

definition outcome_key :: "request_outcome \<Rightarrow> int \<times> string \<times> string" where
  "outcome_key oc = (oc_item oc, oc_category oc, oc_reason oc)"

definition add_outcome :: "((int \<times> string \<times> string) \<times> request_outcome) list \<Rightarrow> request_outcome \<Rightarrow>
    control_error + ((int \<times> string \<times> string) \<times> request_outcome) list" where
  "add_outcome totals oc =
    (case map_of totals (outcome_key oc) of None \<Rightarrow> Inr (totals @ [(outcome_key oc, oc)])
     | Some current \<Rightarrow>
       if oc_quantity oc > sub64 maxInt64 (oc_quantity current) then Inl ErrOutcomes
       else Inr (AList.update (outcome_key oc) (current\<lparr>oc_quantity := add64 (oc_quantity current) (oc_quantity oc),
         oc_approximate := (oc_approximate current \<or> oc_approximate oc)\<rparr>) totals))"

definition outcome_less :: "request_outcome \<Rightarrow> request_outcome \<Rightarrow> bool" where
  "outcome_less a b =
    (if oc_item a \<noteq> oc_item b then oc_item a < oc_item b
     else if oc_category a \<noteq> oc_category b then byte_less (oc_category a) (oc_category b)
     else byte_less (oc_reason a) (oc_reason b))"

definition checkedOutcomeTotals :: "request_outcome list \<Rightarrow> control_error + request_outcome list" where
  "checkedOutcomeTotals ocs = bindR (foldR add_outcome [] ocs) (\<lambda>totals. Inr (sortBy outcome_less (map snd totals)))"

subsection \<open>Validating a batch\<close>

definition is_lane_id :: "string \<Rightarrow> bool" where
  "is_lane_id s = (case laneForAcceptance s of Inl _ \<Rightarrow> False | Inr _ \<Rightarrow> True)"

definition candidate_ok :: "nat \<Rightarrow> candidate \<Rightarrow> bool" where
  "candidate_ok local c = (ca_position c = int local \<and> validSHA (ca_record c) \<and> (ca_kind c = KindError \<or> ca_kind c = KindLog \<or> ca_kind c = KindTransaction) \<and>
    (ca_source c \<noteq> [] \<or> ca_sha c \<noteq> [] \<longrightarrow>
      (ca_kind c = KindError \<or> ca_kind c = KindTransaction) \<and> length (ca_source c) = 32 \<and> ca_source c = to_lower (ca_source c) \<and> validSHA (ca_sha c) \<and>
      hex_decode (ca_source c) \<noteq> None))"

definition outcome_ok :: "request_outcome \<Rightarrow> bool" where
  "outcome_ok oc = (0 \<le> oc_item oc \<and> oc_category oc \<noteq> [] \<and> oc_reason oc \<noteq> [] \<and> 0 \<le> oc_quantity oc)"

definition unsupported_ok :: "unsupported_item \<Rightarrow> bool" where
  "unsupported_ok u = (0 \<le> ui_item u \<and> ui_type u \<noteq> [] \<and> int (length (ui_type u)) \<le> 128 \<and> 0 \<le> ui_bytes u)"

definition authorization_ok :: "authorization_snapshot \<Rightarrow> bool" where
  "authorization_ok a = (0 < az_tenant a \<and> 0 < az_project a \<and> 0 < az_key a \<and> 0 < az_scrub a \<and> 0 < az_config a)"

definition validate_request :: "int \<Rightarrow> string list \<times> int \<Rightarrow> verified_request \<Rightarrow> control_error + string list \<times> int" where
  "validate_request lane s q =
    (let (seen, position) = s; ix = vq_index q; n = int (length (vq_candidates q)) in
     if laneForAcceptance (ri_acceptance ix) \<noteq> Inr lane \<or> ri_acceptance ix \<in> set seen \<or> ri_project ix \<le> 0 \<or> \<not> validSHA (ri_content ix) then Inl ErrInvalidVerifiedBatch
     else if ri_first ix \<noteq> position \<or> ri_last ix \<noteq> position + n - 1 \<or> ri_count ix \<noteq> n \<or> n > 10000 - position \<or> int (length (ri_outcomes ix)) > 10000 \<or>
       int (length (ri_unsupported ix)) > 1000 then Inl ErrInvalidVerifiedBatch
     else if \<not> list_all (\<lambda>(local, c). candidate_ok local c) (enumerate 0 (vq_candidates q)) then Inl ErrInvalidVerifiedBatch
     else if (case checkedOutcomeTotals (ri_outcomes ix) of Inl _ \<Rightarrow> True | Inr _ \<Rightarrow> False) then Inl ErrInvalidVerifiedBatch
     else if \<not> list_all outcome_ok (ri_outcomes ix) \<or> \<not> list_all unsupported_ok (ri_unsupported ix) \<or> \<not> authorization_ok (vq_auth q) then Inl ErrInvalidVerifiedBatch
     else Inr (ri_acceptance ix # seen, position + n))"

definition validateVerifiedBatch :: "verified_batch \<Rightarrow> control_error + unit" where
  "validateVerifiedBatch b =
    (let j = vb_journal b in
     if vb_tenant b \<le> 0 \<or> vb_generation b \<le> 0 \<or> vb_lane b < 0 \<or> vb_lane b \<ge> LaneCount \<or> vb_requests b = [] \<or> int (length (vb_requests b)) > 1000
     then Inl ErrInvalidVerifiedBatch
     else if \<not> is_lane_id (vb_installation b) \<or> \<not> is_lane_id (vb_batch b) \<or> \<not> is_lane_id (vb_job b) then Inl ErrInvalidVerifiedBatch
     else if \<not> is_lane_id (ia_intent j) \<or> ia_owner j = [] \<or> ia_fence j \<le> 0 \<or> ia_bytes j \<le> 0 \<or> \<not> validSHA (ia_sha j) then Inl ErrInvalidVerifiedBatch
     else bindR (foldR (validate_request (vb_lane b)) ([], 0) (vb_requests b)) (\<lambda>_. Inr ()))"

subsection \<open>Receipts of an earlier attempt\<close>

text \<open>The classes are visited in this order; the checks do not depend on it.\<close>

abbreviation class_order :: "receipt_class list" where
  "class_order \<equiv> [ReceiptAccepted, ReceiptDuplicate, ReceiptConflict]"

definition scan_receipt :: "receipt_row \<Rightarrow> control_error + receipt_result" where
  "scan_receipt r =
    (let n = re_last r - re_first r + 1 in
     bindR (lift_selection (selectionCanonicalJSON class_order (re_selection r) n)) (\<lambda>encoded.
       if sha256_hex encoded \<noteq> re_selection_sha r then Inl ErrSelection
       else Inr \<lparr>rr_acceptance = re_acceptance r, rr_tenant = re_tenant r, rr_project = re_project r, rr_lane = re_lane r, rr_seq = re_seq r, rr_content = re_content r,
         rr_selection = re_selection r, rr_selection_sha = re_selection_sha r, rr_first = re_first r, rr_last = re_last r, rr_accepted = re_accepted r,
         rr_duplicate = re_duplicate r, rr_conflict = re_conflict r, rr_unsupported = re_unsupported r, rr_received = re_received r\<rparr>))"

definition request_id :: "verified_request \<Rightarrow> string" where
  "request_id q = ri_acceptance (vq_index q)"

definition lookupReceipts :: "verified_request list \<Rightarrow> control_db \<Rightarrow> control_error + (string \<times> receipt_result) list" where
  "lookupReceipts requests db =
    bindR (mapR scan_receipt (filter (\<lambda>r. re_acceptance r \<in> request_id ` set requests) (db_receipts db))) (\<lambda>rs. Inr (map (\<lambda>r. (rr_acceptance r, r)) rs))"

definition classify_request :: "verified_batch \<Rightarrow> (string \<times> receipt_result) list \<Rightarrow> receipt_result list \<times> string list \<Rightarrow> verified_request \<Rightarrow>
    control_error + receipt_result list \<times> string list" where
  "classify_request b found s q =
    (case map_of found (request_id q) of None \<Rightarrow> Inr (fst s, snd s @ [request_id q])
     | Some r \<Rightarrow>
       if rr_tenant r \<noteq> vb_tenant b \<or> rr_project r \<noteq> ri_project (vq_index q) \<or> rr_content r \<noteq> ri_content (vq_index q) then Inl ErrIdempotencyConflict
       else Inr (fst s @ [r], snd s))"

definition classifyExisting :: "verified_batch \<Rightarrow> (string \<times> receipt_result) list \<Rightarrow> control_error + receipt_result list \<times> string list" where
  "classifyExisting b found = foldR (classify_request b found) ([], []) (vb_requests b)"

definition zero_receipt :: receipt_result where
  "zero_receipt = \<lparr>rr_acceptance = [], rr_tenant = 0, rr_project = 0, rr_lane = 0, rr_seq = 0, rr_content = [],
    rr_selection = \<lparr>sel_version = 0, sel_accepted = None, sel_duplicate = None, sel_conflict = None\<rparr>, rr_selection_sha = [], rr_first = 0, rr_last = 0,
    rr_accepted = 0, rr_duplicate = 0, rr_conflict = 0, rr_unsupported = 0, rr_received = 0\<rparr>"

definition orderedResults :: "verified_request list \<Rightarrow> (string \<times> receipt_result) list \<Rightarrow> receipt_result list" where
  "orderedResults requests found = map (\<lambda>q. case map_of found (request_id q) of None \<Rightarrow> zero_receipt | Some r \<Rightarrow> r) requests"

definition lookupAndClassify :: "verified_batch \<Rightarrow> control_db \<Rightarrow> control_error + receipt_result list \<times> string list" where
  "lookupAndClassify b db =
    bindR (lookupReceipts (vb_requests b) db) (\<lambda>found.
    bindR (classifyExisting b found) (\<lambda>(existing, missing).
      Inr (if missing = [] then orderedResults (vb_requests b) found else existing, missing)))"

subsection \<open>Authorities\<close>

type_synonym authority_key = "int \<times> string"

definition authority_of :: "verified_request \<Rightarrow> authority_key" where
  "authority_of q = (ri_project (vq_index q), az_hash (vq_auth q))"

definition authority_less :: "authority_key \<Rightarrow> authority_key \<Rightarrow> bool" where
  "authority_less a b = (if fst a \<noteq> fst b then fst a < fst b else byte_less (snd a) (snd b))"

definition collect_authority :: "int \<Rightarrow> (authority_key \<times> authorization_snapshot) list \<Rightarrow> verified_request \<Rightarrow> accept_error + (authority_key \<times> authorization_snapshot) list" where
  "collect_authority revision as q =
    (if az_tenant (vq_auth q) \<noteq> revision then Inl (AcceptRejected [(request_id q, ErrAuthorizationStale)])
     else case map_of as (authority_of q) of
       None \<Rightarrow> Inr (AList.update (authority_of q) (vq_auth q) as)
     | Some previous \<Rightarrow> if previous \<noteq> vq_auth q then Inl (AcceptRejected [(request_id q, ErrAuthorizationStale)]) else Inr (AList.update (authority_of q) (vq_auth q) as))"

text \<open>What is wrong with an authority, if anything.\<close>

definition authority_cause :: "int \<Rightarrow> authority_key \<Rightarrow> authorization_snapshot \<Rightarrow> control_db \<Rightarrow> control_error option" where
  "authority_cause tenant k expected db =
    (case (find (\<lambda>p. pr_tenant p = tenant \<and> pr_id p = fst k) (db_projects db),
           find (\<lambda>y. ke_tenant y = tenant \<and> ke_project y = fst k \<and> ke_hash y = snd k) (db_keys db)) of
       (Some p, Some y) \<Rightarrow>
         if pr_state p \<noteq> ''active'' then Some ErrProjectDisabled
         else if ke_state y \<noteq> ''active'' then Some ErrKeyRevoked
         else if pr_revision p \<noteq> az_project expected \<or> ke_revision y \<noteq> az_key expected \<or> pr_scrub p \<noteq> az_scrub expected \<or> pr_config p \<noteq> az_config expected
         then Some ErrAuthorizationStale else None
     | _ \<Rightarrow> Some ErrKeyRevoked)"

definition lock_authority :: "verified_batch \<Rightarrow> (authority_key \<times> authorization_snapshot) list \<Rightarrow> control_db \<Rightarrow> (int \<times> int) list \<times> (string \<times> control_error) list \<Rightarrow>
    authority_key \<Rightarrow> (int \<times> int) list \<times> (string \<times> control_error) list" where
  "lock_authority b as db s k =
    (case authority_cause (vb_tenant b) k (the (map_of as k)) db of
       None \<Rightarrow> (AList.update (fst k) (db_dedupe_days db) (fst s), snd s)
     | Some cause \<Rightarrow> (fst s, snd s @ map (\<lambda>q. (request_id q, cause)) (filter (\<lambda>q. authority_of q = k) (vb_requests b))))"

definition lockProjectAuthorities :: "verified_batch \<Rightarrow> int \<Rightarrow> control_db \<Rightarrow> accept_error + (int \<times> int) list" where
  "lockProjectAuthorities b revision db =
    bindR (foldR (collect_authority revision) [] (vb_requests b)) (\<lambda>as.
      let (retention, rejected) = foldl (lock_authority b as db) ([], []) (sortBy authority_less (map fst as)) in
      if rejected \<noteq> [] then Inl (AcceptRejected rejected) else Inr retention)"

subsection \<open>Duplicates\<close>

record source_occurrence =
  so_request :: nat
  so_local :: nat
  so_global :: int
  so_value :: candidate

type_synonym source_key = "int \<times> string \<times> string"

definition source_key_of :: "verified_request \<Rightarrow> candidate \<Rightarrow> source_key" where
  "source_key_of q c = (ri_project (vq_index q), ca_kind c, ca_source c)"

definition source_key_less :: "source_key \<Rightarrow> source_key \<Rightarrow> bool" where
  "source_key_less a b = (case (a, b) of ((p, k, i), (p', k', i')) \<Rightarrow> if p \<noteq> p' then p < p' else if k \<noteq> k' then byte_less k k' else byte_less i i')"

definition request_sources :: "nat \<times> verified_request \<Rightarrow> (source_key \<times> source_occurrence) list" where
  "request_sources x = (case x of (r, q) \<Rightarrow>
    map (\<lambda>(l, c). (source_key_of q c, \<lparr>so_request = r, so_local = l, so_global = ri_first (vq_index q) + int l, so_value = c\<rparr>))
      (filter (\<lambda>(l, c). ca_source c \<noteq> []) (enumerate 0 (vq_candidates q))))"

definition batch_sources :: "verified_batch \<Rightarrow> (source_key \<times> source_occurrence) list" where
  "batch_sources b = concat (map request_sources (enumerate 0 (vb_requests b)))"

definition initial_classes :: "verified_batch \<Rightarrow> receipt_class list list" where
  "initial_classes b = map (\<lambda>q. replicate (length (vq_candidates q)) ReceiptAccepted) (vb_requests b)"

definition set_class :: "receipt_class \<Rightarrow> receipt_class list list \<Rightarrow> source_occurrence \<Rightarrow> receipt_class list list" where
  "set_class k classes x = classes[so_request x := (classes ! so_request x)[so_local x := k]]"

definition day_us :: int where
  "day_us = 86400000000"

definition is_source :: "int \<Rightarrow> source_key \<Rightarrow> dedupe_row \<Rightarrow> bool" where
  "is_source tenant k d = (de_tenant d = tenant \<and> de_project d = fst k \<and> de_kind d = fst (snd k) \<and> de_source d = snd (snd k))"

definition dedupe_expired :: "int \<Rightarrow> control_db \<Rightarrow> dedupe_row \<Rightarrow> bool" where
  "dedupe_expired now db d = (max (de_expires d) (de_created d + (db_dedupe_days db + 7) * day_us) \<le> now)"

definition new_dedupe_row :: "verified_batch \<Rightarrow> (int \<times> int) list \<Rightarrow> source_key \<Rightarrow> source_occurrence \<Rightarrow> int \<Rightarrow> dedupe_row" where
  "new_dedupe_row b retention k w now = \<lparr>de_tenant = vb_tenant b, de_project = fst k, de_kind = fst (snd k), de_source = snd (snd k), de_record = ca_record (so_value w),
    de_acceptance = request_id (vb_requests b ! so_request w), de_sha = ca_sha (so_value w),
    de_expires = now + ((case map_of retention (fst k) of None \<Rightarrow> 0 | Some days \<Rightarrow> days) + 7) * day_us, de_created = now\<rparr>"

text \<open>The winner of a key is accepted when there is no row of the key or when its row has expired.\<close>

definition claim_source :: "verified_batch \<Rightarrow> (int \<times> int) list \<Rightarrow> int \<Rightarrow> source_key \<Rightarrow> source_occurrence \<Rightarrow> control_db \<Rightarrow>
    control_error + bool \<times> string \<times> control_db" where
  "claim_source b retention now k w db =
    (let row = new_dedupe_row b retention k w now in
     if \<not> list_ex (is_source (vb_tenant b) k) (db_dedupe db) then Inr (True, ca_sha (so_value w), db\<lparr>db_dedupe := db_dedupe db @ [row]\<rparr>)
     else case (find (is_source (vb_tenant b) k) (db_dedupe db), find (\<lambda>p. pr_tenant p = vb_tenant b \<and> pr_id p = fst k) (db_projects db)) of
       (Some d, Some _) \<Rightarrow>
         if dedupe_expired now db d then
           (if affected (is_source (vb_tenant b) k) (db_dedupe db) \<noteq> 1 then Inl ErrRetryAccept
            else Inr (True, ca_sha (so_value w), db\<lparr>db_dedupe := update_where (is_source (vb_tenant b) k)
              (\<lambda>x. x\<lparr>de_record := de_record row, de_acceptance := de_acceptance row, de_sha := de_sha row, de_expires := de_expires row, de_created := now\<rparr>) (db_dedupe db)\<rparr>))
         else Inr (False, de_sha d, db)
     | _ \<Rightarrow> Inl ErrRetryAccept)"

definition mark_repeat :: "string \<Rightarrow> receipt_class list list \<Rightarrow> source_occurrence \<Rightarrow> receipt_class list list" where
  "mark_repeat sha classes x = set_class (if ca_sha (so_value x) = sha then ReceiptDuplicate else ReceiptConflict) classes x"

definition select_key :: "verified_batch \<Rightarrow> (int \<times> int) list \<Rightarrow> int \<Rightarrow> receipt_class list list \<times> control_db \<Rightarrow> source_key \<Rightarrow>
    control_error + receipt_class list list \<times> control_db" where
  "select_key b retention now s k =
    (case sortBy (\<lambda>x y. so_global x < so_global y) (map snd (filter (\<lambda>x. fst x = k) (batch_sources b))) of [] \<Rightarrow> Inl ErrPanic
     | w # rest \<Rightarrow> bindR (claim_source b retention now k w (snd s)) (\<lambda>(accepted, sha, db').
         Inr (foldl (mark_repeat sha) (fst s) (if accepted then rest else w # rest), db')))"

definition selectCandidates :: "verified_batch \<Rightarrow> (int \<times> int) list \<Rightarrow> int \<Rightarrow> control_db \<Rightarrow> control_error + receipt_class list list \<times> control_db" where
  "selectCandidates b retention now db =
    foldR (select_key b retention now) (initial_classes b, db) (sortBy source_key_less (remdups (map fst (batch_sources b))))"

subsection \<open>Receipts\<close>

definition lockJournalIntent :: "verified_batch \<Rightarrow> int \<Rightarrow> control_db \<Rightarrow> control_error + unit" where
  "lockJournalIntent b now db =
    (let j = vb_journal b in
     case find (\<lambda>i. in_tenant i = vb_tenant b \<and> in_id i = ia_intent j) (db_intents db) of None \<Rightarrow> Inl ErrIntentStale
     | Some i \<Rightarrow> check (in_installation i = vb_installation b \<and> in_generation i = vb_generation b \<and> in_state i = ''uploaded'' \<and> in_owner i = ia_owner j \<and>
         in_fence i = ia_fence j \<and> in_bytes i = ia_bytes j \<and> in_sha i = ia_sha j \<and> in_uploaded_bytes i = Some (ia_bytes j) \<and> in_uploaded_sha i = Some (ia_sha j) \<and>
         now < in_expires i) ErrIntentStale)"

definition class_count :: "receipt_class \<Rightarrow> receipt_class list \<Rightarrow> int" where
  "class_count k classes = int (length (filter (\<lambda>c. c = k) classes))"

definition receipt_result_of :: "verified_batch \<Rightarrow> int \<Rightarrow> int \<Rightarrow> verified_request \<times> receipt_class list \<Rightarrow> control_error + receipt_result" where
  "receipt_result_of b seq received x = (case x of (q, classes) \<Rightarrow>
    let ix = vq_index q in
    bindR (lift_selection (newReceiptSelection classes)) (\<lambda>selection.
    bindR (lift_selection (selectionSHA256 class_order selection (int (length classes)))) (\<lambda>digest.
      Inr \<lparr>rr_acceptance = ri_acceptance ix, rr_tenant = vb_tenant b, rr_project = ri_project ix, rr_lane = vb_lane b, rr_seq = seq, rr_content = ri_content ix,
        rr_selection = selection, rr_selection_sha = digest, rr_first = ri_first ix, rr_last = ri_last ix, rr_accepted = class_count ReceiptAccepted classes,
        rr_duplicate = class_count ReceiptDuplicate classes, rr_conflict = class_count ReceiptConflict classes,
        rr_unsupported = int (length (ri_unsupported ix)), rr_received = received\<rparr>)))"

definition buildReceiptResults :: "verified_batch \<Rightarrow> receipt_class list list \<Rightarrow> int \<Rightarrow> int \<Rightarrow> control_error + receipt_result list" where
  "buildReceiptResults b classes seq received = mapR (receipt_result_of b seq received) (zip (vb_requests b) classes)"

definition receipt_row_of :: "nat \<Rightarrow> verified_request \<Rightarrow> receipt_result \<Rightarrow> receipt_row" where
  "receipt_row_of index q r = \<lparr>re_acceptance = ri_acceptance (vq_index q), re_tenant = rr_tenant r, re_project = ri_project (vq_index q), re_lane = rr_lane r, re_seq = rr_seq r,
    re_content = ri_content (vq_index q), re_index = int index, re_selection = rr_selection r, re_selection_sha = rr_selection_sha r, re_first = ri_first (vq_index q),
    re_last = ri_last (vq_index q), re_accepted = rr_accepted r, re_duplicate = rr_duplicate r, re_conflict = rr_conflict r,
    re_unsupported = int (length (ri_unsupported (vq_index q))), re_received = rr_received r, re_policy = az_scrub (vq_auth q), re_normalizer = 1, re_gversion = 1, re_dedupe = 1\<rparr>"

text \<open>\<open>receipts\<close> is unique in its identifier and in (tenant, lane, batch, position).\<close>

definition insert_receipt :: "receipt_row \<Rightarrow> control_db \<Rightarrow> control_error + control_db" where
  "insert_receipt r db =
    (if list_ex (\<lambda>x. re_acceptance x = re_acceptance r \<or> re_tenant x = re_tenant r \<and> re_lane x = re_lane r \<and> re_seq x = re_seq r \<and> re_index x = re_index r) (db_receipts db)
     then Inl ErrUnique else Inr (db\<lparr>db_receipts := db_receipts db @ [r]\<rparr>))"

definition insert_outcome :: "string \<Rightarrow> control_db \<Rightarrow> request_outcome \<Rightarrow> control_error + control_db" where
  "insert_outcome acceptance db oc =
    (let category = marshalString (oc_category oc); reason = marshalString (oc_reason oc);
         row = \<lparr>os_acceptance = acceptance, os_item = oc_item oc, os_category = category, os_reason = reason, os_category_sha = sha256 category, os_reason_sha = sha256 reason,
           os_quantity = oc_quantity oc, os_approximate = oc_approximate oc\<rparr> in
     if list_ex (\<lambda>x. os_acceptance x = acceptance \<and> os_item x = os_item row \<and> os_category_sha x = os_category_sha row \<and> os_reason_sha x = os_reason_sha row) (db_outcomes db)
     then Inl ErrOutcomes else Inr (db\<lparr>db_outcomes := db_outcomes db @ [row]\<rparr>))"

definition insert_unsupported :: "string \<Rightarrow> control_db \<Rightarrow> unsupported_item \<Rightarrow> control_error + control_db" where
  "insert_unsupported acceptance db u =
    (if list_ex (\<lambda>x. un_acceptance x = acceptance \<and> un_item x = ui_item u) (db_unsupported db) then Inl ErrUnique
     else Inr (db\<lparr>db_unsupported := db_unsupported db @ [\<lparr>un_acceptance = acceptance, un_item = ui_item u, un_type = marshalString (ui_type u), un_bytes = ui_bytes u\<rparr>]\<rparr>))"

definition insert_request :: "control_db \<Rightarrow> nat \<times> verified_request \<times> receipt_result \<Rightarrow> control_error + control_db" where
  "insert_request db x = (case x of (index, q, r) \<Rightarrow>
    bindR (lift_selection (selectionCanonicalJSON class_order (rr_selection r) (int (length (vq_candidates q))))) (\<lambda>_.
    bindR (insert_receipt (receipt_row_of index q r) db) (\<lambda>db1.
    bindR (checkedOutcomeTotals (ri_outcomes (vq_index q))) (\<lambda>outcomes.
    bindR (foldR (insert_outcome (request_id q)) db1 outcomes) (\<lambda>db2.
      foldR (insert_unsupported (request_id q)) db2 (ri_unsupported (vq_index q)))))))"

definition insertReceiptsAndDiagnostics :: "verified_batch \<Rightarrow> receipt_result list \<Rightarrow> control_db \<Rightarrow> control_error + control_db" where
  "insertReceiptsAndDiagnostics b results db = foldR insert_request db (enumerate 0 (zip (vb_requests b) results))"

subsection \<open>The transaction\<close>

definition batch_row_of :: "verified_batch \<Rightarrow> receipt_result list \<Rightarrow> int \<Rightarrow> int \<Rightarrow> batch_row" where
  "batch_row_of b results seq received =
    (let a = sum_list (map rr_accepted results); d = sum_list (map rr_duplicate results); c = sum_list (map rr_conflict results) in
     \<lparr>ba_tenant = vb_tenant b, ba_lane = vb_lane b, ba_seq = seq, ba_state = ''accepted'', ba_journal_sha = ia_sha (vb_journal b), ba_accepted = a, ba_id = vb_batch b,
      ba_intent = ia_intent (vb_journal b), ba_requests = int (length (vb_requests b)), ba_received = received, ba_records = a + d + c, ba_duplicate = d, ba_conflict = c, ba_recovery = ''live''\<rparr>)"

text \<open>\<open>ingest_batches\<close> is unique in (tenant, lane, sequence), in its identifier and in its journal.\<close>

definition insert_batch :: "batch_row \<Rightarrow> control_db \<Rightarrow> control_error + control_db" where
  "insert_batch r db =
    (if list_ex (\<lambda>x. ba_tenant x = ba_tenant r \<and> ba_lane x = ba_lane r \<and> ba_seq x = ba_seq r \<or> ba_id x = ba_id r \<or> ba_intent x = ba_intent r) (db_batches db)
     then Inl ErrUnique else Inr (db\<lparr>db_batches := db_batches db @ [r]\<rparr>))"

definition job_row_of :: "verified_batch \<Rightarrow> int \<Rightarrow> int \<Rightarrow> job_row" where
  "job_row_of b seq now = \<lparr>jo_id = vb_job b, jo_kind = ''convert'', jo_tenant = vb_tenant b, jo_lane = vb_lane b, jo_seq = seq, jo_state = ''queued'', jo_attempt = 0, jo_fence = 0,
    jo_generation = vb_generation b, jo_owner = None, jo_lease = None, jo_retry = now, jo_created = now, jo_updated = now, jo_output = None\<rparr>"

text \<open>\<open>jobs\<close> is unique in its identifier and in (kind, tenant, lane, sequence).\<close>

definition insert_job :: "job_row \<Rightarrow> control_db \<Rightarrow> control_error + control_db" where
  "insert_job j db =
    (if list_ex (\<lambda>x. jo_id x = jo_id j \<or> jo_kind x = jo_kind j \<and> jo_tenant x = jo_tenant j \<and> jo_lane x = jo_lane j \<and> jo_seq x = jo_seq j) (db_jobs db)
     then Inl ErrUnique else Inr (db\<lparr>db_jobs := db_jobs db @ [j]\<rparr>))"

definition reference_journal :: "verified_batch \<Rightarrow> int \<Rightarrow> control_db \<Rightarrow> control_error + control_db" where
  "reference_journal b now db =
    (let P = (\<lambda>i. in_id i = ia_intent (vb_journal b) \<and> in_tenant i = vb_tenant b \<and> in_state i = ''uploaded'' \<and> in_owner i = ia_owner (vb_journal b) \<and>
       in_fence i = ia_fence (vb_journal b)) in
     if affected P (db_intents db) \<noteq> 1 then Inl ErrIntentStale
     else Inr (db\<lparr>db_intents := update_where P (\<lambda>i. i\<lparr>in_state := ''referenced'', in_updated := now\<rparr>) (db_intents db)\<rparr>))"

definition extend_lane :: "verified_batch \<Rightarrow> int \<Rightarrow> int \<Rightarrow> int \<Rightarrow> control_db \<Rightarrow> control_error + control_db" where
  "extend_lane b old seq received db =
    (let P = (\<lambda>l. la_tenant l = vb_tenant b \<and> la_id l = vb_lane b \<and> la_accepted l = old) in
     if affected P (db_lanes db) \<noteq> 1 then Inl ErrRetryAccept
     else Inr (db\<lparr>db_lanes := update_where P (\<lambda>l. l\<lparr>la_accepted := seq, la_received := received\<rparr>) (db_lanes db)\<rparr>))"

definition accept_fresh :: "verified_batch \<Rightarrow> (int \<times> int) list \<Rightarrow> int \<Rightarrow> lane_row \<Rightarrow> control_db \<Rightarrow> control_error + receipt_result list \<times> control_db" where
  "accept_fresh b retention now l db =
    bindR (selectCandidates b retention now db) (\<lambda>(classes, db1).
    bindR (lockJournalIntent b now db1) (\<lambda>_.
      let received = max now (la_received l); seq = la_accepted l + 1 in
      bindR (buildReceiptResults b classes seq received) (\<lambda>results.
      bindR (insert_batch (batch_row_of b results seq received) db1) (\<lambda>db2.
      bindR (insertReceiptsAndDiagnostics b results db2) (\<lambda>db3.
      bindR (insert_job (job_row_of b seq now) db3) (\<lambda>db4.
      bindR (reference_journal b now db4) (\<lambda>db5.
      bindR (extend_lane b (la_accepted l) seq received db5) (\<lambda>db6. Inr (results, db6)))))))))"

text \<open>
  \<open>acceptOnce\<close> up to its commit. The receipts are looked up twice: first in \<open>before\<close>, the state in which
  the tenant and the authorities are locked, and again in \<open>db\<close>, the state in which the lane is locked.
  Between the two another transaction can commit on the same lane.
\<close>

definition after_lookup :: "receipt_result list \<times> string list \<Rightarrow> control_db \<Rightarrow> (accept_error + receipt_result list \<times> control_db) \<Rightarrow> accept_error + receipt_result list \<times> control_db" where
  "after_lookup found db rest =
    (if snd found = [] then Inr (fst found, db) else if fst found \<noteq> [] then Inl (AcceptSubset (fst found) (snd found)) else rest)"

definition accept_locked :: "verified_batch \<Rightarrow> (int \<times> int) list \<Rightarrow> int \<Rightarrow> control_db \<Rightarrow> accept_error + receipt_result list \<times> control_db" where
  "accept_locked b retention now db =
    (case find (\<lambda>l. la_tenant l = vb_tenant b \<and> la_id l = vb_lane b) (db_lanes db) of None \<Rightarrow> Inl (AcceptFailed ErrNoRows)
     | Some l \<Rightarrow>
       if la_accepted l = maxInt64 then Inl (AcceptFailed ErrSequenceOverflow)
       else bindR (lift_control (lookupAndClassify b db)) (\<lambda>found.
         after_lookup found db (lift_control (accept_fresh b retention now l db))))"

definition accept_transaction :: "verified_batch \<Rightarrow> int \<Rightarrow> control_db \<Rightarrow> control_db \<Rightarrow> accept_error + receipt_result list \<times> control_db" where
  "accept_transaction b now before db =
    (if db_installation before \<noteq> vb_installation b \<or> db_generation before \<noteq> vb_generation b then Inl (AcceptFailed ErrAuthorizationStale)
     else case find (\<lambda>t. tn_id t = vb_tenant b) (db_tenants before) of None \<Rightarrow> Inl (AcceptFailed ErrNoRows)
     | Some t \<Rightarrow>
       if tn_state t \<noteq> ''active'' then Inl (AcceptFailed ErrTenantDisabled)
       else bindR (lift_control (lookupAndClassify b before)) (\<lambda>found.
         after_lookup found db
           (bindR (lockProjectAuthorities b (tn_revision t) before) (\<lambda>retention. accept_locked b retention now db))))"

text \<open>
  An attempt: the database aborts the transaction with a retryable code, or it runs. A commit that
  reports an error may still have taken effect: the receipts are looked up in the state found then.
\<close>

datatype accept_attempt = Aborted | Ran int control_db control_db | CommitLost int control_db control_db control_db

definition confirmAfterCommitError :: "verified_batch \<Rightarrow> control_db \<Rightarrow> accept_error + receipt_result list" where
  "confirmAfterCommitError b db =
    lift_control (bindR (lookupReceipts (vb_requests b) db) (\<lambda>found.
      bindR (classifyExisting b found) (\<lambda>(_, missing). if missing = [] then Inr (orderedResults (vb_requests b) found) else Inl ErrCommit)))"

definition acceptOnce :: "verified_batch \<Rightarrow> accept_attempt \<Rightarrow> (accept_error + receipt_result list) \<times> control_db option" where
  "acceptOnce b a =
    (case a of Aborted \<Rightarrow> (Inl (AcceptFailed ErrDatabaseRetry), None)
     | Ran now before db \<Rightarrow> (case accept_transaction b now before db of Inl e \<Rightarrow> (Inl e, Some db) | Inr (rs, db') \<Rightarrow> (Inr rs, Some db'))
     | CommitLost now before db later \<Rightarrow>
         (case accept_transaction b now before db of Inl e \<Rightarrow> (Inl e, Some db) | Inr _ \<Rightarrow> (confirmAfterCommitError b later, Some later)))"

definition retryableAcceptError :: "accept_error \<Rightarrow> bool" where
  "retryableAcceptError e = (e = AcceptFailed ErrRetryAccept \<or> e = AcceptFailed ErrDatabaseRetry)"

definition maxAcceptAttempts :: nat where
  "maxAcceptAttempts = 3"

fun accept_attempts :: "nat \<Rightarrow> verified_batch \<Rightarrow> accept_attempt list \<Rightarrow> (accept_error + receipt_result list) \<times> control_db option" where
  "accept_attempts n b [] = (Inl (AcceptFailed ErrRetryAccept), None)"
| "accept_attempts n b (a # as) =
    (case acceptOnce b a of (Inr rs, db) \<Rightarrow> (Inr rs, db)
     | (Inl e, db) \<Rightarrow> if \<not> retryableAcceptError e \<or> n + 1 = maxAcceptAttempts then (Inl e, db) else accept_attempts (n + 1) b as)"

text \<open>\<open>accept\<close>: the list holds what happens in each attempt.\<close>

definition accept :: "verified_batch \<Rightarrow> accept_attempt list \<Rightarrow> (accept_error + receipt_result list) \<times> control_db option" where
  "accept b as = (case validateVerifiedBatch b of Inl e \<Rightarrow> (Inl (AcceptFailed e), None) | Inr _ \<Rightarrow> accept_attempts 0 b (take maxAcceptAttempts as))"

end
