(* ===== verification/AcceptFacts.thy ===== *)
theory AcceptFacts
  imports Accept
begin

section \<open>What accepting a batch does\<close>

text \<open>
  Deduplication agrees with a reference classification, and acceptance is idempotent: the facts
  about \<open>selectCandidates\<close>, \<open>lookupAndClassify\<close> and the whole transaction.
\<close>

subsection \<open>Valid batches\<close>

fun contiguous :: "int \<Rightarrow> verified_request list \<Rightarrow> bool" where
  "contiguous p [] = True"
| "contiguous p (q # qs) = (ri_first (vq_index q) = p \<and> ri_last (vq_index q) = p + int (length (vq_candidates q)) - 1 \<and> contiguous (p + int (length (vq_candidates q))) qs)"

lemma validate_requests:
  assumes "foldR (validate_request lane) (seen, p) qs = Inr s"
  shows "distinct (map request_id qs) \<and> set seen \<inter> request_id ` set qs = {} \<and> contiguous p qs \<and>
    list_all (\<lambda>q. list_all (\<lambda>(local, c). candidate_ok local c) (enumerate 0 (vq_candidates q)) \<and> (\<exists>ocs. checkedOutcomeTotals (ri_outcomes (vq_index q)) = Inr ocs)) qs"
  using assms
proof (induction qs arbitrary: seen p)
  case (Cons q qs)
  let ?ix = "vq_index q" and ?n = "int (length (vq_candidates q))"
  obtain s1 where s1: "validate_request lane (seen, p) q = Inr s1" "foldR (validate_request lane) s1 qs = Inr s" using Cons.prems by (auto simp: bindR_eq_Inr)
  have q: "s1 = (ri_acceptance ?ix # seen, p + ?n)" "ri_acceptance ?ix \<notin> set seen" "ri_first ?ix = p" "ri_last ?ix = p + ?n - 1"
    "list_all (\<lambda>(local, c). candidate_ok local c) (enumerate 0 (vq_candidates q))" "\<exists>ocs. checkedOutcomeTotals (ri_outcomes ?ix) = Inr ocs"
    using s1(1) by (auto simp: validate_request_def Let_def split: if_splits sum.splits)
  show ?case using Cons.IH [OF s1(2) [unfolded q(1)]] q by (auto simp: request_id_def)
qed simp

definition batch_valid :: "verified_batch \<Rightarrow> bool" where
  "batch_valid b = (distinct (map request_id (vb_requests b)) \<and> contiguous 0 (vb_requests b) \<and> vb_requests b \<noteq> [] \<and>
    list_all (\<lambda>q. list_all (\<lambda>(local, c). candidate_ok local c) (enumerate 0 (vq_candidates q)) \<and> (\<exists>ocs. checkedOutcomeTotals (ri_outcomes (vq_index q)) = Inr ocs)) (vb_requests b))"

lemma validate_batch: "validateVerifiedBatch b = Inr u \<Longrightarrow> batch_valid b"
  using validate_requests [of "vb_lane b" "[]" 0 "vb_requests b"] by (auto simp: validateVerifiedBatch_def batch_valid_def Let_def bindR_eq_Inr split: if_splits)

lemma contiguous_range: "contiguous p qs \<Longrightarrow> q \<in> set qs \<Longrightarrow> ri_last (vq_index q) - ri_first (vq_index q) + 1 = int (length (vq_candidates q))"
  by (induction qs arbitrary: p) auto

subsection \<open>The sources of a batch in order\<close>

definition pos :: "source_occurrence \<Rightarrow> nat \<times> nat" where
  "pos x = (so_request x, so_local x)"

lemma request_sources_sorted:
  "sorted_wrt (\<lambda>x y. so_global (snd x) < so_global (snd y)) (request_sources (r, q))"
  unfolding request_sources_def by (auto simp: sorted_wrt_map enumerate_eq_zip intro!: sorted_wrt_filter) (auto simp: sorted_wrt_iff_nth_less)

lemma request_sources_mem:
  "(k, x) \<in> set (request_sources (r, q)) \<longleftrightarrow> so_request x = r \<and> so_local x < length (vq_candidates q) \<and> so_global x = ri_first (vq_index q) + int (so_local x) \<and>
     so_value x = vq_candidates q ! so_local x \<and> ca_source (so_value x) \<noteq> [] \<and> k = source_key_of q (so_value x)"
  by (cases x) (auto simp: request_sources_def in_set_enumerate_eq image_iff)

lemma sources_sorted:
  assumes "contiguous p qs"
  shows "sorted_wrt (\<lambda>x y. so_global (snd x) < so_global (snd y)) (concat (map request_sources (enumerate r qs))) \<and>
    (\<forall>x \<in> set (concat (map request_sources (enumerate r qs))). p \<le> so_global (snd x))"
  using assms
proof (induction qs arbitrary: p r)
  case (Cons q qs)
  let ?n = "int (length (vq_candidates q))"
  note IH = Cons.IH [of "p + ?n" "Suc r"]
  have first: "p \<le> so_global (snd x) \<and> so_global (snd x) < p + ?n" if "x \<in> set (request_sources (r, q))" for x
    using that Cons.prems request_sources_mem [of "fst x" "snd x" r q] by simp
  show ?case using IH Cons.prems first request_sources_sorted [of r q] by (fastforce simp: sorted_wrt_append)
qed simp

lemma batch_sources_mem:
  "(k, x) \<in> set (batch_sources b) \<longleftrightarrow> so_request x < length (vb_requests b) \<and> so_local x < length (vq_candidates (vb_requests b ! so_request x)) \<and>
     so_global x = ri_first (vq_index (vb_requests b ! so_request x)) + int (so_local x) \<and> so_value x = vq_candidates (vb_requests b ! so_request x) ! so_local x \<and>
     ca_source (so_value x) \<noteq> [] \<and> k = source_key_of (vb_requests b ! so_request x) (so_value x)"
proof -
  have "(k, x) \<in> set (batch_sources b) \<longleftrightarrow> (\<exists>r q. (r, q) \<in> set (enumerate 0 (vb_requests b)) \<and> (k, x) \<in> set (request_sources (r, q)))"
    by (auto simp: batch_sources_def)
  also have "\<dots> \<longleftrightarrow> (\<exists>r < length (vb_requests b). (k, x) \<in> set (request_sources (r, vb_requests b ! r)))" by (auto simp: in_set_enumerate_eq)
  also have "\<dots> \<longleftrightarrow> so_request x < length (vb_requests b) \<and> (k, x) \<in> set (request_sources (so_request x, vb_requests b ! so_request x))"
    by (auto simp: request_sources_mem)
  finally show ?thesis by (simp add: request_sources_mem)
qed

lemma batch_sources_pos:
  assumes "(k, x) \<in> set (batch_sources b)" "(k', y) \<in> set (batch_sources b)" "pos x = pos y"
  shows "x = y \<and> k = k'"
  using assms by (cases x; cases y) (auto simp: batch_sources_mem pos_def)

definition group :: "verified_batch \<Rightarrow> source_key \<Rightarrow> source_occurrence list" where
  "group b k = map snd (filter (\<lambda>x. fst x = k) (batch_sources b))"

lemma group_sorted:
  assumes "batch_valid b"
  shows "sortBy (\<lambda>x y. so_global x < so_global y) (group b k) = group b k"
proof (rule sortBy_id)
  have "sorted_wrt (\<lambda>x y. so_global (snd x) < so_global (snd y)) (batch_sources b)"
    using sources_sorted [of 0 "vb_requests b" 0] assms by (simp add: batch_valid_def batch_sources_def)
  then have "sorted_wrt (\<lambda>x y. so_global (snd x) < so_global (snd y)) (filter (\<lambda>x. fst x = k) (batch_sources b))" by (rule sorted_wrt_filter)
  then show "sorted_wrt (\<lambda>a b. \<not> so_global b < so_global a) (group b k)" unfolding group_def by (auto simp: sorted_wrt_map elim: sorted_wrt_mono_rel [rotated])
qed

lemma distinct_group:
  assumes "batch_valid b"
  shows "distinct (map pos (group b k))"
proof -
  have "sorted_wrt (\<lambda>x y. so_global (snd x) < so_global (snd y)) (batch_sources b)"
    using sources_sorted [of 0 "vb_requests b" 0] assms by (simp add: batch_valid_def batch_sources_def)
  then have "distinct (batch_sources b)" by (auto simp: distinct_conv_nth sorted_wrt_iff_nth_less) (metis less_irrefl linorder_neqE_nat)
  then show ?thesis unfolding group_def using batch_sources_pos by (auto simp: distinct_map inj_on_def)
qed

subsection \<open>Writing the classes\<close>

definition shape :: "receipt_class list list \<Rightarrow> nat list" where
  "shape classes = map length classes"

definition in_shape :: "nat list \<Rightarrow> source_occurrence \<Rightarrow> bool" where
  "in_shape ns x = (so_request x < length ns \<and> so_local x < ns ! so_request x)"

definition class_at :: "receipt_class list list \<Rightarrow> source_occurrence \<Rightarrow> receipt_class" where
  "class_at classes x = classes ! so_request x ! so_local x"

definition repeat_class :: "string \<Rightarrow> source_occurrence \<Rightarrow> receipt_class" where
  "repeat_class sha x = (if ca_sha (so_value x) = sha then ReceiptDuplicate else ReceiptConflict)"

lemma shape_set_class [simp]: "shape (set_class k classes x) = shape classes"
proof -
  have "length (set_class k classes x ! i) = length (classes ! i)" if "i < length classes" for i
    using that by (cases "i = so_request x") (simp_all add: set_class_def)
  then show ?thesis by (simp add: shape_def set_class_def list_eq_iff_nth_eq)
qed

lemma class_at_set_class:
  assumes "in_shape (shape classes) x"
  shows "class_at (set_class k classes x) y = (if pos y = pos x then k else class_at classes y)"
  using assms by (auto simp: class_at_def set_class_def in_shape_def shape_def pos_def nth_list_update)

lemma mark_all:
  assumes "list_all (in_shape (shape classes)) xs" "distinct (map pos xs)"
  shows "shape (foldl (mark_repeat sha) classes xs) = shape classes \<and>
    (\<forall>x \<in> set xs. class_at (foldl (mark_repeat sha) classes xs) x = repeat_class sha x) \<and>
    (\<forall>y. pos y \<notin> pos ` set xs \<longrightarrow> class_at (foldl (mark_repeat sha) classes xs) y = class_at classes y)"
  using assms
proof (induction xs arbitrary: classes)
  case (Cons x xs)
  let ?c = "mark_repeat sha classes x"
  have sh: "shape ?c = shape classes" by (simp add: mark_repeat_def)
  have at: "class_at ?c y = (if pos y = pos x then repeat_class sha x else class_at classes y)" for y
    unfolding mark_repeat_def repeat_class_def by (rule class_at_set_class) (use Cons.prems in simp)
  have "list_all (in_shape (shape ?c)) xs" "distinct (map pos xs)" using Cons.prems sh by simp_all
  note IH = Cons.IH [OF this]
  have "pos x \<notin> pos ` set xs" using Cons.prems(2) by simp
  then show ?case using IH sh at by (simp add: image_iff)
qed simp

subsection \<open>The reference classification\<close>

text \<open>
  What the class of a record with a source identifier should be: judged against the stored row of
  the identifier while that row is live, and otherwise against the first occurrence in the batch,
  which is accepted.
\<close>

definition live_row :: "verified_batch \<Rightarrow> int \<Rightarrow> control_db \<Rightarrow> source_key \<Rightarrow> dedupe_row option" where
  "live_row b now db k = (case find (is_source (vb_tenant b) k) (db_dedupe db) of None \<Rightarrow> None | Some d \<Rightarrow> if dedupe_expired now db d then None else Some d)"

definition reference_class :: "verified_batch \<Rightarrow> int \<Rightarrow> control_db \<Rightarrow> source_key \<Rightarrow> source_occurrence \<Rightarrow> receipt_class" where
  "reference_class b now db k x =
    (case live_row b now db k of
       Some d \<Rightarrow> repeat_class (de_sha d) x
     | None \<Rightarrow> let w = hd (group b k) in if pos x = pos w then ReceiptAccepted else repeat_class (ca_sha (so_value w)) x)"

definition row_after :: "verified_batch \<Rightarrow> int \<Rightarrow> control_db \<Rightarrow> source_key \<Rightarrow> dedupe_row \<Rightarrow> bool" where
  "row_after b now db k d =
    (case live_row b now db k of Some old \<Rightarrow> d = old
     | None \<Rightarrow> let w = hd (group b k) in de_created d = now \<and> de_sha d = ca_sha (so_value w) \<and> de_record d = ca_record (so_value w) \<and>
         de_acceptance d = request_id (vb_requests b ! so_request w))"

lemma is_source_unique: "is_source t k d \<Longrightarrow> is_source t k' d \<longleftrightarrow> k' = k"
  by (cases k; cases k') (auto simp: is_source_def)

lemma find_append: "find P (xs @ ys) = (case find P xs of None \<Rightarrow> find P ys | Some x \<Rightarrow> Some x)"
  by (induction xs) auto

lemma claim_source_cases:
  assumes "claim_source b retention now k w db = Inr (accepted, sha, db')"
  obtains (claimed) rows d where "accepted" "sha = ca_sha (so_value w)" "live_row b now db k = None" "db' = db\<lparr>db_dedupe := rows\<rparr>"
      "find (is_source (vb_tenant b) k) rows = Some d" "de_created d = now" "de_sha d = sha" "de_record d = ca_record (so_value w)"
      "de_acceptance d = request_id (vb_requests b ! so_request w)"
      "\<And>t k'. (t, k') \<noteq> (vb_tenant b, k) \<Longrightarrow> find (is_source t k') rows = find (is_source t k') (db_dedupe db)"
  | (held) d where "\<not> accepted" "live_row b now db k = Some d" "sha = de_sha d" "db' = db"
proof -
  let ?P = "is_source (vb_tenant b) k" and ?row = "new_dedupe_row b retention k w now"
  have row: "?P ?row" by (simp add: is_source_def new_dedupe_row_def)
  have other: "\<not> is_source t k' d" if "?P d" "(t, k') \<noteq> (vb_tenant b, k)" for t k' d using that by (cases k; cases k') (auto simp: is_source_def)
  show thesis
  proof (cases "find ?P (db_dedupe db)")
    case None
    then have none: "\<not> list_ex ?P (db_dedupe db)" by (auto simp: find_None_iff list_ex_iff)
    then have eq: "accepted" "sha = ca_sha (so_value w)" "db' = db\<lparr>db_dedupe := db_dedupe db @ [?row]\<rparr>" using assms by (auto simp: claim_source_def Let_def)
    show thesis
    proof (rule claimed [OF eq(1,2) _ eq(3)])
      show "find ?P (db_dedupe db @ [?row]) = Some ?row" using None row by (simp add: find_append)
      show "live_row b now db k = None" using None by (simp add: live_row_def)
    qed (insert other [OF row], auto simp: eq new_dedupe_row_def find_append split: option.splits)
  next
    case (Some d)
    then have some: "list_ex ?P (db_dedupe db)" using find_SomeD by (fastforce simp: list_ex_iff)
    show thesis
    proof (cases "dedupe_expired now db d")
      case False
      then have "\<not> accepted" "sha = de_sha d" "db' = db" using assms Some some by (auto simp: claim_source_def Let_def split: option.splits)
      then show thesis using held Some False by (simp add: live_row_def)
    next
      case True
      let ?f = "\<lambda>x. x\<lparr>de_record := de_record ?row, de_acceptance := de_acceptance ?row, de_sha := de_sha ?row, de_expires := de_expires ?row, de_created := now\<rparr>"
      have eq: "accepted" "sha = ca_sha (so_value w)" "db' = db\<lparr>db_dedupe := update_where ?P ?f (db_dedupe db)\<rparr>"
        using assms Some some True by (auto simp: claim_source_def Let_def split: option.splits if_splits)
      have keep: "is_source t k' (?f x) = is_source t k' x" for t k' x by (simp add: is_source_def)
      have upd: "find (is_source t k') (update_where ?P ?f (db_dedupe db)) = map_option (\<lambda>r. if ?P r then ?f r else r) (find (is_source t k') (db_dedupe db))" for t k'
        by (rule find_update_where) (simp add: keep)
      have d: "?P d" using find_SomeD [OF Some] by simp
      show thesis
      proof (rule claimed [OF eq(1,2) _ eq(3), of "?f d"])
        show "find ?P (update_where ?P ?f (db_dedupe db)) = Some (?f d)" using upd Some d by simp
        show "live_row b now db k = None" using Some True by (simp add: live_row_def)
        show "find (is_source t k') (update_where ?P ?f (db_dedupe db)) = find (is_source t k') (db_dedupe db)" if "(t, k') \<noteq> (vb_tenant b, k)" for t k'
          using upd [of t k'] other [OF _ that] find_SomeD [of "is_source t k'" "db_dedupe db"] by (cases "find (is_source t k') (db_dedupe db)") auto
      qed (simp_all add: eq new_dedupe_row_def)
    qed
  qed
qed

lemma group_mem: "x \<in> set (group b k) \<longleftrightarrow> (k, x) \<in> set (batch_sources b)"
  by (force simp: group_def)

lemma group_shape: "x \<in> set (group b k) \<Longrightarrow> in_shape (shape (initial_classes b)) x"
  by (auto simp: group_mem batch_sources_mem in_shape_def shape_def initial_classes_def)

lemma select_key_step:
  assumes "batch_valid b" "select_key b retention now (cs, db) k = Inr (cs', db')" "shape cs = shape (initial_classes b)"
    "\<forall>x \<in> set (group b k). class_at cs x = ReceiptAccepted"
  obtains rows d where "db' = db\<lparr>db_dedupe := rows\<rparr>" "shape cs' = shape cs" "\<forall>x \<in> set (group b k). class_at cs' x = reference_class b now db k x"
    "\<forall>y. pos y \<notin> pos ` set (group b k) \<longrightarrow> class_at cs' y = class_at cs y" "find (is_source (vb_tenant b) k) rows = Some d" "row_after b now db k d"
    "\<And>t k'. (t, k') \<noteq> (vb_tenant b, k) \<Longrightarrow> find (is_source t k') rows = find (is_source t k') (db_dedupe db)"
proof -
  obtain w rest where g: "group b k = w # rest"
    using assms(2) group_sorted [OF assms(1), of k] by (cases "group b k") (auto simp: select_key_def group_def [symmetric])
  obtain accepted sha where c: "claim_source b retention now k w db = Inr (accepted, sha, db')" "cs' = foldl (mark_repeat sha) cs (if accepted then rest else w # rest)"
    using assms(2) group_sorted [OF assms(1), of k] g by (auto simp: select_key_def group_def [symmetric] bindR_eq_Inr)
  have dist: "distinct (map pos (w # rest))" using distinct_group [OF assms(1), of k] g by simp
  have inside: "list_all (in_shape (shape cs)) (w # rest)" using group_shape [of _ b k] assms(3) g by (auto simp: list_all_iff)
  show thesis using c(1)
  proof (cases rule: claim_source_cases)
    case (claimed rows d)
    have "list_all (in_shape (shape cs)) rest" "distinct (map pos rest)" using inside dist by simp_all
    note m = mark_all [OF this, of sha]
    have cs': "cs' = foldl (mark_repeat sha) cs rest" using c(2) claimed(1) by simp
    have w: "class_at cs' w = ReceiptAccepted" using m dist assms(4) g unfolding cs' by (simp add: image_iff)
    have ref: "class_at cs' x = reference_class b now db k x" if "x \<in> set (group b k)" for x
    proof (cases "x = w")
      case True
      then show ?thesis using w claimed(3) g by (simp add: reference_class_def)
    next
      case False
      then have x: "x \<in> set rest" "pos x \<noteq> pos w" using that g dist by (auto simp: image_iff)
      then have "class_at cs' x = repeat_class sha x" using m cs' by simp
      then show ?thesis using claimed(2,3) g x(2) by (simp add: reference_class_def)
    qed
    have row: "row_after b now db k d" using claimed(2,3,6-9) g by (simp add: row_after_def)
    have sh: "shape cs' = shape cs" and oth: "\<forall>y. pos y \<notin> pos ` set (group b k) \<longrightarrow> class_at cs' y = class_at cs y" using m g unfolding cs' by simp_all
    show thesis by (rule that [OF claimed(4) sh _ oth claimed(5) row]) (use ref claimed(10) in blast)+
  next
    case (held d)
    note m = mark_all [OF inside dist, of sha]
    have cs': "cs' = foldl (mark_repeat sha) cs (w # rest)" using c(2) held(1) by simp
    have f: "find (is_source (vb_tenant b) k) (db_dedupe db) = Some d" using held(2) by (auto simp: live_row_def split: option.splits if_splits)
    show thesis
    proof (rule that [of "db_dedupe db" d])
      show "\<forall>x \<in> set (group b k). class_at cs' x = reference_class b now db k x" using m held(2,3) g unfolding cs' by (simp add: reference_class_def)
    qed (insert m held f g cs', simp_all add: row_after_def)
  qed
qed

lemma live_row_cong:
  assumes "find (is_source (vb_tenant b) k) rows = find (is_source (vb_tenant b) k) (db_dedupe db)"
  shows "live_row b now (db\<lparr>db_dedupe := rows\<rparr>) k = live_row b now db k"
  using assms by (simp add: live_row_def dedupe_expired_def split: option.splits)

lemma groups_disjoint: "x \<in> set (group b k) \<Longrightarrow> k \<noteq> k' \<Longrightarrow> pos x \<notin> pos ` set (group b k')"
  by (metis (no_types, lifting) group_mem imageE batch_sources_pos)

lemma select_keys:
  assumes "batch_valid b" "foldR (select_key b retention now) (cs, db) ks = Inr (cs', db')" "distinct ks" "shape cs = shape (initial_classes b)"
    "\<forall>k \<in> set ks. \<forall>x \<in> set (group b k). class_at cs x = ReceiptAccepted"
  shows "\<exists>rows. db' = db\<lparr>db_dedupe := rows\<rparr> \<and> shape cs' = shape cs \<and>
    (\<forall>k \<in> set ks. \<forall>x \<in> set (group b k). class_at cs' x = reference_class b now db k x) \<and>
    (\<forall>y. (\<forall>k \<in> set ks. pos y \<notin> pos ` set (group b k)) \<longrightarrow> class_at cs' y = class_at cs y) \<and>
    (\<forall>k \<in> set ks. \<exists>d. find (is_source (vb_tenant b) k) rows = Some d \<and> row_after b now db k d) \<and>
    (\<forall>t k'. \<not> (t = vb_tenant b \<and> k' \<in> set ks) \<longrightarrow> find (is_source t k') rows = find (is_source t k') (db_dedupe db))"
  using assms(2-)
proof (induction ks arbitrary: cs db)
  case (Cons k ks)
  let ?t = "vb_tenant b"
  obtain cs1 db1 where s: "select_key b retention now (cs, db) k = Inr (cs1, db1)" "foldR (select_key b retention now) (cs1, db1) ks = Inr (cs', db')"
    using Cons.prems(1) by (auto simp: bindR_eq_Inr)
  have k: "k \<notin> set ks" "distinct ks" using Cons.prems(2) by simp_all
  have "\<forall>x \<in> set (group b k). class_at cs x = ReceiptAccepted" using Cons.prems(4) by simp
  from select_key_step [OF assms(1) s(1) Cons.prems(3) this] obtain rows1 d where
    one: "db1 = db\<lparr>db_dedupe := rows1\<rparr>" "shape cs1 = shape cs" "\<forall>x \<in> set (group b k). class_at cs1 x = reference_class b now db k x"
    "\<forall>y. pos y \<notin> pos ` set (group b k) \<longrightarrow> class_at cs1 y = class_at cs y" "find (is_source ?t k) rows1 = Some d" "row_after b now db k d"
    "\<And>t k'. (t, k') \<noteq> (?t, k) \<Longrightarrow> find (is_source t k') rows1 = find (is_source t k') (db_dedupe db)" by blast
  have acc: "\<forall>k' \<in> set ks. \<forall>x \<in> set (group b k'). class_at cs1 x = ReceiptAccepted"
  proof (intro ballI)
    fix k' x assume a: "k' \<in> set ks" "x \<in> set (group b k')"
    then have "pos x \<notin> pos ` set (group b k)" using groups_disjoint [OF a(2)] k(1) by metis
    then show "class_at cs1 x = ReceiptAccepted" using one(4) Cons.prems(4) a by simp
  qed
  have live: "live_row b now db1 k' = live_row b now db k'" if "k' \<noteq> k" for k' unfolding one(1) by (rule live_row_cong) (use one(7) that in simp)
  have ref: "reference_class b now db1 k' = reference_class b now db k'" "row_after b now db1 k' = row_after b now db k'" if "k' \<noteq> k" for k'
    using live [OF that] by (simp_all add: reference_class_def row_after_def fun_eq_iff)
  have "shape cs1 = shape (initial_classes b)" using one(2) Cons.prems(3) by simp
  from Cons.IH [OF s(2) k(2) this acc] obtain rows where
    two: "db' = db1\<lparr>db_dedupe := rows\<rparr>" "shape cs' = shape cs1" "\<forall>k' \<in> set ks. \<forall>x \<in> set (group b k'). class_at cs' x = reference_class b now db1 k' x"
    "\<forall>y. (\<forall>k' \<in> set ks. pos y \<notin> pos ` set (group b k')) \<longrightarrow> class_at cs' y = class_at cs1 y"
    "\<forall>k' \<in> set ks. \<exists>d. find (is_source ?t k') rows = Some d \<and> row_after b now db1 k' d"
    "\<forall>t k'. \<not> (t = ?t \<and> k' \<in> set ks) \<longrightarrow> find (is_source t k') rows = find (is_source t k') (db_dedupe db1)" by blast
  have first: "class_at cs' x = reference_class b now db k x" if "x \<in> set (group b k)" for x
  proof -
    have "\<forall>k' \<in> set ks. pos x \<notin> pos ` set (group b k')" using groups_disjoint [OF that] k(1) by metis
    then show ?thesis using two(4) one(3) that by simp
  qed
  have rest: "class_at cs' x = reference_class b now db k' x" if "k' \<in> set ks" "x \<in> set (group b k')" for k' x using two(3) that ref(1) [of k'] k(1) by metis
  have "find (is_source ?t k) rows = Some d" using two(6) [rule_format, of ?t k] k(1) one(1,5) by simp
  moreover have "\<exists>d. find (is_source ?t k') rows = Some d \<and> row_after b now db k' d" if "k' \<in> set ks" for k' using two(5) that ref(2) [of k'] k(1) by metis
  ultimately have found: "\<forall>k' \<in> set (k # ks). \<exists>d. find (is_source ?t k') rows = Some d \<and> row_after b now db k' d" using one(6) by auto
  have kept: "find (is_source t k') rows = find (is_source t k') (db_dedupe db)" if "\<not> (t = ?t \<and> k' \<in> set (k # ks))" for t k'
    using two(6) [rule_format, of t k'] one(7) [of t k'] one(1) that by auto
  have un: "class_at cs' y = class_at cs y" if "\<forall>k' \<in> set (k # ks). pos y \<notin> pos ` set (group b k')" for y using two(4) one(4) that by simp
  have "\<forall>k' \<in> set (k # ks). \<forall>x \<in> set (group b k'). class_at cs' x = reference_class b now db k' x" using first rest by simp
  then show ?case using two(1,2) one(1,2) found kept un by (intro exI [of _ rows]) simp
next
  case Nil
  then have "db' = db" "cs' = cs" by simp_all
  then show ?case by (intro exI [of _ "db_dedupe db"]) simp
qed

lemma selected:
  assumes "batch_valid b" "selectCandidates b retention now db = Inr (classes, db')"
  shows "\<exists>rows. db' = db\<lparr>db_dedupe := rows\<rparr> \<and> shape classes = shape (initial_classes b) \<and>
    (\<forall>(k, x) \<in> set (batch_sources b). class_at classes x = reference_class b now db k x) \<and>
    (\<forall>y. (\<forall>(k, x) \<in> set (batch_sources b). pos x \<noteq> pos y) \<longrightarrow> class_at classes y = class_at (initial_classes b) y) \<and>
    (\<forall>k \<in> fst ` set (batch_sources b). \<exists>d. find (is_source (vb_tenant b) k) rows = Some d \<and> row_after b now db k d) \<and>
    (\<forall>t k'. \<not> (t = vb_tenant b \<and> k' \<in> fst ` set (batch_sources b)) \<longrightarrow> find (is_source t k') rows = find (is_source t k') (db_dedupe db))"
proof -
  let ?ks = "sortBy source_key_less (remdups (map fst (batch_sources b)))"
  have init: "class_at (initial_classes b) x = ReceiptAccepted" if "x \<in> set (group b k)" for k x
    using that by (auto simp: group_mem batch_sources_mem class_at_def initial_classes_def)
  have keys: "set ?ks = fst ` set (batch_sources b)" by simp
  from select_keys [OF assms(1) assms(2) [unfolded selectCandidates_def]] init obtain rows where r: "db' = db\<lparr>db_dedupe := rows\<rparr>" "shape classes = shape (initial_classes b)"
    "\<forall>k \<in> set ?ks. \<forall>x \<in> set (group b k). class_at classes x = reference_class b now db k x"
    "\<forall>y. (\<forall>k \<in> set ?ks. pos y \<notin> pos ` set (group b k)) \<longrightarrow> class_at classes y = class_at (initial_classes b) y"
    "\<forall>k \<in> set ?ks. \<exists>d. find (is_source (vb_tenant b) k) rows = Some d \<and> row_after b now db k d"
    "\<forall>t k'. \<not> (t = vb_tenant b \<and> k' \<in> set ?ks) \<longrightarrow> find (is_source t k') rows = find (is_source t k') (db_dedupe db)" by auto
  have a: "\<forall>(k, x) \<in> set (batch_sources b). class_at classes x = reference_class b now db k x" using r(3) by (force simp: group_mem)
  have b: "\<forall>y. (\<forall>(k, x) \<in> set (batch_sources b). pos x \<noteq> pos y) \<longrightarrow> class_at classes y = class_at (initial_classes b) y" using r(4) by (force simp: group_mem)
  show ?thesis using r(1,2,5,6) a b unfolding keys by blast
qed

lemma accepted_in_group:
  assumes "batch_valid b" "k \<in> fst ` set (batch_sources b)" "\<forall>(k, x) \<in> set (batch_sources b). class_at classes x = reference_class b now db k x"
  shows "length (filter (\<lambda>x. class_at classes x = ReceiptAccepted) (group b k)) = (if live_row b now db k = None then 1 else 0)"
proof -
  have at: "class_at classes x = reference_class b now db k x" if "x \<in> set (group b k)" for x using assms(3) that by (auto simp: group_mem)
  have no: "repeat_class sha x \<noteq> ReceiptAccepted" for sha x by (simp add: repeat_class_def)
  show ?thesis
  proof (cases "live_row b now db k")
    case None
    obtain w rest where g: "group b k = w # rest" using assms(2) by (cases "group b k") (auto simp: group_mem [symmetric])
    have "pos x \<noteq> pos w" if "x \<in> set rest" for x using distinct_group [OF assms(1), of k] g that by (force simp: image_iff)
    then have "filter (\<lambda>x. class_at classes x = ReceiptAccepted) rest = []" using at g None no by (auto simp: filter_empty_conv reference_class_def)
    then show ?thesis using at g None by (simp add: reference_class_def)
  next
    case (Some d)
    then have "filter (\<lambda>x. class_at classes x = ReceiptAccepted) (group b k) = []" using at no by (auto simp: filter_empty_conv reference_class_def)
    then show ?thesis using Some by simp
  qed
qed

text \<open>
  C1: deduplication is exact. For a valid batch, every record without a source identifier is
  accepted, and every other record gets the class of the reference classification: judged against
  the stored row of its identifier while that row is live, otherwise against the first occurrence in
  the batch. So of all the records with one identifier exactly one is accepted when the identifier is
  free and none when it is taken; an accepted identifier stays taken for the whole retention window,
  and the rows of other tenants and identifiers do not change.
\<close>

theorem deduplication_is_exact:
  assumes "validateVerifiedBatch b = Inr u" "selectCandidates b retention now db = Inr (classes, db')"
  shows "map length classes = map (length \<circ> vq_candidates) (vb_requests b) \<and>
    (\<forall>r < length (vb_requests b). \<forall>l < length (vq_candidates (vb_requests b ! r)). ca_source (vq_candidates (vb_requests b ! r) ! l) = [] \<longrightarrow> classes ! r ! l = ReceiptAccepted) \<and>
    (\<forall>(k, x) \<in> set (batch_sources b). classes ! so_request x ! so_local x = reference_class b now db k x) \<and>
    (\<forall>k \<in> fst ` set (batch_sources b).
      length (filter (\<lambda>x. classes ! so_request x ! so_local x = ReceiptAccepted) (group b k)) = (if live_row b now db k = None then 1 else 0) \<and>
      (live_row b now db k = None \<longrightarrow> (\<forall>t < now + (db_dedupe_days db + 7) * day_us. \<exists>d. live_row b t db' k = Some d \<and> de_sha d = ca_sha (so_value (hd (group b k)))))) \<and>
    (\<forall>t k. \<not> (t = vb_tenant b \<and> k \<in> fst ` set (batch_sources b)) \<longrightarrow> find (is_source t k) (db_dedupe db') = find (is_source t k) (db_dedupe db))"
proof -
  have valid: "batch_valid b" by (rule validate_batch [OF assms(1)])
  obtain rows where r: "db' = db\<lparr>db_dedupe := rows\<rparr>" "shape classes = shape (initial_classes b)" "\<forall>(k, x) \<in> set (batch_sources b). class_at classes x = reference_class b now db k x"
    "\<forall>y. (\<forall>(k, x) \<in> set (batch_sources b). pos x \<noteq> pos y) \<longrightarrow> class_at classes y = class_at (initial_classes b) y"
    "\<forall>k \<in> fst ` set (batch_sources b). \<exists>d. find (is_source (vb_tenant b) k) rows = Some d \<and> row_after b now db k d"
    "\<forall>t k'. \<not> (t = vb_tenant b \<and> k' \<in> fst ` set (batch_sources b)) \<longrightarrow> find (is_source t k') rows = find (is_source t k') (db_dedupe db)"
    using selected [OF valid assms(2)] by blast
  have lens: "map length classes = map (length \<circ> vq_candidates) (vb_requests b)" using r(2) by (simp add: shape_def initial_classes_def)
  have plain: "classes ! i ! l = ReceiptAccepted" if "i < length (vb_requests b)" "l < length (vq_candidates (vb_requests b ! i))" "ca_source (vq_candidates (vb_requests b ! i) ! l) = []" for i l
  proof -
    let ?y = "\<lparr>so_request = i, so_local = l, so_global = 0, so_value = vq_candidates (vb_requests b ! i) ! l\<rparr>"
    have "\<forall>(k, x) \<in> set (batch_sources b). pos x \<noteq> pos ?y" using that(3) by (auto simp: batch_sources_mem pos_def)
    then have "class_at classes ?y = class_at (initial_classes b) ?y" using r(4) by blast
    then show ?thesis using that by (simp add: class_at_def initial_classes_def)
  qed
  have window: "\<exists>d. live_row b t db' k = Some d \<and> de_sha d = ca_sha (so_value (hd (group b k)))"
    if k: "k \<in> fst ` set (batch_sources b)" "live_row b now db k = None" "t < now + (db_dedupe_days db + 7) * day_us" for k t
  proof -
    obtain d where d: "find (is_source (vb_tenant b) k) rows = Some d" "row_after b now db k d" using r(5) k(1) by blast
    then have "de_created d = now" "de_sha d = ca_sha (so_value (hd (group b k)))" using k(2) by (simp_all add: row_after_def Let_def)
    then show ?thesis using d(1) k(3) by (simp add: r(1) live_row_def dedupe_expired_def)
  qed
  have one: "length (filter (\<lambda>x. classes ! so_request x ! so_local x = ReceiptAccepted) (group b k)) = (if live_row b now db k = None then 1 else 0)"
    if "k \<in> fst ` set (batch_sources b)" for k using accepted_in_group [OF valid that r(3)] by (simp add: class_at_def)
  have refs: "\<forall>(k, x) \<in> set (batch_sources b). classes ! so_request x ! so_local x = reference_class b now db k x" using r(3) by (simp add: class_at_def)
  have kept: "\<forall>t k. \<not> (t = vb_tenant b \<and> k \<in> fst ` set (batch_sources b)) \<longrightarrow> find (is_source t k) (db_dedupe db') = find (is_source t k) (db_dedupe db)" using r(1,6) by simp
  show ?thesis using lens plain refs one window kept by blast
qed

subsection \<open>What the inserts write\<close>

lemma insert_outcomes_eq: "foldR (insert_outcome a) db ocs = Inr db' \<Longrightarrow> \<exists>rows. db' = db\<lparr>db_outcomes := rows\<rparr>"
proof (induction ocs arbitrary: db)
  case Nil
  then show ?case by (intro exI [of _ "db_outcomes db"]) simp
next
  case (Cons oc ocs)
  then obtain db1 where d: "insert_outcome a db oc = Inr db1" "foldR (insert_outcome a) db1 ocs = Inr db'" by (auto simp: bindR_eq_Inr)
  then obtain rows1 where "db1 = db\<lparr>db_outcomes := rows1\<rparr>" by (auto simp: insert_outcome_def Let_def split: if_splits)
  moreover obtain rows where "db' = db1\<lparr>db_outcomes := rows\<rparr>" using Cons.IH [OF d(2)] by blast
  ultimately show ?case by (intro exI [of _ rows]) simp
qed

lemma insert_unsupporteds_eq: "foldR (insert_unsupported a) db us = Inr db' \<Longrightarrow> \<exists>rows. db' = db\<lparr>db_unsupported := rows\<rparr>"
proof (induction us arbitrary: db)
  case Nil
  then show ?case by (intro exI [of _ "db_unsupported db"]) simp
next
  case (Cons oc us)
  then obtain db1 where d: "insert_unsupported a db oc = Inr db1" "foldR (insert_unsupported a) db1 us = Inr db'" by (auto simp: bindR_eq_Inr)
  then obtain rows1 where "db1 = db\<lparr>db_unsupported := rows1\<rparr>" by (auto simp: insert_unsupported_def split: if_splits)
  moreover obtain rows where "db' = db1\<lparr>db_unsupported := rows\<rparr>" using Cons.IH [OF d(2)] by blast
  ultimately show ?case by (intro exI [of _ rows]) simp
qed

definition new_receipt :: "nat \<times> verified_request \<times> receipt_result \<Rightarrow> receipt_row" where
  "new_receipt x = (case x of (i, q, r) \<Rightarrow> receipt_row_of i q r)"

lemma insert_request_eq:
  assumes "insert_request db x = Inr db'"
  shows "\<exists>ocs us. db' = db\<lparr>db_receipts := db_receipts db @ [new_receipt x], db_outcomes := ocs, db_unsupported := us\<rparr>"
proof -
  obtain i q r where x: "x = (i, q, r)" by (cases x)
  obtain db1 totals db2 where d: "insert_receipt (receipt_row_of i q r) db = Inr db1" "foldR (insert_outcome (request_id q)) db1 totals = Inr db2"
    "foldR (insert_unsupported (request_id q)) db2 (ri_unsupported (vq_index q)) = Inr db'"
    using assms x by (auto simp: insert_request_def bindR_eq_Inr)
  have "db1 = db\<lparr>db_receipts := db_receipts db @ [new_receipt x]\<rparr>" using d(1) x by (auto simp: insert_receipt_def new_receipt_def split: if_splits)
  moreover obtain ocs where "db2 = db1\<lparr>db_outcomes := ocs\<rparr>" using insert_outcomes_eq [OF d(2)] by blast
  moreover obtain us where "db' = db2\<lparr>db_unsupported := us\<rparr>" using insert_unsupporteds_eq [OF d(3)] by blast
  ultimately show ?thesis by (intro exI [of _ ocs] exI [of _ us]) simp
qed

lemma insert_requests_eq:
  "foldR insert_request db xs = Inr db' \<Longrightarrow> \<exists>ocs us. db' = db\<lparr>db_receipts := db_receipts db @ map new_receipt xs, db_outcomes := ocs, db_unsupported := us\<rparr>"
proof (induction xs arbitrary: db)
  case Nil
  then show ?case by (intro exI [of _ "db_outcomes db"] exI [of _ "db_unsupported db"]) simp
next
  case (Cons x xs)
  then obtain db1 where d: "insert_request db x = Inr db1" "foldR insert_request db1 xs = Inr db'" by (auto simp: bindR_eq_Inr)
  obtain o1 u1 where one: "db1 = db\<lparr>db_receipts := db_receipts db @ [new_receipt x], db_outcomes := o1, db_unsupported := u1\<rparr>" using insert_request_eq [OF d(1)] by blast
  obtain ocs us where "db' = db1\<lparr>db_receipts := db_receipts db1 @ map new_receipt xs, db_outcomes := ocs, db_unsupported := us\<rparr>" using Cons.IH [OF d(2)] by blast
  then show ?case using one by (intro exI [of _ ocs] exI [of _ us]) simp
qed

definition journal_intent :: "verified_batch \<Rightarrow> intent_row \<Rightarrow> bool" where
  "journal_intent b i = (in_id i = ia_intent (vb_journal b) \<and> in_tenant i = vb_tenant b \<and> in_state i = ''uploaded'' \<and> in_owner i = ia_owner (vb_journal b) \<and>
    in_fence i = ia_fence (vb_journal b))"

lemma reference_journal_eq: "reference_journal b now db = Inr db' \<Longrightarrow>
  db' = db\<lparr>db_intents := update_where (journal_intent b) (\<lambda>i. i\<lparr>in_state := ''referenced'', in_updated := now\<rparr>) (db_intents db)\<rparr>"
  by (simp add: reference_journal_def journal_intent_def [abs_def] Let_def split: if_splits)

lemma extend_lane_eq: "extend_lane b old seq received db = Inr db' \<Longrightarrow>
  db' = db\<lparr>db_lanes := update_where (\<lambda>l. la_tenant l = vb_tenant b \<and> la_id l = vb_lane b \<and> la_accepted l = old) (\<lambda>l. l\<lparr>la_accepted := seq, la_received := received\<rparr>) (db_lanes db)\<rparr>"
  by (simp add: extend_lane_def Let_def split: if_splits)

lemma accept_fresh_tables:
  assumes "accept_fresh b retention now l db = Inr (results, db')"
  obtains classes db1 ocs us where "selectCandidates b retention now db = Inr (classes, db1)" "lockJournalIntent b now db1 = Inr ()"
    "buildReceiptResults b classes (la_accepted l + 1) (max now (la_received l)) = Inr results"
    "\<not> list_ex (\<lambda>x. jo_id x = vb_job b) (db_jobs db1)"
    "\<not> list_ex (\<lambda>x. ba_tenant x = vb_tenant b \<and> ba_lane x = vb_lane b \<and> ba_seq x = la_accepted l + 1) (db_batches db1)"
    "db' = db1\<lparr>db_batches := db_batches db1 @ [batch_row_of b results (la_accepted l + 1) (max now (la_received l))],
      db_receipts := db_receipts db1 @ map new_receipt (enumerate 0 (zip (vb_requests b) results)), db_outcomes := ocs, db_unsupported := us,
      db_jobs := db_jobs db1 @ [job_row_of b (la_accepted l + 1) now],
      db_intents := update_where (journal_intent b) (\<lambda>i. i\<lparr>in_state := ''referenced'', in_updated := now\<rparr>) (db_intents db1),
      db_lanes := update_where (\<lambda>x. la_tenant x = vb_tenant b \<and> la_id x = vb_lane b \<and> la_accepted x = la_accepted l)
        (\<lambda>x. x\<lparr>la_accepted := la_accepted l + 1, la_received := max now (la_received l)\<rparr>) (db_lanes db1)\<rparr>"
proof -
  let ?seq = "la_accepted l + 1" and ?rec = "max now (la_received l)"
  obtain classes db1 where c: "selectCandidates b retention now db = Inr (classes, db1)" using assms by (auto simp: accept_fresh_def bindR_eq_Inr)
  have j: "lockJournalIntent b now db1 = Inr ()" using assms c by (cases "lockJournalIntent b now db1") (auto simp: accept_fresh_def)
  obtain db2 db3 db4 db5 where d: "buildReceiptResults b classes ?seq ?rec = Inr results" "insert_batch (batch_row_of b results ?seq ?rec) db1 = Inr db2"
    "insertReceiptsAndDiagnostics b results db2 = Inr db3" "insert_job (job_row_of b ?seq now) db3 = Inr db4" "reference_journal b now db4 = Inr db5"
    "extend_lane b (la_accepted l) ?seq ?rec db5 = Inr db'"
    using assms c j by (auto simp: accept_fresh_def Let_def bindR_eq_Inr)
  obtain ocs us where d3: "db3 = db2\<lparr>db_receipts := db_receipts db2 @ map new_receipt (enumerate 0 (zip (vb_requests b) results)), db_outcomes := ocs, db_unsupported := us\<rparr>"
    using insert_requests_eq [OF d(3) [unfolded insertReceiptsAndDiagnostics_def]] by blast
  have d2: "db2 = db1\<lparr>db_batches := db_batches db1 @ [batch_row_of b results ?seq ?rec]\<rparr>"
    "\<not> list_ex (\<lambda>x. ba_tenant x = vb_tenant b \<and> ba_lane x = vb_lane b \<and> ba_seq x = ?seq) (db_batches db1)"
    using d(2) by (auto simp: insert_batch_def batch_row_of_def Let_def list_ex_iff split: if_splits)
  have d4: "db4 = db3\<lparr>db_jobs := db_jobs db3 @ [job_row_of b ?seq now]\<rparr>" "\<not> list_ex (\<lambda>x. jo_id x = vb_job b) (db_jobs db3)"
    using d(4) by (auto simp: insert_job_def job_row_of_def list_ex_iff split: if_splits)
  show thesis
    by (rule that [OF c j d(1)]) (insert d2 d3 d4 reference_journal_eq [OF d(5)] extend_lane_eq [OF d(6)], simp_all)
qed

subsection \<open>Reading the receipts back\<close>

lemma new_selection_valid:
  assumes "newReceiptSelection classes = Inr sel"
  shows "validateSelection class_order sel (int (length classes)) = Inr ()"
  using newReceiptSelection_partition [OF assms] validateSelection_iff [of class_order sel "int (length classes)"] by auto

lemma scan_new_receipt:
  assumes "receipt_result_of b seq received (q, classes) = Inr r" "length classes = length (vq_candidates q)"
    "ri_last (vq_index q) - ri_first (vq_index q) + 1 = int (length (vq_candidates q))"
  shows "scan_receipt (receipt_row_of i q r) = Inr r \<and> rr_acceptance r = request_id q \<and> rr_tenant r = vb_tenant b \<and> rr_project r = ri_project (vq_index q) \<and>
    rr_content r = ri_content (vq_index q)"
proof -
  obtain sel where s: "newReceiptSelection classes = Inr sel" using assms(1) by (cases "newReceiptSelection classes") (auto simp: receipt_result_of_def lift_selection_def Let_def)
  note v = new_selection_valid [OF s]
  have r: "r = \<lparr>rr_acceptance = ri_acceptance (vq_index q), rr_tenant = vb_tenant b, rr_project = ri_project (vq_index q), rr_lane = vb_lane b, rr_seq = seq,
      rr_content = ri_content (vq_index q), rr_selection = sel, rr_selection_sha = sha256_hex (selection_json sel), rr_first = ri_first (vq_index q), rr_last = ri_last (vq_index q),
      rr_accepted = class_count ReceiptAccepted classes, rr_duplicate = class_count ReceiptDuplicate classes, rr_conflict = class_count ReceiptConflict classes,
      rr_unsupported = int (length (ri_unsupported (vq_index q))), rr_received = received\<rparr>"
    using assms(1) s v by (simp add: receipt_result_of_def lift_selection_def selectionSHA256_def selectionCanonicalJSON_def Let_def)
  have n: "validateSelection class_order sel (ri_last (vq_index q) - ri_first (vq_index q) + 1) = Inr ()" using v assms(2,3) by simp
  show ?thesis unfolding r by (simp add: scan_receipt_def receipt_row_of_def selectionCanonicalJSON_def n lift_selection_def request_id_def)
qed

definition batch_receipts :: "verified_batch \<Rightarrow> control_db \<Rightarrow> receipt_row list" where
  "batch_receipts b db = filter (\<lambda>r. re_acceptance r \<in> request_id ` set (vb_requests b)) (db_receipts db)"

lemma lookup_cong: "batch_receipts b db = batch_receipts b db' \<Longrightarrow> lookupAndClassify b db = lookupAndClassify b db'"
  by (simp add: lookupAndClassify_def lookupReceipts_def batch_receipts_def)

lemma classify_found:
  assumes "\<forall>q \<in> set qs. \<exists>r. map_of found (request_id q) = Some r \<and> rr_tenant r = vb_tenant b \<and> rr_project r = ri_project (vq_index q) \<and> rr_content r = ri_content (vq_index q)"
  shows "foldR (classify_request b found) (es, ms) qs = Inr (es @ map (\<lambda>q. the (map_of found (request_id q))) qs, ms)"
  using assms
proof (induction qs arbitrary: es)
  case (Cons q qs)
  then obtain r where "map_of found (request_id q) = Some r" "rr_tenant r = vb_tenant b" "rr_project r = ri_project (vq_index q)" "rr_content r = ri_content (vq_index q)" by auto
  then show ?case using Cons by (simp add: classify_request_def)
qed simp

lemma classify_spec:
  assumes "foldR (classify_request b found) (es, ms) qs = Inr (es', ms')"
  shows "ms' = ms @ map request_id (filter (\<lambda>q. map_of found (request_id q) = None) qs) \<and>
    es' = es @ map (\<lambda>q. the (map_of found (request_id q))) (filter (\<lambda>q. map_of found (request_id q) \<noteq> None) qs) \<and>
    (\<forall>q \<in> set qs. \<forall>r. map_of found (request_id q) = Some r \<longrightarrow> rr_tenant r = vb_tenant b \<and> rr_project r = ri_project (vq_index q) \<and> rr_content r = ri_content (vq_index q))"
  using assms
proof (induction qs arbitrary: es ms)
  case (Cons q qs)
  then obtain es1 ms1 where one: "classify_request b found (es, ms) q = Inr (es1, ms1)" "foldR (classify_request b found) (es1, ms1) qs = Inr (es', ms')"
    by (auto simp: bindR_eq_Inr)
  note IH = Cons.IH [OF one(2)]
  show ?case
  proof (cases "map_of found (request_id q)")
    case None
    then have "es1 = es" "ms1 = ms @ [request_id q]" using one(1) by (simp_all add: classify_request_def)
    then show ?thesis using IH None by simp
  next
    case (Some r)
    then have "es1 = es @ [r]" "ms1 = ms" "rr_tenant r = vb_tenant b \<and> rr_project r = ri_project (vq_index q) \<and> rr_content r = ri_content (vq_index q)"
      using one(1) by (auto simp: classify_request_def split: if_splits)
    then show ?thesis using IH Some by simp
  qed
qed simp

lemma scan_acceptance: "scan_receipt x = Inr y \<Longrightarrow> rr_acceptance y = re_acceptance x"
  by (auto simp: scan_receipt_def Let_def bindR_eq_Inr split: if_splits)

lemma lookup_keys:
  assumes "lookupReceipts qs db = Inr found"
  shows "map fst found = map re_acceptance (filter (\<lambda>r. re_acceptance r \<in> request_id ` set qs) (db_receipts db))"
proof -
  obtain rs where rs: "mapR scan_receipt (filter (\<lambda>r. re_acceptance r \<in> request_id ` set qs) (db_receipts db)) = Inr rs" "found = map (\<lambda>r. (rr_acceptance r, r)) rs"
    using assms by (auto simp: lookupReceipts_def bindR_eq_Inr)
  have "list_all2 (\<lambda>x y. scan_receipt x = Inr y) (filter (\<lambda>r. re_acceptance r \<in> request_id ` set qs) (db_receipts db)) rs" using rs(1) by (simp add: mapR_eq_Inr)
  then have "map rr_acceptance rs = map re_acceptance (filter (\<lambda>r. re_acceptance r \<in> request_id ` set qs) (db_receipts db))"
    by (induction rule: list_all2_induct) (simp_all add: scan_acceptance)
  then show ?thesis using rs(2) by (simp add: comp_def)
qed

text \<open>When nothing of the batch was found, the table has no receipt of it.\<close>

lemma nothing_found:
  assumes "lookupAndClassify b db = Inr ([], missing)" "missing \<noteq> []"
  shows "batch_receipts b db = []"
proof -
  obtain found es where f: "lookupReceipts (vb_requests b) db = Inr found" "classifyExisting b found = Inr (es, missing)" "es = []"
    using assms by (auto simp: lookupAndClassify_def bindR_eq_Inr split: prod.splits if_splits)
  have none: "map_of found (request_id q) = None" if "q \<in> set (vb_requests b)" for q
    using classify_spec [OF f(2) [unfolded classifyExisting_def]] f(3) that by (auto simp: filter_empty_conv)
  have keys: "fst ` set found = re_acceptance ` set (batch_receipts b db)" using lookup_keys [OF f(1)] unfolding batch_receipts_def by (metis list.set_map)
  show ?thesis
  proof (rule ccontr)
    assume "batch_receipts b db \<noteq> []"
    then obtain x where x: "x \<in> set (batch_receipts b db)" by (cases "batch_receipts b db") auto
    then obtain q where q: "q \<in> set (vb_requests b)" "re_acceptance x = request_id q" by (auto simp: batch_receipts_def)
    have "request_id q \<in> fst ` set found" using x q(2) unfolding keys by (metis imageI)
    then show False using none [OF q(1)] by (simp add: map_of_eq_None_iff)
  qed
qed

lemma fresh_found:
  assumes "batch_valid b" "accept_fresh b retention now l db = Inr (results, db')" "batch_receipts b db = []"
  shows "lookupAndClassify b db' = Inr (results, [])"
  using assms(2)
proof (cases rule: accept_fresh_tables)
  case (1 classes db1 ocs us)
  let ?qs = "vb_requests b" and ?rows = "map new_receipt (enumerate 0 (zip (vb_requests b) results))"
  obtain rows where sel: "db1 = db\<lparr>db_dedupe := rows\<rparr>" "shape classes = shape (initial_classes b)" using selected [OF assms(1) 1(1)] by blast
  have len: "length classes = length ?qs" "\<And>i. i < length ?qs \<Longrightarrow> length (classes ! i) = length (vq_candidates (?qs ! i))"
    using sel(2) by (auto simp: shape_def initial_classes_def list_eq_iff_nth_eq)
  have "list_all2 (\<lambda>x r. receipt_result_of b (la_accepted l + 1) (max now (la_received l)) x = Inr r) (zip ?qs classes) results"
    using 1(3) by (simp add: buildReceiptResults_def mapR_eq_Inr)
  then have lenr: "length results = length ?qs" and res: "\<And>i. i < length ?qs \<Longrightarrow> receipt_result_of b (la_accepted l + 1) (max now (la_received l)) (?qs ! i, classes ! i) = Inr (results ! i)"
    using len(1) by (auto simp: list_all2_conv_all_nth)
  have scan: "scan_receipt (receipt_row_of i (?qs ! i) (results ! i)) = Inr (results ! i) \<and> rr_acceptance (results ! i) = request_id (?qs ! i) \<and>
      rr_tenant (results ! i) = vb_tenant b \<and> rr_project (results ! i) = ri_project (vq_index (?qs ! i)) \<and> rr_content (results ! i) = ri_content (vq_index (?qs ! i))"
    if "i < length ?qs" for i
    using scan_new_receipt [OF res [OF that] len(2) [OF that]] contiguous_range [of 0 ?qs "?qs ! i"] assms(1) that by (simp add: batch_valid_def)
  have nth: "?rows ! i = receipt_row_of i (?qs ! i) (results ! i)" if "i < length ?qs" for i using that lenr by (simp add: new_receipt_def nth_enumerate_eq)
  have "re_acceptance x \<in> request_id ` set ?qs" if "x \<in> set ?rows" for x
    using that lenr by (auto simp: new_receipt_def receipt_row_of_def request_id_def in_set_enumerate_eq)
  then have mine: "batch_receipts b db' = ?rows" using assms(3) 1(6) sel(1) by (simp add: batch_receipts_def)
  have "list_all2 (\<lambda>x r. scan_receipt x = Inr r) ?rows results" using lenr scan nth by (simp add: list_all2_conv_all_nth)
  then have found: "lookupReceipts ?qs db' = Inr (map (\<lambda>r. (rr_acceptance r, r)) results)"
    using mine by (simp add: lookupReceipts_def batch_receipts_def mapR_eq_Inr [symmetric])
  let ?found = "map (\<lambda>r. (rr_acceptance r, r)) results"
  have keys: "map fst ?found = map request_id ?qs" using lenr scan by (simp add: list_eq_iff_nth_eq)
  have at: "map_of ?found (request_id (?qs ! i)) = Some (results ! i)" if i: "i < length ?qs" for i
  proof -
    have "results ! i \<in> set results" using i lenr by simp
    from imageI [OF this, of "\<lambda>r. (rr_acceptance r, r)"] have "(request_id (?qs ! i), results ! i) \<in> set ?found" using scan [OF i] by simp
    moreover have "distinct (map fst ?found)" using keys assms(1) by (simp add: batch_valid_def)
    ultimately show ?thesis by simp
  qed
  have all: "map (\<lambda>q. the (map_of ?found (request_id q))) ?qs = results" using lenr at by (simp add: list_eq_iff_nth_eq)
  have "\<forall>q \<in> set ?qs. \<exists>r. map_of ?found (request_id q) = Some r \<and> rr_tenant r = vb_tenant b \<and> rr_project r = ri_project (vq_index q) \<and> rr_content r = ri_content (vq_index q)"
    using at scan by (auto simp: in_set_conv_nth)
  then have "classifyExisting b ?found = Inr (results, [])" unfolding classifyExisting_def using classify_found [of ?qs ?found b "[]" "[]"] all by simp
  moreover have "orderedResults ?qs ?found = results" using lenr at by (simp add: orderedResults_def list_eq_iff_nth_eq)
  ultimately show ?thesis using found by (simp add: lookupAndClassify_def)
qed

text \<open>Receipts are written once: those of a batch seen before the lane was locked are still there, in the same rows.\<close>

definition receipts_survive :: "verified_batch \<Rightarrow> control_db \<Rightarrow> control_db \<Rightarrow> bool" where
  "receipts_survive b before db = (batch_receipts b before \<noteq> [] \<longrightarrow> batch_receipts b db = batch_receipts b before)"

lemma lookup_nonempty:
  assumes "lookupAndClassify b db = Inr (es, [])" "vb_requests b \<noteq> []"
  shows "batch_receipts b db \<noteq> []"
proof
  assume "batch_receipts b db = []"
  then have "lookupReceipts (vb_requests b) db = Inr []" by (simp add: lookupReceipts_def batch_receipts_def)
  then obtain es' where "classifyExisting b [] = Inr (es', [])" using assms(1) by (auto simp: lookupAndClassify_def bindR_eq_Inr split: prod.splits)
  then show False using classify_spec [of b "[]" "[]" "[]" "vb_requests b" es' "[]"] assms(2) by (simp add: classifyExisting_def)
qed

lemma lift_control_Inr [simp]: "lift_control r = Inr x \<longleftrightarrow> r = Inr x"
  by (cases r) (simp_all add: lift_control_def)

lemma lift_control_simps [simp]: "lift_control (Inr x) = Inr x" "lift_control (Inl e) = Inl (AcceptFailed e)"
  by (simp_all add: lift_control_def)

lemma after_lookup_cases:
  assumes "after_lookup found db rest = Inr (results, db')"
  obtains (found) "found = (results, [])" "db' = db" | (missing) missing where "found = ([], missing)" "missing \<noteq> []" "rest = Inr (results, db')"
  using assms by (cases found) (auto simp: after_lookup_def split: if_splits)

lemma accept_locked_cases:
  assumes "accept_locked b retention now db = Inr (results, db')"
  obtains (found) "lookupAndClassify b db = Inr (results, [])" "db' = db"
  | (fresh) l missing where "find (\<lambda>l. la_tenant l = vb_tenant b \<and> la_id l = vb_lane b) (db_lanes db) = Some l" "la_accepted l \<noteq> maxInt64"
      "lookupAndClassify b db = Inr ([], missing)" "missing \<noteq> []" "accept_fresh b retention now l db = Inr (results, db')"
proof -
  obtain l where l: "find (\<lambda>l. la_tenant l = vb_tenant b \<and> la_id l = vb_lane b) (db_lanes db) = Some l" "la_accepted l \<noteq> maxInt64"
    using assms by (cases "find (\<lambda>l. la_tenant l = vb_tenant b \<and> la_id l = vb_lane b) (db_lanes db)") (auto simp: accept_locked_def split: if_splits)
  obtain found where f: "lookupAndClassify b db = Inr found" "after_lookup found db (lift_control (accept_fresh b retention now l db)) = Inr (results, db')"
    using assms l by (auto simp: accept_locked_def bindR_eq_Inr)
  from f(2) show thesis by (cases rule: after_lookup_cases) (insert that f(1) l, auto)
qed

lemma accept_transaction_cases:
  assumes "accept_transaction b now before db = Inr (results, db')"
  obtains (found) "lookupAndClassify b before = Inr (results, [])" "db' = db"
  | (locked) t retention where "find (\<lambda>t. tn_id t = vb_tenant b) (db_tenants before) = Some t" "lockProjectAuthorities b (tn_revision t) before = Inr retention"
      "accept_locked b retention now db = Inr (results, db')" "db_installation before = vb_installation b" "db_generation before = vb_generation b" "tn_state t = ''active''"
proof -
  have g: "db_installation before = vb_installation b" "db_generation before = vb_generation b" using assms by (auto simp: accept_transaction_def split: if_splits)
  obtain t where t: "find (\<lambda>t. tn_id t = vb_tenant b) (db_tenants before) = Some t" "tn_state t = ''active''"
    using assms g by (cases "find (\<lambda>t. tn_id t = vb_tenant b) (db_tenants before)") (auto simp: accept_transaction_def split: if_splits)
  obtain found where f: "lookupAndClassify b before = Inr found"
    "after_lookup found db (bindR (lockProjectAuthorities b (tn_revision t) before) (\<lambda>retention. accept_locked b retention now db)) = Inr (results, db')"
    using assms g t by (auto simp: accept_transaction_def bindR_eq_Inr)
  from f(2) show thesis
  proof (cases rule: after_lookup_cases)
    case found
    then show thesis using that(1) f(1) by simp
  next
    case (missing m)
    then obtain retention where "lockProjectAuthorities b (tn_revision t) before = Inr retention" "accept_locked b retention now db = Inr (results, db')" by (auto simp: bindR_eq_Inr)
    then show thesis using that(2) t g by blast
  qed
qed

lemma accepted_found:
  assumes "validateVerifiedBatch b = Inr u" "accept_transaction b now before db = Inr (results, db')" "receipts_survive b before db"
  shows "lookupAndClassify b db' = Inr (results, [])"
proof -
  have v: "batch_valid b" by (rule validate_batch [OF assms(1)])
  from assms(2) show ?thesis
  proof (cases rule: accept_transaction_cases)
    case found
    then have "batch_receipts b before \<noteq> []" using lookup_nonempty v by (simp add: batch_valid_def)
    then show ?thesis using assms(3) lookup_cong [of b db before] found by (simp add: receipts_survive_def)
  next
    case (locked t retention)
    from locked(3) show ?thesis
    proof (cases rule: accept_locked_cases)
      case (fresh l missing)
      then show ?thesis using fresh_found [OF v fresh(5)] nothing_found [OF fresh(3,4)] by blast
    qed simp
  qed
qed

lemma lookup_row:
  assumes "lookupReceipts qs db = Inr found" "distinct (map re_acceptance (db_receipts db))" "x \<in> set (db_receipts db)" "re_acceptance x \<in> request_id ` set qs"
  shows "\<exists>r. scan_receipt x = Inr r \<and> map_of found (re_acceptance x) = Some r"
proof -
  let ?rows = "filter (\<lambda>r. re_acceptance r \<in> request_id ` set qs) (db_receipts db)"
  obtain rs where rs: "list_all2 (\<lambda>x y. scan_receipt x = Inr y) ?rows rs" "found = map (\<lambda>r. (rr_acceptance r, r)) rs"
    using assms(1) by (auto simp: lookupReceipts_def bindR_eq_Inr mapR_eq_Inr)
  have "x \<in> set ?rows" using assms(3,4) by simp
  then obtain i where i: "i < length ?rows" "?rows ! i = x" by (metis in_set_conv_nth)
  then have y: "scan_receipt x = Inr (rs ! i)" "i < length rs" using rs(1) by (auto simp: list_all2_conv_all_nth)
  then have "rr_acceptance (rs ! i) = re_acceptance x" by (simp add: scan_acceptance)
  then have "(re_acceptance x, rs ! i) \<in> set found" using y(2) rs(2) imageI [OF nth_mem [OF y(2)], of "\<lambda>r. (rr_acceptance r, r)"] by simp
  moreover have "distinct (map fst found)" using lookup_keys [OF assms(1)] assms(2) by (simp add: distinct_map_filter)
  ultimately show ?thesis using y(1) by simp
qed

lemma found_fields:
  assumes "lookupAndClassify b db = Inr (results, [])"
  shows "\<exists>found. lookupReceipts (vb_requests b) db = Inr found \<and> results = map (\<lambda>q. the (map_of found (request_id q))) (vb_requests b) \<and>
    (\<forall>q \<in> set (vb_requests b). \<exists>r. map_of found (request_id q) = Some r \<and> rr_tenant r = vb_tenant b \<and> rr_project r = ri_project (vq_index q) \<and> rr_content r = ri_content (vq_index q))"
proof -
  obtain found es where f: "lookupReceipts (vb_requests b) db = Inr found" "classifyExisting b found = Inr (es, [])" "results = orderedResults (vb_requests b) found"
    using assms by (auto simp: lookupAndClassify_def bindR_eq_Inr split: prod.splits)
  note c = classify_spec [OF f(2) [unfolded classifyExisting_def]]
  have "filter (\<lambda>q. map_of found (request_id q) = None) (vb_requests b) = []" using c by simp
  then have some: "\<exists>r. map_of found (request_id q) = Some r" if "q \<in> set (vb_requests b)" for q using that by (auto simp: filter_empty_conv)
  then have "results = map (\<lambda>q. the (map_of found (request_id q))) (vb_requests b)" unfolding f(3) orderedResults_def by (fastforce intro: map_cong)
  then show ?thesis using f(1) some c by blast
qed

lemma found_result_ids:
  assumes "lookupAndClassify b db = Inr (results, [])"
  shows "map rr_acceptance results = map request_id (vb_requests b)"
proof -
  obtain found where f: "lookupReceipts (vb_requests b) db = Inr found" "results = map (\<lambda>q. the (map_of found (request_id q))) (vb_requests b)"
    "\<forall>q \<in> set (vb_requests b). \<exists>r. map_of found (request_id q) = Some r" using found_fields [OF assms] by blast
  have "k = rr_acceptance r" if "(k, r) \<in> set found" for k r using f(1) that by (auto simp: lookupReceipts_def bindR_eq_Inr)
  then have "rr_acceptance (the (map_of found (request_id q))) = request_id q" if "q \<in> set (vb_requests b)" for q using f(3) that map_of_SomeD by fastforce
  then show ?thesis unfolding f(2) by simp
qed

lemma conflicting_content_refused:
  assumes "lookupAndClassify b db = Inr (results, [])" "distinct (map re_acceptance (db_receipts db))" "q \<in> set (vb_requests b)" "q' \<in> set (vb_requests c)"
    "request_id q' = request_id q" "(vb_tenant c, ri_project (vq_index q'), ri_content (vq_index q')) \<noteq> (vb_tenant b, ri_project (vq_index q), ri_content (vq_index q))"
  shows "\<exists>e. lookupAndClassify c db = Inl e"
proof (cases "lookupAndClassify c db")
  case (Inr x)
  obtain found where f: "lookupReceipts (vb_requests b) db = Inr found" "\<exists>r. map_of found (request_id q) = Some r \<and> rr_tenant r = vb_tenant b \<and>
      rr_project r = ri_project (vq_index q) \<and> rr_content r = ri_content (vq_index q)" using found_fields [OF assms(1)] assms(3) by blast
  then have "request_id q \<in> fst ` set found" by (metis map_of_eq_None_iff option.distinct(1))
  then have "request_id q \<in> re_acceptance ` set (db_receipts db)" using lookup_keys [OF f(1)] by (metis (no_types, lifting) filter_is_subset image_mono list.set_map subsetD)
  then obtain x where x: "x \<in> set (db_receipts db)" "re_acceptance x = request_id q" by auto
  have inb: "re_acceptance x \<in> request_id ` set (vb_requests b)" and inc: "re_acceptance x \<in> request_id ` set (vb_requests c)"
    using x(2) assms(3-5) by (metis imageI)+
  obtain foundc es ms where g: "lookupReceipts (vb_requests c) db = Inr foundc" "classifyExisting c foundc = Inr (es, ms)" using Inr by (auto simp: lookupAndClassify_def bindR_eq_Inr)
  obtain r where r: "scan_receipt x = Inr r" "map_of foundc (request_id q) = Some r" using lookup_row [OF g(1) assms(2) x(1)] inc x(2) by metis
  have "map_of found (request_id q) = Some r" using lookup_row [OF f(1) assms(2) x(1)] inb x(2) r(1) by (metis sum.inject(2))
  then show ?thesis using f(2) classify_spec [OF g(2) [unfolded classifyExisting_def]] assms(4-6) r(2) by fastforce
qed blast

text \<open>
  C2: acceptance is idempotent. Once a transaction has returned receipts for a batch, and as long as
  they are stored (the retention cleanup has not retired the batch), the installation and its storage
  generation are the ones of the batch and the tenant is active, sending the same batch again returns
  the very same receipts, one per request and in request order, without changing the database; a
  commit whose reply was lost is confirmed with them; and no batch that carries one of the acceptance
  identifiers with another tenant, project or content is accepted.
\<close>

theorem acceptance_is_idempotent:
  assumes "validateVerifiedBatch b = Inr u" "accept_transaction b now before db = Inr (results, db')" "receipts_survive b before db"
    "batch_receipts b later = batch_receipts b db'" "distinct (map re_acceptance (db_receipts later))"
    "db_installation later = vb_installation b" "db_generation later = vb_generation b"
    "find (\<lambda>t. tn_id t = vb_tenant b) (db_tenants later) = Some t" "tn_state t = ''active''"
  shows "accept b (Ran now' later db2 # rest) = (Inr results, Some db2) \<and> confirmAfterCommitError b later = Inr results \<and>
    map rr_acceptance results = map request_id (vb_requests b) \<and>
    (\<forall>c. (\<exists>q \<in> set (vb_requests b). \<exists>q' \<in> set (vb_requests c). request_id q' = request_id q \<and>
        (vb_tenant c, ri_project (vq_index q'), ri_content (vq_index q')) \<noteq> (vb_tenant b, ri_project (vq_index q), ri_content (vq_index q))) \<longrightarrow>
      (\<exists>e. accept_transaction c now'' later db3 = Inl e))"
proof -
  have found: "lookupAndClassify b later = Inr (results, [])" using accepted_found [OF assms(1-3)] lookup_cong [OF assms(4)] by simp
  then have again: "accept_transaction b now' later db2 = Inr (results, db2)" using assms(6-9) by (simp add: accept_transaction_def after_lookup_def)
  have conf: "confirmAfterCommitError b later = Inr results"
    using found by (auto simp: confirmAfterCommitError_def lookupAndClassify_def bindR_eq_Inr split: prod.splits if_splits)
  have "\<exists>e. accept_transaction c now'' later db3 = Inl e"
    if c: "q \<in> set (vb_requests b)" "q' \<in> set (vb_requests c)" "request_id q' = request_id q"
      "(vb_tenant c, ri_project (vq_index q'), ri_content (vq_index q')) \<noteq> (vb_tenant b, ri_project (vq_index q), ri_content (vq_index q))" for c q q'
  proof (cases "accept_transaction c now'' later db3")
    case (Inr x)
    obtain e where "lookupAndClassify c later = Inl e" using conflicting_content_refused [OF found assms(5) c] by blast
    then have "\<exists>e. accept_transaction c now'' later db3 = Inl e" by (auto simp: accept_transaction_def lift_control_def split: option.splits)
    then show ?thesis .
  qed blast
  then show ?thesis using again conf found_result_ids [OF found] assms(1) by (auto simp: accept_def acceptOnce_def maxAcceptAttempts_def)
qed

subsection \<open>A run for the witnesses\<close>

definition sample_candidate :: "int \<Rightarrow> char option \<Rightarrow> candidate" where
  "sample_candidate p sha = \<lparr>ca_position = p, ca_record = replicate 64 CHR ''7'', ca_kind = KindError, ca_source = (if sha = None then [] else replicate 32 CHR ''e''),
    ca_sha = (case sha of None \<Rightarrow> [] | Some c \<Rightarrow> replicate 64 c)\<rparr>"

definition sample_request :: verified_request where
  "sample_request = \<lparr>vq_index = \<lparr>ri_acceptance = newAcceptanceID ''aaaaaaaaaaaaaaa1'', ri_project = 7, ri_first = 0, ri_last = 3, ri_count = 4, ri_content = replicate 64 CHR ''9'',
      ri_outcomes = [], ri_unsupported = []\<rparr>,
    vq_candidates = [sample_candidate 0 (Some CHR ''a''), sample_candidate 1 (Some CHR ''a''), sample_candidate 2 (Some CHR ''b''), sample_candidate 3 None],
    vq_auth = \<lparr>az_tenant = 1, az_project = 1, az_key = 1, az_scrub = 1, az_config = 1, az_hash = ''h''\<rparr>\<rparr>"

definition sample_batch :: "int \<Rightarrow> verified_batch" where
  "sample_batch lane = \<lparr>vb_installation = newAcceptanceID ''aaaaaaaaaaaaaaa2'', vb_generation = 1, vb_tenant = 1, vb_lane = lane, vb_batch = newAcceptanceID ''aaaaaaaaaaaaaaa3'',
    vb_job = newAcceptanceID ''aaaaaaaaaaaaaaa4'',
    vb_journal = \<lparr>ia_intent = newAcceptanceID ''aaaaaaaaaaaaaaa5'', ia_owner = ''w'', ia_fence = 1, ia_bytes = 9, ia_sha = replicate 64 CHR ''8''\<rparr>, vb_requests = [sample_request]\<rparr>"

definition accept_db :: "int \<Rightarrow> control_db" where
  "accept_db lane = (jobs_db [])\<lparr>db_installation := newAcceptanceID ''aaaaaaaaaaaaaaa2'', db_tenants := [\<lparr>tn_id = 1, tn_state = ''active'', tn_revision = 1\<rparr>],
    db_projects := [\<lparr>pr_tenant = 1, pr_id = 7, pr_state = ''active'', pr_revision = 1, pr_scrub = 1, pr_config = 1\<rparr>],
    db_keys := [\<lparr>ke_tenant = 1, ke_project = 7, ke_hash = ''h'', ke_state = ''active'', ke_revision = 1\<rparr>],
    db_lanes := [\<lparr>la_tenant = 1, la_id = lane, la_accepted = 4, la_published = 4, la_generation = 4, la_received = 50\<rparr>],
    db_intents := [\<lparr>in_id = newAcceptanceID ''aaaaaaaaaaaaaaa5'', in_installation = newAcceptanceID ''aaaaaaaaaaaaaaa2'', in_tenant = 1, in_generation = 1, in_key = ''k'',
      in_kind = ''journal'', in_state = ''uploaded'', in_owner = ''w'', in_fence = 1, in_expires = 900, in_bytes = 9, in_sha = replicate 64 CHR ''8'', in_uploaded_bytes = Some 9,
      in_uploaded_sha = Some (replicate 64 CHR ''8''), in_job = None, in_producer_generation = None, in_producer_fence = None, in_updated = 50, in_retired = None, in_protect = None, in_query = None, in_task = None, in_marked = None, in_confirmed = None, in_sweeps = 0\<rparr>]\<rparr>"

lemma sample_candidates_ok:
  "candidate_ok 0 (sample_candidate 0 (Some CHR ''a''))" "candidate_ok 1 (sample_candidate 1 (Some CHR ''a''))" "candidate_ok 2 (sample_candidate 2 (Some CHR ''b''))"
  "candidate_ok 3 (sample_candidate 3 None)" "validSHA (replicate 64 CHR ''8'')" "validSHA (replicate 64 CHR ''9'')"
  by code_simp+

lemma new_id_lane: "length s = 16 \<Longrightarrow> is_lane_id (newAcceptanceID s)"
  using newAcceptanceID_lane [of s] by (auto simp: is_lane_id_def)

lemma sample_batch_valid:
  assumes "laneForAcceptance (newAcceptanceID ''aaaaaaaaaaaaaaa1'') = Inr lane" "0 \<le> lane" "lane < LaneCount"
  shows "validateVerifiedBatch (sample_batch lane) = Inr ()"
proof -
  have "validate_request lane ([], 0) sample_request = Inr ([newAcceptanceID ''aaaaaaaaaaaaaaa1''], 4)"
    using assms(1) sample_candidates_ok by (simp add: validate_request_def sample_request_def checkedOutcomeTotals_def authorization_ok_def Let_def numeral_2_eq_2 numeral_3_eq_3)
  then show ?thesis using assms(2,3) sample_candidates_ok by (simp add: validateVerifiedBatch_def sample_batch_def new_id_lane)
qed

lemma sample_sources: "batch_sources (sample_batch lane) =
  map (\<lambda>l. ((7, KindError, replicate 32 CHR ''e''), \<lparr>so_request = 0, so_local = l, so_global = int l, so_value = vq_candidates sample_request ! l\<rparr>)) [0, 1, 2]"
  by (simp add: batch_sources_def sample_batch_def request_sources_def source_key_of_def) (simp add: sample_request_def sample_candidate_def source_key_of_def)

lemma sample_select: "selectCandidates (sample_batch lane) [(7, 30)] 100 (accept_db lane) =
  Inr ([[ReceiptAccepted, ReceiptDuplicate, ReceiptConflict, ReceiptAccepted]], (accept_db lane)\<lparr>db_dedupe := [new_dedupe_row (sample_batch lane) [(7, 30)] (7, KindError, replicate 32 CHR ''e'')
    \<lparr>so_request = 0, so_local = 0, so_global = 0, so_value = sample_candidate 0 (Some CHR ''a'')\<rparr> 100]\<rparr>)"
  unfolding selectCandidates_def select_key_def sample_sources
  by (simp add: claim_source_def accept_db_def jobs_db_def initial_classes_def mark_repeat_def set_class_def sample_batch_def) (simp add: sample_request_def sample_candidate_def)


theorem deduplication_is_exact_witness:
  "\<exists>lane classes db'. selectCandidates (sample_batch lane) [(7, 30)] 100 (accept_db lane) = Inr (classes, db') \<and> map length classes = [4] \<and> classes ! 0 ! 3 = ReceiptAccepted"
proof -
  obtain lane where l: "laneForAcceptance (newAcceptanceID ''aaaaaaaaaaaaaaa1'') = Inr lane" "0 \<le> lane" "lane < LaneCount"
    using newAcceptanceID_lane [of "''aaaaaaaaaaaaaaa1''"] by auto
  obtain classes db' where s: "selectCandidates (sample_batch lane) [(7, 30)] 100 (accept_db lane) = Inr (classes, db')" using sample_select by blast
  have r: "vb_requests (sample_batch lane) = [sample_request]" "length (vq_candidates sample_request) = 4" "ca_source (vq_candidates sample_request ! 3) = []"
    by (simp_all add: sample_batch_def sample_request_def sample_candidate_def)
  have "map length classes = [4] \<and> classes ! 0 ! 3 = ReceiptAccepted" using deduplication_is_exact [OF sample_batch_valid [OF l] s] r by simp
  with s show ?thesis by (intro exI [of _ lane] exI [of _ classes] exI [of _ db']) simp
qed

lemma sample_receipts: "\<exists>r. buildReceiptResults (sample_batch lane) [[ReceiptAccepted, ReceiptDuplicate, ReceiptConflict, ReceiptAccepted]] 5 100 = Inr [r] \<and>
  rr_lane r = lane \<and> rr_tenant r = 1 \<and> rr_seq r = 5 \<and> selectionCanonicalJSON class_order (rr_selection r) 4 = Inr (selection_json (rr_selection r))"
proof -
  let ?cs = "[ReceiptAccepted, ReceiptDuplicate, ReceiptConflict, ReceiptAccepted]"
  obtain sel where s: "newReceiptSelection ?cs = Inr sel" by (simp add: newReceiptSelection_def)
  have "validateSelection class_order sel 4 = Inr ()" using new_selection_valid [OF s] by simp
  then show ?thesis using s by (simp add: buildReceiptResults_def receipt_result_of_def sample_batch_def lift_selection_def selectionSHA256_def selectionCanonicalJSON_def Let_def)
qed

lemma sample_accept: "\<exists>results db'. accept_transaction (sample_batch lane) 100 (accept_db lane) (accept_db lane) = Inr (results, db') \<and> db_tenants db' = db_tenants (accept_db lane) \<and>
  db_installation db' = db_installation (accept_db lane) \<and> db_generation db' = 1 \<and> distinct (map re_acceptance (db_receipts db'))"
proof -
  let ?b = "sample_batch lane" and ?db = "accept_db lane" and ?l = "\<lparr>la_tenant = 1, la_id = lane, la_accepted = 4, la_published = 4, la_generation = 4, la_received = 50\<rparr>"
  have rq: "vb_requests ?b = [sample_request]" by (simp add: sample_batch_def)
  have look: "lookupAndClassify ?b ?db = Inr ([], [request_id sample_request])"
    by (simp add: lookupAndClassify_def lookupReceipts_def classifyExisting_def classify_request_def rq accept_db_def jobs_db_def)
  have auth: "lockProjectAuthorities ?b 1 ?db = Inr [(7, 30)]"
    by (simp add: lockProjectAuthorities_def collect_authority_def lock_authority_def authority_cause_def authority_of_def rq)
      (simp add: sample_request_def sample_batch_def accept_db_def jobs_db_def)
  obtain r where r: "buildReceiptResults ?b [[ReceiptAccepted, ReceiptDuplicate, ReceiptConflict, ReceiptAccepted]] 5 100 = Inr [r]" "rr_lane r = lane" "rr_tenant r = 1" "rr_seq r = 5"
    "selectionCanonicalJSON class_order (rr_selection r) 4 = Inr (selection_json (rr_selection r))" using sample_receipts by blast
  have "\<exists>db'. accept_fresh ?b [(7, 30)] 100 ?l ?db = Inr ([r], db') \<and> db_tenants db' = db_tenants ?db \<and> db_installation db' = db_installation ?db \<and> db_generation db' = 1 \<and>
    distinct (map re_acceptance (db_receipts db'))"
    using r by (simp add: accept_fresh_def sample_select lockJournalIntent_def insert_batch_def insertReceiptsAndDiagnostics_def insert_request_def rq insert_receipt_def checkedOutcomeTotals_def
      insert_job_def reference_journal_def extend_lane_def affected_def lift_selection_def Let_def) (simp add: accept_db_def jobs_db_def sample_batch_def sample_request_def update_where_def)
  moreover have "find (\<lambda>t. tn_id t = vb_tenant ?b) (db_tenants ?db) = Some \<lparr>tn_id = 1, tn_state = ''active'', tn_revision = 1\<rparr>" "db_installation ?db = vb_installation ?b"
    "db_generation ?db = vb_generation ?b" "find (\<lambda>l. la_tenant l = vb_tenant ?b \<and> la_id l = vb_lane ?b) (db_lanes ?db) = Some ?l"
    by (simp_all add: accept_db_def jobs_db_def sample_batch_def)
  ultimately show ?thesis using look auth by (simp add: accept_transaction_def accept_locked_def after_lookup_def) blast
qed

theorem acceptance_is_idempotent_witness:
  "\<exists>lane results db'. accept_transaction (sample_batch lane) 100 (accept_db lane) (accept_db lane) = Inr (results, db') \<and>
    accept (sample_batch lane) [Ran 200 db' db'] = (Inr results, Some db') \<and> map rr_acceptance results = [request_id sample_request]"
proof -
  obtain lane where l: "laneForAcceptance (newAcceptanceID ''aaaaaaaaaaaaaaa1'') = Inr lane" "0 \<le> lane" "lane < LaneCount"
    using newAcceptanceID_lane [of "''aaaaaaaaaaaaaaa1''"] by auto
  let ?b = "sample_batch lane" and ?db = "accept_db lane"
  obtain results db' where a: "accept_transaction ?b 100 ?db ?db = Inr (results, db')" "db_tenants db' = db_tenants ?db" "db_installation db' = db_installation ?db" "db_generation db' = 1"
    "distinct (map re_acceptance (db_receipts db'))" using sample_accept by blast
  have s: "receipts_survive ?b ?db ?db" by (simp add: receipts_survive_def)
  have t: "db_installation db' = vb_installation ?b" "db_generation db' = vb_generation ?b"
    "find (\<lambda>t. tn_id t = vb_tenant ?b) (db_tenants db') = Some \<lparr>tn_id = 1, tn_state = ''active'', tn_revision = 1\<rparr>"
    using a(2-4) by (simp_all add: accept_db_def sample_batch_def)
  have "accept ?b [Ran 200 db' db'] = (Inr results, Some db') \<and> map rr_acceptance results = map request_id (vb_requests ?b)"
    using acceptance_is_idempotent [OF sample_batch_valid [OF l] a(1) s refl a(5) t] by simp
  moreover have "map request_id (vb_requests ?b) = [request_id sample_request]" by (simp add: sample_batch_def)
  ultimately show ?thesis using a(1) by (intro exI [of _ lane] exI [of _ results] exI [of _ db']) simp
qed

end
