(* ===== verification/Prepare.thy ===== *)
theory Prepare
  imports Publish AcceptFacts
begin

section \<open>Preparing an output\<close>

text \<open>
  \<open>internal/control/prepare.go\<close>: the transaction in which a conversion worker hands over its output. It
  checks the local part files and the occurrence file against the command, stores the manifest root,
  the parts and the occurrences, references the uploaded objects and releases the lease. Local files
  are maps from paths to contents; the files are read twice, before and inside the transaction, so
  there are two maps. A failure rolls the transaction back, so the order in which two faults of the
  same occurrence file are noticed is not kept.
\<close>

record prepared_part_input =
  pp_index :: int
  pp_path :: string
  pp_bytes :: int
  pp_sha :: string

record prepare_command =
  pq_authority :: job_authority
  pq_tenant :: int
  pq_lane :: int
  pq_seq :: int
  pq_root :: output_root
  pq_parts :: "prepared_part_input list"
  pq_occ_path :: string
  pq_occ_bytes :: int
  pq_occ_sha :: string

type_synonym local_files = "string \<rightharpoonup> string"

definition is_abs :: "string \<Rightarrow> bool" where
  "is_abs path = has_prefix path ''/''"

definition validatePrepareCommand :: "prepare_command \<Rightarrow> control_error + string \<times> string" where
  "validatePrepareCommand c =
    (let h = rt_header (pq_root c) in
     if pq_tenant c \<le> 0 \<or> pq_lane c < 0 \<or> pq_lane c \<ge> LaneCount \<or> pq_seq c \<le> 0 \<or> \<not> valid_authority (pq_authority c) \<or> \<not> is_abs (pq_occ_path c) \<or>
       pq_occ_bytes c \<le> 0 \<or> pq_occ_bytes c > MaxManifestBytes \<or> \<not> validSHA (pq_occ_sha c) then Inl ErrInvalidCommand
     else if oh_output h = [] \<or> oh_job h \<noteq> ja_job (pq_authority c) \<or> oh_tenant h \<noteq> pq_tenant c \<or> oh_lane h \<noteq> pq_lane c \<or> oh_seq h \<noteq> pq_seq c \<or>
       oh_occurrences h \<noteq> pq_occ_sha c \<or> length (pq_parts c) \<noteq> length (elems (rt_parts (pq_root c))) then Inl ErrPrepared
     else case rootCanonicalJSON (pq_root c) of Inl _ \<Rightarrow> Inl ErrManifest | Inr encoded \<Rightarrow> Inr (encoded, sha256_hex encoded))"

definition verifyLocalFile :: "local_files \<Rightarrow> string \<Rightarrow> int \<Rightarrow> string \<Rightarrow> control_error + unit" where
  "verifyLocalFile files path bytes sha =
    (case files path of None \<Rightarrow> Inl ErrEvidence
     | Some data \<Rightarrow> let seen = take (nat (bytes + 1)) data in check (int (length seen) = bytes \<and> sha256_hex seen = sha) ErrEvidence)"

definition verify_part :: "local_files \<Rightarrow> part_ref list \<Rightarrow> int \<Rightarrow> nat \<times> prepared_part_input \<Rightarrow> control_error + int" where
  "verify_part files refs acc x = (case x of (index, p) \<Rightarrow>
    if pp_index p \<noteq> int index \<or> \<not> is_abs (pp_path p) \<or> pp_bytes p \<le> 0 \<or> pp_bytes p > MaxManifestPartBytes \<or> \<not> validSHA (pp_sha p) \<or> pp_sha p \<noteq> rf_sha (refs ! index)
    then Inl ErrEvidence
    else bindR (verifyLocalFile files (pp_path p) (pp_bytes p) (pp_sha p)) (\<lambda>_.
      let acc' = add64 acc (pp_bytes p) in if acc' > MaxManifestBytes then Inl ErrEvidence else Inr acc'))"

definition verifyPreparedInputs :: "prepare_command \<Rightarrow> local_files \<Rightarrow> control_error + unit" where
  "verifyPreparedInputs c files =
    bindR (foldR (verify_part files (elems (rt_parts (pq_root c)))) 0 (enumerate 0 (pq_parts c))) (\<lambda>_.
      verifyLocalFile files (pq_occ_path c) (pq_occ_bytes c) (pq_occ_sha c))"

subsection \<open>Locking the job and the batch\<close>

text \<open>\<open>True\<close> stands for \<open>errPrepareAlreadyCommitted\<close>.\<close>

definition lockPrepareJob :: "prepare_command \<Rightarrow> string \<Rightarrow> int \<Rightarrow> control_db \<Rightarrow> control_error + bool" where
  "lockPrepareJob c sha now db =
    (let a = pq_authority c; output = oh_output (rt_header (pq_root c)) in
     case find (\<lambda>j. jo_id j = ja_job a) (db_jobs db) of None \<Rightarrow> Inl ErrNoRows
     | Some j \<Rightarrow>
       if jo_tenant j \<noteq> pq_tenant c \<or> jo_lane j \<noteq> pq_lane c \<or> jo_seq j \<noteq> pq_seq c \<or> jo_generation j \<noteq> ja_generation a then Inl ErrJobFenceStale
       else if jo_state j = ''prepared'' \<and> jo_output j = Some output then
         (case find (\<lambda>w. ou_id w = output \<and> ou_state w = ''prepared'') (db_outputs db) of None \<Rightarrow> Inl ErrNoRows
          | Some w \<Rightarrow> if ou_sha w = sha then Inr True else Inl ErrCompletedConflict)
       else if jo_state j \<noteq> ''running'' \<or> owner_text j \<noteq> ja_owner a \<or> jo_fence j \<noteq> ja_fence a then Inl ErrJobFenceStale
       else if \<not> lease_live now j then Inl ErrJobFenceStale
       else Inr False)"

definition receipt_line :: "receipt_row \<Rightarrow> string" where
  "receipt_line r = printJson marshalString (JObj [(''acceptance_id'', JStr (re_acceptance r)), (''selection_sha256'', JStr (re_selection_sha r))]) @ [CHR 0x0A]"

definition batch_receipt_rows :: "prepare_command \<Rightarrow> control_db \<Rightarrow> receipt_row list" where
  "batch_receipt_rows c db = sortBy (\<lambda>x y. byte_less (re_acceptance x) (re_acceptance y))
    (filter (\<lambda>r. re_tenant r = pq_tenant c \<and> re_lane r = pq_lane c \<and> re_seq r = pq_seq c) (db_receipts db))"

definition validatePrepareBatch :: "prepare_command \<Rightarrow> control_db \<Rightarrow> control_error + unit" where
  "validatePrepareBatch c db =
    (let h = rt_header (pq_root c); rows = batch_receipt_rows c db in
     case find (\<lambda>b. ba_tenant b = pq_tenant c \<and> ba_lane b = pq_lane c \<and> ba_seq b = pq_seq c) (db_batches db) of None \<Rightarrow> Inl ErrNoRows
     | Some b \<Rightarrow>
       if ba_state b \<noteq> ''accepted'' \<or> ba_journal_sha b \<noteq> oh_journal h \<or> ba_accepted b \<noteq> oh_records h then Inl ErrInputDiffers
       else if \<not> list_all (\<lambda>r. re_gversion r = oh_gversion h) rows then Inl ErrInputDiffers
       else check (sha256_hex (concat (map receipt_line rows)) = oh_receipts h) ErrInputDiffers)"

subsection \<open>Storing the manifest\<close>

text \<open>\<open>job_outputs\<close> is unique in its identifier and in (job, fence).\<close>

definition insert_output :: "prepare_command \<Rightarrow> string \<Rightarrow> string \<Rightarrow> control_db \<Rightarrow> control_error + control_db" where
  "insert_output c encoded sha db =
    (let a = pq_authority c;
         row = \<lparr>ou_id = oh_output (rt_header (pq_root c)), ou_tenant = pq_tenant c, ou_job = ja_job a, ou_header = encoded, ou_sha = sha, ou_state = ''prepared'', ou_fence = ja_fence a\<rparr> in
     if list_ex (\<lambda>w. ou_id w = ou_id row \<or> ou_job w = ou_job row \<and> ou_fence w = ou_fence row) (db_outputs db) then Inl ErrUnique
     else Inr (db\<lparr>db_outputs := db_outputs db @ [row]\<rparr>))"

definition insert_part :: "part_row \<Rightarrow> control_db \<Rightarrow> control_error + control_db" where
  "insert_part p db = (if list_ex (\<lambda>x. pt_output x = pt_output p \<and> pt_index x = pt_index p) (db_parts db) then Inl ErrUnique
    else Inr (db\<lparr>db_parts := db_parts db @ [p]\<rparr>))"

definition read_prepared :: "local_files \<Rightarrow> prepared_part_input \<Rightarrow> control_error + string" where
  "read_prepared files p =
    (case files (pp_path p) of None \<Rightarrow> Inl ErrEvidence
     | Some encoded \<Rightarrow> if int (length encoded) \<noteq> pp_bytes p then Inl ErrEvidence else if sha256_hex encoded \<noteq> pp_sha p then Inl ErrEvidence else Inr encoded)"

definition store_part :: "prepare_command \<Rightarrow> local_files \<Rightarrow> inspection \<times> control_db \<Rightarrow> nat \<times> prepared_part_input \<Rightarrow> control_error + inspection \<times> control_db" where
  "store_part c files s x = (case x of (index, p) \<Rightarrow>
    bindR (read_prepared files p) (\<lambda>encoded.
    bindR (decode_part index encoded) (\<lambda>bundles.
    bindR (foldR (inspect_bundle (pq_seq c)) (fst s) bundles) (\<lambda>seen.
    bindR (insert_part \<lparr>pt_output = oh_output (rt_header (pq_root c)), pt_index = int index, pt_json = encoded, pt_sha = pp_sha p\<rparr> (snd s)) (\<lambda>db'.
      Inr (seen, db'))))))"

definition insertPreparedParts :: "prepare_command \<Rightarrow> local_files \<Rightarrow> control_db \<Rightarrow> control_error + inspection \<times> control_db" where
  "insertPreparedParts c files db = foldR (store_part c files) (([], (0, 0, 0)), db) (enumerate 0 (pq_parts c))"

subsection \<open>The occurrence file\<close>

record occurrence_summary =
  sm_record :: string
  sm_project :: int
  sm_acceptance :: string
  sm_lane :: int
  sm_seq :: int
  sm_ordinal :: int
  sm_time :: int
  sm_ns :: int
  sm_received :: int
  sm_release :: "string option"
  sm_issue :: string
  sm_gversion :: int
  sm_fingerprint :: string
  sm_title :: string

definition summary_fields :: "string list" where
  "summary_fields = [''record_id'', ''project_id'', ''acceptance_id'', ''lane_id'', ''batch_seq'', ''ordinal'', ''event_time_us'', ''event_ns'', ''received_time_us'', ''release_json'',
    ''issue_id'', ''grouping_version'', ''fingerprint_sha256'', ''title_json'']"

definition set_summary :: "string \<Rightarrow> json \<Rightarrow> occurrence_summary \<Rightarrow> occurrence_summary option" where
  "set_summary k x s =
    (if k = ''record_id'' then put_str x (\<lambda>v. s\<lparr>sm_record := v\<rparr>) s
     else if k = ''project_id'' then put_int x (\<lambda>v. s\<lparr>sm_project := v\<rparr>) s
     else if k = ''acceptance_id'' then put_str x (\<lambda>v. s\<lparr>sm_acceptance := v\<rparr>) s
     else if k = ''lane_id'' then put_int x (\<lambda>v. s\<lparr>sm_lane := v\<rparr>) s
     else if k = ''batch_seq'' then put_int x (\<lambda>v. s\<lparr>sm_seq := v\<rparr>) s
     else if k = ''ordinal'' then put_int x (\<lambda>v. s\<lparr>sm_ordinal := v\<rparr>) s
     else if k = ''event_time_us'' then put_int x (\<lambda>v. s\<lparr>sm_time := v\<rparr>) s
     else if k = ''event_ns'' then put_uint16 x (\<lambda>v. s\<lparr>sm_ns := v\<rparr>) s
     else if k = ''received_time_us'' then put_int x (\<lambda>v. s\<lparr>sm_received := v\<rparr>) s
     else if k = ''release_json'' then put_pointer x (\<lambda>v. s\<lparr>sm_release := v\<rparr>)
     else if k = ''issue_id'' then put_str x (\<lambda>v. s\<lparr>sm_issue := v\<rparr>) s
     else if k = ''grouping_version'' then put_int x (\<lambda>v. s\<lparr>sm_gversion := v\<rparr>) s
     else if k = ''fingerprint_sha256'' then put_str x (\<lambda>v. s\<lparr>sm_fingerprint := v\<rparr>) s
     else if k = ''title_json'' then put_str x (\<lambda>v. s\<lparr>sm_title := v\<rparr>) s
     else None)"

definition zero_summary :: occurrence_summary where
  "zero_summary = \<lparr>sm_record = [], sm_project = 0, sm_acceptance = [], sm_lane = 0, sm_seq = 0, sm_ordinal = 0, sm_time = 0, sm_ns = 0, sm_received = 0, sm_release = None,
    sm_issue = [], sm_gversion = 0, sm_fingerprint = [], sm_title = []\<rparr>"

definition summary_of :: "json \<Rightarrow> occurrence_summary option" where
  "summary_of = decode_struct summary_fields set_summary zero_summary"

definition version_of :: "json \<Rightarrow> int option" where
  "version_of = decode_struct [''version''] (\<lambda>k x s. put_int x id s) 0"

definition validJSONString :: "string \<Rightarrow> bool" where
  "validJSONString v = (case unmarshalJson v of Some (JStr s) \<Rightarrow> int (length (runes s)) \<le> 512 | Some JNull \<Rightarrow> True | _ \<Rightarrow> False)"

definition validOptionalJSONString :: "string option \<Rightarrow> bool" where
  "validOptionalJSONString v = (case v of None \<Rightarrow> True | Some s \<Rightarrow> validJSONString s)"

text \<open>\<open>bufio.Scanner\<close> with \<open>ScanLines\<close>: lines end at a line feed, a last line may lack it, a trailing carriage return is dropped.\<close>

fun raw_lines :: "string \<Rightarrow> string \<Rightarrow> string list" where
  "raw_lines [] line = (if line = [] then [] else [rev line])"
| "raw_lines (c # cs) line = (if c = CHR 0x0A then rev line # raw_lines cs [] else raw_lines cs (c # line))"

definition drop_cr :: "string \<Rightarrow> string" where
  "drop_cr l = (if l \<noteq> [] \<and> last l = CHR 0x0D then butlast l else l)"

definition maxTokenSize :: int where
  "maxTokenSize = 1064960"

definition summary_ok :: "prepare_command \<Rightarrow> string \<Rightarrow> occurrence_summary \<Rightarrow> bool" where
  "summary_ok c previous s = (byte_less previous (sm_record s) \<and> validSHA (sm_record s) \<and> sm_lane s = pq_lane c \<and> sm_seq s = pq_seq c \<and> 0 < sm_project s \<and> 0 \<le> sm_ordinal s \<and>
    sm_ns s \<le> 999 \<and> validSHA (sm_issue s) \<and> sm_issue s = sm_fingerprint s \<and> sm_gversion s = oh_gversion (rt_header (pq_root c)) \<and> validJSONString (sm_title s) \<and>
    validOptionalJSONString (sm_release s))"

definition durable_of :: "occurrence_summary \<Rightarrow> durable_occurrence" where
  "durable_of s = \<lparr>du_occ = \<lparr>o_record = sm_record s, o_lane = sm_lane s, o_seq = sm_seq s, o_time = sm_time s, o_ns = sm_ns s, o_received = sm_received s, o_release = sm_release s\<rparr>,
    du_project = sm_project s, du_acceptance = sm_acceptance s, du_ordinal = sm_ordinal s, du_issue = sm_issue s, du_gversion = sm_gversion s, du_fingerprint = sm_fingerprint s,
    du_title_json = sm_title s\<rparr>"

text \<open>\<open>job_output_occurrences\<close> is unique in (output, record).\<close>

definition insert_prepared :: "string \<Rightarrow> durable_occurrence \<Rightarrow> control_db \<Rightarrow> control_error + control_db" where
  "insert_prepared output d db = (if list_ex (\<lambda>x. fst x = output \<and> o_record (du_occ (snd x)) = o_record (du_occ d)) (db_prepared db) then Inl ErrUnique
    else Inr (db\<lparr>db_prepared := db_prepared db @ [(output, d)]\<rparr>))"

definition store_line :: "prepare_command \<Rightarrow> string \<times> control_db \<Rightarrow> string \<Rightarrow> control_error + string \<times> control_db" where
  "store_line c s line =
    (case strictControlJSON summary_of (drop_cr line) of None \<Rightarrow> Inl ErrPrepared
     | Some m \<Rightarrow> if \<not> summary_ok c (fst s) m then Inl ErrPrepared
       else bindR (insert_prepared (oh_output (rt_header (pq_root c))) (durable_of m) (snd s)) (\<lambda>db'. Inr (sm_record m, db')))"

definition insertPreparedOccurrences :: "prepare_command \<Rightarrow> local_files \<Rightarrow> control_db \<Rightarrow> control_error + int \<times> control_db" where
  "insertPreparedOccurrences c files db =
    (case files (pq_occ_path c) of None \<Rightarrow> Inl ErrEvidence
     | Some data \<Rightarrow>
       (let seen = take (nat (pq_occ_bytes c + 1)) data in
        case raw_lines seen [] of [] \<Rightarrow> Inl ErrPrepared
        | first # rest \<Rightarrow>
          if list_ex (\<lambda>l. int (length l) \<ge> maxTokenSize) (first # rest) then Inl ErrPrepared
          else if strictControlJSON version_of (drop_cr first) \<noteq> Some 1 then Inl ErrPrepared
          else bindR (foldR (store_line c) ([], db) rest) (\<lambda>(_, db').
            if int (length seen) \<noteq> pq_occ_bytes c \<or> sha256_hex seen \<noteq> pq_occ_sha c then Inl ErrEvidence else Inr (int (length rest), db'))))"

subsection \<open>References and the transaction\<close>

definition upload_matches :: "prepare_command \<Rightarrow> prepared_intent \<Rightarrow> intent_row \<Rightarrow> bool" where
  "upload_matches c want i = (let a = pq_authority c; f = pi_file want in
    in_kind i = pi_role want \<and> in_state i = ''uploaded'' \<and> in_owner i = ja_owner a \<and> in_fence i = ja_fence a \<and> in_generation i = ja_generation a \<and>
    in_bytes i = fm_bytes f \<and> in_uploaded_bytes i = Some (fm_bytes f) \<and> in_sha i = fm_sha f \<and> in_uploaded_sha i = Some (fm_sha f) \<and>
    in_job i = Some (ja_job a) \<and> in_producer_generation i = Some (in_generation i) \<and> in_producer_fence i = Some (ja_fence a))"

definition check_upload :: "prepare_command \<Rightarrow> (string \<times> prepared_intent) list \<Rightarrow> control_db \<Rightarrow> string \<Rightarrow> control_error + unit" where
  "check_upload c intents db k =
    (case (map_of intents k, find (\<lambda>i. in_tenant i = pq_tenant c \<and> in_id i = k) (db_intents db)) of
       (Some want, Some i) \<Rightarrow> if \<not> scannable i then Inl ErrScan else check (upload_matches c want i) ErrIntentStale
     | _ \<Rightarrow> Inl ErrNoRows)"

definition referencePreparedIntents :: "prepare_command \<Rightarrow> (string \<times> prepared_intent) list \<Rightarrow> int \<Rightarrow> control_db \<Rightarrow> control_error + control_db" where
  "referencePreparedIntents c intents now db =
    (let ids = sortBy byte_less (map fst intents);
         P = (\<lambda>i. in_tenant i = pq_tenant c \<and> in_id i \<in> set ids \<and> in_state i = ''uploaded'') in
     bindR (foldR (\<lambda>_. check_upload c intents db) () ids) (\<lambda>_.
       if ids = [] then Inr db
       else if affected P (db_intents db) \<noteq> length ids then Inl ErrIntentStale
       else Inr (db\<lparr>db_intents := update_where P (\<lambda>i. i\<lparr>in_state := ''referenced'', in_protect := None, in_updated := now\<rparr>) (db_intents db)\<rparr>)))"

definition release_job :: "prepare_command \<Rightarrow> int \<Rightarrow> control_db \<Rightarrow> control_error + control_db" where
  "release_job c now db =
    (let P = holds_lease (pq_authority c) now in
     if affected P (db_jobs db) \<noteq> 1 then Inl ErrJobFenceStale
     else Inr (db\<lparr>db_jobs := update_where P (\<lambda>j. j\<lparr>jo_state := ''prepared'', jo_output := Some (oh_output (rt_header (pq_root c))), jo_owner := None, jo_lease := None,
       jo_updated := now\<rparr>) (db_jobs db)\<rparr>))"

definition prepare_fresh :: "prepare_command \<Rightarrow> local_files \<Rightarrow> string \<times> string \<Rightarrow> int \<Rightarrow> control_db \<Rightarrow> control_error + control_db" where
  "prepare_fresh c files root now db =
    (let h = rt_header (pq_root c) in
     bindR (validatePrepareBatch c db) (\<lambda>_.
     bindR (insert_output c (fst root) (snd root) db) (\<lambda>db1.
     bindR (insertPreparedParts c files db1) (\<lambda>((intents, n, rows, errs), db2).
       if n \<noteq> oh_bundles h \<or> rows \<noteq> oh_records h \<or> errs \<noteq> oh_errors h then Inl ErrPrepared
       else bindR (insertPreparedOccurrences c files db2) (\<lambda>(found, db3).
         if found \<noteq> oh_errors h then Inl ErrPrepared
         else bindR (referencePreparedIntents c intents now db3) (release_job c now))))))"

definition prepare :: "prepare_command \<Rightarrow> local_files \<Rightarrow> local_files \<Rightarrow> int \<Rightarrow> control_db \<Rightarrow> control_error + control_db" where
  "prepare c before files now db =
    bindR (validatePrepareCommand c) (\<lambda>root.
    bindR (verifyPreparedInputs c before) (\<lambda>_.
    bindR (lockRuntimeGeneration (ja_installation (pq_authority c)) (ja_generation (pq_authority c)) db) (\<lambda>_.
    bindR (lockPrepareJob c (snd root) now db) (\<lambda>already.
      if already then Inr db else prepare_fresh c files root now db))))"

subsection \<open>The publisher\<close>

text \<open>The command that \<open>VerifyAndPublish\<close> of \<open>internal/ingest/publication.go\<close> makes from a claimed publication.\<close>

definition publish_command_of :: "publication_job \<Rightarrow> publish_command" where
  "publish_command_of job = \<lparr>pc_authority = pj_authority job, pc_tenant = pj_tenant job, pc_lane = pj_lane job, pc_seq = pj_seq job, pc_output = pj_output job, pc_manifest = pj_manifest job\<rparr>"

end
