(* ===== verification/PrepareFacts.thy ===== *)
theory PrepareFacts
  imports Prepare
begin

section \<open>A prepared output can be published\<close>

text \<open>
  What a preparation leaves in the tables, and the composition with \<open>Jobs\<close> and \<open>Publish\<close>: the claim
  and the publication that follow accept what was prepared.
\<close>

subsection \<open>The stored parts\<close>

definition part_rows :: "string \<Rightarrow> nat \<Rightarrow> (prepared_part_input \<times> string) list \<Rightarrow> part_row list" where
  "part_rows output k xs = map (\<lambda>(i, p, e). \<lparr>pt_output = output, pt_index = int i, pt_json = e, pt_sha = pp_sha p\<rparr>) (enumerate k xs)"

lemma store_part_eq:
  assumes "store_part c files (ins, db) (k, p) = Inr (ins', db')"
  shows "\<exists>e bs. decode_part k e = Inr bs \<and> sha256_hex e = pp_sha p \<and> foldR (inspect_bundle (pq_seq c)) ins bs = Inr ins' \<and>
    db' = db\<lparr>db_parts := db_parts db @ part_rows (oh_output (rt_header (pq_root c))) k [(p, e)]\<rparr>"
proof -
  obtain e where e: "read_prepared files p = Inr e" using assms by (auto simp: store_part_def bindR_eq_Inr)
  then have "sha256_hex e = pp_sha p" by (auto simp: read_prepared_def split: option.splits if_splits)
  moreover obtain bs where "decode_part k e = Inr bs" "foldR (inspect_bundle (pq_seq c)) ins bs = Inr ins'"
    "insert_part \<lparr>pt_output = oh_output (rt_header (pq_root c)), pt_index = int k, pt_json = e, pt_sha = pp_sha p\<rparr> db = Inr db'"
    using assms e by (auto simp: store_part_def bindR_eq_Inr)
  ultimately show ?thesis by (intro exI [of _ e] exI [of _ bs]) (auto simp: insert_part_def part_rows_def split: if_splits)
qed

lemma store_parts_eq:
  assumes "foldR (store_part c files) (ins, db) (enumerate k ps) = Inr (ins', db')"
  shows "\<exists>es bss. length es = length ps \<and> length bss = length ps \<and> (\<forall>i < length ps. decode_part (k + i) (es ! i) = Inr (bss ! i) \<and> sha256_hex (es ! i) = pp_sha (ps ! i)) \<and>
    foldR (inspect_bundle (pq_seq c)) ins (concat bss) = Inr ins' \<and> db' = db\<lparr>db_parts := db_parts db @ part_rows (oh_output (rt_header (pq_root c))) k (zip ps es)\<rparr>"
  using assms
proof (induction ps arbitrary: ins db k)
  case (Cons p ps)
  let ?o = "oh_output (rt_header (pq_root c))"
  obtain ins1 db1 where one: "store_part c files (ins, db) (k, p) = Inr (ins1, db1)" "foldR (store_part c files) (ins1, db1) (enumerate (Suc k) ps) = Inr (ins', db')"
    using Cons.prems by (auto simp: bindR_eq_Inr)
  obtain e bs where e: "decode_part k e = Inr bs" "sha256_hex e = pp_sha p" "foldR (inspect_bundle (pq_seq c)) ins bs = Inr ins1"
    "db1 = db\<lparr>db_parts := db_parts db @ part_rows ?o k [(p, e)]\<rparr>" using store_part_eq [OF one(1)] by blast
  obtain es bss where IH: "length es = length ps" "length bss = length ps" "\<forall>i < length ps. decode_part (Suc k + i) (es ! i) = Inr (bss ! i) \<and> sha256_hex (es ! i) = pp_sha (ps ! i)"
    "foldR (inspect_bundle (pq_seq c)) ins1 (concat bss) = Inr ins'" "db' = db1\<lparr>db_parts := db_parts db1 @ part_rows ?o (Suc k) (zip ps es)\<rparr>"
    using Cons.IH [OF one(2)] by blast
  have "decode_part (k + i) ((e # es) ! i) = Inr ((bs # bss) ! i) \<and> sha256_hex ((e # es) ! i) = pp_sha ((p # ps) ! i)" if "i < length (p # ps)" for i
    using that e(1,2) IH(3) by (cases i) simp_all
  moreover have "foldR (inspect_bundle (pq_seq c)) ins (concat (bs # bss)) = Inr ins'" using e(3) IH(4) by (simp add: foldR_append)
  moreover have "db' = db\<lparr>db_parts := db_parts db @ part_rows ?o k (zip (p # ps) (e # es))\<rparr>" using e(4) IH(5) by (simp add: part_rows_def)
  ultimately show ?case using IH(1,2) by (intro exI [of _ "e # es"] exI [of _ "bs # bss"]) simp
next
  case Nil
  then show ?case by (intro exI [of _ "[]"]) (simp add: part_rows_def)
qed

lemma find_part_row: "i < length xs \<Longrightarrow> find (\<lambda>p. pt_output p = output \<and> pt_index p = int (k + i)) (part_rows output k xs) =
  Some \<lparr>pt_output = output, pt_index = int (k + i), pt_json = snd (xs ! i), pt_sha = pp_sha (fst (xs ! i))\<rparr>"
proof (induction xs arbitrary: i k)
  case (Cons x xs)
  then show ?case using Cons.IH [of "i - 1" "Suc k"] by (cases i; cases x) (simp_all add: part_rows_def)
qed simp

lemma walk_reads:
  assumes "mapR (read_part output (elems (rt_parts r)) parts) [0..<length (elems (rt_parts r))] = Inr bss" "length (filter (\<lambda>p. pt_output p = output) parts) = length (elems (rt_parts r))"
  shows "walkDurableParts output r parts consume s = foldR consume s (concat bss)"
proof -
  have "foldR (\<lambda>s i. bindR (f i) (foldR consume s)) s is = foldR consume s (concat bss)" if "mapR f is = Inr bss" for f :: "nat \<Rightarrow> _" and "is" bss s
    using that by (induction "is" arbitrary: bss s) (auto simp: bindR_eq_Inr foldR_append)
  from this [OF assms(1)] show ?thesis using assms(2) by (simp add: walkDurableParts_def Let_def bindR_def split: sum.splits)
qed

text \<open>Walking the parts that \<open>insertPreparedParts\<close> stored visits the bundles it inspected.\<close>

lemma walk_stored_parts:
  assumes "length es = length ps" "length bss = length ps" "\<forall>i < length ps. decode_part i (es ! i) = Inr (bss ! i) \<and> sha256_hex (es ! i) = pp_sha (ps ! i) \<and> pp_sha (ps ! i) = rf_sha (elems (rt_parts r) ! i)"
    "refs_ok (elems (rt_parts r))" "length (elems (rt_parts r)) = length ps" "\<forall>p \<in> set parts. pt_output p \<noteq> output"
  shows "walkDurableParts output r (parts @ part_rows output 0 (zip ps es)) consume s = foldR consume s (concat bss)"
proof (rule walk_reads)
  let ?refs = "elems (rt_parts r)" and ?parts = "parts @ part_rows output 0 (zip ps es)"
  have none: "find (\<lambda>p. pt_output p = output \<and> pt_index p = n) parts = None" for n using assms(6) by (auto simp: find_None_iff)
  have "read_part output ?refs ?parts i = Inr (bss ! i)" if i: "i < length ps" for i
  proof -
    have "find (\<lambda>p. pt_output p = output \<and> pt_index p = int i) ?parts = Some \<lparr>pt_output = output, pt_index = int i, pt_json = es ! i, pt_sha = pp_sha (ps ! i)\<rparr>"
      using find_part_row [of i "zip ps es" "output" 0] none i assms(1) by (simp add: find_append)
    moreover have "rf_index (?refs ! i) = int i" using assms(4,5) i by (auto simp: refs_ok_def list_all_length nth_enumerate_eq)
    ultimately show ?thesis using assms(3) i by (simp add: read_part_def)
  qed
  then have "list_all2 (\<lambda>i bs. read_part output ?refs ?parts i = Inr bs) [0..<length ps] bss" using assms(2) by (simp add: list_all2_conv_all_nth)
  then show "mapR (read_part output ?refs ?parts) [0..<length ?refs] = Inr bss" using assms(5) by (simp add: mapR_eq_Inr)
  have "filter (\<lambda>p. pt_output p = output) (part_rows output k xs) = part_rows output k xs" for k xs by (auto simp: part_rows_def filter_id_conv)
  then show "length (filter (\<lambda>p. pt_output p = output) ?parts) = length ?refs" using assms(1,5,6) by (simp add: filter_empty_conv part_rows_def)
qed

subsection \<open>The tables after a preparation\<close>

lemma store_lines_eq: "foldR (store_line c) (prev, db) ls = Inr (last', db') \<Longrightarrow> \<exists>rows. db' = db\<lparr>db_prepared := rows\<rparr>"
proof (induction ls arbitrary: prev db)
  case Nil
  then show ?case by (intro exI [of _ "db_prepared db"]) simp
next
  case (Cons l ls)
  then obtain prev1 db1 where d: "store_line c (prev, db) l = Inr (prev1, db1)" "foldR (store_line c) (prev1, db1) ls = Inr (last', db')" by (auto simp: bindR_eq_Inr)
  then obtain rows1 where "db1 = db\<lparr>db_prepared := rows1\<rparr>" by (auto simp: store_line_def insert_prepared_def bindR_eq_Inr split: option.splits if_splits)
  moreover obtain rows where "db' = db1\<lparr>db_prepared := rows\<rparr>" using Cons.IH [OF d(2)] by blast
  ultimately show ?case by (intro exI [of _ rows]) simp
qed

lemma prepared_occurrences_eq:
  assumes "insertPreparedOccurrences c files db = Inr (n, db')"
  shows "\<exists>rows. db' = db\<lparr>db_prepared := rows\<rparr>"
proof -
  obtain prev ls where "foldR (store_line c) ([], db) ls = Inr (prev, db')"
    using assms by (auto simp: insertPreparedOccurrences_def Let_def bindR_eq_Inr split: option.splits list.splits if_splits prod.splits)
  then show ?thesis by (rule store_lines_eq)
qed

definition output_of :: "prepare_command \<Rightarrow> string" where
  "output_of c = oh_output (rt_header (pq_root c))"

definition uploaded_of :: "prepare_command \<Rightarrow> (string \<times> prepared_intent) list \<Rightarrow> intent_row \<Rightarrow> bool" where
  "uploaded_of c intents i = (in_tenant i = pq_tenant c \<and> in_id i \<in> fst ` set intents \<and> in_state i = ''uploaded'')"

lemma reference_intents_eq:
  assumes "referencePreparedIntents c intents now db = Inr db'"
  shows "db' = db\<lparr>db_intents := update_where (uploaded_of c intents) (\<lambda>i. i\<lparr>in_state := ''referenced'', in_protect := None, in_updated := now\<rparr>) (db_intents db)\<rparr> \<and>
    (\<forall>k \<in> fst ` set intents. check_upload c intents db k = Inr ())"
proof -
  let ?ids = "sortBy byte_less (map fst intents)"
  have ids: "set ?ids = fst ` set intents" by simp
  have fold: "foldR (\<lambda>_. check_upload c intents db) () ?ids = Inr ()" using assms by (auto simp: referencePreparedIntents_def Let_def bindR_eq_Inr)
  have "check_upload c intents db k = Inr ()" if "foldR (\<lambda>_. check_upload c intents db) () ks = Inr u" "k \<in> set ks" for ks k u using that by (induction ks) (auto simp: bindR_eq_Inr)
  then have all: "\<forall>k \<in> fst ` set intents. check_upload c intents db k = Inr ()" using fold ids by blast
  have P: "(\<lambda>i. in_tenant i = pq_tenant c \<and> in_id i \<in> set ?ids \<and> in_state i = ''uploaded'') = uploaded_of c intents" unfolding ids by (simp add: uploaded_of_def fun_eq_iff)
  show ?thesis
  proof (cases "intents = []")
    case True
    then have "update_where (uploaded_of c intents) f xs = xs" for f xs by (intro update_where_none) (simp add: uploaded_of_def)
    then show ?thesis using assms True by (simp add: referencePreparedIntents_def)
  next
    case False
    then show ?thesis using assms all fold unfolding referencePreparedIntents_def Let_def P by (simp split: if_splits)
  qed
qed

lemma verified_digests:
  "foldR (verify_part files refs) acc (enumerate k ps) = Inr t \<Longrightarrow> \<forall>i < length ps. pp_sha (ps ! i) = rf_sha (refs ! (k + i))"
proof (induction ps arbitrary: acc k)
  case (Cons p ps)
  then obtain acc1 where one: "verify_part files refs acc (k, p) = Inr acc1" "foldR (verify_part files refs) acc1 (enumerate (Suc k) ps) = Inr t" by (auto simp: bindR_eq_Inr)
  have "pp_sha p = rf_sha (refs ! k)" using one(1) by (auto simp: verify_part_def split: if_splits)
  moreover have "\<forall>i < length ps. pp_sha (ps ! i) = rf_sha (refs ! (Suc k + i))" by (rule Cons.IH [OF one(2)])
  ultimately show ?case by (auto simp: nth_Cons split: nat.splits)
qed simp

lemma release_job_eq: "release_job c now db = Inr db' \<Longrightarrow> db' = db\<lparr>db_jobs := update_where (holds_lease (pq_authority c) now)
    (\<lambda>j. j\<lparr>jo_state := ''prepared'', jo_output := Some (output_of c), jo_owner := None, jo_lease := None, jo_updated := now\<rparr>) (db_jobs db)\<rparr>"
  by (simp add: release_job_def output_of_def Let_def split: if_splits)

definition prepared_row :: "prepare_command \<Rightarrow> string \<Rightarrow> output_row" where
  "prepared_row c encoded = \<lparr>ou_id = output_of c, ou_tenant = pq_tenant c, ou_job = ja_job (pq_authority c), ou_header = encoded, ou_sha = sha256_hex encoded,
    ou_state = ''prepared'', ou_fence = ja_fence (pq_authority c)\<rparr>"

definition released :: "prepare_command \<Rightarrow> int \<Rightarrow> job_row \<Rightarrow> job_row" where
  "released c now j = j\<lparr>jo_state := ''prepared'', jo_output := Some (output_of c), jo_owner := None, jo_lease := None, jo_updated := now\<rparr>"

lemma prepare_tables:
  assumes "prepare c before files now db = Inr db'" "\<not> list_ex (\<lambda>w. ou_id w = output_of c) (db_outputs db)" "\<forall>p \<in> set (db_parts db). pt_output p \<noteq> output_of c"
  obtains encoded intents where "rootCanonicalJSON (pq_root c) = Inr encoded" "validatePrepareCommand c = Inr (encoded, sha256_hex encoded)" "validatePrepareBatch c db = Inr ()"
    "lockPrepareJob c (sha256_hex encoded) now db = Inr False"
    "\<forall>k \<in> fst ` set intents. check_upload c intents db k = Inr ()"
    "walkDurableParts (output_of c) (pq_root c) (db_parts db') (inspect_bundle (pq_seq c)) ([], (0, 0, 0)) =
       Inr (intents, oh_bundles (rt_header (pq_root c)), oh_records (rt_header (pq_root c)), oh_errors (rt_header (pq_root c)))"
    "db_outputs db' = db_outputs db @ [prepared_row c encoded]" "db_batches db' = db_batches db"
    "db_intents db' = update_where (uploaded_of c intents) (\<lambda>i. i\<lparr>in_state := ''referenced'', in_protect := None, in_updated := now\<rparr>) (db_intents db)"
    "db_jobs db' = update_where (holds_lease (pq_authority c) now) (released c now) (db_jobs db)"
proof -
  let ?h = "rt_header (pq_root c)"
  obtain root where r: "validatePrepareCommand c = Inr root" "verifyPreparedInputs c before = Inr ()" using assms(1) by (auto simp: prepare_def bindR_eq_Inr)
  then obtain encoded where e: "root = (encoded, sha256_hex encoded)" "rootCanonicalJSON (pq_root c) = Inr encoded" "length (pq_parts c) = length (elems (rt_parts (pq_root c)))"
    by (auto simp: validatePrepareCommand_def Let_def split: if_splits sum.splits)
  obtain already where l: "lockPrepareJob c (sha256_hex encoded) now db = Inr already" "(if already then Inr db else prepare_fresh c files root now db) = Inr db'"
    using assms(1) r e(1) by (auto simp: prepare_def bindR_eq_Inr)
  have "\<not> already"
  proof
    assume already
    then obtain w where "find (\<lambda>w. ou_id w = output_of c \<and> ou_state w = ''prepared'') (db_outputs db) = Some w"
      using l(1) by (auto simp: lockPrepareJob_def output_of_def Let_def split: option.splits if_splits)
    from find_SomeD [OF this] show False using assms(2) by (auto simp: list_ex_iff)
  qed
  then have fresh: "prepare_fresh c files root now db = Inr db'" and lock: "lockPrepareJob c (sha256_hex encoded) now db = Inr False" using l by simp_all
  obtain db1 intents n m k db2 x db3 db4 where d: "validatePrepareBatch c db = Inr ()" "insert_output c encoded (sha256_hex encoded) db = Inr db1"
    "insertPreparedParts c files db1 = Inr ((intents, n, m, k), db2)" "n = oh_bundles ?h" "m = oh_records ?h" "k = oh_errors ?h" "insertPreparedOccurrences c files db2 = Inr (x, db3)"
    "referencePreparedIntents c intents now db3 = Inr db4" "release_job c now db4 = Inr db'"
    using fresh e(1) by (auto simp: prepare_fresh_def Let_def bindR_eq_Inr split: if_splits)
  obtain es bss where p: "length es = length (pq_parts c)" "length bss = length (pq_parts c)"
    "\<forall>i < length (pq_parts c). decode_part i (es ! i) = Inr (bss ! i) \<and> sha256_hex (es ! i) = pp_sha (pq_parts c ! i)"
    "foldR (inspect_bundle (pq_seq c)) ([], (0, 0, 0)) (concat bss) = Inr (intents, n, m, k)" "db2 = db1\<lparr>db_parts := db_parts db1 @ part_rows (output_of c) 0 (zip (pq_parts c) es)\<rparr>"
    using store_parts_eq [OF d(3) [unfolded insertPreparedParts_def]] by (auto simp: output_of_def)
  have shas: "pp_sha (pq_parts c ! i) = rf_sha (elems (rt_parts (pq_root c)) ! i)" if "i < length (pq_parts c)" for i
    using r(2) verified_digests [of before "elems (rt_parts (pq_root c))" 0 0 "pq_parts c"] that by (auto simp: verifyPreparedInputs_def bindR_eq_Inr)
  have refs: "refs_ok (elems (rt_parts (pq_root c)))" using e(2) by (auto simp: rootCanonicalJSON_def Let_def split: if_splits)
  have d1: "db1 = db\<lparr>db_outputs := db_outputs db @ [prepared_row c encoded]\<rparr>" using d(2) by (simp add: insert_output_def output_of_def prepared_row_def Let_def split: if_splits)
  obtain rows where d3: "db3 = db2\<lparr>db_prepared := rows\<rparr>" using prepared_occurrences_eq [OF d(7)] by blast
  note d4 = reference_intents_eq [OF d(8)]
  have checks: "\<forall>k \<in> fst ` set intents. check_upload c intents db k = Inr ()" using d4 d1 p(5) d3 by (simp add: check_upload_def)
  note d5 = release_job_eq [OF d(9)]
  have "db_parts db' = db_parts db @ part_rows (output_of c) 0 (zip (pq_parts c) es)" using d5 d4 d3 p(5) d1 by simp
  moreover have "walkDurableParts (output_of c) (pq_root c) (db_parts db @ part_rows (output_of c) 0 (zip (pq_parts c) es)) (inspect_bundle (pq_seq c)) ([], (0, 0, 0)) =
    foldR (inspect_bundle (pq_seq c)) ([], (0, 0, 0)) (concat bss)"
    by (rule walk_stored_parts [OF p(1,2) _ refs _ assms(3)]) (use p(3) shas e(3) in simp_all)
  ultimately have walk: "walkDurableParts (output_of c) (pq_root c) (db_parts db') (inspect_bundle (pq_seq c)) ([], (0, 0, 0)) = Inr (intents, oh_bundles ?h, oh_records ?h, oh_errors ?h)"
    using p(4) d(4-6) by simp
  have jobs: "db_jobs db' = update_where (holds_lease (pq_authority c) now) (released c now) (db_jobs db)" using d5 d4 d3 p(5) d1 by (simp add: released_def [abs_def])
  have tables: "db_outputs db' = db_outputs db @ [prepared_row c encoded]" "db_batches db' = db_batches db"
    "db_intents db' = update_where (uploaded_of c intents) (\<lambda>i. i\<lparr>in_state := ''referenced'', in_protect := None, in_updated := now\<rparr>) (db_intents db)"
    using d5 d4 d3 p(5) d1 by simp_all
  show thesis by (rule that [OF e(2) _ d(1) lock checks walk tables jobs]) (use r(1) e(1) in simp)
qed

subsection \<open>From a prepared output to its publication\<close>

text \<open>The row that the claim leaves under a known identifier.\<close>

lemma refenced_row:
  assumes "refence_intents tenant (claimed_intents tenant job db) owner fence gen now db = Inr db'" "distinct (map in_id (db_intents db))"
    "find (\<lambda>i. in_tenant i = tenant \<and> in_id i = k) (db_intents db) = Some i" "in_job i = Some job" "in_state i = ''referenced''" "in_kind i = ''analytics'' \<or> in_kind i = ''payload''"
  obtains upd where "find (\<lambda>i. in_tenant i = tenant \<and> in_id i = k) (db_intents db') = Some (i\<lparr>in_owner := owner, in_fence := fence, in_producer_generation := Some gen,
    in_producer_fence := Some fence, in_updated := upd\<rparr>)" "in_generation i = gen"
proof -
  let ?f = "\<lambda>i. i\<lparr>in_owner := owner, in_fence := fence, in_producer_generation := Some gen, in_producer_fence := Some fence, in_updated := now\<rparr>"
  obtain P where P: "db_intents db' = update_where P ?f (db_intents db)"
  proof (cases "claimed_intents tenant job db = []")
    case True
    then have "db_intents db' = update_where (\<lambda>_. False) ?f (db_intents db)" using assms(1) by (simp add: refence_intents_def update_where_def)
    then show thesis by (rule that)
  next
    case False
    then show thesis using assms(1) that by (auto simp: refence_intents_def Let_def split: if_splits)
  qed
  have found: "find (\<lambda>i. in_tenant i = tenant \<and> in_id i = k) (db_intents db') = Some (if P i then ?f i else i)"
    unfolding P using assms(3) by (subst find_update_where) simp_all
  then have mem: "(if P i then ?f i else i) \<in> set (db_intents db')" using find_SomeD [OF found] by blast
  have "in_tenant i = tenant" using find_SomeD [OF assms(3)] by simp
  then have r: "in_owner x = owner \<and> in_fence x = fence \<and> in_generation x = gen \<and> in_producer_generation x = Some gen \<and> in_producer_fence x = Some fence"
    if "x = (if P i then ?f i else i)" for x
    using refence_all [OF assms(1,2), of x] mem that assms(4-6) by (cases "P i") simp_all
  show thesis
  proof (cases "P i")
    case True
    then show thesis using found r [of "?f i"] by (intro that [of now]) simp_all
  next
    case False
    then have "i\<lparr>in_owner := owner, in_fence := fence, in_producer_generation := Some gen, in_producer_fence := Some fence, in_updated := in_updated i\<rparr> = i"
      using r [of i] by (cases i) simp
    then show thesis using False found r [of i] by (intro that [of "in_updated i"]) simp_all
  qed
qed

lemma refence_keeps_parts: "refence_intents tenant ids owner fence gen now db = Inr db' \<Longrightarrow> db_parts db' = db_parts db"
  by (auto simp: refence_intents_def Let_def split: if_splits)

lemma find_by_key: "distinct (map f xs) \<Longrightarrow> x \<in> set xs \<Longrightarrow> f x = k \<Longrightarrow> find (\<lambda>y. f y = k) xs = Some x"
  by (induction xs) (auto simp: image_iff)

lemma claimed_intents_lock:
  assumes "refence_intents (pq_tenant c) (claimed_intents (pq_tenant c) (ja_job (pq_authority c)) db1) owner fence (ja_generation (pq_authority c)) now' db1 = Inr db2"
    "distinct (map in_id (db_intents db))" "db_intents db1 = update_where (uploaded_of c intents) (\<lambda>i. i\<lparr>in_state := ''referenced'', in_protect := None, in_updated := now\<rparr>) (db_intents db)"
    "check_upload c intents db k = Inr ()" "k \<in> fst ` set intents" "\<forall>x \<in> set intents. pi_role (snd x) = ''analytics'' \<or> pi_role (snd x) = ''payload''"
    "ja_job a = ja_job (pq_authority c)" "ja_owner a = owner" "ja_fence a = fence" "ja_generation a = ja_generation (pq_authority c)" "pc_authority p = a" "pc_tenant p = pq_tenant c"
    "db_intents db3 = db_intents db2"
  shows "lock_intent p intents db3 k = Inr ()"
proof -
  obtain want i where w: "map_of intents k = Some want" "find (\<lambda>i. in_tenant i = pq_tenant c \<and> in_id i = k) (db_intents db) = Some i" "scannable i" "upload_matches c want i"
    using assms(4) by (auto simp: check_upload_def check_def split: option.splits if_splits)
  have role: "pi_role want = ''analytics'' \<or> pi_role want = ''payload''" using map_of_SomeD [OF w(1)] assms(6) by force
  have up: "uploaded_of c intents i" using find_SomeD [OF w(2)] w(4) assms(5) by (simp add: uploaded_of_def upload_matches_def Let_def)
  have one: "find (\<lambda>i. in_tenant i = pq_tenant c \<and> in_id i = k) (db_intents db1) = Some (i\<lparr>in_state := ''referenced'', in_protect := None, in_updated := now\<rparr>)"
    unfolding assms(3) using w(2) up by (subst find_update_where) simp_all
  have ids: "distinct (map in_id (db_intents db1))" unfolding assms(3) using assms(2) by (simp add: update_where_map)
  obtain upd where two: "find (\<lambda>i. in_tenant i = pq_tenant c \<and> in_id i = k) (db_intents db2) =
    Some (i\<lparr>in_state := ''referenced'', in_protect := None, in_updated := now\<rparr>\<lparr>in_owner := owner, in_fence := fence, in_producer_generation := Some (ja_generation (pq_authority c)),
      in_producer_fence := Some fence, in_updated := upd\<rparr>)"
    by (rule refenced_row [OF assms(1) ids one]) (insert w(4) role, auto simp: upload_matches_def Let_def)
  show ?thesis using two w(1,3,4) assms(7-13) by (simp add: lock_intent_def scannable_def intent_matches_def upload_matches_def check_def Let_def)
qed

text \<open>The claim of a prepared output leases the job that prepared it and leaves its tables alone.\<close>

lemma prepared_output_claimed:
  assumes "prepare c before files now db = Inr db1" "\<not> list_ex (\<lambda>w. ou_id w = output_of c) (db_outputs db)" "\<forall>p \<in> set (db_parts db). pt_output p \<noteq> output_of c"
    "\<forall>j \<in> set (db_jobs db). jo_output j \<noteq> Some (output_of c)" "distinct (map jo_id (db_jobs db))" "distinct (map in_id (db_intents db))"
    "claimPublicationJob installation gen tenant lane owner lease now' db1 = Inr (Some job, db2)" "pj_output job = output_of c"
  obtains encoded intents fence where "rootCanonicalJSON (pq_root c) = Inr encoded" "validatePrepareCommand c = Inr (encoded, sha256_hex encoded)" "validatePrepareBatch c db = Inr ()"
    "publish_command_of job = \<lparr>pc_authority = \<lparr>ja_installation = installation, ja_generation = ja_generation (pq_authority c), ja_job = ja_job (pq_authority c), ja_owner = owner, ja_fence = fence\<rparr>,
       pc_tenant = pq_tenant c, pc_lane = pq_lane c, pc_seq = pq_seq c, pc_output = output_of c, pc_manifest = sha256_hex encoded\<rparr>" "0 < fence"
    "walkDurableParts (output_of c) (pq_root c) (db_parts db2) (inspect_bundle (pq_seq c)) ([], (0, 0, 0)) =
       Inr (intents, oh_bundles (rt_header (pq_root c)), oh_records (rt_header (pq_root c)), oh_errors (rt_header (pq_root c)))"
    "\<And>k. k \<in> fst ` set intents \<Longrightarrow> \<forall>x \<in> set intents. pi_role (snd x) = ''analytics'' \<or> pi_role (snd x) = ''payload'' \<Longrightarrow> lock_intent (publish_command_of job) intents db2 k = Inr ()"
    "\<And>t. t < pj_lease job \<Longrightarrow> lockPublishJob (publish_command_of job) t db2 = Inr False"
    "db_outputs db2 = db_outputs db @ [prepared_row c encoded]" "db_batches db2 = db_batches db"
  using assms(7)
proof (cases rule: claimPublicationJob_cases)
  case (some l j w dbr job')
  have job: "job' = job" using some(1) by simp
  obtain encoded intents where q: "rootCanonicalJSON (pq_root c) = Inr encoded" "validatePrepareCommand c = Inr (encoded, sha256_hex encoded)" "validatePrepareBatch c db = Inr ()"
    "lockPrepareJob c (sha256_hex encoded) now db = Inr False"
    "\<forall>k \<in> fst ` set intents. check_upload c intents db k = Inr ()"
    "walkDurableParts (output_of c) (pq_root c) (db_parts db1) (inspect_bundle (pq_seq c)) ([], (0, 0, 0)) = Inr (intents, oh_bundles (rt_header (pq_root c)), oh_records (rt_header (pq_root c)), oh_errors (rt_header (pq_root c)))"
    "db_outputs db1 = db_outputs db @ [prepared_row c encoded]" "db_batches db1 = db_batches db"
    "db_intents db1 = update_where (uploaded_of c intents) (\<lambda>i. i\<lparr>in_state := ''referenced'', in_protect := None, in_updated := now\<rparr>) (db_intents db)"
    "db_jobs db1 = update_where (holds_lease (pq_authority c) now) (released c now) (db_jobs db)"
    using prepare_tables [OF assms(1-3)] by metis
  have out: "ou_id w = output_of c" using assms(8) some(8) job by simp
  then have w: "w = prepared_row c encoded" using some(4) assms(2) unfolding q(7) by (auto simp: list_ex_iff)
  have pub: "jo_tenant j = tenant" "jo_lane j = lane" "jo_output j = Some (output_of c)" "jo_generation j = gen" using some(5) out by (simp_all add: publishable_def)
  obtain j0 where j0: "j0 \<in> set (db_jobs db)" "holds_lease (pq_authority c) now j0" "j = released c now j0"
    using some(3) pub(3) assms(4) unfolding q(10) by (auto simp: update_where_def split: if_splits)
  have id: "jo_id j0 = ja_job (pq_authority c)" "jo_generation j0 = ja_generation (pq_authority c)" using j0(2) by (simp_all add: holds_lease_def)
  have found: "find (\<lambda>j. jo_id j = ja_job (pq_authority c)) (db_jobs db) = Some j0" using find_by_key [OF assms(5) j0(1)] id(1) by simp
  then have sc: "jo_tenant j0 = pq_tenant c" "jo_lane j0 = pq_lane c" "jo_seq j0 = pq_seq c" using q(4) by (auto simp: lockPrepareJob_def Let_def split: if_splits)
  have eqs: "tenant = pq_tenant c" "lane = pq_lane c" "gen = ja_generation (pq_authority c)" "jo_id j = ja_job (pq_authority c)" "jo_seq j = pq_seq c"
    using pub sc id j0(3) by (simp_all add: released_def)
  have p: "publish_command_of job = \<lparr>pc_authority = \<lparr>ja_installation = installation, ja_generation = gen, ja_job = ja_job (pq_authority c), ja_owner = owner, ja_fence = jo_fence j + 1\<rparr>,
     pc_tenant = pq_tenant c, pc_lane = pq_lane c, pc_seq = pq_seq c, pc_output = output_of c, pc_manifest = sha256_hex encoded\<rparr>"
    using some(8) job w eqs by (auto simp: publish_command_of_def prepared_row_def)
  have fence: "0 < jo_fence j + 1" using q(2) j0(2,3) by (auto simp: validatePrepareCommand_def valid_authority_def holds_lease_def released_def Let_def split: if_splits)
  note keeps = refence_intents_cases [OF some(7)]
  have "find (\<lambda>j. jo_id j = ja_job (pq_authority c)) (db_jobs db1) = Some j"
    unfolding q(10) using found j0 by (subst find_update_where) (simp_all add: released_def)
  then have "find (\<lambda>j. jo_id j = ja_job (pq_authority c)) (db_jobs db2) = Some (take_lease owner (jo_fence j + 1) lease now' j)"
    unfolding some(9) using keeps eqs(4) by (simp, subst find_update_where) (simp_all add: take_lease_def)
  then have a: "lockPublishJob (publish_command_of job) t db2 = Inr False" if "t < pj_lease job" for t
    using p pub eqs that some(8) job by (simp add: lockPublishJob_def take_lease_def owner_text_def lease_live_def)
  have outs: "db_outputs db2 = db_outputs db @ [prepared_row c encoded]" "db_parts db2 = db_parts db1" "db_batches db2 = db_batches db" "db_intents db2 = db_intents dbr"
    using some(9) keeps refence_keeps_parts [OF some(7)] q(7,8) by simp_all
  have locks: "lock_intent (publish_command_of job) intents db2 k = Inr ()"
    if "k \<in> fst ` set intents" "\<forall>x \<in> set intents. pi_role (snd x) = ''analytics'' \<or> pi_role (snd x) = ''payload''" for k
    by (rule claimed_intents_lock [OF some(7) [unfolded eqs] assms(6) q(9) _ _ that(2) _ _ _ _ refl _ outs(4)]) (use that(1) q(5) eqs p in auto)
  show thesis
  proof (rule that [OF q(1-3) _ fence _ locks a outs(1,3)])
    show "publish_command_of job = \<lparr>pc_authority = \<lparr>ja_installation = installation, ja_generation = ja_generation (pq_authority c), ja_job = ja_job (pq_authority c), ja_owner = owner, ja_fence = jo_fence j + 1\<rparr>,
       pc_tenant = pq_tenant c, pc_lane = pq_lane c, pc_seq = pq_seq c, pc_output = output_of c, pc_manifest = sha256_hex encoded\<rparr>" using p eqs by simp
  qed (use q(6) outs(2) in simp_all)
qed simp

lemma prepared_output_locks:
  assumes "prepare c before files now db = Inr db1" "\<not> list_ex (\<lambda>w. ou_id w = output_of c) (db_outputs db)" "\<forall>p \<in> set (db_parts db). pt_output p \<noteq> output_of c"
    "\<forall>j \<in> set (db_jobs db). jo_output j \<noteq> Some (output_of c)" "distinct (map jo_id (db_jobs db))" "distinct (map in_id (db_intents db))" "root_ok (pq_root c)"
    "claimPublicationJob installation gen tenant lane owner lease now' db1 = Inr (Some job, db2)" "pj_output job = output_of c" "t < pj_lease job"
  defines "p \<equiv> publish_command_of job" and "h \<equiv> rt_header (pq_root c)"
  shows "lockPublishJob p t db2 = Inr False \<and> lockPreparedOutput p db2 = Inr (pq_root c) \<and> validatePublishBatch p (pq_root c) db2 = Inr () \<and>
    (\<exists>intents. inspectDurableParts p (pq_root c) db2 = Inr (intents, oh_bundles h, oh_records h, oh_errors h) \<and> lockPublishIntents p intents db2 = Inr ())"
proof -
  obtain encoded intents fence where q: "rootCanonicalJSON (pq_root c) = Inr encoded" "validatePrepareCommand c = Inr (encoded, sha256_hex encoded)" "validatePrepareBatch c db = Inr ()"
    and p: "p = \<lparr>pc_authority = \<lparr>ja_installation = installation, ja_generation = ja_generation (pq_authority c), ja_job = ja_job (pq_authority c), ja_owner = owner, ja_fence = fence\<rparr>,
       pc_tenant = pq_tenant c, pc_lane = pq_lane c, pc_seq = pq_seq c, pc_output = output_of c, pc_manifest = sha256_hex encoded\<rparr>"
    and walk: "walkDurableParts (output_of c) (pq_root c) (db_parts db2) (inspect_bundle (pq_seq c)) ([], (0, 0, 0)) = Inr (intents, oh_bundles h, oh_records h, oh_errors h)"
    and locks: "\<And>k. k \<in> fst ` set intents \<Longrightarrow> \<forall>x \<in> set intents. pi_role (snd x) = ''analytics'' \<or> pi_role (snd x) = ''payload'' \<Longrightarrow> lock_intent p intents db2 k = Inr ()"
    and a: "lockPublishJob p t db2 = Inr False" and outs: "db_outputs db2 = db_outputs db @ [prepared_row c encoded]" "db_batches db2 = db_batches db"
    using prepared_output_claimed [OF assms(1-6,8,9)] assms(10) unfolding p_def h_def by metis
  have cmd: "oh_output h = output_of c" "oh_job h = ja_job (pq_authority c)" "oh_tenant h = pq_tenant c" "oh_lane h = pq_lane c" "oh_seq h = pq_seq c"
    using q(2) by (auto simp: validatePrepareCommand_def h_def output_of_def Let_def split: if_splits)
  have "find (\<lambda>w. ou_tenant w = pc_tenant p \<and> ou_id w = pc_output p \<and> ou_job w = ja_job (pc_authority p)) (db_outputs db2) = Some (prepared_row c encoded)"
    using assms(2) p unfolding outs by (auto simp: find_append find_None_iff list_ex_iff prepared_row_def split: option.splits dest!: find_SomeD)
  moreover have "encoded = printJson quote_string (root_json (pq_root c))" using q(1) by (auto simp: rootCanonicalJSON_def Let_def split: if_splits)
  then have "strictControlJSON root_of encoded = Some (pq_root c)" using strict_root [OF assms(7)] by simp
  ultimately have b: "lockPreparedOutput p db2 = Inr (pq_root c)"
    using q(1) p cmd by (simp add: lockPreparedOutput_def prepared_row_def root_in_scope_def h_def)
  have d: "validatePublishBatch p (pq_root c) db2 = Inr ()"
    using q(3) p outs by (auto simp: validatePrepareBatch_def validatePublishBatch_def check_def Let_def split: option.splits if_splits)
  have i: "inspectDurableParts p (pq_root c) db2 = Inr (intents, oh_bundles h, oh_records h, oh_errors h)" using walk p by (simp add: inspectDurableParts_def)
  then have roles: "\<forall>x \<in> set intents. pi_role (snd x) = ''analytics'' \<or> pi_role (snd x) = ''payload''" using inspected by (fastforce simp: bundle_intents_def)
  have "foldR (\<lambda>_. lock_intent p intents db2) () ks = Inr ()" if "\<forall>k \<in> set ks. lock_intent p intents db2 k = Inr ()" for ks using that by (induction ks) simp_all
  then have "lockPublishIntents p intents db2 = Inr ()" using locks roles by (simp add: lockPublishIntents_def)
  then show ?thesis using a b d i by blast
qed

text \<open>A claim leaves the lane, the installation and the command as publishing expects them.\<close>

lemma claim_opens_publication:
  assumes "claimPublicationJob installation gen tenant lane owner lease now db = Inr (Some job, db')"
  defines "p \<equiv> publish_command_of job"
  obtains l where "find (\<lambda>x. la_tenant x = pc_tenant p \<and> la_id x = pc_lane p) (db_lanes db') = Some l" "pc_seq p = add64 (la_published l) 1"
    "lockRuntimeGeneration (ja_installation (pc_authority p)) (ja_generation (pc_authority p)) db' = Inr ()" "0 < pc_tenant p" "0 \<le> pc_lane p" "pc_lane p < LaneCount"
    "ja_installation (pc_authority p) \<noteq> []" "0 < ja_generation (pc_authority p)" "ja_owner (pc_authority p) \<noteq> []"
  using assms(1)
proof (cases rule: claimPublicationJob_cases)
  case (some l j w db1 job')
  have g: "db_installation db = installation" "db_generation db = gen" "installation \<noteq> []" "0 < gen" "0 < tenant" "0 \<le> lane" "lane < 16" "owner \<noteq> []"
    using assms by (auto simp: claimPublicationJob_def bindR_eq_Inr lock_generation_ok split: if_splits)
  have "db_installation db1 = db_installation db" "db_generation db1 = db_generation db" "db_lanes db1 = db_lanes db"
    using some(7) by (auto simp: refence_intents_def Let_def split: if_splits)
  then have d: "db_installation db' = installation" "db_generation db' = gen" "db_lanes db' = db_lanes db" using some(9) g by simp_all
  have q: "jo_seq j = add64 (la_published l) 1" using some(5) by (simp add: publishable_def)
  have p: "pc_tenant p = tenant" "pc_lane p = lane" "pc_seq p = jo_seq j" "ja_installation (pc_authority p) = installation" "ja_generation (pc_authority p) = gen" "ja_owner (pc_authority p) = owner"
    using some(1,8) by (simp_all add: p_def publish_command_of_def)
  show thesis by (rule that [of l, unfolded p d(3) lock_generation_ok]) (rule some(2) q conjI d g)+
qed simp

text \<open>
  C8: a prepared output is publishable. After a conversion worker has prepared an output under a
  fresh identifier, whoever claims its publication (within the lease, whatever fence and owner the
  claim assigned) passes every check that publishing makes before it writes the catalog: the command
  is valid, the installation and its generation are the current ones, the lane exists and this batch
  is its next one, the job's fence holds, the stored root decodes to the very root that was prepared,
  the batch is the one it was made from, the stored parts have the counts of the root, and every
  object of every bundle is held under the new fence. Publishing then is exactly the sequence of
  writes (catalog, issues, output and job, lane), except that a lane whose generation counter is
  exhausted is refused. No prepared output is stranded by its own data.
\<close>

theorem prepared_output_passes_publication:
  assumes "prepare c before files now db = Inr db1" "\<not> list_ex (\<lambda>w. ou_id w = output_of c) (db_outputs db)" "\<forall>p \<in> set (db_parts db). pt_output p \<noteq> output_of c"
    "\<forall>j \<in> set (db_jobs db). jo_output j \<noteq> Some (output_of c)" "distinct (map jo_id (db_jobs db))" "distinct (map in_id (db_intents db))" "root_ok (pq_root c)"
    "claimPublicationJob installation gen tenant lane owner lease now' db1 = Inr (Some job, db2)" "pj_output job = output_of c" "t < pj_lease job"
  defines "p \<equiv> publish_command_of job" and "h \<equiv> rt_header (pq_root c)"
  shows "validatePublishCommand p \<and> lockRuntimeGeneration (ja_installation (pc_authority p)) (ja_generation (pc_authority p)) db2 = Inr () \<and>
    lockPublishJob p t db2 = Inr False \<and> lockPreparedOutput p db2 = Inr (pq_root c) \<and> validatePublishBatch p (pq_root c) db2 = Inr () \<and>
    (\<exists>intents. inspectDurableParts p (pq_root c) db2 = Inr (intents, oh_bundles h, oh_records h, oh_errors h) \<and> lockPublishIntents p intents db2 = Inr ()) \<and>
    (\<exists>l. find (\<lambda>x. la_tenant x = pc_tenant p \<and> la_id x = pc_lane p) (db_lanes db2) = Some l \<and> pc_seq p = add64 (la_published l) 1 \<and>
      publish p t db2 = (if la_generation l = maxInt64 then Inl ErrNotNextBatch else
        bindR (insertPublishedCatalog p (pq_root c) (la_generation l + 1) db2) (\<lambda>d1.
        bindR (publishIssueOccurrences (pc_tenant p) (pc_output p) d1) (\<lambda>d2.
        bindR (complete_job (pc_authority p) t (mark_published p d2)) (\<lambda>d3.
        bindR (advance_lane p l (la_generation l + 1) d3) (\<lambda>d4. Inr (\<lparr>px_generation = la_generation l + 1, px_already = False\<rparr>, d4)))))))"
proof -
  note checks = prepared_output_locks [OF assms(1-10), folded p_def h_def]
  then obtain intents where i: "inspectDurableParts p (pq_root c) db2 = Inr (intents, oh_bundles h, oh_records h, oh_errors h)" "lockPublishIntents p intents db2 = Inr ()" by blast
  obtain encoded fence where q: "validatePrepareCommand c = Inr (encoded, sha256_hex encoded)"
    and p: "p = \<lparr>pc_authority = \<lparr>ja_installation = installation, ja_generation = ja_generation (pq_authority c), ja_job = ja_job (pq_authority c), ja_owner = owner, ja_fence = fence\<rparr>,
       pc_tenant = pq_tenant c, pc_lane = pq_lane c, pc_seq = pq_seq c, pc_output = output_of c, pc_manifest = sha256_hex encoded\<rparr>" "0 < fence"
    using prepared_output_claimed [OF assms(1-6,8,9)] unfolding p_def by metis
  obtain l where l: "find (\<lambda>x. la_tenant x = pc_tenant p \<and> la_id x = pc_lane p) (db_lanes db2) = Some l" "pc_seq p = add64 (la_published l) 1"
    and rt: "lockRuntimeGeneration (ja_installation (pc_authority p)) (ja_generation (pc_authority p)) db2 = Inr ()"
    and g: "0 < pc_tenant p" "0 \<le> pc_lane p" "pc_lane p < LaneCount" "ja_installation (pc_authority p) \<noteq> []" "0 < ja_generation (pc_authority p)" "ja_owner (pc_authority p) \<noteq> []"
    by (rule claim_opens_publication [OF assms(8), folded p_def])
  have "0 < pq_seq c" "ja_job (pq_authority c) \<noteq> []" "output_of c \<noteq> []" using q by (auto simp: validatePrepareCommand_def valid_authority_def output_of_def Let_def split: if_splits)
  then have v: "validatePublishCommand p" using g p sha256_hex_validSHA by (simp add: validatePublishCommand_def valid_authority_def)
  have "publish p t db2 = (if la_generation l = maxInt64 then Inl ErrNotNextBatch else publish_output p l t db2)"
    using v rt l checks by (simp add: publish_def)
  moreover have "publish_output p l t db2 = bindR (insertPublishedCatalog p (pq_root c) (la_generation l + 1) db2) (\<lambda>d1.
        bindR (publishIssueOccurrences (pc_tenant p) (pc_output p) d1) (\<lambda>d2.
        bindR (complete_job (pc_authority p) t (mark_published p d2)) (\<lambda>d3.
        bindR (advance_lane p l (la_generation l + 1) d3) (\<lambda>d4. Inr (\<lparr>px_generation = la_generation l + 1, px_already = False\<rparr>, d4)))))"
    using checks i by (simp add: publish_output_def h_def Let_def)
  ultimately show ?thesis using v rt checks l by simp
qed

subsection \<open>A run for the witness\<close>

definition occ_text :: string where
  "occ_text = ''{\"version\":1}'' @ [CHR 0x0A]"

definition fresh_header :: output_header where
  "fresh_header = sample_header\<lparr>oh_receipts := sha256_hex [], oh_occurrences := sha256_hex occ_text\<rparr>"

definition fresh_root :: output_root where
  "fresh_root = \<lparr>rt_version = 1, rt_header = fresh_header, rt_parts = Some [\<lparr>rf_index = 0, rf_sha = sha256_hex (part_text 0 [sample_bundle])\<rparr>]\<rparr>"

definition sample_files :: local_files where
  "sample_files = [''/p'' \<mapsto> part_text 0 [sample_bundle], ''/o'' \<mapsto> occ_text]"

definition prepare_sample :: prepare_command where
  "prepare_sample = \<lparr>pq_authority = \<lparr>ja_installation = ''i'', ja_generation = 1, ja_job = ''j'', ja_owner = ''w'', ja_fence = 5\<rparr>, pq_tenant = 1, pq_lane = 3, pq_seq = 9, pq_root = fresh_root,
    pq_parts = [\<lparr>pp_index = 0, pp_path = ''/p'', pp_bytes = int (length (part_text 0 [sample_bundle])), pp_sha = sha256_hex (part_text 0 [sample_bundle])\<rparr>],
    pq_occ_path = ''/o'', pq_occ_bytes = 14, pq_occ_sha = sha256_hex occ_text\<rparr>"

definition prepare_db :: control_db where
  "prepare_db = (publish_db [])\<lparr>db_outputs := [], db_parts := [], db_jobs := [(sample_job ''j'' 1 ''running'' 5 None)\<lparr>jo_owner := Some ''w'', jo_lease := Some 400\<rparr>],
    db_intents := [(uploaded_intent ''analytics'')\<lparr>in_state := ''uploaded''\<rparr>, (uploaded_intent ''payload'')\<lparr>in_state := ''uploaded''\<rparr>]\<rparr>"

lemmas prepare_defs = prepare_sample_def prepare_db_def sample_defs uploaded_intent_def fresh_root_def fresh_header_def

lemma quoted_hex: "list_all lower_hex_char d \<Longrightarrow> length (quote_string d) = length d + 2"
  by (simp add: quote_string_def escape_lower_hex)

lemma fresh_header_facts:
  "oh_version fresh_header = 1" "oh_output fresh_header = ''o''" "oh_job fresh_header = ''j''" "oh_tenant fresh_header = 1" "oh_lane fresh_header = 3" "oh_seq fresh_header = 9"
  "oh_bundles fresh_header = 1" "oh_records fresh_header = 2" "oh_errors fresh_header = 0" "oh_gversion fresh_header = 1" "oh_journal fresh_header = replicate 64 CHR ''a''"
  "oh_identity fresh_header = replicate 64 CHR ''c''" "oh_receipts fresh_header = sha256_hex []" "oh_occurrences fresh_header = sha256_hex occ_text"
  by (simp_all add: fresh_header_def sample_header_def sample_root_def)

lemma fresh_root_printed: "\<exists>e. rootCanonicalJSON fresh_root = Inr e"
proof -
  let ?d = "sha256_hex (part_text 0 [sample_bundle])"
  have len: "length (sha256_hex m) = 64" "length (quote_string (sha256_hex m)) = 66" for m
    using sha256_hex_valid [of m] quoted_hex [of "sha256_hex m"] by (simp_all add: validManifestSHA_def)
  have sh: "oh_receipts sample_header = replicate 64 CHR ''b''" "oh_occurrences sample_header = replicate 64 CHR ''d''" by (simp_all add: sample_header_def sample_root_def)
  have "length (quote_string (replicate 64 CHR ''b'')) = 66" "length (quote_string (replicate 64 CHR ''d'')) = 66" by code_simp+
  then have "length (printJson quote_string (header_json fresh_header)) = length (printJson quote_string (header_json sample_header))"
    using sh by (simp add: header_json_def fresh_header_def join_with_Cons jint_def len)
  moreover have k: "int (length (printJson quote_string (header_json sample_header))) \<le> 1000" "int (length (quote_string ''version'')) \<le> 20" "int (length (quote_string ''header'')) \<le> 20"
    "int (length (quote_string ''parts'')) \<le> 20" "int (length (quote_string ''index'')) \<le> 20" "int (length (quote_string ''sha256'')) \<le> 20" "int (length (showInt 1)) \<le> 20" "int (length (showInt 0)) \<le> 20"
    by code_simp+
  ultimately have "int (length (printJson quote_string (root_json fresh_root))) \<le> 65536"
    using len by (simp add: fresh_root_def root_json_def jslice_def part_ref_json_def jint_def join_with_Cons)
  moreover have "validManifestSHA (replicate 64 CHR ''a'')" "validManifestSHA (replicate 64 CHR ''c'')" by code_simp+
  ultimately show ?thesis using fresh_header_facts sha256_hex_valid
    by (simp add: rootCanonicalJSON_def valid_header_def refs_ok_def Let_def fresh_root_def)
qed

lemma fresh_root_ok: "root_ok fresh_root"
proof -
  have u: "utf8_valid (sha256_hex m)" for m using utf8_valid_hex unfolding sha256_hex_def by (metis hex_decode_encode)
  have "header_ok sample_header" by (rule sample_header_facts)
  then have "header_ok fresh_header" using u by (simp add: header_ok_def fresh_header_def)
  then show ?thesis using u by (simp add: root_ok_def fresh_root_def slice_ok_def part_ref_ok_def int64_def)
qed

lemma sample_decoded: "decode_part 0 (part_text 0 [sample_bundle]) = Inr [sample_bundle]"
  using sample_part_read by (simp add: read_part_def stored_root_def publish_db_def split: if_splits)

lemma sample_inspected: "inspect_bundle 9 ([], (0, 0, 0)) sample_bundle = Inr (bundle_intents sample_bundle, 1, 2, 0)"
proof -
  have t: "tally (0, 0, 0) sample_bundle = (1, 2, 0)" by code_simp
  show ?thesis using sample_bundle_prepared t by (simp add: inspect_bundle_def) (simp add: sample_bundle_def sample_file_def)
qed

lemma occ_facts: "length occ_text = 14" "raw_lines occ_text [] = [''{\"version\":1}'']" "strictControlJSON version_of (drop_cr ''{\"version\":1}'') = Some 1"
  by code_simp+

lemma sample_verified: "verifyPreparedInputs prepare_sample sample_files = Inr ()"
proof -
  let ?t = "part_text 0 [sample_bundle]"
  have "0 < length ?t" by code_simp
  moreover have "int (length ?t) \<le> 65536" by (rule sample_bundle_valid)
  moreover have "nat (int (length ?t) + 1) = Suc (length ?t)" by simp
  ultimately have "verify_part sample_files (elems (rt_parts fresh_root)) 0 (0, hd (pq_parts prepare_sample)) = Inr (int (length ?t))"
    by (simp add: verify_part_def prepare_sample_def is_abs_def fresh_root_def sha256_hex_validSHA verifyLocalFile_def sample_files_def check_def add64_id int64_def Let_def)
  moreover have "verifyLocalFile sample_files ''/o'' 14 (sha256_hex occ_text) = Inr ()" using occ_facts(1) by (simp add: verifyLocalFile_def sample_files_def check_def)
  ultimately show ?thesis by (simp add: verifyPreparedInputs_def prepare_sample_def)
qed

lemma sample_command: "\<exists>e. validatePrepareCommand prepare_sample = Inr (e, sha256_hex e)"
proof -
  obtain e where "rootCanonicalJSON fresh_root = Inr e" using fresh_root_printed by blast
  then show ?thesis using fresh_header_facts
    by (simp add: validatePrepareCommand_def prepare_sample_def valid_authority_def is_abs_def sha256_hex_validSHA) (simp add: fresh_root_def)
qed

lemma sample_prepared:
  "\<exists>e db1. prepare prepare_sample sample_files sample_files 100 prepare_db = Inr db1 \<and>
    db1 = prepare_db\<lparr>db_outputs := [prepared_row prepare_sample e], db_parts := part_rows ''o'' 0 [(hd (pq_parts prepare_sample), part_text 0 [sample_bundle])],
      db_intents := map (\<lambda>i. i\<lparr>in_state := ''referenced'', in_protect := None, in_updated := 100\<rparr>) (db_intents prepare_db), db_jobs := map (released prepare_sample 100) (db_jobs prepare_db)\<rparr>"
proof -
  let ?c = prepare_sample and ?t = "part_text 0 [sample_bundle]"
  obtain e where e: "validatePrepareCommand ?c = Inr (e, sha256_hex e)" using sample_command by blast
  have h: "rt_header (pq_root ?c) = fresh_header" "pq_tenant ?c = 1" "pq_seq ?c = 9" by (simp_all add: prepare_sample_def fresh_root_def)
  have g: "lockRuntimeGeneration (ja_installation (pq_authority ?c)) (ja_generation (pq_authority ?c)) prepare_db = Inr ()" by (simp add: prepare_defs lock_generation_ok)
  have l: "lockPrepareJob ?c (sha256_hex e) 100 prepare_db = Inr False"
    by (simp add: lockPrepareJob_def prepare_defs owner_text_def lease_live_def)
  have b: "validatePrepareBatch ?c prepare_db = Inr ()"
    using fresh_header_facts h by (simp add: validatePrepareBatch_def batch_receipt_rows_def check_def Let_def) (simp add: prepare_db_def sample_defs prepare_sample_def)
  define d1 where "d1 = prepare_db\<lparr>db_outputs := [prepared_row ?c e]\<rparr>"
  have o: "insert_output ?c e (sha256_hex e) prepare_db = Inr d1" by (simp add: insert_output_def d1_def prepared_row_def output_of_def Let_def) (simp add: prepare_db_def)
  define d2 where "d2 = d1\<lparr>db_parts := part_rows ''o'' 0 [(hd (pq_parts ?c), ?t)]\<rparr>"
  have "read_prepared sample_files (hd (pq_parts ?c)) = Inr ?t" by (simp add: read_prepared_def prepare_sample_def sample_files_def)
  then have "store_part ?c sample_files (([], 0, 0, 0), d1) (0, hd (pq_parts ?c)) = Inr ((bundle_intents sample_bundle, 1, 2, 0), d2)"
    using sample_decoded sample_inspected h fresh_header_facts
    by (simp add: store_part_def insert_part_def d2_def part_rows_def) (simp add: d1_def prepare_db_def)
  then have p: "insertPreparedParts ?c sample_files d1 = Inr ((bundle_intents sample_bundle, 1, 2, 0), d2)"
    unfolding insertPreparedParts_def by (simp add: prepare_sample_def)
  have f: "sample_files (pq_occ_path ?c) = Some occ_text" "pq_occ_bytes ?c = 14" "pq_occ_sha ?c = sha256_hex occ_text" by (simp_all add: sample_files_def prepare_sample_def)
  have q: "insertPreparedOccurrences ?c sample_files d2 = Inr (0, d2)"
    unfolding insertPreparedOccurrences_def f using occ_facts by (simp add: maxTokenSize_def)
  define d3 where "d3 = d2\<lparr>db_intents := map (\<lambda>i. i\<lparr>in_state := ''referenced'', in_protect := None, in_updated := 100\<rparr>) (db_intents prepare_db)\<rparr>"
  have i2: "db_intents d2 = db_intents prepare_db" by (simp add: d2_def d1_def)
  have ks: "check_upload ?c (bundle_intents sample_bundle) d2 k = Inr ()" if "k \<in> {''analytics'', ''payload''}" for k
    using that by (auto simp: check_upload_def i2 sample_intents prepare_db_def prepare_sample_def uploaded_intent_def scannable_def upload_matches_def check_def sample_file_def)
  have "foldR (\<lambda>_. check_upload ?c (bundle_intents sample_bundle) d2) () ks = Inr ()" if "set ks \<subseteq> {''analytics'', ''payload''}" for ks
    using that ks by (induction ks) auto
  moreover have ids: "length (sortBy byte_less (map fst (bundle_intents sample_bundle))) = 2" "set (sortBy byte_less (map fst (bundle_intents sample_bundle))) = {''analytics'', ''payload''}"
    by (simp_all add: sample_intents)
  ultimately have "foldR (\<lambda>_. check_upload ?c (bundle_intents sample_bundle) d2) () (sortBy byte_less (map fst (bundle_intents sample_bundle))) = Inr ()"
    by blast
  moreover have "affected (\<lambda>i. in_tenant i = 1 \<and> in_id i \<in> {''analytics'', ''payload''} \<and> in_state i = ''uploaded'') (db_intents prepare_db) = 2"
    "update_where (\<lambda>i. in_tenant i = 1 \<and> in_id i \<in> {''analytics'', ''payload''} \<and> in_state i = ''uploaded'') (\<lambda>i. i\<lparr>in_state := ''referenced'', in_protect := None, in_updated := 100\<rparr>)
      (db_intents prepare_db) = map (\<lambda>i. i\<lparr>in_state := ''referenced'', in_protect := None, in_updated := 100\<rparr>) (db_intents prepare_db)"
    by (simp_all add: prepare_db_def uploaded_intent_def affected_def update_where_def)
  moreover have "sortBy byte_less (map fst (bundle_intents sample_bundle)) \<noteq> []" using ids(1) by force
  ultimately have r: "referencePreparedIntents ?c (bundle_intents sample_bundle) 100 d2 = Inr d3"
    unfolding referencePreparedIntents_def Let_def ids h i2 d3_def by (simp only: bindR_simps ids if_False simp_thms)
  define d4 where "d4 = d3\<lparr>db_jobs := map (released ?c 100) (db_jobs prepare_db)\<rparr>"
  have j3: "db_jobs d3 = db_jobs prepare_db" by (simp add: d3_def d2_def d1_def)
  have w: "release_job ?c 100 d3 = Inr d4"
    using h by (simp add: release_job_def Let_def j3 d4_def released_def [abs_def] output_of_def) 
      (simp add: prepare_db_def prepare_sample_def sample_defs affected_def update_where_def holds_lease_def lease_live_def)
  have "prepare_fresh ?c sample_files (e, sha256_hex e) 100 prepare_db = Inr d4"
    using b o p q r w fresh_header_facts h by (simp add: prepare_fresh_def)
  then have "prepare ?c sample_files sample_files 100 prepare_db = Inr d4" using e g l sample_verified by (simp add: prepare_def)
  then show ?thesis by (intro exI [of _ e] exI [of _ d4]) (simp add: d4_def d3_def d2_def d1_def)
qed

lemma prepared_sample_claim:
  assumes "db1 = prepare_db\<lparr>db_outputs := [prepared_row prepare_sample e], db_parts := ps,
      db_intents := map (\<lambda>i. i\<lparr>in_state := ''referenced'', in_protect := None, in_updated := 100\<rparr>) (db_intents prepare_db), db_jobs := map (released prepare_sample 100) (db_jobs prepare_db)\<rparr>"
  shows "\<exists>job db2. claimPublicationJob ''i'' 1 1 3 ''p'' 1000000000 200 db1 = Inr (Some job, db2) \<and> pj_output job = ''o'' \<and> pj_lease job = 1000200 \<and>
    pj_tenant job = 1 \<and> pj_lane job = 3 \<and> db_lanes db2 = [\<lparr>la_tenant = 1, la_id = 3, la_accepted = 9, la_published = 8, la_generation = 4, la_received = 0\<rparr>]"
proof -
  have o: "output_of prepare_sample = ''o''" using fresh_header_facts by (simp add: output_of_def prepare_sample_def fresh_root_def)
  have row: "prepared_row prepare_sample e = \<lparr>ou_id = ''o'', ou_tenant = 1, ou_job = ''j'', ou_header = e, ou_sha = sha256_hex e, ou_state = ''prepared'', ou_fence = 5\<rparr>"
    unfolding prepared_row_def o by (simp add: prepare_sample_def)
  define d where "d = db1"
  have d: "db_lanes d = [\<lparr>la_tenant = 1, la_id = 3, la_accepted = 9, la_published = 8, la_generation = 4, la_received = 0\<rparr>]" "db_outputs d = [prepared_row prepare_sample e]"
    "db_jobs d = [(sample_job ''j'' 1 ''prepared'' 5 (Some ''o''))\<lparr>jo_updated := 100\<rparr>]"
    "db_intents d = [(uploaded_intent ''analytics'')\<lparr>in_updated := 100\<rparr>, (uploaded_intent ''payload'')\<lparr>in_updated := 100\<rparr>]"
    unfolding d_def assms released_def o by (simp_all add: prepare_db_def sample_defs uploaded_intent_def)
  have "db_installation d = ''i''" "db_generation d = 1" unfolding d_def assms by (simp_all add: prepare_db_def sample_defs)
  then have "lockRuntimeGeneration ''i'' 1 d = Inr ()" by (simp add: lock_generation_ok)
  moreover have "1000000000 \<le> maxLease" "quo 1000000000 1000 = 1000000" by code_simp+
  moreover have "add64 8 1 = 9" by (simp add: add64_id int64_def)
  ultimately have "\<exists>job db2. claimPublicationJob ''i'' 1 1 3 ''p'' 1000000000 200 d = Inr (Some job, db2) \<and> pj_output job = ''o'' \<and> pj_lease job = 1000200 \<and>
    pj_tenant job = 1 \<and> pj_lane job = 3 \<and> db_lanes db2 = [\<lparr>la_tenant = 1, la_id = 3, la_accepted = 9, la_published = 8, la_generation = 4, la_received = 0\<rparr>]"
    by (simp add: claimPublicationJob_def d row sample_job_def uploaded_intent_def publishable_def claimed_intents_def refence_intents_def affected_def lease_us_def Let_def)
  then show ?thesis unfolding d_def .
qed

theorem prepared_output_passes_publication_witness:
  "\<exists>c db db1 job db2. prepare c sample_files sample_files 100 db = Inr db1 \<and> claimPublicationJob ''i'' 1 1 3 ''p'' 1000000000 200 db1 = Inr (Some job, db2) \<and>
    lockPublishJob (publish_command_of job) 300 db2 = Inr False \<and> lockPreparedOutput (publish_command_of job) db2 = Inr (pq_root c) \<and>
    (\<exists>k. publish (publish_command_of job) 300 db2 = bindR (insertPublishedCatalog (publish_command_of job) (pq_root c) 5 db2) k)"
proof -
  let ?c = prepare_sample
  have o: "output_of ?c = ''o''" using fresh_header_facts by (simp add: output_of_def prepare_sample_def fresh_root_def)
  obtain e db1 where p: "prepare ?c sample_files sample_files 100 prepare_db = Inr db1"
    "db1 = prepare_db\<lparr>db_outputs := [prepared_row ?c e], db_parts := part_rows ''o'' 0 [(hd (pq_parts ?c), part_text 0 [sample_bundle])],
      db_intents := map (\<lambda>i. i\<lparr>in_state := ''referenced'', in_protect := None, in_updated := 100\<rparr>) (db_intents prepare_db), db_jobs := map (released ?c 100) (db_jobs prepare_db)\<rparr>"
    using sample_prepared by blast
  obtain job db2 where j: "claimPublicationJob ''i'' 1 1 3 ''p'' 1000000000 200 db1 = Inr (Some job, db2)" "pj_output job = output_of ?c" "300 < pj_lease job"
    and lane: "pj_tenant job = 1" "pj_lane job = 3" "db_lanes db2 = [\<lparr>la_tenant = 1, la_id = 3, la_accepted = 9, la_published = 8, la_generation = 4, la_received = 0\<rparr>]"
    using prepared_sample_claim [OF p(2)] o by auto
  let ?p = "publish_command_of job"
  have "\<not> list_ex (\<lambda>w. ou_id w = output_of ?c) (db_outputs prepare_db)" "\<forall>p \<in> set (db_parts prepare_db). pt_output p \<noteq> output_of ?c" "\<forall>j \<in> set (db_jobs prepare_db). jo_output j \<noteq> Some (output_of ?c)"
    "distinct (map jo_id (db_jobs prepare_db))" "distinct (map in_id (db_intents prepare_db))" by (simp_all add: prepare_db_def sample_defs uploaded_intent_def)
  moreover have "root_ok (pq_root ?c)" using fresh_root_ok by (simp add: prepare_sample_def)
  ultimately have all: "lockPublishJob ?p 300 db2 = Inr False \<and> lockPreparedOutput ?p db2 = Inr (pq_root ?c) \<and>
    (\<exists>l k. find (\<lambda>x. la_tenant x = pc_tenant ?p \<and> la_id x = pc_lane ?p) (db_lanes db2) = Some l \<and>
      publish ?p 300 db2 = (if la_generation l = maxInt64 then Inl ErrNotNextBatch else bindR (insertPublishedCatalog ?p (pq_root ?c) (la_generation l + 1) db2) k))"
    using prepared_output_passes_publication [OF p(1) _ _ _ _ _ _ j] by blast
  have "pc_tenant ?p = 1" "pc_lane ?p = 3" using lane by (simp_all add: publish_command_of_def)
  then have "\<exists>k. publish ?p 300 db2 = bindR (insertPublishedCatalog ?p (pq_root ?c) 5 db2) k" using all lane(3) by auto
  then show ?thesis using p(1) j(1) all by blast
qed

end
