(* ===== verification/Collect.thy ===== *)
theory Collect
  imports Catalog Compact PrepareFacts
begin

section \<open>Garbage collection\<close>

text \<open>
  \<open>internal/control/gc.go\<close>: which objects may be deleted, claiming and confirming their deletion. A
  transaction reads the clock once.
\<close>

record gc_object =
  go_intent :: string
  go_key :: string
  go_attempt :: int
  go_resweep :: bool

definition snapshot_live :: "int \<Rightarrow> snapshot_row \<Rightarrow> bool" where
  "snapshot_live now s = (sn_state s = ''active'' \<and> now < sn_expires s)"

text \<open>The bundles of the files of an intent.\<close>

definition intent_bundles :: "control_db \<Rightarrow> string \<Rightarrow> bundle_row list" where
  "intent_bundles db i = [b. f \<leftarrow> db_files db, fi_intent f = i, b \<leftarrow> db_bundles db, bu_tenant b = fi_tenant f \<and> bu_id b = fi_bundle f]"

definition pinned_by :: "int \<Rightarrow> control_db \<Rightarrow> bundle_row \<Rightarrow> bool" where
  "pinned_by now db b = list_ex (\<lambda>s. snapshot_live now s \<and> sn_tenant s = bu_tenant b \<and>
    list_ex (\<lambda>sl. sl_lane sl = bu_lane b \<and> visible_at (sl_generation sl) b) (sn_lanes s)) (db_snapshots db)"

definition max_retired :: "bundle_row list \<Rightarrow> int option" where
  "max_retired bs = (case List.map_filter bu_retired bs of [] \<Rightarrow> None | x # xs \<Rightarrow> Some (fold max xs x))"

definition retire_time :: "control_db \<Rightarrow> intent_row \<Rightarrow> int" where
  "retire_time db i = (case in_retired i of Some t \<Rightarrow> t | None \<Rightarrow> (case max_retired (intent_bundles db (in_id i)) of Some t \<Rightarrow> t | None \<Rightarrow> in_expires i))"

text \<open>A producer that may still publish the object.\<close>

definition producing :: "string \<Rightarrow> int \<Rightarrow> int \<Rightarrow> intent_row \<Rightarrow> bool" where
  "producing st gen fence i = (st = ''prepared'' \<or> st = ''running'' \<and> (in_state i = ''referenced'' \<or> in_producer_generation i = Some gen \<and> in_producer_fence i = Some fence))"

definition backup_active :: "int \<Rightarrow> control_db \<Rightarrow> bool" where
  "backup_active now db = list_ex (\<lambda>b. bs_state b = ''verified'' \<and> now < bs_protected b) (db_backups db)"

definition gcEligible :: "int \<Rightarrow> control_db \<Rightarrow> intent_row \<Rightarrow> bool" where
  "gcEligible now db i =
    (in_state i = ''deleting'' \<or>
     in_state i = ''deleted'' \<and> (case in_confirmed i of None \<Rightarrow> False | Some t \<Rightarrow> t < now - 3600000000) \<or>
     in_state i \<in> {''pending'', ''uploaded'', ''referenced''} \<and>
     retire_time db i < now - 8 * dayUS \<and>
     (case db_gc_safe db of None \<Rightarrow> False | Some t \<Rightarrow> retire_time db i < t) \<and>
     (case in_protect i of None \<Rightarrow> True | Some t \<Rightarrow> t \<le> now) \<and>
     \<not> list_ex (\<lambda>b. ba_intent b = in_id i \<and> ba_recovery b = ''live'') (db_batches db) \<and>
     \<not> list_ex (\<lambda>b. bu_valid_to b = None) (intent_bundles db (in_id i)) \<and>
     \<not> list_ex (pinned_by now db) (intent_bundles db (in_id i)) \<and>
     \<not> list_ex (\<lambda>j. Some (jo_id j) = in_job i \<and> producing (jo_state j) (jo_generation j) (jo_fence j) i) (db_jobs db) \<and>
     \<not> list_ex (\<lambda>q. Some (qj_id q) = in_query i \<and> now < qj_expires q) (db_queries db) \<and>
     \<not> list_ex (\<lambda>t. Some (ta_id t) = in_task i \<and> producing (ta_state t) (ta_generation t) (ta_fence t) i) (db_tasks db) \<and>
     \<not> backup_active now db)"

definition gc_rank :: "intent_row \<Rightarrow> int" where
  "gc_rank i = (if in_state i = ''deleting'' then 0 else if in_state i = ''deleted'' then 1 else 2)"

definition gc_less :: "intent_row \<Rightarrow> intent_row \<Rightarrow> bool" where
  "gc_less i j = (gc_rank i < gc_rank j \<or> gc_rank i = gc_rank j \<and> byte_less (in_id i) (in_id j))"

definition mark_deleting :: "int \<Rightarrow> control_db \<Rightarrow> string \<Rightarrow> control_error + control_db" where
  "mark_deleting now db k =
    (let P = (\<lambda>i. in_id i = k \<and> in_state i \<in> {''pending'', ''uploaded'', ''referenced'', ''deleting'', ''deleted''}) in
     if affected P (db_intents db) \<noteq> 1 then Inl ErrMaintenanceFence
     else Inr (db\<lparr>db_intents := update_where P (\<lambda>i. i\<lparr>in_state := ''deleting'', in_marked := (case in_marked i of None \<Rightarrow> Some now | Some t \<Rightarrow> Some t), in_confirmed := None,
       in_sweeps := in_sweeps i + 1, in_updated := now\<rparr>) (db_intents db)\<rparr>))"

text \<open>The candidates are selected, the lanes of their tenants locked, and then those still eligible selected again.\<close>

definition gc_candidates :: "int \<Rightarrow> int \<Rightarrow> int \<Rightarrow> control_db \<Rightarrow> intent_row list" where
  "gc_candidates tenant limit now db = take (nat limit) (sortBy gc_less (filter (\<lambda>i. (tenant = 0 \<or> in_tenant i = tenant) \<and> gcEligible now db i) (db_intents db)))"

definition claim_gc_objects :: "int \<Rightarrow> int \<Rightarrow> int \<Rightarrow> control_db \<Rightarrow> control_error + gc_object list \<times> control_db" where
  "claim_gc_objects tenant limit now db =
    (if limit \<le> 0 \<or> limit > 100 then Inl ErrInvalidCommand
     else if (case db_gc_verified db of None \<Rightarrow> True | Some t \<Rightarrow> t \<le> now) then Inl ErrBackupInterlock
     else let candidates = gc_candidates tenant limit now db in
       if candidates = [] \<or> \<not> list_ex (\<lambda>l. list_ex (\<lambda>i. in_tenant i = la_tenant l) candidates) (db_lanes db) then Inr ([], db)
       else let chosen = take (nat limit) (sortBy gc_less (filter (\<lambda>i. in_id i \<in> in_id ` set candidates \<and> gcEligible now db i) (db_intents db))) in
         bindR (foldR (mark_deleting now) db (map in_id chosen)) (\<lambda>db'.
           Inr (map (\<lambda>i. \<lparr>go_intent = in_id i, go_key = in_key i, go_attempt = in_sweeps i + 1, go_resweep = (in_state i = ''deleted'')\<rparr>) chosen, db')))"

definition claimGCObjects :: "int \<Rightarrow> int \<Rightarrow> control_db \<Rightarrow> control_error + gc_object list \<times> control_db" where
  "claimGCObjects limit now db = claim_gc_objects 0 limit now db"

definition claimGCObjectsForTenant :: "int \<Rightarrow> int \<Rightarrow> int \<Rightarrow> control_db \<Rightarrow> control_error + gc_object list \<times> control_db" where
  "claimGCObjectsForTenant tenant limit now db = (if tenant \<le> 0 then Inl ErrInvalidCommand else claim_gc_objects tenant limit now db)"

definition confirm_object :: "int \<Rightarrow> control_db \<Rightarrow> gc_object \<Rightarrow> control_error + control_db" where
  "confirm_object now db g =
    (let P = (\<lambda>i. in_id i = go_intent g \<and> in_sweeps i = go_attempt g \<and> in_state i = ''deleting'') in
     if affected P (db_intents db) \<noteq> 1 then Inl ErrMaintenanceFence
     else Inr (db\<lparr>db_intents := update_where P (\<lambda>i. i\<lparr>in_state := ''deleted'', in_confirmed := Some now, in_updated := now\<rparr>) (db_intents db)\<rparr>))"

definition confirmGCObjects :: "(string \<Rightarrow> bool) \<Rightarrow> gc_object list \<Rightarrow> int \<Rightarrow> control_db \<Rightarrow> control_error + control_db" where
  "confirmGCObjects uuid_ok gs now db =
    (if gs = [] \<or> length gs > 100 \<or> \<not> list_all (\<lambda>g. uuid_ok (go_intent g) \<and> 0 < go_attempt g) gs \<or> \<not> distinct (map go_intent gs) then Inl ErrInvalidCommand
     else foldR (confirm_object now) db gs)"

section \<open>What a snapshot holds\<close>

text \<open>
  The catalog's invariant. A bundle is held while it is current or visible to a live snapshot; the
  objects of its files stay referenced. Generations of retired bundles and of snapshots do not exceed
  those of their lanes.
\<close>

definition bundle_held :: "int \<Rightarrow> control_db \<Rightarrow> bundle_row \<Rightarrow> bool" where
  "bundle_held now db b = (bu_valid_to b = None \<or> pinned_by now db b)"

definition objects_kept :: "int \<Rightarrow> control_db \<Rightarrow> bool" where
  "objects_kept now db = (\<forall>b \<in> set (db_bundles db). bundle_held now db b \<longrightarrow> (\<forall>f \<in> set (db_files db). fi_tenant f = bu_tenant b \<and> fi_bundle f = bu_id b \<longrightarrow>
    (\<exists>i \<in> set (db_intents db). stored_object f i) \<and> (\<forall>i \<in> set (db_intents db). in_id i = fi_intent f \<longrightarrow> in_state i = ''referenced'')))"

definition lane_key :: "lane_row \<Rightarrow> int \<times> int" where
  "lane_key l = (la_tenant l, la_id l)"

definition generations_ok :: "control_db \<Rightarrow> bool" where
  "generations_ok db = (distinct (map lane_key (db_lanes db)) \<and> distinct (map sn_id (db_snapshots db)) \<and> distinct (map in_id (db_intents db)) \<and>
    (\<forall>f \<in> set (db_files db). fi_bundle f \<in> bu_id ` set (db_bundles db)) \<and>
    (\<forall>l \<in> set (db_lanes db). (\<forall>b \<in> set (db_bundles db). lane_key l = (bu_tenant b, bu_lane b) \<longrightarrow> (\<forall>v. bu_valid_to b = Some v \<longrightarrow> v \<le> la_generation l)) \<and>
      (\<forall>s \<in> set (db_snapshots db). \<forall>sl \<in> set (sn_lanes s). lane_key l = (sn_tenant s, sl_lane sl) \<longrightarrow> sl_generation sl \<le> la_generation l)))"

definition catalog_inv :: "int \<Rightarrow> control_db \<Rightarrow> bool" where
  "catalog_inv now db = (generations_ok db \<and> objects_kept now db)"

subsection \<open>How a transaction may move the catalog\<close>

definition bundle_move :: "control_db \<Rightarrow> control_db \<Rightarrow> bundle_row \<Rightarrow> bundle_row \<Rightarrow> bool" where
  "bundle_move db db' b c = (\<exists>v r s. c = b\<lparr>bu_valid_to := v, bu_retired := r, bu_reserved := s\<rparr> \<and> (v = bu_valid_to b \<or> bu_valid_to b = None \<and>
    (\<exists>l \<in> set (db_lanes db). lane_key l = (bu_tenant b, bu_lane b) \<and> v = Some (la_generation l + 1) \<and>
      (\<forall>l' \<in> set (db_lanes db'). lane_key l' = (bu_tenant b, bu_lane b) \<longrightarrow> la_generation l + 1 \<le> la_generation l'))))"

definition new_bundle :: "control_db \<Rightarrow> bundle_row \<Rightarrow> bool" where
  "new_bundle db b = (bu_valid_to b = None \<and> bu_id b \<notin> bu_id ` set (db_bundles db) \<and>
    (\<exists>l \<in> set (db_lanes db). lane_key l = (bu_tenant b, bu_lane b) \<and> bu_generation b = la_generation l + 1))"

definition intent_move :: "int \<Rightarrow> control_db \<Rightarrow> intent_row \<Rightarrow> intent_row \<Rightarrow> bool" where
  "intent_move now db i j = (in_id j = in_id i \<and> in_tenant j = in_tenant i \<and> in_key j = in_key i \<and>
    (in_state i = ''referenced'' \<longrightarrow> in_state j = ''referenced'' \<or> \<not> list_ex (bundle_held now db) (intent_bundles db (in_id i))))"

definition lane_move :: "lane_row \<Rightarrow> lane_row \<Rightarrow> bool" where
  "lane_move l m = (lane_key m = lane_key l \<and> la_generation l \<le> la_generation m)"

definition snapshot_move :: "int \<Rightarrow> snapshot_row \<Rightarrow> snapshot_row \<Rightarrow> bool" where
  "snapshot_move now s u = (\<exists>e st. u = s\<lparr>sn_expires := e, sn_state := st\<rparr> \<and> (snapshot_live now u \<longrightarrow> snapshot_live now s))"

definition new_snapshot :: "control_db \<Rightarrow> snapshot_row \<Rightarrow> bool" where
  "new_snapshot db s = (sn_id s \<notin> sn_id ` set (db_snapshots db) \<and>
    (\<forall>sl \<in> set (sn_lanes s). \<exists>l \<in> set (db_lanes db). lane_key l = (sn_tenant s, sl_lane sl) \<and> sl_generation sl = la_generation l))"

definition moves :: "int \<Rightarrow> control_db \<Rightarrow> control_db \<Rightarrow> bundle_row list \<Rightarrow> bundle_row list \<Rightarrow> file_row list \<Rightarrow> intent_row list \<Rightarrow> intent_row list \<Rightarrow> snapshot_row list \<Rightarrow> snapshot_row list \<Rightarrow> bool" where
  "moves now db db' bs nb nf js nj ss ns =
   (db_bundles db' = bs @ nb \<and> list_all2 (bundle_move db db') (db_bundles db) bs \<and> list_all (new_bundle db) nb \<and>
    db_files db' = db_files db @ nf \<and> (\<forall>f \<in> set nf. (\<exists>b \<in> set nb. fi_bundle f = bu_id b) \<and> (\<exists>i \<in> set (db_intents db). stored_object f i) \<and>
      (\<forall>i \<in> set (db_intents db'). in_id i = fi_intent f \<longrightarrow> in_state i = ''referenced'')) \<and>
    db_intents db' = js @ nj \<and> list_all2 (intent_move now db) (db_intents db) js \<and> (\<forall>i \<in> set nj. in_id i \<notin> in_id ` set (db_intents db)) \<and> distinct (map in_id nj) \<and>
    list_all2 lane_move (db_lanes db) (db_lanes db') \<and>
    db_snapshots db' = ss @ ns \<and> list_all2 (snapshot_move now) (db_snapshots db) ss \<and> list_all (new_snapshot db) ns \<and> distinct (map sn_id ns))"

definition catalog_move :: "int \<Rightarrow> control_db \<Rightarrow> control_db \<Rightarrow> bool" where
  "catalog_move now db db' = (\<exists>bs nb nf js nj ss ns. moves now db db' bs nb nf js nj ss ns)"

subsection \<open>A move keeps the invariant\<close>

lemma movesD:
  assumes "moves now db db' bs nb nf js nj ss ns"
  shows "db_bundles db' = bs @ nb" "list_all2 (bundle_move db db') (db_bundles db) bs" "list_all (new_bundle db) nb" "db_files db' = db_files db @ nf"
    "f \<in> set nf \<Longrightarrow> \<exists>b \<in> set nb. fi_bundle f = bu_id b" "db_intents db' = js @ nj" "list_all2 (intent_move now db) (db_intents db) js"
    "i \<in> set nj \<Longrightarrow> in_id i \<notin> in_id ` set (db_intents db)" "distinct (map in_id nj)" "list_all2 lane_move (db_lanes db) (db_lanes db')"
    "db_snapshots db' = ss @ ns" "list_all2 (snapshot_move now) (db_snapshots db) ss" "list_all (new_snapshot db) ns" "distinct (map sn_id ns)"
    "f \<in> set nf \<Longrightarrow> \<exists>i \<in> set (db_intents db). stored_object f i"
    "f \<in> set nf \<Longrightarrow> i \<in> set (db_intents db') \<Longrightarrow> in_id i = fi_intent f \<Longrightarrow> in_state i = ''referenced''"
  using assms by (simp_all add: moves_def)

lemma list_all2_memE:
  assumes "list_all2 R xs ys" "y \<in> set ys"
  obtains x where "x \<in> set xs" "R x y"
  using assms by (metis in_set_conv_nth list_all2_conv_all_nth)

lemma list_all2_memD: "list_all2 R xs ys \<Longrightarrow> x \<in> set xs \<Longrightarrow> \<exists>y \<in> set ys. R x y"
  by (metis in_set_conv_nth list_all2_conv_all_nth)

lemma list_all2_map_eq: "list_all2 R xs ys \<Longrightarrow> (\<And>x y. R x y \<Longrightarrow> g y = f x) \<Longrightarrow> map g ys = map f xs"
  by (induction rule: list_all2_induct) auto

lemma fresh_disjoint: "(\<And>y. y \<in> set ys \<Longrightarrow> f y \<notin> f ` set xs) \<Longrightarrow> set (map f xs) \<inter> set (map f ys) = {}"
proof -
  assume h: "\<And>y. y \<in> set ys \<Longrightarrow> f y \<notin> f ` set xs"
  have "f x \<noteq> f y" if "x \<in> set xs" "y \<in> set ys" for x y using h [OF that(2)] that(1) by (metis imageI)
  then show ?thesis by fastforce
qed

lemma snapshot_moveD:
  assumes "snapshot_move now s u"
  shows "sn_id u = sn_id s" "sn_tenant u = sn_tenant s" "sn_lanes u = sn_lanes s" "sn_projects u = sn_projects s" "sn_floor u = sn_floor s" "sn_kind u = sn_kind s" "sn_user u = sn_user s"
    "snapshot_live now u \<Longrightarrow> snapshot_live now s"
  using assms by (auto simp: snapshot_move_def)

lemma lanes_lookup: "distinct (map lane_key ls) \<Longrightarrow> l \<in> set ls \<Longrightarrow> m \<in> set ls \<Longrightarrow> lane_key l = lane_key m \<Longrightarrow> l = m"
  by (auto simp: distinct_map inj_on_def)

lemma generations_move:
  assumes ok: "generations_ok db" and mv: "catalog_move now db db'"
  shows "generations_ok db'"
proof -
  obtain bs nb nf js nj ss ns where "moves now db db' bs nb nf js nj ss ns" using mv by (auto simp: catalog_move_def)
  note m = movesD [OF this]
  have keys: "map lane_key (db_lanes db') = map lane_key (db_lanes db)" by (rule list_all2_map_eq [OF m(10)]) (simp add: lane_move_def)
  have snaps: "map sn_id ss = map sn_id (db_snapshots db)" by (rule list_all2_map_eq [OF m(12)]) (rule snapshot_moveD(1))
  have ids: "map in_id js = map in_id (db_intents db)" by (rule list_all2_map_eq [OF m(7)]) (simp add: intent_move_def)
  have bids: "map bu_id bs = map bu_id (db_bundles db)" by (rule list_all2_map_eq [OF m(2)]) (auto simp: bundle_move_def)
  have d: "distinct (map lane_key (db_lanes db'))" "distinct (map sn_id (db_snapshots db'))" "distinct (map in_id (db_intents db'))"
  proof -
    show "distinct (map lane_key (db_lanes db'))" using ok by (simp add: keys generations_ok_def)
    have "sn_id s \<notin> sn_id ` set (db_snapshots db)" if "s \<in> set ns" for s using m(13) that by (simp add: list_all_iff new_snapshot_def)
    then have "set (map sn_id ss) \<inter> set (map sn_id ns) = {}" unfolding snaps by (rule fresh_disjoint)
    then show "distinct (map sn_id (db_snapshots db'))" using ok m(14) snaps by (simp add: m(11) generations_ok_def)
    have "set (map in_id js) \<inter> set (map in_id nj) = {}" unfolding ids using m(8) by (rule fresh_disjoint)
    then show "distinct (map in_id (db_intents db'))" using ok m(9) ids by (simp add: m(6) generations_ok_def)
  qed
  have att: "fi_bundle f \<in> bu_id ` set (db_bundles db')" if "f \<in> set (db_files db')" for f
  proof (cases "f \<in> set (db_files db)")
    case True
    then have "fi_bundle f \<in> set (map bu_id bs)" using ok unfolding bids by (simp add: generations_ok_def)
    then show ?thesis by (auto simp: m(1))
  next
    case False
    then show ?thesis using that m(5) by (auto simp: m(1,4))
  qed
  have b: "v \<le> la_generation l" if "l \<in> set (db_lanes db')" "c \<in> set (db_bundles db')" "lane_key l = (bu_tenant c, bu_lane c)" "bu_valid_to c = Some v" for l c v
  proof -
    note h = that
    have "c \<in> set bs" using that(2,4) m(3) by (auto simp: m(1) list_all_iff new_bundle_def)
    then obtain b where b: "b \<in> set (db_bundles db)" "bundle_move db db' b c" using list_all2_memE [OF m(2)] by metis
    obtain k where k: "k \<in> set (db_lanes db)" "lane_move k l" by (rule list_all2_memE [OF m(10) h(1)])
    have eq: "bu_tenant c = bu_tenant b" "bu_lane c = bu_lane b" using b(2) by (auto simp: bundle_move_def)
    show ?thesis
    proof (cases "bu_valid_to b")
      case None
      then show ?thesis using b(2) that(1,3,4) eq by (auto simp: bundle_move_def)
    next
      case (Some w)
      then have "w = v" using b(2) that(4) by (auto simp: bundle_move_def)
      moreover have "w \<le> la_generation k" using ok b(1) k Some that(3) eq unfolding generations_ok_def lane_move_def by metis
      ultimately show ?thesis using k(2) by (simp add: lane_move_def)
    qed
  qed
  have s: "sl_generation sl \<le> la_generation l" if "l \<in> set (db_lanes db')" "u \<in> set (db_snapshots db')" "sl \<in> set (sn_lanes u)" "lane_key l = (sn_tenant u, sl_lane sl)" for l u sl
  proof -
    note h = that
    obtain k where k: "k \<in> set (db_lanes db)" "lane_move k l" by (rule list_all2_memE [OF m(10) h(1)])
    have "sl_generation sl \<le> la_generation k"
    proof (cases "u \<in> set ss")
      case True
      then obtain x where x: "x \<in> set (db_snapshots db)" "snapshot_move now x u" using list_all2_memE [OF m(12)] by metis
      have "lane_key k = (sn_tenant x, sl_lane sl)" "sl \<in> set (sn_lanes x)" using k(2) that(3,4) snapshot_moveD(2,3) [OF x(2)] by (simp_all add: lane_move_def)
      then show ?thesis using ok k(1) x(1) unfolding generations_ok_def by blast
    next
      case False
      then have "new_snapshot db u" using that(2) m(13) by (auto simp: m(11) list_all_iff)
      then obtain q where q: "q \<in> set (db_lanes db)" "lane_key q = (sn_tenant u, sl_lane sl)" "sl_generation sl = la_generation q" using h(3) by (auto simp: new_snapshot_def)
      have "q = k" by (rule lanes_lookup [OF _ q(1) k(1)]) (use ok k(2) q(2) that(4) in \<open>simp_all add: generations_ok_def lane_move_def\<close>)
      then show ?thesis by (simp add: q(3))
    qed
    then show ?thesis using k(2) by (simp add: lane_move_def)
  qed
  show ?thesis unfolding generations_ok_def using d att b s by blast
qed

lemma live_mono: "now \<le> later \<Longrightarrow> snapshot_live later s \<Longrightarrow> snapshot_live now s"
  by (simp add: snapshot_live_def)

lemma pinned_iff: "pinned_by now db b \<longleftrightarrow> (\<exists>s \<in> set (db_snapshots db). snapshot_live now s \<and> sn_tenant s = bu_tenant b \<and>
    (\<exists>sl \<in> set (sn_lanes s). sl_lane sl = bu_lane b \<and> visible_at (sl_generation sl) b))"
  by (auto simp: pinned_by_def list_ex_iff)

lemma held_mono: "now \<le> later \<Longrightarrow> bundle_held later db b \<Longrightarrow> bundle_held now db b"
  unfolding bundle_held_def pinned_iff using live_mono by metis

lemma objects_mono: "now \<le> later \<Longrightarrow> objects_kept now db \<Longrightarrow> objects_kept later db"
  unfolding objects_kept_def using held_mono [of now later db] by blast

lemma bundle_moveD:
  assumes "bundle_move db db' b c"
  shows "bu_id c = bu_id b" "bu_tenant c = bu_tenant b" "bu_lane c = bu_lane b" "bu_generation c = bu_generation b" "bu_seq_max c = bu_seq_max b" "bu_kind c = bu_kind b" "bu_projects c = bu_projects b"
    "bu_valid_to b = Some v \<Longrightarrow> bu_valid_to c = Some v" "bu_valid_to c = None \<Longrightarrow> bu_valid_to b = None"
  using assms by (auto simp: bundle_move_def)

lemma held_back:
  assumes ok: "generations_ok db" and m: "moves now db db' bs nb nf js nj ss ns" and b: "b \<in> set (db_bundles db)" "bundle_move db db' b c" and h: "bundle_held now db' c"
  shows "bundle_held now db b"
proof (cases "bu_valid_to b")
  case None
  then show ?thesis by (simp add: bundle_held_def)
next
  case (Some v)
  note mv = bundle_moveD [OF b(2)]
  obtain u sl where u: "u \<in> set (db_snapshots db')" "snapshot_live now u" "sn_tenant u = bu_tenant b" "sl \<in> set (sn_lanes u)" "sl_lane sl = bu_lane b" "visible_at (sl_generation sl) b"
    using h mv(8) [OF Some] mv Some unfolding bundle_held_def pinned_iff visible_at_def by auto
  show ?thesis
  proof (cases "u \<in> set ss")
    case True
    then obtain s where s: "s \<in> set (db_snapshots db)" "snapshot_move now s u" using list_all2_memE [OF movesD(12) [OF m]] by metis
    then have "pinned_by now db b" using u snapshot_moveD [OF s(2)] unfolding pinned_iff by metis
    then show ?thesis by (simp add: bundle_held_def)
  next
    case False
    then have "new_snapshot db u" using u(1) movesD(11,13) [OF m] by (auto simp: list_all_iff)
    then obtain l where l: "l \<in> set (db_lanes db)" "lane_key l = (bu_tenant b, bu_lane b)" "sl_generation sl = la_generation l" using u by (auto simp: new_snapshot_def)
    have "v \<le> la_generation l" using ok l b(1) Some unfolding generations_ok_def by blast
    then show ?thesis using u(6) Some l(3) by (simp add: visible_at_def)
  qed
qed

lemma held_intents: "b \<in> set (db_bundles db) \<Longrightarrow> f \<in> set (db_files db) \<Longrightarrow> fi_tenant f = bu_tenant b \<Longrightarrow> fi_bundle f = bu_id b \<Longrightarrow> b \<in> set (intent_bundles db (fi_intent f))"
  by (auto simp: intent_bundles_def intro!: bexI [of _ f])

lemma objects_move:
  assumes ok: "generations_ok db" and keep: "objects_kept now db" and mv: "catalog_move now db db'"
  shows "objects_kept now db'"
  unfolding objects_kept_def
proof (intro ballI impI)
  fix c f
  assume c: "c \<in> set (db_bundles db')" "bundle_held now db' c" and f: "f \<in> set (db_files db')" "fi_tenant f = bu_tenant c \<and> fi_bundle f = bu_id c"
  obtain bs nb nf js nj ss ns where mv': "moves now db db' bs nb nf js nj ss ns" using mv by (auto simp: catalog_move_def)
  note m = movesD [OF mv']
  have bids: "map bu_id bs = map bu_id (db_bundles db)" by (rule list_all2_map_eq [OF m(2)]) (rule bundle_moveD(1))
  have moved: "\<exists>j \<in> set (db_intents db'). in_id j = in_id i \<and> in_tenant j = in_tenant i" if i: "i \<in> set (db_intents db)" for i
    using list_all2_memD [OF m(7) i] by (auto simp: m(6) intent_move_def)
  show "(\<exists>i \<in> set (db_intents db'). stored_object f i) \<and> (\<forall>i \<in> set (db_intents db'). in_id i = fi_intent f \<longrightarrow> in_state i = ''referenced'')"
  proof (cases "f \<in> set nf")
    case True
    obtain i where i: "i \<in> set (db_intents db)" "stored_object f i" using m(15) [OF True] by blast
    obtain j where j: "j \<in> set (db_intents db')" "in_id j = in_id i" "in_tenant j = in_tenant i" using moved [OF i(1)] by blast
    show ?thesis using i(2) j m(16) [OF True] by (auto simp: stored_object_def)
  next
    case False
    then have f': "f \<in> set (db_files db)" using f(1) by (simp add: m(4))
    have "bu_id c \<in> bu_id ` set (db_bundles db)" using ok f' f(2) unfolding generations_ok_def by metis
    then have "c \<in> set bs" using c(1) m(3) by (auto simp: m(1) list_all_iff new_bundle_def)
    then obtain b where b: "b \<in> set (db_bundles db)" "bundle_move db db' b c" using list_all2_memE [OF m(2)] by metis
    have h: "bundle_held now db b" by (rule held_back [OF ok mv' b c(2)])
    have fb: "fi_tenant f = bu_tenant b" "fi_bundle f = bu_id b" using f(2) bundle_moveD [OF b(2)] by simp_all
    have k: "\<exists>i \<in> set (db_intents db). stored_object f i" "\<And>i. i \<in> set (db_intents db) \<Longrightarrow> in_id i = fi_intent f \<Longrightarrow> in_state i = ''referenced''"
      using keep b(1) h f' fb unfolding objects_kept_def by blast+
    have busy: "list_ex (bundle_held now db) (intent_bundles db (fi_intent f))" using held_intents [OF b(1) f' fb] h by (auto simp: list_ex_iff)
    have all: "in_state j = ''referenced''" if j: "j \<in> set (db_intents db')" "in_id j = fi_intent f" for j
    proof -
      obtain i where i: "i \<in> set (db_intents db)" "stored_object f i" using k(1) by blast
      have "in_id j \<in> in_id ` set (db_intents db)" using i j(2) by (auto simp: stored_object_def intro!: image_eqI [of _ _ i])
      then have "j \<in> set js" using j(1) m(8) [of j] by (auto simp: m(6))
      then obtain x where x: "x \<in> set (db_intents db)" "intent_move now db x j" using list_all2_memE [OF m(7)] by metis
      then show ?thesis using k(2) [OF x(1)] j(2) busy by (simp add: intent_move_def)
    qed
    obtain i where i: "i \<in> set (db_intents db)" "stored_object f i" using k(1) by blast
    obtain j where j: "j \<in> set (db_intents db')" "in_id j = in_id i" "in_tenant j = in_tenant i" using moved [OF i(1)] by blast
    show ?thesis using i(2) j all by (auto simp: stored_object_def)
  qed
qed

lemma catalog_inv_move:
  assumes "catalog_inv now db" "now \<le> later" "catalog_move later db db'"
  shows "catalog_inv later db'"
  using assms generations_move objects_move objects_mono unfolding catalog_inv_def by blast

subsection \<open>A move keeps what a live snapshot sees\<close>

lemma list_all2_map_filter:
  assumes "list_all2 R xs ys" "\<And>x y. x \<in> set xs \<Longrightarrow> y \<in> set ys \<Longrightarrow> R x y \<Longrightarrow> Q y = P x \<and> (P x \<longrightarrow> g y = f x)"
  shows "map g (filter Q ys) = map f (filter P xs)"
  using assms by (induction rule: list_all2_induct) auto

lemma keys_move:
  assumes keep: "objects_kept now db" and mv: "moves now db db' bs nb nf js nj ss ns" and b: "b \<in> set (db_bundles db)" "bundle_held now db b"
    and f: "f \<in> set (db_files db)" "fi_tenant f = bu_tenant b" "fi_bundle f = bu_id b"
  shows "object_keys db' f = object_keys db f"
proof -
  note m = movesD [OF mv]
  have k: "\<exists>i \<in> set (db_intents db). stored_object f i" "\<And>i. i \<in> set (db_intents db) \<Longrightarrow> in_id i = fi_intent f \<Longrightarrow> in_state i = ''referenced''"
    using keep b f unfolding objects_kept_def by blast+
  obtain x where x: "x \<in> set (db_intents db)" "in_id x = fi_intent f" using k(1) by (auto simp: stored_object_def)
  have "in_id i \<noteq> fi_intent f" if "i \<in> set nj" for i using m(8) [OF that] x by (metis image_eqI)
  then have none: "filter (stored_object f) nj = []" by (auto simp: filter_empty_conv stored_object_def)
  have busy: "list_ex (bundle_held now db) (intent_bundles db (fi_intent f))" using held_intents [OF b(1) f] b(2) by (auto simp: list_ex_iff)
  have "map in_key (filter (stored_object f) js) = map in_key (filter (stored_object f) (db_intents db))"
    by (rule list_all2_map_filter [OF m(7)]) (use k(2) busy in \<open>auto simp: intent_move_def stored_object_def\<close>)
  then show ?thesis by (simp add: object_keys_def m(6) none)
qed

lemma visible_move:
  assumes ok: "generations_ok db" and b: "bundle_move db db' b d" and s: "s \<in> set (db_snapshots db)" "sl \<in> set (sn_lanes s)" "bu_tenant b = sn_tenant s" "bu_lane b = sl_lane sl"
  shows "visible_at (sl_generation sl) d = visible_at (sl_generation sl) b"
proof -
  have g: "sl_generation sl \<le> la_generation l" if "l \<in> set (db_lanes db)" "lane_key l = (bu_tenant b, bu_lane b)" for l
    using ok that s unfolding generations_ok_def by metis
  show ?thesis
  proof (cases "bu_valid_to d = bu_valid_to b")
    case True
    then show ?thesis using bundle_moveD(4) [OF b] by (simp add: visible_at_def)
  next
    case False
    then obtain l where "l \<in> set (db_lanes db)" "lane_key l = (bu_tenant b, bu_lane b)" "bu_valid_to d = Some (la_generation l + 1)" "bu_valid_to b = None"
      using b by (auto simp: bundle_move_def)
    then show ?thesis using g [of l] bundle_moveD(4) [OF b] by (simp add: visible_at_def)
  qed
qed

lemma files_move:
  assumes mv: "moves now db db' bs nb nf js nj ss ns" and b: "b \<in> set (db_bundles db)" "bundle_move db db' b d"
  shows "filter (bundle_file d role) (db_files db') = filter (bundle_file b role) (db_files db)"
proof -
  note m = movesD [OF mv]
  have "fi_bundle f \<noteq> bu_id b" if n: "f \<in> set nf" for f
  proof -
    obtain x where "x \<in> set nb" "fi_bundle f = bu_id x" using m(5) [OF n] by blast
    then show ?thesis using m(3) b(1) by (auto simp: list_all_iff new_bundle_def)
  qed
  then have "filter (bundle_file d role) nf = []" using bundle_moveD(1) [OF b(2)] by (auto simp: filter_empty_conv bundle_file_def)
  moreover have "bundle_file d role = bundle_file b role" by (rule ext) (simp add: bundle_file_def bundle_moveD(1,2) [OF b(2)])
  ultimately show ?thesis by (simp add: m(4))
qed

lemma bundle_rows_move:
  assumes inv: "catalog_inv now db" and mv: "moves now db db' bs nb nf js nj ss ns" and b: "b \<in> set (db_bundles db)" "bundle_move db db' b d"
    and s: "s \<in> set (db_snapshots db)" "snapshot_live now s" "sl \<in> set (sn_lanes s)" "bu_tenant b = sn_tenant s" "bu_lane b = sl_lane sl" and u: "snapshot_move now s u"
  shows "bundle_rows c r u db' sl d = bundle_rows c r s db sl b"
proof -
  have ok: "generations_ok db" "objects_kept now db" using inv by (simp_all add: catalog_inv_def)
  note d = bundle_moveD [OF b(2)]
  note vis = visible_move [OF ok(1) b(2) s(1,3,4,5)]
  have pg: "in_page c r u sl d f = in_page c r s sl b f" for f by (simp add: in_page_def vis d snapshot_moveD [OF u])
  show ?thesis
  proof (cases "visible_at (sl_generation sl) b")
    case True
    then have "bundle_held now db b" using s unfolding bundle_held_def pinned_iff by metis
    then have k: "object_keys db' f = object_keys db f" if "f \<in> set (filter (bundle_file b role) (db_files db))" for f role
      using keys_move [OF ok(2) mv b(1)] that by (auto simp: bundle_file_def)
    have kk: "map (\<lambda>g. map (h g) (object_keys db' g)) (filter (bundle_file b role) (db_files db)) = map (\<lambda>g. map (h g) (object_keys db g)) (filter (bundle_file b role) (db_files db))" for h :: "file_row \<Rightarrow> string \<Rightarrow> page_row" and role
      by (rule map_cong [OF refl]) (simp only: k)
    show ?thesis unfolding bundle_rows_def files_move [OF mv b] pg d snapshot_moveD [OF u]
      by (rule arg_cong [where f = concat], rule map_cong [OF refl]) (simp only: k kk)
  next
    case False
    then have "\<not> in_page c r s sl b f" for f by (simp add: in_page_def)
    then show ?thesis by (simp add: bundle_rows_def pg files_move [OF mv b])
  qed
qed

lemma lane_rows_move:
  assumes inv: "catalog_inv now db" and mv: "moves now db db' bs nb nf js nj ss ns" and s: "s \<in> set (db_snapshots db)" "snapshot_live now s" "sl \<in> set (sn_lanes s)" and u: "snapshot_move now s u"
  shows "lane_rows c r u db' sl = lane_rows c r s db sl"
proof -
  note m = movesD [OF mv]
  have ok: "generations_ok db" using inv by (simp add: catalog_inv_def)
  have "\<not> visible_at (sl_generation sl) b" if n: "b \<in> set nb" "bu_tenant b = sn_tenant s" "bu_lane b = sl_lane sl" for b
  proof -
    obtain l where l: "l \<in> set (db_lanes db)" "lane_key l = (bu_tenant b, bu_lane b)" "bu_generation b = la_generation l + 1" using m(3) n(1) by (auto simp: list_all_iff new_bundle_def)
    have "sl_generation sl \<le> la_generation l" using ok l s(1,3) n unfolding generations_ok_def by metis
    then show ?thesis using l(3) by (simp add: visible_at_def)
  qed
  then have new: "concat (map (bundle_rows c r u db' sl) (filter (\<lambda>b. bu_tenant b = sn_tenant s \<and> bu_lane b = sl_lane sl) nb)) = []"
    by (auto simp: bundle_rows_def in_page_def)
  have old: "map (bundle_rows c r u db' sl) (filter (\<lambda>b. bu_tenant b = sn_tenant s \<and> bu_lane b = sl_lane sl) bs) =
      map (bundle_rows c r s db sl) (filter (\<lambda>b. bu_tenant b = sn_tenant s \<and> bu_lane b = sl_lane sl) (db_bundles db))"
    by (rule list_all2_map_filter [OF m(2)]) (simp add: bundle_moveD(2,3) bundle_rows_move [OF inv mv _ _ s _ _ u])
  show ?thesis using new old by (simp add: lane_rows_def m(1) snapshot_moveD [OF u])
qed

lemma page_rows_move:
  assumes inv: "catalog_inv now db" and mv: "catalog_move now db db'" and there: "\<exists>s \<in> set (db_snapshots db). sn_id s = kc_snapshot c"
    and live: "\<And>u. u \<in> set (db_snapshots db') \<Longrightarrow> sn_tenant u = kc_tenant c \<Longrightarrow> sn_id u = kc_snapshot c \<Longrightarrow> snapshot_live now u"
  shows "page_rows c r db' = page_rows c r db"
proof -
  obtain bs nb nf js nj ss ns where mv': "moves now db db' bs nb nf js nj ss ns" using mv by (auto simp: catalog_move_def)
  note m = movesD [OF mv']
  let ?f = "\<lambda>db s. concat (map (lane_rows c r s db) (sn_lanes s))"
  have "sn_id u \<noteq> kc_snapshot c" if "u \<in> set ns" for u
  proof -
    have "sn_id u \<notin> sn_id ` set (db_snapshots db)" using m(13) that by (simp add: list_all_iff new_snapshot_def)
    then show ?thesis using there by (metis image_eqI)
  qed
  then have none: "filter (\<lambda>s. sn_tenant s = kc_tenant c \<and> sn_id s = kc_snapshot c) ns = []" by (auto simp: filter_empty_conv)
  have "map (?f db') (filter (\<lambda>s. sn_tenant s = kc_tenant c \<and> sn_id s = kc_snapshot c) ss) = map (?f db) (filter (\<lambda>s. sn_tenant s = kc_tenant c \<and> sn_id s = kc_snapshot c) (db_snapshots db))"
  proof (rule list_all2_map_filter [OF m(12)], intro conjI impI)
    fix s u assume s: "s \<in> set (db_snapshots db)" "u \<in> set ss" "snapshot_move now s u"
    show "(sn_tenant u = kc_tenant c \<and> sn_id u = kc_snapshot c) = (sn_tenant s = kc_tenant c \<and> sn_id s = kc_snapshot c)" by (simp add: snapshot_moveD [OF s(3)])
    assume p: "sn_tenant s = kc_tenant c \<and> sn_id s = kc_snapshot c"
    have "snapshot_live now u" by (rule live) (use s(2) p snapshot_moveD [OF s(3)] in \<open>simp_all add: m(11)\<close>)
    then have "snapshot_live now s" by (rule snapshot_moveD(8) [OF s(3)])
    then show "?f db' u = ?f db s" unfolding snapshot_moveD [OF s(3)] using lane_rows_move [OF inv mv' s(1) _ _ s(3)]
      by (intro arg_cong [where f = concat] map_cong) simp_all
  qed
  then show ?thesis by (simp add: page_rows_def m(11) none)
qed

end
