(* ===== verification/Cleanup.thy ===== *)
theory Cleanup
  imports Collect AcceptFacts
begin

section \<open>Retention cleanup\<close>

text \<open>
  The cleanup of \<open>internal/control/gc.go\<close>: expired issue detail, expired deduplication rows, and one batch
  at a time whose evidence nothing needs any more. The identifiers of a journal are never empty, so the
  empty string stands for the \<open>NULL\<close> that a retired batch has in their place.
\<close>

subsection \<open>Detail\<close>

definition kept_for_snapshot :: "int \<Rightarrow> control_db \<Rightarrow> occurrence_row \<Rightarrow> bool" where
  "kept_for_snapshot now db w = list_ex (\<lambda>s. sn_tenant s = ow_tenant w \<and> snapshot_live now s \<and> sn_floor s \<le> o_received (ow_occ w)) (db_snapshots db)"

definition expired_occurrence :: "int \<Rightarrow> control_db \<Rightarrow> occurrence_row \<Rightarrow> bool" where
  "expired_occurrence now db w = (o_received (ow_occ w) < db_floor db \<and> \<not> kept_for_snapshot now db w)"

definition expired_records :: "int \<Rightarrow> int \<Rightarrow> control_db \<Rightarrow> string list" where
  "expired_records tenant now db =
    take 1000 (sortBy byte_less (map (\<lambda>w. o_record (ow_occ w)) (filter (\<lambda>w. expired_occurrence now db w \<and> (tenant = 0 \<or> ow_tenant w = tenant)) (db_occurrences db))))"

definition forget_records :: "int \<Rightarrow> int \<Rightarrow> control_db \<Rightarrow> control_db" where
  "forget_records tenant now db = (let gone = set (expired_records tenant now db) in
    db\<lparr>db_transitions := update_where (\<lambda>t. case tr_record t of None \<Rightarrow> False | Some r \<Rightarrow> r \<in> gone) (\<lambda>t. t\<lparr>tr_record := None\<rparr>) (db_transitions db),
      db_occurrences := filter (\<lambda>w. o_record (ow_occ w) \<notin> gone) (db_occurrences db)\<rparr>)"

subsection \<open>Deduplication rows\<close>

definition expired_row :: "int \<Rightarrow> control_db \<Rightarrow> dedupe_row \<Rightarrow> bool" where
  "expired_row now db d = (list_ex (\<lambda>p. pr_tenant p = de_tenant d \<and> pr_id p = de_project d) (db_projects db) \<and> de_expires d \<le> now \<and>
    de_created d + (db_dedupe_days db + 7) * day_us \<le> now)"

definition drop_dedupe :: "int \<Rightarrow> int \<Rightarrow> control_db \<Rightarrow> control_db" where
  "drop_dedupe tenant now db =
    (let gone = take 1000 (sort_key de_expires (filter (\<lambda>d. expired_row now db d \<and> (tenant = 0 \<or> de_tenant d = tenant)) (db_dedupe db))) in
     db\<lparr>db_dedupe := filter (\<lambda>d. d \<notin> set gone) (db_dedupe db)\<rparr>)"

subsection \<open>Batches\<close>

definition batch_receipts :: "batch_row \<Rightarrow> control_db \<Rightarrow> receipt_row list" where
  "batch_receipts b db = filter (\<lambda>r. re_tenant r = ba_tenant b \<and> re_lane r = ba_lane b \<and> re_seq r = ba_seq b) (db_receipts db)"

definition retirable :: "int \<Rightarrow> control_db \<Rightarrow> batch_row \<Rightarrow> bool" where
  "retirable now db b = (ba_state b = ''published'' \<and> ba_recovery b = ''live'' \<and>
    \<not> list_ex (\<lambda>r. list_ex (\<lambda>p. pr_tenant p = re_tenant r \<and> pr_id p = re_project r) (db_projects db) \<and> now - (db_dedupe_days db + 7) * day_us \<le> re_received r) (batch_receipts b db) \<and>
    \<not> list_ex (\<lambda>d. list_ex (\<lambda>r. re_acceptance r = de_acceptance d) (batch_receipts b db)) (db_dedupe db) \<and>
    \<not> list_ex (\<lambda>w. ow_tenant w = ba_tenant b \<and> o_lane (ow_occ w) = ba_lane b \<and> o_seq (ow_occ w) = ba_seq b) (db_occurrences db) \<and>
    \<not> backup_active now db)"

definition batch_before :: "batch_row \<Rightarrow> batch_row \<Rightarrow> bool" where
  "batch_before a b = (ba_tenant a < ba_tenant b \<or> ba_tenant a = ba_tenant b \<and> (ba_lane a < ba_lane b \<or> ba_lane a = ba_lane b \<and> ba_seq a < ba_seq b))"

definition receipt_text :: "receipt_row \<Rightarrow> string" where
  "receipt_text r = re_acceptance r @ '':'' @ re_selection_sha r"

definition summary_of_batch :: "batch_row \<Rightarrow> control_db \<Rightarrow> summary_row" where
  "summary_of_batch b db = \<lparr>rs_tenant = ba_tenant b, rs_lane = ba_lane b, rs_seq = ba_seq b, rs_batch = ba_id b, rs_requests = ba_requests b, rs_records = ba_records b, rs_accepted = ba_accepted b,
    rs_duplicate = ba_duplicate b, rs_conflict = ba_conflict b, rs_journal = ba_journal_sha b,
    rs_receipts = sha256_hex (join_with CHR 0x0A (map receipt_text (sortBy (\<lambda>x y. byte_less (re_acceptance x) (re_acceptance y)) (batch_receipts b db))))\<rparr>"

definition batch_job :: "batch_row \<Rightarrow> job_row \<Rightarrow> bool" where
  "batch_job b j = (jo_tenant j = ba_tenant b \<and> jo_lane j = ba_lane b \<and> jo_seq j = ba_seq b \<and> jo_state j = ''completed'')"

definition same_batch :: "batch_row \<Rightarrow> batch_row \<Rightarrow> bool" where
  "same_batch b x = (ba_tenant x = ba_tenant b \<and> ba_lane x = ba_lane b \<and> ba_seq x = ba_seq b)"

text \<open>
  The deletes, with the rows that the schema deletes with them: parts and occurrences of an output,
  outcomes and unsupported items of a receipt.
\<close>

definition drop_outputs :: "batch_row \<Rightarrow> control_db \<Rightarrow> control_db" where
  "drop_outputs b db =
    (let jobs = map jo_id (filter (batch_job b) (db_jobs db));
         outputs = map ou_id (filter (\<lambda>w. ou_tenant w = ba_tenant b \<and> ou_job w \<in> set jobs) (db_outputs db)) in
     db\<lparr>db_prepared := filter (\<lambda>x. \<not> (o_lane (du_occ (snd x)) = ba_lane b \<and> o_seq (du_occ (snd x)) = ba_seq b \<and> list_ex (\<lambda>w. ou_id w = fst x \<and> ou_tenant w = ba_tenant b) (db_outputs db)) \<and>
         fst x \<notin> set outputs) (db_prepared db),
       db_outputs := filter (\<lambda>w. \<not> (ou_tenant w = ba_tenant b \<and> ou_job w \<in> set jobs)) (db_outputs db),
       db_parts := filter (\<lambda>p. pt_output p \<notin> set outputs) (db_parts db),
       db_intents := update_where (\<lambda>i. case in_job i of None \<Rightarrow> False | Some j \<Rightarrow> j \<in> set jobs) (\<lambda>i. i\<lparr>in_job := None, in_producer_generation := None, in_producer_fence := None\<rparr>) (db_intents db),
       db_jobs := filter (\<lambda>j. \<not> batch_job b j) (db_jobs db)\<rparr>)"

definition drop_receipts :: "batch_row \<Rightarrow> control_db \<Rightarrow> control_db" where
  "drop_receipts b db =
    (let gone = map re_acceptance (batch_receipts b db) in
     db\<lparr>db_receipts := filter (\<lambda>r. \<not> (re_tenant r = ba_tenant b \<and> re_lane r = ba_lane b \<and> re_seq r = ba_seq b)) (db_receipts db),
       db_outcomes := filter (\<lambda>x. os_acceptance x \<notin> set gone) (db_outcomes db), db_unsupported := filter (\<lambda>x. un_acceptance x \<notin> set gone) (db_unsupported db)\<rparr>)"

definition retire_journal :: "batch_row \<Rightarrow> int \<Rightarrow> control_db \<Rightarrow> control_error + control_db" where
  "retire_journal b now db =
    (let P = (\<lambda>i. list_ex (\<lambda>x. same_batch b x \<and> in_id i = ba_intent x) (db_batches db));
         until = now + 8 * dayUS in
     if affected P (db_intents db) \<noteq> 1 then Inl ErrCleanup
     else Inr (db\<lparr>db_intents := update_where P (\<lambda>i. i\<lparr>in_retired := Some now, in_protect := Some (case in_protect i of None \<Rightarrow> until | Some t \<Rightarrow> max t until), in_updated := now\<rparr>) (db_intents db)\<rparr>))"

definition retire_batch :: "batch_row \<Rightarrow> int \<Rightarrow> control_db \<Rightarrow> control_error + control_db" where
  "retire_batch b now db =
    (if list_ex (\<lambda>s. rs_tenant s = ba_tenant b \<and> rs_lane s = ba_lane b \<and> rs_seq s = ba_seq b \<or> rs_batch s = ba_id b) (db_summaries db) then Inl ErrUnique
     else let db1 = drop_receipts b (drop_outputs b (db\<lparr>db_summaries := db_summaries db @ [summary_of_batch b db]\<rparr>)) in
       bindR (retire_journal b now db1) (\<lambda>db2.
         let P = (\<lambda>x. same_batch b x \<and> ba_state x = ''published'' \<and> ba_recovery x = ''live'') in
         if affected P (db_batches db2) \<noteq> 1 then Inl ErrCleanup
         else Inr (db2\<lparr>db_batches := update_where P (\<lambda>x. x\<lparr>ba_recovery := ''retired'', ba_intent := []\<rparr>) (db_batches db2)\<rparr>)))"

subsection \<open>The transaction\<close>

definition runRetentionCleanupTenant :: "int \<Rightarrow> int \<Rightarrow> control_db \<Rightarrow> control_error + bool \<times> control_db" where
  "runRetentionCleanupTenant tenant now db =
    (if tenant \<le> 0 then Inl ErrInvalidCommand
     else let db1 = drop_dedupe tenant now (forget_records tenant now db) in
       case sortBy batch_before (filter (\<lambda>b. retirable now db1 b \<and> (tenant = 0 \<or> ba_tenant b = tenant)) (db_batches db1)) of
         [] \<Rightarrow> Inr (False, db1)
       | b # _ \<Rightarrow> bindR (retire_batch b now db1) (\<lambda>db2. Inr (True, db2)))"

text \<open>The tenant is selected before the transaction, so it may meet another state of the database.\<close>

definition cleanup_tenants :: "int \<Rightarrow> control_db \<Rightarrow> int list" where
  "cleanup_tenants now db = map ow_tenant (filter (expired_occurrence now db) (db_occurrences db)) @ map de_tenant (filter (expired_row now db) (db_dedupe db)) @
    map ba_tenant (filter (retirable now db) (db_batches db))"

definition runRetentionCleanup :: "int \<Rightarrow> control_db \<Rightarrow> int \<Rightarrow> control_db \<Rightarrow> control_error + bool \<times> control_db" where
  "runRetentionCleanup t before now db =
    (case sort (cleanup_tenants t before) of [] \<Rightarrow> Inr (False, db) | tenant # _ \<Rightarrow> runRetentionCleanupTenant tenant now db)"

subsection \<open>What cleanup leaves alone\<close>

definition intent_core :: "intent_row \<Rightarrow> string \<times> int \<times> string \<times> string" where
  "intent_core i = (in_id i, in_tenant i, in_key i, in_state i)"

lemma retire_journal_eq:
  assumes "retire_journal b now db = Inr db'"
  shows "db' = db\<lparr>db_intents := db_intents db'\<rparr>" "map intent_core (db_intents db') = map intent_core (db_intents db)"
proof -
  obtain P f where d: "db' = db\<lparr>db_intents := update_where P f (db_intents db)\<rparr>" "\<And>i. intent_core (f i) = intent_core i"
    using assms by (auto simp: retire_journal_def Let_def intent_core_def split: if_splits)
  show "db' = db\<lparr>db_intents := db_intents db'\<rparr>" by (simp add: d(1))
  show "map intent_core (db_intents db') = map intent_core (db_intents db)" by (simp add: d update_where_map)
qed

lemma retire_batch_eq:
  assumes "retire_batch b now db = Inr db'"
  obtains db2 bs where "retire_journal b now (drop_receipts b (drop_outputs b (db\<lparr>db_summaries := db_summaries db @ [summary_of_batch b db]\<rparr>))) = Inr db2" "db' = db2\<lparr>db_batches := bs\<rparr>"
  using assms by (cases "retire_journal b now (drop_receipts b (drop_outputs b (db\<lparr>db_summaries := db_summaries db @ [summary_of_batch b db]\<rparr>)))")
    (auto simp: retire_batch_def Let_def split: if_splits)

lemma retire_batch_tables:
  assumes "retire_batch b now db = Inr db'"
  shows "db_dedupe db' = db_dedupe db \<and> db_dedupe_days db' = db_dedupe_days db \<and> db_occurrences db' = db_occurrences db \<and> db_issues db' = db_issues db \<and> db_bundles db' = db_bundles db \<and>
    db_files db' = db_files db \<and> db_snapshots db' = db_snapshots db \<and> db_lanes db' = db_lanes db \<and> map intent_core (db_intents db') = map intent_core (db_intents db)"
  using assms
proof (rule retire_batch_eq)
  fix db2 bs
  let ?db1 = "drop_receipts b (drop_outputs b (db\<lparr>db_summaries := db_summaries db @ [summary_of_batch b db]\<rparr>))"
  assume r: "retire_journal b now ?db1 = Inr db2" and e: "db' = db2\<lparr>db_batches := bs\<rparr>"
  note j = retire_journal_eq [OF r]
  have core: "map intent_core (db_intents ?db1) = map intent_core (db_intents db)"
    by (simp add: drop_receipts_def drop_outputs_def Let_def intent_core_def update_where_map)
  have same: "db_dedupe db2 = db_dedupe db" "db_dedupe_days db2 = db_dedupe_days db" "db_occurrences db2 = db_occurrences db" "db_issues db2 = db_issues db" "db_bundles db2 = db_bundles db"
    "db_files db2 = db_files db" "db_snapshots db2 = db_snapshots db" "db_lanes db2 = db_lanes db"
    by (subst j(1), simp add: drop_receipts_def drop_outputs_def Let_def)+
  show ?thesis using same j(2) core by (simp add: e)
qed

lemma cleanup_cases:
  assumes "runRetentionCleanupTenant tenant now db = Inr (r, db')"
  obtains (quiet) "db' = drop_dedupe tenant now (forget_records tenant now db)"
  | (retired) b where "retire_batch b now (drop_dedupe tenant now (forget_records tenant now db)) = Inr db'"
  using assms by (auto simp: runRetentionCleanupTenant_def Let_def bindR_eq_Inr split: if_splits list.splits)

lemma cleanup_tables:
  assumes "runRetentionCleanupTenant tenant now db = Inr (r, db')"
  shows "db_dedupe db' = db_dedupe (drop_dedupe tenant now db)" "db_dedupe_days db' = db_dedupe_days db" "db_occurrences db' = db_occurrences (forget_records tenant now db)" "db_issues db' = db_issues db"
    "db_bundles db' = db_bundles db" "db_files db' = db_files db" "db_snapshots db' = db_snapshots db" "db_lanes db' = db_lanes db" "map intent_core (db_intents db') = map intent_core (db_intents db)"
proof -
  let ?db1 = "drop_dedupe tenant now (forget_records tenant now db)"
  have x: "expired_row now (forget_records tenant now db) = expired_row now db" by (rule ext) (simp add: expired_row_def forget_records_def Let_def)
  have one: "db_dedupe ?db1 = db_dedupe (drop_dedupe tenant now db)" by (simp add: drop_dedupe_def x) (simp add: forget_records_def Let_def)
  have rest: "db_dedupe_days ?db1 = db_dedupe_days db" "db_occurrences ?db1 = db_occurrences (forget_records tenant now db)" "db_issues ?db1 = db_issues db" "db_bundles ?db1 = db_bundles db"
    "db_files ?db1 = db_files db" "db_snapshots ?db1 = db_snapshots db" "db_lanes ?db1 = db_lanes db" "db_intents ?db1 = db_intents db"
    by (simp_all add: drop_dedupe_def forget_records_def Let_def)
  have "db_dedupe db' = db_dedupe ?db1 \<and> db_dedupe_days db' = db_dedupe_days ?db1 \<and> db_occurrences db' = db_occurrences ?db1 \<and> db_issues db' = db_issues ?db1 \<and> db_bundles db' = db_bundles ?db1 \<and>
      db_files db' = db_files ?db1 \<and> db_snapshots db' = db_snapshots ?db1 \<and> db_lanes db' = db_lanes ?db1 \<and> map intent_core (db_intents db') = map intent_core (db_intents ?db1)"
    using assms by (cases rule: cleanup_cases) (simp, rule retire_batch_tables)
  then show "db_dedupe db' = db_dedupe (drop_dedupe tenant now db)" "db_dedupe_days db' = db_dedupe_days db" "db_occurrences db' = db_occurrences (forget_records tenant now db)" "db_issues db' = db_issues db"
    "db_bundles db' = db_bundles db" "db_files db' = db_files db" "db_snapshots db' = db_snapshots db" "db_lanes db' = db_lanes db" "map intent_core (db_intents db') = map intent_core (db_intents db)"
    unfolding one rest by blast+
qed

lemma find_filter_unique:
  assumes "distinct (map key xs)" "\<And>x y. P x \<Longrightarrow> P y \<Longrightarrow> key x = key y"
  shows "find P (filter Q xs) = (case find P xs of None \<Rightarrow> None | Some x \<Rightarrow> if Q x then Some x else None)"
  using assms
proof (induction xs)
  case (Cons x xs)
  show ?case
  proof (cases "P x")
    case True
    have "\<not> P y" if "y \<in> set xs" for y using Cons.prems(1) Cons.prems(2) [OF True, of y] that by (metis distinct.simps(2) image_eqI list.map(2) list.set_map)
    then have "find P (filter Q xs) = None" by (auto simp: find_None_iff)
    then show ?thesis using True by simp
  next
    case False
    have "distinct (map key xs)" using Cons.prems(1) by simp
    then show ?thesis using False Cons.IH [OF _ Cons.prems(2)] by simp
  qed
qed simp

definition source_of :: "dedupe_row \<Rightarrow> int \<times> int \<times> string \<times> string" where
  "source_of d = (de_tenant d, de_project d, de_kind d, de_source d)"

lemma dropped_row:
  assumes "d \<in> set (take n (sort_key f (filter Q xs)))"
  shows "Q d"
proof -
  have "d \<in> set (sort_key f (filter Q xs))" using assms by (rule in_set_takeD)
  then show ?thesis by simp
qed

lemma cleanup_live_row:
  assumes run: "runRetentionCleanupTenant tenant now db = Inr (r, db')" and keys: "distinct (map source_of (db_dedupe db))" and later: "now \<le> later"
  shows "AcceptFacts.live_row b later db' k = AcceptFacts.live_row b later db k"
proof -
  obtain gone where d: "db_dedupe db' = filter (\<lambda>d. d \<notin> set gone) (db_dedupe db)" "\<And>d. d \<in> set gone \<Longrightarrow> expired_row now db d"
    using cleanup_tables(1) [OF run] dropped_row by (fastforce simp: drop_dedupe_def Let_def)
  have f: "find (is_source t k) (db_dedupe db') = (case find (is_source t k) (db_dedupe db) of None \<Rightarrow> None | Some x \<Rightarrow> if x \<notin> set gone then Some x else None)" for t
    unfolding d(1) by (rule find_filter_unique [OF keys]) (simp add: is_source_def source_of_def)
  have "dedupe_expired later db x" if "x \<in> set gone" for x using d(2) [OF that] later by (simp add: expired_row_def dedupe_expired_def)
  then show ?thesis using f [of "vb_tenant b"] cleanup_tables(2) [OF run]
    by (simp add: AcceptFacts.live_row_def dedupe_expired_def split: option.splits)
qed

lemma forgotten_record:
  assumes "rc \<in> set (expired_records tenant now db)"
  shows "\<exists>w \<in> set (db_occurrences db). o_record (ow_occ w) = rc \<and> expired_occurrence now db w"
proof -
  have "rc \<in> set (sortBy byte_less (map (\<lambda>w. o_record (ow_occ w)) (filter (\<lambda>w. expired_occurrence now db w \<and> (tenant = 0 \<or> ow_tenant w = tenant)) (db_occurrences db))))"
    using assms unfolding expired_records_def by (rule in_set_takeD)
  then show ?thesis by auto
qed

text \<open>
  C11: retention cleanup is invisible. It does not change what any later batch is classified as, since it
  drops only deduplication rows that have already expired; it keeps every occurrence that is above the
  retention floor or that a live snapshot may still read; and it does not touch the issues.
\<close>

theorem cleanup_is_invisible:
  assumes run: "runRetentionCleanupTenant tenant now db = Inr (r, db')" and keys: "distinct (map source_of (db_dedupe db))" "distinct (map (\<lambda>w. o_record (ow_occ w)) (db_occurrences db))"
  shows "(\<forall>b later k x. now \<le> later \<longrightarrow> reference_class b later db' k x = reference_class b later db k x) \<and>
    (\<forall>w \<in> set (db_occurrences db). db_floor db \<le> o_received (ow_occ w) \<or> kept_for_snapshot now db w \<longrightarrow> w \<in> set (db_occurrences db')) \<and> db_issues db' = db_issues db"
proof (intro conjI allI impI ballI)
  fix b later k x assume "now \<le> later"
  then show "reference_class b later db' k x = reference_class b later db k x" by (simp add: reference_class_def cleanup_live_row [OF run keys(1)])
next
  fix w assume w: "w \<in> set (db_occurrences db)" "db_floor db \<le> o_received (ow_occ w) \<or> kept_for_snapshot now db w"
  have "o_record (ow_occ w) \<notin> set (expired_records tenant now db)"
  proof
    assume "o_record (ow_occ w) \<in> set (expired_records tenant now db)"
    then obtain v where v: "v \<in> set (db_occurrences db)" "o_record (ow_occ v) = o_record (ow_occ w)" "expired_occurrence now db v" using forgotten_record by blast
    have "v = w" using keys(2) v(1,2) w(1) by (metis (mono_tags, lifting) distinct_map inj_onD)
    then show False using v(3) w(2) by (auto simp: expired_occurrence_def)
  qed
  then show "w \<in> set (db_occurrences db')" using w(1) by (simp add: cleanup_tables(3) [OF run] forget_records_def Let_def)
qed (rule cleanup_tables(4) [OF run])

text \<open>One occurrence above the floor, one below it, and one below it that a snapshot may read; an expired and a live deduplication row.\<close>

definition detail_row :: "char \<Rightarrow> int \<Rightarrow> occurrence_row" where
  "detail_row c received = \<lparr>ow_tenant = 1, ow_project = 1, ow_issue = ''x'', ow_acceptance = ''a'', ow_ordinal = 0,
    ow_occ = \<lparr>o_record = [c], o_lane = 0, o_seq = 1, o_time = 0, o_ns = 0, o_received = received, o_release = None\<rparr>\<rparr>"

definition source_row :: "string \<Rightarrow> int \<Rightarrow> dedupe_row" where
  "source_row i expires = \<lparr>de_tenant = 1, de_project = 1, de_kind = ''error'', de_source = i, de_record = i, de_acceptance = ''a'', de_sha = ''h'', de_expires = expires, de_created = 0\<rparr>"

definition cleanup_db :: control_db where
  "cleanup_db = (jobs_db [])\<lparr>db_floor := 100, db_occurrences := [detail_row CHR ''a'' 10, detail_row CHR ''b'' 60, detail_row CHR ''c'' 200],
    db_projects := [\<lparr>pr_tenant = 1, pr_id = 1, pr_state = ''active'', pr_revision = 1, pr_scrub = 1, pr_config = 1\<rparr>],
    db_snapshots := [\<lparr>sn_id = ''s'', sn_tenant = 1, sn_user = None, sn_kind = ''alert'', sn_principal = [], sn_revision = 1, sn_tenant_revision = 1, sn_generation = 1, sn_dataset = [], sn_bytes = [], sn_floor = 50,
      sn_created = 0, sn_expires = 8000000000000, sn_until = 8000000000000, sn_state = ''active'', sn_projects = [], sn_lanes = []\<rparr>],
    db_dedupe := [source_row ''p'' 5, source_row ''q'' 8000000000000]\<rparr>"

definition cleaned_db :: control_db where
  "cleaned_db = drop_dedupe 1 5000000000000 (forget_records 1 5000000000000 cleanup_db)"

lemma cleanup_run: "runRetentionCleanupTenant 1 5000000000000 cleanup_db = Inr (False, cleaned_db)"
  "db_dedupe cleaned_db = [source_row ''q'' 8000000000000]" "db_occurrences cleaned_db = [detail_row CHR ''b'' 60, detail_row CHR ''c'' 200]"
  by code_simp+

theorem cleanup_is_invisible_witness:
  "(\<forall>b k x. reference_class b 5000000000000 cleaned_db k x = reference_class b 5000000000000 cleanup_db k x) \<and> detail_row CHR ''b'' 60 \<in> set (db_occurrences cleaned_db) \<and>
   detail_row CHR ''a'' 10 \<notin> set (db_occurrences cleaned_db)"
proof -
  have k: "distinct (map source_of (db_dedupe cleanup_db))" "distinct (map (\<lambda>w. o_record (ow_occ w)) (db_occurrences cleanup_db))" "kept_for_snapshot 5000000000000 cleanup_db (detail_row CHR ''b'' 60)"
    "detail_row CHR ''b'' 60 \<in> set (db_occurrences cleanup_db)" "detail_row CHR ''a'' 10 \<notin> set (db_occurrences cleaned_db)" by code_simp+
  show ?thesis using cleanup_is_invisible [OF cleanup_run(1) k(1,2)] k(3-5) by blast
qed

end
