(* ===== verification/IssueHistory.thy ===== *)
theory IssueHistory
  imports IssueStoreFacts Cleanup
begin

section \<open>Issue counters over the life of an installation\<close>

text \<open>
  The transactions that write issues or occurrences - publishing an output (\<open>issues.go\<close>), changing a
  status (\<open>issue_status.go\<close>) and the retention cleanup (\<open>gc.go\<close>) - as the steps of a machine. Its state
  is the control database together with the occurrence rows that cleanup has deleted so far; the
  invariant \<open>issues_exact\<close> holds in every reachable state.
\<close>

subsection \<open>The steps\<close>

definition deleted_rows :: "control_db \<Rightarrow> control_db \<Rightarrow> occurrence_row list" where
  "deleted_rows db db' = filter (\<lambda>w. w \<notin> set (db_occurrences db')) (db_occurrences db)"

text \<open>Every other transaction of the program leaves the tables of issues and occurrences alone.\<close>

inductive issue_step :: "occurrence_row list \<times> control_db \<Rightarrow> occurrence_row list \<times> control_db \<Rightarrow> bool" where
  step_publish: "publishIssueOccurrences tenant output db = Inr db' \<Longrightarrow> issue_step (gone, db) (gone, db')"
| step_status: "changeIssueStatus c now db = Inr (res, db') \<Longrightarrow> issue_step (gone, db) (gone, db')"
| step_cleanup: "runRetentionCleanup t before now db = Inr (res, db') \<Longrightarrow> issue_step (gone, db) (gone @ deleted_rows db db', db')"
| step_other: "db_issues db' = db_issues db \<Longrightarrow> db_occurrences db' = db_occurrences db \<Longrightarrow> issue_step (gone, db) (gone, db')"

fun no_issues :: "occurrence_row list \<times> control_db \<Rightarrow> bool" where
  "no_issues (gone, db) = (gone = [] \<and> db_issues db = [] \<and> db_occurrences db = [])"

fun history_exact :: "occurrence_row list \<times> control_db \<Rightarrow> bool" where
  "history_exact (gone, db) = issues_exact gone db"

subsection \<open>Cleanup moves rows into the history\<close>

text \<open>The history is read as a multiset: count and set are all that the counters depend on.\<close>

lemma agrees_mset: "mset os = mset os' \<Longrightarrow> agrees os st = agrees os' st"
  using mset_eq_setD mset_eq_length mset_zero_iff unfolding agrees_def by metis

lemma issues_exact_mset:
  assumes "issues_exact gone db" "db_issues db' = db_issues db" "mset (gone' @ db_occurrences db') = mset (gone @ db_occurrences db)"
    "distinct (map (o_record \<circ> ow_occ) (db_occurrences db'))"
  shows "issues_exact gone' db'"
proof -
  have "mset (occs_of gone' t p i db') = mset (occs_of gone t p i db)" for t p i
    using assms(3) unfolding occs_of_def mset_map mset_filter by simp
  then have "agrees (occs_of gone' t p i db') st = agrees (occs_of gone t p i db) st" for t p i st by (rule agrees_mset)
  moreover have "set (gone' @ db_occurrences db') = set (gone @ db_occurrences db)" using assms(3) mset_eq_setD by blast
  ultimately show ?thesis using assms(1,2,4) unfolding issues_exact_def by simp
qed

lemma cleanup_filters:
  assumes "runRetentionCleanup t before now db = Inr (res, db')"
  obtains P where "db_issues db' = db_issues db" "db_occurrences db' = filter P (db_occurrences db)"
proof (cases "sort (cleanup_tenants t before)")
  case Nil
  then show thesis using assms that [of "\<lambda>_. True"] by (simp add: runRetentionCleanup_def)
next
  case (Cons tenant rest)
  then have "runRetentionCleanupTenant tenant now db = Inr (res, db')" using assms by (simp add: runRetentionCleanup_def)
  then show thesis using cleanup_tables(3,4) [of tenant now db res db'] that by (simp add: forget_records_def Let_def)
qed

lemma cleanup_exact:
  assumes "runRetentionCleanup t before now db = Inr (res, db')" "issues_exact gone db"
  shows "issues_exact (gone @ deleted_rows db db') db'"
proof -
  obtain P where p: "db_issues db' = db_issues db" "db_occurrences db' = filter P (db_occurrences db)" by (rule cleanup_filters [OF assms(1)])
  have "filter (\<lambda>w. w \<notin> set (db_occurrences db')) (db_occurrences db) = filter (\<lambda>w. \<not> P w) (db_occurrences db)"
    unfolding p(2) by (rule filter_cong) auto
  then have "mset (deleted_rows db db') + mset (db_occurrences db') = mset (db_occurrences db)"
    unfolding deleted_rows_def p(2) by (simp add: add.commute flip: multiset_partition)
  moreover have "distinct (map (o_record \<circ> ow_occ) (db_occurrences db'))"
    unfolding p(2) using assms(2) distinct_map_filter by (auto simp: issues_exact_def)
  ultimately show ?thesis using issues_exact_mset [OF assms(2) p(1)] by (simp add: add.assoc)
qed

interpretation issue_machine: state_machine no_issues issue_step history_exact
proof
  fix s t
  show "no_issues s \<Longrightarrow> history_exact s" by (cases s) (simp add: issues_exact_def)
  show "issue_step s t \<Longrightarrow> history_exact s \<Longrightarrow> history_exact t"
  proof (induction rule: issue_step.induct)
    case (step_publish tenant "output" db db' gone)
    then show ?case by (simp add: publishIssueOccurrences_exact)
  next
    case (step_status c now db res db' gone)
    then show ?case using changeIssueStatus_exact by simp
  next
    case (step_cleanup t before now db res db' gone)
    then show ?case using cleanup_exact by simp
  next
    case (step_other db' db gone)
    then show ?case using issues_exact_cong [OF step_other(1,2)] by simp
  qed
qed

subsection \<open>What the counters mean\<close>

text \<open>
  C9: issue counters are exact lifetime counts. In every state that publications, status changes and
  retention cleanups can reach from an empty issue store, the count of an issue row is the number of
  occurrences that were ever recorded for the issue - those whose rows are stored and those whose rows
  cleanup has deleted - and did not overflow; its first and last event are the least and the greatest
  of all of them and its latest receive time is their maximum, so expiry of detail never changes a
  summary. No stored record is counted in two issues, and every occurrence, stored or deleted, belongs
  to an issue row that is still there.
\<close>

theorem issue_rows_exact:
  assumes "reachable no_issues issue_step (gone, db)" "r \<in> set (db_issues db)" "os = occs_of gone (ir_tenant r) (ir_project r) (ir_issue r) db"
  shows "ir_count r = int (length os) \<and> ir_count r \<le> maxInt64 \<and> ir_first r \<in> occ_tuple ` set os \<and> ir_last r \<in> occ_tuple ` set os \<and>
    (\<forall>x \<in> set os. \<not> lessEventTuple (occ_tuple x) (ir_first r) \<and> \<not> lessEventTuple (ir_last r) (occ_tuple x)) \<and>
    ir_received r = Max (o_received ` set os) \<and> distinct (map (o_record \<circ> ow_occ) (db_occurrences db)) \<and>
    (\<forall>w \<in> set (gone @ db_occurrences db). \<exists>q \<in> set (db_issues db). is_issue (ow_tenant w) (ow_project w) (ow_issue w) q)"
proof -
  have ex: "issues_exact gone db" using issue_machine.reachable_inv [OF assms(1)] by simp
  then have "agrees os (row_core r)" using assms(2,3) by (simp add: issues_exact_def)
  moreover have "distinct (map (o_record \<circ> ow_occ) (db_occurrences db))" using ex by (simp add: issues_exact_def)
  moreover note exact_has_row [OF ex]
  ultimately show ?thesis by (simp add: agrees_def summarises_def row_core_def)
qed

subsubsection \<open>A sample: two occurrences are published and then expire\<close>

definition aged_db :: "control_db \<Rightarrow> control_db" where
  "aged_db db = sample_db\<lparr>db_issues := db_issues db, db_occurrences := db_occurrences db, db_floor := 1000\<rparr>"

lemma sample_cleanup:
  assumes "db_occurrences db = [occurrence_row_of 1 (sample_durable CHR ''b'' 9 30), occurrence_row_of 1 (sample_durable CHR ''a'' 7 40)]"
  shows "\<exists>db'. runRetentionCleanup 2000 (aged_db db) 2000 (aged_db db) = Inr (False, db') \<and> db_issues db' = db_issues db \<and> db_occurrences db' = []"
proof -
  have t: "cleanup_tenants 2000 (aged_db db) = [1, 1]"
    by (simp add: cleanup_tenants_def expired_occurrence_def kept_for_snapshot_def aged_db_def assms sample_db_def occurrence_row_of_def sample_durable_def sample_occurrence_def)
  have e: "set (expired_records 1 2000 (aged_db db)) = {replicate 64 CHR ''a'', replicate 64 CHR ''b''}"
    by (simp add: expired_records_def expired_occurrence_def kept_for_snapshot_def aged_db_def assms sample_db_def occurrence_row_of_def sample_durable_def sample_occurrence_def set_sortBy) auto
  have "db_occurrences (forget_records 1 2000 (aged_db db)) = []"
    by (simp only: forget_records_def e Let_def) (simp add: aged_db_def assms occurrence_row_of_def sample_durable_def sample_occurrence_def)
  moreover have "db_batches (drop_dedupe 1 2000 (forget_records 1 2000 (aged_db db))) = []" "db_occurrences (drop_dedupe 1 2000 d) = db_occurrences d"
    "db_issues (drop_dedupe 1 2000 (forget_records 1 2000 (aged_db db))) = db_issues db" for d
    by (simp_all add: drop_dedupe_def forget_records_def Let_def aged_db_def sample_db_def)
  ultimately show ?thesis by (simp add: runRetentionCleanup_def t runRetentionCleanupTenant_def Let_def)
qed

theorem issue_rows_exact_witness:
  "\<exists>db0 d1 db gone r. publishIssueOccurrences 1 ''o'' sample_db = Inr db0 \<and> runRetentionCleanup 2000 d1 2000 d1 = Inr (False, db) \<and>
    db_issues db = [r] \<and> db_occurrences db = [] \<and> ir_count r = int (length (occs_of gone (ir_tenant r) (ir_project r) (ir_issue r) db)) \<and> ir_count r = 2"
proof -
  obtain db0 where p: "publishIssueGroup 1 sample_db [sample_durable CHR ''b'' 9 30, sample_durable CHR ''a'' 7 40] = Inr db0"
    "db_issues db0 = [store_state (counted_state (created_state (sample_occurrence CHR ''b'' 9 30) ''x'') (sample_occurrence CHR ''a'' 7 40))
      (new_issue_row 1 (sample_durable CHR ''b'' 9 30) (created_state (sample_occurrence CHR ''b'' 9 30) ''x''))]"
    "db_occurrences db0 = [occurrence_row_of 1 (sample_durable CHR ''b'' 9 30), occurrence_row_of 1 (sample_durable CHR ''a'' 7 40)]"
    by (rule sample_publish)
  let ?d = "aged_db db0" and ?r = "hd (db_issues db0)"
  obtain db where c: "runRetentionCleanup 2000 ?d 2000 ?d = Inr (False, db)" "db_issues db = db_issues db0" "db_occurrences db = []"
    using sample_cleanup [OF p(3)] by blast
  have pub: "publishIssueOccurrences 1 ''o'' sample_db = Inr db0" using p(1) sample_pages by simp
  have "reachable no_issues issue_step ([], sample_db)" by (rule reachable_init) (simp add: sample_db_def)
  then have "reachable no_issues issue_step ([], db0)" by (rule reachable_step) (rule step_publish [OF pub])
  then have "reachable no_issues issue_step ([], ?d)" by (rule reachable_step) (rule step_other; simp add: aged_db_def)
  then have "reachable no_issues issue_step ([] @ deleted_rows ?d db, db)" by (rule reachable_step) (rule step_cleanup [OF c(1)])
  then have "ir_count ?r = int (length (occs_of ([] @ deleted_rows ?d db) (ir_tenant ?r) (ir_project ?r) (ir_issue ?r) db))"
    using issue_rows_exact [of "[] @ deleted_rows ?d db" db ?r] p(2) c(2) by simp
  moreover have "ir_count ?r = 2" using p(2) by (simp add: store_state_def counted_state_def created_state_def add64_id int64_def)
  ultimately show ?thesis using pub p(2) c by (intro exI [of _ db0] exI [of _ ?d] exI [of _ db] exI [of _ "[] @ deleted_rows ?d db"] exI [of _ ?r]) simp
qed

end
