(* ===== verification/CatalogRun.thy ===== *)
theory CatalogRun
  imports Cleanup
begin

section \<open>Runs of the control plane\<close>

text \<open>
  Every modelled transaction that writes the catalog, the object intents, the lanes or the snapshots moves
  the catalog as \<^const>\<open>catalog_move\<close> allows; so what a live snapshot sees does not change over any
  sequence of them.
\<close>

subsection \<open>Transactions that leave the catalog alone\<close>

lemma bundle_move_refl: "bundle_move db db' b b"
  unfolding bundle_move_def by (rule exI [of _ "bu_valid_to b"], rule exI [of _ "bu_retired b"], rule exI [of _ "bu_reserved b"]) simp

lemma intent_move_refl: "intent_move now db i i"
  by (simp add: intent_move_def)

lemma lane_move_refl: "lane_move l l"
  by (simp add: lane_move_def)

lemma snapshot_move_refl: "snapshot_move now s s"
  unfolding snapshot_move_def by (rule exI [of _ "sn_expires s"], rule exI [of _ "sn_state s"]) simp

lemma list_all2_update: "(\<And>x. x \<in> set xs \<Longrightarrow> P x \<Longrightarrow> R x (f x)) \<Longrightarrow> (\<And>x. R x x) \<Longrightarrow> list_all2 R xs (update_where P f xs)"
  by (induction xs) (auto simp: update_where_def)

lemmas move_refl = bundle_move_refl intent_move_refl lane_move_refl snapshot_move_refl list.rel_refl

lemma move_objects:
  assumes "db_bundles db' = db_bundles db" "db_files db' = db_files db" "db_snapshots db' = db_snapshots db" "list_all2 lane_move (db_lanes db) (db_lanes db')"
    "db_intents db' = js @ nj" "list_all2 (intent_move now db) (db_intents db) js" "\<And>i. i \<in> set nj \<Longrightarrow> in_id i \<notin> in_id ` set (db_intents db)" "distinct (map in_id nj)"
  shows "catalog_move now db db'"
proof -
  have "moves now db db' (db_bundles db) [] [] js nj (db_snapshots db) []" using assms by (simp add: moves_def move_refl)
  then show ?thesis unfolding catalog_move_def by blast
qed

lemma move_intents:
  assumes "db_bundles db' = db_bundles db" "db_files db' = db_files db" "db_snapshots db' = db_snapshots db" "list_all2 lane_move (db_lanes db) (db_lanes db')"
    "list_all2 (intent_move now db) (db_intents db) (db_intents db')"
  shows "catalog_move now db db'"
  by (rule move_objects [where js = "db_intents db'" and nj = "[]"]) (use assms in simp_all)

lemma move_quiet:
  assumes "db_bundles db' = db_bundles db" "db_files db' = db_files db" "db_snapshots db' = db_snapshots db" "db_lanes db' = db_lanes db" "db_intents db' = db_intents db"
  shows "catalog_move now db db'"
  by (rule move_intents) (use assms in \<open>simp_all add: move_refl\<close>)

lemma move_same: "catalog_move now db db"
  by (rule move_quiet) simp_all

lemma move_snapshots:
  assumes "db_bundles db' = db_bundles db" "db_files db' = db_files db" "db_lanes db' = db_lanes db" "db_intents db' = db_intents db"
    "db_snapshots db' = ss @ ns" "list_all2 (snapshot_move now) (db_snapshots db) ss" "list_all (new_snapshot db) ns" "distinct (map sn_id ns)"
  shows "catalog_move now db db'"
proof -
  have "moves now db db' (db_bundles db) [] [] (db_intents db) [] ss ns" using assms by (simp add: moves_def move_refl)
  then show ?thesis unfolding catalog_move_def by blast
qed

subsection \<open>Object intents\<close>

lemma intent_move_kept:
  assumes "in_id j = in_id i" "in_tenant j = in_tenant i" "in_key j = in_key i" "in_state i = ''referenced'' \<Longrightarrow> in_state j = ''referenced''"
  shows "intent_move now db i j"
  using assms by (simp add: intent_move_def)

lemma move_insert_intent:
  assumes "insert_intent i db = Inr db'"
  shows "catalog_move now db db'"
proof -
  have i: "db' = db\<lparr>db_intents := db_intents db @ [i]\<rparr>" "\<not> list_ex (\<lambda>x. in_id x = in_id i \<or> in_key x = in_key i) (db_intents db)"
    using assms by (simp_all add: insert_intent_def split: if_splits)
  have "in_id i \<noteq> in_id x" if "x \<in> set (db_intents db)" for x using i(2) that by (auto simp: list_ex_iff)
  then have f: "in_id i \<notin> in_id ` set (db_intents db)" by blast
  show ?thesis by (rule move_objects [where js = "db_intents db" and nj = "[i]"]) (use f in \<open>simp_all add: i(1) move_refl\<close>)
qed

lemma move_mark_uploaded:
  assumes "mark_uploaded P a now db = Inr db'" "\<And>i. P i \<Longrightarrow> in_state i = ''pending''"
  shows "catalog_move now db db'"
proof -
  have d: "db' = db\<lparr>db_intents := update_where P (\<lambda>i. i\<lparr>in_state := ''uploaded'', in_uploaded_bytes := Some (ia_bytes a), in_uploaded_sha := Some (ia_sha a), in_updated := now\<rparr>) (db_intents db)\<rparr>"
    using assms(1) by (simp add: mark_uploaded_def split: if_splits)
  show ?thesis
    by (rule move_intents) (use assms(2) in \<open>auto simp: d move_refl intro!: list_all2_update intent_move_kept\<close>)
qed

lemma awaits_pending: "awaits_upload installation gen tenant a now i \<Longrightarrow> in_state i = ''pending''"
  by (simp add: awaits_upload_def)

lemma move_registerJournalIntent: "registerJournalIntent r now db = Inr db' \<Longrightarrow> catalog_move now db db'"
  by (auto simp: registerJournalIntent_def Let_def split: if_splits intro: move_insert_intent)

lemma move_markJournalIntentUploaded: "markJournalIntentUploaded installation gen tenant a now db = Inr db' \<Longrightarrow> catalog_move now db db'"
  by (auto simp: markJournalIntentUploaded_def split: if_splits intro: move_mark_uploaded awaits_pending)

lemma move_registerOutputIntent: "registerOutputIntent r now db = Inr db' \<Longrightarrow> catalog_move now db db'"
  by (auto simp: registerOutputIntent_def Let_def bindR_eq_Inr split: if_splits option.splits intro: move_insert_intent)

lemma move_markOutputIntentUploaded: "markOutputIntentUploaded a tenant i now db = Inr db' \<Longrightarrow> catalog_move now db db'"
  by (auto simp: markOutputIntentUploaded_def split: if_splits dest: awaits_pending intro: move_mark_uploaded)

lemma move_registerMaintenanceIntent: "registerMaintenanceIntent uuid_ok r now db = Inr db' \<Longrightarrow> catalog_move now db db'"
  by (auto simp: registerMaintenanceIntent_def Let_def bindR_eq_Inr split: if_splits intro: move_insert_intent)

lemma move_markMaintenanceIntentUploaded:
  assumes "markMaintenanceIntentUploaded uuid_ok a i now db = Inr db'"
  shows "catalog_move now db db'"
proof -
  obtain P where d: "db' = db\<lparr>db_intents := update_where P (\<lambda>x. x\<lparr>in_state := ''uploaded'', in_uploaded_bytes := Some (ia_bytes i), in_uploaded_sha := Some (ia_sha i), in_updated := now\<rparr>) (db_intents db)\<rparr>"
    "\<And>x. P x \<Longrightarrow> in_state x = ''pending''"
    using assms awaits_pending by (fastforce simp: markMaintenanceIntentUploaded_def Let_def split: if_splits)
  show ?thesis by (rule move_intents) (use d(2) in \<open>auto simp: d(1) move_refl intro!: list_all2_update intent_move_kept\<close>)
qed

subsection \<open>Acceptance, conversion and preparation\<close>

lemma lane_move_kept: "la_tenant m = la_tenant l \<Longrightarrow> la_id m = la_id l \<Longrightarrow> la_generation l \<le> la_generation m \<Longrightarrow> lane_move l m"
  by (simp add: lane_move_def lane_key_def)

lemma move_accept:
  assumes "validateVerifiedBatch b = Inr u" "accept_transaction b now before db = Inr (results, db')"
  shows "catalog_move now db db'"
  using assms(2)
proof (cases rule: accept_transaction_cases)
  case found
  then show ?thesis by (simp add: move_same)
next
  case (locked t retention)
  from locked(3) show ?thesis
  proof (cases rule: accept_locked_cases)
    case found
    then show ?thesis by (simp add: move_same)
  next
    case (fresh l missing)
    from fresh(5) show ?thesis
    proof (rule accept_fresh_tables)
      fix classes db1 ocs us
      assume c: "selectCandidates b retention now db = Inr (classes, db1)"
      assume d: "db' = db1\<lparr>db_batches := db_batches db1 @ [batch_row_of b results (la_accepted l + 1) (max now (la_received l))],
        db_receipts := db_receipts db1 @ map new_receipt (enumerate 0 (zip (vb_requests b) results)), db_outcomes := ocs, db_unsupported := us,
        db_jobs := db_jobs db1 @ [job_row_of b (la_accepted l + 1) now],
        db_intents := update_where (journal_intent b) (\<lambda>i. i\<lparr>in_state := ''referenced'', in_updated := now\<rparr>) (db_intents db1),
        db_lanes := update_where (\<lambda>x. la_tenant x = vb_tenant b \<and> la_id x = vb_lane b \<and> la_accepted x = la_accepted l)
          (\<lambda>x. x\<lparr>la_accepted := la_accepted l + 1, la_received := max now (la_received l)\<rparr>) (db_lanes db1)\<rparr>"
      obtain rows where r: "db1 = db\<lparr>db_dedupe := rows\<rparr>" using selected [OF validate_batch [OF assms(1)] c] by blast
      show ?thesis by (rule move_intents) (auto simp: d r move_refl intro!: list_all2_update intent_move_kept lane_move_kept)
    qed
  qed
qed

lemma move_claimConversionJob: "claimConversionJob installation gen owner lease after locked now db = Inr (res, db') \<Longrightarrow> catalog_move now db db'"
  by (erule claimConversionJob_cases) (auto simp: move_same intro!: move_quiet)

lemma move_heartbeatConversionJob: "heartbeatConversionJob a lease now db = Inr (t, db') \<Longrightarrow> catalog_move now db db'"
  by (rule move_quiet) (auto simp: heartbeatConversionJob_def bindR_eq_Inr split: if_splits)

lemma move_refence:
  assumes "refence_intents tenant ids owner fence gen now db = Inr db1"
  shows "list_all2 (intent_move later db) (db_intents db) (db_intents db1)" "db_bundles db1 = db_bundles db" "db_files db1 = db_files db" "db_snapshots db1 = db_snapshots db" "db_lanes db1 = db_lanes db"
  using assms by (auto simp: refence_intents_def Let_def move_refl split: if_splits intro!: list_all2_update intent_move_kept)

lemma move_claimPublicationJob:
  assumes "claimPublicationJob installation gen tenant lane owner lease now db = Inr (job, db')"
  shows "catalog_move now db db'"
proof (cases "db' = db")
  case False
  then obtain ids fence js db1 where d: "refence_intents tenant ids owner fence gen now db = Inr db1" "db' = db1\<lparr>db_jobs := js\<rparr>"
    using assms by (auto simp: claimPublicationJob_def bindR_eq_Inr split: if_splits option.splits prod.splits)
  show ?thesis by (rule move_intents) (simp_all add: d(2) move_refl move_refence [OF d(1)])
qed (simp add: move_same)

lemma move_prepare:
  assumes "prepare c before files now db = Inr db'"
  shows "catalog_move now db db'"
proof (cases "db' = db")
  case False
  obtain root where "prepare_fresh c files root now db = Inr db'" using assms False by (auto simp: prepare_def bindR_eq_Inr split: if_splits)
  then obtain outs ins parts n prepped intents db1 db2 db3 db4 where d: "db1 = db\<lparr>db_outputs := outs\<rparr>" "foldR (store_part c files) (([], (0, 0, 0)), db1) (enumerate 0 (pq_parts c)) = Inr (ins, db2)"
    "insertPreparedOccurrences c files db2 = Inr (n, db3)" "referencePreparedIntents c intents now db3 = Inr db4" "release_job c now db4 = Inr db'"
    by (auto simp: prepare_fresh_def insert_output_def insertPreparedParts_def Let_def bindR_eq_Inr split: if_splits prod.splits)
  have e: "\<exists>ps. db2 = db1\<lparr>db_parts := ps\<rparr>" "\<exists>rs. db3 = db2\<lparr>db_prepared := rs\<rparr>" "\<exists>js. db' = db4\<lparr>db_jobs := js\<rparr>"
    using store_parts_eq [OF d(2)] prepared_occurrences_eq [OF d(3)] release_job_eq [OF d(5)] by blast+
  note r = reference_intents_eq [OF d(4), THEN conjunct1]
  show ?thesis
    by (rule move_intents) (use d(1) e in \<open>auto simp: r move_refl intro!: list_all2_update intent_move_kept\<close>)
qed (simp add: move_same)

subsection \<open>Collection\<close>

text \<open>Intents keep their identity, and all but those in \<open>K\<close> stay referenced.\<close>

definition intent_kept :: "string set \<Rightarrow> intent_row \<Rightarrow> intent_row \<Rightarrow> bool" where
  "intent_kept K i j = (in_id j = in_id i \<and> in_tenant j = in_tenant i \<and> in_key j = in_key i \<and> (in_state i = ''referenced'' \<and> in_id i \<notin> K \<longrightarrow> in_state j = ''referenced''))"

lemma intent_kept_refl: "intent_kept K i i"
  by (simp add: intent_kept_def)

lemma intent_kept_trans: "intent_kept K i j \<Longrightarrow> intent_kept K j k \<Longrightarrow> intent_kept K i k"
  by (simp add: intent_kept_def)

lemma fold_intents:
  assumes "foldR f db xs = Inr db'" "\<And>db x db'. x \<in> set xs \<Longrightarrow> f db x = Inr db' \<Longrightarrow> \<exists>js. db' = db\<lparr>db_intents := js\<rparr> \<and> list_all2 (intent_kept K) (db_intents db) js"
  shows "\<exists>js. db' = db\<lparr>db_intents := js\<rparr> \<and> list_all2 (intent_kept K) (db_intents db) js"
  using assms
proof (induction xs arbitrary: db)
  case Nil
  then show ?case by (auto intro!: exI [of _ "db_intents db"] list.rel_refl intent_kept_refl)
next
  case (Cons x xs)
  obtain db1 where d: "f db x = Inr db1" "foldR f db1 xs = Inr db'" using Cons.prems(1) by (auto simp: bindR_eq_Inr)
  obtain rows where i: "db1 = db\<lparr>db_intents := rows\<rparr>" "list_all2 (intent_kept K) (db_intents db) rows" using Cons.prems(2) [OF _ d(1)] by auto
  obtain js where j: "db' = db1\<lparr>db_intents := js\<rparr>" "list_all2 (intent_kept K) (db_intents db1) js" using Cons.IH [OF d(2)] Cons.prems(2) by (meson list.set_intros(2))
  have "list_all2 (intent_kept K) (db_intents db) js" using list_all2_trans [OF intent_kept_trans i(2)] j(2) i(1) by simp
  then show ?case using i(1) j(1) by auto
qed

lemma intents_updated: "(\<And>i. P i \<Longrightarrow> intent_kept K i (f i)) \<Longrightarrow> \<exists>js. db\<lparr>db_intents := update_where P f (db_intents db)\<rparr> = db\<lparr>db_intents := js\<rparr> \<and> list_all2 (intent_kept K) (db_intents db) js"
  by (rule exI [of _ "update_where P f (db_intents db)"]) (simp add: list_all2_update intent_kept_refl)

lemma mark_deleting_kept: "mark_deleting now db k = Inr db' \<Longrightarrow> k \<in> K \<Longrightarrow> \<exists>js. db' = db\<lparr>db_intents := js\<rparr> \<and> list_all2 (intent_kept K) (db_intents db) js"
  by (auto simp: mark_deleting_def Let_def split: if_splits simp del: One_nat_def intro!: intents_updated) (auto simp: intent_kept_def)

lemma confirm_kept: "confirm_object now db g = Inr db' \<Longrightarrow> \<exists>js. db' = db\<lparr>db_intents := js\<rparr> \<and> list_all2 (intent_kept {}) (db_intents db) js"
  by (auto simp: confirm_object_def Let_def split: if_splits intro!: intents_updated) (auto simp: intent_kept_def)

lemma kept_move: "list_all2 (intent_kept {}) xs ys \<Longrightarrow> list_all2 (intent_move now db) xs ys"
  by (erule list_all2_mono) (simp add: intent_kept_def intent_move_def)

lemma move_claim_gc:
  assumes ok: "generations_ok db" and c: "claim_gc_objects tenant limit now db = Inr (gs, db')"
  shows "catalog_move now db db'"
proof (cases "db' = db")
  case False
  let ?chosen = "take (nat limit) (sortBy gc_less (filter (\<lambda>i. in_id i \<in> in_id ` set (gc_candidates tenant limit now db) \<and> gcEligible now db i) (db_intents db)))"
  define K where "K = set (map in_id ?chosen)"
  have f: "foldR (mark_deleting now) db (map in_id ?chosen) = Inr db'" using c False by (auto simp: claim_gc_objects_def Let_def bindR_eq_Inr split: if_splits)
  have "\<exists>js. db' = db\<lparr>db_intents := js\<rparr> \<and> list_all2 (intent_kept K) (db_intents db) js"
    by (rule fold_intents [OF f]) (rule mark_deleting_kept, assumption, simp add: K_def)
  then obtain js where j: "db' = db\<lparr>db_intents := js\<rparr>" "list_all2 (intent_kept K) (db_intents db) js" by blast
  have free: "\<not> list_ex (bundle_held now db) (intent_bundles db (in_id i))" if i: "i \<in> set (db_intents db)" "in_state i = ''referenced''" "in_id i \<in> K" for i
  proof -
    obtain x where x: "x \<in> set ?chosen" "in_id x = in_id i" using i(3) by (auto simp: K_def)
    have x': "x \<in> set (db_intents db)" "gcEligible now db x" using set_take_subset x(1) by fastforce+
    have "x = i" using ok x(2) x'(1) i(1) unfolding generations_ok_def by (metis distinct_map inj_onD)
    then show ?thesis using x'(2) i(2) by (auto simp: gcEligible_def bundle_held_def list_ex_iff)
  qed
  have "list_all2 (intent_move now db) (db_intents db) js" using j(2) free
    by (auto simp: list_all2_conv_all_nth intent_kept_def intent_move_def)
  then show ?thesis by (intro move_intents) (simp_all add: j(1) move_refl)
qed (simp add: move_same)

lemma move_claimGCObjects: "generations_ok db \<Longrightarrow> claimGCObjects limit now db = Inr (gs, db') \<Longrightarrow> catalog_move now db db'"
  by (simp add: claimGCObjects_def move_claim_gc)

lemma move_claimGCObjectsForTenant: "generations_ok db \<Longrightarrow> claimGCObjectsForTenant tenant limit now db = Inr (gs, db') \<Longrightarrow> catalog_move now db db'"
  by (auto simp: claimGCObjectsForTenant_def move_claim_gc split: if_splits)

lemma move_confirmGCObjects:
  assumes "confirmGCObjects uuid_ok gs now db = Inr db'"
  shows "catalog_move now db db'"
proof -
  have "foldR (confirm_object now) db gs = Inr db'" using assms by (simp add: confirmGCObjects_def split: if_splits)
  then have "\<exists>js. db' = db\<lparr>db_intents := js\<rparr> \<and> list_all2 (intent_kept {}) (db_intents db) js"
    by (rule fold_intents) (rule confirm_kept)
  then show ?thesis by (auto intro!: move_intents intro: kept_move simp: move_refl)
qed

lemma move_runRetentionCleanupTenant:
  assumes "runRetentionCleanupTenant tenant now db = Inr (r, db')"
  shows "catalog_move now db db'"
proof -
  note t = cleanup_tables [OF assms]
  have len: "length (db_intents db') = length (db_intents db)" using t(9) by (metis length_map)
  have "intent_move now db (db_intents db ! n) (db_intents db' ! n)" if n: "n < length (db_intents db)" for n
  proof -
    have "intent_core (db_intents db' ! n) = intent_core (db_intents db ! n)" using t(9) n len by (metis nth_map)
    then show ?thesis by (simp add: intent_core_def intent_move_def)
  qed
  then have "list_all2 (intent_move now db) (db_intents db) (db_intents db')" using len by (simp add: list_all2_conv_all_nth)
  then show ?thesis by (intro move_intents) (simp_all add: t(5-8) move_refl)
qed

subsection \<open>Snapshots and the retention floor\<close>

lemma move_advanceRetentionFloor: "advanceRetentionFloor now db = Inr (f, db') \<Longrightarrow> catalog_move now db db'"
  by (rule move_quiet) (auto simp: advanceRetentionFloor_def Let_def bindR_eq_Inr split: if_splits)

lemma move_createSnapshotOnce:
  assumes "createSnapshotOnce c now db = Inr (q, db')"
  shows "catalog_move now db db'"
proof -
  obtain a revisions lanes where d: "lockSnapshotLanes (cs_tenant c) db = Inr lanes" "\<not> list_ex (\<lambda>s. sn_id s = cs_id c) (db_snapshots db)"
    "db' = db\<lparr>db_snapshots := db_snapshots db @ [snapshot_row_of c a revisions lanes (qa_now a + SnapshotTTL) (qa_now a + SnapshotMaximumLifetime)]\<rparr>"
    using assms by (auto simp: createSnapshotOnce_def Let_def bindR_eq_Inr split: if_splits)
  have l: "\<exists>l \<in> set (db_lanes db). lane_key l = (cs_tenant c, sl_lane sl) \<and> sl_generation sl = la_generation l" if "sl \<in> set lanes" for sl
    using d(1) that by (fastforce simp: lockSnapshotLanes_def Let_def lane_key_def split: if_splits)
  have "new_snapshot db (snapshot_row_of c a revisions lanes (qa_now a + SnapshotTTL) (qa_now a + SnapshotMaximumLifetime))"
    using d(2) l by (auto simp: new_snapshot_def snapshot_row_of_def list_ex_iff)
  then show ?thesis
    by (intro move_snapshots [where ss = "db_snapshots db" and ns = "[snapshot_row_of c a revisions lanes (qa_now a + SnapshotTTL) (qa_now a + SnapshotMaximumLifetime)]"]) (simp_all add: d(3) move_refl)
qed

lemma snapshot_moveI: "snapshot_live now s \<or> st \<noteq> ''active'' \<Longrightarrow> snapshot_move now s (s\<lparr>sn_expires := e, sn_state := st\<rparr>)"
  unfolding snapshot_move_def by (rule exI [of _ e], rule exI [of _ st]) (auto simp: snapshot_live_def)

lemma move_renewSnapshotOnce:
  assumes ok: "generations_ok db" and r: "renewSnapshotOnce hash tenant i dataset now db = Inr (q, db')"
  shows "catalog_move now db db'"
proof -
  obtain a s e where d: "lockQueryAuthority hash tenant False now db = Inr a" "loadSnapshotForUpdate tenant i db = Inr s" "now < qs_expires s"
    "db' = db\<lparr>db_snapshots := update_where (\<lambda>x. sn_tenant x = tenant \<and> sn_id x = i \<and> sn_state x = ''active'') (\<lambda>x. x\<lparr>sn_expires := e\<rparr>) (db_snapshots db)\<rparr>"
    using r by (auto simp: renewSnapshotOnce_def lockQueryAuthority_def Let_def bindR_eq_Inr split: if_splits option.splits)
  obtain x where x: "x \<in> set (db_snapshots db)" "sn_id x = i" "sn_state x = ''active''" "sn_expires x = qs_expires s"
    using d(2) by (auto simp: loadSnapshotForUpdate_def snapshot_of_row_def Let_def split: option.splits if_splits dest!: find_SomeD)
  have live: "snapshot_live now y" if "y \<in> set (db_snapshots db)" "sn_id y = i" for y
  proof -
    have "y = x" using ok that x(1,2) unfolding generations_ok_def by (metis distinct_map inj_onD)
    then show ?thesis using x d(3) by (simp add: snapshot_live_def)
  qed
  have m: "snapshot_move now y (y\<lparr>sn_expires := e\<rparr>)" if "y \<in> set (db_snapshots db)" "sn_id y = i" for y
    using snapshot_moveI [where now = now and s = y and e = e and st = "sn_state y"] live [OF that] by simp
  show ?thesis
    by (rule move_snapshots [where ns = "[]"]) (use m in \<open>auto simp: d(4) move_refl intro!: list_all2_update\<close>)
qed

text \<open>The statement that releases snapshots, here and where sessions end and alerts are evaluated.\<close>

lemma move_released:
  assumes "db_bundles db' = db_bundles db" "db_files db' = db_files db" "db_lanes db' = db_lanes db" "db_intents db' = db_intents db"
    "db_snapshots db' = update_where P (\<lambda>s. s\<lparr>sn_state := ''released'', sn_expires := min (sn_expires s) now\<rparr>) (db_snapshots db)"
  shows "catalog_move now db db'"
proof -
  have m: "snapshot_move now s (s\<lparr>sn_state := ''released'', sn_expires := min (sn_expires s) now\<rparr>)" for s
    using snapshot_moveI [where now = now and s = s and e = "min (sn_expires s) now" and st = "''released''"] by (cases s) simp
  show ?thesis
    by (rule move_snapshots [where ns = "[]"]) (use m assms in \<open>auto simp: move_refl intro!: list_all2_update\<close>)
qed

lemma move_releaseSnapshot:
  assumes "releaseSnapshot uuid_ok hash tenant i now db = Inr db'"
  shows "catalog_move now db db'"
proof -
  obtain P where d: "db' = db\<lparr>db_snapshots := update_where P (\<lambda>s. s\<lparr>sn_state := ''released'', sn_expires := min (sn_expires s) now\<rparr>) (db_snapshots db)\<rparr>"
    using assms by (auto simp: releaseSnapshot_def Let_def bindR_eq_Inr split: if_splits)
  show ?thesis by (rule move_released [where P = P]) (simp_all add: d)
qed

lemma move_changeRetentionPolicy: "changeRetentionPolicy uuid_ok installation gen expected days now db = Inr (r, db') \<Longrightarrow> catalog_move now db db'"
  by (rule move_quiet) (auto simp: changeRetentionPolicy_def Let_def bindR_eq_Inr split: if_splits)

subsection \<open>Maintenance tasks\<close>

lemma move_reserved:
  assumes "db_bundles db' = update_where P (\<lambda>b. b\<lparr>bu_reserved := t\<rparr>) (db_bundles db)" "db_files db' = db_files db" "db_snapshots db' = db_snapshots db" "db_lanes db' = db_lanes db"
    "db_intents db' = db_intents db"
  shows "catalog_move now db db'"
proof -
  have b: "bundle_move db db' b (b\<lparr>bu_reserved := t\<rparr>)" for b
    unfolding bundle_move_def by (rule exI [of _ "bu_valid_to b"], rule exI [of _ "bu_retired b"], rule exI [of _ t]) simp
  have "list_all2 (bundle_move db db') (db_bundles db) (db_bundles db')" unfolding assms(1) by (rule list_all2_update) (simp_all add: b move_refl)
  then have "moves now db db' (db_bundles db') [] [] (db_intents db) [] (db_snapshots db) []" using assms(2-) by (simp add: moves_def move_refl)
  then show ?thesis unfolding catalog_move_def by blast
qed

lemma move_reserveCompaction: "reserveCompaction uuid_ok c now db = Inr (k, db') \<Longrightarrow> catalog_move now db db'"
  by (rule move_reserved [where P = "\<lambda>b. bu_id b \<in> set (sortBy byte_less (rv_bundles c)) \<and> free_bundle (rv_tenant c) (rv_lane c) b" and t = "Some (rv_task c)"])
    (auto simp: reserveCompaction_def Let_def bindR_eq_Inr split: if_splits)

lemma move_reserveRetention: "reserveRetention uuid_ok c now db = Inr (k, db') \<Longrightarrow> catalog_move now db db'"
  by (rule move_reserved [where P = "\<lambda>b. bu_id b = rr_bundle_id c \<and> free_bundle (rr_tenant_id c) (rr_lane_id c) b" and t = "Some (rr_task_id c)"])
    (auto simp: reserveRetention_def Let_def bindR_eq_Inr split: if_splits option.splits)

lemma claim_task_eq:
  assumes "claim_task kind uuid_ok installation owner lease now db = Inr (r, db')"
  shows "\<exists>ts. db' = db\<lparr>db_tasks := ts\<rparr>"
proof (cases "db' = db")
  case True
  then show ?thesis by (intro exI [of _ "db_tasks db"]) simp
qed (use assms in \<open>auto simp: claim_task_def Let_def bindR_eq_Inr split: if_splits option.splits\<close>)

lemma move_claim_task: "claim_task kind uuid_ok installation owner lease now db = Inr (r, db') \<Longrightarrow> catalog_move now db db'"
  by (drule claim_task_eq) (auto intro!: move_quiet)

lemma move_claimCompaction: "claimCompaction uuid_ok installation owner lease now db = Inr (r, db') \<Longrightarrow> catalog_move now db db'"
  by (auto simp: claimCompaction_def bindR_eq_Inr intro: move_claim_task)

lemma move_claimRetention: "claimRetention uuid_ok installation owner lease now db = Inr (r, db') \<Longrightarrow> catalog_move now db db'"
  by (auto simp: claimRetention_def bindR_eq_Inr split: option.splits intro: move_claim_task)

lemma move_heartbeatCompaction: "heartbeatCompaction uuid_ok a lease now db = Inr db' \<Longrightarrow> catalog_move now db db'"
  by (rule move_quiet) (auto simp: heartbeatCompaction_def Let_def split: if_splits)

lemma update_task_eq: "update_task a f db = Inr db' \<Longrightarrow> db' = db\<lparr>db_tasks := update_where (holds_task a) f (db_tasks db)\<rparr>"
  by (simp add: update_task_def split: if_splits)

lemma move_failCompaction:
  assumes "failCompaction uuid_ok a code retry now db = Inr db'"
  shows "catalog_move now db db'"
proof (cases retry)
  case True
  then show ?thesis using assms by (intro move_quiet) (auto simp: failCompaction_def bindR_eq_Inr split: if_splits dest!: update_task_eq)
next
  case False
  show ?thesis
    by (rule move_reserved [where P = "\<lambda>b. bu_reserved b = Some (ma_task a)" and t = None])
      (use assms False in \<open>auto simp: failCompaction_def bindR_eq_Inr split: if_splits dest!: update_task_eq\<close>)
qed

lemma move_reference_outputs:
  assumes "foldR (reference_output a now) db fs = Inr db1" "update_task a f db1 = Inr db'"
  shows "catalog_move now db db'"
proof -
  have "\<exists>js. db1 = db\<lparr>db_intents := js\<rparr> \<and> list_all2 (intent_kept {}) (db_intents db) js"
    by (rule fold_intents [OF assms(1)]) (auto simp: reference_output_def Let_def intent_kept_def split: if_splits intro!: intents_updated)
  then show ?thesis using update_task_eq [OF assms(2)] by (auto intro!: move_intents intro: kept_move simp: move_refl)
qed

lemma move_prepareCompaction: "prepareCompaction uuid_ok a b now db = Inr db' \<Longrightarrow> catalog_move now db db'"
  unfolding prepareCompaction_def Let_def by (auto simp: bindR_eq_Inr split: if_splits intro: move_reference_outputs simp del: foldR.simps)

lemma move_prepareRetention: "prepareRetention uuid_ok k b now db = Inr db' \<Longrightarrow> catalog_move now db db'"
  unfolding prepareRetention_def Let_def by (auto simp: bindR_eq_Inr split: if_splits intro: move_reference_outputs simp del: foldR.simps)

subsection \<open>Swaps\<close>

text \<open>What retiring the inputs does to a bundle.\<close>

definition retired_as :: "maintenance_authority \<Rightarrow> int \<Rightarrow> bundle_row \<Rightarrow> bundle_row \<Rightarrow> bool" where
  "retired_as a gen b c = (\<exists>v r s. c = b\<lparr>bu_valid_to := v, bu_retired := r, bu_reserved := s\<rparr> \<and>
    (v = bu_valid_to b \<or> bu_valid_to b = None \<and> bu_tenant b = ma_tenant a \<and> bu_lane b = ma_lane a \<and> v = Some gen))"

lemma retired_as_refl: "retired_as a gen b b"
  unfolding retired_as_def by (rule exI [of _ "bu_valid_to b"], rule exI [of _ "bu_retired b"], rule exI [of _ "bu_reserved b"]) simp

lemma retired_as_trans:
  assumes "retired_as a gen b c" "retired_as a gen c d"
  shows "retired_as a gen b d"
proof -
  obtain v r s where c: "c = b\<lparr>bu_valid_to := v, bu_retired := r, bu_reserved := s\<rparr>"
    "v = bu_valid_to b \<or> bu_valid_to b = None \<and> bu_tenant b = ma_tenant a \<and> bu_lane b = ma_lane a \<and> v = Some gen" using assms(1) by (auto simp: retired_as_def)
  obtain v' r' s' where d: "d = c\<lparr>bu_valid_to := v', bu_retired := r', bu_reserved := s'\<rparr>"
    "v' = bu_valid_to c \<or> bu_valid_to c = None \<and> bu_tenant c = ma_tenant a \<and> bu_lane c = ma_lane a \<and> v' = Some gen" using assms(2) by (auto simp: retired_as_def)
  show ?thesis unfolding retired_as_def by (rule exI [of _ v'], rule exI [of _ r'], rule exI [of _ s']) (use c d in auto)
qed

lemma retired_as_retires: "retires a w b \<Longrightarrow> retired_as a gen b (b\<lparr>bu_valid_to := Some gen, bu_retired := r, bu_reserved := s\<rparr>)"
  unfolding retired_as_def by (intro exI [of _ "Some gen"] exI [of _ r] exI [of _ s]) (simp add: retires_def)

lemma retire_inputs_eq:
  assumes "foldR (retire_input a gen now) db ws = Inr db'"
  shows "\<exists>bs. db' = db\<lparr>db_bundles := bs\<rparr> \<and> list_all2 (retired_as a gen) (db_bundles db) bs"
  using assms
proof (induction ws arbitrary: db)
  case Nil
  then show ?case by (auto intro!: exI [of _ "db_bundles db"] list.rel_refl retired_as_refl)
next
  case (Cons w ws)
  let ?bs = "update_where (retires a w) (\<lambda>b. b\<lparr>bu_valid_to := Some gen, bu_retired := Some now, bu_reserved := None\<rparr>) (db_bundles db)"
  have d: "foldR (retire_input a gen now) (db\<lparr>db_bundles := ?bs\<rparr>) ws = Inr db'" using Cons.prems
    by (cases "affected (retires a w) (db_bundles db) = 1") (simp_all add: retire_input_def [of a gen now db w])
  obtain cs where c: "db' = db\<lparr>db_bundles := cs\<rparr>" "list_all2 (retired_as a gen) ?bs cs" using Cons.IH [OF d] by auto
  have u: "list_all2 (retired_as a gen) (db_bundles db) ?bs" by (rule list_all2_update) (simp_all add: retired_as_retires retired_as_refl)
  have "list_all2 (retired_as a gen) (db_bundles db) cs" by (rule list_all2_trans [OF _ u c(2)]) (rule retired_as_trans)
  then show ?case using c(1) by blast
qed

text \<open>An output file belongs to an object that is referenced.\<close>

lemma insert_output_file_eq:
  assumes "insert_output_file a b db f = Inr db'"
  shows "db' = db\<lparr>db_files := db_files db @ [compacted_file a b f]\<rparr>" "\<exists>i \<in> set (db_intents db). stored_object (compacted_file a b f) i"
proof -
  obtain i where i: "find (\<lambda>i. in_tenant i = ma_tenant a \<and> in_id i = fm_intent f) (db_intents db) = Some i" "in_state i = ''referenced''" "insert_file db (compacted_file a b f) = Inr db'"
    using assms by (auto simp: insert_output_file_def split: option.splits if_splits)
  show "db' = db\<lparr>db_files := db_files db @ [compacted_file a b f]\<rparr>" using i(3) by (simp add: insert_file_def split: if_splits)
  show "\<exists>i \<in> set (db_intents db). stored_object (compacted_file a b f) i" using find_SomeD [OF i(1)] i(2) by (auto simp: stored_object_def compacted_file_def)
qed

lemma insertCompactionBundle_eq:
  assumes "insertCompactionBundle a p b gen db = Inr db'"
  shows "\<exists>fs. db' = db\<lparr>db_bundles := db_bundles db @ [compacted_row a p gen b], db_files := db_files db @ fs\<rparr> \<and> bm_bundle b \<notin> bu_id ` set (db_bundles db) \<and>
    (\<forall>f \<in> set fs. fi_bundle f = bm_bundle b \<and> (\<exists>i \<in> set (db_intents db). stored_object f i))"
proof -
  let ?row = "compacted_row a p gen b"
  obtain db1 where d: "insert_output_file a b (db\<lparr>db_bundles := db_bundles db @ [?row]\<rparr>) (bm_analytics b) = Inr db1" "insert_output_file a b db1 (bm_payload b) = Inr db'"
    using assms by (auto simp: insertCompactionBundle_def Let_def bindR_eq_Inr split: if_splits)
  have n: "bm_bundle b \<notin> bu_id ` set (db_bundles db)" using assms by (auto simp: insertCompactionBundle_def Let_def list_ex_iff compacted_row_def split: if_splits)
  note e = insert_output_file_eq [OF d(1)] insert_output_file_eq [OF d(2)]
  show ?thesis using n e by (intro exI [of _ "[compacted_file a b (bm_analytics b), compacted_file a b (bm_payload b)]"]) (auto simp: compacted_file_def)
qed

lemma referenced_ids:
  assumes "generations_ok db" "\<exists>i \<in> set (db_intents db). stored_object f i" "j \<in> set (db_intents db)" "in_id j = fi_intent f"
  shows "in_state j = ''referenced''"
proof -
  obtain i where i: "i \<in> set (db_intents db)" "in_id i = fi_intent f" "in_state i = ''referenced''" using assms(2) by (auto simp: stored_object_def)
  have "j = i" using assms(1,3,4) i(1,2) unfolding generations_ok_def by (metis distinct_map inj_onD)
  then show ?thesis using i(3) by simp
qed

lemma retired_move:
  assumes r: "retired_as a (la_generation l + 1) b c" and l: "l \<in> set (db_lanes db)" "lane_key l = (ma_tenant a, ma_lane a)"
    and up: "\<And>m. m \<in> set (db_lanes db') \<Longrightarrow> lane_key m = (ma_tenant a, ma_lane a) \<Longrightarrow> la_generation l + 1 \<le> la_generation m"
  shows "bundle_move db db' b c"
proof -
  obtain v q s where c: "c = b\<lparr>bu_valid_to := v, bu_retired := q, bu_reserved := s\<rparr>"
    "v = bu_valid_to b \<or> bu_valid_to b = None \<and> bu_tenant b = ma_tenant a \<and> bu_lane b = ma_lane a \<and> v = Some (la_generation l + 1)" using r by (auto simp: retired_as_def)
  show ?thesis unfolding bundle_move_def by (rule exI [of _ v], rule exI [of _ q], rule exI [of _ s]) (use c l up in auto)
qed

lemma replace_inputs_eq:
  assumes "replace_inputs a old p ws output_bundle now db = Inr (res, db')"
  obtains bs db2 where "list_all2 (retired_as a (old + 1)) (db_bundles db) bs"
    "(case output_bundle of None \<Rightarrow> Inr (db\<lparr>db_bundles := bs\<rparr>) | Some b \<Rightarrow> insertCompactionBundle a p b (old + 1) (db\<lparr>db_bundles := bs\<rparr>)) = Inr db2"
    "db_bundles db' = db_bundles db2" "db_files db' = db_files db2" "db_intents db' = db_intents db2" "db_snapshots db' = db_snapshots db2"
    "db_lanes db' = update_where (\<lambda>l. la_tenant l = ma_tenant a \<and> la_id l = ma_lane a \<and> la_generation l = old) (\<lambda>l. l\<lparr>la_generation := old + 1\<rparr>) (db_lanes db2)"
proof -
  obtain db1 db2 db3 where d: "foldR (retire_input a (old + 1) now) db ws = Inr db1"
    "(case output_bundle of None \<Rightarrow> Inr db1 | Some b \<Rightarrow> insertCompactionBundle a p b (old + 1) db1) = Inr db2" "bump_lane a old (old + 1) db2 = Inr db3"
    "update_task a (\<lambda>t. t\<lparr>ta_state := ''completed'', ta_owner := None, ta_lease := None, ta_updated := now\<rparr>) db3 = Inr db'"
    using assms by (auto simp: replace_inputs_def Let_def bindR_eq_Inr split: if_splits)
  obtain bs where bs: "db1 = db\<lparr>db_bundles := bs\<rparr>" "list_all2 (retired_as a (old + 1)) (db_bundles db) bs" using retire_inputs_eq [OF d(1)] by blast
  have db3: "db3 = db2\<lparr>db_lanes := update_where (\<lambda>l. la_tenant l = ma_tenant a \<and> la_id l = ma_lane a \<and> la_generation l = old) (\<lambda>l. l\<lparr>la_generation := old + 1\<rparr>) (db_lanes db2)\<rparr>"
    using d(3) by (simp add: bump_lane_def Let_def split: if_splits)
  show thesis by (rule that [OF bs(2) d(2) [unfolded bs(1)]]) (simp_all add: update_task_eq [OF d(4)] db3)
qed

lemma move_replace_inputs:
  assumes ok: "generations_ok db" and l: "find (\<lambda>l. la_tenant l = ma_tenant a \<and> la_id l = ma_lane a) (db_lanes db) = Some l"
    and r: "replace_inputs a (la_generation l) p ws output_bundle now db = Inr (res, db')"
  shows "catalog_move now db db'"
  using r
proof (rule replace_inputs_eq)
  fix bs db2
  assume retired: "list_all2 (retired_as a (la_generation l + 1)) (db_bundles db) bs"
    and out: "(case output_bundle of None \<Rightarrow> Inr (db\<lparr>db_bundles := bs\<rparr>) | Some b \<Rightarrow> insertCompactionBundle a p b (la_generation l + 1) (db\<lparr>db_bundles := bs\<rparr>)) = Inr db2"
    and same: "db_bundles db' = db_bundles db2" "db_files db' = db_files db2" "db_intents db' = db_intents db2" "db_snapshots db' = db_snapshots db2"
    and lanes: "db_lanes db' = update_where (\<lambda>x. la_tenant x = ma_tenant a \<and> la_id x = ma_lane a \<and> la_generation x = la_generation l) (\<lambda>x. x\<lparr>la_generation := la_generation l + 1\<rparr>) (db_lanes db2)"
  have ids: "map bu_id bs = map bu_id (db_bundles db)" by (rule list_all2_map_eq [OF retired]) (auto simp: retired_as_def)
  obtain nb nf where n: "db_bundles db2 = bs @ nb" "db_files db2 = db_files db @ nf" "db_intents db2 = db_intents db" "db_snapshots db2 = db_snapshots db" "db_lanes db2 = db_lanes db"
    "\<And>b. b \<in> set nb \<Longrightarrow> bu_valid_to b = None \<and> bu_id b \<notin> set (map bu_id bs) \<and> bu_tenant b = ma_tenant a \<and> bu_lane b = ma_lane a \<and> bu_generation b = la_generation l + 1"
    "\<And>f. f \<in> set nf \<Longrightarrow> (\<exists>b \<in> set nb. fi_bundle f = bu_id b) \<and> (\<exists>i \<in> set (db_intents db). stored_object f i)"
  proof (cases output_bundle)
    case None
    then show thesis using that [of "[]" "[]"] out by auto
  next
    case (Some b)
    then obtain fs where "db2 = db\<lparr>db_bundles := bs @ [compacted_row a p (la_generation l + 1) b], db_files := db_files db @ fs\<rparr>" "bm_bundle b \<notin> bu_id ` set bs"
      "\<forall>f \<in> set fs. fi_bundle f = bm_bundle b \<and> (\<exists>i \<in> set (db_intents db). stored_object f i)"
      using insertCompactionBundle_eq [of a p b "la_generation l + 1" "db\<lparr>db_bundles := bs\<rparr>" db2] out by auto
    then show thesis using that [of "[compacted_row a p (la_generation l + 1) b]" fs] by (simp add: compacted_row_def)
  qed
  have key: "l \<in> set (db_lanes db)" "lane_key l = (ma_tenant a, ma_lane a)" using find_SomeD [OF l] by (simp_all add: lane_key_def)
  have one: "m = l" if "m \<in> set (db_lanes db)" "lane_key m = (ma_tenant a, ma_lane a)" for m
    using ok that key unfolding generations_ok_def by (metis distinct_map inj_onD)
  have step: "list_all2 (\<lambda>x m. lane_key m = lane_key x \<and> la_generation x \<le> la_generation m \<and>
      (lane_key x = (ma_tenant a, ma_lane a) \<and> la_generation x = la_generation l \<longrightarrow> la_generation m = la_generation l + 1)) (db_lanes db) (db_lanes db')"
    unfolding lanes n(5) update_where_def list.rel_map by (rule list.rel_refl) (simp add: lane_key_def)
  have up: "la_generation l + 1 \<le> la_generation m" if m: "m \<in> set (db_lanes db')" "lane_key m = (ma_tenant a, ma_lane a)" for m
  proof -
    obtain x where x: "x \<in> set (db_lanes db)" "lane_key m = lane_key x"
      "lane_key x = (ma_tenant a, ma_lane a) \<and> la_generation x = la_generation l \<longrightarrow> la_generation m = la_generation l + 1" using list_all2_memE [OF step m(1)] by metis
    then show ?thesis using one [of x] m(2) by simp
  qed
  have old: "list_all2 (bundle_move db db') (db_bundles db) bs" by (rule list_all2_mono [OF retired]) (rule retired_move [OF _ key up])
  have "new_bundle db b" if "b \<in> set nb" for b unfolding new_bundle_def
    by (intro conjI bexI [of _ l]) (use n(6) [OF that, unfolded ids] key in simp_all)
  then have new: "list_all (new_bundle db) nb" by (simp add: list_all_iff)
  have refs: "(\<exists>b \<in> set nb. fi_bundle f = bu_id b) \<and> (\<exists>i \<in> set (db_intents db). stored_object f i) \<and> (\<forall>i \<in> set (db_intents db'). in_id i = fi_intent f \<longrightarrow> in_state i = ''referenced'')" if "f \<in> set nf" for f
    using n(7) [OF that] referenced_ids [OF ok, of f] unfolding same(3) n(3) by blast
  have "list_all2 lane_move (db_lanes db) (db_lanes db')" using step by (rule list_all2_mono) (simp add: lane_move_def)
  then have "moves now db db' bs nb nf (db_intents db) [] (db_snapshots db) []" using old new refs by (simp add: moves_def same n(1-4) move_refl)
  then show ?thesis unfolding catalog_move_def by blast
qed

lemma move_swapCompaction:
  assumes "generations_ok db" "swapCompaction uuid_ok a now db = Inr (res, db')"
  shows "catalog_move now db db'"
proof (cases "db' = db")
  case False
  then obtain l p ws ob where "find (\<lambda>l. la_tenant l = ma_tenant a \<and> la_id l = ma_lane a) (db_lanes db) = Some l" "replace_inputs a (la_generation l) p ws ob now db = Inr (res, db')"
    using assms(2) by (auto simp: swapCompaction_def swap_output_def bindR_eq_Inr split: if_splits option.splits)
  then show ?thesis by (rule move_replace_inputs [OF assms(1)])
qed (simp add: move_same)

lemma move_swapRetention:
  assumes "generations_ok db" "swapRetention uuid_ok k now db = Inr (res, db')"
  shows "catalog_move now db db'"
proof (cases "db' = db")
  case False
  let ?a = "kt_authority (rk_task k)"
  obtain l p ws ob where "find (\<lambda>l. la_tenant l = ma_tenant ?a \<and> la_id l = ma_lane ?a) (db_lanes db) = Some l" "replace_inputs ?a (la_generation l) p ws ob now db = Inr (res, db')"
    using assms(2) False by (auto simp: swapRetention_def Let_def bindR_eq_Inr split: if_splits option.splits)
  then show ?thesis by (rule move_replace_inputs [OF assms(1)])
qed (simp add: move_same)

subsection \<open>Publication\<close>

lemma insert_files_bundles: "foldR insert_file db fs = Inr db' \<Longrightarrow> db_bundles db' = db_bundles db"
  by (induction fs arbitrary: db) (auto simp: insert_file_def bindR_eq_Inr split: if_splits)

lemma insert_bundles_fresh:
  assumes "foldR (insert_bundle c r gen) db bs = Inr db'" "b \<in> set bs"
  shows "bm_bundle b \<notin> bu_id ` set (db_bundles db)"
  using assms
proof (induction bs arbitrary: db)
  case (Cons x xs)
  obtain db1 where d: "insert_bundle c r gen db x = Inr db1" "foldR (insert_bundle c r gen) db1 xs = Inr db'" using Cons.prems(1) by (auto simp: bindR_eq_Inr)
  have x: "bm_bundle x \<notin> bu_id ` set (db_bundles db)" using d(1) by (auto simp: insert_bundle_def Let_def list_ex_iff bundle_row_of_def split: if_splits)
  have "db_bundles db1 = db_bundles db @ [bundle_row_of c r gen x]"
    using d(1) by (auto simp: insert_bundle_def Let_def bindR_eq_Inr split: if_splits dest!: insert_files_bundles)
  then show ?case using Cons.IH [OF d(2)] Cons.prems(2) x by auto
qed simp

lemma published_objects:
  assumes "inspectDurableParts c r db = Inr (intents, t)" "lockPublishIntents c intents db = Inr ()" "b \<in> set (stored_bundles (pc_output c) r (db_parts db))" "f \<in> set (bundle_files c b)"
  shows "\<exists>i \<in> set (db_intents db). stored_object f i"
proof -
  note ins = inspected [OF assms(1)]
  obtain x where x: "f = file_row_of c b x" "x = bm_analytics b \<or> x = bm_payload b" using assms(4) by (auto simp: bundle_files_def)
  have "validatePreparedBundle (pc_seq c) b = Inr ()" using ins assms(3) by (simp add: list_all_iff)
  then have m: "(fm_intent x, \<lparr>pi_role = fm_role x, pi_file = x\<rparr>) \<in> set intents"
    using x assms(3) ins by (auto simp: validatePreparedBundle_def check_def bundle_intents_def split: if_splits)
  obtain i where "i \<in> set (db_intents db)" "in_id i = fm_intent x" "in_tenant i = pc_tenant c" "intent_matches c \<lparr>pi_role = fm_role x, pi_file = x\<rparr> i"
    using lock_intents_all [OF assms(2) m] ins by blast
  then show ?thesis unfolding x(1) by (intro bexI [of _ i]) (simp_all add: stored_object_def file_row_of_def intent_matches_def Let_def)
qed

lemma move_publish:
  assumes ok: "generations_ok db" and p: "publish c now db = Inr (res, db')"
  shows "catalog_move now db db'"
proof (cases "px_already res")
  case True
  then have "db' = db" using p by (elim publish_cases) simp_all
  then show ?thesis by (simp add: move_same)
next
  case False
  obtain l r intents where t: "find (\<lambda>l. la_tenant l = pc_tenant c \<and> la_id l = pc_lane c) (db_lanes db) = Some l"
    "inspectDurableParts c r db = Inr (intents, oh_bundles (rt_header r), oh_records (rt_header r), oh_errors (rt_header r))" "lockPublishIntents c intents db = Inr ()"
    "db_lanes db' = update_where (\<lambda>x. la_tenant x = pc_tenant c \<and> la_id x = pc_lane c \<and> la_published x = la_published l \<and> la_generation x = la_generation l)
       (\<lambda>x. x\<lparr>la_published := pc_seq c, la_generation := la_generation l + 1\<rparr>) (db_lanes db)"
    "db_bundles db' = db_bundles db @ map (bundle_row_of c r (la_generation l + 1)) (stored_bundles (pc_output c) r (db_parts db))"
    "db_files db' = db_files db @ concat (map (bundle_files c) (stored_bundles (pc_output c) r (db_parts db)))"
    "db_intents db' = db_intents db" "db_snapshots db' = db_snapshots db" "lockPreparedOutput c db = Inr r"
    by (rule publish_tables [OF p False]) (rule that)
  let ?bs = "stored_bundles (pc_output c) r (db_parts db)"
  have fresh: "bm_bundle b \<notin> bu_id ` set (db_bundles db)" if "b \<in> set ?bs" for b
  proof -
    obtain l' where "publish_output c l' now db = Inr (res, db')" using p False by (elim publish_cases) simp_all
    then obtain r' db1 where d: "lockPreparedOutput c db = Inr r'" "insertPublishedCatalog c r' (la_generation l' + 1) db = Inr db1" by (rule publish_output_cases)
    have "r' = r" using d(1) t(9) by simp
    then show ?thesis using insert_bundles_fresh [OF walk_stored [OF d(2) [unfolded insertPublishedCatalog_def]]] that by simp
  qed
  have key: "l \<in> set (db_lanes db)" "lane_key l = (pc_tenant c, pc_lane c)" using find_SomeD [OF t(1)] by (simp_all add: lane_key_def)
  have new: "list_all (new_bundle db) (map (bundle_row_of c r (la_generation l + 1)) ?bs)"
    using fresh key by (auto simp: list_all_iff new_bundle_def bundle_row_of_def)
  have refs: "(\<exists>b \<in> set (map (bundle_row_of c r (la_generation l + 1)) ?bs). fi_bundle f = bu_id b) \<and> (\<exists>i \<in> set (db_intents db). stored_object f i) \<and>
      (\<forall>i \<in> set (db_intents db'). in_id i = fi_intent f \<longrightarrow> in_state i = ''referenced'')" if f: "f \<in> set (concat (map (bundle_files c) ?bs))" for f
  proof -
    obtain b where b: "b \<in> set ?bs" "f \<in> set (bundle_files c b)" using f by auto
    have "fi_bundle f = bu_id (bundle_row_of c r (la_generation l + 1) b)" using b(2) by (auto simp: bundle_files_def file_row_of_def bundle_row_of_def)
    then show ?thesis using published_objects [OF t(2,3) b] referenced_ids [OF ok, of f] b(1) by (auto simp: t(7))
  qed
  have "list_all2 lane_move (db_lanes db) (db_lanes db')" unfolding t(4) by (rule list_all2_update) (simp_all add: lane_move_def lane_key_def)
  then have "moves now db db' (db_bundles db) (map (bundle_row_of c r (la_generation l + 1)) ?bs) (concat (map (bundle_files c) ?bs)) (db_intents db) [] (db_snapshots db) []"
    using new refs by (simp add: moves_def t(5-8) move_refl del: set_concat)
  then show ?thesis unfolding catalog_move_def by blast
qed

section \<open>The runs\<close>

text \<open>
  A state is the time of the last transaction and the database after it. Each rule is one transaction,
  met by the database at some later time; \<open>release_where\<close> is the
  statement with which sessions, rules and evaluations release snapshots, and the last rule stands for the transactions of the parts that do
  not write the catalog, the objects, the lanes or the snapshots.
\<close>

inductive catalog_step :: "(string \<Rightarrow> bool) \<Rightarrow> int \<times> control_db \<Rightarrow> int \<times> control_db \<Rightarrow> bool" for uuid_ok where
  register_journal: "t \<le> now \<Longrightarrow> registerJournalIntent r now db = Inr db' \<Longrightarrow> catalog_step uuid_ok (t, db) (now, db')"
| mark_journal: "t \<le> now \<Longrightarrow> markJournalIntentUploaded installation gen tenant a now db = Inr db' \<Longrightarrow> catalog_step uuid_ok (t, db) (now, db')"
| accept: "t \<le> now \<Longrightarrow> validateVerifiedBatch b = Inr u \<Longrightarrow> accept_transaction b now before db = Inr (results, db') \<Longrightarrow> catalog_step uuid_ok (t, db) (now, db')"
| claim_conversion: "t \<le> now \<Longrightarrow> claimConversionJob installation gen owner lease after locked now db = Inr (job, db') \<Longrightarrow> catalog_step uuid_ok (t, db) (now, db')"
| heartbeat_conversion: "t \<le> now \<Longrightarrow> heartbeatConversionJob ja lease now db = Inr (e, db') \<Longrightarrow> catalog_step uuid_ok (t, db) (now, db')"
| register_output: "t \<le> now \<Longrightarrow> registerOutputIntent ro now db = Inr db' \<Longrightarrow> catalog_step uuid_ok (t, db) (now, db')"
| mark_output: "t \<le> now \<Longrightarrow> markOutputIntentUploaded ja tenant a now db = Inr db' \<Longrightarrow> catalog_step uuid_ok (t, db) (now, db')"
| prepare_output: "t \<le> now \<Longrightarrow> prepare pq fs files now db = Inr db' \<Longrightarrow> catalog_step uuid_ok (t, db) (now, db')"
| claim_publication: "t \<le> now \<Longrightarrow> claimPublicationJob installation gen tenant lane owner lease now db = Inr (pub, db') \<Longrightarrow> catalog_step uuid_ok (t, db) (now, db')"
| publish_output: "t \<le> now \<Longrightarrow> publish pc now db = Inr (px, db') \<Longrightarrow> catalog_step uuid_ok (t, db) (now, db')"
| create_snapshot: "t \<le> now \<Longrightarrow> createSnapshotOnce cs now db = Inr (q, db') \<Longrightarrow> catalog_step uuid_ok (t, db) (now, db')"
| renew_snapshot: "t \<le> now \<Longrightarrow> renewSnapshotOnce hash tenant i dataset now db = Inr (q, db') \<Longrightarrow> catalog_step uuid_ok (t, db) (now, db')"
| release_snapshot: "t \<le> now \<Longrightarrow> releaseSnapshot uuid_ok hash tenant i now db = Inr db' \<Longrightarrow> catalog_step uuid_ok (t, db) (now, db')"
| advance_floor: "t \<le> now \<Longrightarrow> advanceRetentionFloor now db = Inr (f, db') \<Longrightarrow> catalog_step uuid_ok (t, db) (now, db')"
| change_retention: "t \<le> now \<Longrightarrow> changeRetentionPolicy uuid_ok installation gen expected days now db = Inr (rp, db') \<Longrightarrow> catalog_step uuid_ok (t, db) (now, db')"
| reserve_compaction: "t \<le> now \<Longrightarrow> reserveCompaction uuid_ok rc now db = Inr (k, db') \<Longrightarrow> catalog_step uuid_ok (t, db) (now, db')"
| claim_compaction: "t \<le> now \<Longrightarrow> claimCompaction uuid_ok installation owner lease now db = Inr (ck, db') \<Longrightarrow> catalog_step uuid_ok (t, db) (now, db')"
| heartbeat_compaction: "t \<le> now \<Longrightarrow> heartbeatCompaction uuid_ok ma lease now db = Inr db' \<Longrightarrow> catalog_step uuid_ok (t, db) (now, db')"
| fail_compaction: "t \<le> now \<Longrightarrow> failCompaction uuid_ok ma err retry now db = Inr db' \<Longrightarrow> catalog_step uuid_ok (t, db) (now, db')"
| register_maintenance: "t \<le> now \<Longrightarrow> registerMaintenanceIntent uuid_ok mr now db = Inr db' \<Longrightarrow> catalog_step uuid_ok (t, db) (now, db')"
| mark_maintenance: "t \<le> now \<Longrightarrow> markMaintenanceIntentUploaded uuid_ok ma a now db = Inr db' \<Longrightarrow> catalog_step uuid_ok (t, db) (now, db')"
| prepare_compaction: "t \<le> now \<Longrightarrow> prepareCompaction uuid_ok ma bm now db = Inr db' \<Longrightarrow> catalog_step uuid_ok (t, db) (now, db')"
| swap_compaction: "t \<le> now \<Longrightarrow> swapCompaction uuid_ok ma now db = Inr (sw, db') \<Longrightarrow> catalog_step uuid_ok (t, db) (now, db')"
| reserve_retention: "t \<le> now \<Longrightarrow> reserveRetention uuid_ok rt now db = Inr (rk, db') \<Longrightarrow> catalog_step uuid_ok (t, db) (now, db')"
| claim_retention: "t \<le> now \<Longrightarrow> claimRetention uuid_ok installation owner lease now db = Inr (cr, db') \<Longrightarrow> catalog_step uuid_ok (t, db) (now, db')"
| prepare_retention: "t \<le> now \<Longrightarrow> prepareRetention uuid_ok rk bm now db = Inr db' \<Longrightarrow> catalog_step uuid_ok (t, db) (now, db')"
| swap_retention: "t \<le> now \<Longrightarrow> swapRetention uuid_ok rk now db = Inr (sw, db') \<Longrightarrow> catalog_step uuid_ok (t, db) (now, db')"
| claim_objects: "t \<le> now \<Longrightarrow> claimGCObjects limit now db = Inr (gs, db') \<Longrightarrow> catalog_step uuid_ok (t, db) (now, db')"
| claim_tenant_objects: "t \<le> now \<Longrightarrow> claimGCObjectsForTenant tenant limit now db = Inr (gs, db') \<Longrightarrow> catalog_step uuid_ok (t, db) (now, db')"
| confirm_objects: "t \<le> now \<Longrightarrow> confirmGCObjects uuid_ok gs now db = Inr db' \<Longrightarrow> catalog_step uuid_ok (t, db) (now, db')"
| clean_up: "t \<le> now \<Longrightarrow> runRetentionCleanupTenant tenant now db = Inr (again, db') \<Longrightarrow> catalog_step uuid_ok (t, db) (now, db')"
| release_where: "t \<le> now \<Longrightarrow> db_bundles db' = db_bundles db \<Longrightarrow> db_files db' = db_files db \<Longrightarrow> db_lanes db' = db_lanes db \<Longrightarrow> db_intents db' = db_intents db \<Longrightarrow>
    db_snapshots db' = update_where P (\<lambda>s. s\<lparr>sn_state := ''released'', sn_expires := min (sn_expires s) now\<rparr>) (db_snapshots db) \<Longrightarrow> catalog_step uuid_ok (t, db) (now, db')"
| elsewhere: "t \<le> now \<Longrightarrow> db_bundles db' = db_bundles db \<Longrightarrow> db_files db' = db_files db \<Longrightarrow> db_snapshots db' = db_snapshots db \<Longrightarrow> db_lanes db' = db_lanes db \<Longrightarrow>
    db_intents db' = db_intents db \<Longrightarrow> catalog_step uuid_ok (t, db) (now, db')"

lemmas always_moves = move_registerJournalIntent move_markJournalIntentUploaded move_accept move_claimConversionJob move_heartbeatConversionJob move_registerOutputIntent
  move_markOutputIntentUploaded move_prepare move_claimPublicationJob move_createSnapshotOnce move_releaseSnapshot move_advanceRetentionFloor move_changeRetentionPolicy
  move_reserveCompaction move_claimCompaction move_heartbeatCompaction move_failCompaction move_registerMaintenanceIntent move_markMaintenanceIntentUploaded move_prepareCompaction
  move_reserveRetention move_claimRetention move_prepareRetention move_confirmGCObjects move_runRetentionCleanupTenant move_released move_quiet

lemmas invariant_moves = move_publish move_renewSnapshotOnce move_swapCompaction move_swapRetention move_claimGCObjects move_claimGCObjectsForTenant

lemma step_moves: "catalog_step uuid_ok s s' \<Longrightarrow> generations_ok (snd s) \<Longrightarrow> fst s \<le> fst s' \<and> catalog_move (fst s') (snd s) (snd s')"
  by (induction rule: catalog_step.induct) (simp_all add: always_moves invariant_moves)

interpretation catalog_machine: state_machine "\<lambda>s. catalog_inv (fst s) (snd s)" "catalog_step uuid_ok" "\<lambda>s. catalog_inv (fst s) (snd s)" for uuid_ok
proof unfold_locales
  fix s s'
  assume a: "catalog_step uuid_ok s s'" "catalog_inv (fst s) (snd s)"
  have "generations_ok (snd s)" using a(2) by (simp add: catalog_inv_def)
  then show "catalog_inv (fst s') (snd s')" using step_moves [OF a(1)] catalog_inv_move a(2) by blast
qed

end
