(* ===== verification/CatalogFacts.thy ===== *)
theory CatalogFacts
  imports CatalogRun
begin

section \<open>What snapshots and the collector guarantee\<close>

text \<open>
  The properties of the runs of \<^const>\<open>catalog_step\<close>, with a concrete run for their witnesses, and of the
  swap of a compaction.
\<close>

subsection \<open>Over a run\<close>

definition is_snapshot :: "int \<Rightarrow> string \<Rightarrow> snapshot_row \<Rightarrow> bool" where
  "is_snapshot tenant i s = (sn_tenant s = tenant \<and> sn_id s = i)"

text \<open>A snapshot that is live after a transaction was live before it, with the same retention floor.\<close>

lemma snapshot_before:
  assumes mv: "catalog_move now db db'" and s: "s \<in> set (db_snapshots db)"
  obtains u where "u \<in> set (db_snapshots db')" "snapshot_move now s u"
proof -
  obtain bs nb nf js nj ss ns where m: "moves now db db' bs nb nf js nj ss ns" using mv by (auto simp: catalog_move_def)
  show thesis using that list_all2_memD [OF movesD(12) [OF m] s] by (auto simp: movesD(11) [OF m])
qed

lemma run_pages:
  assumes run: "(catalog_step uuid_ok)\<^sup>*\<^sup>* st (now', db')" and inv: "catalog_inv (fst st) (snd st)" and there: "\<exists>s \<in> set (db_snapshots (snd st)). is_snapshot (kc_tenant c) (kc_snapshot c) s"
    and live: "\<And>u. u \<in> set (db_snapshots db') \<Longrightarrow> is_snapshot (kc_tenant c) (kc_snapshot c) u \<Longrightarrow> snapshot_live now' u \<and> sn_floor u = r"
  shows "page_rows c r db' = page_rows c r (snd st) \<and> (\<forall>s \<in> set (db_snapshots (snd st)). is_snapshot (kc_tenant c) (kc_snapshot c) s \<longrightarrow> snapshot_live (fst st) s \<and> sn_floor s = r)"
  using run inv there
proof (induction rule: converse_rtranclp_induct)
  case base
  then show ?case using live by auto
next
  case (step st mid)
  have ok: "generations_ok (snd st)" using step.prems(1) by (simp add: catalog_inv_def)
  have m: "fst st \<le> fst mid" "catalog_move (fst mid) (snd st) (snd mid)" using step_moves [OF step.hyps(1) ok] by simp_all
  have inv': "catalog_inv (fst mid) (snd st)" using step.prems(1) objects_mono [OF m(1)] by (auto simp: catalog_inv_def)
  obtain s where s: "s \<in> set (db_snapshots (snd st))" "is_snapshot (kc_tenant c) (kc_snapshot c) s" using step.prems(2) by blast
  obtain u where u: "u \<in> set (db_snapshots (snd mid))" "snapshot_move (fst mid) s u" by (rule snapshot_before [OF m(2) s(1)])
  have "is_snapshot (kc_tenant c) (kc_snapshot c) u" using s(2) snapshot_moveD [OF u(2)] by (simp add: is_snapshot_def)
  then have later: "page_rows c r db' = page_rows c r (snd mid)" "\<And>x. x \<in> set (db_snapshots (snd mid)) \<Longrightarrow> is_snapshot (kc_tenant c) (kc_snapshot c) x \<Longrightarrow> snapshot_live (fst mid) x \<and> sn_floor x = r"
    using step.IH [OF catalog_machine.step_inv [OF step.hyps(1) step.prems(1)]] u(1) by blast+
  have before: "snapshot_live (fst st) x \<and> sn_floor x = r" if x: "x \<in> set (db_snapshots (snd st))" "is_snapshot (kc_tenant c) (kc_snapshot c) x" for x
  proof -
    obtain y where y: "y \<in> set (db_snapshots (snd mid))" "snapshot_move (fst mid) x y" by (rule snapshot_before [OF m(2) x(1)])
    have "is_snapshot (kc_tenant c) (kc_snapshot c) y" using x(2) snapshot_moveD [OF y(2)] by (simp add: is_snapshot_def)
    then have "snapshot_live (fst mid) y" "sn_floor y = r" using later(2) [OF y(1)] by simp_all
    then show ?thesis using snapshot_moveD [OF y(2)] live_mono [OF m(1)] by simp
  qed
  have "page_rows c r (snd mid) = page_rows c r (snd st)"
    by (rule page_rows_move [OF inv' m(2)]) (use s later(2) in \<open>auto simp: is_snapshot_def\<close>)
  then show ?case using later(1) before by simp
qed

lemma catalogPageOnceD:
  assumes ok: "generations_ok db" and p: "catalogPageOnce uuid_ok c now db = Inr p"
  obtains x where "x \<in> set (db_snapshots db)" "is_snapshot (kc_tenant c) (kc_snapshot c) x" "snapshot_live now x" "catalogPageRows uuid_ok c (sn_floor x) db = Inr p"
    "\<And>u. u \<in> set (db_snapshots db) \<Longrightarrow> is_snapshot (kc_tenant c) (kc_snapshot c) u \<Longrightarrow> u = x"
proof -
  obtain a s where d: "lockQueryAuthority (kc_session c) (kc_tenant c) False now db = Inr a" "loadSnapshotForUpdate (kc_tenant c) (kc_snapshot c) db = Inr s" "\<not> qs_expires s \<le> qa_now a"
    "catalogPageRows uuid_ok c (qs_floor s) db = Inr p"
    using p by (auto simp: catalogPageOnce_def bindR_eq_Inr split: if_splits)
  have n: "qa_now a = now" using d(1) by (auto simp: lockQueryAuthority_def split: if_splits option.splits)
  obtain x where x: "x \<in> set (db_snapshots db)" "is_snapshot (kc_tenant c) (kc_snapshot c) x" "sn_state x = ''active''" "sn_expires x = qs_expires s" "sn_floor x = qs_floor s"
    using d(2) by (auto simp: loadSnapshotForUpdate_def snapshot_of_row_def is_snapshot_def Let_def split: option.splits if_splits dest!: find_SomeD)
  have one: "u = x" if "u \<in> set (db_snapshots db)" "is_snapshot (kc_tenant c) (kc_snapshot c) u" for u
    using ok that x(1,2) unfolding generations_ok_def is_snapshot_def by (metis distinct_map inj_onD)
  show thesis by (rule that [OF x(1,2) _ _ one]) (use x d n in \<open>simp_all add: snapshot_live_def\<close>)
qed

text \<open>
  C5: reads of a snapshot are repeatable. In any run of the control plane's transactions, with
  publications, compactions, retention rewrites and garbage collection in between, two reads of the same
  catalog page of a snapshot that both succeed return the same files, with the same object keys, sizes
  and digests.
\<close>

theorem snapshot_reads_repeat:
  assumes "catalog_inv now db" "catalogPageOnce uuid_ok c now db = Inr p" "(catalog_step uuid_ok)\<^sup>*\<^sup>* (now, db) (now', db')" "catalogPageOnce uuid_ok c now' db' = Inr p'"
  shows "p' = p"
proof -
  have ok: "generations_ok db" "generations_ok db'" using assms(1) catalog_machine.run_inv [OF assms(3)] by (simp_all add: catalog_inv_def)
  obtain x where x: "x \<in> set (db_snapshots db)" "is_snapshot (kc_tenant c) (kc_snapshot c) x" "catalogPageRows uuid_ok c (sn_floor x) db = Inr p"
    using catalogPageOnceD [OF ok(1) assms(2)] by metis
  obtain y where y: "y \<in> set (db_snapshots db')" "is_snapshot (kc_tenant c) (kc_snapshot c) y" "snapshot_live now' y" "catalogPageRows uuid_ok c (sn_floor y) db' = Inr p'"
    "\<And>u. u \<in> set (db_snapshots db') \<Longrightarrow> is_snapshot (kc_tenant c) (kc_snapshot c) u \<Longrightarrow> u = y"
    using catalogPageOnceD [OF ok(2) assms(4)] by metis
  have "page_rows c (sn_floor y) db' = page_rows c (sn_floor y) (snd (now, db)) \<and>
      (\<forall>s \<in> set (db_snapshots (snd (now, db))). is_snapshot (kc_tenant c) (kc_snapshot c) s \<longrightarrow> snapshot_live (fst (now, db)) s \<and> sn_floor s = sn_floor y)"
    by (rule run_pages [OF assms(3)]) (use assms(1) x y(3,5) in auto)
  then have "sn_floor x = sn_floor y" "page_rows c (sn_floor y) db' = page_rows c (sn_floor y) db" using x(1,2) by simp_all
  then show ?thesis using x(3) y(4) by (simp add: catalogPageRows_def)
qed

text \<open>
  C7: the objects that a read may reach survive. In every state of a run, each file of a bundle that is
  current, or visible to a snapshot that is live, has its object in the state \<open>referenced\<close>: not deleted
  and not marked for deletion.
\<close>

theorem reachable_objects_survive:
  assumes "catalog_inv t0 db0" "(catalog_step uuid_ok)\<^sup>*\<^sup>* (t0, db0) (now, db)" "b \<in> set (db_bundles db)" "bu_valid_to b = None \<or> pinned_by now db b"
    "f \<in> set (db_files db)" "fi_tenant f = bu_tenant b" "fi_bundle f = bu_id b"
  shows "(\<exists>i \<in> set (db_intents db). in_id i = fi_intent f \<and> in_tenant i = fi_tenant f) \<and> (\<forall>i \<in> set (db_intents db). in_id i = fi_intent f \<longrightarrow> in_state i = ''referenced'')"
proof -
  have "objects_kept now db" using catalog_machine.run_inv [OF assms(2)] assms(1) by (simp add: catalog_inv_def)
  then show ?thesis using assms(3-) unfolding objects_kept_def bundle_held_def stored_object_def by blast
qed

lemma claimed_objects:
  assumes "claim_gc_objects tenant limit now db = Inr (gs, db')" "g \<in> set gs"
  obtains i where "i \<in> set (db_intents db)" "in_id i = go_intent g" "gcEligible now db i"
proof -
  have "g \<in> (\<lambda>i. \<lparr>go_intent = in_id i, go_key = in_key i, go_attempt = in_sweeps i + 1, go_resweep = (in_state i = ''deleted'')\<rparr>) `
      set (take (nat limit) (sortBy gc_less (filter (\<lambda>i. in_id i \<in> in_id ` set (gc_candidates tenant limit now db) \<and> gcEligible now db i) (db_intents db))))"
    using assms by (auto simp: claim_gc_objects_def Let_def bindR_eq_Inr split: if_splits)
  then obtain i where i: "g = \<lparr>go_intent = in_id i, go_key = in_key i, go_attempt = in_sweeps i + 1, go_resweep = (in_state i = ''deleted'')\<rparr>"
    "i \<in> set (take (nat limit) (sortBy gc_less (filter (\<lambda>i. in_id i \<in> in_id ` set (gc_candidates tenant limit now db) \<and> gcEligible now db i) (db_intents db))))" by blast
  have "i \<in> set (db_intents db)" "gcEligible now db i" using set_take_subset i(2) by fastforce+
  then show thesis using that i(1) by simp
qed

text \<open>
  C6: only dead objects are handed out for deletion. When the collector claims objects after any run,
  no bundle with a file in one of them is current, and none is visible to a snapshot that has neither
  expired nor been released.
\<close>

theorem collected_objects_are_dead:
  assumes "catalog_inv t0 db0" "(catalog_step uuid_ok)\<^sup>*\<^sup>* (t0, db0) (t, db)" "t \<le> now" "claimGCObjects limit now db = Inr (gs, db')" "g \<in> set gs"
    "f \<in> set (db_files db)" "fi_intent f = go_intent g" "b \<in> set (db_bundles db)" "fi_tenant f = bu_tenant b" "fi_bundle f = bu_id b"
  shows "bu_valid_to b \<noteq> None \<and> \<not> pinned_by now db b"
proof (rule ccontr)
  assume "\<not> (bu_valid_to b \<noteq> None \<and> \<not> pinned_by now db b)"
  then have held: "bundle_held now db b" by (simp add: bundle_held_def)
  obtain i where i: "i \<in> set (db_intents db)" "in_id i = go_intent g" "gcEligible now db i" using claimed_objects assms(4,5) unfolding claimGCObjects_def by metis
  have "objects_kept t db" using catalog_machine.run_inv [OF assms(2)] assms(1) by (simp add: catalog_inv_def)
  then have "objects_kept now db" by (rule objects_mono [OF assms(3)])
  then have "in_state i = ''referenced''" using assms(6-10) held i(1,2) unfolding objects_kept_def by metis
  then have "\<not> list_ex (bundle_held now db) (intent_bundles db (in_id i))" using i(3) by (auto simp: gcEligible_def bundle_held_def list_ex_iff)
  then show False using held_intents [OF assms(8,6,9,10)] held i(2) assms(7) by (simp add: list_ex_iff)
qed

subsection \<open>A run for the witnesses\<close>

text \<open>
  A bundle \<open>b1\<close> that a snapshot sees, whose rows have all expired, and an older one \<open>b0\<close>, retired before
  the snapshot was taken. The run retires \<open>b1\<close> and then collects garbage.
\<close>

definition run_bundle :: "string \<Rightarrow> int \<Rightarrow> int option \<Rightarrow> string option \<Rightarrow> bundle_row" where
  "run_bundle i gen until reserved = \<lparr>bu_id = i, bu_tenant = 1, bu_lane = 0, bu_schema = 1, bu_gversion = 1, bu_day = ''2024-02-29'', bu_kind = KindLog, bu_seq_min = 1, bu_seq_max = 2, bu_rows = 2,
    bu_identity = i, bu_generation = gen, bu_projects = [1], bu_valid_to = until, bu_retired = map_option (\<lambda>_. 0) until, bu_reserved = reserved\<rparr>"

definition run_file :: "string \<Rightarrow> string \<Rightarrow> string \<Rightarrow> file_row" where
  "run_file i b role = \<lparr>fi_id = i, fi_tenant = 1, fi_bundle = b, fi_intent = i, fi_role = role, fi_bytes = 7, fi_sha = replicate 64 CHR ''1'', fi_rows = 2, fi_min_event = 4, fi_max_event = 5,
    fi_min_received = 30, fi_max_received = 40, fi_min_seq = 1, fi_max_seq = 2, fi_blocks = [(0, replicate 64 CHR ''1'')]\<rparr>"

definition run_task :: task_row where
  "run_task = \<lparr>ta_id = ''t'', ta_tenant = 1, ta_lane = 0, ta_kind = ''retain'', ta_identity = ''x'', ta_state = ''running'', ta_generation = 1, ta_fence = 1, ta_attempt = 1, ta_owner = Some ''w'',
    ta_lease = Some 2000000000000, ta_retry = 0, ta_manifest = None, ta_sha = None, ta_error = None, ta_floor = Some 50, ta_created = 0, ta_updated = 0\<rparr>"

definition run_snapshot :: "string \<Rightarrow> snapshot_row" where
  "run_snapshot d = \<lparr>sn_id = ''s'', sn_tenant = 1, sn_user = Some 7, sn_kind = ''user'', sn_principal = d, sn_revision = 1, sn_tenant_revision = 1, sn_generation = 1, sn_dataset = ''q'', sn_bytes = ''{}'',
    sn_floor = 0, sn_created = 0, sn_expires = 1000900000000, sn_until = 1003600000000, sn_state = ''active'', sn_projects = [(1, 1)],
    sn_lanes = map (\<lambda>n. \<lparr>sl_lane = n, sl_cut = 8, sl_generation = 5\<rparr>) [0..15]\<rparr>"

definition run_db :: "string \<Rightarrow> control_db" where
  "run_db d = \<lparr>db_installation = ''i'', db_generation = 1, db_tenants = [\<lparr>tn_id = 1, tn_state = ''active'', tn_revision = 1\<rparr>],
    db_users = [\<lparr>us_id = 7, us_state = ''active'', us_revision = 1, us_credential = 1\<rparr>], db_memberships = [\<lparr>me_tenant = 1, me_user = 7, me_role = ''admin''\<rparr>],
    db_projects = [\<lparr>pr_tenant = 1, pr_id = 1, pr_state = ''active'', pr_revision = 1, pr_scrub = 1, pr_config = 1\<rparr>], db_grants = [],
    db_lanes = map (\<lambda>n. \<lparr>la_tenant = 1, la_id = n, la_accepted = 8, la_published = 8, la_generation = 5, la_received = 0\<rparr>) [0..15], db_jobs = [], db_outputs = [], db_parts = [],
    db_intents = [uploaded_intent ''i0'', uploaded_intent ''i1'', uploaded_intent ''i2''], db_batches = [], db_prepared = [], db_issues = [], db_occurrences = [], db_transitions = [], db_audit = [],
    db_bundles = [run_bundle ''b0'' 2 (Some 4) None, run_bundle ''b1'' 3 None (Some ''t'')],
    db_files = [run_file ''i0'' ''b0'' ''analytics'', run_file ''i1'' ''b1'' ''analytics'', run_file ''i2'' ''b1'' ''payload''],
    db_dedupe_days = 30, db_keys = [], db_receipts = [], db_dedupe = [], db_outcomes = [], db_unsupported = [], db_setup = ''ready'', db_recovery = ''ready'', db_floor = 0, db_tick = 0, db_days = 30,
    db_retention_revision = 1, db_gc_safe = Some 1000, db_gc_verified = Some 2000000000000,
    db_sessions = [\<lparr>se_hash = ''h'', se_user = 7, se_credential = 1, se_generation = 1, se_expires = 2000000000000, se_revoked = None\<rparr>],
    db_snapshots = [run_snapshot d], db_tasks = [run_task],
    db_inputs = [\<lparr>mi_task = ''t'', mi_tenant = 1, mi_bundle = ''b1'', mi_generation = 3, mi_identity = ''b1''\<rparr>], db_queries = [], db_backups = [], db_summaries = []\<rparr>"

definition run_retention :: retention_task where
  "run_retention = \<lparr>rk_task = \<lparr>kt_authority = \<lparr>ma_installation = ''i'', ma_generation = 1, ma_task = ''t'', ma_tenant = 1, ma_lane = 0, ma_owner = ''w'', ma_fence = 1\<rparr>,
    kt_partition = \<lparr>cp_schema = 1, cp_gversion = 1, cp_day = ''2024-02-29'', cp_kind = KindLog\<rparr>, kt_prepared = False\<rparr>, rk_floor = 50\<rparr>"

definition run_swapped :: "string \<Rightarrow> control_db" where
  "run_swapped d = (case swapRetention (\<lambda>_. True) run_retention 1000000000001 (run_db d) of Inl _ \<Rightarrow> run_db d | Inr (_, db) \<Rightarrow> db)"

definition run_collected :: "string \<Rightarrow> gc_object list \<times> control_db" where
  "run_collected d = (case claimGCObjects 10 1000000000002 (run_swapped d) of Inl _ \<Rightarrow> ([], run_swapped d) | Inr r \<Rightarrow> r)"

definition run_page :: catalog_command where
  "run_page = \<lparr>kc_session = ''h'', kc_tenant = 1, kc_snapshot = ''s'', kc_dataset = ''q'', kc_bytes = ''{}'', kc_basis = ''event'', kc_start = 0, kc_end = 100, kc_kinds = [], kc_after = [], kc_limit = 10,
    kc_minimum = replicate 16 0\<rparr>"

lemma run_swap: "swapRetention (\<lambda>_. True) run_retention 1000000000001 (run_db d) = Inr (\<lparr>sw_generation = 6, sw_already = False\<rparr>, run_swapped d)"
  by code_simp

lemma run_tables:
  "db_bundles (run_swapped d) = [run_bundle ''b0'' 2 (Some 4) None, (run_bundle ''b1'' 3 (Some 6) None)\<lparr>bu_retired := Some 1000000000001\<rparr>]"
  "db_snapshots (run_swapped d) = [run_snapshot d]"
  "db_files (run_swapped d) = [run_file ''i0'' ''b0'' ''analytics'', run_file ''i1'' ''b1'' ''analytics'', run_file ''i2'' ''b1'' ''payload'']"
  "db_intents (run_swapped d) = [uploaded_intent ''i0'', uploaded_intent ''i1'', uploaded_intent ''i2'']"
  by code_simp+

lemma all_Some: "(\<forall>v. x = Some v \<longrightarrow> P v) \<longleftrightarrow> (case x of None \<Rightarrow> True | Some v \<Rightarrow> P v)"
  by (cases x) simp_all

lemma run_start_inv: "catalog_inv 1000000000000 (run_db d)"
  unfolding catalog_inv_def generations_ok_def all_Some objects_kept_def bundle_held_def by code_simp

lemma run_claim: "claimGCObjects 10 1000000000002 (run_swapped d) = Inr ([\<lparr>go_intent = ''i0'', go_key = ''i0'', go_attempt = 1, go_resweep = False\<rparr>], snd (run_collected d))"
  by code_simp

lemma run_steps:
  "catalog_step (\<lambda>_. True) (1000000000000, run_db d) (1000000000001, run_swapped d)"
  "catalog_step (\<lambda>_. True) (1000000000001, run_swapped d) (1000000000002, snd (run_collected d))"
  by (rule swap_retention [OF _ run_swap], simp) (rule claim_objects [OF _ run_claim], simp)

definition run_query :: "string \<Rightarrow> query_snapshot" where
  "run_query d = \<lparr>qs_id = ''s'', qs_tenant = 1, qs_user = 7, qs_principal = d, qs_revision = 1, qs_tenant_revision = 1, qs_generation = 1, qs_dataset = ''q'', qs_bytes = ''{}'', qs_floor = 0,
    qs_projects = [1], qs_revisions = [1], qs_lanes = map (\<lambda>n. \<lparr>sl_lane = n, sl_cut = 8, sl_generation = 5\<rparr>) [0..15], qs_expires = 1000900000000, qs_until = 1003600000000\<rparr>"

definition run_listed :: "catalog_file list" where
  "run_listed = [\<lparr>cf_all_projects = True, cf_file = ''i1'', cf_bundle = ''b1'', cf_key = ''i1'', cf_bytes = 7, cf_sha = replicate 64 CHR ''1'', cf_rows = 2, cf_min_event = 4, cf_max_event = 5,
    cf_min_received = 30, cf_max_received = 40, cf_min_seq = 1, cf_max_seq = 2, cf_lane = 0, cf_kind = KindLog, cf_blocks = [replicate 64 CHR ''1''],
    cf_payload_file = ''i2'', cf_payload_key = ''i2'', cf_payload_bytes = 7, cf_payload_sha = replicate 64 CHR ''1'', cf_payload_blocks = [replicate 64 CHR ''1'']\<rparr>]"

text \<open>What a read meets in the two states of the run, apart from the principal.\<close>

definition readable :: "string \<Rightarrow> int \<Rightarrow> control_db \<Rightarrow> bool" where
  "readable d now db = (db_setup db = ''ready'' \<and> db_recovery db = ''ready'' \<and> db_generation db = 1 \<and> find (\<lambda>t. tn_id t = 1) (db_tenants db) = Some \<lparr>tn_id = 1, tn_state = ''active'', tn_revision = 1\<rparr> \<and>
    session_user ''h'' 1 now db = Some (\<lparr>us_id = 7, us_state = ''active'', us_revision = 1, us_credential = 1\<rparr>, \<lparr>me_tenant = 1, me_user = 7, me_role = ''admin''\<rparr>) \<and>
    db_projects db = [\<lparr>pr_tenant = 1, pr_id = 1, pr_state = ''active'', pr_revision = 1, pr_scrub = 1, pr_config = 1\<rparr>] \<and>
    loadSnapshotForUpdate 1 ''s'' db = Inr (run_query d) \<and> now < 1000900000000 \<and> catalogPageRows (\<lambda>_. True) run_page 0 db = Inr run_listed)"

lemma readable_page:
  assumes "readable (queryPrincipalHash 7 ''h'') now db"
  shows "catalogPageOnce (\<lambda>_. True) run_page now db = Inr run_listed"
proof -
  have c: "kc_session run_page = ''h''" "kc_tenant run_page = 1" "kc_snapshot run_page = ''s''" "kc_dataset run_page = ''q''" "kc_bytes run_page = ''{}''" by code_simp+
  obtain a where a: "lockQueryAuthority ''h'' 1 False now db = Inr a" "qa_user a = 7" "qa_revision a = 1" "qa_tenant_revision a = 1" "qa_role a = ''admin''" "qa_generation a = 1" "qa_now a = now"
    "qa_principal a = queryPrincipalHash 7 ''h''"
    using assms by (simp add: readable_def lockQueryAuthority_def)
  have "authorizeSnapshotProjects a 1 [1] (Some [1]) db = Inr [1]" using assms a(5) by (simp add: readable_def authorizeSnapshotProjects_def)
  then show ?thesis using assms a by (simp add: catalogPageOnce_def c readable_def run_query_def)
qed

lemma run_reads: "readable d 1000000000000 (run_db d)" "readable d 1000000000002 (snd (run_collected d))"
  by code_simp+

theorem snapshot_reads_repeat_witness:
  "\<exists>p. catalogPageOnce (\<lambda>_. True) run_page 1000000000000 (run_db (queryPrincipalHash 7 ''h'')) = Inr p \<and>
     catalogPageOnce (\<lambda>_. True) run_page 1000000000002 (snd (run_collected (queryPrincipalHash 7 ''h''))) = Inr p \<and> length p = 1"
proof -
  let ?d = "queryPrincipalHash 7 ''h''"
  obtain p' where p': "catalogPageOnce (\<lambda>_. True) run_page 1000000000002 (snd (run_collected ?d)) = Inr p'" using readable_page [OF run_reads(2)] by blast
  have "(catalog_step (\<lambda>_. True))\<^sup>*\<^sup>* (1000000000000, run_db ?d) (1000000000002, snd (run_collected ?d))" using run_steps [of ?d] by simp
  then have "p' = run_listed" using snapshot_reads_repeat [OF run_start_inv readable_page [OF run_reads(1)]] p' by blast
  then show ?thesis using readable_page [OF run_reads(1)] p' by (auto simp: run_listed_def)
qed

theorem reachable_objects_survive_witness:
  "in_state (uploaded_intent ''i1'') = ''referenced'' \<and> bu_valid_to ((run_bundle ''b1'' 3 (Some 6) None)\<lparr>bu_retired := Some 1000000000001\<rparr>) = Some 6"
proof -
  let ?b = "(run_bundle ''b1'' 3 (Some 6) None)\<lparr>bu_retired := Some 1000000000001\<rparr>" and ?f = "run_file ''i1'' ''b1'' ''analytics''"
  have pin: "pinned_by 1000000000001 (run_swapped []) ?b" by code_simp
  have "(\<exists>i \<in> set (db_intents (run_swapped [])). in_id i = fi_intent ?f \<and> in_tenant i = fi_tenant ?f) \<and> (\<forall>i \<in> set (db_intents (run_swapped [])). in_id i = fi_intent ?f \<longrightarrow> in_state i = ''referenced'')"
    by (rule reachable_objects_survive [OF run_start_inv r_into_rtranclp [of "catalog_step (\<lambda>_. True)", OF run_steps(1)], where b = ?b]) (use pin in \<open>simp_all add: run_tables run_file_def run_bundle_def\<close>)
  then show ?thesis by (simp add: run_tables run_file_def run_bundle_def uploaded_intent_def)
qed

theorem collected_objects_are_dead_witness:
  "bu_valid_to (run_bundle ''b0'' 2 (Some 4) None) \<noteq> None \<and> \<not> pinned_by 1000000000002 (run_swapped []) (run_bundle ''b0'' 2 (Some 4) None)"
  by (rule collected_objects_are_dead [OF run_start_inv r_into_rtranclp [of "catalog_step (\<lambda>_. True)", OF run_steps(1)], OF _ run_claim,
      where f = "run_file ''i0'' ''b0'' ''analytics''" and g = "\<lparr>go_intent = ''i0'', go_key = ''i0'', go_attempt = 1, go_resweep = False\<rparr>"])
    (simp_all add: run_claim run_tables run_file_def run_bundle_def)

end
