(* ===== verification/CompactFacts.thy ===== *)
theory CompactFacts
  imports CatalogFacts
begin

section \<open>What a compaction keeps\<close>

text \<open>
  The rows of a lane that are current in the catalog. A swap takes away those of its inputs and adds
  those of its output.
\<close>

definition current_in :: "int \<Rightarrow> int \<Rightarrow> bundle_row \<Rightarrow> int" where
  "current_in tenant lane b = (if bu_tenant b = tenant \<and> bu_lane b = lane \<and> bu_valid_to b = None then bu_rows b else 0)"

definition current_rows :: "int \<Rightarrow> int \<Rightarrow> control_db \<Rightarrow> int" where
  "current_rows tenant lane db = sum_list (map (current_in tenant lane) (db_bundles db))"

definition rows_of :: "work_input list \<Rightarrow> int" where
  "rows_of ws = sum_list (map wi_rows ws)"

lemma update_one:
  fixes h :: "'a \<Rightarrow> int"
  assumes "affected P xs = 1"
  shows "\<exists>b \<in> set xs. P b \<and> sum_list (map h (update_where P f xs)) = sum_list (map h xs) - h b + h (f b)"
  using assms
proof (induction xs)
  case (Cons x xs)
  show ?case
  proof (cases "P x")
    case True
    then have "\<not> P y" if "y \<in> set xs" for y using Cons.prems that by (auto simp: affected_def filter_empty_conv)
    then have "update_where P f xs = xs" by (rule update_where_none)
    then show ?thesis using True by (auto simp: update_where_def)
  next
    case False
    then have "affected P xs = 1" using Cons.prems by (simp add: affected_def)
    from Cons.IH [OF this] show ?thesis using False by (auto simp: update_where_def)
  qed
qed (simp add: affected_def)

text \<open>Retiring the inputs takes away exactly their rows.\<close>

lemma retire_rows:
  assumes "foldR (retire_input a gen now) db ws = Inr db'"
    and "\<And>w b. w \<in> set ws \<Longrightarrow> b \<in> set (db_bundles db) \<Longrightarrow> bu_id b = wi_bundle w \<Longrightarrow> bu_rows b = wi_rows w"
  shows "current_rows tenant lane db' = current_rows tenant lane db - (if tenant = ma_tenant a \<and> lane = ma_lane a then rows_of ws else 0)"
  using assms
proof (induction ws arbitrary: db)
  case Nil
  then show ?case by (simp add: rows_of_def)
next
  case (Cons w ws)
  let ?f = "\<lambda>b. b\<lparr>bu_valid_to := Some gen, bu_retired := Some now, bu_reserved := None\<rparr>"
  let ?db1 = "db\<lparr>db_bundles := update_where (retires a w) ?f (db_bundles db)\<rparr>"
  have one: "affected (retires a w) (db_bundles db) = 1" using Cons.prems(1) by (auto simp: bindR_eq_Inr retire_input_def split: if_splits)
  then have d: "foldR (retire_input a gen now) ?db1 ws = Inr db'" using Cons.prems(1) by (simp add: retire_input_def [of a gen now db w])
  obtain b where b: "b \<in> set (db_bundles db)" "retires a w b"
    "current_rows tenant lane ?db1 = current_rows tenant lane db - current_in tenant lane b + current_in tenant lane (?f b)"
    using update_one [OF one, of "current_in tenant lane" ?f] by (auto simp: current_rows_def)
  have "bu_rows b = wi_rows w" using Cons.prems(2) [of w b] b(1,2) by (simp add: retires_def)
  then have "current_rows tenant lane ?db1 = current_rows tenant lane db - (if tenant = ma_tenant a \<and> lane = ma_lane a then wi_rows w else 0)"
    using b(2,3) by (auto simp: current_in_def retires_def)
  moreover have "current_rows tenant lane db' = current_rows tenant lane ?db1 - (if tenant = ma_tenant a \<and> lane = ma_lane a then rows_of ws else 0)"
    by (rule Cons.IH [OF d]) (use Cons.prems(2) in \<open>auto simp: update_where_def\<close>)
  ultimately show ?case by (simp add: rows_of_def)
qed

text \<open>The totals of the inputs, which the code adds in 64 bits.\<close>

lemma input_totals_rows: "fst (input_totals ws) = foldl (\<lambda>r w. add64 r (wi_rows w)) 0 ws"
proof -
  have "fst (foldl (\<lambda>(rows, lo, hi) (i, w). (add64 rows (wi_rows w), if i = 0 \<or> wi_seq_min w < lo then wi_seq_min w else lo, if hi < wi_seq_max w then wi_seq_max w else hi)) t (List.enumerate n ws)) =
      foldl (\<lambda>r w. add64 r (wi_rows w)) (fst t) ws" for t n
    by (induction ws arbitrary: t n) (simp_all add: split_beta)
  then show ?thesis by (simp add: input_totals_def)
qed

lemma add_rows: "0 \<le> r \<Longrightarrow> list_all (\<lambda>w. 0 \<le> wi_rows w) ws \<Longrightarrow> r + rows_of ws \<le> maxInt64 \<Longrightarrow> foldl (\<lambda>r w. add64 r (wi_rows w)) r ws = r + rows_of ws"
proof (induction ws arbitrary: r)
  case Nil
  then show ?case by (simp add: rows_of_def)
next
  case (Cons w ws)
  have "0 \<le> rows_of ws" using Cons.prems(2) by (auto simp: rows_of_def list_all_iff intro!: sum_list_nonneg)
  then have "add64 r (wi_rows w) = r + wi_rows w" using Cons.prems by (intro add64_id) (simp add: int64_def rows_of_def)
  then show ?case using Cons by (simp add: rows_of_def)
qed

lemma expected_inputs: "loadCompactionExpectations task db = Inr (p, ws) \<Longrightarrow> w \<in> set ws \<Longrightarrow> \<exists>b \<in> set (db_bundles db). w = work_input_of b"
  by (auto simp: loadCompactionExpectations_def expected_bundles_def Let_def split: if_splits)

lemma current_nonneg: "(\<And>b. b \<in> set (db_bundles db) \<Longrightarrow> 0 \<le> bu_rows b) \<Longrightarrow> 0 \<le> current_rows tenant lane db"
  by (auto simp: current_rows_def current_in_def intro!: sum_list_nonneg)

lemma compacted_rows:
  assumes "insertCompactionBundle a p b gen db = Inr db'"
  shows "current_rows tenant lane db' = current_rows tenant lane db + (if tenant = ma_tenant a \<and> lane = ma_lane a then bm_rows b else 0)"
  using insertCompactionBundle_eq [OF assms] by (auto simp: current_rows_def current_in_def compacted_row_def)

lemma swap_steps:
  assumes "swapCompaction uuid_ok a now db = Inr (res, db')" "\<not> sw_already res"
  obtains old p ws b db1 db2 where "loadCompactionExpectations (ma_task a) db = Inr (p, ws)" "validateCompactionOutput uuid_ok b p ws = Inr ()"
    "foldR (retire_input a (old + 1) now) db ws = Inr db1" "insertCompactionBundle a p b (old + 1) db1 = Inr db2" "db_bundles db' = db_bundles db2"
proof -
  obtain old p ws b where d: "loadCompactionExpectations (ma_task a) db = Inr (p, ws)" "validateCompactionOutput uuid_ok b p ws = Inr ()" "replace_inputs a old p ws (Some b) now db = Inr (res, db')"
    using assms by (auto simp: swapCompaction_def swap_output_def bindR_eq_Inr split: if_splits option.splits)
  obtain db1 db2 where "foldR (retire_input a (old + 1) now) db ws = Inr db1" "insertCompactionBundle a p b (old + 1) db1 = Inr db2" "db_bundles db' = db_bundles db2"
    using d(3) by (auto simp: replace_inputs_def bump_lane_def Let_def bindR_eq_Inr split: if_splits dest!: update_task_eq)
  then show thesis using that d(1,2) by blast
qed

text \<open>
  C10: a compaction loses and invents no row. When a swap succeeds, every lane has as many current rows
  after it as before, where bundle identifiers are unique and the rows of the lane can be counted in 64
  bits.
\<close>

theorem compaction_conserves_rows:
  assumes swap: "swapCompaction uuid_ok a now db = Inr (res, db')" "\<not> sw_already res"
    and ids: "distinct (map bu_id (db_bundles db))" and pos: "\<And>b. b \<in> set (db_bundles db) \<Longrightarrow> 0 \<le> bu_rows b" and fit: "current_rows (ma_tenant a) (ma_lane a) db \<le> maxInt64"
  shows "current_rows tenant lane db' = current_rows tenant lane db"
  using swap
proof (rule swap_steps)
  fix old p ws b db1 db2
  assume d: "loadCompactionExpectations (ma_task a) db = Inr (p, ws)" "validateCompactionOutput uuid_ok b p ws = Inr ()" "foldR (retire_input a (old + 1) now) db ws = Inr db1"
    "insertCompactionBundle a p b (old + 1) db1 = Inr db2" "db_bundles db' = db_bundles db2"
  have row: "bu_rows x = wi_rows w" if h: "w \<in> set ws" "x \<in> set (db_bundles db)" "bu_id x = wi_bundle w" for w x
  proof -
    obtain y where y: "y \<in> set (db_bundles db)" "w = work_input_of y" using expected_inputs [OF d(1) h(1)] by blast
    have "bu_id y = bu_id x" using y(2) h(3) by (simp add: work_input_of_def)
    then have "y = x" using ids y(1) h(2) by (metis distinct_map inj_onD)
    then show ?thesis using y(2) by (simp add: work_input_of_def)
  qed
  have nonneg: "list_all (\<lambda>w. 0 \<le> wi_rows w) ws" using expected_inputs [OF d(1)] pos by (fastforce simp: list_all_iff work_input_of_def)
  obtain bs where bs: "db1 = db\<lparr>db_bundles := bs\<rparr>" "list_all2 (retired_as a (old + 1)) (db_bundles db) bs" using retire_inputs_eq [OF d(3)] by blast
  have "0 \<le> bu_rows x" if x: "x \<in> set (db_bundles db1)" for x
  proof -
    obtain y where "y \<in> set (db_bundles db)" "retired_as a (old + 1) y x" using list_all2_memE [OF bs(2), of x] x bs(1) by auto
    then show ?thesis using pos [of y] by (auto simp: retired_as_def)
  qed
  then have "0 \<le> current_rows (ma_tenant a) (ma_lane a) db1" by (rule current_nonneg)
  moreover have "current_rows (ma_tenant a) (ma_lane a) db1 = current_rows (ma_tenant a) (ma_lane a) db - rows_of ws" by (subst retire_rows [OF d(3)]) (simp_all add: row)
  ultimately have "rows_of ws \<le> maxInt64" using fit by linarith
  then have "fst (input_totals ws) = rows_of ws" using add_rows [OF _ nonneg, of 0] by (simp add: input_totals_rows)
  then have "bm_rows b = rows_of ws" using d(2) by (auto simp: validateCompactionOutput_def check_def Let_def split: if_splits)
  moreover have "current_rows tenant lane db1 = current_rows tenant lane db - (if tenant = ma_tenant a \<and> lane = ma_lane a then rows_of ws else 0)" by (rule retire_rows [OF d(3) row])
  moreover have "current_rows tenant lane db' = current_rows tenant lane db2" using d(5) by (simp add: current_rows_def)
  ultimately show ?thesis using compacted_rows [OF d(4), of tenant lane] by simp
qed

subsection \<open>A swap for the witness\<close>

definition small_bundle :: "string \<Rightarrow> int \<Rightarrow> bundle_row" where
  "small_bundle i project = (run_bundle i 3 None (Some ''t''))\<lparr>bu_rows := 1, bu_seq_min := 9, bu_seq_max := 9, bu_projects := [project]\<rparr>"

definition swap_db :: "string \<Rightarrow> string \<Rightarrow> control_db" where
  "swap_db encoded sha = (run_db [])\<lparr>db_bundles := [small_bundle ''b1'' 1, small_bundle ''b2'' 4], db_files := [],
    db_intents := [(uploaded_intent ''analytics'')\<lparr>in_task := Some ''t''\<rparr>, (uploaded_intent ''payload'')\<lparr>in_task := Some ''t''\<rparr>],
    db_tasks := [run_task\<lparr>ta_kind := ''compact'', ta_floor := None, ta_manifest := Some encoded, ta_sha := Some sha\<rparr>],
    db_inputs := map (\<lambda>i. \<lparr>mi_task = ''t'', mi_tenant = 1, mi_bundle = i, mi_generation = 3, mi_identity = i\<rparr>) [''b1'', ''b2'']\<rparr>"

definition swap_authority :: maintenance_authority where
  "swap_authority = kt_authority (rk_task run_retention)"

definition swap_inputs :: "work_input list" where
  "swap_inputs = map work_input_of [small_bundle ''b1'' 1, small_bundle ''b2'' 4]"

definition swap_partition :: compaction_partition where
  "swap_partition = partition_of (small_bundle ''b1'' 1)"

definition swap_after :: "string \<Rightarrow> string \<Rightarrow> control_db" where
  "swap_after e d = (case replace_inputs swap_authority 5 swap_partition swap_inputs (Some sample_bundle) 100 (swap_db e d) of Inl _ \<Rightarrow> swap_db e d | Inr (_, db) \<Rightarrow> db)"

lemma strict_bundle: "bundle_ok b \<Longrightarrow> strictControlJSON bundle_of (marshalBundle b) = Some b"
  using unmarshal_print [OF quotes_marshalString printable_bundle [of b]] height_bundle [of b] bundle_of_json [of b]
  by (simp add: strictControlJSON_def marshalBundle_def)

lemma swap_parts:
  "loadCompactionExpectations ''t'' (swap_db e d) = Inr (swap_partition, swap_inputs)" "validateCompactionOutput (\<lambda>_. True) sample_bundle swap_partition swap_inputs = Inr ()"
  "lockRuntimeGeneration ''i'' 1 (swap_db e d) = Inr ()" "lockRunningMaintenance swap_authority 100 (swap_db e d) = Inr ()" "validateMaintenanceAuthority (\<lambda>_. True) swap_authority"
  "find (\<lambda>l. la_tenant l = 1 \<and> la_id l = 0) (db_lanes (swap_db e d)) = Some \<lparr>la_tenant = 1, la_id = 0, la_accepted = 8, la_published = 8, la_generation = 5, la_received = 0\<rparr>"
  "find (\<lambda>t. ta_id t = ''t'' \<and> ta_tenant t = 1 \<and> ta_lane t = 0) (db_tasks (swap_db e d)) = Some (run_task\<lparr>ta_kind := ''compact'', ta_floor := None, ta_manifest := Some e, ta_sha := Some d\<rparr>)"
  "replace_inputs swap_authority 5 swap_partition swap_inputs (Some sample_bundle) 100 (swap_db e d) = Inr (\<lparr>sw_generation = 6, sw_already = False\<rparr>, swap_after e d)"
  "ma_installation swap_authority = ''i''" "ma_generation swap_authority = 1" "ma_task swap_authority = ''t''" "ma_tenant swap_authority = 1" "ma_lane swap_authority = 0" "ma_owner swap_authority = ''w''" "ma_fence swap_authority = 1"
  by code_simp+

lemma swap_run:
  defines "e \<equiv> marshalBundle sample_bundle"
  shows "swapCompaction (\<lambda>_. True) swap_authority 100 (swap_db e (sha256_hex e)) = Inr (\<lparr>sw_generation = 6, sw_already = False\<rparr>, swap_after e (sha256_hex e))"
proof -
  have e: "strictControlJSON bundle_of e = Some sample_bundle" unfolding e_def by (rule strict_bundle [OF sample_bundle_valid(2)])
  have "e \<noteq> []" by (simp add: e_def marshalBundle_def bundle_json_def)
  then show ?thesis using e by (simp add: swapCompaction_def swap_output_def swap_parts run_task_def owner_of_def)
qed

theorem compaction_conserves_rows_witness:
  "current_rows 1 0 (swap_after (marshalBundle sample_bundle) (sha256_hex (marshalBundle sample_bundle))) = 2"
proof -
  let ?e = "marshalBundle sample_bundle"
  have b: "db_bundles (swap_db e d) = [small_bundle ''b1'' 1, small_bundle ''b2'' 4]" for e d by (simp add: swap_db_def)
  have "current_rows 1 0 (swap_after ?e (sha256_hex ?e)) = current_rows 1 0 (swap_db ?e (sha256_hex ?e))"
    by (rule compaction_conserves_rows [OF swap_run]) (auto simp: b current_rows_def current_in_def small_bundle_def run_bundle_def swap_parts)
  then show ?thesis by (simp add: b current_rows_def current_in_def small_bundle_def run_bundle_def)
qed

end
