(* ===== verification/Spec2Isabelle.thy ===== *)
theory Spec2Isabelle
  imports Budget Receipt CanonicalFilter Dataset TopK Batcher IssueGroup IssueHistory PrepareFacts Token CompactFacts
begin

text \<open>
  \<^bold>\<open>Eventglass\<close> is an event store: SDKs send errors, transactions and logs over HTTP; requests are
  collected into batches, a batch is written to a journal object and accepted in one PostgreSQL
  transaction; a worker converts the journal of an accepted batch into columnar files, records them
  in a manifest and prepares them; a publisher makes the files of the next batch of a lane visible
  in the catalog and updates the issues; queries read published files by canonical scope, through
  snapshots that pin what they see, while maintenance merges, rewrites and finally deletes files.

  This development models the parts of that path that the Go sources under \<open>src/internal\<close> decide by
  themselves, one theory per part, in the order in which data flows. Every definition carries the name
  of the Go function or type it translates (or, for a piece of one, a name in lower case with
  underscores); machine integers are \<open>int\<close> with the wrap-around of \<open>int64\<close> written out (\<open>add64\<close>,
  \<open>sub64\<close>, \<open>mul64\<close>); strings are byte lists; errors are the left summand of a result; loops are
  recursion or folds.

  \<^bold>\<open>Foundations.\<close>
  \<^item> \<open>Prelude\<close>: results (\<open>bindR\<close>, \<open>mapR\<close>, \<open>foldR\<close>), 64-bit arithmetic, Go's quotient and remainder,
    the insertion sort that stands for \<open>sort.Slice\<close> on orders that make the result unique, and the
    locales \<open>state_machine\<close> and \<open>strict_weak_order\<close>.
  \<^item> \<open>GoStd\<close>, \<open>GoJson\<close>, \<open>JsonText\<close>, \<open>GoStruct\<close>: what the sources use of the Go library: varints,
    hexadecimal, base64, UTF-8, SHA-256, HMAC, \<open>encoding/json\<close> (its encoder, its decoder, that they are
    inverse on printable values, and how the decoder fills a struct). SHA-256 is executable and never assumed to be injective: a statement about a digest is a
    statement about the bytes that are hashed.

  \<^bold>\<open>Receiving\<close> (\<open>internal/resource\<close>, \<open>internal/ingest\<close>).
  \<^item> \<open>Budget\<close>: \<open>resource/budget.go\<close>. Each critical section is an operation, the interleavings of
    goroutines are a step relation; accounting, no double close of a channel, wake-ups.
  \<^item> \<open>Receipt\<close>: \<open>model/receipt.go\<close>, \<open>model/topology.go\<close>, \<open>ingest/identity.go\<close>: acceptance identifiers
    and their lanes, the canonical receipt of a request.
  \<^item> \<open>Batcher\<close>: \<open>ingest/batcher.go\<close>. The dispatcher goroutine is a machine whose steps are the cases of
    its \<open>select\<close>, in any order; every admitted request is answered exactly once, limits, work
    conservation, drain, and what a cancelled root context leaves behind.
  \<^item> \<open>Records\<close>: \<open>model/record.go\<close>, \<open>ingest/dedupe.go\<close>: records and the deduplication digest.

  \<^bold>\<open>The control database\<close> (\<open>internal/control\<close>). \<open>ControlDB\<close> is a record of tables, a table a list of
  rows; a transaction is a function from a database and the time of its statements to an error or a
  new database, so an error leaves the tables as they were. Row locks serialise the transactions that
  are modelled; where a transaction can see a change between two of its statements the model takes
  both databases (\<open>accept_transaction\<close>).
  \<^item> \<open>Accept\<close>, \<open>AcceptFacts\<close>: \<open>accept.go\<close>, \<open>receipts.go\<close>. Validation, authority checks,
    deduplication, receipts, the lane sequence, retries and the confirmation after a lost commit.
    Deduplication agrees with a reference classification; acceptance is idempotent while its receipts
    are stored and the tenant is active.
  \<^item> \<open>Jobs\<close>: \<open>jobs.go\<close>, \<open>intents.go\<close>. Claims, leases, fences and object intents; the locale
    \<open>fenced_operation\<close> states what a fence promises and is interpreted for the heartbeat and both
    intent operations; claims are exclusive and in order.
  \<^item> \<open>Manifest\<close>, \<open>ManifestPager\<close>: \<open>model/publication.go\<close>, \<open>storage/manifest.go\<close>. The manifest's canonical
    JSON and its round trip, the pager and what its parts hold.
  \<^item> \<open>Prepare\<close>, \<open>PrepareFacts\<close>: \<open>prepare.go\<close>. The hand-over of an output; what it leaves passes every
    check of the publication that claims it, up to the writes of the catalog.
  \<^item> \<open>Publish\<close>: \<open>publish.go\<close>. A publication refines one step of an append-only catalog and adds
    only verified objects.
  \<^item> \<open>IssueLifecycle\<close>, \<open>IssueGroup\<close>, \<open>IssueStore\<close>, \<open>IssueStoreFacts\<close>, \<open>IssueHistory\<close>: \<open>internal/issues\<close>,
    \<open>control/issues.go\<close>, \<open>control/issue_status.go\<close>, the role check of \<open>control/alerts.go\<close>. Issue state
    is independent of the order of occurrences, regressions, grouping; publishing is idempotent and
    pages through every row once, status changes compare and swap. \<open>IssueHistory\<close> runs publications,
    status changes and the retention cleanup together: the counters of an issue are exact lifetime
    counts, of the stored occurrences and of those whose detail has expired.

  \<^bold>\<open>Querying\<close> (\<open>internal/query\<close>).
  \<^item> \<open>Codec\<close>, \<open>FilterExpr\<close>, \<open>CanonicalFilter\<close>, \<open>Dataset\<close>: \<open>filter.go\<close>, \<open>hash.go\<close>, \<open>canonical_filter.go\<close>.
    The validator accepts exactly the well-typed filters; canonical bytes round-trip and identify
    filters and scopes.
  \<^item> \<open>Aggregate\<close>, \<open>Heap\<close>, \<open>TopK\<close>: \<open>merge.go\<close>, \<open>topk.go\<close>. Exact sums over five limbs, averages, groups,
    histogram buckets, and the bounded heap as a selection of the best groups.

  \<^item> \<open>Token\<close>: \<open>token.go\<close>. Signed read, cursor and live tokens: the codec accepts exactly the tokens that
    its keys signed, and the claims of the locale \<open>token_claims\<close>, interpreted for the three kinds,
    round-trip; the order in which an expectation is checked is fixed.
  \<^item> \<open>Live\<close>: \<open>live.go\<close>, \<open>live_budget.go\<close>, \<open>live_operation.go\<close> and the turn of \<open>api/public_live.go\<close>. A live stream delivers
    every row once and in order, and each turn makes progress.

  \<^bold>\<open>Snapshots and maintenance\<close> (\<open>internal/control\<close>).
  \<^item> \<open>Snapshot\<close>: \<open>snapshots.go\<close>, \<open>snapshot_validation.go\<close>, \<open>retention_policy.go\<close>, \<open>record_retention.go\<close>. Creating,
    loading, renewing and releasing a snapshot under the authority of a session; the retention floor.
  \<^item> \<open>Catalog\<close>: \<open>catalog.go\<close>. The page of files that a snapshot sees, as a join over the tables.
  \<^item> \<open>Compact\<close>, \<open>CompactFacts\<close>: \<open>maintenance.go\<close>, \<open>maintenance_work.go\<close>, \<open>maintenance_swap.go\<close>, \<open>retention.go\<close>,
    \<open>retention_swap.go\<close>. Reserving bundles, the lease of the task, its objects, and the swap of inputs for
    an output; a compaction conserves the rows of a lane.
  \<^item> \<open>Collect\<close>, \<open>Cleanup\<close>: \<open>gc.go\<close>. Which objects may be deleted, the two phases of deleting them, and the
    cleanup of expired rows, which no later acceptance and no live snapshot can notice. \<open>Collect\<close> also
    states the invariant of the catalog (the objects of a bundle that is current or visible to a live
    snapshot are referenced) and the moves that keep it.
  \<^item> \<open>CatalogRun\<close>, \<open>CatalogFacts\<close>: every modelled transaction is such a move, so the runs of all of them,
    as an instance of \<open>state_machine\<close>, keep the invariant: reads of a snapshot are repeatable, objects
    that a read can reach survive, and the collector hands out only dead ones.

  \<^bold>\<open>Parameters.\<close> \<open>regexp.Compile\<close> is the argument \<open>re_ok\<close> of the filter validator; random bytes, clock
  readings, the iteration order of a Go map and the contents of local files are arguments; \<open>uuid.Validate\<close>
  is the argument \<open>uuid_ok\<close>; the rows another transaction holds locked (\<open>SKIP LOCKED\<close>) are an argument of
  the conversion claim.

  \<^bold>\<open>Bounds and fuel.\<close> The JSON reader has fuel twice the length of the text; \<open>GoJson\<close> shows that more fuel
  does not change its result. The other loops that are not structural (varints, runes, filters, the
  page loops, the dispatcher) are functions with a termination proof.

  \<^bold>\<open>Not modelled.\<close> Pure I/O and glue (HTTP handlers, S3, process start, migrations), the native query
  engine and the SQL text it runs, normalization and the SDK envelope parser, query jobs, alerts,
  recovery, users and sessions. So the runs of \<open>CatalogRun\<close> have no step for the objects of query results,
  the snapshots that alerts create, the lanes of a new tenant, the lane update of an alert evaluation, and
  recovery; the runs of \<open>IssueHistory\<close> have none for recovery. Foreign keys and columns that no modelled operation
  reads are left out of the tables; a transaction is atomic and its statements share one clock reading.
\<close>

end
